(* ===== verification/Prelude.thy ===== *)
theory Prelude
  imports Complex_Main "HOL-Library.Word" "HOL-Library.Char_ord" "HOL-Library.List_Lexorder"
    "HOL-Library.Code_Target_Nat"
begin

text \<open>
  Shared vocabulary of the development: results as sums, bytes, the two integer widths that Go
  programs count in, the lemma collections the component theories fill, and the two generic
  interfaces the components instantiate: a self-delimiting codec (wire formats) and an
  invariant of a step relation (state machines).
\<close>

named_theorems go_simps \<open>unfolding rules for the modelled standard library\<close>
named_theorems wire_simps \<open>rules for evaluating wire formats\<close>

subsection \<open>Results, bytes and integers\<close>

text \<open>A fallible Go function returns a value or an error: \<open>Inl\<close> is the error.\<close>

type_synonym ('e, 'a) result = "'e + 'a"

text \<open>
  A byte is a \<open>char\<close> (HOL's characters are the 256 byte values), so a Go string, which is a
  sequence of bytes, is a \<open>string\<close>, and the conversions between \<open>string\<close> and
  \<open>[]byte\<close> are identities, as they are in Go up to copying.
\<close>

type_synonym byte = char
type_synonym bytes = "char list"

fun is_ok :: "('e, 'a) result \<Rightarrow> bool" where
  "is_ok (Inr _) = True"
| "is_ok (Inl _) = False"

lemma is_ok_iff: "is_ok r \<longleftrightarrow> (\<exists>x. r = Inr x)"
  by (cases r) auto

definition result_holds :: "('a \<Rightarrow> bool) \<Rightarrow> ('e, 'a) result \<Rightarrow> bool" where
  "result_holds P r = (case r of Inl _ \<Rightarrow> False | Inr x \<Rightarrow> P x)"

lemma result_holds_iff: "result_holds P r \<longleftrightarrow> (\<exists>x. r = Inr x \<and> P x)"
  by (cases r) (auto simp: result_holds_def)

text \<open>
  \<open>if err := check(); err != nil { return err }\<close> and \<open>x, err := f(); if err != nil { return err }\<close>:
  the two ways the source sequences fallible steps.
\<close>

definition unless_err :: "'e option \<Rightarrow> ('e, 'a) result \<Rightarrow> ('e, 'a) result" where
  "unless_err e k = (case e of Some err \<Rightarrow> Inl err | None \<Rightarrow> k)"

definition and_then :: "('e, 'b) result \<Rightarrow> ('b \<Rightarrow> ('e, 'a) result) \<Rightarrow> ('e, 'a) result" where
  "and_then r f = (case r of Inl err \<Rightarrow> Inl err | Inr x \<Rightarrow> f x)"

lemma unless_err_Inr [simp]: "unless_err e k = Inr y \<longleftrightarrow> e = None \<and> k = Inr y"
  by (auto simp: unless_err_def split: option.splits)

lemma and_then_Inr [simp]: "and_then r f = Inr y \<longleftrightarrow> (\<exists>x. r = Inr x \<and> f x = Inr y)"
  by (auto simp: and_then_def split: sum.splits)

lemma unless_err_Inl: "unless_err e k = Inl x \<longleftrightarrow> e = Some x \<or> (e = None \<and> k = Inl x)"
  by (auto simp: unless_err_def split: option.splits)

lemma and_then_Inl: "and_then r f = Inl e \<longleftrightarrow> r = Inl e \<or> (\<exists>x. r = Inr x \<and> f x = Inl e)"
  by (auto simp: and_then_def split: sum.splits)

lemma unless_err_simps [simp]: "unless_err None k = k" "unless_err (Some e) k = Inl e"
  by (simp_all add: unless_err_def)

lemma and_then_simps [simp]: "and_then (Inr x) f = f x" "and_then (Inl e) f = Inl e"
  by (simp_all add: and_then_def)

text \<open>
  \<open>for _, x := range xs { if err := f(x); err != nil { return err } }\<close>: the first error in
  list order, or success.
\<close>

fun for_all_ok :: "('a \<Rightarrow> 'e option) \<Rightarrow> 'a list \<Rightarrow> 'e option" where
  "for_all_ok f [] = None"
| "for_all_ok f (x # xs) = (case f x of Some e \<Rightarrow> Some e | None \<Rightarrow> for_all_ok f xs)"

lemma for_all_ok_None [simp]: "for_all_ok f xs = None \<longleftrightarrow> (\<forall>x\<in>set xs. f x = None)"
  by (induction xs) (auto split: option.splits)

lemma for_all_ok_Some: "for_all_ok f xs = Some e \<Longrightarrow> \<exists>x\<in>set xs. f x = Some e"
  by (induction xs) (auto split: option.splits)

text \<open>Go's \<open>int\<close> and \<open>int64\<close> wrap at 64 bits.\<close>

definition i64 :: "int \<Rightarrow> int" where
  "i64 x = (x + 2 ^ 63) mod 2 ^ 64 - 2 ^ 63"

definition in_i64 :: "int \<Rightarrow> bool" where
  "in_i64 x \<longleftrightarrow> - (2 ^ 63) \<le> x \<and> x < 2 ^ 63"

lemma i64_id: "in_i64 x \<Longrightarrow> i64 x = x"
  by (simp add: i64_def in_i64_def)

lemma in_i64_i64: "in_i64 (i64 x)"
  unfolding in_i64_def i64_def
  using pos_mod_bound [of "2 ^ 64" "x + 2 ^ 63"] pos_mod_sign [of "2 ^ 64" "x + 2 ^ 63"]
  by simp

lemma i64_numeral: "\<bar>x\<bar> < 2 ^ 62 \<Longrightarrow> i64 x = x"
  by (rule i64_id) (simp add: in_i64_def abs_less_iff)

subsection \<open>Big-endian integers\<close>

abbreviation nat_of_byte :: "byte \<Rightarrow> nat" where
  "nat_of_byte \<equiv> of_char"

abbreviation byte_of_nat :: "nat \<Rightarrow> byte" where
  "byte_of_nat \<equiv> char_of"

definition be16 :: "byte \<Rightarrow> byte \<Rightarrow> nat" where
  "be16 a b = nat_of_byte a * 256 + nat_of_byte b"

definition put16 :: "nat \<Rightarrow> bytes" where
  "put16 n = [byte_of_nat (n div 256), byte_of_nat n]"

definition be32 :: "byte \<Rightarrow> byte \<Rightarrow> byte \<Rightarrow> byte \<Rightarrow> nat" where
  "be32 a b c d = be16 a b * 65536 + be16 c d"

definition put32 :: "nat \<Rightarrow> bytes" where
  "put32 n = put16 (n div 65536) @ put16 n"

lemma be16_less [simp]: "be16 a b < 65536"
  using nat_of_char_less_256 [of a] nat_of_char_less_256 [of b] unfolding be16_def by linarith

lemma byte_of_nat_mod: "byte_of_nat n = byte_of_nat (n mod 256)"
  by (metis of_char_of char_of_char mod_mod_trivial)

lemma put16_be16 [simp]: "put16 (be16 a b) = [a, b]"
proof -
  have "byte_of_nat (nat_of_byte a * 256 + nat_of_byte b) = byte_of_nat (nat_of_byte b)"
    by (subst byte_of_nat_mod) simp
  then show ?thesis
    using nat_of_char_less_256 [of b] by (simp add: put16_def be16_def)
qed

lemma be16_put16 [simp]: "be16 (byte_of_nat (n div 256)) (byte_of_nat n) = n mod 65536"
proof -
  have "n div 256 mod 256 * 256 + n mod 256 = n mod 65536"
    using mod_mult2_eq [of n 256 256] by (simp add: mult.commute)
  then show ?thesis by (simp add: be16_def)
qed

lemma length_put16 [simp]: "length (put16 n) = 2"
  by (simp add: put16_def)

lemma length_put32 [simp]: "length (put32 n) = 4"
  by (simp add: put32_def)

lemma put32_cases:
  "put32 n = [byte_of_nat (n div 16777216), byte_of_nat (n div 65536), byte_of_nat (n div 256),
    byte_of_nat n]"
  by (simp add: put32_def put16_def div_mult2_eq [symmetric])

lemma be32_put32 [simp]:
  "be32 (byte_of_nat (n div 16777216)) (byte_of_nat (n div 65536)) (byte_of_nat (n div 256))
     (byte_of_nat n) = n mod 4294967296"
proof -
  have hi: "be16 (byte_of_nat (n div 16777216)) (byte_of_nat (n div 65536)) = n div 65536 mod 65536"
    using be16_put16 [of "n div 65536"] by (simp add: div_mult2_eq [symmetric])
  have "n div 65536 mod 65536 * 65536 + n mod 65536 = n mod 4294967296"
    using mod_mult2_eq [of n 65536 65536] by (simp add: mult.commute)
  then show ?thesis by (simp add: be32_def hi)
qed

lemma be32_less [simp]: "be32 a b c d < 4294967296"
  using be16_less [of a b] be16_less [of c d] unfolding be32_def by linarith

subsection \<open>Self-delimiting wire formats\<close>

text \<open>
  The contract of a format that a reader takes off the front of a buffer: what was written is read
  back with the rest of the buffer left over, a read always consumes something, and bytes that
  arrive later do not change what was read. The wire formats of the proxy and of the guest protocol
  are instances; what follows from the contract is proved once here.
\<close>

locale wire_format =
  fixes enc :: "'a \<Rightarrow> bytes" and dec :: "bytes \<Rightarrow> ('a \<times> bytes) option" and ok :: "'a \<Rightarrow> bool"
  assumes dec_enc: "ok x \<Longrightarrow> dec (enc x @ rest) = Some (x, rest)"
    and dec_shorter: "dec b = Some (x, rest) \<Longrightarrow> length rest < length b"
    and dec_later: "dec b = Some (x, rest) \<Longrightarrow> dec (b @ more) = Some (x, rest @ more)"
begin

lemma enc_nonempty: "ok x \<Longrightarrow> enc x \<noteq> []"
proof
  assume "ok x" "enc x = []"
  then have "dec [] = Some (x, [])" using dec_enc [of x "[]"] by simp
  then show False using dec_shorter [of "[]" x "[]"] by simp
qed

text \<open>No encoding is a prefix of another, so a stream of them has one reading.\<close>

lemma enc_unique: "ok x \<Longrightarrow> ok y \<Longrightarrow> enc x @ r = enc y @ s \<Longrightarrow> x = y \<and> r = s"
proof -
  assume ok: "ok x" "ok y" and eq: "enc x @ r = enc y @ s"
  have "Some (x, r) = dec (enc x @ r)" by (rule dec_enc [OF ok(1), symmetric])
  also have "\<dots> = dec (enc y @ s)" by (rule arg_cong [OF eq])
  also have "\<dots> = Some (y, s)" by (rule dec_enc [OF ok(2)])
  finally show "x = y \<and> r = s" by simp
qed

lemma enc_inj: "inj_on enc {x. ok x}"
proof (rule inj_onI)
  fix x y assume "x \<in> {x. ok x}" "y \<in> {x. ok x}" "enc x = enc y"
  then show "x = y" using enc_unique [of x y "[]" "[]"] by simp
qed

lemma stream_unique:
  "list_all ok xs \<Longrightarrow> list_all ok ys \<Longrightarrow> concat (map enc xs) = concat (map enc ys) \<Longrightarrow> xs = ys"
proof (induction xs arbitrary: ys)
  case Nil
  then show ?case using enc_nonempty by (cases ys) auto
next
  case (Cons x xs)
  show ?case
  proof (cases ys)
    case Nil
    with Cons.prems enc_nonempty [of x] show ?thesis by simp
  next
    case (Cons y ys')
    have "x = y \<and> concat (map enc xs) = concat (map enc ys')"
      using Cons.prems Cons by (intro enc_unique) simp_all
    with Cons.IH [of ys'] Cons.prems Cons show ?thesis by simp
  qed
qed

text \<open>Reading messages until the buffer runs out, with a bound on how many.\<close>

primrec dec_upto :: "nat \<Rightarrow> bytes \<Rightarrow> 'a list" where
  "dec_upto 0 b = []"
| "dec_upto (Suc n) b = (case dec b of None \<Rightarrow> [] | Some (x, rest) \<Rightarrow> x # dec_upto n rest)"

lemma dec_upto_stream: "list_all ok xs \<Longrightarrow> dec_upto (length xs) (concat (map enc xs) @ rest) = xs"
  by (induction xs) (simp_all add: dec_enc)

end

subsection \<open>Invariants of step relations\<close>

text \<open>
  A state machine is a step relation with an initial-state predicate. An invariant that the initial
  states satisfy and every step keeps holds in every reachable state.
\<close>

inductive reach :: "('s \<Rightarrow> bool) \<Rightarrow> ('s \<Rightarrow> 's \<Rightarrow> bool) \<Rightarrow> 's \<Rightarrow> bool" for init step where
  reach_init: "init s \<Longrightarrow> reach init step s"
| reach_step: "reach init step s \<Longrightarrow> step s t \<Longrightarrow> reach init step t"

locale step_invariant =
  fixes init :: "'s \<Rightarrow> bool" and step :: "'s \<Rightarrow> 's \<Rightarrow> bool" and inv :: "'s \<Rightarrow> bool"
  assumes inv_init: "init s \<Longrightarrow> inv s"
    and inv_step: "inv s \<Longrightarrow> step s t \<Longrightarrow> inv t"
begin

lemma inv_reach: "reach init step s \<Longrightarrow> inv s"
  by (induction rule: reach.induct) (auto intro: inv_init inv_step)

lemma inv_steps: "step\<^sup>*\<^sup>* s t \<Longrightarrow> inv s \<Longrightarrow> inv t"
  by (induction rule: rtranclp_induct) (auto intro: inv_step)

end

text \<open>
  A run with what happened at each step. Where an invariant is kept by all but some kinds of step, a run ends in it or has a step of
  such a kind.
\<close>

inductive trace :: "('s \<Rightarrow> 'e \<Rightarrow> 's \<Rightarrow> bool) \<Rightarrow> 's \<Rightarrow> 'e list \<Rightarrow> 's \<Rightarrow> bool" for step where
  trace_none: "trace step s [] s"
| trace_more: "trace step s es t \<Longrightarrow> step t e u \<Longrightarrow> trace step s (es @ [e]) u"

lemma reach_trace:
  assumes "reach init step s" "\<And>s t. step s t \<Longrightarrow> move s e t"
  shows "\<exists>s0 n. init s0 \<and> trace move s0 (replicate n e) s"
  using assms(1)
proof (induction rule: reach.induct)
  case (reach_init s)
  then have "init s \<and> trace move s (replicate 0 e) s" by (simp add: trace_none)
  then show ?case by blast
next
  case (reach_step s t)
  then obtain s0 n where "init s0" "trace move s0 (replicate n e) s" by blast
  moreover from this(2) assms(2) [OF reach_step.hyps(2)] have "trace move s0 (replicate n e @ [e]) t" by (rule trace_more)
  ultimately have "init s0 \<and> trace move s0 (replicate (Suc n) e) t" by (simp add: replicate_append_same)
  then show ?case by blast
qed

locale event_invariant =
  fixes init :: "'s \<Rightarrow> bool" and step :: "'s \<Rightarrow> 'e \<Rightarrow> 's \<Rightarrow> bool" and ordinary :: "'e \<Rightarrow> bool" and inv :: "'s \<Rightarrow> bool"
  assumes holds_first: "init s \<Longrightarrow> inv s"
    and kept: "inv s \<Longrightarrow> step s e t \<Longrightarrow> ordinary e \<Longrightarrow> inv t"
begin

lemma inv_trace: "trace step s es t \<Longrightarrow> init s \<Longrightarrow> inv t \<or> (\<exists>e \<in> set es. \<not> ordinary e)"
proof (induction rule: trace.induct)
  case (trace_more s es t e u)
  then show ?case using kept [of t e u] by auto
qed (simp add: holds_first)

end

end
