(* ===== verification/Go_Strings.thy ===== *)
theory Go_Strings
  imports Prelude
begin

text \<open>
  The parts of Go's standard library that the modelled packages use on strings: UTF-8 decoding
  as \<open>range\<close> over a string does it (an invalid byte is one \<open>U+FFFD\<close>), the
  \<open>strings\<close> functions, and \<open>net.SplitHostPort\<close>. A string is a list of bytes.

  Lower-casing of text that is not ASCII needs the Unicode case tables, which are data of the
  standard library and not of this program: the simple case mapping of a code point is an
  argument, \<open>lr\<close>, of every definition that lower-cases. On ASCII text (the fast path of
  \<open>strings.ToLower\<close>) it is not consulted.
\<close>

subsection \<open>UTF-8\<close>

definition rune_error :: nat where
  "rune_error = 0xFFFD"

definition ascii :: "byte \<Rightarrow> bool" where
  "ascii c \<longleftrightarrow> nat_of_byte c < 128"

abbreviation cont :: "nat \<Rightarrow> nat \<Rightarrow> nat \<Rightarrow> bool" where
  "cont lo hi b \<equiv> lo \<le> b \<and> b \<le> hi"

text \<open>The range the second byte must be in, by the first byte (\<open>utf8.acceptRanges\<close>).\<close>

definition accept_range :: "nat \<Rightarrow> nat \<times> nat" where
  "accept_range b0 =
     (if b0 = 0xE0 then (0xA0, 0xBF) else if b0 = 0xED then (0x80, 0x9F)
      else if b0 = 0xF0 then (0x90, 0xBF) else if b0 = 0xF4 then (0x80, 0x8F) else (0x80, 0xBF))"

definition second_ok :: "nat \<Rightarrow> nat \<Rightarrow> bool" where
  "second_ok b0 b1 = (case accept_range b0 of (lo, hi) \<Rightarrow> lo \<le> b1 \<and> b1 \<le> hi)"

text \<open>\<open>utf8.DecodeRuneInString\<close>: the first code point and how many bytes it took.\<close>

fun decode_rune :: "bytes \<Rightarrow> nat \<times> nat" where
  "decode_rune [] = (rune_error, 0)"
| "decode_rune (c # cs) =
    (let b0 = nat_of_byte c in
     if b0 < 0x80 then (b0, 1)
     else if b0 < 0xC2 \<or> 0xF4 < b0 then (rune_error, 1)
     else (case cs of
       [] \<Rightarrow> (rune_error, 1)
     | c1 # cs1 \<Rightarrow>
        let b1 = nat_of_byte c1 in
        if \<not> second_ok b0 b1 then (rune_error, 1)
        else if b0 < 0xE0 then ((b0 - 0xC0) * 64 + (b1 - 0x80), 2)
        else (case cs1 of
          [] \<Rightarrow> (rune_error, 1)
        | c2 # cs2 \<Rightarrow>
           let b2 = nat_of_byte c2 in
           if \<not> cont 0x80 0xBF b2 then (rune_error, 1)
           else if b0 < 0xF0 then (((b0 - 0xE0) * 64 + (b1 - 0x80)) * 64 + (b2 - 0x80), 3)
           else (case cs2 of
             [] \<Rightarrow> (rune_error, 1)
           | c3 # _ \<Rightarrow>
              let b3 = nat_of_byte c3 in
              if \<not> cont 0x80 0xBF b3 then (rune_error, 1)
              else ((((b0 - 0xF0) * 64 + (b1 - 0x80)) * 64 + (b2 - 0x80)) * 64 + (b3 - 0x80), 4)))))"

declare decode_rune.simps(2) [simp del]

text \<open>The code points of \<open>for _, r := range s\<close>.\<close>

fun runes :: "bytes \<Rightarrow> nat list" where
  "runes [] = []"
| "runes (c # cs) = (case decode_rune (c # cs) of (r, n) \<Rightarrow> r # runes (drop (n - 1) cs))"

text \<open>\<open>utf8.ValidString\<close>: no byte decodes to an error of width 1.\<close>

fun valid_utf8 :: "bytes \<Rightarrow> bool" where
  "valid_utf8 [] = True"
| "valid_utf8 (c # cs) =
    (case decode_rune (c # cs) of (r, n) \<Rightarrow> (r = rune_error \<longrightarrow> n \<noteq> 1) \<and> valid_utf8 (drop (n - 1) cs))"

text \<open>\<open>utf8.AppendRune\<close>: surrogates and values out of range are written as \<open>U+FFFD\<close>.\<close>

definition encode_rune :: "nat \<Rightarrow> bytes" where
  "encode_rune r =
    (if r < 0x80 then [byte_of_nat r]
     else if r < 0x800 then [byte_of_nat (0xC0 + r div 64), byte_of_nat (0x80 + r mod 64)]
     else if (0xD800 \<le> r \<and> r \<le> 0xDFFF) \<or> 0x10FFFF < r then
       [byte_of_nat 0xEF, byte_of_nat 0xBF, byte_of_nat 0xBD]
     else if r < 0x10000 then
       [byte_of_nat (0xE0 + r div 4096), byte_of_nat (0x80 + r div 64 mod 64),
        byte_of_nat (0x80 + r mod 64)]
     else
       [byte_of_nat (0xF0 + r div 262144), byte_of_nat (0x80 + r div 4096 mod 64),
        byte_of_nat (0x80 + r div 64 mod 64), byte_of_nat (0x80 + r mod 64)])"

lemma decode_rune_ascii: "ascii c \<Longrightarrow> decode_rune (c # cs) = (nat_of_byte c, 1)"
  by (simp add: decode_rune.simps ascii_def Let_def)

lemma decode_rune_not_ascii: "\<not> ascii c \<Longrightarrow> 128 \<le> fst (decode_rune (c # cs))"
  by (auto simp: decode_rune.simps ascii_def Let_def rune_error_def second_ok_def accept_range_def
      split: list.splits if_splits)

lemma runes_ascii: "list_all ascii s \<Longrightarrow> runes s = map nat_of_byte s"
  by (induction s) (auto simp: decode_rune_ascii)

text \<open>A string whose code points are all ASCII is a string of ASCII bytes: no encoding of a
  larger code point, and no invalid byte, is read as one.\<close>

lemma ascii_of_runes: "list_all (\<lambda>r. r < 128) (runes s) \<Longrightarrow> list_all ascii s"
proof (induction s rule: runes.induct)
  case (2 c cs)
  show ?case
  proof (cases "ascii c")
    case True
    with 2 show ?thesis by (simp add: decode_rune_ascii)
  next
    case False
    then have "128 \<le> fst (decode_rune (c # cs))" by (rule decode_rune_not_ascii)
    with 2 show ?thesis by (auto split: prod.splits)
  qed
qed simp

lemma list_all_runes_ascii:
  assumes "\<And>r. P r \<Longrightarrow> r < 128"
  shows "list_all P (runes s) \<longleftrightarrow> list_all (\<lambda>c. P (nat_of_byte c)) s"
proof
  assume *: "list_all P (runes s)"
  then have "list_all (\<lambda>r. r < 128) (runes s)"
    using assms by (simp add: list_all_iff)
  then have "list_all ascii s" by (rule ascii_of_runes)
  with * show "list_all (\<lambda>c. P (nat_of_byte c)) s" by (simp add: runes_ascii list_all_iff)
next
  assume *: "list_all (\<lambda>c. P (nat_of_byte c)) s"
  then have "list_all ascii s" using assms by (auto simp: list_all_iff ascii_def)
  with * show "list_all P (runes s)" by (simp add: runes_ascii list_all_iff)
qed

subsection \<open>Prefixes, suffixes, search\<close>

definition HasPrefix :: "bytes \<Rightarrow> bytes \<Rightarrow> bool" where
  "HasPrefix s p \<longleftrightarrow> length p \<le> length s \<and> take (length p) s = p"

definition HasSuffix :: "bytes \<Rightarrow> bytes \<Rightarrow> bool" where
  "HasSuffix s p \<longleftrightarrow> length p \<le> length s \<and> drop (length s - length p) s = p"

definition CutPrefix :: "bytes \<Rightarrow> bytes \<Rightarrow> bytes option" where
  "CutPrefix s p = (if HasPrefix s p then Some (drop (length p) s) else None)"

definition TrimPrefix :: "bytes \<Rightarrow> bytes \<Rightarrow> bytes" where
  "TrimPrefix s p = (if HasPrefix s p then drop (length p) s else s)"

definition TrimSuffix :: "bytes \<Rightarrow> bytes \<Rightarrow> bytes" where
  "TrimSuffix s p = (if HasSuffix s p then take (length s - length p) s else s)"

text \<open>The first occurrence of a substring, as \<open>strings.Index\<close>.\<close>

fun Index :: "bytes \<Rightarrow> bytes \<Rightarrow> nat option" where
  "Index [] sub = (if sub = [] then Some 0 else None)"
| "Index (c # cs) sub = (if HasPrefix (c # cs) sub then Some 0 else map_option Suc (Index cs sub))"

definition Contains :: "bytes \<Rightarrow> bytes \<Rightarrow> bool" where
  "Contains s sub \<longleftrightarrow> Index s sub \<noteq> None"

definition ContainsAny :: "bytes \<Rightarrow> bytes \<Rightarrow> bool" where
  "ContainsAny s chars \<longleftrightarrow> list_ex (\<lambda>c. c \<in> set chars) s"

fun IndexByte :: "bytes \<Rightarrow> byte \<Rightarrow> nat option" where
  "IndexByte [] b = None"
| "IndexByte (c # cs) b = (if c = b then Some 0 else map_option Suc (IndexByte cs b))"

fun LastIndexByte :: "bytes \<Rightarrow> byte \<Rightarrow> nat option" where
  "LastIndexByte [] b = None"
| "LastIndexByte (c # cs) b =
    (case LastIndexByte cs b of Some i \<Rightarrow> Some (Suc i) | None \<Rightarrow> if c = b then Some 0 else None)"

text \<open>\<open>strings.Cut\<close>: what is before and after the first separator.\<close>

definition Cut :: "bytes \<Rightarrow> bytes \<Rightarrow> (bytes \<times> bytes) option" where
  "Cut s sep = map_option (\<lambda>i. (take i s, drop (i + length sep) s)) (Index s sep)"

lemma HasPrefix_iff: "HasPrefix s p \<longleftrightarrow> (\<exists>t. s = p @ t)"
  unfolding HasPrefix_def by (metis append_eq_conv_conj append_take_drop_id length_append le_add1)

lemma HasSuffix_iff: "HasSuffix s p \<longleftrightarrow> (\<exists>t. s = t @ p)"
proof
  assume "HasSuffix s p"
  then have "s = take (length s - length p) s @ p"
    unfolding HasSuffix_def by (metis append_take_drop_id)
  then show "\<exists>t. s = t @ p" ..
next
  assume "\<exists>t. s = t @ p"
  then show "HasSuffix s p" by (auto simp: HasSuffix_def)
qed

lemma HasPrefix_append [simp]: "HasPrefix (p @ t) p"
  by (auto simp: HasPrefix_iff)

lemma HasSuffix_append [simp]: "HasSuffix (t @ p) p"
  by (auto simp: HasSuffix_iff)

lemma HasSuffix_trans: "HasSuffix s p \<Longrightarrow> HasSuffix p q \<Longrightarrow> HasSuffix s q"
  by (auto simp: HasSuffix_iff)

lemma CutPrefix_Some: "CutPrefix s p = Some t \<longleftrightarrow> s = p @ t"
  by (auto simp: CutPrefix_def HasPrefix_iff)

lemma CutPrefix_None: "CutPrefix s p = None \<longleftrightarrow> (\<nexists>t. s = p @ t)"
  by (auto simp: CutPrefix_def HasPrefix_iff)

lemma TrimSuffix_append [simp]: "TrimSuffix (t @ p) p = t"
  by (simp add: TrimSuffix_def)

lemma TrimSuffix_id: "\<not> HasSuffix s p \<Longrightarrow> TrimSuffix s p = s"
  by (simp add: TrimSuffix_def)

lemma HasSuffix_Cons1: "HasSuffix s [c] \<longleftrightarrow> s \<noteq> [] \<and> last s = c"
  by (cases s rule: rev_cases) (auto simp: HasSuffix_iff)

lemma IndexByte_None: "IndexByte s b = None \<longleftrightarrow> b \<notin> set s"
  by (induction s) auto

lemma LastIndexByte_None: "LastIndexByte s b = None \<longleftrightarrow> b \<notin> set s"
  by (induction s) (auto split: option.splits)

lemma IndexByte_Some: "IndexByte s b = Some i \<Longrightarrow> i < length s \<and> s ! i = b"
  by (induction s arbitrary: i) (auto split: if_splits)

lemma LastIndexByte_Some: "LastIndexByte s b = Some i \<Longrightarrow> i < length s \<and> s ! i = b"
  by (induction s arbitrary: i) (auto split: if_splits option.splits)

subsection \<open>White space, case, splitting\<close>

text \<open>\<open>unicode.IsSpace\<close>.\<close>

definition space_runes :: "nat list" where
  "space_runes = [0x09, 0x0A, 0x0B, 0x0C, 0x0D, 0x20, 0x85, 0xA0, 0x1680, 0x2000, 0x2001, 0x2002,
     0x2003, 0x2004, 0x2005, 0x2006, 0x2007, 0x2008, 0x2009, 0x200A, 0x2028, 0x2029, 0x202F,
     0x205F, 0x3000]"

definition IsSpace :: "nat \<Rightarrow> bool" where
  "IsSpace r \<longleftrightarrow> r \<in> set space_runes"

text \<open>
  Trimming removes encodings of space code points from an end. UTF-8 is self-synchronising, so a
  decoder stepping from either end meets a space exactly when its encoding is there.
\<close>

definition space_encodings :: "bytes list" where
  "space_encodings = map encode_rune space_runes"

text \<open>The same, computed: what evaluation uses.\<close>

lemma space_encodings_code [code]:
  "space_encodings = [
     [CHR 0x09], [CHR 0x0A], [CHR 0x0B], [CHR 0x0C],
     [CHR 0x0D], [CHR 0x20], [CHR 0xC2, CHR 0x85], [CHR 0xC2, CHR 0xA0],
     [CHR 0xE1, CHR 0x9A, CHR 0x80], [CHR 0xE2, CHR 0x80, CHR 0x80], [CHR 0xE2, CHR 0x80, CHR 0x81], [CHR 0xE2, CHR 0x80, CHR 0x82],
     [CHR 0xE2, CHR 0x80, CHR 0x83], [CHR 0xE2, CHR 0x80, CHR 0x84], [CHR 0xE2, CHR 0x80, CHR 0x85], [CHR 0xE2, CHR 0x80, CHR 0x86],
     [CHR 0xE2, CHR 0x80, CHR 0x87], [CHR 0xE2, CHR 0x80, CHR 0x88], [CHR 0xE2, CHR 0x80, CHR 0x89], [CHR 0xE2, CHR 0x80, CHR 0x8A],
     [CHR 0xE2, CHR 0x80, CHR 0xA8], [CHR 0xE2, CHR 0x80, CHR 0xA9], [CHR 0xE2, CHR 0x80, CHR 0xAF], [CHR 0xE2, CHR 0x81, CHR 0x9F],
     [CHR 0xE3, CHR 0x80, CHR 0x80]]"
  by (simp add: space_encodings_def space_runes_def encode_rune_def char_of_def bit_0)

function strip :: "bytes list \<Rightarrow> bytes \<Rightarrow> bytes" where
  "strip es s = (case find (\<lambda>e. e \<noteq> [] \<and> HasPrefix s e) es of
     None \<Rightarrow> s | Some e \<Rightarrow> strip es (drop (length e) s))"
  by pat_completeness auto
termination
  by (relation "measure (\<lambda>(es, s). length s)") (auto simp: find_Some_iff HasPrefix_iff)

declare strip.simps [simp del]

definition TrimSpace :: "bytes \<Rightarrow> bytes" where
  "TrimSpace s = rev (strip (map rev space_encodings) (rev (strip space_encodings s)))"

definition ascii_lower :: "byte \<Rightarrow> byte" where
  "ascii_lower c = (if 65 \<le> nat_of_byte c \<and> nat_of_byte c \<le> 90 then byte_of_nat (nat_of_byte c + 32) else c)"

definition ToLower :: "(nat \<Rightarrow> nat) \<Rightarrow> bytes \<Rightarrow> bytes" where
  "ToLower lr s = (if list_all ascii s then map ascii_lower s
     else concat (map (\<lambda>r. encode_rune (lr r)) (runes s)))"

fun Join :: "bytes list \<Rightarrow> bytes \<Rightarrow> bytes" where
  "Join [] sep = []"
| "Join [x] sep = x"
| "Join (x # y # zs) sep = x @ sep @ Join (y # zs) sep"

lemma Index_Some: "Index s sub = Some i \<Longrightarrow> i + length sub \<le> length s \<and> take (length sub) (drop i s) = sub"
  by (induction s arbitrary: i) (auto simp: HasPrefix_def split: if_splits)

lemma Contains_iff: "Contains s sub \<longleftrightarrow> (\<exists>a b. s = a @ sub @ b)"
proof
  assume "Contains s sub"
  then obtain i where "Index s sub = Some i" by (auto simp: Contains_def)
  from Index_Some [OF this] have "s = take i s @ sub @ drop (i + length sub) s"
    by (metis append_take_drop_id take_drop add.commute drop_drop)
  then show "\<exists>a b. s = a @ sub @ b" by blast
next
  assume "\<exists>a b. s = a @ sub @ b"
  then obtain a b where "s = a @ sub @ b" by blast
  then show "Contains s sub"
  proof (induction a arbitrary: s)
    case Nil
    then have "HasPrefix s sub" by simp
    then show ?case by (cases s) (auto simp: Contains_def HasPrefix_def)
  next
    case (Cons x a)
    then show ?case by (auto simp: Contains_def)
  qed
qed

text \<open>\<open>strings.Split(s, sep)\<close> for a separator that is not empty.\<close>

function Split :: "bytes \<Rightarrow> bytes \<Rightarrow> bytes list" where
  "Split s sep = (if sep = [] then [s] else
     case Cut s sep of None \<Rightarrow> [s] | Some (a, b) \<Rightarrow> a # Split b sep)"
  by pat_completeness auto

termination
proof (relation "measure (\<lambda>(s, sep). length s)", goal_cases)
  case (2 s sep x a b)
  then obtain i where i: "Index s sep = Some i" and b: "b = drop (i + length sep) s"
    by (auto simp: Cut_def)
  from Index_Some [OF i] 2 show ?case by (cases sep) (auto simp: b)
qed simp

declare Split.simps [simp del]

text \<open>\<open>strings.Fields\<close>: the runs of bytes between space code points.\<close>

fun fields_from :: "bytes \<Rightarrow> bytes \<Rightarrow> bytes list" where
  "fields_from acc [] = (if acc = [] then [] else [acc])"
| "fields_from acc (c # cs) = (case decode_rune (c # cs) of (r, n) \<Rightarrow>
     if IsSpace r
     then (if acc = [] then fields_from [] (drop (n - 1) cs)
           else acc # fields_from [] (drop (n - 1) cs))
     else fields_from (acc @ take n (c # cs)) (drop (n - 1) cs))"

definition Fields :: "bytes \<Rightarrow> bytes list" where
  "Fields s = fields_from [] s"

text \<open>
  \<open>strings.EqualFold(s, t)\<close> for an ASCII \<open>t\<close>: Unicode simple folding puts the Kelvin
  sign with \<open>k\<close> and the long s with \<open>s\<close>; no other code point folds to an ASCII one.
\<close>

definition fold_rune :: "nat \<Rightarrow> nat" where
  "fold_rune r = (if 65 \<le> r \<and> r \<le> 90 then r + 32 else if r = 0x212A then 107
     else if r = 0x17F then 115 else r)"

definition EqualFold :: "bytes \<Rightarrow> bytes \<Rightarrow> bool" where
  "EqualFold s t \<longleftrightarrow> map fold_rune (runes s) = map fold_rune (runes t)"

text \<open>\<open>strconv.Atoi\<close>: an optional sign and decimal digits, within 64 bits.\<close>

fun digits_value :: "nat \<Rightarrow> bytes \<Rightarrow> nat option" where
  "digits_value acc [] = Some acc"
| "digits_value acc (c # cs) =
    (if 48 \<le> nat_of_byte c \<and> nat_of_byte c \<le> 57
     then digits_value (10 * acc + (nat_of_byte c - 48)) cs else None)"

definition Atoi :: "bytes \<Rightarrow> int option" where
  "Atoi s =
    (let neg = (case s of c # _ \<Rightarrow> c = CHR ''-'' | [] \<Rightarrow> False);
         ds = (case s of c # cs \<Rightarrow> if c = CHR ''-'' \<or> c = CHR ''+'' then cs else s | [] \<Rightarrow> [])
     in if ds = [] then None
        else case digits_value 0 ds of
          None \<Rightarrow> None
        | Some v \<Rightarrow> let x = (if neg then - int v else int v) in if in_i64 x then Some x else None)"

text \<open>\<open>strconv.Itoa\<close> and \<open>%d\<close> of a number that is not negative.\<close>

fun Itoa :: "nat \<Rightarrow> bytes" where
  "Itoa n = (if n < 10 then [byte_of_nat (48 + n)] else Itoa (n div 10) @ [byte_of_nat (48 + n mod 10)])"

declare Itoa.simps [simp del]

text \<open>\<open>net.SplitHostPort\<close>: \<open>None\<close> is its address error.\<close>

definition SplitHostPort :: "bytes \<Rightarrow> (bytes \<times> bytes) option" where
  "SplitHostPort hp =
    (case LastIndexByte hp (CHR '':'') of
       None \<Rightarrow> None
     | Some i \<Rightarrow>
        if take 1 hp = ''[''
        then (case IndexByte hp (CHR '']'') of
                None \<Rightarrow> None
              | Some e \<Rightarrow>
                 if e + 1 \<noteq> i then None
                 else if CHR ''['' \<in> set (drop 1 hp) \<or> CHR '']'' \<in> set (drop (e + 1) hp) then None
                 else Some (take (e - 1) (drop 1 hp), drop (i + 1) hp))
        else if CHR '':'' \<in> set (take i hp) \<or> CHR ''['' \<in> set hp \<or> CHR '']'' \<in> set hp then None
        else Some (take i hp, drop (i + 1) hp))"

lemma strip_id: "(\<And>e. e \<in> set es \<Longrightarrow> e \<noteq> [] \<Longrightarrow> \<not> HasPrefix s e) \<Longrightarrow> strip es s = s"
proof -
  assume "\<And>e. e \<in> set es \<Longrightarrow> e \<noteq> [] \<Longrightarrow> \<not> HasPrefix s e"
  then have "find (\<lambda>e. e \<noteq> [] \<and> HasPrefix s e) es = None" by (auto simp: find_None_iff)
  then show ?thesis by (subst strip.simps) simp
qed

lemma ToLower_ascii: "list_all ascii s \<Longrightarrow> ToLower lr s = map ascii_lower s"
  by (simp add: ToLower_def)

lemma ascii_lower_ascii: "ascii (ascii_lower c) \<longleftrightarrow> ascii c"
  by (auto simp: ascii_lower_def ascii_def)

lemma ascii_lower_idem [simp]: "ascii_lower (ascii_lower c) = ascii_lower c"
  by (auto simp: ascii_lower_def)

text \<open>Characters that no trimming or case mapping touches.\<close>

definition plain_char :: "byte \<Rightarrow> bool" where
  "plain_char c \<longleftrightarrow> 32 < nat_of_byte c \<and> nat_of_byte c < 127 \<and> \<not> (65 \<le> nat_of_byte c \<and> nat_of_byte c \<le> 90)"

lemma plain_char_ascii: "plain_char c \<Longrightarrow> ascii c"
  by (simp add: plain_char_def ascii_def)

lemma plain_char_lower: "plain_char c \<Longrightarrow> ascii_lower c = c"
  by (auto simp: plain_char_def ascii_lower_def)

lemma space_encodings_not_plain:
  assumes "e \<in> set space_encodings \<union> set (map rev space_encodings)"
  shows "\<exists>c cs. e = c # cs \<and> \<not> plain_char c"
proof -
  have "list_all (\<lambda>e. e \<noteq> [] \<and> \<not> plain_char (hd e)) (space_encodings @ map rev space_encodings)"
    by (simp add: space_encodings_def space_runes_def encode_rune_def plain_char_def)
  then have "e \<noteq> [] \<and> \<not> plain_char (hd e)" using assms by (auto simp: list_all_iff)
  then show ?thesis by (cases e) auto
qed

lemma strip_plain:
  assumes "list_all plain_char s" and "set es \<subseteq> set space_encodings \<union> set (map rev space_encodings)"
  shows "strip es s = s"
proof (rule strip_id)
  fix e assume "e \<in> set es" "e \<noteq> []"
  with assms(2) space_encodings_not_plain [of e] obtain c cs where "e = c # cs" "\<not> plain_char c"
    by blast
  with assms(1) show "\<not> HasPrefix s e" by (auto simp: HasPrefix_iff)
qed

lemma TrimSpace_plain: "list_all plain_char s \<Longrightarrow> TrimSpace s = s"
  unfolding TrimSpace_def by (simp add: strip_plain)

lemma ToLower_plain: "list_all plain_char s \<Longrightarrow> ToLower lr s = s"
  by (simp add: ToLower_def list_all_iff plain_char_ascii plain_char_lower map_idI)

end
