(* ===== verification/Go_Path.thy ===== *)
theory Go_Path
  imports Go_Strings "HOL-Library.Sublist"
begin

text \<open>
  Slash-separated paths as Go's \<open>path\<close> and (on the systems this program runs on)
  \<open>path/filepath\<close> treat them: lexical cleaning, joining, parents.
\<close>

definition path_comps :: "bytes \<Rightarrow> bytes list" where
  "path_comps p = filter (\<lambda>c. c \<noteq> [] \<and> c \<noteq> ''.'') (Split p ''/'')"

fun clean_step :: "bool \<Rightarrow> bytes list \<Rightarrow> bytes \<Rightarrow> bytes list" where
  "clean_step rooted acc c =
    (if c = ''..''
     then (if acc = [] then (if rooted then [] else [''..''])
           else if last acc = ''..'' then acc @ [''..''] else butlast acc)
     else acc @ [c])"

definition IsAbs :: "bytes \<Rightarrow> bool" where
  "IsAbs p \<longleftrightarrow> HasPrefix p ''/''"

definition Clean :: "bytes \<Rightarrow> bytes" where
  "Clean p =
    (if p = [] then ''.''
     else let body = Join (foldl (clean_step (IsAbs p)) [] (path_comps p)) ''/''
          in if IsAbs p then ''/'' @ body else if body = [] then ''.'' else body)"

text \<open>\<open>path.Join\<close> of two elements; empty elements are ignored.\<close>

definition PathJoin :: "bytes \<Rightarrow> bytes \<Rightarrow> bytes" where
  "PathJoin a b = (if a = [] \<and> b = [] then [] else Clean (Join (filter (\<lambda>x. x \<noteq> []) [a, b]) ''/''))"

definition Dir :: "bytes \<Rightarrow> bytes" where
  "Dir p = (case LastIndexByte p (CHR ''/'') of None \<Rightarrow> ''.'' | Some i \<Rightarrow> Clean (take (i + 1) p))"

subsection \<open>Component lists\<close>

lemma Index_Cons1: "Index s [b] = IndexByte s b"
  by (induction s) (auto simp: HasPrefix_def)

lemma IndexByte_append: "b \<notin> set c \<Longrightarrow> IndexByte (c @ b # s) b = Some (length c)"
  by (induction c) auto

lemma Split_step: "b \<notin> set c \<Longrightarrow> Split (c @ b # s) [b] = c # Split s [b]"
  by (subst Split.simps) (simp add: Cut_def Index_Cons1 IndexByte_append)

lemma Split_single: "b \<notin> set c \<Longrightarrow> Split c [b] = [c]"
  by (subst Split.simps) (simp add: Cut_def Index_Cons1 IndexByte_None [THEN iffD2])

text \<open>A component of a cleaned path, and the absolute path of a list of them.\<close>

definition is_comp :: "bytes \<Rightarrow> bool" where
  "is_comp c \<longleftrightarrow> c \<noteq> [] \<and> c \<noteq> ''.'' \<and> c \<noteq> ''..'' \<and> CHR ''/'' \<notin> set c"

definition abs_path :: "bytes list \<Rightarrow> bytes" where
  "abs_path cs = (if cs = [] then ''/'' else concat (map ((#) (CHR ''/'')) cs))"

lemma Split_concat:
  "list_all is_comp cs \<Longrightarrow> is_comp c \<Longrightarrow> Split (c @ concat (map ((#) (CHR ''/'')) cs)) ''/'' = c # cs"
  by (induction cs arbitrary: c) (simp_all add: is_comp_def Split_single Split_step)

lemma path_comps_abs_path: "list_all is_comp cs \<Longrightarrow> path_comps (abs_path cs) = cs"
proof (cases cs)
  case Nil
  then show ?thesis by (simp add: abs_path_def path_comps_def Split_step [of _ "[]", simplified] Split_single)
next
  case (Cons c rest)
  assume "list_all is_comp cs"
  with Cons have "Split (abs_path cs) ''/'' = [] # c # rest"
    using Split_step [of "CHR ''/''" "[]"] by (simp add: abs_path_def Split_concat)
  moreover have "filter (\<lambda>c. c \<noteq> [] \<and> c \<noteq> ''.'') cs = cs"
    using \<open>list_all is_comp cs\<close> by (auto simp: list_all_iff is_comp_def intro: filter_True)
  ultimately show ?thesis using Cons by (simp add: path_comps_def)
qed

lemma foldl_clean_step: "list_all is_comp cs \<Longrightarrow> foldl (clean_step r) acc cs = acc @ cs"
  by (induction cs arbitrary: acc) (auto simp: is_comp_def)

lemma Join_slash: "cs \<noteq> [] \<Longrightarrow> CHR ''/'' # Join cs ''/'' = concat (map ((#) (CHR ''/'')) cs)"
  by (induction cs "''/''" rule: Join.induct) auto

lemma Clean_abs_path: "list_all is_comp cs \<Longrightarrow> Clean (abs_path cs) = abs_path cs"
proof -
  assume c: "list_all is_comp cs"
  have a: "IsAbs (abs_path cs)" "abs_path cs \<noteq> []"
    by (cases cs; simp add: abs_path_def IsAbs_def HasPrefix_def)+
  have "Clean (abs_path cs) = ''/'' @ Join cs ''/''"
    using a by (simp add: Clean_def path_comps_abs_path [OF c] foldl_clean_step [OF c])
  then show ?thesis by (cases "cs = []") (simp_all add: Join_slash abs_path_def)
qed

text \<open>Any path falls into components at its slashes.\<close>

lemma Split_slash: "Split (a @ CHR ''/'' # b) ''/'' = Split a ''/'' @ Split b ''/''"
proof (induction "length a" arbitrary: a rule: less_induct)
  case less
  show ?case
  proof (cases "CHR ''/'' \<in> set a")
    case False
    then show ?thesis by (simp add: Split_step Split_single)
  next
    case True
    then obtain c d where a: "a = c @ CHR ''/'' # d" "CHR ''/'' \<notin> set c" by (metis split_list_first)
    then have "Split (d @ CHR ''/'' # b) ''/'' = Split d ''/'' @ Split b ''/''" by (intro less) simp
    with a show ?thesis by (simp add: Split_step)
  qed
qed

lemma Split_no_slash: "c \<in> set (Split a ''/'') \<Longrightarrow> CHR ''/'' \<notin> set c"
proof (induction "length a" arbitrary: a rule: less_induct)
  case less
  show ?case
  proof (cases "CHR ''/'' \<in> set a")
    case False
    then show ?thesis using less.prems by (simp add: Split_single)
  next
    case True
    then obtain x y where a: "a = x @ CHR ''/'' # y" "CHR ''/'' \<notin> set x" by (metis split_list_first)
    then have "c = x \<or> c \<in> set (Split y ''/'')" using less.prems by (simp add: Split_step)
    then show ?thesis using less.hyps [of y] a by auto
  qed
qed

lemma path_comps_slash: "path_comps (a @ CHR ''/'' # b) = path_comps a @ path_comps b"
  by (simp add: path_comps_def Split_slash)

lemma path_comps_comp: "''..'' \<notin> set (Split p ''/'') \<Longrightarrow> list_all is_comp (path_comps p)"
  by (auto simp: path_comps_def list_all_iff is_comp_def dest: Split_no_slash)

lemma Clean_abs: "IsAbs p \<Longrightarrow> list_all is_comp (path_comps p) \<Longrightarrow> Clean p = abs_path (path_comps p)"
proof -
  assume a: "IsAbs p" "list_all is_comp (path_comps p)"
  then have "p \<noteq> []" by (auto simp: IsAbs_def HasPrefix_def)
  then have "Clean p = ''/'' @ Join (path_comps p) ''/''"
    using a by (simp add: Clean_def foldl_clean_step [OF a(2)])
  then show ?thesis by (cases "path_comps p = []") (simp_all add: Join_slash abs_path_def)
qed

lemma IsAbs_abs_path [simp]: "IsAbs (abs_path cs)"
  by (cases cs) (simp_all add: abs_path_def IsAbs_def HasPrefix_def)

text \<open>Joining a cleaned absolute path with one that has no dot-dot stays beneath it.\<close>

lemma PathJoin_abs:
  assumes "list_all is_comp rs" "''..'' \<notin> set (Split p ''/'')" "p \<noteq> []"
  shows "PathJoin (abs_path rs) p = abs_path (rs @ path_comps p)"
proof -
  have ne: "abs_path rs \<noteq> []" by (simp add: abs_path_def)
  let ?q = "abs_path rs @ CHR ''/'' # p"
  have q: "path_comps ?q = rs @ path_comps p"
    by (simp add: path_comps_slash path_comps_abs_path [OF assms(1)])
  have "IsAbs ?q" using IsAbs_abs_path [of rs] ne by (auto simp: IsAbs_def HasPrefix_iff)
  then have "Clean ?q = abs_path (rs @ path_comps p)"
    using Clean_abs [of ?q] path_comps_comp [OF assms(2)] assms(1) by (simp add: q)
  then show ?thesis using ne assms(3) by (simp add: PathJoin_def)
qed

lemma LastIndexByte_last: "b \<notin> set c \<Longrightarrow> LastIndexByte (s @ b # c) b = Some (length s)"
proof -
  have none: "b \<notin> set c \<Longrightarrow> LastIndexByte c b = None" by (simp add: LastIndexByte_None)
  assume "b \<notin> set c"
  then show ?thesis by (induction s) (simp_all add: none)
qed

lemma Dir_abs_path: "list_all is_comp cs \<Longrightarrow> is_comp c \<Longrightarrow> Dir (abs_path (cs @ [c])) = abs_path cs"
proof -
  assume a: "list_all is_comp cs" "is_comp c"
  let ?p = "concat (map ((#) (CHR ''/'')) cs)"
  have p: "abs_path (cs @ [c]) = ?p @ CHR ''/'' # c" by (simp add: abs_path_def)
  have "Dir (abs_path (cs @ [c])) = Clean (?p @ ''/'')"
    using a(2) unfolding Dir_def p by (simp add: LastIndexByte_last is_comp_def)
  moreover have "path_comps (?p @ ''/'') = cs"
  proof (cases "cs = []")
    case True
    then show ?thesis using path_comps_abs_path [of "[]"] by (simp add: abs_path_def)
  next
    case False
    then have "path_comps ?p = cs" using path_comps_abs_path [OF a(1)] by (simp add: abs_path_def)
    then show ?thesis using path_comps_slash [of ?p "[]"] by (simp add: path_comps_def Split_single)
  qed
  moreover have "IsAbs (?p @ ''/'')" by (cases cs) (simp_all add: IsAbs_def HasPrefix_def)
  ultimately show ?thesis using Clean_abs [of "?p @ ''/''"] a(1) by simp
qed

lemma Dir_root: "Dir ''/'' = ''/''"
  by code_simp

text \<open>One path is another or beneath it: \<open>p == r || strings.HasPrefix(p, r+"/")\<close>.\<close>

definition under :: "bytes \<Rightarrow> bytes \<Rightarrow> bool" where
  "under r p \<longleftrightarrow> p = r \<or> HasPrefix p (r @ ''/'')"

lemma under_iff: "under r p \<longleftrightarrow> HasPrefix (p @ ''/'') (r @ ''/'')"
  by (auto simp: under_def HasPrefix_iff append_eq_append_conv2 Cons_eq_append_conv append_eq_Cons_conv)

lemma slash_split:
  assumes "CHR ''/'' \<notin> set c" "CHR ''/'' \<notin> set d" "c @ CHR ''/'' # s = d @ CHR ''/'' # t"
  shows "c = d \<and> s = t"
  using assms by (induction c arbitrary: d) (case_tac d; auto)+

lemma slashed_prefix:
  assumes "list_all is_comp rs" "list_all is_comp cs"
  shows "HasPrefix (concat (map ((#) (CHR ''/'')) cs) @ ''/'') (concat (map ((#) (CHR ''/'')) rs) @ ''/'') \<longleftrightarrow> prefix rs cs"
  using assms
proof (induction rs arbitrary: cs)
  case Nil
  then show ?case by (cases cs) (auto simp: HasPrefix_iff)
next
  case (Cons r rs)
  have slash: "\<exists>s. concat (map ((#) (CHR ''/'')) ds) @ ''/'' = CHR ''/'' # s" for ds
    by (cases ds) auto
  show ?case
  proof (cases cs)
    case Nil
    with Cons.prems show ?thesis by (auto simp: HasPrefix_iff is_comp_def Cons_eq_append_conv)
  next
    case (Cons c ds)
    obtain x y where xy: "concat (map ((#) (CHR ''/'')) ds) @ ''/'' = CHR ''/'' # x"
      "concat (map ((#) (CHR ''/'')) rs) @ ''/'' = CHR ''/'' # y" using slash by blast
    have "HasPrefix (c @ CHR ''/'' # x) (r @ CHR ''/'' # y) \<longleftrightarrow> c = r \<and> HasPrefix (CHR ''/'' # x) (CHR ''/'' # y)"
      using slash_split [of c r x] Cons.prems Cons by (fastforce simp: HasPrefix_iff is_comp_def)
    then show ?thesis
      using Cons.IH [of ds] Cons.prems Cons xy by (auto simp: HasPrefix_iff)
  qed
qed

lemma under_abs_path:
  assumes "list_all is_comp rs" "list_all is_comp cs" "rs \<noteq> []" "cs \<noteq> []"
  shows "under (abs_path rs) (abs_path cs) \<longleftrightarrow> prefix rs cs"
  using slashed_prefix [OF assms(1,2)] assms(3,4) by (simp add: under_iff abs_path_def)

end
