(* ===== verification/Policy_Config.thy ===== *)
theory Policy_Config
  imports Go_Path "HOL-Library.AList"
begin

text \<open>
  \<open>internal/policy\<close>: the client's configuration, its layers and the rules between them.
  \<^item> \<open>config.go\<close>: the schema (records below, one per struct), environment names, egress
    domains, validation;
  \<^item> \<open>profile.go\<close>: the dev and prod profiles, which profile is in force, what prod promises;
  \<^item> \<open>trust.go\<close>: what an untrusted project file may not set;
  \<^item> \<open>load.go\<close>: merging the layers and loading.

  A Go slice or map that may be nil is an \<open>option\<close>, where the code tells nil from empty; a map
  is an association list, whose order is the order the code happens to iterate in. A pointer to
  a bool is \<open>bool option\<close>. \<open>time.ParseDuration\<close> (is the text a duration?) and the home
  directory are arguments.
\<close>

subsection \<open>The schema\<close>

record SecretSpec =
  ss_File :: bytes
  ss_Command :: bytes
  ss_Env :: bytes

record SecuritySpec =
  se_NoNewPrivileges :: "bool option"
  se_CapDrop :: "bytes list option"
  se_CapAdd :: "bytes list option"
  se_PidsLimit :: "int option"
  se_Memory :: bytes
  se_CPUs :: bytes
  se_Seccomp :: bytes

record MountSpec =
  mo_Host :: bytes
  mo_Container :: bytes
  mo_Mode :: bytes

record NetworkSpec =
  ne_Mode :: bytes
  ne_Allow :: "bytes list option"
  ne_Baseline :: "bool option"

record CacheSpec =
  ca_Enabled :: "bool option"
  ca_Paths :: "bytes list option"

record SnapshotSpec =
  sn_Enabled :: "bool option"
  sn_Interval :: bytes
  sn_Retention :: bytes

record S3Spec =
  s3_Bucket :: bytes
  s3_Region :: bytes
  s3_Endpoint :: bytes
  s3_Prefix :: bytes
  s3_PathStyle :: bool
  s3_AccessKeyEnv :: bytes
  s3_SecretKeyEnv :: bytes
  s3_SessionTokenEnv :: bytes

record MirrorSpec =
  mi_S3 :: "S3Spec option"
  mi_Upload :: bytes
  mi_MaxObjectMB :: int

record Config =
  c_Image :: bytes
  c_Workdir :: bytes
  c_User :: bytes
  c_Home :: bytes
  c_Hostname :: bytes
  c_Mounts :: "MountSpec list option"
  c_Env :: "(bytes \<times> bytes) list option"
  c_EnvAllow :: "bytes list option"
  c_Network :: NetworkSpec
  c_Ports :: "bytes list option"
  c_Security :: SecuritySpec
  c_Cache :: CacheSpec
  c_Snapshot :: SnapshotSpec
  c_Secrets :: "(bytes \<times> SecretSpec) list option"
  c_Routing :: "bytes list option"
  c_Providers :: "(bytes \<times> bytes) list option"
  c_Mirror :: "MirrorSpec option"
  c_Profile :: bytes
  c_PersistAuth :: "bool option"
  c_Sync :: "bool option"

text \<open>The elements of a slice or map, none when it is nil.\<close>

definition items :: "'a list option \<Rightarrow> 'a list" where
  "items xs = (case xs of None \<Rightarrow> [] | Some ys \<Rightarrow> ys)"

lemma items_simps [simp]: "items None = []" "items (Some xs) = xs"
  by (simp_all add: items_def)

text \<open>\<open>append(xs, ys...)\<close>: appending nothing to a nil slice leaves it nil.\<close>

definition append_slice :: "'a list option \<Rightarrow> 'a list \<Rightarrow> 'a list option" where
  "append_slice xs ys = (if ys = [] then xs else Some (items xs @ ys))"

definition zero_security :: SecuritySpec where
  "zero_security = \<lparr>se_NoNewPrivileges = None, se_CapDrop = None, se_CapAdd = None,
     se_PidsLimit = None, se_Memory = [], se_CPUs = [], se_Seccomp = []\<rparr>"

definition zero_config :: Config where
  "zero_config = \<lparr>c_Image = [], c_Workdir = [], c_User = [], c_Home = [], c_Hostname = [],
     c_Mounts = None, c_Env = None, c_EnvAllow = None,
     c_Network = \<lparr>ne_Mode = [], ne_Allow = None, ne_Baseline = None\<rparr>, c_Ports = None,
     c_Security = zero_security, c_Cache = \<lparr>ca_Enabled = None, ca_Paths = None\<rparr>,
     c_Snapshot = \<lparr>sn_Enabled = None, sn_Interval = [], sn_Retention = []\<rparr>, c_Secrets = None,
     c_Routing = None, c_Providers = None, c_Mirror = None, c_Profile = [],
     c_PersistAuth = None, c_Sync = None\<rparr>"

subsection \<open>config.go: tri-state settings\<close>

definition NoNewPriv :: "SecuritySpec \<Rightarrow> bool" where
  "NoNewPriv s \<longleftrightarrow> (case se_NoNewPrivileges s of None \<Rightarrow> True | Some b \<Rightarrow> b)"

definition Pids :: "SecuritySpec \<Rightarrow> int" where
  "Pids s = (case se_PidsLimit s of None \<Rightarrow> 0 | Some n \<Rightarrow> n)"

definition BaselineEnabled :: "NetworkSpec \<Rightarrow> bool" where
  "BaselineEnabled n \<longleftrightarrow> (case ne_Baseline n of None \<Rightarrow> True | Some b \<Rightarrow> b)"

definition PersistAuthEnabled :: "Config \<Rightarrow> bool" where
  "PersistAuthEnabled c \<longleftrightarrow> (case c_PersistAuth c of None \<Rightarrow> True | Some b \<Rightarrow> b)"

definition SyncEnabled :: "Config \<Rightarrow> bool" where
  "SyncEnabled c \<longleftrightarrow> (case c_Sync c of None \<Rightarrow> True | Some b \<Rightarrow> b)"

definition CacheIsEnabled :: "CacheSpec \<Rightarrow> bool" where
  "CacheIsEnabled c \<longleftrightarrow> ca_Enabled c = Some True"

definition SnapshotIsEnabled :: "SnapshotSpec \<Rightarrow> bool" where
  "SnapshotIsEnabled s \<longleftrightarrow> (case sn_Enabled s of None \<Rightarrow> True | Some b \<Rightarrow> b)"

subsection \<open>config.go: egress domains and caches\<close>

definition BaselineEgress :: "bytes list" where
  "BaselineEgress = [''api.anthropic.com'', ''api.openai.com'', ''registry.npmjs.org'', ''pypi.org'',
     ''files.pythonhosted.org'', ''github.com'', ''codeload.github.com'',
     ''objects.githubusercontent.com'', ''raw.githubusercontent.com'']"

fun dedupe_loop :: "bytes list \<Rightarrow> bytes list \<Rightarrow> bytes list" where
  "dedupe_loop out [] = out"
| "dedupe_loop out (d0 # ds) =
    (let d = TrimSpace d0 in
     if d = [] \<or> d \<in> set out then dedupe_loop out ds else dedupe_loop (out @ [d]) ds)"

text \<open>\<open>DedupeDomains\<close> and \<open>dedupePaths\<close> are the same loop; what was seen is what was kept.\<close>

definition DedupeDomains :: "bytes list \<Rightarrow> bytes list" where
  "DedupeDomains ds = dedupe_loop [] ds"

definition dedupePaths :: "bytes list \<Rightarrow> bytes list" where
  "dedupePaths ps = dedupe_loop [] ps"

definition EgressDomains :: "NetworkSpec \<Rightarrow> bytes list" where
  "EgressDomains n =
    (if ne_Mode n \<noteq> ''allowlist'' then []
     else if \<not> BaselineEnabled n then DedupeDomains (items (ne_Allow n))
     else DedupeDomains (BaselineEgress @ items (ne_Allow n)))"

definition DefaultCachePaths :: "bytes list" where
  "DefaultCachePaths = [''/sandbox/home/.npm'', ''/sandbox/home/.cache/pip'',
     ''/sandbox/home/.cargo/registry'', ''/sandbox/home/go/pkg/mod'', ''/sandbox/home/.cache/yarn'']"

definition CachePaths :: "CacheSpec \<Rightarrow> bytes list" where
  "CachePaths c = dedupePaths (DefaultCachePaths @ items (ca_Paths c))"

lemma dedupe_loop_props:
  assumes "distinct out" "[] \<notin> set out"
  shows "distinct (dedupe_loop out ds)" "[] \<notin> set (dedupe_loop out ds)"
    "set (dedupe_loop out ds) = set out \<union> (TrimSpace ` set ds - {[]})"
  using assms by (induction ds arbitrary: out) (auto simp: Let_def)

lemma dedupe_loop_prefix: "\<exists>zs. dedupe_loop out ds = out @ zs"
proof (induction ds arbitrary: out)
  case (Cons d ds)
  show ?case
    using Cons [of out] Cons [of "out @ [TrimSpace d]"] by (auto simp: Let_def)
qed simp

lemma DedupeDomains_props:
  "distinct (DedupeDomains ds)" "set (DedupeDomains ds) = TrimSpace ` set ds - {[]}"
  using dedupe_loop_props [of "[]" ds] by (simp_all add: DedupeDomains_def)

subsection \<open>config.go: environment names\<close>

definition reservedEnvNames :: "bytes list" where
  "reservedEnvNames = [''SANDBOX_RUN_AS'', ''SANDBOX_EGRESS_ALLOW'', ''SANDBOX_INGRESS_PORTS'',
     ''SANDBOX_PROXY_PORT'', ''SANDBOX_UMASK'', ''BASH_ENV'', ''ENV'', ''LD_PRELOAD'',
     ''LD_LIBRARY_PATH'', ''LD_AUDIT'', ''SHELLOPTS'', ''BASHOPTS'', ''PS4'', ''IFS'', ''GLOBIGNORE'',
     ''DOCKER_HOST'', ''DOCKER_CONFIG'', ''DOCKER_CERT_PATH'', ''DOCKER_TLS_VERIFY'',
     ''DOCKER_CONTEXT'']"

definition IsReservedEnv :: "bytes \<Rightarrow> bool" where
  "IsReservedEnv name \<longleftrightarrow> TrimSpace name \<in> set reservedEnvNames"

definition env_start :: "nat \<Rightarrow> bool" where
  "env_start r \<longleftrightarrow> (97 \<le> r \<and> r \<le> 122) \<or> (65 \<le> r \<and> r \<le> 90) \<or> r = 95"

definition env_cont :: "nat \<Rightarrow> bool" where
  "env_cont r \<longleftrightarrow> env_start r \<or> (48 \<le> r \<and> r \<le> 57)"

definition ValidEnvName :: "bytes \<Rightarrow> bool" where
  "ValidEnvName name = (case runes name of [] \<Rightarrow> False | r # rs \<Rightarrow> env_start r \<and> list_all env_cont rs)"

subsection \<open>config.go: defaults and validation\<close>

definition Default :: "bytes \<Rightarrow> Config" where
  "Default defaultImage = zero_config\<lparr>c_Image := defaultImage, c_Workdir := ''/workspace'',
     c_User := ''sandbox'', c_Home := ''/sandbox/home'', c_Hostname := ''sandbox'', c_Env := Some [],
     c_Security := zero_security\<lparr>se_NoNewPrivileges := Some True, se_CapDrop := Some [''ALL''],
       se_PidsLimit := Some 1024\<rparr>\<rparr>"

datatype config_error =
    ImageEmpty | ImageDash bytes | ImageSpace bytes
  | MirrorUpload bytes | MirrorNegative | MirrorNoBucket | MirrorEnvName bytes
  | EnvReserved bytes | EnvBadName bytes | SecretBadName bytes | SecretReserved bytes
  | WorkdirEmpty | NetworkModeBad bytes | MountIncomplete nat | MountMode nat bytes
  | SnapshotDuration bytes | SecretNameEmpty | SecretSources bytes
  | UnknownProfile bytes | ProfileUnmet "string list"
  | ConfigNotFound | RestrictedProjectKeys "string list" | ReadError

definition validateMirror :: "MirrorSpec option \<Rightarrow> config_error option" where
  "validateMirror mo =
    (case mo of
       None \<Rightarrow> None
     | Some m \<Rightarrow>
        if mi_Upload m \<notin> {[], ''bring-back'', ''all''} then Some (MirrorUpload (mi_Upload m))
        else if mi_MaxObjectMB m < 0 then Some MirrorNegative
        else case mi_S3 m of
          None \<Rightarrow> Some MirrorNoBucket
        | Some s3 \<Rightarrow>
           if s3_Bucket s3 = [] then Some MirrorNoBucket
           else for_all_ok (\<lambda>name. if name \<noteq> [] \<and> \<not> ValidEnvName name then Some (MirrorEnvName name) else None)
             [s3_AccessKeyEnv s3, s3_SecretKeyEnv s3, s3_SessionTokenEnv s3])"

definition check_env_key :: "bytes \<Rightarrow> config_error option" where
  "check_env_key k = (if IsReservedEnv k then Some (EnvReserved k)
     else if \<not> ValidEnvName k then Some (EnvBadName k) else None)"

definition check_secret_key :: "bytes \<Rightarrow> config_error option" where
  "check_secret_key k = (if \<not> ValidEnvName k then Some (SecretBadName k)
     else if IsReservedEnv k then Some (SecretReserved k) else None)"

fun check_mounts :: "nat \<Rightarrow> MountSpec list \<Rightarrow> config_error option" where
  "check_mounts i [] = None"
| "check_mounts i (m # ms) =
    (if mo_Host m = [] \<or> mo_Container m = [] then Some (MountIncomplete i)
     else if mo_Mode m \<notin> {[], ''ro'', ''rw''} then Some (MountMode i (mo_Mode m))
     else check_mounts (i + 1) ms)"

definition secret_sources :: "SecretSpec \<Rightarrow> nat" where
  "secret_sources s = length (filter (\<lambda>x. x \<noteq> []) [ss_File s, ss_Command s, ss_Env s])"

definition ValidateConfig :: "(bytes \<Rightarrow> bool) \<Rightarrow> Config \<Rightarrow> config_error option" where
  "ValidateConfig is_duration c =
    (if c_Image c = [] then Some ImageEmpty
     else if HasPrefix (c_Image c) ''-'' then Some (ImageDash (c_Image c))
     else if ContainsAny (c_Image c) [CHR 0x20, CHR 0x09, CHR 0x0A] then Some (ImageSpace (c_Image c))
     else case validateMirror (c_Mirror c) of Some e \<Rightarrow> Some e | None \<Rightarrow>
     case for_all_ok (\<lambda>(k, _). check_env_key k) (items (c_Env c)) of Some e \<Rightarrow> Some e | None \<Rightarrow>
     case for_all_ok (\<lambda>(k, _). check_secret_key k) (items (c_Secrets c)) of Some e \<Rightarrow> Some e | None \<Rightarrow>
     if c_Workdir c = [] then Some WorkdirEmpty
     else if ne_Mode (c_Network c) \<notin> {[], ''default'', ''none'', ''allowlist''}
       then Some (NetworkModeBad (ne_Mode (c_Network c)))
     else case check_mounts 0 (items (c_Mounts c)) of Some e \<Rightarrow> Some e | None \<Rightarrow>
     case for_all_ok (\<lambda>v. if v \<noteq> [] \<and> \<not> is_duration v then Some (SnapshotDuration v) else None)
       [sn_Interval (c_Snapshot c), sn_Retention (c_Snapshot c)] of Some e \<Rightarrow> Some e | None \<Rightarrow>
     for_all_ok (\<lambda>(name, s). if name = [] then Some SecretNameEmpty
       else if secret_sources s \<noteq> 1 then Some (SecretSources name) else None) (items (c_Secrets c)))"

end
