(* ===== verification/Policy_Layers.thy ===== *)
theory Policy_Layers
  imports Policy_Config "HOL-Library.Sublist"
begin

text \<open>
  \<open>internal/policy/profile.go\<close>, \<open>trust.go\<close>, \<open>load.go\<close> and \<open>keys.go\<close>: which profile
  is in force, which keys an untrusted project file may set, how the layers merge, where a
  project file is looked for, and what a loaded configuration guarantees. Reading a file
  (its bytes, its YAML) is an argument: \<open>le_read\<close> gives a file's parsed content, nothing for a
  file that is not there, or an error.
\<close>

subsection \<open>profile.go\<close>

definition profileStrength :: "bytes \<Rightarrow> int" where
  "profileStrength p = (if p = ''dev'' then 1 else if p = ''prod'' then 2 else 0)"

definition KnownProfile :: "bytes \<Rightarrow> bool" where
  "KnownProfile p \<longleftrightarrow> p = ''dev'' \<or> p = ''prod''"

definition profileBase :: "bytes \<Rightarrow> bytes \<Rightarrow> Config" where
  "profileBase img name =
    (let cfg = Default img in
     if name = ''prod'' then
       cfg\<lparr>c_Network := (c_Network cfg)\<lparr>ne_Mode := ''allowlist'', ne_Baseline := Some False\<rparr>,
           c_PersistAuth := Some False, c_Sync := Some False,
           c_Security := (c_Security cfg)\<lparr>se_Seccomp := ''required'', se_Memory := ''2g'',
             se_CPUs := ''2'', se_PidsLimit := Some 512\<rparr>,
           c_Ports := Some []\<rparr>
     else cfg)"

definition ResolveProfile :: "bytes \<Rightarrow> bytes \<Rightarrow> bytes \<Rightarrow> (config_error, bytes) result" where
  "ResolveProfile flag user project =
    (if flag \<noteq> [] then (if KnownProfile flag then Inr flag else Inl (UnknownProfile flag))
     else if user \<noteq> [] \<and> \<not> KnownProfile user then Inl (UnknownProfile user)
     else let chosen = (if user \<noteq> [] then user else ''dev'')
          in if KnownProfile project \<and> profileStrength chosen < profileStrength project
             then Inr project else Inr chosen)"

definition IsRootUser :: "bytes \<Rightarrow> bool" where
  "IsRootUser user =
    (let u = TrimSpace user;
         v = (case IndexByte u (CHR '':'') of None \<Rightarrow> u | Some i \<Rightarrow> take i u)
     in v = ''root'' \<or> v = ''0'')"

text \<open>The broken promises of the prod profile, in the order the code lists them.\<close>

definition prod_unmet :: "Config \<Rightarrow> string list" where
  "prod_unmet cfg =
     (if ne_Mode (c_Network cfg) \<noteq> ''allowlist'' then [''network.mode''] else []) @
     (if BaselineEnabled (c_Network cfg) then [''network.baseline''] else []) @
     (if c_PersistAuth cfg = Some True then [''persist_auth''] else []) @
     (if c_Sync cfg = Some True then [''sync''] else []) @
     (if se_Seccomp (c_Security cfg) \<noteq> ''required'' then [''security.seccomp''] else []) @
     (if IsRootUser (c_User cfg) then [''user''] else []) @
     (if items (se_CapAdd (c_Security cfg)) \<noteq> [] then [''security.cap_add''] else []) @
     (if se_Memory (c_Security cfg) = [] then [''security.memory''] else []) @
     (if se_CPUs (c_Security cfg) = [] then [''security.cpus''] else []) @
     (if Pids (c_Security cfg) \<le> 0 then [''security.pids_limit''] else []) @
     (if items (c_Ports cfg) \<noteq> [] then [''ports''] else [])"

definition ValidateProfile :: "bytes \<Rightarrow> Config \<Rightarrow> config_error option" where
  "ValidateProfile name cfg =
    (if name \<noteq> ''prod'' then None
     else if prod_unmet cfg = [] then None else Some (ProfileUnmet (prod_unmet cfg)))"

subsection \<open>trust.go\<close>

definition networkStrength :: "bytes \<Rightarrow> int" where
  "networkStrength mode = (if mode = ''none'' then 2 else if mode = ''allowlist'' \<or> mode = [] then 1 else 0)"

definition securityIsZero :: "SecuritySpec \<Rightarrow> bool" where
  "securityIsZero s \<longleftrightarrow> se_NoNewPrivileges s = None \<and> se_CapDrop s = None \<and> se_CapAdd s = None \<and>
     se_PidsLimit s = None \<and> se_Memory s = [] \<and> se_CPUs s = [] \<and> se_Seccomp s = []"

definition inheritedNetworkMode :: "Config \<Rightarrow> string" where
  "inheritedNetworkMode c =
    (if ne_Mode (c_Network c) = [] then ''server'' @ [CHR 0x27] @ ''s default'' else ne_Mode (c_Network c))"

definition weaker_mode_note :: "Config \<Rightarrow> Config \<Rightarrow> string" where
  "weaker_mode_note src inherited =
    (let q = [CHR 0x22] in
     ''network.mode ('' @ q @ ne_Mode (c_Network src) @ q @ '' is weaker than the '' @ q @
     inheritedNetworkMode inherited @ q @
     '' already in force; remove the key, or load this file deliberately with --config)'')"

definition restrictedProjectKeys :: "Config \<Rightarrow> Config \<Rightarrow> string list" where
  "restrictedProjectKeys src inherited = sort (
     (if c_Image src \<noteq> [] then [''image''] else []) @
     (if c_Workdir src \<noteq> [] then [''workdir''] else []) @
     (if c_User src \<noteq> [] then [''user''] else []) @
     (if items (c_Providers src) \<noteq> [] then [''providers''] else []) @
     (if items (c_Routing src) \<noteq> [] then [''routing''] else []) @
     (if c_Mirror src \<noteq> None then [''mirror''] else []) @
     (if c_Home src \<noteq> [] then [''home''] else []) @
     (if c_Mounts src \<noteq> None then [''mounts''] else []) @
     (if c_Secrets src \<noteq> None then [''secrets''] else []) @
     (if c_Env src \<noteq> None then [''env''] else []) @
     (if c_EnvAllow src \<noteq> None then [''env_allow''] else []) @
     (if ca_Paths (c_Cache src) \<noteq> None then [''cache.paths''] else []) @
     (if \<not> securityIsZero (c_Security src) then [''security''] else []) @
     (if ne_Allow (c_Network src) \<noteq> None then [''network.allow''] else []) @
     (if c_Ports src \<noteq> None then [''ports''] else []) @
     (if sn_Enabled (c_Snapshot src) \<noteq> None \<or> sn_Interval (c_Snapshot src) \<noteq> [] \<or>
         sn_Retention (c_Snapshot src) \<noteq> [] then [''snapshot''] else []) @
     (if ne_Mode (c_Network src) \<noteq> [] \<and>
         networkStrength (ne_Mode (c_Network src)) < networkStrength (ne_Mode (c_Network inherited))
      then [weaker_mode_note src inherited] else []) @
     (if ne_Baseline (c_Network src) = Some True \<and> \<not> BaselineEnabled (c_Network inherited)
      then [''network.baseline''] else []) @
     (if c_Profile src \<noteq> [] \<and> profileStrength (c_Profile src) < profileStrength (c_Profile inherited)
      then [''profile''] else []) @
     (if c_PersistAuth src = Some True \<and> \<not> PersistAuthEnabled inherited then [''persist_auth''] else []) @
     (if c_Sync src = Some True \<and> \<not> SyncEnabled inherited then [''sync''] else []))"

subsection \<open>load.go: merging\<close>

definition or_else :: "'a option \<Rightarrow> 'a option \<Rightarrow> 'a option" where
  "or_else new old = (case new of None \<Rightarrow> old | Some x \<Rightarrow> Some x)"

definition if_set :: "bytes \<Rightarrow> bytes \<Rightarrow> bytes" where
  "if_set new old = (if new \<noteq> [] then new else old)"

definition overlay :: "('k \<times> 'v) list option \<Rightarrow> ('k \<times> 'v) list option \<Rightarrow> ('k \<times> 'v) list option" where
  "overlay src dst = (if items src = [] then dst
     else Some (foldl (\<lambda>m (k, v). AList.update k v m) (items dst) (items src)))"

definition ExpandTilde :: "bytes option \<Rightarrow> bytes \<Rightarrow> bytes" where
  "ExpandTilde home p =
    (if p = ''~'' \<or> HasPrefix p ''~/''
     then case home of None \<Rightarrow> p | Some h \<Rightarrow> if p = ''~'' then h else PathJoin h (drop 2 p)
     else p)"

definition resolveHostPath :: "bytes option \<Rightarrow> bytes \<Rightarrow> bytes \<Rightarrow> bytes" where
  "resolveHostPath home p baseDir =
    (let q = ExpandTilde home p in if IsAbs q then Clean q else Clean (PathJoin baseDir q))"

definition mergeSecurity :: "SecuritySpec \<Rightarrow> SecuritySpec \<Rightarrow> SecuritySpec" where
  "mergeSecurity dst src = dst\<lparr>
     se_NoNewPrivileges := or_else (se_NoNewPrivileges src) (se_NoNewPrivileges dst),
     se_CapDrop := or_else (se_CapDrop src) (se_CapDrop dst),
     se_CapAdd := or_else (se_CapAdd src) (se_CapAdd dst),
     se_PidsLimit := or_else (se_PidsLimit src) (se_PidsLimit dst),
     se_Memory := if_set (se_Memory src) (se_Memory dst),
     se_CPUs := if_set (se_CPUs src) (se_CPUs dst),
     se_Seccomp := if_set (se_Seccomp src) (se_Seccomp dst)\<rparr>"

definition mergeInto :: "bytes option \<Rightarrow> Config \<Rightarrow> Config \<Rightarrow> bytes \<Rightarrow> Config" where
  "mergeInto home dst src baseDir = dst\<lparr>
     c_Mirror := or_else (c_Mirror src) (c_Mirror dst),
     c_Image := if_set (c_Image src) (c_Image dst),
     c_Workdir := if_set (c_Workdir src) (c_Workdir dst),
     c_User := if_set (c_User src) (c_User dst),
     c_Home := if_set (c_Home src) (c_Home dst),
     c_Hostname := if_set (c_Hostname src) (c_Hostname dst),
     c_Routing := (if items (c_Routing src) \<noteq> [] then c_Routing src else c_Routing dst),
     c_Providers := overlay (c_Providers src) (c_Providers dst),
     c_PersistAuth := or_else (c_PersistAuth src) (c_PersistAuth dst),
     c_Sync := or_else (c_Sync src) (c_Sync dst),
     c_Network := (c_Network dst)\<lparr>
       ne_Mode := if_set (ne_Mode (c_Network src)) (ne_Mode (c_Network dst)),
       ne_Allow := or_else (ne_Allow (c_Network src)) (ne_Allow (c_Network dst)),
       ne_Baseline := or_else (ne_Baseline (c_Network src)) (ne_Baseline (c_Network dst))\<rparr>,
     c_Ports := or_else (c_Ports src) (c_Ports dst),
     c_Security := mergeSecurity (c_Security dst) (c_Security src),
     c_Cache := (c_Cache dst)\<lparr>
       ca_Enabled := or_else (ca_Enabled (c_Cache src)) (ca_Enabled (c_Cache dst)),
       ca_Paths := or_else (ca_Paths (c_Cache src)) (ca_Paths (c_Cache dst))\<rparr>,
     c_Snapshot := (c_Snapshot dst)\<lparr>
       sn_Enabled := or_else (sn_Enabled (c_Snapshot src)) (sn_Enabled (c_Snapshot dst)),
       sn_Interval := if_set (sn_Interval (c_Snapshot src)) (sn_Interval (c_Snapshot dst)),
       sn_Retention := if_set (sn_Retention (c_Snapshot src)) (sn_Retention (c_Snapshot dst))\<rparr>,
     c_Secrets := overlay (c_Secrets src) (c_Secrets dst),
     c_Env := overlay (c_Env src) (c_Env dst),
     c_EnvAllow := append_slice (c_EnvAllow dst) (items (c_EnvAllow src)),
     c_Mounts := append_slice (c_Mounts dst)
       (map (\<lambda>m. m\<lparr>mo_Host := resolveHostPath home (mo_Host m) baseDir\<rparr>) (items (c_Mounts src)))\<rparr>"

subsection \<open>load.go: loading\<close>

type_synonym file_result = "(config_error, Config option) result"

record load_env =
  le_image :: bytes
  le_home :: "bytes option"
  le_userPath :: bytes
  le_projectPath :: bytes
  le_stat :: "bytes \<Rightarrow> config_error option"
  le_read :: "bytes \<Rightarrow> file_result"
  le_providers :: "(bytes \<times> bytes) list"

record Overrides =
  ov_NetworkMode :: bytes
  ov_Allow :: "bytes list"
  ov_NoBaseline :: bool

definition mergeFile :: "load_env \<Rightarrow> Config \<Rightarrow> bytes \<Rightarrow> (config_error, Config) result" where
  "mergeFile e dst path =
    (case le_read e path of
       Inl err \<Rightarrow> Inl err
     | Inr None \<Rightarrow> Inr dst
     | Inr (Some f) \<Rightarrow> Inr (mergeInto (le_home e) dst f (Dir path)))"

definition mergeProjectFile :: "load_env \<Rightarrow> Config \<Rightarrow> bytes \<Rightarrow> (config_error, Config) result" where
  "mergeProjectFile e dst path =
    (case le_read e path of
       Inl err \<Rightarrow> Inl err
     | Inr None \<Rightarrow> Inr dst
     | Inr (Some f) \<Rightarrow>
        if restrictedProjectKeys f dst \<noteq> [] then Inl (RestrictedProjectKeys (restrictedProjectKeys f dst))
        else Inr (mergeInto (le_home e) dst f (Dir path)))"

definition file_profile :: "load_env \<Rightarrow> bytes \<Rightarrow> bytes" where
  "file_profile e path = (case le_read e path of Inr (Some f) \<Rightarrow> c_Profile f | _ \<Rightarrow> [])"

definition discoverProfile :: "load_env \<Rightarrow> bytes \<Rightarrow> bytes \<Rightarrow> (config_error, bytes) result" where
  "discoverProfile e explicitPath flagProfile =
    (let user = (if le_userPath e \<noteq> [] then file_profile e (le_userPath e) else []);
         user' = (if explicitPath \<noteq> [] then if_set (file_profile e explicitPath) user else user);
         project = (if explicitPath = [] \<and> le_projectPath e \<noteq> [] then file_profile e (le_projectPath e) else [])
     in ResolveProfile flagProfile user' project)"

definition apply_overrides :: "Overrides \<Rightarrow> Config \<Rightarrow> Config" where
  "apply_overrides ov cfg =
    (let n0 = c_Network cfg;
         n1 = (if ov_Allow ov \<noteq> [] \<and> ne_Mode n0 \<noteq> ''none'' then n0\<lparr>ne_Mode := ''allowlist''\<rparr> else n0);
         n2 = (if ov_NetworkMode ov \<noteq> [] then n1\<lparr>ne_Mode := ov_NetworkMode ov\<rparr> else n1);
         n3 = (if ov_NoBaseline ov then n2\<lparr>ne_Baseline := Some False\<rparr> else n2)
     in cfg\<lparr>c_Network := n3\<rparr>)"

definition LoadProfileWith ::
    "load_env \<Rightarrow> bytes \<Rightarrow> bytes \<Rightarrow> Overrides \<Rightarrow> (config_error, Config) result" where
  "LoadProfileWith e explicitPath flagProfile ov =
    (case discoverProfile e explicitPath flagProfile of
       Inl err \<Rightarrow> Inl err
     | Inr name \<Rightarrow>
        let cfg0 = profileBase (le_image e) name;
            cfg1 = cfg0\<lparr>c_Profile := name,
              c_Providers := overlay (Some (le_providers e)) (c_Providers cfg0)\<rparr>
        in case (if le_userPath e \<noteq> [] then mergeFile e cfg1 (le_userPath e) else Inr cfg1) of
             Inl err \<Rightarrow> Inl err
           | Inr cfg2 \<Rightarrow>
              (case (if explicitPath \<noteq> []
                     then (case le_stat e explicitPath of
                             Some err \<Rightarrow> Inl err
                           | None \<Rightarrow> mergeFile e cfg2 explicitPath)
                     else if le_projectPath e \<noteq> [] then mergeProjectFile e cfg2 (le_projectPath e)
                     else Inr cfg2) of
                 Inl err \<Rightarrow> Inl err
               | Inr cfg3 \<Rightarrow>
                  let cfg4 = apply_overrides ov (cfg3\<lparr>c_Profile := name\<rparr>)
                  in case ValidateProfile name cfg4 of Some err \<Rightarrow> Inl err | None \<Rightarrow> Inr cfg4))"

subsection \<open>What a project file can do\<close>

text \<open>
  \<open>tightens new old\<close>: \<open>new\<close> differs from \<open>old\<close> at most in the host name, in whether caches
  are kept, and in settings that confine more.
\<close>

definition tightens :: "Config \<Rightarrow> Config \<Rightarrow> bool" where
  "tightens new old \<longleftrightarrow>
     new = old\<lparr>c_Hostname := c_Hostname new,
       c_Cache := (c_Cache old)\<lparr>ca_Enabled := ca_Enabled (c_Cache new)\<rparr>,
       c_Network := (c_Network old)\<lparr>ne_Mode := ne_Mode (c_Network new), ne_Baseline := ne_Baseline (c_Network new)\<rparr>,
       c_PersistAuth := c_PersistAuth new, c_Sync := c_Sync new\<rparr> \<and>
     networkStrength (ne_Mode (c_Network old)) \<le> networkStrength (ne_Mode (c_Network new)) \<and>
     (BaselineEnabled (c_Network new) \<longrightarrow> BaselineEnabled (c_Network old)) \<and>
     (PersistAuthEnabled new \<longrightarrow> PersistAuthEnabled old) \<and>
     (SyncEnabled new \<longrightarrow> SyncEnabled old)"

lemma tightens_refl [simp]: "tightens c c"
  by (simp add: tightens_def)

lemma or_else_simps [simp]: "or_else None x = x" "or_else (Some y) x = Some y"
  by (simp_all add: or_else_def)

lemma if_set_simps [simp]: "if_set [] x = x" "y \<noteq> [] \<Longrightarrow> if_set y x = y"
  by (simp_all add: if_set_def)

lemma overlay_empty: "items src = [] \<Longrightarrow> overlay src dst = dst"
  by (simp add: overlay_def)

lemma append_slice_Nil [simp]: "append_slice xs [] = xs"
  by (simp add: append_slice_def)

lemma mergeSecurity_zero: "securityIsZero src \<Longrightarrow> mergeSecurity dst src = dst"
  by (simp add: securityIsZero_def mergeSecurity_def)

lemma sort_eq_Nil [simp]: "sort xs = [] \<longleftrightarrow> xs = []"
  by (metis length_0_conv length_sort)

lemma unrestrictedD:
  assumes "restrictedProjectKeys src inherited = []"
  shows "c_Image src = []" "c_Workdir src = []" "c_User src = []" "items (c_Providers src) = []"
    "items (c_Routing src) = []" "c_Mirror src = None" "c_Home src = []" "c_Mounts src = None"
    "c_Secrets src = None" "c_Env src = None" "c_EnvAllow src = None" "ca_Paths (c_Cache src) = None"
    "securityIsZero (c_Security src)" "ne_Allow (c_Network src) = None" "c_Ports src = None"
    "sn_Enabled (c_Snapshot src) = None" "sn_Interval (c_Snapshot src) = []"
    "sn_Retention (c_Snapshot src) = []"
    "ne_Mode (c_Network src) = [] \<or>
      networkStrength (ne_Mode (c_Network inherited)) \<le> networkStrength (ne_Mode (c_Network src))"
    "ne_Baseline (c_Network src) = Some True \<Longrightarrow> BaselineEnabled (c_Network inherited)"
    "c_PersistAuth src = Some True \<Longrightarrow> PersistAuthEnabled inherited"
    "c_Sync src = Some True \<Longrightarrow> SyncEnabled inherited"
  using assms by (auto simp: restrictedProjectKeys_def split: if_splits)

lemma mergeInto_unrestricted:
  assumes "restrictedProjectKeys src dst = []"
  shows "tightens (mergeInto home dst src base) dst"
proof -
  note u = unrestrictedD [OF assms]
  have 1: "mergeInto home dst src base = dst\<lparr>c_Hostname := if_set (c_Hostname src) (c_Hostname dst),
     c_Cache := (c_Cache dst)\<lparr>ca_Enabled := or_else (ca_Enabled (c_Cache src)) (ca_Enabled (c_Cache dst))\<rparr>,
     c_Network := (c_Network dst)\<lparr>
       ne_Mode := if_set (ne_Mode (c_Network src)) (ne_Mode (c_Network dst)),
       ne_Baseline := or_else (ne_Baseline (c_Network src)) (ne_Baseline (c_Network dst))\<rparr>,
     c_PersistAuth := or_else (c_PersistAuth src) (c_PersistAuth dst),
     c_Sync := or_else (c_Sync src) (c_Sync dst)\<rparr>"
    using u(1-18) by (simp add: mergeInto_def mergeSecurity_zero overlay_empty)
  show ?thesis
    unfolding 1 tightens_def
    using u(19-22)
    by (auto simp: if_set_def or_else_def BaselineEnabled_def PersistAuthEnabled_def SyncEnabled_def
        split: option.splits)
qed

lemma mergeProjectFile_tightens:
  "mergeProjectFile e dst path = Inr cfg \<Longrightarrow> tightens cfg dst"
  by (auto simp: mergeProjectFile_def mergeInto_unrestricted split: sum.splits option.splits if_splits)

subsection \<open>What a loaded configuration guarantees\<close>

definition base_layer :: "load_env \<Rightarrow> bytes \<Rightarrow> Config" where
  "base_layer e name = (profileBase (le_image e) name)\<lparr>c_Profile := name,
     c_Providers := overlay (Some (le_providers e)) (c_Providers (profileBase (le_image e) name))\<rparr>"

definition user_layer :: "load_env \<Rightarrow> bytes \<Rightarrow> (config_error, Config) result" where
  "user_layer e name =
    (if le_userPath e \<noteq> [] then mergeFile e (base_layer e name) (le_userPath e) else Inr (base_layer e name))"

definition top_layer :: "load_env \<Rightarrow> bytes \<Rightarrow> Config \<Rightarrow> (config_error, Config) result" where
  "top_layer e explicitPath cfg =
    (if explicitPath \<noteq> []
     then (case le_stat e explicitPath of Some err \<Rightarrow> Inl err | None \<Rightarrow> mergeFile e cfg explicitPath)
     else if le_projectPath e \<noteq> [] then mergeProjectFile e cfg (le_projectPath e)
     else Inr cfg)"

lemma LoadProfileWith_layers:
  "LoadProfileWith e ep fp ov =
    (case discoverProfile e ep fp of Inl err \<Rightarrow> Inl err | Inr name \<Rightarrow>
     case user_layer e name of Inl err \<Rightarrow> Inl err | Inr cfg2 \<Rightarrow>
     case top_layer e ep cfg2 of Inl err \<Rightarrow> Inl err | Inr cfg3 \<Rightarrow>
     case ValidateProfile name (apply_overrides ov (cfg3\<lparr>c_Profile := name\<rparr>)) of
       Some err \<Rightarrow> Inl err
     | None \<Rightarrow> Inr (apply_overrides ov (cfg3\<lparr>c_Profile := name\<rparr>)))"
  unfolding LoadProfileWith_def user_layer_def top_layer_def base_layer_def Let_def ..

lemma LoadProfileWith_steps:
  assumes "LoadProfileWith e ep fp ov = Inr cfg"
  obtains name cfg2 cfg3 where "discoverProfile e ep fp = Inr name" "user_layer e name = Inr cfg2"
    "top_layer e ep cfg2 = Inr cfg3" "cfg = apply_overrides ov (cfg3\<lparr>c_Profile := name\<rparr>)"
    "ValidateProfile name cfg = None"
proof -
  from assms obtain name where n: "discoverProfile e ep fp = Inr name"
    unfolding LoadProfileWith_layers by (cases "discoverProfile e ep fp") auto
  with assms obtain cfg2 where u: "user_layer e name = Inr cfg2"
    unfolding LoadProfileWith_layers by (cases "user_layer e name") auto
  with assms n obtain cfg3 where t: "top_layer e ep cfg2 = Inr cfg3"
    unfolding LoadProfileWith_layers by (cases "top_layer e ep cfg2") auto
  from assms n u t
  have "cfg = apply_overrides ov (cfg3\<lparr>c_Profile := name\<rparr>)" "ValidateProfile name cfg = None"
    unfolding LoadProfileWith_layers by (auto split: option.splits)
  with n u t show thesis by (rule that)
qed

lemma apply_overrides_fields [simp]:
  "c_Profile (apply_overrides ov c) = c_Profile c" "c_PersistAuth (apply_overrides ov c) = c_PersistAuth c"
  "c_Sync (apply_overrides ov c) = c_Sync c" "c_User (apply_overrides ov c) = c_User c"
  "c_Security (apply_overrides ov c) = c_Security c" "c_Ports (apply_overrides ov c) = c_Ports c"
  by (simp_all add: apply_overrides_def Let_def)

text \<open>Once set, a tri-state setting stays set through every layer.\<close>

lemma mergeInto_keeps_set:
  "c_PersistAuth dst \<noteq> None \<Longrightarrow> c_PersistAuth (mergeInto h dst src b) \<noteq> None"
  "c_Sync dst \<noteq> None \<Longrightarrow> c_Sync (mergeInto h dst src b) \<noteq> None"
  by (auto simp: mergeInto_def or_else_def split: option.splits)

lemma layers_keep_set:
  assumes "user_layer e ''prod'' = Inr cfg2" "top_layer e ep cfg2 = Inr cfg3"
  shows "c_PersistAuth cfg3 \<noteq> None" "c_Sync cfg3 \<noteq> None"
proof -
  have "c_PersistAuth (base_layer e ''prod'') \<noteq> None" "c_Sync (base_layer e ''prod'') \<noteq> None"
    by (simp_all add: base_layer_def profileBase_def Let_def)
  then have 2: "c_PersistAuth cfg2 \<noteq> None" "c_Sync cfg2 \<noteq> None"
    using assms(1) mergeInto_keeps_set
    by (auto simp: user_layer_def mergeFile_def split: if_splits sum.splits option.splits)
  then show "c_PersistAuth cfg3 \<noteq> None" "c_Sync cfg3 \<noteq> None"
    using assms(2) mergeInto_keeps_set
    by (auto simp: top_layer_def mergeFile_def mergeProjectFile_def
        split: if_splits sum.splits option.splits)
qed

text \<open>What the prod profile promises of the configuration that runs, whatever the files say.\<close>

definition prod_promises :: "Config \<Rightarrow> bool" where
  "prod_promises c \<longleftrightarrow>
     ne_Mode (c_Network c) = ''allowlist'' \<and> \<not> BaselineEnabled (c_Network c) \<and>
     EgressDomains (c_Network c) = DedupeDomains (items (ne_Allow (c_Network c))) \<and>
     \<not> PersistAuthEnabled c \<and> \<not> SyncEnabled c \<and> se_Seccomp (c_Security c) = ''required'' \<and>
     \<not> IsRootUser (c_User c) \<and> items (se_CapAdd (c_Security c)) = [] \<and>
     se_Memory (c_Security c) \<noteq> [] \<and> se_CPUs (c_Security c) \<noteq> [] \<and> 0 < Pids (c_Security c) \<and>
     items (c_Ports c) = []"

lemma prod_unmet_Nil:
  "prod_unmet c = [] \<Longrightarrow> c_PersistAuth c \<noteq> None \<Longrightarrow> c_Sync c \<noteq> None \<Longrightarrow> prod_promises c"
  by (auto simp: prod_unmet_def prod_promises_def EgressDomains_def PersistAuthEnabled_def SyncEnabled_def
      split: if_splits option.splits)

lemma discoverProfile_known: "discoverProfile e ep fp = Inr name \<Longrightarrow> KnownProfile name"
  by (auto simp: discoverProfile_def ResolveProfile_def KnownProfile_def Let_def split: if_splits)

lemma load_prod:
  assumes "LoadProfileWith e ep fp ov = Inr cfg" "c_Profile cfg = ''prod''"
  shows "prod_promises cfg"
proof -
  from assms(1) obtain name cfg2 cfg3 where
      u: "user_layer e name = Inr cfg2" and t: "top_layer e ep cfg2 = Inr cfg3"
      and c: "cfg = apply_overrides ov (cfg3\<lparr>c_Profile := name\<rparr>)"
      and v: "ValidateProfile name cfg = None"
    by (rule LoadProfileWith_steps)
  from c assms(2) have n: "name = ''prod''" by simp
  with v have "prod_unmet cfg = []" by (simp add: ValidateProfile_def split: if_splits)
  with layers_keep_set [OF u [unfolded n] t] c show ?thesis by (intro prod_unmet_Nil) simp_all
qed

subsection \<open>The project file never weakens the run\<close>

definition without_project :: "load_env \<Rightarrow> load_env" where
  "without_project e = e\<lparr>le_projectPath := []\<rparr>"

lemma without_project_simps [simp]:
  "le_userPath (without_project e) = le_userPath e" "le_read (without_project e) = le_read e"
  "user_layer (without_project e) name = user_layer e name"
  "le_projectPath (without_project e) = []"
  "file_profile (without_project e) = file_profile e"
  by (simp_all add: without_project_def user_layer_def base_layer_def mergeFile_def file_profile_def fun_eq_iff
      split: sum.splits option.splits)

lemma top_layer_without_project [simp]: "top_layer (without_project e) [] c = Inr c"
  by (simp add: top_layer_def)

lemma discover_without_project:
  assumes "discoverProfile e [] fp = Inr name1" "discoverProfile (without_project e) [] fp = Inr name0"
  shows "profileStrength name0 \<le> profileStrength name1"
    and "name1 \<noteq> name0 \<Longrightarrow> name1 = ''prod''"
  using assms
  by (auto simp: discoverProfile_def ResolveProfile_def KnownProfile_def profileStrength_def Let_def
      split: if_splits)

lemma apply_overrides_mono:
  "networkStrength (ne_Mode (c_Network a)) \<le> networkStrength (ne_Mode (c_Network b)) \<Longrightarrow>
   networkStrength (ne_Mode (c_Network (apply_overrides ov a))) \<le>
   networkStrength (ne_Mode (c_Network (apply_overrides ov b)))"
  by (auto simp: apply_overrides_def networkStrength_def Let_def split: if_splits)

lemma apply_overrides_baseline:
  "BaselineEnabled (c_Network (apply_overrides ov a)) \<longleftrightarrow> BaselineEnabled (c_Network a) \<and> \<not> ov_NoBaseline ov"
  by (auto simp: apply_overrides_def BaselineEnabled_def Let_def)

text \<open>The mode a user's own layer asks for does not depend on the profile underneath.\<close>

definition user_mode :: "load_env \<Rightarrow> bytes" where
  "user_mode e = (if le_userPath e = [] then []
     else case le_read e (le_userPath e) of Inr (Some f) \<Rightarrow> ne_Mode (c_Network f) | _ \<Rightarrow> [])"

lemma user_layer_mode:
  "user_layer e n = Inr c \<Longrightarrow> ne_Mode (c_Network c) = if_set (user_mode e) (ne_Mode (c_Network (base_layer e n)))"
  by (auto simp: user_layer_def user_mode_def mergeFile_def mergeInto_def split: if_splits sum.splits option.splits)

lemma base_layer_mode: "ne_Mode (c_Network (base_layer e n)) \<in> {[], ''allowlist''}"
  by (simp add: base_layer_def profileBase_def Default_def zero_config_def Let_def)

lemma user_layer_none:
  assumes "user_layer e n0 = Inr c0" "user_layer e n1 = Inr c1" "ne_Mode (c_Network c0) = ''none''"
  shows "ne_Mode (c_Network c1) = ''none''"
  using user_layer_mode [OF assms(1)] user_layer_mode [OF assms(2)] base_layer_mode [of e n0] assms(3)
  by (auto simp: if_set_def split: if_splits)

lemma mode_none_of_strength: "2 \<le> networkStrength m \<Longrightarrow> m = ''none''"
  by (auto simp: networkStrength_def split: if_splits)

lemma raised_profile_mode:
  assumes "user_layer e n0 = Inr a" "user_layer e n1 = Inr b" "tightens b' b"
    and "ne_Mode (c_Network (apply_overrides ov (a\<lparr>c_Profile := n0\<rparr>))) = ''none''"
  shows "ne_Mode (c_Network (apply_overrides ov (b'\<lparr>c_Profile := n1\<rparr>))) = ''none''"
proof (cases "ov_NetworkMode ov = []")
  case True
  with assms(4) have "ne_Mode (c_Network a) = ''none''"
    by (auto simp: apply_overrides_def Let_def split: if_splits)
  then have "ne_Mode (c_Network b) = ''none''" by (rule user_layer_none [OF assms(1,2)])
  then have "2 \<le> networkStrength (ne_Mode (c_Network b'))"
    using assms(3) by (simp add: tightens_def networkStrength_def)
  with True show ?thesis by (simp add: apply_overrides_def Let_def mode_none_of_strength)
next
  case False
  with assms(4) show ?thesis by (auto simp: apply_overrides_def Let_def split: if_splits)
qed

definition no_weaker :: "Config \<Rightarrow> Config \<Rightarrow> bool" where
  "no_weaker new old \<longleftrightarrow>
     profileStrength (c_Profile old) \<le> profileStrength (c_Profile new) \<and>
     networkStrength (ne_Mode (c_Network old)) \<le> networkStrength (ne_Mode (c_Network new)) \<and>
     (BaselineEnabled (c_Network new) \<longrightarrow> BaselineEnabled (c_Network old)) \<and>
     (PersistAuthEnabled new \<longrightarrow> PersistAuthEnabled old) \<and> (SyncEnabled new \<longrightarrow> SyncEnabled old)"

lemma tightens_no_weaker:
  assumes "tightens b a"
  shows "no_weaker (apply_overrides ov (b\<lparr>c_Profile := n\<rparr>)) (apply_overrides ov (a\<lparr>c_Profile := n\<rparr>))"
  using assms apply_overrides_mono [of "a\<lparr>c_Profile := n\<rparr>" "b\<lparr>c_Profile := n\<rparr>" ov]
  by (simp add: tightens_def no_weaker_def apply_overrides_baseline PersistAuthEnabled_def SyncEnabled_def)

text \<open>An environment in which a user has an allow list and the project asks for prod.\<close>

definition demo_user :: Config where
  "demo_user = zero_config\<lparr>c_Network := \<lparr>ne_Mode = ''allowlist'', ne_Allow = Some [''example.com''],
     ne_Baseline = None\<rparr>\<rparr>"

definition demo_project :: Config where
  "demo_project = zero_config\<lparr>c_Hostname := ''box'', c_Profile := ''prod'',
     c_Network := \<lparr>ne_Mode = ''none'', ne_Allow = None, ne_Baseline = Some False\<rparr>\<rparr>"

definition demo_env :: "Config \<Rightarrow> load_env" where
  "demo_env project = \<lparr>le_image = ''img'', le_home = None, le_userPath = ''/u'', le_projectPath = ''/p'',
     le_stat = (\<lambda>_. None),
     le_read = (\<lambda>p. if p = ''/u'' then Inr (Some demo_user) else if p = ''/p'' then Inr (Some project) else Inr None),
     le_providers = []\<rparr>"

definition no_overrides :: Overrides where
  "no_overrides = \<lparr>ov_NetworkMode = [], ov_Allow = [], ov_NoBaseline = False\<rparr>"

subsection \<open>Properties\<close>

text \<open>C1: An untrusted project file that is accepted changes nothing but the host name, whether
  caches are kept, and settings that confine the run more: every other field (image, user,
  mounts, secrets, environment, allow list, ports, security, providers, routing) is what it was,
  the network mode is at least as strict, and the baseline domains, the persisted login and the
  history sync can only have been turned off.\<close>

theorem project_file_only_tightens:
  assumes "mergeProjectFile e dst path = Inr cfg"
  shows "tightens cfg dst"
  using assms by (rule mergeProjectFile_tightens)

theorem project_file_only_tightens_witness:
  "(\<exists>cfg. mergeProjectFile (demo_env demo_project) (base_layer (demo_env demo_project) ''dev'') ''/p'' = Inr cfg \<and>
     c_Hostname cfg = ''box'' \<and> tightens cfg (base_layer (demo_env demo_project) ''dev''))"
proof -
  have "result_holds (\<lambda>cfg. c_Hostname cfg = ''box'')
      (mergeProjectFile (demo_env demo_project) (base_layer (demo_env demo_project) ''dev'') ''/p'')"
    by code_simp
  then show ?thesis using project_file_only_tightens unfolding result_holds_iff by blast
qed

text \<open>C2: Loading with the project file present never gives a weaker run than loading without it:
  the profile, the network mode, the baseline, the persisted login and the history sync are all
  at least as strict, whatever the project file, the user's file and the flags say.\<close>

theorem project_file_never_weakens:
  assumes "LoadProfileWith e [] fp ov = Inr c1"
    and "LoadProfileWith (without_project e) [] fp ov = Inr c0"
  shows "no_weaker c1 c0"
proof -
  from assms(1) obtain n1 a1 b1 where
      d1: "discoverProfile e [] fp = Inr n1" and u1: "user_layer e n1 = Inr a1"
      and t1: "top_layer e [] a1 = Inr b1" and c1: "c1 = apply_overrides ov (b1\<lparr>c_Profile := n1\<rparr>)"
    by (rule LoadProfileWith_steps)
  from assms(2) obtain n0 a0 where
      d0: "discoverProfile (without_project e) [] fp = Inr n0" and u0: "user_layer e n0 = Inr a0"
      and c0: "c0 = apply_overrides ov (a0\<lparr>c_Profile := n0\<rparr>)"
    by (auto elim: LoadProfileWith_steps)
  have tight: "tightens b1 a1"
    using t1 by (auto simp: top_layer_def mergeProjectFile_tightens split: if_splits)
  show ?thesis
  proof (cases "n1 = n0")
    case True
    with u0 u1 have "a0 = a1" by simp
    with True tight c0 c1 show ?thesis by (simp add: tightens_no_weaker)
  next
    case False
    then have prod: "n1 = ''prod''" by (rule discover_without_project(2) [OF d1 d0])
    have pp: "prod_promises c1" using assms(1) by (rule load_prod) (simp add: c1 prod)
    have "ne_Mode (c_Network c0) \<noteq> ''none''"
      using raised_profile_mode [OF u0 u1 tight, of ov] pp c0 c1 by (auto simp: prod_promises_def)
    then have "networkStrength (ne_Mode (c_Network c0)) \<le> networkStrength (ne_Mode (c_Network c1))"
      using pp by (simp add: prod_promises_def networkStrength_def)
    moreover have "profileStrength (c_Profile c0) \<le> profileStrength (c_Profile c1)"
      using discover_without_project(1) [OF d1 d0] by (simp add: c0 c1)
    ultimately show ?thesis using pp by (simp add: no_weaker_def prod_promises_def)
  qed
qed

theorem project_file_never_weakens_witness:
  "\<exists>c1 c0. LoadProfileWith (demo_env (zero_config\<lparr>c_Profile := ''prod''\<rparr>)) [] [] no_overrides = Inr c1 \<and>
     LoadProfileWith (without_project (demo_env (zero_config\<lparr>c_Profile := ''prod''\<rparr>))) [] [] no_overrides = Inr c0 \<and>
     c_Profile c0 = ''dev'' \<and> c_Profile c1 = ''prod'' \<and> no_weaker c1 c0"
proof -
  have "result_holds (\<lambda>c. c_Profile c = ''prod'')
      (LoadProfileWith (demo_env (zero_config\<lparr>c_Profile := ''prod''\<rparr>)) [] [] no_overrides)"
    by code_simp
  moreover have "result_holds (\<lambda>c. c_Profile c = ''dev'')
      (LoadProfileWith (without_project (demo_env (zero_config\<lparr>c_Profile := ''prod''\<rparr>))) [] [] no_overrides)"
    by code_simp
  ultimately show ?thesis using project_file_never_weakens unfolding result_holds_iff by blast
qed

text \<open>C3: A configuration loaded under the prod profile keeps the profile's promises, whatever
  layers it came from: an allow list and nothing else for egress, without the built-in baseline;
  no persisted login and no host history, effectively and not only by the letter of a tri-state
  field; a required syscall filter, bounded resources, no added capability, no published port,
  not root.\<close>

theorem loaded_prod_keeps_promises:
  assumes "LoadProfileWith e ep fp ov = Inr cfg" and "c_Profile cfg = ''prod''"
  shows "prod_promises cfg"
  using assms by (rule load_prod)

theorem loaded_prod_keeps_promises_witness:
  "\<exists>cfg. LoadProfileWith (demo_env (zero_config\<lparr>c_Profile := ''prod''\<rparr>)) [] [] no_overrides = Inr cfg \<and>
    c_Profile cfg = ''prod'' \<and> prod_promises cfg"
proof -
  have "result_holds (\<lambda>cfg. c_Profile cfg = ''prod'')
      (LoadProfileWith (demo_env (zero_config\<lparr>c_Profile := ''prod''\<rparr>)) [] [] no_overrides)"
    by code_simp
  then show ?thesis using loaded_prod_keeps_promises unfolding result_holds_iff by blast
qed

end
