(* ===== verification/Egress_Host.thy ===== *)
theory Egress_Host
  imports Go_Strings
begin

text \<open>
  \<open>internal/egressproxy/host.go\<close>: the form host names are compared in, and the matcher that
  decides whether a name is permitted. The reference meaning of a pattern list is
  \<open>names_match\<close>; the matcher built by \<open>NewMatcher\<close> / \<open>NewPolicyMatcher\<close> /
  \<open>NewDenyMatcher\<close> is shown to decide it.
\<close>

subsection \<open>Normal form of a host name\<close>

definition strip_port :: "bytes \<Rightarrow> bytes" where
  "strip_port h =
    (case LastIndexByte h (CHR '':'') of
       None \<Rightarrow> h
     | Some i \<Rightarrow>
        if CHR '']'' \<notin> set (drop i h) \<and>
           (CHR '':'' \<notin> set (take i h) \<or> HasSuffix (take i h) '']'')
        then take i h else h)"

definition normalizeHost :: "(nat \<Rightarrow> nat) \<Rightarrow> bytes \<Rightarrow> bytes" where
  "normalizeHost lr h = ToLower lr (TrimSuffix (strip_port (TrimSpace h)) ''.'')"

subsection \<open>The matcher\<close>

text \<open>
  \<open>m_exact\<close> are the keys of a Go map, kept in insertion order without repetition;
  \<open>m_deny\<close> is a pointer to another matcher.
\<close>

datatype matcher = Matcher
  (m_exact: "bytes list") (m_suffixes: "bytes list") (m_deny: "matcher option") (m_all: bool)

definition m_len :: "matcher \<Rightarrow> nat" where
  "m_len m = length (m_exact m) + length (m_suffixes m)"

fun add_pattern :: "(nat \<Rightarrow> nat) \<Rightarrow> matcher \<Rightarrow> bytes \<Rightarrow> matcher" where
  "add_pattern lr (Matcher ex sf dn al) p0 =
    (let p = normalizeHost lr p0 in
     if p = [] then Matcher ex sf dn al
     else case CutPrefix p ''*.'' of
       Some rest \<Rightarrow>
         if rest \<noteq> [] then Matcher ex (sf @ [''.'' @ rest]) dn al
         else Matcher (if p \<in> set ex then ex else ex @ [p]) sf dn al
     | None \<Rightarrow> Matcher (if p \<in> set ex then ex else ex @ [p]) sf dn al)"

definition NewMatcher :: "(nat \<Rightarrow> nat) \<Rightarrow> bytes list \<Rightarrow> matcher" where
  "NewMatcher lr patterns = foldl (add_pattern lr) (Matcher [] [] None False) patterns"

definition NewPolicyMatcher :: "(nat \<Rightarrow> nat) \<Rightarrow> bytes list \<Rightarrow> bytes list \<Rightarrow> matcher" where
  "NewPolicyMatcher lr al dn =
    (let m = NewMatcher lr al; d = NewMatcher lr dn in
     if 0 < m_len d then Matcher (m_exact m) (m_suffixes m) (Some d) (m_all m) else m)"

definition NewDenyMatcher :: "(nat \<Rightarrow> nat) \<Rightarrow> bytes list \<Rightarrow> matcher" where
  "NewDenyMatcher lr dn =
    (let m = NewPolicyMatcher lr [] dn in Matcher (m_exact m) (m_suffixes m) (m_deny m) True)"

fun allows :: "(nat \<Rightarrow> nat) \<Rightarrow> matcher \<Rightarrow> bytes \<Rightarrow> bool" where
  "allows lr (Matcher ex sf dn al) host =
    (let h = normalizeHost lr host in
     if h = [] then False
     else if (case dn of None \<Rightarrow> False | Some d \<Rightarrow> allows lr d h) then False
     else if al \<or> h \<in> set ex then True
     else list_ex (\<lambda>suf. HasSuffix h suf \<and> length suf < length h) sf)"

subsection \<open>Reference meaning\<close>

text \<open>
  What a pattern in normal form means: \<open>*.rest\<close> stands for the names that are one or more
  characters followed by \<open>.rest\<close>; anything else for itself. No other breadth.
\<close>

definition pattern_match :: "bytes \<Rightarrow> bytes \<Rightarrow> bool" where
  "pattern_match p n =
    (if HasPrefix p ''*.'' \<and> 2 < length p
     then HasSuffix n (drop 1 p) \<and> length p \<le> length n
     else p \<noteq> [] \<and> n = p)"

definition names_match :: "(nat \<Rightarrow> nat) \<Rightarrow> bytes list \<Rightarrow> bytes \<Rightarrow> bool" where
  "names_match lr ps n = list_ex (\<lambda>p. pattern_match (normalizeHost lr p) n) ps"

lemma pattern_match_nonempty: "pattern_match p n \<Longrightarrow> n \<noteq> []"
  by (auto simp: pattern_match_def split: if_splits)

lemma names_match_nonempty: "names_match lr ps n \<Longrightarrow> n \<noteq> []"
  by (auto simp: names_match_def list_ex_iff dest: pattern_match_nonempty)

lemma names_match_Nil [simp]: "\<not> names_match lr ps []"
  using names_match_nonempty by blast

lemma names_match_mono: "set ps \<subseteq> set qs \<Longrightarrow> names_match lr ps n \<Longrightarrow> names_match lr qs n"
  by (auto simp: names_match_def list_ex_iff)

lemma names_match_append [simp]: "names_match lr (ps @ qs) n \<longleftrightarrow> names_match lr ps n \<or> names_match lr qs n"
  by (simp add: names_match_def)

subsection \<open>What the built matcher decides\<close>

definition base_match :: "matcher \<Rightarrow> bytes \<Rightarrow> bool" where
  "base_match m n \<longleftrightarrow> n \<in> set (m_exact m) \<or>
     list_ex (\<lambda>suf. HasSuffix n suf \<and> length suf < length n) (m_suffixes m)"

lemma add_pattern_fields [simp]:
  "m_deny (add_pattern lr m p) = m_deny m" "m_all (add_pattern lr m p) = m_all m"
  by (cases m; auto simp: Let_def split: option.splits)+

lemma base_match_add_pattern:
  assumes "n \<noteq> []"
  shows "base_match (add_pattern lr m p) n \<longleftrightarrow> base_match m n \<or> pattern_match (normalizeHost lr p) n"
proof (cases m)
  case (Matcher ex sf dn al)
  define q where "q = normalizeHost lr p"
  show ?thesis
  proof (cases "CutPrefix q ''*.''")
    case None
    then have "\<not> HasPrefix q ''*.''" by (auto simp: CutPrefix_def split: if_splits)
    with None Matcher show ?thesis
      using assms by (auto simp: base_match_def pattern_match_def Let_def q_def [symmetric])
  next
    case (Some rest)
    then have q: "q = ''*.'' @ rest" by (simp add: CutPrefix_Some)
    show ?thesis
    proof (cases "rest = []")
      case True
      with q Some Matcher show ?thesis
        by (auto simp: base_match_def pattern_match_def Let_def q_def [symmetric])
    next
      case False
      then have "pattern_match q n \<longleftrightarrow> HasSuffix n (''.'' @ rest) \<and> length (''.'' @ rest) < length n"
        by (cases rest) (auto simp: q pattern_match_def HasPrefix_def)
      moreover have "add_pattern lr m p = Matcher ex (sf @ [''.'' @ rest]) dn al"
        using Some Matcher False q by (simp add: Let_def q_def [symmetric])
      ultimately show ?thesis by (simp add: Matcher base_match_def q_def)
    qed
  qed
qed

lemma foldl_add_pattern:
  "n \<noteq> [] \<Longrightarrow> base_match (foldl (add_pattern lr) m ps) n \<longleftrightarrow> base_match m n \<or> names_match lr ps n"
  by (induction ps arbitrary: m) (auto simp: base_match_add_pattern names_match_def)

lemma foldl_add_pattern_fields [simp]:
  "m_deny (foldl (add_pattern lr) m ps) = m_deny m" "m_all (foldl (add_pattern lr) m ps) = m_all m"
  by (induction ps arbitrary: m) auto

lemma NewMatcher_fields [simp]:
  "m_deny (NewMatcher lr ps) = None" "m_all (NewMatcher lr ps) = False"
  by (simp_all add: NewMatcher_def)

lemma base_match_NewMatcher: "n \<noteq> [] \<Longrightarrow> base_match (NewMatcher lr ps) n \<longleftrightarrow> names_match lr ps n"
  by (simp add: NewMatcher_def foldl_add_pattern) (simp add: base_match_def)

text \<open>A matcher without patterns matches nothing, so \<open>deny != nil\<close> only skips empty lists.\<close>

lemma base_match_empty: "m_len m = 0 \<Longrightarrow> \<not> base_match m n"
  by (cases m) (simp add: m_len_def base_match_def)

lemma allows_fields:
  "allows lr m host \<longleftrightarrow> (let h = normalizeHost lr host in
     h \<noteq> [] \<and> \<not> (case m_deny m of None \<Rightarrow> False | Some d \<Rightarrow> allows lr d h) \<and> (m_all m \<or> base_match m h))"
  by (cases m) (auto simp: Let_def base_match_def)

lemma allows_NewMatcher: "allows lr (NewMatcher lr ps) host \<longleftrightarrow> names_match lr ps (normalizeHost lr host)"
  unfolding allows_fields [of lr "NewMatcher lr ps"] Let_def
  using base_match_NewMatcher by (cases "normalizeHost lr host = []") auto

lemma deny_of_NewPolicyMatcher:
  "(case m_deny (NewPolicyMatcher lr al dn) of None \<Rightarrow> False | Some d \<Rightarrow> allows lr d h)
    \<longleftrightarrow> names_match lr dn (normalizeHost lr h)"
proof (cases "0 < m_len (NewMatcher lr dn)")
  case True
  then show ?thesis by (simp add: NewPolicyMatcher_def Let_def allows_NewMatcher)
next
  case False
  then have "\<not> names_match lr dn n" for n
    using base_match_NewMatcher [of n lr dn] base_match_empty [of "NewMatcher lr dn" n]
      names_match_nonempty [of lr dn n] by auto
  with False show ?thesis by (simp add: NewPolicyMatcher_def Let_def)
qed

lemma allows_NewPolicyMatcher:
  "allows lr (NewPolicyMatcher lr al dn) host \<longleftrightarrow>
    names_match lr al (normalizeHost lr host) \<and>
    \<not> names_match lr dn (normalizeHost lr (normalizeHost lr host))"
proof -
  have "base_match (NewPolicyMatcher lr al dn) n \<longleftrightarrow> base_match (NewMatcher lr al) n"
    "m_all (NewPolicyMatcher lr al dn) = False" for n
    by (simp_all add: NewPolicyMatcher_def base_match_def Let_def)
  then show ?thesis
    unfolding allows_fields [of lr "NewPolicyMatcher lr al dn"] Let_def deny_of_NewPolicyMatcher
    using base_match_NewMatcher by (cases "normalizeHost lr host = []") auto
qed

lemma allows_NewDenyMatcher:
  "allows lr (NewDenyMatcher lr dn) host \<longleftrightarrow>
    normalizeHost lr host \<noteq> [] \<and> \<not> names_match lr dn (normalizeHost lr (normalizeHost lr host))"
proof -
  have "m_deny (NewDenyMatcher lr dn) = m_deny (NewPolicyMatcher lr [] dn)" "m_all (NewDenyMatcher lr dn)"
    by (simp_all add: NewDenyMatcher_def Let_def)
  then show ?thesis
    unfolding allows_fields [of lr "NewDenyMatcher lr dn"] Let_def
    using deny_of_NewPolicyMatcher [where lr = lr and al = "[]" and dn = dn] by auto
qed

subsection \<open>Names already in normal form\<close>

text \<open>A name of lower-case letters, digits, dots, dashes and stars with no final dot is its own
  normal form.\<close>

definition host_char :: "char \<Rightarrow> bool" where
  "host_char c \<longleftrightarrow> plain_char c \<and> c \<noteq> CHR '':''"

lemma normalizeHost_plain:
  assumes "list_all host_char h" and "\<not> HasSuffix h ''.''"
  shows "normalizeHost lr h = h"
proof -
  have p: "list_all plain_char h" using assms(1) by (simp add: list_all_iff host_char_def)
  have "CHR '':'' \<notin> set h" using assms(1) by (auto simp: list_all_iff host_char_def)
  then have "strip_port h = h" by (simp add: strip_port_def LastIndexByte_None [THEN iffD2])
  then show ?thesis
    by (simp add: normalizeHost_def TrimSpace_plain [OF p] TrimSuffix_id [OF assms(2)] ToLower_plain [OF p])
qed

subsection \<open>The interface the proxy and the resolver rely on\<close>

text \<open>
  A name filter decides names by their normal form only, and never permits the absence of a
  name. The proxy, the forwarder and the resolver are verified against this contract.
\<close>

locale name_filter =
  fixes permits :: "'m \<Rightarrow> bytes \<Rightarrow> bool" and norm :: "bytes \<Rightarrow> bytes"
  assumes permits_norm: "norm h = norm h' \<Longrightarrow> permits m h = permits m h'"
    and permits_named: "permits m h \<Longrightarrow> norm h \<noteq> []"
begin

lemma nameless_refused: "norm h = [] \<Longrightarrow> \<not> permits m h"
  using permits_named by blast

lemma respelling: "permits m h \<Longrightarrow> norm h' = norm h \<Longrightarrow> permits m h'"
  using permits_norm by blast

end

interpretation matcher: name_filter "allows lr" "normalizeHost lr" for lr :: "nat \<Rightarrow> nat"
  by unfold_locales (auto simp: allows_fields Let_def)

end
