(* ===== verification/Egress_SNI.thy ===== *)
theory Egress_SNI
  imports Egress_Host
begin

text \<open>
  \<open>internal/egressproxy/sni.go\<close>: the server name of a TLS ClientHello, read from bytes the client
  chose. A \<open>reader\<close> is the bytes it has left; a read gives the value and the rest, or \<open>None\<close> where
  the code answers \<open>ok = false\<close> (no caller uses a reader after that). A reference encoder of the
  handshake is given to state what the parser finds.
\<close>

subsection \<open>The reader\<close>

definition u8 :: "bytes \<Rightarrow> (nat \<times> bytes) option" where
  "u8 b = (case b of [] \<Rightarrow> None | x # r \<Rightarrow> Some (nat_of_byte x, r))"

definition u16 :: "bytes \<Rightarrow> (nat \<times> bytes) option" where
  "u16 b = (case b of x # y # r \<Rightarrow> Some (be16 x y, r) | _ \<Rightarrow> None)"

definition skip :: "nat \<Rightarrow> bytes \<Rightarrow> (bytes \<times> bytes) option" where
  "skip n b = (if length b < n then None else Some (take n b, drop n b))"

definition vector :: "nat \<Rightarrow> bytes \<Rightarrow> (bytes \<times> bytes) option" where
  "vector lenBytes b =
    (if lenBytes = 1 then (case u8 b of None \<Rightarrow> None | Some (n, r) \<Rightarrow> skip n r)
     else if lenBytes = 2 then (case u16 b of None \<Rightarrow> None | Some (n, r) \<Rightarrow> skip n r)
     else if lenBytes = 3 then
       (case u8 b of None \<Rightarrow> None | Some (hi, r) \<Rightarrow>
        (case u16 r of None \<Rightarrow> None | Some (lo, r') \<Rightarrow> skip (hi * 65536 + lo) r'))
     else None)"

definition put_vector :: "nat \<Rightarrow> bytes \<Rightarrow> bytes" where
  "put_vector lenBytes v =
    (if lenBytes = 1 then byte_of_nat (length v) # v
     else if lenBytes = 2 then put16 (length v) @ v
     else byte_of_nat (length v div 65536) # put16 (length v) @ v)"

definition vector_fits :: "nat \<Rightarrow> bytes \<Rightarrow> bool" where
  "vector_fits lenBytes v \<longleftrightarrow> length v < 256 ^ lenBytes"

lemma u8_later: "u8 b = Some (n, r) \<Longrightarrow> u8 (b @ more) = Some (n, r @ more)"
  by (auto simp: u8_def split: list.splits)

lemma u16_later: "u16 b = Some (n, r) \<Longrightarrow> u16 (b @ more) = Some (n, r @ more)"
  by (auto simp: u16_def split: list.splits)

lemma skip_later: "skip n b = Some (v, r) \<Longrightarrow> skip n (b @ more) = Some (v, r @ more)"
  by (auto simp: skip_def split: if_splits)

lemma u8_shorter: "u8 b = Some (n, r) \<Longrightarrow> length r < length b"
  by (auto simp: u8_def split: list.splits)

lemma u16_shorter: "u16 b = Some (n, r) \<Longrightarrow> length r < length b"
  by (auto simp: u16_def split: list.splits)

lemma skip_shorter: "skip n b = Some (v, r) \<Longrightarrow> length r \<le> length b"
  by (auto simp: skip_def split: if_splits)

text \<open>Every vector is a length and then a skip.\<close>

lemma vector_cases:
  assumes "vector k b = Some (v, r)"
  obtains n q where "length q < length b" "skip n q = Some (v, r)"
    "\<And>more. vector k (b @ more) = skip n (q @ more)"
proof -
  consider "k = 1" | "k = 2" | "k = 3" using assms by (auto simp: vector_def split: if_splits)
  then show thesis
  proof cases
    case 1
    with assms obtain n q where "u8 b = Some (n, q)" "skip n q = Some (v, r)"
      by (auto simp: vector_def split: option.splits)
    with 1 that [of q n] show thesis by (simp add: u8_shorter vector_def u8_later [of b n q])
  next
    case 2
    with assms obtain n q where "u16 b = Some (n, q)" "skip n q = Some (v, r)"
      by (auto simp: vector_def split: option.splits)
    with 2 that [of q n] show thesis by (simp add: u16_shorter vector_def u16_later [of b n q])
  next
    case 3
    with assms obtain hi p lo q where "u8 b = Some (hi, p)" "u16 p = Some (lo, q)"
        "skip (hi * 65536 + lo) q = Some (v, r)"
      by (auto simp: vector_def split: option.splits)
    with 3 that [of q "hi * 65536 + lo"] show thesis
      using u8_shorter [of b hi p] u16_shorter [of p lo q]
      by (simp add: vector_def u8_later [of b hi p] u16_later [of p lo q])
  qed
qed

lemma vector_later: "vector k b = Some (v, r) \<Longrightarrow> vector k (b @ more) = Some (v, r @ more)"
  by (elim vector_cases) (simp add: skip_later)

lemma vector_shorter: "vector k b = Some (v, r) \<Longrightarrow> length r < length b"
  by (elim vector_cases) (auto dest: skip_shorter)

lemma skip_append: "n = length v \<Longrightarrow> skip n (v @ r) = Some (v, r)"
  by (simp add: skip_def)

lemma vector_put:
  assumes "k \<in> {1, 2, 3}" "vector_fits k v"
  shows "vector k (put_vector k v @ r) = Some (v, r)"
proof -
  have small: "nat_of_byte (byte_of_nat n :: char) = n" if "n < 256" for n using that by simp
  show ?thesis
    using assms small [of "length v"]
    by (auto simp: vector_def put_vector_def vector_fits_def u8_def u16_def put16_def skip_append
        skip_def be16_put16 [simplified])
qed

interpretation vec: wire_format "put_vector k" "vector k" "\<lambda>v. k \<in> {1, 2, 3} \<and> vector_fits k v" for k
  by unfold_locales (use vector_put vector_shorter vector_later in auto)

subsection \<open>The parser\<close>

datatype proxy_error = NoData | ShortRecord | TruncatedRecord | NotClientHello | NoHostname

definition maxClientHello :: nat where "maxClientHello = 16 * 1024"

definition plausibleHostname :: "bytes \<Rightarrow> bool" where
  "plausibleHostname h =
    (if 253 < length h \<or> ContainsAny h [CHR '' '', CHR 0x09, CHR 0x0D, CHR 0x0A, CHR ''/'', CHR 0x5C, CHR ''@'']
     then False
     else list_all (\<lambda>label. \<not> (label = [] \<or> 63 < length label)) (Split h ''.''))"

text \<open>A name taken from the wire: normalised, and refused when it cannot be a host.\<close>

definition wire_name :: "(nat \<Rightarrow> nat) \<Rightarrow> bytes \<Rightarrow> (proxy_error, bytes) result" where
  "wire_name lr name = (let h = normalizeHost lr name in
     if h = [] \<or> \<not> plausibleHostname h then Inl NoHostname else Inr h)"

function name_loop :: "(nat \<Rightarrow> nat) \<Rightarrow> bytes \<Rightarrow> (proxy_error, bytes) result" where
  "name_loop lr l =
    (case u8 l of None \<Rightarrow> Inl NoHostname
     | Some (typ, r) \<Rightarrow>
        (case vector 2 r of None \<Rightarrow> Inl NoHostname
         | Some (name, r') \<Rightarrow> if typ \<noteq> 0 then name_loop lr r' else wire_name lr name))"
  by pat_completeness auto
termination
  by (relation "measure (\<lambda>(lr, l). length l)") (auto dest!: u8_shorter vector_shorter)

declare name_loop.simps [simp del]

definition parseServerNameList :: "(nat \<Rightarrow> nat) \<Rightarrow> bytes \<Rightarrow> (proxy_error, bytes) result" where
  "parseServerNameList lr b =
    (case vector 2 b of None \<Rightarrow> Inl NoHostname | Some (l, _) \<Rightarrow> name_loop lr l)"

function ext_loop :: "(nat \<Rightarrow> nat) \<Rightarrow> bytes \<Rightarrow> (proxy_error, bytes) result" where
  "ext_loop lr e =
    (case u16 e of None \<Rightarrow> Inl NoHostname
     | Some (typ, r) \<Rightarrow>
        (case vector 2 r of None \<Rightarrow> Inl NoHostname
         | Some (body, r') \<Rightarrow> if typ \<noteq> 0 then ext_loop lr r' else parseServerNameList lr body))"
  by pat_completeness auto
termination
  by (relation "measure (\<lambda>(lr, l). length l)") (auto dest!: u16_shorter vector_shorter)

declare ext_loop.simps [simp del]

text \<open>The handshake body, from the message type on.\<close>

definition hello_body :: "(nat \<Rightarrow> nat) \<Rightarrow> bytes \<Rightarrow> (proxy_error, bytes) result" where
  "hello_body lr r0 =
    (case u8 r0 of None \<Rightarrow> Inl NotClientHello | Some (t, r1) \<Rightarrow>
     if t \<noteq> 1 then Inl NotClientHello else
     case skip (3 + 2 + 32) r1 of None \<Rightarrow> Inl NotClientHello | Some (_, r2) \<Rightarrow>
     case vector 1 r2 of None \<Rightarrow> Inl NotClientHello | Some (_, r3) \<Rightarrow>
     case vector 2 r3 of None \<Rightarrow> Inl NotClientHello | Some (_, r4) \<Rightarrow>
     case vector 1 r4 of None \<Rightarrow> Inl NotClientHello | Some (_, r5) \<Rightarrow>
     case vector 2 r5 of None \<Rightarrow> Inl NoHostname | Some (ext, _) \<Rightarrow> ext_loop lr ext)"

definition SNIFromClientHello :: "(nat \<Rightarrow> nat) \<Rightarrow> bytes \<Rightarrow> (proxy_error, bytes) result" where
  "SNIFromClientHello lr b =
    (if length b < 5 \<or> b ! 0 \<noteq> CHR 0x16 then Inl NotClientHello
     else let recLen = be16 (b ! 3) (b ! 4) in
       if recLen \<le> 0 \<or> maxClientHello < recLen then Inl NotClientHello
       else let r = drop 5 b in
         hello_body lr (if recLen < length r then take recLen r else r))"

subsection \<open>What is found is really there\<close>

definition infix_of :: "bytes \<Rightarrow> bytes \<Rightarrow> bool" where
  "infix_of n b \<longleftrightarrow> (\<exists>x y. b = x @ n @ y)"

lemma infix_of_trans: "infix_of a b \<Longrightarrow> infix_of b c \<Longrightarrow> infix_of a c"
  unfolding infix_of_def by (metis append.assoc)

lemma infix_of_parts: "infix_of v (x @ v @ y)" "infix_of b b"
  unfolding infix_of_def by (metis append_Nil append_Nil2)+

lemma u8_infix: "u8 b = Some (n, r) \<Longrightarrow> infix_of r b"
  by (auto simp: u8_def infix_of_def split: list.splits intro: exI [of _ "[_]"])

lemma u16_infix: "u16 b = Some (n, r) \<Longrightarrow> infix_of r b"
  by (auto simp: u16_def infix_of_def split: list.splits intro: exI [of _ "[_, _]"])

lemma skip_infix: "skip n b = Some (v, r) \<Longrightarrow> infix_of v b \<and> infix_of r b"
  unfolding infix_of_def skip_def
  by (auto split: if_splits) (metis append_take_drop_id append_Nil, metis append_take_drop_id append_Nil2)

lemma vector_infix:
  assumes "vector k b = Some (v, r)" shows "infix_of v b \<and> infix_of r b"
proof -
  consider "k = 1" | "k = 2" | "k = 3" using assms by (auto simp: vector_def split: if_splits)
  then show ?thesis
    using assms
    by cases (auto simp: vector_def split: option.splits
        dest!: u8_infix u16_infix skip_infix intro: infix_of_trans [OF _ infix_of_trans] infix_of_trans)
qed

lemma wire_name_Inr:
  "wire_name lr n = Inr h \<Longrightarrow> h = normalizeHost lr n \<and> h \<noteq> [] \<and> plausibleHostname h"
  by (auto simp: wire_name_def Let_def split: if_splits)

lemma name_loop_Inr: "name_loop lr l = Inr h \<Longrightarrow> \<exists>n. infix_of n l \<and> wire_name lr n = Inr h"
proof (induction lr l rule: name_loop.induct)
  case (1 lr l)
  from "1.prems" obtain ty r name r' where u: "u8 l = Some (ty, r)" "vector 2 r = Some (name, r')"
    by (subst (asm) name_loop.simps) (auto split: option.splits)
  have i: "infix_of name l" "infix_of r' l"
    using u8_infix [OF u(1)] vector_infix [OF u(2)] infix_of_trans by blast+
  show ?case
  proof (cases "ty = 0")
    case True
    with "1.prems" u i(1) show ?thesis by (subst (asm) name_loop.simps) auto
  next
    case False
    with "1.prems" u have "name_loop lr r' = Inr h" by (subst (asm) name_loop.simps) simp
    from "1.IH" [OF u(1) _ u(2) _ False this] i(2) infix_of_trans show ?thesis by blast
  qed
qed

lemma ext_loop_Inr: "ext_loop lr e = Inr h \<Longrightarrow> \<exists>n. infix_of n e \<and> wire_name lr n = Inr h"
proof (induction lr e rule: ext_loop.induct)
  case (1 lr e)
  from "1.prems" obtain ty r body r' where u: "u16 e = Some (ty, r)" "vector 2 r = Some (body, r')"
    by (subst (asm) ext_loop.simps) (auto split: option.splits)
  have i: "infix_of body e" "infix_of r' e"
    using u16_infix [OF u(1)] vector_infix [OF u(2)] infix_of_trans by blast+
  show ?case
  proof (cases "ty = 0")
    case True
    with "1.prems" u have "parseServerNameList lr body = Inr h" by (subst (asm) ext_loop.simps) simp
    then obtain l q where l: "vector 2 body = Some (l, q)" "name_loop lr l = Inr h"
      by (auto simp: parseServerNameList_def split: option.splits)
    have "infix_of l e" using vector_infix [OF l(1)] i(1) infix_of_trans by blast
    with name_loop_Inr [OF l(2)] infix_of_trans show ?thesis by blast
  next
    case False
    with "1.prems" u have "ext_loop lr r' = Inr h" by (subst (asm) ext_loop.simps) simp
    from "1.IH" [OF u(1) _ u(2) _ False this] i(2) infix_of_trans show ?thesis by blast
  qed
qed

text \<open>The steps of a handshake that gives a name.\<close>

lemma hello_body_steps:
  assumes "hello_body lr r0 = Inr h"
  obtains r1 v2 r2 v3 r3 v4 r4 v5 r5 ext r6 where "u8 r0 = Some (1, r1)" "skip 37 r1 = Some (v2, r2)"
    "vector 1 r2 = Some (v3, r3)" "vector 2 r3 = Some (v4, r4)" "vector 1 r4 = Some (v5, r5)"
    "vector 2 r5 = Some (ext, r6)" "ext_loop lr ext = Inr h"
  using assms unfolding hello_body_def by (auto split: option.splits if_splits)

lemma hello_body_later: "hello_body lr r = Inr h \<Longrightarrow> hello_body lr (r @ more) = Inr h"
proof (elim hello_body_steps)
  fix r1 v2 r2 v3 r3 v4 r4 v5 r5 ext r6
  assume "u8 r = Some (1, r1)" "skip 37 r1 = Some (v2, r2)" "vector 1 r2 = Some (v3, r3)"
    "vector 2 r3 = Some (v4, r4)" "vector 1 r4 = Some (v5, r5)" "vector 2 r5 = Some (ext, r6)" "ext_loop lr ext = Inr h"
  then show "hello_body lr (r @ more) = Inr h"
    using u8_later [of r] skip_later [of 37 r1] vector_later [of 1 r2] vector_later [of 2 r3]
      vector_later [of 1 r4] vector_later [of 2 r5]
    by (simp add: hello_body_def)
qed

lemma hello_body_infix:
  assumes "hello_body lr r = Inr h" shows "\<exists>n. infix_of n r \<and> wire_name lr n = Inr h"
proof -
  from assms obtain r1 v2 r2 v3 r3 v4 r4 v5 r5 ext r6 where s:
      "u8 r = Some (1, r1)" "skip 37 r1 = Some (v2, r2)" "vector 1 r2 = Some (v3, r3)"
      "vector 2 r3 = Some (v4, r4)" "vector 1 r4 = Some (v5, r5)" "vector 2 r5 = Some (ext, r6)"
      "ext_loop lr ext = Inr h"
    by (rule hello_body_steps)
  have "infix_of r2 r" using u8_infix [OF s(1)] skip_infix [OF s(2)] infix_of_trans by blast
  also have "infix_of r4 r2" using vector_infix [OF s(3)] vector_infix [OF s(4)] infix_of_trans by blast
  ultimately have "infix_of r4 r" using infix_of_trans by blast
  moreover have "infix_of ext r4" using vector_infix [OF s(5)] vector_infix [OF s(6)] infix_of_trans by blast
  ultimately show ?thesis using ext_loop_Inr [OF s(7)] infix_of_trans by blast
qed

lemma SNI_steps:
  assumes "SNIFromClientHello lr b = Inr h"
  defines "n \<equiv> be16 (b ! 3) (b ! 4)"
  shows "5 \<le> length b" "b ! 0 = CHR 0x16" "0 < n" "n \<le> maxClientHello" "hello_body lr (take n (drop 5 b)) = Inr h"
proof -
  show "5 \<le> length b" "b ! 0 = CHR 0x16" "0 < n" "n \<le> maxClientHello"
    using assms by (auto simp: SNIFromClientHello_def Let_def split: if_splits)
  then have "hello_body lr (if n < length (drop 5 b) then take n (drop 5 b) else drop 5 b) = Inr h"
    using assms(1) by (simp add: SNIFromClientHello_def Let_def n_def [symmetric])
  then show "hello_body lr (take n (drop 5 b)) = Inr h" by (simp split: if_splits)
qed

lemma SNI_later:
  assumes "SNIFromClientHello lr b = Inr h" shows "SNIFromClientHello lr (b @ more) = Inr h"
proof -
  note s = SNI_steps [OF assms]
  define n where "n = be16 (b ! 3) (b ! 4)"
  have "take n (drop 5 (b @ more)) = take n (drop 5 b) @ take (n - (length b - 5)) more"
    using s(1) by simp
  then have "hello_body lr (take n (drop 5 (b @ more))) = Inr h"
    using s(5) hello_body_later by (simp add: n_def)
  moreover have "(b @ more) ! 0 = CHR 0x16" "(b @ more) ! 3 = b ! 3" "(b @ more) ! 4 = b ! 4"
    using s(1,2) by (auto simp: nth_append)
  ultimately show ?thesis
    using s(1,3,4) unfolding SNIFromClientHello_def Let_def n_def
    by (auto simp: not_less intro!: arg_cong [of _ _ "hello_body lr"])
qed

subsection \<open>The name a well-formed handshake carries is found\<close>

definition put_names :: "(nat \<times> bytes) list \<Rightarrow> bytes" where
  "put_names ns = put_vector 2 (concat (map (\<lambda>(t, n). byte_of_nat t # put_vector 2 n) ns))"

definition put_exts :: "(nat \<times> bytes) list \<Rightarrow> bytes" where
  "put_exts es = put_vector 2 (concat (map (\<lambda>(t, b). put16 t @ put_vector 2 b) es))"

definition client_hello :: "bytes \<Rightarrow> bytes \<Rightarrow> bytes \<Rightarrow> bytes \<Rightarrow> (nat \<times> bytes) list \<Rightarrow> bytes" where
  "client_hello hdr sid suites comps es =
    CHR 0x01 # hdr @ put_vector 1 sid @ put_vector 2 suites @ put_vector 1 comps @ put_exts es"

definition put_record :: "bytes \<Rightarrow> bytes" where
  "put_record body = [CHR 0x16, CHR 0x03, CHR 0x01] @ put16 (length body) @ body"

definition entries_fit :: "nat \<Rightarrow> (nat \<times> bytes) list \<Rightarrow> bool" where
  "entries_fit m es \<longleftrightarrow> (\<forall>(t, b)\<in>set es. t < m \<and> vector_fits 2 b)"

lemma u16_put: "n < 65536 \<Longrightarrow> u16 (put16 n @ r) = Some (n, r)"
  by (simp add: u16_def put16_def)

lemma name_loop_finds:
  assumes "entries_fit 256 pre" "\<forall>(t, n)\<in>set pre. t \<noteq> 0" "vector_fits 2 n"
  shows "name_loop lr (concat (map (\<lambda>(t, n). byte_of_nat t # put_vector 2 n) pre) @
    byte_of_nat 0 # put_vector 2 n @ rest) = wire_name lr n"
  using assms
proof (induction pre)
  case Nil
  then show ?case by (subst name_loop.simps) (simp add: u8_def vector_put)
next
  case (Cons e pre)
  obtain t m where e: "e = (t, m)" by force
  with Cons show ?case by (subst name_loop.simps) (simp add: u8_def vector_put entries_fit_def)
qed

lemma ext_loop_finds:
  assumes "entries_fit 65536 pre" "\<forall>(t, b)\<in>set pre. t \<noteq> 0" "vector_fits 2 body"
  shows "ext_loop lr (concat (map (\<lambda>(t, b). put16 t @ put_vector 2 b) pre) @ put16 0 @ put_vector 2 body @ rest)
    = parseServerNameList lr body"
  using assms
proof (induction pre)
  case Nil
  then show ?case by (subst ext_loop.simps) (simp add: u16_put vector_put)
next
  case (Cons e pre)
  obtain t m where e: "e = (t, m)" by force
  with Cons show ?case by (subst ext_loop.simps) (simp add: u16_put vector_put entries_fit_def)
qed

text \<open>What a handshake must be to be written at all, and to fit the parser's bound.\<close>

definition hello_fits :: "bytes \<Rightarrow> bytes \<Rightarrow> bytes \<Rightarrow> bytes \<Rightarrow> (nat \<times> bytes) list \<Rightarrow> bool" where
  "hello_fits hdr sid suites comps es \<longleftrightarrow>
     length hdr = 37 \<and> vector_fits 1 sid \<and> vector_fits 2 suites \<and> vector_fits 1 comps \<and>
     entries_fit 65536 es \<and> vector_fits 2 (concat (map (\<lambda>(t, b). put16 t @ put_vector 2 b) es)) \<and>
     length (client_hello hdr sid suites comps es) \<le> maxClientHello"

lemma hello_body_client_hello:
  assumes "hello_fits hdr sid suites comps es"
  shows "hello_body lr (client_hello hdr sid suites comps es) =
    ext_loop lr (concat (map (\<lambda>(t, b). put16 t @ put_vector 2 b) es))"
proof -
  have "skip 37 (hdr @ r) = Some (hdr, r)" for r
    using assms by (simp add: skip_def hello_fits_def)
  moreover have "vector 2 (put_exts es) = Some (concat (map (\<lambda>(t, b). put16 t @ put_vector 2 b) es), [])"
    using assms vector_put [of 2 _ "[]"] by (simp add: put_exts_def hello_fits_def)
  ultimately show ?thesis
    using assms by (simp add: hello_body_def client_hello_def u8_def vector_put hello_fits_def)
qed

lemma SNI_put_record:
  assumes "0 < length body" "length body \<le> maxClientHello"
  shows "SNIFromClientHello lr (put_record body @ trailing) = hello_body lr body"
proof -
  have "length body < 65536" using assms(2) by (simp add: maxClientHello_def)
  then show ?thesis
    using assms by (auto simp: SNIFromClientHello_def put_record_def put16_def Let_def)
qed

subsection \<open>Properties\<close>

definition demo_hello :: "bytes" where
  "demo_hello = put_record (client_hello (replicate 37 (CHR 0x07)) ''s'' ''cc'' [CHR 0x00]
     ([(10, ''x'')] @ (0, put_names ([(3, ''odd'')] @ (0, ''Example.COM'') # [])) # [(16, ''h2'')]))"

text \<open>C37: The parser finds the server name of every ClientHello: for any record that fits the
  parser's bound, with any session, suites and extensions before and after it, the host name of
  the server_name extension is returned in normal form when it can be a host name and refused
  when it cannot, whatever bytes follow the record.\<close>

theorem sni_finds_name:
  assumes "hello_fits hdr sid suites comps (pre @ (0, put_names (npre @ (0, n) # npost)) # post)"
    and "\<forall>(t, b)\<in>set pre. t \<noteq> 0" and "\<forall>(t, b)\<in>set npre. t \<noteq> 0"
    and "entries_fit 256 (npre @ (0, n) # npost)"
    and "vector_fits 2 (concat (map (\<lambda>(t, n). byte_of_nat t # put_vector 2 n) (npre @ (0, n) # npost)))"
  shows "SNIFromClientHello lr (put_record (client_hello hdr sid suites comps
      (pre @ (0, put_names (npre @ (0, n) # npost)) # post)) @ trailing) = wire_name lr n"
proof -
  define es where "es = pre @ (0, put_names (npre @ (0, n) # npost)) # post"
  have fits: "entries_fit 65536 pre" "vector_fits 2 (put_names (npre @ (0, n) # npost))"
    using assms(1) by (auto simp: hello_fits_def entries_fit_def)
  have "SNIFromClientHello lr (put_record (client_hello hdr sid suites comps es) @ trailing) =
      ext_loop lr (concat (map (\<lambda>(t, b). put16 t @ put_vector 2 b) es))"
    using SNI_put_record [of "client_hello hdr sid suites comps es"] hello_body_client_hello assms(1)
    by (simp add: es_def hello_fits_def client_hello_def)
  also have "\<dots> = parseServerNameList lr (put_names (npre @ (0, n) # npost))"
    using ext_loop_finds [OF fits(1) assms(2) fits(2)] by (simp add: es_def)
  also have "\<dots> = name_loop lr (concat (map (\<lambda>(t, n). byte_of_nat t # put_vector 2 n) (npre @ (0, n) # npost)))"
    using vector_put [of 2 _ "[]"] assms(5) by (simp add: parseServerNameList_def put_names_def)
  also have "\<dots> = wire_name lr n"
    using name_loop_finds [OF _ assms(3), of n lr] assms(4) by (simp add: entries_fit_def)
  finally show ?thesis by (simp add: es_def)
qed

theorem sni_finds_name_witness:
  "SNIFromClientHello (\<lambda>x. x) (demo_hello @ ''more'') = Inr ''example.com''"
proof -
  have "wire_name (\<lambda>x. x) ''Example.COM'' = Inr ''example.com''" by code_simp
  moreover have "SNIFromClientHello (\<lambda>x. x) (demo_hello @ ''more'') = wire_name (\<lambda>x. x) ''Example.COM''"
    unfolding demo_hello_def
    by (rule sni_finds_name)
      (simp_all add: hello_fits_def entries_fit_def vector_fits_def client_hello_def put_exts_def put_names_def
        put_vector_def put16_def maxClientHello_def)
  ultimately show ?thesis by simp
qed

text \<open>A name the parser returns is the client's and nothing else: it is the normal form of
  bytes that stand in the record, not empty, of at most 253 characters and free of white space
  and slashes; and once a name has been read, bytes that arrive later do not change it.\<close>

theorem sni_sound_and_stable:
  assumes "SNIFromClientHello lr b = Inr h"
  shows "(\<exists>n. infix_of n b \<and> h = normalizeHost lr n) \<and> h \<noteq> [] \<and> plausibleHostname h \<and> length h \<le> 253 \<and>
    SNIFromClientHello lr (b @ more) = Inr h"
proof -
  note s = SNI_steps [OF assms]
  from hello_body_infix [OF s(5)] obtain n where n: "infix_of n (take (be16 (b ! 3) (b ! 4)) (drop 5 b))"
    "wire_name lr n = Inr h" by blast
  have "infix_of (take k (drop 5 b)) b" for k
    unfolding infix_of_def by (metis append_take_drop_id)
  with n(1) infix_of_trans have "infix_of n b" by blast
  with wire_name_Inr [OF n(2)] SNI_later [OF assms] show ?thesis
    by (auto simp: plausibleHostname_def split: if_splits)
qed

theorem sni_sound_and_stable_witness:
  "SNIFromClientHello (\<lambda>x. x) (demo_hello @ ''tail'') = Inr ''example.com''"
proof -
  have "SNIFromClientHello (\<lambda>x. x) demo_hello = Inr ''example.com''" by code_simp
  from sni_sound_and_stable [OF this] show ?thesis by blast
qed

end
