(* ===== verification/Egress_DNS.thy ===== *)
theory Egress_DNS
  imports Egress_Host
begin

text \<open>
  \<open>internal/egressproxy/dns.go\<close>: the resolver a sandbox's guest is given. One query gives one
  reply or silence, and the names that were passed on to the host's resolver, which is what the
  allow list must keep from being a channel. Header flags are 16-bit words.
\<close>

unbundle bit_operations_syntax

subsection \<open>The question\<close>

datatype dns_error = Short | BadLabel | NameTooLong

function labels_from :: "bytes \<Rightarrow> nat \<Rightarrow> nat \<Rightarrow> bytes list \<Rightarrow> (dns_error, bytes list \<times> nat) result" where
  "labels_from b off tot labels =
    (if length b \<le> off then Inl Short
     else let l = nat_of_byte (b ! off) in
       if l = 0 then Inr (labels, off + 1)
       else if l AND 0xC0 \<noteq> 0 \<or> 63 < l then Inl BadLabel
       else if length b < off + 1 + l then Inl Short
       else if 255 < tot + (l + 1) then Inl NameTooLong
       else labels_from b (off + 1 + l) (tot + (l + 1)) (labels @ [take l (drop (off + 1) b)]))"
  by pat_completeness auto
termination
  by (relation "measure (\<lambda>(b, off, tot, labels). length b - off)") (auto simp: Let_def)

declare labels_from.simps [simp del]

record question =
  qu_name :: bytes
  qu_type :: nat
  qu_class :: nat
  qu_end :: nat

definition parseQuestion :: "(nat \<Rightarrow> nat) \<Rightarrow> bytes \<Rightarrow> nat \<Rightarrow> (dns_error, question) result" where
  "parseQuestion lr b off0 =
    (case labels_from b off0 0 [] of
       Inl e \<Rightarrow> Inl e
     | Inr (labels, off) \<Rightarrow>
        if length b < off + 4 then Inl Short
        else Inr \<lparr>qu_name = ToLower lr (Join labels ''.''),
          qu_type = be16 (b ! off) (b ! (off + 1)), qu_class = be16 (b ! (off + 2)) (b ! (off + 3)),
          qu_end = off + 4\<rparr>)"

subsection \<open>The reply\<close>

definition answer_record :: "nat \<Rightarrow> bytes \<Rightarrow> bytes" where
  "answer_record ty ip = [CHR 0xC0, CHR 0x0C] @ put16 ty @ put16 1 @ put32 30 @ put16 4 @ ip"

definition reply_flags :: "16 word \<Rightarrow> nat \<Rightarrow> 16 word" where
  "reply_flags qflags rcode = 0x8000 OR (qflags AND 0x0100) OR 0x0080 OR word_of_nat rcode"

definition reply :: "bytes \<Rightarrow> 16 word \<Rightarrow> nat \<Rightarrow> bytes option \<Rightarrow> bytes list \<Rightarrow> nat \<Rightarrow> bytes" where
  "reply qid qflags rcode question ips ty =
    take 2 qid @ put16 (unat (reply_flags qflags rcode)) @
    put16 (case question of None \<Rightarrow> 0 | Some _ \<Rightarrow> 1) @ put16 (length ips) @ put16 0 @ put16 0 @
    (case question of None \<Rightarrow> [] | Some q \<Rightarrow> q) @ concat (map (answer_record ty) ips)"

subsection \<open>Answering\<close>

text \<open>
  What the host resolver says of a name: addresses (16-byte or 4-byte, as Go's \<open>net.IP\<close>), that it does not
  exist, or another failure.
\<close>

datatype lookup = Addrs "bytes list" | NotFound | LookupFailed

text \<open>\<open>net.IP.To4\<close>: a 4-byte address, or the last four of an IPv4-mapped one.\<close>

definition To4 :: "bytes \<Rightarrow> bytes option" where
  "To4 ip = (if length ip = 4 then Some ip
     else if length ip = 16 \<and> take 12 ip = replicate 10 (CHR 0x00) @ [CHR 0xFF, CHR 0xFF] then Some (drop 12 ip)
     else None)"

text \<open>The fields of the \<open>DNS\<close> server; a nil function is \<open>None\<close>.\<close>

record 'r DNS =
  d_MatchFor :: "('r \<Rightarrow> matcher option) option"
  d_Sinkhole :: "'r \<Rightarrow> bytes"
  d_Open :: "('r \<Rightarrow> bool) option"
  d_Resolve :: "(bytes \<Rightarrow> lookup) option"

definition maxAnswers :: nat where "maxAnswers = 8"

text \<open>A reply, and the names handed to the host resolver to make it.\<close>

definition resolved :: "'r DNS \<Rightarrow> bytes \<Rightarrow> 16 word \<Rightarrow> bytes \<Rightarrow> bytes \<Rightarrow> bytes \<times> bytes list" where
  "resolved d qid flags question name =
    (case d_Resolve d of
       None \<Rightarrow> (reply qid flags 2 (Some question) [] 0, [])
     | Some f \<Rightarrow>
        (case f name of
           NotFound \<Rightarrow> (reply qid flags 3 (Some question) [] 0, [name])
         | LookupFailed \<Rightarrow> (reply qid flags 2 (Some question) [] 0, [name])
         | Addrs ips \<Rightarrow> (reply qid flags 0 (Some question) (take maxAnswers (List.map_filter To4 ips)) 1, [name])))"

definition permitted_name :: "(nat \<Rightarrow> nat) \<Rightarrow> 'r DNS \<Rightarrow> 'r \<Rightarrow> bytes \<Rightarrow> bool" where
  "permitted_name lr d remote name =
    (case d_MatchFor d of None \<Rightarrow> False
     | Some f \<Rightarrow> (case f remote of None \<Rightarrow> False | Some m \<Rightarrow> allows lr m name))"

definition is_open :: "'r DNS \<Rightarrow> 'r \<Rightarrow> bool" where
  "is_open d remote = (case d_Open d of None \<Rightarrow> False | Some f \<Rightarrow> f remote)"

definition answer_question ::
    "(nat \<Rightarrow> nat) \<Rightarrow> 'r DNS \<Rightarrow> bytes \<Rightarrow> 16 word \<Rightarrow> 'r \<Rightarrow> bytes \<Rightarrow> question \<Rightarrow> bytes \<times> bytes list" where
  "answer_question lr d qid flags remote question q =
    (if drop_bit 11 flags AND 0xF \<noteq> 0 \<or> qu_class q \<noteq> 1 then (reply qid flags 4 (Some question) [] 0, [])
     else if \<not> permitted_name lr d remote (qu_name q) then (reply qid flags 3 (Some question) [] 0, [])
     else if qu_type q \<noteq> 1 then (reply qid flags 0 (Some question) [] 0, [])
     else if is_open d remote then resolved d qid flags question (qu_name q)
     else case To4 (d_Sinkhole d remote) of
       None \<Rightarrow> (reply qid flags 2 (Some question) [] 0, [])
     | Some ip \<Rightarrow> (reply qid flags 0 (Some question) [ip] 1, []))"

definition answer :: "(nat \<Rightarrow> nat) \<Rightarrow> 'r DNS \<Rightarrow> bytes \<Rightarrow> 'r \<Rightarrow> bytes option \<times> bytes list" where
  "answer lr d q remote =
    (if length q < 12 then (None, [])
     else let qid = take 2 q; flags = word_of_nat (be16 (q ! 2) (q ! 3)) :: 16 word in
       if flags AND 0x8000 \<noteq> 0 then (None, [])
       else if be16 (q ! 4) (q ! 5) \<noteq> 1 then (Some (reply qid flags 2 None [] 0), [])
       else case parseQuestion lr q 12 of
         Inl _ \<Rightarrow> (None, [])
       | Inr qu \<Rightarrow>
          (case answer_question lr d qid flags remote (drop 12 (take (qu_end qu) q)) qu of
             (r, names) \<Rightarrow> (Some r, names)))"

subsection \<open>Parsing what was written\<close>

definition put_label :: "bytes \<Rightarrow> bytes" where
  "put_label l = byte_of_nat (length l) # l"

definition put_question :: "bytes list \<Rightarrow> nat \<Rightarrow> nat \<Rightarrow> bytes" where
  "put_question ls ty cl = concat (map put_label ls) @ [CHR 0x00] @ put16 ty @ put16 cl"

definition labels_fit :: "bytes list \<Rightarrow> bool" where
  "labels_fit ls \<longleftrightarrow> (\<forall>l\<in>set ls. 0 < length l \<and> length l \<le> 63) \<and> length (concat (map put_label ls)) \<le> 255"

lemma small_label: "l \<le> 63 \<Longrightarrow> (l :: nat) AND 0xC0 = 0"
proof -
  have "list_all (\<lambda>l. l AND 0xC0 = 0) [0..<64 :: nat]" by code_simp
  moreover assume "l \<le> 63"
  ultimately show ?thesis by (simp add: list_all_iff)
qed

lemma labels_from_put:
  assumes "\<forall>l\<in>set ls. 0 < length l \<and> length l \<le> 63" "tot + length (concat (map put_label ls)) \<le> 255"
  shows "labels_from (pre @ concat (map put_label ls) @ CHR 0x00 # rest) (length pre) tot acc =
    Inr (acc @ ls, length pre + length (concat (map put_label ls)) + 1)"
  using assms
proof (induction ls arbitrary: pre tot acc)
  case Nil
  then show ?case by (subst labels_from.simps) simp
next
  case (Cons l ls)
  define tail where "tail = concat (map put_label ls) @ CHR 0x00 # rest"
  have l: "0 < length l" "length l \<le> 63" "nat_of_byte (byte_of_nat (length l) :: char) = length l"
    using Cons.prems(1) by auto
  have "labels_from (pre @ put_label l @ tail) (length pre) tot acc =
      labels_from ((pre @ put_label l) @ tail) (length (pre @ put_label l)) (tot + (length l + 1)) (acc @ [l])"
    using l small_label [of "length l"] Cons.prems(2)
    by (subst labels_from.simps) (auto simp: put_label_def Let_def nth_append)
  also have "\<dots> = Inr ((acc @ [l]) @ ls, length (pre @ put_label l) + length (concat (map put_label ls)) + 1)"
    unfolding tail_def by (rule Cons.IH) (use Cons.prems in \<open>auto simp: put_label_def\<close>)
  finally show ?case by (simp add: tail_def)
qed

lemma labels_from_bounds:
  "labels_from b off tot acc = Inr (ls, e) \<Longrightarrow> tot \<le> 255 \<Longrightarrow> off < e \<and> e \<le> length b \<and> e \<le> off + (255 - tot) + 1"
proof (induction b off tot acc rule: labels_from.induct)
  case (1 b off tot acc)
  define l where "l = nat_of_byte (b ! off)"
  have off: "off < length b" using "1.prems"(1) by (subst (asm) labels_from.simps) (auto split: if_splits)
  show ?case
  proof (cases "l = 0")
    case True
    with "1.prems"(1) off show ?thesis by (subst (asm) labels_from.simps) (simp add: Let_def l_def)
  next
    case False
    with "1.prems"(1) off have n: "\<not> (l AND 0xC0 \<noteq> 0 \<or> 63 < l)" "\<not> length b < off + 1 + l" "\<not> 255 < tot + (l + 1)"
      "labels_from b (off + 1 + l) (tot + (l + 1)) (acc @ [take l (drop (off + 1) b)]) = Inr (ls, e)"
      by (subst (asm) labels_from.simps, simp add: Let_def l_def split: if_splits)+
    from "1.IH" [of l] off False n have "off + 1 + l < e \<and> e \<le> length b \<and> e \<le> off + 1 + l + (255 - (tot + (l + 1))) + 1"
      by (simp add: l_def)
    with n(3) show ?thesis by linarith
  qed
qed

lemma parseQuestion_bounds:
  assumes "parseQuestion lr q 12 = Inr qu"
  shows "12 < qu_end qu" "qu_end qu \<le> length q" "qu_end qu \<le> 12 + 260"
proof -
  from assms obtain ls off where l: "labels_from q 12 0 [] = Inr (ls, off)" "off + 4 \<le> length q" "qu_end qu = off + 4"
    by (auto simp: parseQuestion_def split: sum.splits if_splits)
  from labels_from_bounds [OF l(1)] l(2,3)
  show "12 < qu_end qu" "qu_end qu \<le> length q" "qu_end qu \<le> 12 + 260" by auto
qed

subsection \<open>Reading a reply\<close>

lemma length_answer_record: "length ip = 4 \<Longrightarrow> length (answer_record ty ip) = 16"
  by (simp add: answer_record_def)

lemma length_reply:
  assumes "length qid = 2" "\<forall>ip\<in>set ips. length ip = 4"
  shows "length (reply qid flags rcode question ips ty) = 12 + (case question of None \<Rightarrow> 0 | Some q \<Rightarrow> length q) + 16 * length ips"
proof -
  have "length (concat (map (answer_record ty) ips)) = 16 * length ips"
    using assms(2) by (induction ips) (simp_all add: length_answer_record)
  then show ?thesis using assms(1) by (simp add: reply_def split: option.splits)
qed

lemma reply_fields:
  assumes "length qid = 2" "length ips < 65536"
  shows "take 2 (reply qid flags rcode question ips ty) = qid"
    "be16 (reply qid flags rcode question ips ty ! 2) (reply qid flags rcode question ips ty ! 3) = unat (reply_flags flags rcode)"
    "be16 (reply qid flags rcode question ips ty ! 6) (reply qid flags rcode question ips ty ! 7) = length ips"
proof -
  obtain a b where q: "qid = [a, b]" using assms(1) by (auto simp: length_Suc_conv numeral_2_eq_2)
  have "unat (reply_flags flags rcode) < 65536" using unsigned_less [of "reply_flags flags rcode", where ?'a = nat] by simp
  with q assms(2)
  show "take 2 (reply qid flags rcode question ips ty) = qid"
    "be16 (reply qid flags rcode question ips ty ! 2) (reply qid flags rcode question ips ty ! 3) = unat (reply_flags flags rcode)"
    "be16 (reply qid flags rcode question ips ty ! 6) (reply qid flags rcode question ips ty ! 7) = length ips"
    by (simp_all add: reply_def put16_def be16_put16 [simplified])
qed

lemma To4_length: "To4 ip = Some v \<Longrightarrow> length v = 4"
  by (auto simp: To4_def split: if_splits)

text \<open>Every answer is a reply to the question asked, with addresses only for a permitted name.\<close>

definition answers_ok :: "(nat \<Rightarrow> nat) \<Rightarrow> 'r DNS \<Rightarrow> 'r \<Rightarrow> question \<Rightarrow> bytes list \<Rightarrow> bool" where
  "answers_ok lr d remote qu ips \<longleftrightarrow> length ips \<le> maxAnswers \<and> (\<forall>ip\<in>set ips. length ip = 4) \<and>
     (ips \<noteq> [] \<longrightarrow> permitted_name lr d remote (qu_name qu) \<and> qu_type qu = 1 \<and> qu_class qu = 1)"

definition is_reply ::
    "(nat \<Rightarrow> nat) \<Rightarrow> 'r DNS \<Rightarrow> bytes \<Rightarrow> 16 word \<Rightarrow> 'r \<Rightarrow> bytes \<Rightarrow> question \<Rightarrow> bytes \<Rightarrow> bool" where
  "is_reply lr d qid flags remote question qu r \<longleftrightarrow>
     (\<exists>rcode ips ty. r = reply qid flags rcode (Some question) ips ty \<and> answers_ok lr d remote qu ips)"

lemma is_reply_empty: "is_reply lr d qid flags remote question qu (reply qid flags rcode (Some question) [] ty)"
  unfolding is_reply_def answers_ok_def by (intro exI conjI) (rule refl, simp_all)

lemma is_reply_addrs:
  assumes "permitted_name lr d remote (qu_name qu)" "qu_type qu = 1" "qu_class qu = 1"
    "length ips \<le> maxAnswers" "\<forall>ip\<in>set ips. length ip = 4"
  shows "is_reply lr d qid flags remote question qu (reply qid flags rcode (Some question) ips ty)"
  unfolding is_reply_def answers_ok_def using assms by (intro exI conjI) (rule refl, simp_all)

lemma take_addrs:
  "length (take maxAnswers (List.map_filter To4 ips)) \<le> maxAnswers"
  "\<forall>ip\<in>set (take maxAnswers (List.map_filter To4 ips)). length ip = 4"
  using To4_length by (simp, fastforce dest!: in_set_takeD simp: List.map_filter_def)

lemma answer_question_shape:
  "is_reply lr d qid flags remote question qu (fst (answer_question lr d qid flags remote question qu))"
proof (cases "drop_bit 11 flags AND 0xF \<noteq> 0 \<or> qu_class qu \<noteq> 1 \<or> \<not> permitted_name lr d remote (qu_name qu) \<or> qu_type qu \<noteq> 1")
  case True
  then show ?thesis by (auto simp: answer_question_def is_reply_empty)
next
  case False
  then have q: "permitted_name lr d remote (qu_name qu)" "qu_type qu = 1" "qu_class qu = 1" by auto
  show ?thesis
    using False is_reply_addrs [OF q take_addrs] is_reply_addrs [OF q, of "[_]"]
    by (auto simp: answer_question_def resolved_def is_reply_empty maxAnswers_def To4_length
        split: option.splits lookup.splits)
qed

lemma answer_question_names:
  "snd (answer_question lr d qid flags remote question qu) = [] \<or>
    (is_open d remote \<and> permitted_name lr d remote (qu_name qu) \<and> qu_type qu = 1 \<and>
     snd (answer_question lr d qid flags remote question qu) = [qu_name qu])"
  by (auto simp: answer_question_def resolved_def split: option.splits lookup.splits)

lemma reply_flags_QR: "bit (reply_flags f rcode) 15"
  by (simp add: reply_flags_def bit_simps)

lemma QR_large: "bit (w :: 16 word) 15 \<Longrightarrow> 32768 \<le> unat w"
proof (rule ccontr)
  assume b: "bit w 15" and "\<not> 32768 \<le> unat w"
  then have "unat w div 2 ^ 15 = 0" by simp
  then have "\<not> bit (unat w) 15" by (simp add: bit_iff_odd)
  with b show False by (simp add: bit_unsigned_iff)
qed

lemma answer_Some:
  assumes "fst (answer lr d q remote) = Some r"
  defines "flags \<equiv> word_of_nat (be16 (q ! 2) (q ! 3)) :: 16 word"
  shows "12 \<le> length q \<and> (r = reply (take 2 q) flags 2 None [] 0 \<or>
    (\<exists>qu. parseQuestion lr q 12 = Inr qu \<and>
      is_reply lr d (take 2 q) flags remote (drop 12 (take (qu_end qu) q)) qu r))"
proof -
  have "12 \<le> length q" using assms(1) by (auto simp: answer_def split: if_splits)
  moreover have "r = reply (take 2 q) flags 2 None [] 0 \<or> (\<exists>qu. parseQuestion lr q 12 = Inr qu \<and>
      r = fst (answer_question lr d (take 2 q) flags remote (drop 12 (take (qu_end qu) q)) qu))"
    using assms(1) unfolding answer_def Let_def flags_def [symmetric]
    by (auto split: if_splits sum.splits prod.splits)
  ultimately show ?thesis using answer_question_shape by metis
qed

lemma reply_sound:
  fixes flags :: "16 word" and rcode ty :: nat
  assumes "length qid = 2" "length ips \<le> maxAnswers" "\<forall>ip\<in>set ips. length ip = 4"
    and "(case question of None \<Rightarrow> 0 | Some q \<Rightarrow> length q) \<le> 260"
  defines "r \<equiv> reply qid flags rcode question ips ty"
  shows "take 2 r = qid" "32768 \<le> be16 (r ! 2) (r ! 3)" "12 \<le> length r" "length r \<le> 400" "be16 (r ! 6) (r ! 7) = length ips"
proof -
  have few: "length ips < 65536" using assms(2) by (simp add: maxAnswers_def)
  note f = reply_fields [OF assms(1) few, of flags rcode question ty, folded r_def]
  show "take 2 r = qid" "be16 (r ! 6) (r ! 7) = length ips" using f by simp_all
  show "32768 \<le> be16 (r ! 2) (r ! 3)" using f(2) QR_large [OF reply_flags_QR] by simp
  show "12 \<le> length r" "length r \<le> 400"
    using length_reply [OF assms(1,3), of flags rcode question ty, folded r_def] assms(2,4)
    by (simp_all add: maxAnswers_def)
qed

subsection \<open>Properties\<close>

definition demo_dns :: "nat DNS" where
  "demo_dns = \<lparr>d_MatchFor = Some (\<lambda>_. Some (NewMatcher (\<lambda>x. x) [''*.example.com''])),
     d_Sinkhole = (\<lambda>_. [CHR 0x0A, CHR 0x00, CHR 0x00, CHR 0x01]), d_Open = None, d_Resolve = None\<rparr>"

definition demo_query :: bytes where
  "demo_query = [CHR 0xAB, CHR 0xCD, CHR 0x01, CHR 0x00, CHR 0x00, CHR 0x01, CHR 0x00, CHR 0x00, CHR 0x00, CHR 0x00, CHR 0x00, CHR 0x00]
     @ put_question [''API'', ''example'', ''com''] 1 1"

text \<open>DNS is not a channel out of an allow-listed sandbox: whatever the packet, the host's
  resolver is asked nothing on behalf of a sandbox without open egress, and for one with open
  egress only the one name of the question, and only when its matcher permits it.\<close>

theorem dns_never_forwards:
  "snd (answer lr d q remote) = [] \<or>
   (is_open d remote \<and> (\<exists>qu. parseQuestion lr q 12 = Inr qu \<and> snd (answer lr d q remote) = [qu_name qu] \<and>
      permitted_name lr d remote (qu_name qu)))"
proof (cases "snd (answer lr d q remote) = []")
  case False
  then obtain qu where qu: "parseQuestion lr q 12 = Inr qu"
      "snd (answer lr d q remote) = snd (answer_question lr d (take 2 q) (word_of_nat (be16 (q ! 2) (q ! 3))) remote
        (drop 12 (take (qu_end qu) q)) qu)"
    unfolding answer_def Let_def by (auto split: if_splits sum.splits prod.splits)
  with answer_question_names False show ?thesis by metis
qed simp

text \<open>Every packet the resolver sends is a response to the one it got: the query's id, the
  response bit, at most 400 of the 512 bytes a UDP reply may have. It carries an address only for
  a question of type A, class IN, whose name the sandbox's matcher permits.\<close>

theorem dns_reply_sound:
  assumes "fst (answer lr d q remote) = Some r"
  shows "take 2 r = take 2 q \<and> 32768 \<le> be16 (r ! 2) (r ! 3) \<and> 12 \<le> length r \<and> length r \<le> 400 \<and>
    (be16 (r ! 6) (r ! 7) = 0 \<or>
     (\<exists>qu. parseQuestion lr q 12 = Inr qu \<and> permitted_name lr d remote (qu_name qu) \<and> qu_type qu = 1 \<and> qu_class qu = 1))"
proof -
  define flags where "flags = (word_of_nat (be16 (q ! 2) (q ! 3)) :: 16 word)"
  have q: "length (take 2 q) = 2" using answer_Some [OF assms] by simp
  consider "r = reply (take 2 q) flags 2 None [] 0"
    | qu where "parseQuestion lr q 12 = Inr qu"
        "is_reply lr d (take 2 q) flags remote (drop 12 (take (qu_end qu) q)) qu r"
    using answer_Some [OF assms] by (auto simp: flags_def)
  then show ?thesis
  proof cases
    case 1
    then show ?thesis
      using reply_sound [OF q, where ips = "[]" and question = None and flags = flags and rcode = 2 and ty = 0] by simp
  next
    case (2 qu)
    from 2(2) obtain rcode ips ty where
        r: "r = reply (take 2 q) flags rcode (Some (drop 12 (take (qu_end qu) q))) ips ty"
        and ok: "answers_ok lr d remote qu ips"
      by (auto simp: is_reply_def)
    have "length (drop 12 (take (qu_end qu) q)) \<le> 260" using parseQuestion_bounds [OF 2(1)] by simp
    with reply_sound [OF q, where ips = ips and question = "Some (drop 12 (take (qu_end qu) q))"
        and flags = flags and rcode = rcode and ty = ty] ok 2(1)
    show ?thesis by (auto simp: r answers_ok_def)
  qed
qed

theorem dns_reply_sound_witness:
  "\<exists>r. fst (answer (\<lambda>x. x) demo_dns demo_query 7) = Some r \<and> take 2 r = [CHR 0xAB, CHR 0xCD] \<and> length r \<le> 400"
proof -
  have "fst (answer (\<lambda>x. x) demo_dns demo_query 7) \<noteq> None" by code_simp
  then obtain r where r: "fst (answer (\<lambda>x. x) demo_dns demo_query 7) = Some r" by auto
  show ?thesis using dns_reply_sound [OF r] r by (simp add: demo_query_def)
qed

text \<open>A question that is written is read back: for any list of labels of one to 63 bytes that
  fits the bound, any type and class, and whatever follows, the parser returns the labels joined
  by dots in lower case, the type, the class, and where the question ends.\<close>

theorem dns_question_roundtrip:
  assumes "labels_fit ls" and "ty < 65536" and "cl < 65536" and "length hdr = 12"
  shows "parseQuestion lr (hdr @ put_question ls ty cl @ rest) 12 =
    Inr \<lparr>qu_name = ToLower lr (Join ls ''.''), qu_type = ty, qu_class = cl, qu_end = 12 + length (put_question ls ty cl)\<rparr>"
proof -
  define n where "n = length (concat (map put_label ls))"
  define b where "b = hdr @ concat (map put_label ls) @ CHR 0x00 # put16 ty @ put16 cl @ rest"
  have l: "labels_from b 12 0 [] = Inr (ls, 12 + n + 1)"
    using labels_from_put [of ls 0 hdr "put16 ty @ put16 cl @ rest" "[]"] assms(1,4)
    by (simp add: b_def n_def labels_fit_def)
  have "b = (hdr @ concat (map put_label ls) @ [CHR 0x00]) @ put16 ty @ put16 cl @ rest" by (simp add: b_def)
  moreover have "length (hdr @ concat (map put_label ls) @ [CHR 0x00]) = 12 + n + 1" using assms(4) by (simp add: n_def)
  ultimately have at: "drop (12 + n + 1) b = put16 ty @ put16 cl @ rest" "12 + n + 1 + 4 \<le> length b" by auto
  have "b ! (12 + n + 1 + k) = (put16 ty @ put16 cl @ rest) ! k" if "k < 4" for k
    using at that by (metis add_leD1 nth_drop)
  from this [of 0] this [of 1] this [of 2] this [of 3]
  have "be16 (b ! (12 + n + 1)) (b ! (12 + n + 1 + 1)) = ty" "be16 (b ! (12 + n + 1 + 2)) (b ! (12 + n + 1 + 3)) = cl"
    using assms(2,3) by (simp_all add: put16_def)
  then show ?thesis
    using l at(2) assms(4) by (simp add: parseQuestion_def put_question_def b_def n_def)
qed

theorem dns_question_roundtrip_witness:
  "parseQuestion (\<lambda>x. x) (replicate 12 (CHR 0x01) @ put_question [''API'', ''io''] 1 1 @ ''x'') 12 =
    Inr \<lparr>qu_name = ''api.io'', qu_type = 1, qu_class = 1, qu_end = 24\<rparr>"
proof -
  have "ToLower (\<lambda>x. x) (Join [''API'', ''io''] ''.'') = ''api.io''" by code_simp
  then show ?thesis
    using dns_question_roundtrip [of "[''API'', ''io'']" 1 1 "replicate 12 (CHR 0x01)" "\<lambda>x. x" "''x''"]
    by (simp add: labels_fit_def put_label_def put_question_def)
qed

end
