(* ===== verification/Egress_Proxy.thy ===== *)
theory Egress_Proxy
  imports Egress_SNI Egress_DNS
begin

text \<open>
  \<open>internal/egressproxy/server.go\<close> and \<open>open.go\<close>, and \<open>internal/publicnet\<close>: the proxy that decides
  each connection of an allow-listed sandbox by the name it carries, and the forwarder that serves
  sandboxes with open egress. A connection is the sequence of chunks its reads return before it
  ends; what a handler does to the world is the list of its events, in order.
\<close>

subsection \<open>The buffered reader\<close>

text \<open>
  \<open>bufio.Reader\<close> as far as \<open>Peek\<close> goes: the bytes buffered and not consumed, what the connection
  will still return read by read, and the size of the buffer. A read takes what fits; when nothing
  is left a read fails (the peer closed, or the deadline passed).
\<close>

record breader =
  br_buf :: bytes
  br_in :: "bytes list"
  br_size :: nat

definition stream :: "breader \<Rightarrow> bytes" where
  "stream br = br_buf br @ concat (br_in br)"

definition fill :: "breader \<Rightarrow> breader option" where
  "fill br = (case br_in br of
       [] \<Rightarrow> None
     | c # cs \<Rightarrow> let k = br_size br - length (br_buf br) in
        Some (br\<lparr>br_buf := br_buf br @ take k c, br_in := (if length c \<le> k then cs else drop k c # cs)\<rparr>))"

function peek_fill :: "nat \<Rightarrow> breader \<Rightarrow> breader" where
  "peek_fill n br =
    (if length (br_buf br) < n \<and> length (br_buf br) < br_size br
     then case fill br of None \<Rightarrow> br | Some br' \<Rightarrow> peek_fill n br'
     else br)"
  by pat_completeness auto
termination
  by (relation "measure (\<lambda>(n, br). length (br_in br) + length (concat (br_in br)))")
    (auto simp: fill_def Let_def split: list.splits if_splits)

declare peek_fill.simps [simp del]

text \<open>The bytes, whether there was an error, and the reader afterwards.\<close>

definition Peek :: "nat \<Rightarrow> breader \<Rightarrow> bytes \<times> bool \<times> breader" where
  "Peek n br = (let br' = peek_fill n br in
     if length (br_buf br') < n then (br_buf br', True, br') else (take n (br_buf br'), False, br'))"

lemma fill_stream:
  assumes "fill br = Some br'"
  shows "stream br' = stream br" "br_size br' = br_size br" "length (br_buf br) \<le> br_size br \<Longrightarrow> length (br_buf br') \<le> br_size br"
  using assms by (auto simp: fill_def stream_def Let_def split: list.splits)

lemma peek_fill_props:
  "stream (peek_fill n br) = stream br \<and> br_size (peek_fill n br) = br_size br \<and>
   (length (br_buf br) \<le> br_size br \<longrightarrow> length (br_buf (peek_fill n br)) \<le> br_size br) \<and>
   (length (br_buf (peek_fill n br)) < n \<longrightarrow> br_size br \<le> length (br_buf (peek_fill n br)) \<or> br_in (peek_fill n br) = [])"
proof (induction n br rule: peek_fill.induct)
  case (1 n br)
  show ?case
  proof (cases "length (br_buf br) < n \<and> length (br_buf br) < br_size br")
    case True
    show ?thesis
    proof (cases "fill br")
      case None
      then have "br_in br = []" by (auto simp: fill_def Let_def split: list.splits)
      with None True show ?thesis by (subst (1 2 3 4 5 6) peek_fill.simps) simp
    next
      case (Some br')
      then have "peek_fill n br = peek_fill n br'" using True by (subst peek_fill.simps) simp
      with "1.IH" [OF True Some] fill_stream [OF Some] show ?thesis by simp
    qed
  next
    case False
    then have "peek_fill n br = br" by (subst peek_fill.simps) auto
    with False show ?thesis by auto
  qed
qed

lemma Peek_size: "Peek n br = (b, e, br') \<Longrightarrow> br_size br' = br_size br"
  using peek_fill_props [of n br] by (auto simp: Peek_def Let_def split: if_splits)

lemma Peek_enough: "Peek n br = (b, False, br') \<Longrightarrow> n \<le> length (br_buf br')"
  by (auto simp: Peek_def Let_def split: if_splits)

lemma Peek_more:
  assumes "(x, e, b) = Peek n br" "(y, False, c) = Peek (Suc n) b" "length (br_buf br) \<le> n" "\<not> br_size br \<le> n"
  shows "br_size c - length (br_buf c) < br_size br - length (br_buf br)"
  using Peek_size [OF assms(1) [symmetric]] Peek_size [OF assms(2) [symmetric]]
    Peek_enough [OF assms(2) [symmetric]] assms(3,4) by linarith

lemma Peek_more_first:
  assumes "(x, e, b) = Peek n br" "(y, False, c) = Peek (Suc n) b" "br_buf br = []" "\<not> br_size br \<le> n"
  shows "br_size c - length (br_buf c) < br_size br"
  using Peek_more [OF assms(1,2)] assms(3,4) by simp

text \<open>What \<open>Peek\<close> returns is the front of the stream: all of it that was asked for, unless the stream
  or the buffer ends first. It does not depend on how the stream was cut into reads.\<close>

lemma Peek_stream:
  assumes "length (br_buf br) \<le> br_size br" "n \<le> br_size br"
  shows "fst (Peek n br) = take n (stream br)" "fst (snd (Peek n br)) \<longleftrightarrow> length (stream br) < n"
    "stream (snd (snd (Peek n br))) = stream br" "br_size (snd (snd (Peek n br))) = br_size br"
    "length (br_buf (snd (snd (Peek n br)))) \<le> br_size br"
proof -
  define br' where "br' = peek_fill n br"
  have p: "stream br' = stream br" "br_size br' = br_size br" "length (br_buf br') \<le> br_size br"
    "length (br_buf br') < n \<Longrightarrow> br_in br' = []"
    using peek_fill_props [of n br] assms by (auto simp: br'_def)
  have s: "stream br = br_buf br' @ concat (br_in br')" using p(1) by (simp add: stream_def)
  show "fst (Peek n br) = take n (stream br)" "fst (snd (Peek n br)) \<longleftrightarrow> length (stream br) < n"
    using p(4) by (auto simp: Peek_def Let_def br'_def [symmetric] s)
  show "stream (snd (snd (Peek n br))) = stream br" "br_size (snd (snd (Peek n br))) = br_size br"
    "length (br_buf (snd (snd (Peek n br)))) \<le> br_size br"
    using p by (simp_all add: Peek_def Let_def br'_def [symmetric])
qed

subsection \<open>What a connection asks for\<close>

definition peekRecord :: "breader \<Rightarrow> (proxy_error, bytes) result \<times> breader" where
  "peekRecord br =
    (case Peek 5 br of (head, err, br1) \<Rightarrow>
       if err then (Inl ShortRecord, br1)
       else let n = be16 (head ! 3) (head ! 4) in
         if n \<le> 0 \<or> maxClientHello < n then (Inl NotClientHello, br1)
         else case Peek (min (5 + n) (br_size br1)) br1 of (b, err', br2) \<Rightarrow>
           if err' \<and> length b < 6 then (Inl TruncatedRecord, br2) else (Inr b, br2))"

abbreviation CRLF :: bytes where "CRLF \<equiv> [CHR 0x0D, CHR 0x0A]"

definition head_complete :: "bytes \<Rightarrow> bool" where
  "head_complete b \<longleftrightarrow> b \<noteq> [] \<and> (Contains b (CRLF @ CRLF) \<or> Contains b [CHR 0x0A, CHR 0x0A])"

function peekHeaders :: "breader \<Rightarrow> (proxy_error, bytes) result \<times> breader" where
  "peekHeaders br =
    (let n = (if length (br_buf br) = 0 then 1 else length (br_buf br)) in
     case Peek n br of (b, err, br1) \<Rightarrow>
       if head_complete b then (Inr b, br1)
       else if err then (if b \<noteq> [] then Inr b else Inl NoData, br1)
       else if br_size br \<le> n then (Inr b, br1)
       else case Peek (n + 1) br1 of (_, err', br2) \<Rightarrow>
         if err' then (if br_buf br2 \<noteq> [] then Inr (br_buf br2) else Inl NoData, br2)
         else peekHeaders br2)"
  by pat_completeness auto
termination
  by (relation "measure (\<lambda>br. br_size br - length (br_buf br))")
    (auto intro: Peek_more Peek_more_first split: if_splits)

declare peekHeaders.simps [simp del]

definition parseConnect :: "(nat \<Rightarrow> nat) \<Rightarrow> bytes \<Rightarrow> (bytes \<times> int) option" where
  "parseConnect lr b =
    (case Cut b CRLF of None \<Rightarrow> None | Some (line, _) \<Rightarrow>
     let f = Fields line in
     if length f < 2 \<or> \<not> EqualFold (f ! 0) ''CONNECT'' then None
     else let (hostport, port) =
         (case SplitHostPort (f ! 1) of
            None \<Rightarrow> (f ! 1, 443)
          | Some (h, p) \<Rightarrow> (h, case Atoi p of None \<Rightarrow> 443 | Some n \<Rightarrow> n)) in
       case wire_name lr hostport of Inl _ \<Rightarrow> None | Inr h \<Rightarrow> Some (h, port))"

fun host_line :: "(nat \<Rightarrow> nat) \<Rightarrow> bytes list \<Rightarrow> bytes option" where
  "host_line lr [] = None"
| "host_line lr (line # rest) =
    (case Cut line '':'' of
       None \<Rightarrow> host_line lr rest
     | Some (name, val) \<Rightarrow>
        if \<not> EqualFold (TrimSpace name) ''host'' then host_line lr rest
        else case wire_name lr val of Inl _ \<Rightarrow> None | Inr h \<Rightarrow> Some h)"

definition hostHeader :: "(nat \<Rightarrow> nat) \<Rightarrow> bytes \<Rightarrow> bytes option" where
  "hostHeader lr b = host_line lr (Split b CRLF)"

text \<open>What a connection asks for: the host, the port, and whether it addressed the proxy itself.\<close>

record request =
  r_host :: bytes
  r_port :: int
  r_explicit :: bool

definition peek :: "(nat \<Rightarrow> nat) \<Rightarrow> breader \<Rightarrow> (proxy_error, request) result \<times> breader" where
  "peek lr br =
    (case Peek 1 br of (first, err, br1) \<Rightarrow>
       if err then (Inl NoData, br1)
       else if first ! 0 = CHR 0x16 then
         (case peekRecord br1 of (rec, br2) \<Rightarrow>
            (case rec of Inl e \<Rightarrow> Inl e
             | Inr hello \<Rightarrow> (case SNIFromClientHello lr hello of Inl e \<Rightarrow> Inl e
                 | Inr h \<Rightarrow> Inr \<lparr>r_host = h, r_port = 443, r_explicit = False\<rparr>), br2))
       else
         (case peekHeaders br1 of (head, br2) \<Rightarrow>
            (case head of Inl e \<Rightarrow> Inl e
             | Inr line \<Rightarrow> (case parseConnect lr line of
                   Some (h, p) \<Rightarrow> Inr \<lparr>r_host = h, r_port = p, r_explicit = True\<rparr>
                 | None \<Rightarrow> (case hostHeader lr line of
                     Some h \<Rightarrow> Inr \<lparr>r_host = h, r_port = 80, r_explicit = False\<rparr>
                   | None \<Rightarrow> Inl NoHostname)), br2)))"

subsection \<open>Deciding a connection\<close>

record Decision =
  dc_Host :: bytes
  dc_Port :: int
  dc_Allowed :: bool
  dc_Reason :: bytes

datatype event =
    Log Decision
  | Write bytes
  | Lookup bytes
  | Dial bytes int
  | Splice bytes

text \<open>Whether an event reaches beyond the proxy: a name looked up, a connection made, bytes forwarded.\<close>

fun touches_network :: "event \<Rightarrow> bool" where
  "touches_network (Lookup _) = True"
| "touches_network (Dial _ _) = True"
| "touches_network (Splice _) = True"
| "touches_network (Log _) = False"
| "touches_network (Write _) = False"

fun error_text :: "proxy_error \<Rightarrow> bytes" where
  "error_text NoData = ''connection sent no data''"
| "error_text ShortRecord = ''short TLS record''"
| "error_text TruncatedRecord = ''truncated TLS record''"
| "error_text NotClientHello = ''not a TLS ClientHello''"
| "error_text NoHostname = ''connection carries no hostname to check''"

text \<open>
  The rest of the world for one connection: the matcher chosen for the peer, the port the kernel
  says was asked for, the resolver, whether a dial of an address and port succeeds or its error,
  and whether the client still takes a status line.
\<close>

record world =
  w_match :: "matcher option"
  w_origPort :: "int option"
  w_resolve :: "bytes \<Rightarrow> bytes list option"
  w_dial :: "bytes \<Rightarrow> int \<Rightarrow> bytes option"
  w_writeOK :: bool

fun dial_loop :: "world \<Rightarrow> int \<Rightarrow> bytes \<Rightarrow> bytes list \<Rightarrow> event list \<times> bytes option" where
  "dial_loop w port lastErr [] = ([], Some lastErr)"
| "dial_loop w port lastErr (ip # ips) =
    (case w_dial w ip port of
       None \<Rightarrow> ([Dial ip port], None)
     | Some err \<Rightarrow> (case dial_loop w port err ips of (evs, r) \<Rightarrow> (Dial ip port # evs, r)))"

text \<open>\<open>None\<close> is success, otherwise the error's text.\<close>

definition dialHost :: "world \<Rightarrow> bytes \<Rightarrow> int \<Rightarrow> event list \<times> bytes option" where
  "dialHost w host port =
    (case w_resolve w host of
       None \<Rightarrow> ([Lookup host], Some (''cannot resolve '' @ host))
     | Some ips \<Rightarrow>
        if ips = [] then ([Lookup host], Some (''cannot resolve '' @ host))
        else case dial_loop w port [] ips of (evs, r) \<Rightarrow> (Lookup host # evs, r))"

definition status403 :: bytes where "status403 = ''HTTP/1.1 403 Forbidden'' @ CRLF @ CRLF"
definition status200 :: bytes where "status200 = ''HTTP/1.1 200 Connection established'' @ CRLF @ CRLF"

definition effective_port :: "world \<Rightarrow> request \<Rightarrow> int" where
  "effective_port w r = (if \<not> r_explicit r
     then (case w_origPort w of Some p \<Rightarrow> if 0 < p then p else r_port r | None \<Rightarrow> r_port r)
     else r_port r)"

definition serve_request :: "(nat \<Rightarrow> nat) \<Rightarrow> world \<Rightarrow> request \<Rightarrow> breader \<Rightarrow> event list" where
  "serve_request lr w r br =
    (let host = r_host r; port = effective_port w r in
     if r_explicit r \<and> port \<noteq> 80 \<and> port \<noteq> 443 then
       [Log \<lparr>dc_Host = host, dc_Port = port, dc_Allowed = False, dc_Reason = ''CONNECT to a port outside 80/443''\<rparr>,
        Write status403]
     else if (case w_match w of None \<Rightarrow> True | Some m \<Rightarrow> \<not> allows lr m host) then
       Log \<lparr>dc_Host = host, dc_Port = port, dc_Allowed = False, dc_Reason = ''not on the egress allowlist''\<rparr> #
       (if r_explicit r then [Write status403] else [])
     else case dialHost w host port of
       (evs, Some err) \<Rightarrow>
         evs @ [Log \<lparr>dc_Host = host, dc_Port = port, dc_Allowed = True, dc_Reason = ''upstream: '' @ err\<rparr>]
     | (evs, None) \<Rightarrow>
         evs @ [Log \<lparr>dc_Host = host, dc_Port = port, dc_Allowed = True, dc_Reason = []\<rparr>] @
         (if r_explicit r then Write status200 # (if w_writeOK w then [Splice (stream br)] else [])
          else [Splice (stream br)]))"

definition handle :: "(nat \<Rightarrow> nat) \<Rightarrow> world \<Rightarrow> breader \<Rightarrow> event list" where
  "handle lr w br =
    (case peek lr br of
       (Inl e, _) \<Rightarrow>
         if e = NoData then []
         else [Log \<lparr>dc_Host = [], dc_Port = 0, dc_Allowed = False, dc_Reason = error_text e\<rparr>]
     | (Inr r, br') \<Rightarrow> serve_request lr w r br')"

subsection \<open>Public addresses\<close>

definition ip4 :: "nat \<Rightarrow> nat \<Rightarrow> nat \<Rightarrow> nat \<Rightarrow> nat" where
  "ip4 a b c d = ((a * 256 + b) * 256 + c) * 256 + d"

text \<open>A range is an address and a prefix length; \<open>IPNet.Contains\<close> compares the prefixes.\<close>

definition in_net :: "nat \<times> nat \<Rightarrow> nat \<Rightarrow> bool" where
  "in_net n a = (case n of (net, len) \<Rightarrow> a div 2 ^ (32 - len) = net div 2 ^ (32 - len))"

definition notPublic :: "(nat \<times> nat) list" where
  "notPublic = [(ip4 0 0 0 0, 8), (ip4 10 0 0 0, 8), (ip4 100 64 0 0, 10), (ip4 127 0 0 0, 8),
     (ip4 169 254 0 0, 16), (ip4 172 16 0 0, 12), (ip4 192 0 0 0, 24), (ip4 192 0 2 0, 24),
     (ip4 192 88 99 0, 24), (ip4 192 168 0 0, 16), (ip4 198 18 0 0, 15), (ip4 198 51 100 0, 24),
     (ip4 203 0 113 0, 24), (ip4 224 0 0 0, 4), (ip4 240 0 0 0, 4)]"

definition addr4 :: "bytes \<Rightarrow> nat" where
  "addr4 v = be32 (v ! 0) (v ! 1) (v ! 2) (v ! 3)"

text \<open>\<open>net.IP.Equal\<close> with a four-byte address: the same address in either length.\<close>

definition Unreachable :: "bytes \<Rightarrow> bytes list \<Rightarrow> bytes" where
  "Unreachable ip local =
    (case To4 ip of
       None \<Rightarrow> ''open egress: not an IPv4 address''
     | Some v4 \<Rightarrow>
        if list_ex (\<lambda>n. in_net n (addr4 v4)) notPublic then ''open egress: not a public address''
        else if list_ex (\<lambda>l. To4 l = Some v4) local then ''open egress: one of the host's own addresses''
        else [])"

text \<open>\<open>publicnet.Addr\<close>, for addresses the host dials for a client elsewhere.\<close>

definition global_unicast4 :: "nat \<Rightarrow> bool" where
  "global_unicast4 a \<longleftrightarrow> a \<noteq> 0 \<and> a \<noteq> ip4 255 255 255 255 \<and> \<not> in_net (ip4 127 0 0 0, 8) a \<and>
     \<not> in_net (ip4 224 0 0 0, 4) a \<and> \<not> in_net (ip4 169 254 0 0, 16) a"

definition private4 :: "nat \<Rightarrow> bool" where
  "private4 a \<longleftrightarrow> in_net (ip4 10 0 0 0, 8) a \<or> in_net (ip4 172 16 0 0, 12) a \<or> in_net (ip4 192 168 0 0, 16) a"

definition global_unicast6 :: "bytes \<Rightarrow> bool" where
  "global_unicast6 v \<longleftrightarrow> v \<noteq> replicate 16 (CHR 0x00) \<and> v \<noteq> replicate 15 (CHR 0x00) @ [CHR 0x01] \<and>
     v ! 0 \<noteq> CHR 0xFF \<and> \<not> (v ! 0 = CHR 0xFE \<and> nat_of_byte (v ! 1) div 64 = 2)"

definition private6 :: "bytes \<Rightarrow> bool" where
  "private6 v \<longleftrightarrow> nat_of_byte (v ! 0) div 2 = 0x7E"

definition Addr :: "bytes \<Rightarrow> bool" where
  "Addr ip =
    (case To4 ip of
       Some v4 \<Rightarrow> global_unicast4 (addr4 v4) \<and> \<not> private4 (addr4 v4) \<and> \<not> in_net (ip4 100 64 0 0, 10) (addr4 v4)
     | None \<Rightarrow> length ip = 16 \<and> global_unicast6 ip \<and> \<not> private6 ip)"

subsection \<open>Open egress\<close>

record fworld =
  fw_For :: "matcher option"
  fw_Dest :: "(bytes \<times> int) option"
  fw_local :: "bytes list option"
  fw_text :: "bytes \<Rightarrow> bytes"
  fw_dial :: "bytes \<Rightarrow> int \<Rightarrow> bytes option"

definition unreachable_now :: "fworld \<Rightarrow> bytes \<Rightarrow> bytes" where
  "unreachable_now w ip = (case fw_local w of
       None \<Rightarrow> ''open egress: cannot read the host's addresses'' | Some local \<Rightarrow> Unreachable ip local)"

definition forward :: "fworld \<Rightarrow> bytes \<Rightarrow> int \<Rightarrow> breader \<Rightarrow> event list" where
  "forward w ip port br =
    Dial ip port # (case fw_dial w ip port of
       Some err \<Rightarrow> [Log \<lparr>dc_Host = fw_text w ip, dc_Port = port, dc_Allowed = True, dc_Reason = ''upstream: '' @ err\<rparr>]
     | None \<Rightarrow> [Splice (stream br)])"

definition handle_open :: "(nat \<Rightarrow> nat) \<Rightarrow> fworld \<Rightarrow> breader \<Rightarrow> event list" where
  "handle_open lr w br =
    (case fw_For w of None \<Rightarrow> [] | Some m \<Rightarrow>
     case fw_Dest w of
       None \<Rightarrow> [Log \<lparr>dc_Host = [], dc_Port = 0, dc_Allowed = False, dc_Reason = ''open egress: no original destination''\<rparr>]
     | Some (ip, port) \<Rightarrow>
        if ip = [] \<or> port \<le> 0 then
          [Log \<lparr>dc_Host = [], dc_Port = 0, dc_Allowed = False, dc_Reason = ''open egress: no original destination''\<rparr>]
        else if unreachable_now w ip \<noteq> [] then
          [Log \<lparr>dc_Host = fw_text w ip, dc_Port = port, dc_Allowed = False, dc_Reason = unreachable_now w ip\<rparr>]
        else if m_deny m \<noteq> None \<and> (port = 80 \<or> port = 443) then
          (case peek lr br of
             (Inr r, br') \<Rightarrow>
               if \<not> allows lr m (r_host r) then
                 [Log \<lparr>dc_Host = r_host r, dc_Port = port, dc_Allowed = False, dc_Reason = ''on the deny list''\<rparr>]
               else forward w ip port br'
           | (Inl _, br') \<Rightarrow> forward w ip port br')
        else forward w ip port br)"

subsection \<open>Lemmas\<close>

lemma Peek_keeps: "Peek n br = (b, e, br') \<Longrightarrow> stream br' = stream br"
  using peek_fill_props [of n br] by (auto simp: Peek_def Let_def split: if_splits)

lemma peekRecord_keeps: "stream (snd (peekRecord br)) = stream br"
  by (auto simp: peekRecord_def Let_def split: prod.splits if_splits dest!: Peek_keeps)

lemma peekHeaders_keeps: "stream (snd (peekHeaders br)) = stream br"
proof (induction br rule: peekHeaders.induct)
  case (1 br)
  define n where "n = (if length (br_buf br) = 0 then 1 else length (br_buf br))"
  obtain b err br1 where p1: "Peek n br = (b, err, br1)" using prod_cases3 by blast
  obtain b' err' br2 where p2: "Peek (n + 1) br1 = (b', err', br2)" using prod_cases3 by blast
  note k = Peek_keeps [OF p1] Peek_keeps [OF p2]
  note step = peekHeaders.simps [of br, unfolded Let_def, folded n_def, unfolded p1 prod.case p2]
  show ?case
  proof (cases "head_complete b \<or> err \<or> br_size br \<le> n \<or> err'")
    case True
    with k show ?thesis by (subst step) auto
  next
    case False
    then have "peekHeaders br = peekHeaders br2"
      by (subst step) auto
    moreover have "stream (snd (peekHeaders br2)) = stream br2"
      using False p1 p2 by (intro "1.IH" [OF n_def]) auto
    ultimately show ?thesis using k by simp
  qed
qed

text \<open>Nothing that was peeked at is lost.\<close>

lemma peek_keeps: "stream (snd (peek lr br)) = stream br"
  using peekRecord_keeps peekHeaders_keeps
  by (auto simp: peek_def split: prod.splits if_splits dest!: Peek_keeps) (metis snd_conv)+

lemma dial_loop_events: "dial_loop w port e ips = (evs, r) \<Longrightarrow> ev \<in> set evs \<Longrightarrow> \<exists>ip\<in>set ips. ev = Dial ip port"
  by (induction ips arbitrary: e evs) (auto split: option.splits prod.splits, blast)

lemma dialHost_events:
  assumes "dialHost w host port = (evs, r)" "ev \<in> set evs"
  shows "ev = Lookup host \<or> (\<exists>ips ip. w_resolve w host = Some ips \<and> ip \<in> set ips \<and> ev = Dial ip port)"
  using assms dial_loop_events [of w port "[]"]
  by (auto simp: dialHost_def split: option.splits if_splits prod.splits) blast

text \<open>What a TLS connection asks for is a function of its stream alone.\<close>

definition tls_request :: "(nat \<Rightarrow> nat) \<Rightarrow> bytes \<Rightarrow> (proxy_error, request) result" where
  "tls_request lr s =
    (if length s < 5 then Inl ShortRecord
     else let n = be16 (s ! 3) (s ! 4) in
       if n \<le> 0 \<or> maxClientHello < n then Inl NotClientHello
       else if length s < 6 then Inl TruncatedRecord
       else case SNIFromClientHello lr (take (5 + n) s) of Inl e \<Rightarrow> Inl e
         | Inr h \<Rightarrow> Inr \<lparr>r_host = h, r_port = 443, r_explicit = False\<rparr>)"

definition reader_ok :: "breader \<Rightarrow> bool" where
  "reader_ok br \<longleftrightarrow> length (br_buf br) \<le> br_size br \<and> br_size br = maxClientHello + 512"

lemma Peek_tuple:
  assumes "reader_ok br" "n \<le> maxClientHello + 512"
  obtains br' where "Peek n br = (take n (stream br), length (stream br) < n, br')" "stream br' = stream br" "reader_ok br'"
proof -
  obtain b e br' where p: "Peek n br = (b, e, br')" using prod_cases3 by blast
  from assms Peek_stream [of br n] that [of br'] show thesis by (simp add: p reader_ok_def)
qed

lemma peekRecord_stream:
  assumes "reader_ok br"
  shows "fst (peekRecord br) =
    (if length (stream br) < 5 then Inl ShortRecord
     else let n = be16 (stream br ! 3) (stream br ! 4) in
       if n \<le> 0 \<or> maxClientHello < n then Inl NotClientHello
       else if length (stream br) < 6 then Inl TruncatedRecord
       else Inr (take (5 + n) (stream br)))"
proof -
  define s where "s = stream br"
  obtain br1 where p1: "Peek 5 br = (take 5 s, length s < 5, br1)" "stream br1 = s" "reader_ok br1"
    using Peek_tuple [OF assms, of 5] by (auto simp: s_def)
  define n where "n = be16 (s ! 3) (s ! 4)"
  show ?thesis
  proof (cases "length s < 5 \<or> n \<le> 0 \<or> maxClientHello < n")
    case True
    then show ?thesis by (auto simp: peekRecord_def p1(1) s_def [symmetric] n_def Let_def)
  next
    case False
    then have m: "min (5 + n) (br_size br1) = 5 + n" "5 + n \<le> maxClientHello + 512"
      using p1(3) by (auto simp: reader_ok_def)
    obtain br2 where p2: "Peek (5 + n) br1 = (take (5 + n) s, length s < 5 + n, br2)"
      using Peek_tuple [OF p1(3) m(2)] p1(2) by auto
    have "peekRecord br = (if length s < 5 + n \<and> length (take (5 + n) s) < 6 then (Inl TruncatedRecord, br2)
        else (Inr (take (5 + n) s), br2))"
      using False m(1) by (simp add: peekRecord_def p1(1) n_def [symmetric] p2 Let_def)
    then show ?thesis using False by (auto simp: s_def [symmetric] n_def [symmetric] Let_def)
  qed
qed

lemma peek_tls:
  assumes "reader_ok br" "stream br \<noteq> []" "hd (stream br) = CHR 0x16"
  shows "fst (peek lr br) = tls_request lr (stream br)"
proof -
  obtain br1 where p: "Peek 1 br = (take 1 (stream br), length (stream br) < 1, br1)" "stream br1 = stream br" "reader_ok br1"
    using Peek_tuple [OF assms(1), of 1] by auto
  have "fst (peek lr br) = (case fst (peekRecord br1) of Inl e \<Rightarrow> Inl e
      | Inr hello \<Rightarrow> (case SNIFromClientHello lr hello of Inl e \<Rightarrow> Inl e
          | Inr h \<Rightarrow> Inr \<lparr>r_host = h, r_port = 443, r_explicit = False\<rparr>))"
    using assms(2,3) unfolding peek_def p(1) by (cases "stream br") (auto split: prod.splits)
  then show ?thesis
    unfolding peekRecord_stream [OF p(3)] p(2) tls_request_def Let_def by (auto split: sum.splits)
qed

lemma serve_request_events:
  assumes "ev \<in> set (serve_request lr w r br)" "touches_network ev"
  shows "\<exists>m. w_match w = Some m \<and> allows lr m (r_host r) \<and>
    (r_explicit r \<longrightarrow> effective_port w r = 80 \<or> effective_port w r = 443) \<and>
    (case ev of Lookup h \<Rightarrow> h = r_host r
     | Dial ip p \<Rightarrow> p = effective_port w r \<and> (\<exists>ips. w_resolve w (r_host r) = Some ips \<and> ip \<in> set ips)
     | Splice data \<Rightarrow> data = stream br | _ \<Rightarrow> False)"
proof -
  obtain evs res where d: "dialHost w (r_host r) (effective_port w r) = (evs, res)" by force
  have ok: "\<not> (r_explicit r \<and> effective_port w r \<noteq> 80 \<and> effective_port w r \<noteq> 443)"
    using assms by (auto simp: serve_request_def Let_def split: if_splits)
  then obtain m where m: "w_match w = Some m" "allows lr m (r_host r)"
    using assms by (auto simp: serve_request_def Let_def split: option.splits if_splits)
  have "ev \<in> set evs \<or> ev = Splice (stream br)"
    using assms ok m d by (auto simp: serve_request_def Let_def split: option.splits if_splits)
  then show ?thesis
    using dialHost_events [OF d, of ev] ok m by auto
qed

lemma forward_Dial: "Dial ip port \<in> set (forward w ip' port' br) \<Longrightarrow> ip = ip' \<and> port = port'"
  by (auto simp: forward_def split: option.splits)

lemma in_net_notPublic: "list_ex (\<lambda>n. in_net n a) notPublic \<longleftrightarrow> (\<exists>n\<in>set notPublic. in_net n a)"
  by (simp add: list_ex_iff)

lemma public4:
  assumes "\<not> list_ex (\<lambda>n. in_net n a) notPublic"
  shows "global_unicast4 a \<and> \<not> private4 a \<and> \<not> in_net (ip4 100 64 0 0, 10) a"
proof -
  have "0 < a" using assms by (cases "a = 0") (auto simp: notPublic_def in_net_def ip4_def)
  then show ?thesis
    using assms by (auto simp: notPublic_def global_unicast4_def private4_def in_net_def ip4_def)
qed

subsection \<open>Properties\<close>

definition demo_conn :: breader where
  "demo_conn = \<lparr>br_buf = [], br_in = [take 30 demo_hello, drop 30 demo_hello], br_size = maxClientHello + 512\<rparr>"

definition demo_world :: world where
  "demo_world = \<lparr>w_match = Some (NewMatcher (\<lambda>x. x) [''example.com'']), w_origPort = Some 8443,
     w_resolve = (\<lambda>_. Some [[CHR 0x01, CHR 0x02, CHR 0x03, CHR 0x04]]), w_dial = (\<lambda>_ _. None), w_writeOK = True\<rparr>"

text \<open>C21: The proxy touches the network only for a permitted name. If handling a connection looks a
  name up, dials an address or forwards a byte, then the connection itself named a host that the
  peer's matcher permits; only that name is looked up, only its addresses are dialled, on the port
  that was asked for (80 or 443 when the proxy was addressed explicitly), and what is forwarded is
  the client's whole stream, nothing lost to the peeking.\<close>

theorem proxy_touches_only_permitted:
  assumes "ev \<in> set (handle lr w br)" and "touches_network ev"
  shows "\<exists>r m. fst (peek lr br) = Inr r \<and> w_match w = Some m \<and> allows lr m (r_host r) \<and>
    (r_explicit r \<longrightarrow> effective_port w r = 80 \<or> effective_port w r = 443) \<and>
    (case ev of Lookup h \<Rightarrow> h = r_host r
     | Dial ip p \<Rightarrow> p = effective_port w r \<and> (\<exists>ips. w_resolve w (r_host r) = Some ips \<and> ip \<in> set ips)
     | Splice data \<Rightarrow> data = stream br | _ \<Rightarrow> False)"
proof -
  obtain res br' where p: "peek lr br = (res, br')" by force
  have s: "stream br' = stream br" using peek_keeps [of lr br] p by simp
  from assms p obtain r where r: "res = Inr r" "ev \<in> set (serve_request lr w r br')"
    by (cases res) (auto simp: handle_def split: if_splits)
  from serve_request_events [OF r(2) assms(2), unfolded s] show ?thesis using p r(1) by auto
qed

theorem proxy_touches_only_permitted_witness:
  "Splice demo_hello \<in> set (handle (\<lambda>x. x) demo_world demo_conn) \<and>
   (\<exists>m. w_match demo_world = Some m \<and> allows (\<lambda>x. x) m ''example.com'')"
proof -
  have m: "Splice demo_hello \<in> set (handle (\<lambda>x. x) demo_world demo_conn)"
    "result_holds (\<lambda>r. r_host r = ''example.com'') (fst (peek (\<lambda>x. x) demo_conn))" by code_simp+
  from proxy_touches_only_permitted [OF m(1)] m show ?thesis by (auto simp: result_holds_iff)
qed

text \<open>C38: What a TLS connection asks for is a function of its bytes alone. However the network cuts
  the stream into reads, and whatever the reader had already buffered, the proxy extracts the same
  request or refuses for the same reason.\<close>

theorem tls_name_chunking:
  assumes "reader_ok br" and "stream br \<noteq> []" and "hd (stream br) = CHR 0x16"
  shows "fst (peek lr br) = tls_request lr (stream br)"
  using assms by (rule peek_tls)

theorem tls_name_chunking_witness:
  "fst (peek (\<lambda>x. x) demo_conn) = tls_request (\<lambda>x. x) demo_hello"
proof -
  have "reader_ok demo_conn" by (simp add: reader_ok_def demo_conn_def)
  moreover have "stream demo_conn = demo_hello" by (simp add: stream_def demo_conn_def)
  moreover have "demo_hello \<noteq> [] \<and> hd demo_hello = CHR 0x16" by code_simp
  ultimately show ?thesis using tls_name_chunking [of demo_conn "\<lambda>x. x"] by simp
qed

text \<open>C22: Open egress is the public internet and nothing nearer. Where the forwarder dials, the
  destination is an IPv4 address outside every reserved range and none of the host's own, the peer
  is a sandbox with open egress, and if the sandbox has a deny list and the connection, on port
  80 or 443, names a host, that host is not denied.\<close>

theorem open_reaches_public_only:
  assumes "Dial ip port \<in> set (handle_open lr w br)"
  shows "\<exists>m v4 local. fw_For w = Some m \<and> fw_Dest w = Some (ip, port) \<and> 0 < port \<and> To4 ip = Some v4 \<and>
    (\<forall>n\<in>set notPublic. \<not> in_net n (addr4 v4)) \<and> Addr ip \<and>
    fw_local w = Some local \<and> (\<forall>l\<in>set local. To4 l \<noteq> Some v4) \<and>
    (\<forall>r. m_deny m \<noteq> None \<and> (port = 80 \<or> port = 443) \<and> fst (peek lr br) = Inr r \<longrightarrow> allows lr m (r_host r))"
proof -
  from assms obtain m where m: "fw_For w = Some m" by (cases "fw_For w") (auto simp: handle_open_def)
  with assms obtain ip' port' where d: "fw_Dest w = Some (ip', port')"
    by (cases "fw_Dest w") (auto simp: handle_open_def)
  obtain res br' where pk: "peek lr br = (res, br')" by force
  have u: "\<not> (ip' = [] \<or> port' \<le> 0)" "unreachable_now w ip' = []"
    using assms m d by (auto simp: handle_open_def split: if_splits)
  have eq: "ip' = ip" "port' = port"
    using assms m d u pk by (cases res; auto simp: handle_open_def split: if_splits dest: forward_Dial)+
  have deny: "allows lr m (r_host r)" if "m_deny m \<noteq> None \<and> (port = 80 \<or> port = 443) \<and> fst (peek lr br) = Inr r" for r
    using assms m d u that pk by (auto simp: handle_open_def eq split: if_splits)
  from u(2) obtain local v4 where l: "fw_local w = Some local" "To4 ip = Some v4"
      "\<not> list_ex (\<lambda>n. in_net n (addr4 v4)) notPublic" "\<not> list_ex (\<lambda>l. To4 l = Some v4) local"
    by (auto simp: unreachable_now_def Unreachable_def eq split: option.splits if_splits)
  then show ?thesis
    using m d u deny eq public4 [OF l(3)] by (auto simp: list_ex_iff Addr_def)
qed

theorem open_reaches_public_only_witness:
  "Addr [CHR 0x08, CHR 0x08, CHR 0x08, CHR 0x08] \<and>
   Dial [CHR 0x08, CHR 0x08, CHR 0x08, CHR 0x08] 443 \<in>
     set (handle_open (\<lambda>x. x) \<lparr>fw_For = Some (NewDenyMatcher (\<lambda>x. x) [''gist.github.com'']),
       fw_Dest = Some ([CHR 0x08, CHR 0x08, CHR 0x08, CHR 0x08], 443), fw_local = Some [[CHR 0x0A, CHR 0x00, CHR 0x00, CHR 0x02]],
       fw_text = (\<lambda>b. b), fw_dial = (\<lambda>_ _. None)\<rparr> demo_conn)"
proof -
  have d: "Dial [CHR 0x08, CHR 0x08, CHR 0x08, CHR 0x08] 443 \<in>
     set (handle_open (\<lambda>x. x) \<lparr>fw_For = Some (NewDenyMatcher (\<lambda>x. x) [''gist.github.com'']),
       fw_Dest = Some ([CHR 0x08, CHR 0x08, CHR 0x08, CHR 0x08], 443), fw_local = Some [[CHR 0x0A, CHR 0x00, CHR 0x00, CHR 0x02]],
       fw_text = (\<lambda>b. b), fw_dial = (\<lambda>_ _. None)\<rparr> demo_conn)" by code_simp
  from open_reaches_public_only [OF d] d show ?thesis by blast
qed

end
