(* ===== verification/Go_Regexp.thy ===== *)
theory Go_Regexp
  imports Go_Strings
begin

text \<open>
  Regular expressions of the form the program uses: anchored at both ends, over ASCII character
  classes, with groups, \<open>?\<close>, \<open>*\<close>, \<open>+\<close> and bounded repetition. \<open>rx_match\<close> is an
  executable matcher by derivatives; \<open>rx_lang\<close> is what an expression means, and the two agree
  (\<open>rx_match_lang\<close>). Go's matcher works on code points; the classes hold ASCII characters only,
  so matching bytes is the same.
\<close>

datatype rx =
    Zero
  | Eps
  | Cls "(char \<times> char) list"
  | Seq rx rx
  | Alt rx rx
  | Star rx
  | Upto nat rx

definition in_cls :: "char \<Rightarrow> (char \<times> char) list \<Rightarrow> bool" where
  "in_cls c rs \<longleftrightarrow> list_ex (\<lambda>(lo, hi). nat_of_byte lo \<le> nat_of_byte c \<and> nat_of_byte c \<le> nat_of_byte hi) rs"

definition Opt :: "rx \<Rightarrow> rx" where
  "Opt r = Alt Eps r"

definition Plus :: "rx \<Rightarrow> rx" where
  "Plus r = Seq r (Star r)"

fun Lit :: "string \<Rightarrow> rx" where
  "Lit [] = Eps"
| "Lit (c # cs) = Seq (Cls [(c, c)]) (Lit cs)"

text \<open>Exactly \<open>n\<close> repetitions, \<open>r{n}\<close>.\<close>

fun Times :: "nat \<Rightarrow> rx \<Rightarrow> rx" where
  "Times 0 r = Eps"
| "Times (Suc n) r = Seq r (Times n r)"

subsection \<open>Meaning\<close>

primrec rx_lang :: "rx \<Rightarrow> string set" where
  "rx_lang Zero = {}"
| "rx_lang Eps = {[]}"
| "rx_lang (Cls rs) = {[c] | c. in_cls c rs}"
| "rx_lang (Seq r s) = {x @ y | x y. x \<in> rx_lang r \<and> y \<in> rx_lang s}"
| "rx_lang (Alt r s) = rx_lang r \<union> rx_lang s"
| "rx_lang (Star r) = {concat ws | ws. set ws \<subseteq> rx_lang r}"
| "rx_lang (Upto n r) = {concat ws | ws. set ws \<subseteq> rx_lang r \<and> length ws \<le> n}"

subsection \<open>Matching by derivatives\<close>

fun nullable :: "rx \<Rightarrow> bool" where
  "nullable Zero = False"
| "nullable Eps = True"
| "nullable (Cls rs) = False"
| "nullable (Seq r s) = (nullable r \<and> nullable s)"
| "nullable (Alt r s) = (nullable r \<or> nullable s)"
| "nullable (Star r) = True"
| "nullable (Upto n r) = True"

fun mk_seq :: "rx \<Rightarrow> rx \<Rightarrow> rx" where
  "mk_seq Zero s = Zero"
| "mk_seq Eps s = s"
| "mk_seq r s = Seq r s"

fun mk_alt :: "rx \<Rightarrow> rx \<Rightarrow> rx" where
  "mk_alt Zero s = s"
| "mk_alt r Zero = r"
| "mk_alt r s = Alt r s"

fun deriv :: "char \<Rightarrow> rx \<Rightarrow> rx" where
  "deriv c Zero = Zero"
| "deriv c Eps = Zero"
| "deriv c (Cls rs) = (if in_cls c rs then Eps else Zero)"
| "deriv c (Seq r s) =
    (if nullable r then mk_alt (mk_seq (deriv c r) s) (deriv c s) else mk_seq (deriv c r) s)"
| "deriv c (Alt r s) = mk_alt (deriv c r) (deriv c s)"
| "deriv c (Star r) = mk_seq (deriv c r) (Star r)"
| "deriv c (Upto n r) = (if n = 0 then Zero else mk_seq (deriv c r) (Upto (n - 1) r))"

fun rx_match :: "rx \<Rightarrow> string \<Rightarrow> bool" where
  "rx_match r [] = nullable r"
| "rx_match r (c # cs) = rx_match (deriv c r) cs"

subsection \<open>The matcher decides the language\<close>

lemma lang_mk_seq [simp]: "rx_lang (mk_seq r s) = rx_lang (Seq r s)"
  by (cases r) auto

lemma lang_mk_alt [simp]: "rx_lang (mk_alt r s) = rx_lang (Alt r s)"
  by (cases "(r, s)" rule: mk_alt.cases) auto

lemma nullable_lang: "nullable r \<longleftrightarrow> [] \<in> rx_lang r"
  by (induction r) (auto intro: exI [of _ "[]"])

text \<open>A non-empty concatenation of words splits at its first non-empty word.\<close>

lemma concat_Cons_split:
  "concat ws = c # cs \<Longrightarrow> \<exists>us x vs. ws = us @ (c # x) # vs \<and> cs = x @ concat vs"
proof (induction ws)
  case (Cons w ws)
  show ?case
  proof (cases w)
    case Nil
    with Cons obtain us x vs where "ws = us @ (c # x) # vs" "cs = x @ concat vs" by auto
    with Nil show ?thesis by (intro exI [of _ "w # us"]) auto
  next
    case (Cons a as)
    with Cons.prems show ?thesis
      by (intro exI [of _ "[]"] exI [of _ as] exI [of _ ws]) auto
  qed
qed simp

text \<open>The words after a first character, for each repeating form.\<close>

lemma Seq_Cons: "c # cs \<in> rx_lang (Seq r s) \<longleftrightarrow>
    (\<exists>x y. cs = x @ y \<and> c # x \<in> rx_lang r \<and> y \<in> rx_lang s) \<or> ([] \<in> rx_lang r \<and> c # cs \<in> rx_lang s)"
proof
  assume "c # cs \<in> rx_lang (Seq r s)"
  then obtain x y where xy: "c # cs = x @ y" "x \<in> rx_lang r" "y \<in> rx_lang s"
    by (simp only: rx_lang.simps mem_Collect_eq) blast
  then show "(\<exists>x y. cs = x @ y \<and> c # x \<in> rx_lang r \<and> y \<in> rx_lang s) \<or> ([] \<in> rx_lang r \<and> c # cs \<in> rx_lang s)"
    by (cases x) auto
next
  assume "(\<exists>x y. cs = x @ y \<and> c # x \<in> rx_lang r \<and> y \<in> rx_lang s) \<or> ([] \<in> rx_lang r \<and> c # cs \<in> rx_lang s)"
  then have "\<exists>x y. c # cs = x @ y \<and> x \<in> rx_lang r \<and> y \<in> rx_lang s"
    by (metis append_Cons append_Nil)
  then show "c # cs \<in> rx_lang (Seq r s)" by (simp only: rx_lang.simps mem_Collect_eq)
qed

lemma Star_Cons: "c # cs \<in> rx_lang (Star r) \<longleftrightarrow>
    (\<exists>x y. cs = x @ y \<and> c # x \<in> rx_lang r \<and> y \<in> rx_lang (Star r))"
proof
  assume "c # cs \<in> rx_lang (Star r)"
  then obtain ws where ws: "c # cs = concat ws" "set ws \<subseteq> rx_lang r"
    by (simp only: rx_lang.simps mem_Collect_eq) blast
  with concat_Cons_split [OF ws(1) [symmetric]] obtain us x vs
    where "ws = us @ (c # x) # vs" "cs = x @ concat vs" by blast
  with ws(2) have "cs = x @ concat vs" "c # x \<in> rx_lang r" "concat vs \<in> rx_lang (Star r)" by auto
  then show "\<exists>x y. cs = x @ y \<and> c # x \<in> rx_lang r \<and> y \<in> rx_lang (Star r)" by blast
next
  assume "\<exists>x y. cs = x @ y \<and> c # x \<in> rx_lang r \<and> y \<in> rx_lang (Star r)"
  then obtain x ws where "cs = x @ concat ws" "c # x \<in> rx_lang r" "set ws \<subseteq> rx_lang r" by auto
  then have "c # cs = concat ((c # x) # ws) \<and> set ((c # x) # ws) \<subseteq> rx_lang r" by simp
  then show "c # cs \<in> rx_lang (Star r)" by (simp only: rx_lang.simps mem_Collect_eq) blast
qed

lemma Upto_Cons: "c # cs \<in> rx_lang (Upto n r) \<longleftrightarrow>
    0 < n \<and> (\<exists>x y. cs = x @ y \<and> c # x \<in> rx_lang r \<and> y \<in> rx_lang (Upto (n - 1) r))"
proof
  assume "c # cs \<in> rx_lang (Upto n r)"
  then obtain ws where ws: "c # cs = concat ws" "set ws \<subseteq> rx_lang r" "length ws \<le> n"
    by (simp only: rx_lang.simps mem_Collect_eq) blast
  with concat_Cons_split [OF ws(1) [symmetric]] obtain us x vs
    where "ws = us @ (c # x) # vs" "cs = x @ concat vs" by blast
  with ws(2,3) have "0 < n" "cs = x @ concat vs" "c # x \<in> rx_lang r"
    "concat vs \<in> rx_lang (Upto (n - 1) r)" by auto
  then show "0 < n \<and> (\<exists>x y. cs = x @ y \<and> c # x \<in> rx_lang r \<and> y \<in> rx_lang (Upto (n - 1) r))" by blast
next
  assume "0 < n \<and> (\<exists>x y. cs = x @ y \<and> c # x \<in> rx_lang r \<and> y \<in> rx_lang (Upto (n - 1) r))"
  then obtain x ws where "0 < n" "cs = x @ concat ws" "c # x \<in> rx_lang r" "set ws \<subseteq> rx_lang r"
    "length ws \<le> n - 1" by auto
  then have "c # cs = concat ((c # x) # ws) \<and> set ((c # x) # ws) \<subseteq> rx_lang r \<and> length ((c # x) # ws) \<le> n"
    by auto
  then show "c # cs \<in> rx_lang (Upto n r)" by (simp only: rx_lang.simps mem_Collect_eq) blast
qed

lemma lang_deriv: "cs \<in> rx_lang (deriv c r) \<longleftrightarrow> c # cs \<in> rx_lang r"
proof (induction r arbitrary: cs)
  case (Seq r s)
  have "cs \<in> rx_lang (deriv c (Seq r s)) \<longleftrightarrow>
    (\<exists>x y. cs = x @ y \<and> c # x \<in> rx_lang r \<and> y \<in> rx_lang s) \<or> ([] \<in> rx_lang r \<and> c # cs \<in> rx_lang s)"
    using Seq by (auto simp: nullable_lang)
  then show ?case by (simp only: Seq_Cons)
next
  case (Star r)
  have "cs \<in> rx_lang (deriv c (Star r)) \<longleftrightarrow>
    (\<exists>x y. cs = x @ y \<and> c # x \<in> rx_lang r \<and> y \<in> rx_lang (Star r))"
    using Star by (simp del: rx_lang.simps(6))
  then show ?case by (simp only: Star_Cons)
next
  case (Upto n r)
  have "cs \<in> rx_lang (deriv c (Upto n r)) \<longleftrightarrow>
    0 < n \<and> (\<exists>x y. cs = x @ y \<and> c # x \<in> rx_lang r \<and> y \<in> rx_lang (Upto (n - 1) r))"
    using Upto by (simp del: rx_lang.simps(7))
  then show ?case by (simp only: Upto_Cons)
qed simp_all

theorem rx_match_lang: "rx_match r s \<longleftrightarrow> s \<in> rx_lang r"
  by (induction s arbitrary: r) (simp_all add: nullable_lang lang_deriv)

subsection \<open>Rules for the shapes that occur\<close>

lemma lang_Opt [simp]: "rx_lang (Opt r) = insert [] (rx_lang r)"
  by (auto simp: Opt_def)

lemma in_cls_single: "in_cls c [(d, d)] \<longleftrightarrow> c = d"
  by (auto simp: in_cls_def)

lemma lang_Lit [simp]: "rx_lang (Lit s) = {s}"
  by (induction s) (simp_all add: in_cls_single)

text \<open>Every character of a matched string is in one of the expression's classes.\<close>

primrec rx_chars :: "rx \<Rightarrow> (char \<times> char) list" where
  "rx_chars Zero = []"
| "rx_chars Eps = []"
| "rx_chars (Cls rs) = rs"
| "rx_chars (Seq r s) = rx_chars r @ rx_chars s"
| "rx_chars (Alt r s) = rx_chars r @ rx_chars s"
| "rx_chars (Star r) = rx_chars r"
| "rx_chars (Upto n r) = rx_chars r"

lemma in_cls_append [simp]: "in_cls c (rs @ qs) \<longleftrightarrow> in_cls c rs \<or> in_cls c qs"
  by (auto simp: in_cls_def)

lemma rx_lang_chars: "s \<in> rx_lang r \<Longrightarrow> c \<in> set s \<Longrightarrow> in_cls c (rx_chars r)"
proof (induction r arbitrary: s)
  case (Seq r1 r2)
  then show ?case by (fastforce simp: in_cls_append)
next
  case (Star r)
  then show ?case by fastforce
next
  case (Upto n r)
  then show ?case by fastforce
qed auto

lemma rx_match_chars: "rx_match r s \<Longrightarrow> c \<in> set s \<Longrightarrow> in_cls c (rx_chars r)"
  by (auto simp: rx_match_lang intro: rx_lang_chars)

text \<open>A class repeated up to \<open>n\<close> times.\<close>

lemma lang_Upto_Cls: "rx_lang (Upto n (Cls rs)) = {s. length s \<le> n \<and> (\<forall>c\<in>set s. in_cls c rs)}"
proof (intro set_eqI iffI)
  fix s assume "s \<in> rx_lang (Upto n (Cls rs))"
  then obtain ws where ws: "s = concat ws" "set ws \<subseteq> {[c] | c. in_cls c rs}" "length ws \<le> n" by auto
  from ws(2) have "length (concat ws) = length ws" by (induction ws) auto
  with ws show "s \<in> {s. length s \<le> n \<and> (\<forall>c\<in>set s. in_cls c rs)}" by auto
next
  fix s assume "s \<in> {s. length s \<le> n \<and> (\<forall>c\<in>set s. in_cls c rs)}"
  moreover have "s = concat (map (\<lambda>c. [c]) s)" by (induction s) auto
  ultimately show "s \<in> rx_lang (Upto n (Cls rs))"
    by (auto intro!: exI [of _ "map (\<lambda>c. [c]) s"])
qed

end
