(* ===== verification/Api_Types.thy ===== *)
theory Api_Types
  imports Go_Regexp Policy_Config
begin

text \<open>
  \<open>internal/api/types.go\<close>: the wire types of the Sandbox API that the resolver and the
  server decide on, and \<open>backend.Spec\<close> of \<open>internal/backend/backend.go\<close>, the resolved sandbox.
  Field names carry a prefix per record. A slice or map whose nil value the code tells apart from
  an empty one is an option; a Go map is the list of its entries in the order a \<open>range\<close> visits
  them.
\<close>

subsection \<open>Floating point\<close>

text \<open>
  A \<open>float64\<close> as far as comparisons go: a rational number, an infinity or not-a-number, with the
  IEEE comparison in which every comparison with NaN is false. The two zeros are one value.
\<close>

datatype f64 = NaN | NegInf | Fin rat | PosInf

fun f_lt :: "f64 \<Rightarrow> f64 \<Rightarrow> bool" where
  "f_lt NaN _ = False"
| "f_lt _ NaN = False"
| "f_lt (Fin x) (Fin y) = (x < y)"
| "f_lt NegInf y = (y \<noteq> NegInf)"
| "f_lt PosInf _ = False"
| "f_lt (Fin _) NegInf = False"
| "f_lt (Fin _) PosInf = True"

definition f_le :: "f64 \<Rightarrow> f64 \<Rightarrow> bool" where
  "f_le x y \<longleftrightarrow> f_lt x y \<or> (x = y \<and> x \<noteq> NaN)"

lemma f_lt_trichotomy: "x \<noteq> NaN \<Longrightarrow> y \<noteq> NaN \<Longrightarrow> f_lt x y \<or> x = y \<or> f_lt y x"
  by (cases x; cases y) auto

lemma not_f_lt: "x \<noteq> NaN \<Longrightarrow> y \<noteq> NaN \<Longrightarrow> \<not> f_lt x y \<longleftrightarrow> f_le y x"
  using f_lt_trichotomy [of x y] by (cases x; cases y) (auto simp: f_le_def)

lemma f_le_finite: "f_le x (Fin m) \<Longrightarrow> f_lt (Fin 0) x \<Longrightarrow> \<exists>q. x = Fin q \<and> 0 < q \<and> q \<le> m"
  by (cases x) (auto simp: f_le_def)

subsection \<open>Floating point sums\<close>

fun f_neg :: "f64 \<Rightarrow> f64" where
  "f_neg NaN = NaN"
| "f_neg NegInf = PosInf"
| "f_neg PosInf = NegInf"
| "f_neg (Fin x) = Fin (- x)"

fun f_add :: "(rat \<Rightarrow> f64) \<Rightarrow> f64 \<Rightarrow> f64 \<Rightarrow> f64" where
  "f_add rnd (Fin x) (Fin y) = rnd (x + y)"
| "f_add rnd NaN _ = NaN"
| "f_add rnd _ NaN = NaN"
| "f_add rnd PosInf NegInf = NaN"
| "f_add rnd NegInf PosInf = NaN"
| "f_add rnd PosInf _ = PosInf"
| "f_add rnd _ PosInf = PosInf"
| "f_add rnd NegInf _ = NegInf"
| "f_add rnd _ NegInf = NegInf"

text \<open>A product with an infinity has its sign, and is not a number when the other factor is zero.\<close>

fun f_sgn :: "f64 \<Rightarrow> rat" where
  "f_sgn NaN = 0"
| "f_sgn NegInf = -1"
| "f_sgn PosInf = 1"
| "f_sgn (Fin x) = sgn x"

definition f_mul :: "(rat \<Rightarrow> f64) \<Rightarrow> f64 \<Rightarrow> f64 \<Rightarrow> f64" where
  "f_mul rnd a b = (case (a, b) of (Fin x, Fin y) \<Rightarrow> rnd (x * y)
    | _ \<Rightarrow> (let s = f_sgn a * f_sgn b in if s = 0 then NaN else if s > 0 then PosInf else NegInf))"

text \<open>\<open>math.Max(0, x)\<close>.\<close>

fun f_max0 :: "f64 \<Rightarrow> f64" where
  "f_max0 NaN = NaN"
| "f_max0 NegInf = Fin 0"
| "f_max0 PosInf = PosInf"
| "f_max0 (Fin x) = Fin (max 0 x)"

subsection \<open>Network modes\<close>

definition NetworkRank :: "bytes \<Rightarrow> int" where
  "NetworkRank mode = (if mode = ''none'' then 0 else if mode = ''allowlist'' then 1
     else if mode = ''open'' then 2 else -1)"

lemma NetworkRank_cases:
  "0 \<le> NetworkRank m \<longleftrightarrow> m = ''none'' \<or> m = ''allowlist'' \<or> m = ''open''"
  by (simp add: NetworkRank_def)

record NetworkPolicy =
  np_Mode :: bytes
  np_Allow :: "bytes list option"
  np_Deny :: "bytes list option"
  np_Groups :: "bytes list option"

definition zero_network :: NetworkPolicy where
  "zero_network = \<lparr>np_Mode = [], np_Allow = None, np_Deny = None, np_Groups = None\<rparr>"

subsection \<open>Limits, requests and the resolved sandbox\<close>

record Limits =
  l_MaxCPUs :: f64
  l_MaxMemoryMB :: int
  l_MaxDiskMB :: int
  l_MaxIdleTimeoutSecs :: int
  l_MaxLifetimeSecs :: int
  l_MinSnapshotEverySecs :: int
  l_MaxSnapshotKeep :: int
  l_MinMetricsExportSecs :: int
  l_MaxGPUs :: int

record SnapshotSchedule =
  sc_EverySecs :: int
  sc_Keep :: int

record NetworkCeiling =
  nc_Default :: NetworkPolicy
  nc_Ceiling :: bytes
  nc_MayAllow :: "bytes list"

record VolumeMount =
  vm_Name :: bytes
  vm_Path :: bytes
  vm_ReadOnly :: bool

record ApiMetricsExport =
  me_Endpoint :: bytes
  me_IntervalSecs :: int
  me_Headers :: "(bytes \<times> bytes) list"
  me_HeaderSecrets :: "(bytes \<times> bytes) list"

record RegistryLogin =
  rl_Registry :: bytes
  rl_Username :: bytes
  rl_Password :: bytes

record CreateSandboxRequest =
  rq_Name :: bytes
  rq_Image :: bytes
  rq_CPUs :: f64
  rq_MemoryMB :: int
  rq_DiskMB :: int
  rq_Env :: "(bytes \<times> bytes) list"
  rq_Network :: "NetworkPolicy option"
  rq_IdleTimeoutSecs :: int
  rq_IdleAction :: bytes
  rq_LifetimeSecs :: int
  rq_SnapshotID :: bytes
  rq_SnapshotEverySecs :: int
  rq_SnapshotKeep :: int
  rq_Labels :: "(bytes \<times> bytes) list"
  rq_Volumes :: "VolumeMount list"
  rq_RegistryLogin :: "RegistryLogin option"
  rq_MetricsExport :: "ApiMetricsExport option"
  rq_GPUs :: int

record ResizeSandboxRequest =
  rz_CPUs :: f64
  rz_MemoryMB :: int
  rz_DiskMB :: int

record NodeResources =
  nr_CPUs :: f64
  nr_MemoryMB :: int
  nr_DiskMB :: int
  nr_GPUs :: int

record NodeStatus =
  st_caps :: "bytes \<Rightarrow> bool"
  st_Limits :: Limits
  st_Ceiling :: bytes
  st_Capacity :: NodeResources
  st_Free :: NodeResources
  st_Pooled :: "bytes \<Rightarrow> int"
  st_Images :: "bytes list"
  st_Cordoned :: bool
  st_Node :: bytes
  st_Running :: int

text \<open>\<open>backend.Spec\<close>: every default applied, every limit checked, every policy decision made.\<close>

record Spec =
  sp_ID :: bytes
  sp_Image :: bytes
  sp_CPUs :: f64
  sp_MemoryMB :: int
  sp_DiskMB :: int
  sp_Env :: "(bytes \<times> bytes) list"
  sp_Network :: NetworkPolicy
  sp_IdleTimeoutSecs :: int
  sp_IdleAction :: bytes
  sp_LifetimeSecs :: int
  sp_SnapshotEverySecs :: int
  sp_SnapshotKeep :: int
  sp_FromSnapshot :: bytes
  sp_Volumes :: "VolumeMount list"
  sp_GPUs :: "bytes list"

definition zero_request :: CreateSandboxRequest where
  "zero_request = \<lparr>rq_Name = [], rq_Image = [], rq_CPUs = Fin 0, rq_MemoryMB = 0, rq_DiskMB = 0,
     rq_Env = [], rq_Network = None, rq_IdleTimeoutSecs = 0, rq_IdleAction = [], rq_LifetimeSecs = 0,
     rq_SnapshotID = [], rq_SnapshotEverySecs = 0, rq_SnapshotKeep = 0, rq_Labels = [], rq_Volumes = [],
     rq_RegistryLogin = None, rq_MetricsExport = None, rq_GPUs = 0\<rparr>"

subsection \<open>Capabilities\<close>

text \<open>A capability map: a name that is absent reads false.\<close>

type_synonym caps = "bytes \<Rightarrow> bool"

subsection \<open>Node names in sandbox ids\<close>

abbreviation lower_digit :: "(char \<times> char) list" where
  "lower_digit \<equiv> [(CHR ''a'', CHR ''z''), (CHR ''0'', CHR ''9'')]"

abbreviation lower_digit_dash :: "(char \<times> char) list" where
  "lower_digit_dash \<equiv> [(CHR ''a'', CHR ''z''), (CHR ''0'', CHR ''9''), (CHR ''-'', CHR ''-'')]"

definition nodeIDRE :: rx where
  "nodeIDRE = Seq (Cls lower_digit) (Upto 30 (Cls lower_digit_dash))"

definition ValidNodeID :: "bytes \<Rightarrow> bool" where
  "ValidNodeID s = rx_match nodeIDRE s"

text \<open>\<open>None\<close> is the \<open>("", false)\<close> answer: an id that names no node.\<close>

definition NodeOfID :: "bytes \<Rightarrow> bytes option" where
  "NodeOfID sid =
    (case CutPrefix sid ''sbx_'' of
       None \<Rightarrow> None
     | Some rest \<Rightarrow>
        (case Cut rest ''_'' of
           None \<Rightarrow> None
         | Some (node, hex) \<Rightarrow>
            if \<not> ValidNodeID node \<or> length hex \<noteq> 16 then None else Some node))"

lemma ValidNodeID_no_underscore: "ValidNodeID s \<Longrightarrow> CHR ''_'' \<notin> set s"
  using rx_match_chars [of nodeIDRE s "CHR ''_''"] by (auto simp: ValidNodeID_def nodeIDRE_def in_cls_def)

end
