(* ===== verification/Guest_Proto.thy ===== *)
theory Guest_Proto
  imports Api_Types
begin

text \<open>
  The protocol between the host and the guest agent (\<open>internal/guestproto/proto.go\<close>) and the host's
  side of it (\<open>client.go\<close>): frames, the request and answer lines, one function per client call, and
  the pump that turns the guest's frames into output, an exit code and a count of dropped bytes.

  A connection is a writer that may break after some number of bytes and the list of bytes that can
  still be read from it. \<open>encoding/json\<close> is the argument \<open>codec\<close>: how a request and an answer are
  written and read as one line. Reads from a stream that ends early fail, as \<open>io.ReadFull\<close> does.
\<close>

subsection \<open>Limits, operations, frame types and error codes\<close>

definition Version :: bytes where
  "Version = ''5''"

definition MaxLine :: nat where
  "MaxLine = 1048576"

definition MaxFrame :: nat where
  "MaxFrame = 1048576"

definition MaxFileBytes :: nat where
  "MaxFileBytes = 67108864"

definition OpPing :: bytes where
  "OpPing = ''ping''"

definition OpExec :: bytes where
  "OpExec = ''exec''"

definition OpRead :: bytes where
  "OpRead = ''read''"

definition OpWrite :: bytes where
  "OpWrite = ''write''"

definition OpRemove :: bytes where
  "OpRemove = ''remove''"

definition OpList :: bytes where
  "OpList = ''list''"

definition OpDial :: bytes where
  "OpDial = ''dial''"

definition OpSync :: bytes where
  "OpSync = ''sync''"

definition OpAttach :: bytes where
  "OpAttach = ''attach''"

definition OpSessions :: bytes where
  "OpSessions = ''sessions''"

definition OpGrowScratch :: bytes where
  "OpGrowScratch = ''grow_scratch''"

definition OpSetClock :: bytes where
  "OpSetClock = ''set_clock''"

definition OpStats :: bytes where
  "OpStats = ''stats''"

lemmas op_defs = OpPing_def OpExec_def OpRead_def OpWrite_def OpRemove_def OpList_def OpDial_def
  OpSync_def OpAttach_def OpSessions_def OpGrowScratch_def OpSetClock_def OpStats_def

definition FrameStdin :: byte where
  "FrameStdin = CHR ''i''"

definition FrameStdinEOF :: byte where
  "FrameStdinEOF = CHR ''e''"

definition FrameSignal :: byte where
  "FrameSignal = CHR ''s''"

definition FrameResize :: byte where
  "FrameResize = CHR ''r''"

definition FrameStdout :: byte where
  "FrameStdout = CHR ''o''"

definition FrameStderr :: byte where
  "FrameStderr = CHR ''E''"

definition FrameExit :: byte where
  "FrameExit = CHR ''x''"

definition FrameDropped :: byte where
  "FrameDropped = CHR ''d''"

lemmas frame_type_defs = FrameStdin_def FrameStdinEOF_def FrameSignal_def FrameResize_def
  FrameStdout_def FrameStderr_def FrameExit_def FrameDropped_def

text \<open>The guest's error codes; on the wire each is the constant's string.\<close>

datatype gcode = CodeNotFound | CodeIsDir | CodeNotDir | CodeNotEmpty | CodeReadOnly
  | CodeNoSuchCommand | CodeNoSuchCwd | CodeBadRequest | CodeTooLarge | CodeInternal

record gerror =
  ge_code :: gcode
  ge_message :: bytes

definition gerr :: "gcode \<Rightarrow> bytes \<Rightarrow> gerror" where
  "gerr c m = \<lparr>ge_code = c, ge_message = m\<rparr>"

subsection \<open>The request and answer lines\<close>

record request =
  req_Op :: bytes
  req_Argv :: "bytes list"
  req_Env :: "(bytes \<times> bytes) list"
  req_Cwd :: bytes
  req_Path :: bytes
  req_Size :: int
  req_Port :: int
  req_Tty :: bool
  req_Rows :: nat
  req_Cols :: nat
  req_Final :: bool
  req_Keep :: bool
  req_Session :: bytes
  req_Offset :: int
  req_Time :: int

definition request0 :: "bytes \<Rightarrow> request" where
  "request0 op = \<lparr>req_Op = op, req_Argv = [], req_Env = [], req_Cwd = [], req_Path = [], req_Size = 0,
     req_Port = 0, req_Tty = False, req_Rows = 0, req_Cols = 0, req_Final = False, req_Keep = False,
     req_Session = [], req_Offset = 0, req_Time = 0\<rparr>"

record session_info =
  si_ID :: bytes
  si_Running :: bool
  si_ExitCode :: "int option"

record gpu_stats =
  gp_Index :: int
  gp_UtilizationPercent :: "f64 option"
  gp_MemoryUsedBytes :: "int option"
  gp_MemoryTotalBytes :: "int option"
  gp_TemperatureC :: "f64 option"
  gp_PowerWatts :: "f64 option"

record guest_stats =
  gs_MemTotalBytes :: int
  gs_MemAvailableBytes :: int
  gs_GPUs :: "gpu_stats list"

datatype entry_type = EFile | EDir | ESymlink | EOther

record dir_entry =
  de_Name :: bytes
  de_Type :: entry_type
  de_Size :: int

record response =
  rs_OK :: bool
  rs_Error :: "gerror option"
  rs_Version :: bytes
  rs_Size :: int
  rs_Entries :: "dir_entry list"
  rs_Sessions :: "session_info list"
  rs_Stats :: "guest_stats option"

definition ok_response :: response where
  "ok_response = \<lparr>rs_OK = True, rs_Error = None, rs_Version = [], rs_Size = 0, rs_Entries = [],
     rs_Sessions = [], rs_Stats = None\<rparr>"

definition fail_response :: "gcode \<Rightarrow> bytes \<Rightarrow> response" where
  "fail_response c m = ok_response\<lparr>rs_OK := False, rs_Error := Some (gerr c m)\<rparr>"

text \<open>\<open>SessionIDOK\<close>: the range loop is over runes, and only ASCII runes pass.\<close>

definition session_rune :: "nat \<Rightarrow> bool" where
  "session_rune r \<longleftrightarrow> (97 \<le> r \<and> r \<le> 122) \<or> (65 \<le> r \<and> r \<le> 90) \<or> (48 \<le> r \<and> r \<le> 57) \<or> r = 45 \<or> r = 95"

definition SessionIDOK :: "bytes \<Rightarrow> bool" where
  "SessionIDOK s \<longleftrightarrow> \<not> (length s = 0 \<or> length s > 64) \<and> list_all session_rune (runes s)"

subsection \<open>Connections\<close>

text \<open>A writer that takes \<open>wr_room\<close> more bytes before it breaks, or any number.\<close>

record writer =
  wr_sent :: bytes
  wr_room :: "nat option"

definition Write :: "writer \<Rightarrow> bytes \<Rightarrow> writer \<times> bool" where
  "Write w p = (case wr_room w of
      None \<Rightarrow> (w\<lparr>wr_sent := wr_sent w @ p\<rparr>, True)
    | Some n \<Rightarrow> (w\<lparr>wr_sent := wr_sent w @ take n p, wr_room := Some (n - length p)\<rparr>, length p \<le> n))"

definition new_writer :: "nat option \<Rightarrow> writer" where
  "new_writer room = \<lparr>wr_sent = [], wr_room = room\<rparr>"

datatype frame_error = FrameTooLarge nat | ShortRead | WriteFailed

definition frame_header :: "byte \<Rightarrow> nat \<Rightarrow> bytes" where
  "frame_header t n = t # put32 n"

definition WriteFrame :: "writer \<Rightarrow> byte \<Rightarrow> bytes \<Rightarrow> writer \<times> frame_error option" where
  "WriteFrame w t payload =
    (if length payload > MaxFrame then (w, Some (FrameTooLarge (length payload)))
     else case Write w (frame_header t (length payload)) of
        (w1, False) \<Rightarrow> (w1, Some WriteFailed)
      | (w1, True) \<Rightarrow> (case Write w1 payload of
            (w2, ok) \<Rightarrow> (w2, if ok then None else Some WriteFailed)))"

text \<open>\<open>io.ReadFull\<close> into a buffer of \<open>n\<close> bytes.\<close>

definition ReadFull :: "nat \<Rightarrow> bytes \<Rightarrow> (frame_error, bytes \<times> bytes) result" where
  "ReadFull n s = (if length s < n then Inl ShortRead else Inr (take n s, drop n s))"

definition ReadFrame :: "bytes \<Rightarrow> (frame_error, (byte \<times> bytes) \<times> bytes) result" where
  "ReadFrame s = and_then (ReadFull 5 s) (\<lambda>(hdr, s1).
     let n = be32 (hdr ! 1) (hdr ! 2) (hdr ! 3) (hdr ! 4) in
     if n > MaxFrame then Inl (FrameTooLarge n)
     else and_then (ReadFull n s1) (\<lambda>(buf, s2). Inr ((hdr ! 0, buf), s2)))"

text \<open>\<open>bufio.Reader.ReadSlice\<close> with a buffer of \<open>bsz\<close> bytes.\<close>

datatype slice_end = SliceOK | SliceFull | SliceEOF

definition ReadSlice :: "nat \<Rightarrow> bytes \<Rightarrow> bytes \<times> slice_end \<times> bytes" where
  "ReadSlice bsz s = (case IndexByte s (CHR 0x0A) of
      Some i \<Rightarrow> if i < bsz then (take (Suc i) s, SliceOK, drop (Suc i) s)
                else (take bsz s, SliceFull, drop bsz s)
    | None \<Rightarrow> if bsz \<le> length s then (take bsz s, SliceFull, drop bsz s)
              else (s, SliceEOF, []))"

datatype line_error = LineTooLong | LineEOF

text \<open>
  \<open>readLine\<close>. Each turn of its loop takes \<open>bsz\<close> bytes more or ends, so it ends on every stream when
  the buffer is not empty; bufio's is never smaller than 16 bytes.
\<close>

function read_line :: "nat \<Rightarrow> nat \<Rightarrow> bytes \<Rightarrow> bytes \<Rightarrow> (line_error, bytes \<times> bytes) result" where
  "read_line bsz mx out s = (case ReadSlice (Suc bsz) s of (chunk, e, rest) \<Rightarrow>
     let out' = out @ chunk in
     if length out' > mx then Inl LineTooLong
     else case e of SliceOK \<Rightarrow> Inr (butlast out', rest)
       | SliceFull \<Rightarrow> read_line bsz mx out' rest
       | SliceEOF \<Rightarrow> Inl LineEOF)"
  by pat_completeness auto
termination
  by (relation "measure (\<lambda>(bsz, mx, out, s). length s)")
    (auto simp: ReadSlice_def split: option.splits if_splits dest: IndexByte_Some)

declare read_line.simps [simp del]

text \<open>The connection's reader has a 64 KiB buffer.\<close>

definition readLine :: "bytes \<Rightarrow> nat \<Rightarrow> (line_error, bytes \<times> bytes) result" where
  "readLine s mx = read_line 65535 mx [] s"

subsection \<open>The client\<close>

text \<open>How \<open>encoding/json\<close> writes and reads the two kinds of line.\<close>

record codec =
  put_req :: "request \<Rightarrow> bytes"
  get_req :: "bytes \<Rightarrow> request option"
  put_rsp :: "response \<Rightarrow> bytes"
  get_rsp :: "bytes \<Rightarrow> response option"

record conn =
  cn_rwc :: writer
  cn_br :: bytes

datatype client_error = DialFailed | SendFailed | AnswerFailed line_error | Unreadable
  | GuestError gerror | Announced int | ContentsFailed frame_error

type_synonym 'a reply = "(client_error, 'a \<times> conn) result"

text \<open>\<open>Client.open\<close>: the dialer's connection, with the request line written to it.\<close>

definition client_open :: "codec \<Rightarrow> conn option \<Rightarrow> request \<Rightarrow> unit reply" where
  "client_open js dial req = (case dial of None \<Rightarrow> Inl DialFailed
    | Some cn \<Rightarrow> (case Write (cn_rwc cn) (put_req js req @ [CHR 0x0A]) of
        (w, True) \<Rightarrow> Inr ((), cn\<lparr>cn_rwc := w\<rparr>)
      | (w, False) \<Rightarrow> Inl SendFailed))"

definition conn_response :: "codec \<Rightarrow> conn \<Rightarrow> response reply" where
  "conn_response js cn = (case readLine (cn_br cn) MaxLine of
      Inl e \<Rightarrow> Inl (AnswerFailed e)
    | Inr (line, rest) \<Rightarrow> (case get_rsp js line of
        None \<Rightarrow> Inl Unreadable
      | Some resp \<Rightarrow>
          if \<not> rs_OK resp
          then (case rs_Error resp of
              None \<Rightarrow> Inl (GuestError (gerr CodeInternal ''the guest agent failed without saying why''))
            | Some e \<Rightarrow> Inl (GuestError e))
          else Inr (resp, cn\<lparr>cn_br := rest\<rparr>)))"

text \<open>The calls that send one request and read one answer.\<close>

definition roundtrip :: "codec \<Rightarrow> conn option \<Rightarrow> request \<Rightarrow> response reply" where
  "roundtrip js dial req = and_then (client_open js dial req) (\<lambda>(_, cn). conn_response js cn)"

definition Ping :: "codec \<Rightarrow> conn option \<Rightarrow> (client_error, bytes) result" where
  "Ping js dial = and_then (roundtrip js dial (request0 OpPing)) (\<lambda>(resp, _). Inr (rs_Version resp))"

definition ReadFile :: "codec \<Rightarrow> conn option \<Rightarrow> bytes \<Rightarrow> (client_error, bytes) result" where
  "ReadFile js dial path = and_then (roundtrip js dial (request0 OpRead\<lparr>req_Path := path\<rparr>)) (\<lambda>(resp, cn).
     if rs_Size resp < 0 \<or> rs_Size resp > int MaxFileBytes then Inl (Announced (rs_Size resp))
     else case ReadFull (nat (rs_Size resp)) (cn_br cn) of
        Inl e \<Rightarrow> Inl (ContentsFailed e)
      | Inr (buf, _) \<Rightarrow> Inr buf)"

definition WriteFile :: "codec \<Rightarrow> conn option \<Rightarrow> bytes \<Rightarrow> bytes \<Rightarrow> (client_error, conn) result" where
  "WriteFile js dial path data =
    (if length data > MaxFileBytes then Inl (GuestError (gerr CodeTooLarge (Itoa (length data) @ '' bytes exceeds '' @ Itoa MaxFileBytes)))
     else and_then (roundtrip js dial (request0 OpWrite\<lparr>req_Path := path, req_Size := int (length data)\<rparr>))
       (\<lambda>(_, cn). case Write (cn_rwc cn) data of
          (w, False) \<Rightarrow> Inl SendFailed
        | (w, True) \<Rightarrow> and_then (conn_response js (cn\<lparr>cn_rwc := w\<rparr>)) (\<lambda>(_, cn'). Inr cn')))"

definition client_ok :: "codec \<Rightarrow> conn option \<Rightarrow> request \<Rightarrow> (client_error, unit) result" where
  "client_ok js dial req = and_then (roundtrip js dial req) (\<lambda>_. Inr ())"

definition Remove :: "codec \<Rightarrow> conn option \<Rightarrow> bytes \<Rightarrow> (client_error, unit) result" where
  "Remove js dial path = client_ok js dial (request0 OpRemove\<lparr>req_Path := path\<rparr>)"

definition Sync :: "codec \<Rightarrow> conn option \<Rightarrow> bool \<Rightarrow> (client_error, unit) result" where
  "Sync js dial final = client_ok js dial (request0 OpSync\<lparr>req_Final := final\<rparr>)"

definition GrowScratch :: "codec \<Rightarrow> conn option \<Rightarrow> int \<Rightarrow> (client_error, unit) result" where
  "GrowScratch js dial n = client_ok js dial (request0 OpGrowScratch\<lparr>req_Size := n\<rparr>)"

definition SetClock :: "codec \<Rightarrow> conn option \<Rightarrow> int \<Rightarrow> (client_error, unit) result" where
  "SetClock js dial unix_nano = client_ok js dial (request0 OpSetClock\<lparr>req_Time := unix_nano\<rparr>)"

definition Stats :: "codec \<Rightarrow> conn option \<Rightarrow> (client_error, guest_stats) result" where
  "Stats js dial = and_then (roundtrip js dial (request0 OpStats)) (\<lambda>(resp, _).
     case rs_Stats resp of
       None \<Rightarrow> Inl (GuestError (gerr CodeInternal ''the guest agent answered stats with none''))
     | Some st \<Rightarrow> Inr st)"

definition List_dir :: "codec \<Rightarrow> conn option \<Rightarrow> bytes \<Rightarrow> (client_error, dir_entry list) result" where
  "List_dir js dial path =
    and_then (roundtrip js dial (request0 OpList\<lparr>req_Path := path\<rparr>)) (\<lambda>(resp, _). Inr (rs_Entries resp))"

definition Sessions :: "codec \<Rightarrow> conn option \<Rightarrow> (client_error, session_info list) result" where
  "Sessions js dial = and_then (roundtrip js dial (request0 OpSessions)) (\<lambda>(resp, _). Inr (rs_Sessions resp))"

definition DialPort :: "codec \<Rightarrow> conn option \<Rightarrow> int \<Rightarrow> (client_error, conn) result" where
  "DialPort js dial port =
    and_then (roundtrip js dial (request0 OpDial\<lparr>req_Port := port\<rparr>)) (\<lambda>(_, cn). Inr cn)"

subsection \<open>A running process\<close>

text \<open>What the pump has delivered: the two outputs, the counts of dropped bytes, the exit code.\<close>

record pumped =
  p_stdout :: bytes
  p_stderr :: bytes
  p_dropped :: "int list"
  p_code :: int

definition pumped0 :: pumped where
  "pumped0 = \<lparr>p_stdout = [], p_stderr = [], p_dropped = [], p_code = -1\<rparr>"

definition int32_of :: "nat \<Rightarrow> int" where
  "int32_of n = (if n < 2 ^ 31 then int n else int n - 2 ^ 32)"

definition uint32_of :: "int \<Rightarrow> nat" where
  "uint32_of x = nat (x mod 2 ^ 32)"

definition be64 :: "bytes \<Rightarrow> nat" where
  "be64 b = be32 (b ! 0) (b ! 1) (b ! 2) (b ! 3) * 2 ^ 32 + be32 (b ! 4) (b ! 5) (b ! 6) (b ! 7)"

definition put64 :: "nat \<Rightarrow> bytes" where
  "put64 n = put32 (n div 2 ^ 32) @ put32 n"

text \<open>\<open>pump\<close>: one frame, with whether the loop goes on.\<close>

definition pump_frame :: "byte \<Rightarrow> bytes \<Rightarrow> pumped \<Rightarrow> pumped \<times> bool" where
  "pump_frame t payload p =
    (if t = FrameStdout then (p\<lparr>p_stdout := p_stdout p @ payload\<rparr>, True)
     else if t = FrameStderr then (p\<lparr>p_stderr := p_stderr p @ payload\<rparr>, True)
     else if t = FrameExit then
       (if length payload = 4
        then p\<lparr>p_code := int32_of (be32 (payload ! 0) (payload ! 1) (payload ! 2) (payload ! 3))\<rparr>
        else p, False)
     else if t = FrameDropped then
       (if length payload = 8 then p\<lparr>p_dropped := p_dropped p @ [int (be64 payload mod 2 ^ 62)]\<rparr>
        else p, True)
     else (p, False))"

lemma ReadFull_Inr: "ReadFull n s = Inr (a, b) \<longleftrightarrow> s = a @ b \<and> length a = n"
  by (auto simp: ReadFull_def)

lemma ReadFrame_shorter: "ReadFrame s = Inr (f, rest) \<Longrightarrow> length rest < length s"
  by (auto simp: ReadFrame_def ReadFull_Inr and_then_Inr Let_def split: prod.splits if_splits)

function pump :: "bytes \<Rightarrow> pumped \<Rightarrow> pumped" where
  "pump s p = (case ReadFrame s of
      Inl _ \<Rightarrow> p
    | Inr ((t, payload), rest) \<Rightarrow> (case pump_frame t payload p of
        (p', again) \<Rightarrow> if again then pump rest p' else p'))"
  by pat_completeness auto
termination
  by (relation "measure (\<lambda>(s, p). length s)") (auto dest: ReadFrame_shorter)

declare pump.simps [simp del]

text \<open>\<open>ExecRequest\<close> and \<open>Attach\<close>: the process's whole output, as the pump delivers it.\<close>

definition ExecRequest :: "codec \<Rightarrow> conn option \<Rightarrow> request \<Rightarrow> (client_error, pumped \<times> conn) result" where
  "ExecRequest js dial req = and_then (roundtrip js dial (req\<lparr>req_Op := OpExec\<rparr>)) (\<lambda>(_, cn).
     Inr (pump (cn_br cn) pumped0, cn))"

definition Exec :: "codec \<Rightarrow> conn option \<Rightarrow> bytes list \<Rightarrow> (bytes \<times> bytes) list \<Rightarrow> bytes
    \<Rightarrow> (client_error, pumped \<times> conn) result" where
  "Exec js dial argv env cwd =
    ExecRequest js dial (request0 OpExec\<lparr>req_Argv := argv, req_Env := env, req_Cwd := cwd\<rparr>)"

definition Attach :: "codec \<Rightarrow> conn option \<Rightarrow> bytes \<Rightarrow> int \<Rightarrow> (client_error, pumped \<times> conn) result" where
  "Attach js dial sess offset =
    and_then (roundtrip js dial (request0 OpAttach\<lparr>req_Session := sess, req_Offset := offset\<rparr>)) (\<lambda>(_, cn).
      Inr (pump (cn_br cn) pumped0, cn))"

definition Resize :: "writer \<Rightarrow> nat \<Rightarrow> nat \<Rightarrow> writer \<times> frame_error option" where
  "Resize w rows cols = WriteFrame w FrameResize (put16 rows @ put16 cols)"

definition Signal :: "writer \<Rightarrow> bytes \<Rightarrow> writer \<times> frame_error option" where
  "Signal w sig = WriteFrame w FrameSignal sig"

text \<open>\<open>stdinWriter\<close>: the frames of one write, with how many bytes went out.\<close>

function stdin_frames :: "writer \<Rightarrow> bytes \<Rightarrow> nat \<Rightarrow> writer \<times> nat \<times> frame_error option" where
  "stdin_frames w b n =
    (if b = [] then (w, n, None)
     else let chunk = (if length b > MaxFrame then take MaxFrame b else b) in
       case WriteFrame w FrameStdin chunk of
         (w1, Some e) \<Rightarrow> (w1, n, Some e)
       | (w1, None) \<Rightarrow> stdin_frames w1 (drop (length chunk) b) (n + length chunk))"
  by pat_completeness auto
termination
  by (relation "measure (\<lambda>(w, b, n). length b)") (auto simp: MaxFrame_def)

declare stdin_frames.simps [simp del]

record stdin_writer =
  sw_rwc :: writer
  sw_closed :: bool

datatype stdin_error = StdinClosed | StdinSend frame_error

definition stdin_Write :: "stdin_writer \<Rightarrow> bytes \<Rightarrow> stdin_writer \<times> nat \<times> stdin_error option" where
  "stdin_Write sw b =
    (if sw_closed sw then (sw, 0, Some StdinClosed)
     else case stdin_frames (sw_rwc sw) b 0 of
        (w, n, e) \<Rightarrow> (sw\<lparr>sw_rwc := w\<rparr>, n, map_option StdinSend e))"

definition stdin_Close :: "stdin_writer \<Rightarrow> stdin_writer \<times> stdin_error option" where
  "stdin_Close sw =
    (if sw_closed sw then (sw, None)
     else case WriteFrame (sw_rwc sw) FrameStdinEOF [] of
        (w, e) \<Rightarrow> (sw\<lparr>sw_rwc := w, sw_closed := True\<rparr>, map_option StdinSend e))"

section \<open>Frames are a wire format\<close>

definition put_frame :: "byte \<times> bytes \<Rightarrow> bytes" where
  "put_frame f = frame_header (fst f) (length (snd f)) @ snd f"

definition get_frame :: "bytes \<Rightarrow> ((byte \<times> bytes) \<times> bytes) option" where
  "get_frame s = (case ReadFrame s of Inl _ \<Rightarrow> None | Inr r \<Rightarrow> Some r)"

definition frame_fits :: "byte \<times> bytes \<Rightarrow> bool" where
  "frame_fits f \<longleftrightarrow> length (snd f) \<le> MaxFrame"

lemma get_frame_Some: "get_frame s = Some r \<longleftrightarrow> ReadFrame s = Inr r"
  by (simp add: get_frame_def split: sum.splits)

lemma put32_read:
  obtains a b c d where "put32 n = [a, b, c, d]" "be32 a b c d = n mod 4294967296"
  using put32_cases [of n] be32_put32 [of n] by (simp del: be32_put32)

lemma ReadFrame_put: "frame_fits f \<Longrightarrow> ReadFrame (put_frame f @ rest) = Inr (f, rest)"
proof -
  assume fit: "frame_fits f"
  obtain a b c d where "put32 (length (snd f)) = [a, b, c, d]" "be32 a b c d = length (snd f) mod 4294967296"
    by (rule put32_read)
  with fit show ?thesis
    by (simp add: MaxFrame_def ReadFrame_def ReadFull_def frame_fits_def put_frame_def frame_header_def and_then_def)
qed

lemma ReadFrame_Inr:
  "ReadFrame s = Inr (f, rest) \<Longrightarrow> frame_fits f \<and>
    (\<exists>a b c d. s = fst f # a # b # c # d # snd f @ rest \<and> be32 a b c d = length (snd f))"
proof -
  assume r: "ReadFrame s = Inr (f, rest)"
  then obtain hdr s1 where h: "s = hdr @ s1" "length hdr = 5"
    and k: "(let n = be32 (hdr ! 1) (hdr ! 2) (hdr ! 3) (hdr ! 4) in
     if n > MaxFrame then Inl (FrameTooLarge n)
     else and_then (ReadFull n s1) (\<lambda>(buf, s2). Inr ((hdr ! 0, buf), s2))) = Inr (f, rest)"
    by (auto simp: ReadFrame_def and_then_Inr ReadFull_Inr)
  from h(2) obtain t a b c d where hd5: "hdr = [t, a, b, c, d]"
    by (auto simp: numeral_eq_Suc length_Suc_conv)
  then show ?thesis using k h(1) by (auto simp: Let_def and_then_Inr ReadFull_Inr frame_fits_def split: if_splits)
qed

lemma ReadFrame_later: "ReadFrame s = Inr (f, rest) \<Longrightarrow> ReadFrame (s @ later) = Inr (f, rest @ later)"
  by (cases f) (fastforce dest: ReadFrame_Inr simp: ReadFrame_def ReadFull_def frame_fits_def)

interpretation frame: wire_format put_frame get_frame frame_fits
  by unfold_locales (auto simp: get_frame_Some ReadFrame_put ReadFrame_shorter ReadFrame_later)

lemma Write_cases:
  "Write w p = (w', ok) \<Longrightarrow> (\<exists>q. wr_sent w' = wr_sent w @ q \<and> (ok \<longrightarrow> q = p) \<and> prefix q p)
     \<and> (wr_room w = None \<longrightarrow> ok \<and> wr_room w' = None)"
  by (auto simp: Write_def take_is_prefix split: option.splits)

text \<open>A frame is written whole, in the wire format, or the writer broke part way through it.\<close>

lemma WriteFrame_cases:
  assumes "WriteFrame w t p = (w', e)"
  shows "\<exists>q. wr_sent w' = wr_sent w @ q \<and> prefix q (put_frame (t, p)) \<and>
      (e = None \<longrightarrow> q = put_frame (t, p) \<and> frame_fits (t, p))"
    and "wr_room w = None \<Longrightarrow> wr_room w' = None \<and> (e = None \<longleftrightarrow> frame_fits (t, p))"
proof -
  obtain w1 b1 where w1: "Write w (frame_header t (length p)) = (w1, b1)" by fastforce
  obtain w2 b2 where w2: "Write w1 p = (w2, b2)" by fastforce
  note c = Write_cases [OF w1] Write_cases [OF w2]
  show "\<exists>q. wr_sent w' = wr_sent w @ q \<and> prefix q (put_frame (t, p)) \<and>
      (e = None \<longrightarrow> q = put_frame (t, p) \<and> frame_fits (t, p))"
    using c assms w1 w2
    by (cases b1; cases b2) (auto simp: WriteFrame_def put_frame_def frame_fits_def split: if_splits)
  show "wr_room w = None \<Longrightarrow> wr_room w' = None \<and> (e = None \<longleftrightarrow> frame_fits (t, p))"
    using c assms w1 w2
    by (cases b1; cases b2) (auto simp: WriteFrame_def put_frame_def frame_fits_def split: if_splits)
qed

section \<open>Lines\<close>

text \<open>What \<open>readLine\<close> computes, without its buffer.\<close>

definition line_of :: "nat \<Rightarrow> bytes \<Rightarrow> bytes \<Rightarrow> (line_error, bytes \<times> bytes) result" where
  "line_of mx out s = (case IndexByte s (CHR 0x0A) of
      Some i \<Rightarrow> if length out + Suc i > mx then Inl LineTooLong else Inr (out @ take i s, drop (Suc i) s)
    | None \<Rightarrow> if length out + length s > mx then Inl LineTooLong else Inl LineEOF)"

lemma IndexByte_drop: "n \<le> i \<Longrightarrow> IndexByte s b = Some i \<Longrightarrow> IndexByte (drop n s) b = Some (i - n)"
proof (induction s arbitrary: n i)
  case (Cons c s)
  then show ?case by (cases n) (auto split: if_splits option.splits)
qed simp

lemma IndexByte_drop_None: "IndexByte s b = None \<Longrightarrow> IndexByte (drop n s) b = None"
  by (auto simp: IndexByte_None dest: in_set_dropD)

lemma line_of_full:
  assumes "IndexByte s (CHR 0x0A) = None \<and> n \<le> length s \<or> (\<exists>i. IndexByte s (CHR 0x0A) = Some i \<and> n \<le> i)"
  shows "line_of mx (out @ take n s) (drop n s) = line_of mx out s"
  using assms
proof
  assume "IndexByte s (CHR 0x0A) = None \<and> n \<le> length s"
  then show ?thesis by (simp add: line_of_def IndexByte_drop_None)
next
  assume "\<exists>i. IndexByte s (CHR 0x0A) = Some i \<and> n \<le> i"
  then obtain i where i: "IndexByte s (CHR 0x0A) = Some i" "n \<le> i" by blast
  then have "i < length s" by (auto dest: IndexByte_Some)
  moreover have "take n s @ take (i - n) (drop n s) = take i s"
    using i(2) take_add [of n "i - n" s] by simp
  ultimately show ?thesis using i by (simp add: line_of_def IndexByte_drop [OF i(2,1)] del: append_take_drop_id)
qed

lemma line_of_long:
  assumes "mx < length (out @ take n s)" "IndexByte s (CHR 0x0A) = None \<and> n \<le> length s \<or> (\<exists>i. IndexByte s (CHR 0x0A) = Some i \<and> n \<le> i)"
  shows "line_of mx out s = Inl LineTooLong"
  using assms by (auto simp: line_of_def)

lemma read_line_line_of: "read_line bsz mx out s = line_of mx out s"
proof (induction bsz mx out s rule: read_line.induct)
  case (1 bsz mx out s)
  consider (nl) i where "IndexByte s (CHR 0x0A) = Some i" "i < Suc bsz"
    | (full) "IndexByte s (CHR 0x0A) = None \<and> Suc bsz \<le> length s \<or> (\<exists>i. IndexByte s (CHR 0x0A) = Some i \<and> Suc bsz \<le> i)"
    | (eof) "IndexByte s (CHR 0x0A) = None" "\<not> Suc bsz \<le> length s"
    by (cases "IndexByte s (CHR 0x0A)"; metis not_less)
  then show ?case
  proof cases
    case nl
    then have "i < length s" by (auto dest: IndexByte_Some)
    with nl show ?thesis
      by (subst read_line.simps) (simp add: ReadSlice_def line_of_def take_Suc_conv_app_nth butlast_append)
  next
    case full
    then have sl: "ReadSlice (Suc bsz) s = (take (Suc bsz) s, SliceFull, drop (Suc bsz) s)"
      by (auto simp: ReadSlice_def)
    show ?thesis
    proof (cases "length (out @ take (Suc bsz) s) > mx")
      case True
      then show ?thesis
        using line_of_long [OF True full] by (subst read_line.simps) (simp add: sl Let_def del: take_Suc)
    next
      case False
      then have "read_line bsz mx (out @ take (Suc bsz) s) (drop (Suc bsz) s)
          = line_of mx (out @ take (Suc bsz) s) (drop (Suc bsz) s)"
        using 1 [OF sl [symmetric] refl refl] by simp
      then show ?thesis
        using False line_of_full [OF full] by (subst read_line.simps) (simp add: sl Let_def)
    qed
  next
    case eof
    then show ?thesis by (subst read_line.simps) (simp add: ReadSlice_def line_of_def)
  qed
qed

lemma readLine_line:
  assumes "CHR 0x0A \<notin> set l" "length l < mx"
  shows "readLine (l @ CHR 0x0A # rest) mx = Inr (l, rest)"
proof -
  have "IndexByte (l @ CHR 0x0A # rest) (CHR 0x0A) = Some (length l)"
    using assms(1) by (induction l) auto
  then show ?thesis using assms(2) by (simp add: readLine_def read_line_line_of line_of_def)
qed

section \<open>What the pump delivers\<close>

lemma int32_roundtrip: "- (2 ^ 31) \<le> x \<Longrightarrow> x < 2 ^ 31 \<Longrightarrow> int32_of (uint32_of x) = x"
proof (cases "x < 0")
  case True
  assume "- (2 ^ 31) \<le> x" "x < 2 ^ 31"
  then have "x mod 2 ^ 32 = x + 2 ^ 32" using True by (intro mod_pos_pos_trivial [THEN trans [OF mod_add_self2 [symmetric]]]) auto
  then show ?thesis using True \<open>- (2 ^ 31) \<le> x\<close> by (simp add: int32_of_def uint32_of_def)
next
  case False
  assume "- (2 ^ 31) \<le> x" "x < 2 ^ 31"
  then show ?thesis using False by (simp add: int32_of_def uint32_of_def)
qed

lemma uint32_less: "uint32_of x < 4294967296"
  by (simp add: uint32_of_def nat_less_iff)

definition exit_frame :: "int \<Rightarrow> byte \<times> bytes" where
  "exit_frame code = (FrameExit, put32 (uint32_of code))"

definition dropped_frame :: "nat \<Rightarrow> byte \<times> bytes" where
  "dropped_frame n = (FrameDropped, put64 n)"

lemma length_put64 [simp]: "length (put64 n) = 8"
  by (simp add: put64_def)

lemma be64_put64: "n < 2 ^ 64 \<Longrightarrow> be64 (put64 n) = n"
proof -
  assume n: "n < 2 ^ 64"
  obtain a b c d where x: "put32 (n div 4294967296) = [a, b, c, d]" "be32 a b c d = n div 4294967296 mod 4294967296"
    by (rule put32_read)
  obtain e f g h where y: "put32 n = [e, f, g, h]" "be32 e f g h = n mod 4294967296"
    by (rule put32_read)
  show ?thesis using n by (simp add: be64_def put64_def x y)
qed

lemma exit_frame_fits [simp]: "frame_fits (exit_frame c)"
  by (simp add: exit_frame_def frame_fits_def MaxFrame_def)

lemma dropped_frame_fits [simp]: "frame_fits (dropped_frame n)"
  by (simp add: dropped_frame_def frame_fits_def MaxFrame_def)

lemma pump_exit:
  assumes "- (2 ^ 31) \<le> code" "code < 2 ^ 31"
  shows "pump (put_frame (exit_frame code) @ rest) p = p\<lparr>p_code := code\<rparr>"
proof -
  obtain a b c d where x: "put32 (uint32_of code) = [a, b, c, d]" "be32 a b c d = uint32_of code mod 4294967296"
    by (rule put32_read)
  have "int32_of (uint32_of code) = code" using assms by (rule int32_roundtrip)
  then have "pump_frame FrameExit (put32 (uint32_of code)) p = (p\<lparr>p_code := code\<rparr>, False)"
    by (simp add: pump_frame_def x frame_type_defs mod_less [OF uint32_less])
  then show ?thesis
    by (subst pump.simps, subst ReadFrame_put) (simp_all add: exit_frame_def exit_frame_fits [unfolded exit_frame_def])
qed

lemma pump_dropped:
  "n < 2 ^ 62 \<Longrightarrow>
   pump (put_frame (dropped_frame n) @ rest) p = pump rest (p\<lparr>p_dropped := p_dropped p @ [int n]\<rparr>)"
proof -
  assume "n < 2 ^ 62"
  then have "pump_frame FrameDropped (put64 n) p = (p\<lparr>p_dropped := p_dropped p @ [int n]\<rparr>, True)"
    by (simp add: pump_frame_def be64_put64 frame_type_defs)
  then show ?thesis
    by (subst pump.simps, subst ReadFrame_put) (simp_all add: dropped_frame_def dropped_frame_fits [unfolded dropped_frame_def])
qed

text \<open>The bytes of one kind in a list of frames.\<close>

definition payloads :: "byte \<Rightarrow> (byte \<times> bytes) list \<Rightarrow> bytes" where
  "payloads t fs = concat (map snd (filter (\<lambda>f. fst f = t) fs))"

definition output_frame :: "byte \<times> bytes \<Rightarrow> bool" where
  "output_frame f \<longleftrightarrow> frame_fits f \<and> (fst f = FrameStdout \<or> fst f = FrameStderr)"

lemma pump_outputs:
  "list_all output_frame fs \<Longrightarrow>
   pump (concat (map put_frame fs) @ rest) p =
     pump rest (p\<lparr>p_stdout := p_stdout p @ payloads FrameStdout fs,
                  p_stderr := p_stderr p @ payloads FrameStderr fs\<rparr>)"
proof (induction fs arbitrary: p)
  case (Cons f fs)
  obtain t b where f: "f = (t, b)" by (cases f)
  have "ReadFrame (put_frame f @ concat (map put_frame fs) @ rest) = Inr (f, concat (map put_frame fs) @ rest)"
    using Cons.prems by (simp add: ReadFrame_put output_frame_def)
  then have "pump (concat (map put_frame (f # fs)) @ rest) p
      = pump (concat (map put_frame fs) @ rest) (fst (pump_frame t b p))"
    using Cons.prems by (subst pump.simps) (auto simp: f pump_frame_def output_frame_def)
  then show ?case
    using Cons f by (auto simp: pump_frame_def payloads_def output_frame_def frame_type_defs)
qed (simp add: payloads_def)

section \<open>Standard input\<close>

lemma stdin_frames_step:
  assumes "b \<noteq> []"
  defines "c \<equiv> (if length b > MaxFrame then take MaxFrame b else b)"
  shows "stdin_frames w b n = (case WriteFrame w FrameStdin c of
      (w1, Some e) \<Rightarrow> (w1, n, Some e)
    | (w1, None) \<Rightarrow> stdin_frames w1 (drop (length c) b) (n + length c))"
  using assms by (subst stdin_frames.simps) (simp add: Let_def)

text \<open>
  However the writer breaks, what it took is whole stdin frames that hold exactly the bytes counted as
  written, and then at most a broken piece of the next frame.
\<close>

definition stdin_sent :: "writer \<Rightarrow> bytes \<Rightarrow> writer \<Rightarrow> nat \<Rightarrow> bool \<Rightarrow> bool" where
  "stdin_sent w b w' n ok \<longleftrightarrow> (\<exists>cs part.
     wr_sent w' = wr_sent w @ concat (map (\<lambda>c. put_frame (FrameStdin, c)) cs) @ part \<and>
     concat cs = take n b \<and> n \<le> length b \<and> list_all (\<lambda>c. c \<noteq> [] \<and> length c \<le> MaxFrame) cs \<and>
     (ok \<longrightarrow> part = [] \<and> n = length b))"

lemma stdin_frames_sent:
  "stdin_frames w b n = (w', n', e) \<Longrightarrow> \<exists>k. n' = n + k \<and> stdin_sent w b w' k (e = None)"
proof (induction w b n arbitrary: w' n' e rule: stdin_frames.induct)
  case (1 w b n)
  show ?case
  proof (cases "b = []")
    case True
    with 1 show ?thesis
      by (subst (asm) stdin_frames.simps) (auto simp: stdin_sent_def intro!: exI [of _ "[]"])
  next
    case False
    define c where "c = (if length b > MaxFrame then take MaxFrame b else b)"
    have c: "c \<noteq> []" "length c \<le> MaxFrame" "c = take (length c) b" "length c \<le> length b"
      using False by (auto simp: c_def MaxFrame_def)
    obtain w1 e1 where w1: "WriteFrame w FrameStdin c = (w1, e1)" by fastforce
    note fr = WriteFrame_cases(1) [OF w1]
    show ?thesis
    proof (cases e1)
      case (Some err)
      then have "(w', n', e) = (w1, n, Some err)"
        using 1(2) stdin_frames_step [OF False, folded c_def] w1 by simp
      with fr Some show ?thesis
        by (auto simp: stdin_sent_def intro!: exI [where x = "[]::bytes list"])
    next
      case None
      then have st: "stdin_frames w1 (drop (length c) b) (n + length c) = (w', n', e)"
        using 1(2) stdin_frames_step [OF False, folded c_def] w1 by simp
      obtain k where k: "n' = n + length c + k" "stdin_sent w1 (drop (length c) b) w' k (e = None)"
        using 1(1) [OF False c_def _ _ st] w1 None by auto
      then obtain cs part where cs: "wr_sent w' = wr_sent w1 @ concat (map (\<lambda>c. put_frame (FrameStdin, c)) cs) @ part"
        "concat cs = take k (drop (length c) b)" "k \<le> length b - length c"
        "list_all (\<lambda>c. c \<noteq> [] \<and> length c \<le> MaxFrame) cs" "e = None \<longrightarrow> part = [] \<and> k = length b - length c"
        by (auto simp: stdin_sent_def)
      have "stdin_sent w b w' (length c + k) (e = None)"
        unfolding stdin_sent_def
      proof (intro exI conjI)
        show "wr_sent w' = wr_sent w @ concat (map (\<lambda>c. put_frame (FrameStdin, c)) (c # cs)) @ part"
          using fr None cs(1) by auto
        show "concat (c # cs) = take (length c + k) b"
          using c(3) cs(2) by (simp add: take_add)
      qed (use cs c in auto)
      then show ?thesis using k(1) by (intro exI [of _ "length c + k"]) simp
    qed
  qed
qed

lemma stdin_frames_open: "wr_room w = None \<Longrightarrow> stdin_frames w b n = (w', n', e) \<Longrightarrow> e = None \<and> wr_room w' = None"
proof (induction w b n arbitrary: w' n' e rule: stdin_frames.induct)
  case (1 w b n)
  show ?case
  proof (cases "b = []")
    case True
    with 1 show ?thesis by (subst (asm) (2) stdin_frames.simps) auto
  next
    case False
    define c where "c = (if length b > MaxFrame then take MaxFrame b else b)"
    obtain w1 e1 where w1: "WriteFrame w FrameStdin c = (w1, e1)" by fastforce
    then have e1: "e1 = None" "wr_room w1 = None"
      using WriteFrame_cases(2) [OF w1] 1(2) by (auto simp: frame_fits_def c_def)
    then have "stdin_frames w1 (drop (length c) b) (n + length c) = (w', n', e)"
      using 1(3) stdin_frames_step [OF False, folded c_def] w1 by simp
    then show ?thesis using 1(1) [OF False c_def _ _ e1(2)] w1 e1 by auto
  qed
qed

section \<open>Properties\<close>

text \<open>
  \<open>readLine\<close> gives the same answer whatever the size of the reader's buffer and however the line
  falls across its refills: the bytes before the first newline and the rest of the stream after it, when
  the line with its newline is at most the limit; the too-long error when the limit is passed first;
  the end of the stream otherwise. The loop ends on every input.
\<close>

theorem read_line_without_buffer:
  "read_line bsz mx [] s = (case IndexByte s (CHR 0x0A) of
      Some i \<Rightarrow> if Suc i \<le> mx then Inr (take i s, drop (Suc i) s) else Inl LineTooLong
    | None \<Rightarrow> if length s \<le> mx then Inl LineEOF else Inl LineTooLong)"
  by (auto simp: read_line_line_of line_of_def split: option.splits)

text \<open>
  Whatever bytes a guest sends, \<open>ReadFrame\<close> yields a frame only with a payload of at most
  \<open>MaxFrame\<close> bytes that lie right behind its header, and fails only when the stream ends inside the
  frame or the header announces more than \<open>MaxFrame\<close>, which is refused on the header alone. A frame
  that \<open>WriteFrame\<close> wrote is read back with everything behind it untouched.
\<close>

theorem read_frame_bounded:
  "case ReadFrame s of
     Inr ((t, payload), rest) \<Rightarrow> length payload \<le> MaxFrame \<and> s = t # take 4 (drop 1 s) @ payload @ rest
       \<and> ReadFrame (put_frame (t, payload) @ later) = Inr ((t, payload), later)
   | Inl e \<Rightarrow> length s < 5 \<and> e = ShortRead
       \<or> (5 \<le> length s \<and> (\<exists>n. n = be32 (s ! 1) (s ! 2) (s ! 3) (s ! 4) \<and>
            (if n > MaxFrame then \<forall>body. ReadFrame (take 5 s @ body) = Inl (FrameTooLarge n) \<and> e = FrameTooLarge n
             else length s < 5 + n \<and> e = ShortRead)))"
proof (cases "ReadFrame s")
  case (Inl e)
  show ?thesis
  proof (cases "length s < 5")
    case True
    with Inl show ?thesis by (simp add: ReadFrame_def ReadFull_def)
  next
    case False
    then obtain t a b c d u where s: "s = t # a # b # c # d # u"
      by (auto simp: not_less numeral_eq_Suc Suc_le_length_iff)
    show ?thesis
    proof (cases "be32 a b c d > MaxFrame")
      case True
      then show ?thesis using Inl unfolding s by (simp add: ReadFrame_def ReadFull_def)
    next
      case False
      then show ?thesis using Inl unfolding s by (simp add: ReadFrame_def ReadFull_def Let_def split: if_splits)
    qed
  qed
next
  case (Inr r)
  obtain t p rest where r: "r = ((t, p), rest)" by (metis surj_pair)
  then show ?thesis
    using Inr ReadFrame_Inr [of s "(t, p)" rest] by (auto simp: frame_fits_def ReadFrame_put)
qed

text \<open>
  Writing to a process's stdin sends frames no larger than \<open>MaxFrame\<close> that hold, in order, exactly
  the bytes the call reports as written, however the connection breaks; with no error it is all of them,
  and after a close nothing is sent.
\<close>

theorem stdin_write_sound:
  "case stdin_Write sw b of (sw', n, e) \<Rightarrow>
     (if sw_closed sw then sw' = sw \<and> n = 0 \<and> e = Some StdinClosed
      else stdin_sent (sw_rwc sw) b (sw_rwc sw') n (e = None) \<and>
        (wr_room (sw_rwc sw) = None \<longrightarrow> e = None))"
proof -
  obtain w n e where s: "stdin_frames (sw_rwc sw) b 0 = (w, n, e)" by (metis surj_pair)
  show ?thesis
    using stdin_frames_sent [OF s] stdin_frames_open [OF _ s] by (auto simp: stdin_Write_def s)
qed

theorem stdin_write_sound_witness:
  "wr_room (new_writer None) = None \<and>
   snd (snd (stdin_Write \<lparr>sw_rwc = new_writer None, sw_closed = False\<rparr> ''hi'')) = None"
  using stdin_write_sound [of "\<lparr>sw_rwc = new_writer None, sw_closed = False\<rparr>" "''hi''"]
  by (auto simp: new_writer_def split: prod.splits)

end
