(* ===== verification/Guest_Session.thy ===== *)
theory Guest_Session
  imports Guest_Proto "HOL-Library.Multiset" "HOL-Library.List_Lexorder" "HOL-Library.Char_ord"
begin

text \<open>
  Kept processes (\<open>internal/guestproto/session.go\<close>): processes of the guest that outlive the
  connection that started them. A session buffers the newest output of its process and serves it to the
  connection attached to it.

  The model has the guest's sessions in a store (a list, its indices the pointers of the code), the
  table from session ids to pointers, and one record per connection that runs \<open>serveSession\<close>. Every
  critical section of the code and every frame sent is one step, so the step relation has all the
  interleavings that the mutexes allow. A channel that \<open>notify\<close> closes and replaces is the number of
  times it was replaced. Stream positions are natural numbers: they count bytes and never come near
  \<open>2 ^ 63\<close>. The state carries, beside what the code keeps, each process's whole output and what each
  connection was given, which the properties speak of and no step reads.
\<close>

subsection \<open>One session\<close>

definition keptBytes :: nat where
  "keptBytes = 1048576"

definition keptExited :: nat where
  "keptExited = 64"

record kept_frame =
  kf_typ :: byte
  kf_data :: bytes
  kf_pos :: nat

record session =
  s_id :: bytes
  s_started :: bool
  s_tty :: bool
  s_frames :: "kept_frame list"
  s_bytes :: nat
  s_total :: nat
  s_exit :: "int option"
  s_done :: nat
  s_gen :: nat
  s_changed :: nat

definition new_session :: "bytes \<Rightarrow> session" where
  "new_session sid = \<lparr>s_id = sid, s_started = False, s_tty = False, s_frames = [], s_bytes = 0,
     s_total = 0, s_exit = None, s_done = 0, s_gen = 0, s_changed = 0\<rparr>"

definition notify :: "session \<Rightarrow> session" where
  "notify s = s\<lparr>s_changed := Suc (s_changed s)\<rparr>"

text \<open>The loop of \<open>write\<close> that drops the oldest frames.\<close>

fun drop_oldest :: "nat \<Rightarrow> kept_frame list \<Rightarrow> nat \<times> kept_frame list" where
  "drop_oldest n (f # g # fs) =
    (if n > keptBytes then drop_oldest (n - length (kf_data f)) (g # fs) else (n, f # g # fs))"
| "drop_oldest n fs = (n, fs)"

definition session_write :: "byte \<Rightarrow> bytes \<Rightarrow> session \<Rightarrow> session" where
  "session_write t p s =
    (let frames = s_frames s @ [\<lparr>kf_typ = t, kf_data = p, kf_pos = s_total s\<rparr>]
     in case drop_oldest (s_bytes s + length p) frames of (n, kept) \<Rightarrow>
       notify (s\<lparr>s_frames := kept, s_total := s_total s + length p, s_bytes := n\<rparr>))"

definition session_finish :: "int \<Rightarrow> session \<Rightarrow> session" where
  "session_finish code s = notify (s\<lparr>s_exit := Some code\<rparr>)"

definition info :: "session \<Rightarrow> session_info" where
  "info s = \<lparr>si_ID = s_id s, si_Running = (s_exit s = None), si_ExitCode = s_exit s\<rparr>"

text \<open>The part of a round of \<open>serveSession\<close> that holds the session's lock.\<close>

definition pending_of :: "nat \<Rightarrow> kept_frame list \<Rightarrow> kept_frame list" where
  "pending_of pos fs = concat (map (\<lambda>f.
     if kf_pos f + length (kf_data f) \<le> pos then []
     else if kf_pos f < pos
       then [\<lparr>kf_typ = kf_typ f, kf_data = drop (pos - kf_pos f) (kf_data f), kf_pos = pos\<rparr>]
     else [f]) fs)"

definition dropped_of :: "nat \<Rightarrow> kept_frame list \<Rightarrow> nat" where
  "dropped_of pos fs = (case fs of [] \<Rightarrow> 0 | f # _ \<Rightarrow> if pos < kf_pos f then kf_pos f - pos else 0)"

definition frame_of :: "kept_frame \<Rightarrow> byte \<times> bytes" where
  "frame_of f = (kf_typ f, kf_data f)"

text \<open>The frames a round sends: the count of dropped bytes, on the first round only, then the output.\<close>

definition round_frames :: "bool \<Rightarrow> nat \<Rightarrow> session \<Rightarrow> (byte \<times> bytes) list" where
  "round_frames first pos s =
    (if first \<and> dropped_of pos (s_frames s) > 0 then [dropped_frame (dropped_of pos (s_frames s))] else [])
      @ map frame_of (pending_of pos (s_frames s))"

subsection \<open>The table of sessions\<close>

datatype phase =
    Begin
  | Looping
  | Sending "(byte \<times> bytes) list" "int option" nat nat
  | Waiting nat
  | Delivered
  | Deleting
  | Ended

text \<open>
  A connection in \<open>serveSession\<close>. The last four fields are history: the frames it was given, the
  offset it asked for, the position its output starts at, and whether a later round skipped bytes.
\<close>

record attachment =
  a_ptr :: nat
  a_gen :: nat
  a_pos :: nat
  a_first :: bool
  a_phase :: phase
  a_sent :: "(byte \<times> bytes) list"
  a_off :: nat
  a_from :: nat
  a_gap :: bool

record guest =
  g_heap :: "session list"
  g_table :: "(bytes \<times> nat) list"
  g_finished :: nat
  g_atts :: "attachment list"
  g_all :: "(byte \<times> bytes) list list"

definition guest0 :: guest where
  "guest0 = \<lparr>g_heap = [], g_table = [], g_finished = 0, g_atts = [], g_all = []\<rparr>"

definition upd_session :: "nat \<Rightarrow> (session \<Rightarrow> session) \<Rightarrow> guest \<Rightarrow> guest" where
  "upd_session p f g = g\<lparr>g_heap := (g_heap g)[p := f (g_heap g ! p)]\<rparr>"

definition upd_att :: "nat \<Rightarrow> (attachment \<Rightarrow> attachment) \<Rightarrow> guest \<Rightarrow> guest" where
  "upd_att i f g = g\<lparr>g_atts := (g_atts g)[i := f (g_atts g ! i)]\<rparr>"

definition delete_id :: "bytes \<Rightarrow> nat \<Rightarrow> guest \<Rightarrow> guest" where
  "delete_id sid p g = (if map_of (g_table g) sid = Some p
     then g\<lparr>g_table := filter (\<lambda>(k, _). k \<noteq> sid) (g_table g)\<rparr> else g)"

definition reserve :: "bytes \<Rightarrow> guest \<Rightarrow> (nat \<times> guest) option" where
  "reserve sid g = (case map_of (g_table g) sid of
      Some _ \<Rightarrow> None
    | None \<Rightarrow> let p = length (g_heap g) in
        Some (p, g\<lparr>g_heap := g_heap g @ [new_session sid], g_table := (sid, p) # g_table g,
                   g_all := g_all g @ [[]]\<rparr>))"

definition release :: "nat \<Rightarrow> guest \<Rightarrow> guest" where
  "release p g = delete_id (s_id (g_heap g ! p)) p g"

definition new_attachment :: "nat \<Rightarrow> nat \<Rightarrow> attachment" where
  "new_attachment p offset = \<lparr>a_ptr = p, a_gen = 0, a_pos = offset, a_first = True, a_phase = Begin,
     a_sent = [], a_off = offset, a_from = offset, a_gap = False\<rparr>"

text \<open>\<open>keep\<close>: the process is the session's from now on, and the connection is served from offset 0.\<close>

definition keep :: "nat \<Rightarrow> bool \<Rightarrow> guest \<Rightarrow> guest" where
  "keep p tty g = (upd_session p (\<lambda>s. s\<lparr>s_started := True, s_tty := tty\<rparr>) g)
     \<lparr>g_atts := g_atts g @ [new_attachment p 0]\<rparr>"

text \<open>The copying goroutines of \<open>keep\<close>, and the one that waits for the process.\<close>

definition copy_out :: "nat \<Rightarrow> byte \<Rightarrow> bytes \<Rightarrow> guest \<Rightarrow> guest" where
  "copy_out p t chunk g = (upd_session p (session_write t chunk) g)
     \<lparr>g_all := (g_all g)[p := g_all g ! p @ [(t, chunk)]]\<rparr>"

definition process_done :: "nat \<Rightarrow> int \<Rightarrow> guest \<Rightarrow> guest" where
  "process_done p code = upd_session p (session_finish code)"

definition stamp_done :: "nat \<Rightarrow> guest \<Rightarrow> guest" where
  "stamp_done p g = (upd_session p (\<lambda>s. s\<lparr>s_done := Suc (g_finished g)\<rparr>) g)\<lparr>g_finished := Suc (g_finished g)\<rparr>"

text \<open>\<open>attach\<close>: what it answers, and the connection it leaves in \<open>serveSession\<close>.\<close>

definition attach :: "request \<Rightarrow> guest \<Rightarrow> response \<times> guest" where
  "attach req g = (case map_of (g_table g) (req_Session req) of
      None \<Rightarrow> (fail_response CodeNotFound ''no such session'', g)
    | Some p \<Rightarrow>
        if \<not> s_started (g_heap g ! p) then (fail_response CodeNotFound ''no such session'', g)
        else if req_Offset req < 0 then (fail_response CodeBadRequest ''offset must not be negative'', g)
        else (ok_response, g\<lparr>g_atts := g_atts g @ [new_attachment p (nat (req_Offset req))]\<rparr>))"

subsection \<open>Serving a connection\<close>

definition serve_begin :: "nat \<Rightarrow> guest \<Rightarrow> guest" where
  "serve_begin i g = (let p = a_ptr (g_atts g ! i); n = Suc (s_gen (g_heap g ! p)) in
     upd_att i (\<lambda>a. a\<lparr>a_gen := n, a_phase := Looping\<rparr>)
       (upd_session p (\<lambda>s. notify (s\<lparr>s_gen := n\<rparr>)) g))"

definition round_of :: "session \<Rightarrow> attachment \<Rightarrow> attachment" where
  "round_of s a =
    (if s_gen s \<noteq> a_gen a then a\<lparr>a_phase := Ended\<rparr>
     else a\<lparr>a_phase := Sending (round_frames (a_first a) (a_pos a) s) (s_exit s) (s_total s) (s_changed s),
            a_first := False,
            a_from := (if a_first a then a_from a + dropped_of (a_pos a) (s_frames s) else a_from a),
            a_gap := (a_gap a \<or> (\<not> a_first a \<and> dropped_of (a_pos a) (s_frames s) > 0))\<rparr>)"

definition serve_round :: "nat \<Rightarrow> guest \<Rightarrow> guest" where
  "serve_round i g = upd_att i (round_of (g_heap g ! a_ptr (g_atts g ! i))) g"

text \<open>One frame goes out, or the connection is lost.\<close>

definition send_of :: "bool \<Rightarrow> attachment \<Rightarrow> attachment" where
  "send_of ok a = (case a_phase a of
      Sending (f # q) e t w \<Rightarrow>
        if ok then a\<lparr>a_phase := Sending q e t w, a_sent := a_sent a @ [f]\<rparr> else a\<lparr>a_phase := Ended\<rparr>
    | Sending [] e t w \<Rightarrow>
        let b = a\<lparr>a_pos := max (a_pos a) t\<rparr> in
        (case e of
           None \<Rightarrow> b\<lparr>a_phase := Waiting w\<rparr>
         | Some c \<Rightarrow> if ok then b\<lparr>a_phase := Delivered, a_sent := a_sent a @ [exit_frame c]\<rparr>
                     else b\<lparr>a_phase := Ended\<rparr>)
    | _ \<Rightarrow> a)"

definition serve_send :: "nat \<Rightarrow> bool \<Rightarrow> guest \<Rightarrow> guest" where
  "serve_send i ok = upd_att i (send_of ok)"

text \<open>The select: the session changed, or the connection is gone.\<close>

definition can_wake :: "nat \<Rightarrow> guest \<Rightarrow> bool" where
  "can_wake i g = (case a_phase (g_atts g ! i) of
      Waiting w \<Rightarrow> s_changed (g_heap g ! a_ptr (g_atts g ! i)) \<noteq> w
    | _ \<Rightarrow> False)"

definition set_phase :: "phase \<Rightarrow> nat \<Rightarrow> guest \<Rightarrow> guest" where
  "set_phase ph i = upd_att i (\<lambda>a. a\<lparr>a_phase := ph\<rparr>)"

text \<open>\<open>forget\<close>: the generation under the session's lock, then the table under its own.\<close>

definition forget_check :: "nat \<Rightarrow> guest \<Rightarrow> guest" where
  "forget_check i g = (let a = g_atts g ! i in
     set_phase (if s_gen (g_heap g ! a_ptr a) = a_gen a then Deleting else Ended) i g)"

definition forget_delete :: "nat \<Rightarrow> guest \<Rightarrow> guest" where
  "forget_delete i g = (let p = a_ptr (g_atts g ! i) in
     set_phase Ended i (delete_id (s_id (g_heap g ! p)) p g))"

text \<open>\<open>pruneExited\<close>: \<open>sort.Slice\<close> by the order they finished in; the sort leaves the order of equal
  keys open, so it is an argument that \<open>prune_order\<close> constrains.\<close>

definition exited :: "guest \<Rightarrow> (bytes \<times> nat) list" where
  "exited g = filter (\<lambda>(_, p). s_exit (g_heap g ! p) \<noteq> None) (g_table g)"

definition prune_order :: "guest \<Rightarrow> (bytes \<times> nat) list \<Rightarrow> bool" where
  "prune_order g done \<longleftrightarrow> mset done = mset (exited g) \<and> sorted (map (\<lambda>(_, p). s_done (g_heap g ! p)) done)"

definition pruneExited :: "(bytes \<times> nat) list \<Rightarrow> guest \<Rightarrow> guest" where
  "pruneExited done g =
    (if length done \<le> keptExited then g
     else g\<lparr>g_table := filter (\<lambda>(k, _). k \<notin> fst ` set (take (length done - keptExited) done)) (g_table g)\<rparr>)"

text \<open>\<open>listSessions\<close>, sorted by id.\<close>

definition listSessions :: "guest \<Rightarrow> session_info list" where
  "listSessions g = sort_key si_ID
     (map (\<lambda>(_, p). info (g_heap g ! p)) (filter (\<lambda>(_, p). s_started (g_heap g ! p)) (g_table g)))"


subsection \<open>The steps of the guest\<close>

inductive gstep :: "guest \<Rightarrow> guest \<Rightarrow> bool" where
  g_reserve: "SessionIDOK sid \<Longrightarrow> reserve sid g = Some (p, g') \<Longrightarrow> gstep g g'"
| g_release: "p < length (g_heap g) \<Longrightarrow> \<not> s_started (g_heap g ! p) \<Longrightarrow> gstep g (release p g)"
| g_keep: "p < length (g_heap g) \<Longrightarrow> \<not> s_started (g_heap g ! p) \<Longrightarrow> gstep g (keep p tty g)"
| g_output: "p < length (g_heap g) \<Longrightarrow> s_started (g_heap g ! p) \<Longrightarrow> s_exit (g_heap g ! p) = None \<Longrightarrow>
    t = FrameStdout \<or> t = FrameStderr \<Longrightarrow> chunk \<noteq> [] \<Longrightarrow> length chunk \<le> 32768 \<Longrightarrow> gstep g (copy_out p t chunk g)"
| g_exit: "p < length (g_heap g) \<Longrightarrow> s_started (g_heap g ! p) \<Longrightarrow> s_exit (g_heap g ! p) = None \<Longrightarrow>
    gstep g (process_done p code g)"
| g_stamp: "p < length (g_heap g) \<Longrightarrow> s_exit (g_heap g ! p) \<noteq> None \<Longrightarrow> s_done (g_heap g ! p) = 0 \<Longrightarrow>
    gstep g (stamp_done p g)"
| g_prune: "prune_order g ds \<Longrightarrow> gstep g (pruneExited ds g)"
| g_attach: "gstep g (snd (attach req g))"
| g_begin: "i < length (g_atts g) \<Longrightarrow> a_phase (g_atts g ! i) = Begin \<Longrightarrow> gstep g (serve_begin i g)"
| g_round: "i < length (g_atts g) \<Longrightarrow> a_phase (g_atts g ! i) = Looping \<Longrightarrow> gstep g (serve_round i g)"
| g_send: "i < length (g_atts g) \<Longrightarrow> a_phase (g_atts g ! i) = Sending q e n w \<Longrightarrow> gstep g (serve_send i ok g)"
| g_wake: "i < length (g_atts g) \<Longrightarrow> can_wake i g \<Longrightarrow> gstep g (set_phase Looping i g)"
| g_gone: "i < length (g_atts g) \<Longrightarrow> a_phase (g_atts g ! i) = Waiting w \<Longrightarrow> gstep g (set_phase Ended i g)"
| g_check: "i < length (g_atts g) \<Longrightarrow> a_phase (g_atts g ! i) = Delivered \<Longrightarrow> gstep g (forget_check i g)"
| g_delete: "i < length (g_atts g) \<Longrightarrow> a_phase (g_atts g ! i) = Deleting \<Longrightarrow> gstep g (forget_delete i g)"

section \<open>The buffer\<close>

text \<open>A process's output as bytes tagged with the stream each was written to.\<close>

definition stream :: "(byte \<times> bytes) list \<Rightarrow> (byte \<times> byte) list" where
  "stream cs = concat (map (\<lambda>(t, c). map (Pair t) c) cs)"

lemma stream_simps [simp]:
  "stream [] = []" "stream ((t, c) # cs) = map (Pair t) c @ stream cs" "stream (cs @ ds) = stream cs @ stream ds"
  by (simp_all add: stream_def)

text \<open>The frames of consecutive chunks from a position on.\<close>

fun placed :: "nat \<Rightarrow> (byte \<times> bytes) list \<Rightarrow> kept_frame list" where
  "placed n [] = []"
| "placed n ((t, c) # cs) = \<lparr>kf_typ = t, kf_data = c, kf_pos = n\<rparr> # placed (n + length c) cs"

lemma placed_append [simp]: "placed n (cs @ ds) = placed n cs @ placed (n + length (stream cs)) ds"
  by (induction n cs rule: placed.induct) (simp_all add: add.assoc)

lemma placed_Nil [simp]: "placed n cs = [] \<longleftrightarrow> cs = []"
  by (cases "(n, cs)" rule: placed.cases) auto

lemma drop_oldest_placed:
  "\<exists>old new. cs = old @ new \<and>
     drop_oldest (length (stream cs)) (placed n cs) = (length (stream new), placed (n + length (stream old)) new) \<and>
     (new = [] \<longrightarrow> cs = []) \<and> (length (stream new) \<le> keptBytes \<or> length new = 1) \<and>
     (old \<noteq> [] \<longrightarrow> length (stream cs) > keptBytes)"
proof (induction n cs rule: placed.induct)
  case (2 n t c cs)
  show ?case
  proof (cases "cs = [] \<or> length (stream ((t, c) # cs)) \<le> keptBytes")
    case True
    then show ?thesis
      by - (rule exI [of _ "[]"], rule exI [of _ "(t, c) # cs"], cases cs; auto)
  next
    case False
    then obtain t' c' cs' where cs: "cs = (t', c') # cs'" by (cases cs) auto
    from 2 obtain old new where o: "cs = old @ new"
      "drop_oldest (length (stream cs)) (placed (n + length c) cs) = (length (stream new), placed (n + length c + length (stream old)) new)"
      "new = [] \<longrightarrow> cs = []" "length (stream new) \<le> keptBytes \<or> length new = 1" by blast
    have "drop_oldest (length (stream ((t, c) # cs))) (placed n ((t, c) # cs))
        = drop_oldest (length (stream cs)) (placed (n + length c) cs)"
      using False by (simp add: cs)
    moreover have "length (stream ((t, c) # cs)) > keptBytes" using False by simp
    moreover have "new \<noteq> []" using o(3) cs by auto
    ultimately show ?thesis
      using o by - (rule exI [of _ "(t, c) # old"], rule exI [of _ new], simp add: add.assoc)
  qed
qed simp

text \<open>What a session holds of an output: all of it but an old part, which is empty until the output
  passes \<open>keptBytes\<close>.\<close>

definition buffered :: "(byte \<times> bytes) list \<Rightarrow> session \<Rightarrow> bool" where
  "buffered all s \<longleftrightarrow> (\<exists>old new. all = old @ new \<and>
     s_frames s = placed (length (stream old)) new \<and> s_bytes s = length (stream new) \<and>
     s_total s = length (stream all) \<and> (new = [] \<longrightarrow> all = []) \<and> s_bytes s \<le> keptBytes \<and>
     (old \<noteq> [] \<longrightarrow> s_total s > keptBytes))"

lemma buffered_write:
  assumes "buffered all s" "length p \<le> keptBytes"
  shows "buffered (all @ [(t, p)]) (session_write t p s)"
proof -
  obtain old new where b: "all = old @ new" "s_frames s = placed (length (stream old)) new"
    "s_bytes s = length (stream new)" "s_total s = length (stream all)" "old \<noteq> [] \<longrightarrow> s_total s > keptBytes"
    using assms(1) by (auto simp: buffered_def)
  obtain old' new' where d: "new @ [(t, p)] = old' @ new'"
     "drop_oldest (length (stream (new @ [(t, p)]))) (placed (length (stream old)) (new @ [(t, p)]))
        = (length (stream new'), placed (length (stream old) + length (stream old')) new')"
     "new' \<noteq> []" "length (stream new') \<le> keptBytes \<or> length new' = 1"
     "old' \<noteq> [] \<longrightarrow> length (stream (new @ [(t, p)])) > keptBytes"
    using drop_oldest_placed [of "new @ [(t, p)]" "length (stream old)"]
    by (metis append_is_Nil_conv not_Cons_self2)
  have le: "length (stream new') \<le> keptBytes"
  proof (cases "length (stream new') \<le> keptBytes")
    case False
    then obtain x where "new' = [x]" using d(4) by (auto simp: length_Suc_conv)
    then show ?thesis using d(1) assms(2) by auto
  qed
  have w: "s_frames (session_write t p s) = placed (length (stream (old @ old'))) new'"
    "s_bytes (session_write t p s) = length (stream new')"
    "s_total (session_write t p s) = s_total s + length p"
    using d(2) b by (simp_all add: session_write_def notify_def)
  show ?thesis unfolding buffered_def
  proof (intro exI conjI)
    show "all @ [(t, p)] = (old @ old') @ new'" using b(1) d(1) by simp
    show "s_total (session_write t p s) = length (stream (all @ [(t, p)]))" by (simp add: w(3) b(4))
    show "old @ old' \<noteq> [] \<longrightarrow> keptBytes < s_total (session_write t p s)"
      using b d(5) by (auto simp: w)
  qed (use w b d le in simp_all)
qed

lemma pending_placed:
  "stream (map frame_of (pending_of pos (placed n cs))) = drop (pos - n) (stream cs)"
proof (induction n cs rule: placed.induct)
  case (2 n t c cs)
  have "pending_of pos (placed n ((t, c) # cs)) =
    (if n + length c \<le> pos then []
     else if n < pos then [\<lparr>kf_typ = t, kf_data = drop (pos - n) c, kf_pos = pos\<rparr>]
     else [\<lparr>kf_typ = t, kf_data = c, kf_pos = n\<rparr>]) @ pending_of pos (placed (n + length c) cs)"
    by (simp add: pending_of_def)
  then show ?case using 2 by (auto simp: frame_of_def drop_map)
qed (simp add: pending_of_def)

lemma dropped_placed: "cs \<noteq> [] \<Longrightarrow> dropped_of pos (placed n cs) = n - pos"
  by (cases "(n, cs)" rule: placed.cases) (auto simp: dropped_of_def)

text \<open>
  The output a round sends is everything from the connection's position on that the session still
  holds, and the count is exactly what lies between the two.
\<close>

lemma round_exact:
  assumes "buffered all s"
  shows "stream (map frame_of (pending_of pos (s_frames s))) = drop (pos + dropped_of pos (s_frames s)) (stream all)"
    and "pos + dropped_of pos (s_frames s) \<le> max pos (s_total s)"
    and "s_total s \<le> keptBytes \<Longrightarrow> dropped_of pos (s_frames s) = 0"
proof -
  obtain old new where b: "all = old @ new" "s_frames s = placed (length (stream old)) new"
    "s_total s = length (stream all)" "new = [] \<longrightarrow> all = []" "old \<noteq> [] \<longrightarrow> s_total s > keptBytes"
    using assms by (auto simp: buffered_def)
  have d: "dropped_of pos (s_frames s) = length (stream old) - pos"
    using b by (cases "new = []") (simp_all add: dropped_placed, simp add: dropped_of_def)
  show "stream (map frame_of (pending_of pos (s_frames s))) = drop (pos + dropped_of pos (s_frames s)) (stream all)"
    using b(1) by (cases "pos \<le> length (stream old)") (simp_all add: d, simp_all add: b(2) pending_placed)
  show "pos + dropped_of pos (s_frames s) \<le> max pos (s_total s)"
    using b(1,3) unfolding d by simp
  show "s_total s \<le> keptBytes \<Longrightarrow> dropped_of pos (s_frames s) = 0"
    using b(5) by (cases "old = []") (simp_all add: d)
qed

section \<open>What an attached connection has been given\<close>

definition queue_of :: "attachment \<Rightarrow> (byte \<times> bytes) list" where
  "queue_of a = (case a_phase a of Sending q _ _ _ \<Rightarrow> q | _ \<Rightarrow> [])"

definition pos_end :: "attachment \<Rightarrow> nat" where
  "pos_end a = (case a_phase a of Sending _ _ n _ \<Rightarrow> max (a_pos a) n | _ \<Rightarrow> a_pos a)"

text \<open>The notice of dropped bytes that a connection's output opens with.\<close>

definition notice :: "attachment \<Rightarrow> (byte \<times> bytes) list" where
  "notice a = (if a_off a < a_from a then [dropped_frame (a_from a - a_off a)] else [])"

definition finished_ok :: "(byte \<times> bytes) list \<Rightarrow> session \<Rightarrow> attachment \<Rightarrow> bool" where
  "finished_ok all s a \<longleftrightarrow> (\<exists>fs c. list_all output_frame fs \<and> a_sent a = notice a @ fs @ [exit_frame c] \<and>
     s_exit s = Some c \<and> subseq (stream fs) (drop (a_from a) (stream all)) \<and>
     (\<not> a_gap a \<longrightarrow> stream fs = drop (a_from a) (stream all)))"

definition running_ok :: "(byte \<times> bytes) list \<Rightarrow> attachment \<Rightarrow> bool" where
  "running_ok all a \<longleftrightarrow> (\<exists>fs. list_all output_frame fs \<and> a_sent a @ queue_of a = notice a @ fs \<and>
     subseq (stream fs) (drop (a_from a) (take (pos_end a) (stream all))) \<and>
     (\<not> a_gap a \<longrightarrow> stream fs = drop (a_from a) (take (pos_end a) (stream all)))) \<and>
     a_from a \<le> pos_end a \<and> (pos_end a \<le> length (stream all) \<or> a_from a = pos_end a)"

definition broken_ok :: "(byte \<times> bytes) list \<Rightarrow> attachment \<Rightarrow> bool" where
  "broken_ok all a \<longleftrightarrow> (\<exists>fs rest. list_all output_frame fs \<and> a_sent a @ rest = notice a @ fs \<and>
     (\<not> a_gap a \<longrightarrow> prefix (stream fs) (drop (a_from a) (stream all))))"

definition output_ok :: "(byte \<times> bytes) list \<Rightarrow> session \<Rightarrow> attachment \<Rightarrow> bool" where
  "output_ok all s a \<longleftrightarrow> (case a_phase a of
      Ended \<Rightarrow> finished_ok all s a \<or> broken_ok all a
    | Delivered \<Rightarrow> finished_ok all s a
    | Deleting \<Rightarrow> finished_ok all s a
    | _ \<Rightarrow> running_ok all a)"

text \<open>What a connection in the middle of a round, or asleep, knows of its session.\<close>

definition seen_ok :: "(byte \<times> bytes) list \<Rightarrow> session \<Rightarrow> attachment \<Rightarrow> bool" where
  "seen_ok all s a \<longleftrightarrow> (case a_phase a of
      Sending q e n w \<Rightarrow> n \<le> length (stream all) \<and> (e \<noteq> None \<longrightarrow> s_exit s = e \<and> n = length (stream all)) \<and>
        w \<le> s_changed s \<and> (w = s_changed s \<longrightarrow> n = length (stream all) \<and> s_exit s = e \<and> s_gen s = a_gen a)
    | Waiting w \<Rightarrow> w \<le> s_changed s \<and>
        (w = s_changed s \<longrightarrow> length (stream all) \<le> a_pos a \<and> s_exit s = None \<and> s_gen s = a_gen a)
    | _ \<Rightarrow> True)"

definition first_ok :: "attachment \<Rightarrow> bool" where
  "first_ok a \<longleftrightarrow> (a_first a \<longrightarrow> a_from a = a_off a \<and> a_pos a = a_off a \<and> a_sent a = [] \<and> \<not> a_gap a \<and>
       (a_phase a = Begin \<or> a_phase a = Looping \<or> a_phase a = Ended)) \<and> (a_phase a = Begin \<longrightarrow> a_first a)"

definition whole_ok :: "(byte \<times> bytes) list \<Rightarrow> attachment \<Rightarrow> bool" where
  "whole_ok all a \<longleftrightarrow> (length (stream all) \<le> keptBytes \<longrightarrow> \<not> a_gap a \<and> a_from a = a_off a)"

definition att_ok :: "(byte \<times> bytes) list \<Rightarrow> session \<Rightarrow> attachment \<Rightarrow> bool" where
  "att_ok all s a \<longleftrightarrow> output_ok all s a \<and> seen_ok all s a \<and> first_ok a \<and> whole_ok all a \<and> a_gen a \<le> s_gen s"

text \<open>What a session's steps keep for the connections that are attached to it.\<close>

definition session_later :: "(byte \<times> bytes) list \<Rightarrow> session \<Rightarrow> (byte \<times> bytes) list \<Rightarrow> session \<Rightarrow> bool" where
  "session_later all s all' s' \<longleftrightarrow> (\<exists>x. all' = all @ x) \<and> (s_exit s \<noteq> None \<longrightarrow> all' = all \<and> s_exit s' = s_exit s) \<and>
     s_gen s \<le> s_gen s' \<and> s_changed s \<le> s_changed s' \<and>
     (s_changed s' = s_changed s \<longrightarrow> s_gen s' = s_gen s \<and> all' = all \<and> s_exit s' = s_exit s)"

lemma finished_later: "session_later all s all' s' \<Longrightarrow> finished_ok all s a \<Longrightarrow> finished_ok all' s' a"
  by (auto simp: session_later_def finished_ok_def)

lemma broken_later: "session_later all s all' s' \<Longrightarrow> broken_ok all a \<Longrightarrow> broken_ok all' a"
  unfolding session_later_def broken_ok_def by (fastforce simp: drop_append intro: prefix_prefix)

lemma running_later: "session_later all s all' s' \<Longrightarrow> running_ok all a \<Longrightarrow> running_ok all' a"
  unfolding session_later_def running_ok_def by auto

lemma seen_later: "session_later all s all' s' \<Longrightarrow> seen_ok all s a \<Longrightarrow> seen_ok all' s' a"
  unfolding session_later_def seen_ok_def by (cases "a_phase a") auto

lemma att_later: "session_later all s all' s' \<Longrightarrow> att_ok all s a \<Longrightarrow> att_ok all' s' a"
proof -
  assume l: "session_later all s all' s'" and a: "att_ok all s a"
  have "output_ok all' s' a"
    using a finished_later [OF l] broken_later [OF l] running_later [OF l]
    by (auto simp: att_ok_def output_ok_def split: phase.splits)
  moreover have "whole_ok all' a" "a_gen a \<le> s_gen s'"
    using a l by (auto simp: att_ok_def whole_ok_def session_later_def)
  ultimately show ?thesis using a seen_later [OF l] by (simp add: att_ok_def)
qed

lemma later_refl [simp]: "session_later all s all s"
  by (simp add: session_later_def)

lemma later_write: "s_exit s = None \<Longrightarrow> session_later all s (all @ [(t, p)]) (session_write t p s)"
  by (simp add: session_later_def session_write_def notify_def Let_def split: prod.split)

lemma later_finish: "s_exit s = None \<Longrightarrow> session_later all s all (session_finish c s)"
  by (simp add: session_later_def session_finish_def notify_def)

text \<open>The steps of a connection.\<close>

definition chunks_ok :: "(byte \<times> bytes) list \<Rightarrow> bool" where
  "chunks_ok cs \<longleftrightarrow> list_all (\<lambda>(t, c). (t = FrameStdout \<or> t = FrameStderr) \<and> length c \<le> 32768) cs"

lemma pending_output: "chunks_ok cs \<Longrightarrow> list_all output_frame (map frame_of (pending_of pos (placed n cs)))"
  by (induction n cs rule: placed.induct)
    (auto simp: pending_of_def chunks_ok_def frame_of_def output_frame_def frame_fits_def MaxFrame_def)

lemma round_output:
  assumes "buffered all s" "chunks_ok all"
  shows "list_all output_frame (map frame_of (pending_of pos (s_frames s)))"
proof -
  obtain old new where "all = old @ new" "s_frames s = placed (length (stream old)) new"
    using assms(1) by (auto simp: buffered_def)
  then show ?thesis using assms(2) pending_output [of new] by (simp add: chunks_ok_def)
qed

lemma running_broken: "running_ok all a \<Longrightarrow> broken_ok all (a\<lparr>a_phase := Ended\<rparr>)"
proof -
  assume "running_ok all a"
  then obtain fs where fs: "list_all output_frame fs" "a_sent a @ queue_of a = notice a @ fs"
    "\<not> a_gap a \<longrightarrow> stream fs = drop (a_from a) (take (pos_end a) (stream all))"
    by (auto simp: running_ok_def)
  then have "\<not> a_gap a \<longrightarrow> prefix (stream fs) (drop (a_from a) (stream all))"
    by (simp add: drop_take take_is_prefix)
  with fs(1,2) show ?thesis
    unfolding broken_ok_def by (intro exI [of _ fs] exI [of _ "queue_of a"]) (simp add: notice_def)
qed

lemma att_ended:
  assumes "att_ok all s a" "a_phase a = Looping \<or> (\<exists>w. a_phase a = Waiting w) \<or> (\<exists>q e n w. a_phase a = Sending q e n w)"
    "pos = a_pos a \<or> \<not> a_first a"
  shows "att_ok all s (a\<lparr>a_pos := pos, a_phase := Ended\<rparr>)"
proof -
  have "running_ok all a" using assms by (auto simp: att_ok_def output_ok_def)
  then have "broken_ok all (a\<lparr>a_pos := pos, a_phase := Ended\<rparr>)"
    by (auto dest: running_broken simp: broken_ok_def notice_def)
  then show ?thesis
    using assms by (auto simp: att_ok_def output_ok_def seen_ok_def first_ok_def whole_ok_def)
qed

lemma subseq_drop: "subseq (drop n xs) xs"
  by (rule suffix_imp_subseq) (rule suffix_drop)

lemma drop_take_drop: "n \<le> m \<Longrightarrow> m \<le> length xs \<or> n = m \<Longrightarrow> drop n (take m xs) @ drop m xs = drop n xs"
proof -
  assume a: "n \<le> m" "m \<le> length xs \<or> n = m"
  show ?thesis
  proof (cases "m \<le> length xs")
    case True
    then have "drop n (take m xs @ drop m xs) = drop n (take m xs) @ drop m xs"
      using a by (subst drop_append) simp
    then show ?thesis by simp
  next
    case False
    then show ?thesis using a by simp
  qed
qed

lemma att_round:
  assumes a: "att_ok all s a" and ph: "a_phase a = Looping" and b: "buffered all s" "chunks_ok all"
  shows "att_ok all s (round_of s a)"
proof (cases "s_gen s = a_gen a")
  case False
  then show ?thesis using att_ended [OF a, of "a_pos a"] ph by (simp add: round_of_def)
next
  case True
  define d where "d = dropped_of (a_pos a) (s_frames s)"
  define pend where "pend = map frame_of (pending_of (a_pos a) (s_frames s))"
  define a' where "a' = round_of s a"
  have tot: "s_total s = length (stream all)" using b(1) by (auto simp: buffered_def)
  note ex = round_exact [OF b(1), of "a_pos a", folded d_def pend_def]
  have po: "list_all output_frame pend" unfolding pend_def by (rule round_output [OF b])
  have a': "a_phase a' = Sending (round_frames (a_first a) (a_pos a) s) (s_exit s) (s_total s) (s_changed s)"
    "a_first a' = False" "a_from a' = (if a_first a then a_from a + d else a_from a)"
    "a_gap a' = (a_gap a \<or> \<not> a_first a \<and> d > 0)" "a_sent a' = a_sent a" "a_pos a' = a_pos a"
    "a_off a' = a_off a" "a_gen a' = a_gen a"
    using True by (simp_all add: a'_def round_of_def d_def)
  have q: "queue_of a' = (if a_first a \<and> d > 0 then [dropped_frame d] else []) @ pend"
    by (simp add: queue_of_def a' round_frames_def d_def pend_def)
  have pe: "pos_end a' = max (a_pos a) (length (stream all))" by (simp add: pos_end_def a' tot)
  from a ph have r: "running_ok all a" "first_ok a" "whole_ok all a"
    by (simp_all add: att_ok_def output_ok_def)
  then have le: "a_from a \<le> a_pos a" "a_pos a \<le> length (stream all) \<or> a_from a = a_pos a"
    by (simp_all add: running_ok_def pos_end_def ph)
  have "running_ok all a'"
  proof (cases "a_first a")
    case True
    then have f: "a_from a = a_off a" "a_pos a = a_off a" "a_sent a = []" "\<not> a_gap a"
      using r(2) by (simp_all add: first_ok_def)
    have "\<exists>fs. list_all output_frame fs \<and> a_sent a' @ queue_of a' = notice a' @ fs \<and>
        subseq (stream fs) (drop (a_from a') (take (pos_end a') (stream all))) \<and>
        (\<not> a_gap a' \<longrightarrow> stream fs = drop (a_from a') (take (pos_end a') (stream all)))"
      using f ex(1) po True by (intro exI [of _ pend]) (auto simp: q pe a' notice_def)
    then show ?thesis using ex(2) f True by (auto simp: running_ok_def pe a' tot)
  next
    case False
    obtain fs where fs: "list_all output_frame fs" "a_sent a = notice a @ fs"
      "\<not> a_gap a \<longrightarrow> stream fs = drop (a_from a) (take (a_pos a) (stream all))"
      "subseq (stream fs) (drop (a_from a) (take (a_pos a) (stream all)))"
      using r(1) by (auto simp: running_ok_def queue_of_def pos_end_def ph)
    have "subseq (stream pend) (drop (a_pos a) (stream all))"
      unfolding ex(1) by (metis add.commute drop_drop subseq_drop)
    then have sub: "subseq (stream fs @ stream pend) (drop (a_from a) (stream all))"
      using list_emb_append_mono [OF fs(4)] drop_take_drop [OF le] by metis
    have "\<exists>fs. list_all output_frame fs \<and> a_sent a' @ queue_of a' = notice a' @ fs \<and>
        subseq (stream fs) (drop (a_from a') (take (pos_end a') (stream all))) \<and>
        (\<not> a_gap a' \<longrightarrow> stream fs = drop (a_from a') (take (pos_end a') (stream all)))"
      using False fs ex(1) po drop_take_drop [OF le] sub
      by (intro exI [of _ "fs @ pend"]) (auto simp: q pe a' notice_def)
    then show ?thesis using le False by (auto simp: running_ok_def pe a')
  qed
  then show ?thesis
    unfolding a'_def [symmetric] using a r(2,3) ex(3) tot True
    by (auto simp: att_ok_def output_ok_def seen_ok_def first_ok_def whole_ok_def a')
qed

lemma att_send:
  assumes a: "att_ok all s a" and ph: "a_phase a = Sending q e n w"
  shows "att_ok all s (send_of ok a)"
proof -
  from a ph have r: "running_ok all a" "first_ok a" "whole_ok all a" "seen_ok all s a" "a_gen a \<le> s_gen s"
    by (simp_all add: att_ok_def output_ok_def)
  have nf: "\<not> a_first a" using r(2) ph by (simp add: first_ok_def)
  obtain fs where fs: "list_all output_frame fs" "a_sent a @ q = notice a @ fs"
    "\<not> a_gap a \<longrightarrow> stream fs = drop (a_from a) (take (max (a_pos a) n) (stream all))"
    "subseq (stream fs) (drop (a_from a) (take (max (a_pos a) n) (stream all)))"
    "a_from a \<le> max (a_pos a) n" "max (a_pos a) n \<le> length (stream all) \<or> a_from a = max (a_pos a) n"
    using r(1) by (auto simp: running_ok_def queue_of_def pos_end_def ph)
  note ended = att_ended [OF a]
  show ?thesis
  proof (cases q)
    case (Cons f q')
    show ?thesis
    proof (cases ok)
      case True
      then have "send_of ok a = a\<lparr>a_phase := Sending q' e n w, a_sent := a_sent a @ [f]\<rparr>"
        by (simp add: send_of_def ph Cons)
      moreover have "running_ok all (a\<lparr>a_phase := Sending q' e n w, a_sent := a_sent a @ [f]\<rparr>)"
        using fs Cons by (auto simp: running_ok_def queue_of_def pos_end_def notice_def)
      ultimately show ?thesis
        using r nf ph by (simp add: att_ok_def output_ok_def seen_ok_def first_ok_def whole_ok_def)
    next
      case False
      then show ?thesis using ended [of "a_pos a"] ph Cons by (simp add: send_of_def)
    qed
  next
    case Nil
    note rest = r nf ph
    show ?thesis
    proof (cases e)
      case None
      have "running_ok all (a\<lparr>a_pos := max (a_pos a) n, a_phase := Waiting w\<rparr>)"
        using fs Nil by (auto simp: running_ok_def queue_of_def pos_end_def notice_def)
      then show ?thesis
        using rest None Nil
        by (simp add: send_of_def Let_def att_ok_def output_ok_def seen_ok_def first_ok_def whole_ok_def)
    next
      case (Some c)
      then have n: "s_exit s = Some c" "n = length (stream all)" using r(4) ph by (auto simp: seen_ok_def)
      show ?thesis
      proof (cases ok)
        case True
        have "finished_ok all s (a\<lparr>a_pos := max (a_pos a) n, a_phase := Delivered, a_sent := a_sent a @ [exit_frame c]\<rparr>)"
          using fs n Nil by (auto simp: finished_ok_def notice_def)
        then show ?thesis
          using rest True Some Nil
          by (simp add: send_of_def Let_def att_ok_def output_ok_def seen_ok_def first_ok_def whole_ok_def)
      next
        case False
        then show ?thesis using ended [of "max (a_pos a) n"] nf ph Some Nil by (simp add: send_of_def Let_def)
      qed
    qed
  qed
qed

section \<open>The invariant of the guest\<close>

definition heap_ok :: "guest \<Rightarrow> bool" where
  "heap_ok g \<longleftrightarrow> length (g_all g) = length (g_heap g) \<and>
     (\<forall>p < length (g_heap g). buffered (g_all g ! p) (g_heap g ! p) \<and> chunks_ok (g_all g ! p))"

definition atts_ok :: "guest \<Rightarrow> bool" where
  "atts_ok g \<longleftrightarrow> (\<forall>i < length (g_atts g). let a = g_atts g ! i in
     a_ptr a < length (g_heap g) \<and> att_ok (g_all g ! a_ptr a) (g_heap g ! a_ptr a) a)"

definition table_ok :: "guest \<Rightarrow> bool" where
  "table_ok g \<longleftrightarrow> distinct (map fst (g_table g)) \<and>
     (\<forall>(sid, p) \<in> set (g_table g). p < length (g_heap g) \<and> s_id (g_heap g ! p) = sid)"

text \<open>Two connections of one session that have begun have different generations.\<close>

definition gens_ok :: "guest \<Rightarrow> bool" where
  "gens_ok g \<longleftrightarrow> (\<forall>i < length (g_atts g). \<forall>j < length (g_atts g). i \<noteq> j \<longrightarrow>
     a_ptr (g_atts g ! i) = a_ptr (g_atts g ! j) \<longrightarrow> a_phase (g_atts g ! i) \<noteq> Begin \<longrightarrow>
     a_phase (g_atts g ! j) \<noteq> Begin \<longrightarrow> a_gen (g_atts g ! i) \<noteq> a_gen (g_atts g ! j))"

definition guest_ok :: "guest \<Rightarrow> bool" where
  "guest_ok g \<longleftrightarrow> heap_ok g \<and> atts_ok g \<and> table_ok g \<and> gens_ok g"

text \<open>A step of one session: its connections, the table and the other sessions stay sound.\<close>

lemma guest_ok_session:
  assumes g: "guest_ok g" "p < length (g_heap g)"
    and s': "session_later (g_all g ! p) (g_heap g ! p) all' s'" "buffered all' s'" "chunks_ok all'"
      "s_id s' = s_id (g_heap g ! p)"
  shows "guest_ok (g\<lparr>g_heap := (g_heap g)[p := s'], g_all := (g_all g)[p := all']\<rparr>)"
proof -
  have len: "length (g_all g) = length (g_heap g)" using g(1) by (simp add: guest_ok_def heap_ok_def)
  have "att_ok ((g_all g)[p := all'] ! a_ptr a) ((g_heap g)[p := s'] ! a_ptr a) a"
    if "att_ok (g_all g ! a_ptr a) (g_heap g ! a_ptr a) a" "a_ptr a < length (g_heap g)" for a
    using that att_later [OF s'(1)] len by (cases "a_ptr a = p") (simp_all add: nth_list_update)
  then have "atts_ok (g\<lparr>g_heap := (g_heap g)[p := s'], g_all := (g_all g)[p := all']\<rparr>)"
    using g(1) by (simp add: guest_ok_def atts_ok_def Let_def)
  moreover have "heap_ok (g\<lparr>g_heap := (g_heap g)[p := s'], g_all := (g_all g)[p := all']\<rparr>)"
    using g s' len by (simp add: guest_ok_def heap_ok_def nth_list_update)
  moreover have "table_ok (g\<lparr>g_heap := (g_heap g)[p := s'], g_all := (g_all g)[p := all']\<rparr>)"
    using g s'(4) unfolding guest_ok_def table_ok_def by (fastforce simp: nth_list_update)
  ultimately show ?thesis using g(1) by (simp add: guest_ok_def gens_ok_def)
qed

lemma guest_ok_att:
  assumes g: "guest_ok g" "i < length (g_atts g)"
    and a': "a_ptr a' = a_ptr (g_atts g ! i)"
      "att_ok (g_all g ! a_ptr a') (g_heap g ! a_ptr a') a'"
      "\<And>j. j < length (g_atts g) \<Longrightarrow> j \<noteq> i \<Longrightarrow> a_ptr (g_atts g ! j) = a_ptr a' \<Longrightarrow>
         a_phase (g_atts g ! j) \<noteq> Begin \<Longrightarrow> a_gen (g_atts g ! j) \<noteq> a_gen a'"
  shows "guest_ok (g\<lparr>g_atts := (g_atts g)[i := a']\<rparr>)"
proof -
  have "atts_ok (g\<lparr>g_atts := (g_atts g)[i := a']\<rparr>)"
    using g a'(1,2) unfolding guest_ok_def atts_ok_def Let_def by (auto simp: nth_list_update)
  moreover have "gens_ok (g\<lparr>g_atts := (g_atts g)[i := a']\<rparr>)"
    unfolding gens_ok_def
  proof (intro allI impI)
    let ?bs = "g_atts (g\<lparr>g_atts := (g_atts g)[i := a']\<rparr>)"
    fix j k
    assume h: "j < length ?bs" "k < length ?bs" "j \<noteq> k" "a_ptr (?bs ! j) = a_ptr (?bs ! k)"
      "a_phase (?bs ! j) \<noteq> Begin" "a_phase (?bs ! k) \<noteq> Begin"
    have old: "a_gen (g_atts g ! j) \<noteq> a_gen (g_atts g ! k)"
      if "j \<noteq> i" "k \<noteq> i" using that h g(1) by (simp add: guest_ok_def gens_ok_def)
    show "a_gen (?bs ! j) \<noteq> a_gen (?bs ! k)"
      using h g(2) old a'(3) [of j] a'(3) [of k] by (cases "j = i"; cases "k = i") auto
  qed
  ultimately show ?thesis using g(1) by (simp add: guest_ok_def heap_ok_def table_ok_def)
qed

lemma upd_att_ok:
  assumes "guest_ok g" "i < length (g_atts g)" "a_phase (g_atts g ! i) \<noteq> Begin"
    "a_ptr (f (g_atts g ! i)) = a_ptr (g_atts g ! i)" "a_gen (f (g_atts g ! i)) = a_gen (g_atts g ! i)"
    "att_ok (g_all g ! a_ptr (g_atts g ! i)) (g_heap g ! a_ptr (g_atts g ! i)) (f (g_atts g ! i))"
  shows "guest_ok (upd_att i f g)"
  unfolding upd_att_def
proof (rule guest_ok_att)
  fix j assume "j < length (g_atts g)" "j \<noteq> i" "a_ptr (g_atts g ! j) = a_ptr (f (g_atts g ! i))"
    "a_phase (g_atts g ! j) \<noteq> Begin"
  then show "a_gen (g_atts g ! j) \<noteq> a_gen (f (g_atts g ! i))"
    using assms(1-5) unfolding guest_ok_def gens_ok_def by metis
qed (use assms in simp_all)

lemma guest_ok_filter: "guest_ok g \<Longrightarrow> guest_ok (g\<lparr>g_table := filter P (g_table g)\<rparr>)"
  by (auto simp: guest_ok_def heap_ok_def atts_ok_def table_ok_def gens_ok_def distinct_map_filter)

lemma guest_ok_delete: "guest_ok g \<Longrightarrow> guest_ok (delete_id sid p g)"
  by (simp add: delete_id_def guest_ok_filter)

lemma delete_id_fields [simp]:
  "g_atts (delete_id sid p g) = g_atts g" "g_heap (delete_id sid p g) = g_heap g" "g_all (delete_id sid p g) = g_all g"
  by (simp_all add: delete_id_def)

lemma att_ok_new: "att_ok all s (new_attachment p off)"
  by (simp add: att_ok_def output_ok_def running_ok_def seen_ok_def first_ok_def whole_ok_def
      new_attachment_def queue_of_def pos_end_def notice_def)

lemma guest_ok_new_att:
  "guest_ok g \<Longrightarrow> p < length (g_heap g) \<Longrightarrow> guest_ok (g\<lparr>g_atts := g_atts g @ [new_attachment p off]\<rparr>)"
proof -
  assume g: "guest_ok g" "p < length (g_heap g)"
  have ph: "a_phase (new_attachment q off) = Begin" "a_ptr (new_attachment q off) = q" for q
    by (simp_all add: new_attachment_def)
  have "atts_ok (g\<lparr>g_atts := g_atts g @ [new_attachment p off]\<rparr>)"
    using g att_ok_new ph by (auto simp: guest_ok_def atts_ok_def Let_def nth_append less_Suc_eq)
  moreover have "gens_ok (g\<lparr>g_atts := g_atts g @ [new_attachment p off]\<rparr>)"
    using g(1) ph by (simp add: guest_ok_def gens_ok_def nth_append less_Suc_eq)
  ultimately show ?thesis using g(1) by (simp add: guest_ok_def heap_ok_def table_ok_def)
qed

lemma att_at: "guest_ok g \<Longrightarrow> i < length (g_atts g) \<Longrightarrow>
    a_ptr (g_atts g ! i) < length (g_heap g) \<and>
    att_ok (g_all g ! a_ptr (g_atts g ! i)) (g_heap g ! a_ptr (g_atts g ! i)) (g_atts g ! i)"
  by (auto simp: guest_ok_def atts_ok_def Let_def)

lemma session_at: "guest_ok g \<Longrightarrow> p < length (g_heap g) \<Longrightarrow> buffered (g_all g ! p) (g_heap g ! p) \<and> chunks_ok (g_all g ! p)"
  by (auto simp: guest_ok_def heap_ok_def)

lemma guest_ok_reserve: "guest_ok g \<Longrightarrow> reserve sid g = Some (p, g') \<Longrightarrow> guest_ok g'"
proof -
  assume g: "guest_ok g" and r: "reserve sid g = Some (p, g')"
  then have g': "g' = g\<lparr>g_heap := g_heap g @ [new_session sid], g_table := (sid, length (g_heap g)) # g_table g,
      g_all := g_all g @ [[]]\<rparr>" and new: "sid \<notin> fst ` set (g_table g)"
    by (auto simp: reserve_def Let_def map_of_eq_None_iff split: option.splits)
  have len: "length (g_all g) = length (g_heap g)" using g by (simp add: guest_ok_def heap_ok_def)
  have "buffered [] (new_session sid)" "chunks_ok []"
    by (simp_all add: buffered_def new_session_def keptBytes_def chunks_ok_def)
  then have "heap_ok g'"
    using g len by (auto simp: g' guest_ok_def heap_ok_def nth_append less_Suc_eq)
  moreover have "atts_ok g'"
    using g len by (auto simp: g' guest_ok_def atts_ok_def Let_def nth_append)
  moreover have "table_ok g'"
    using g new by (auto simp: g' guest_ok_def table_ok_def nth_append new_session_def)
  ultimately show ?thesis using g by (simp add: g' guest_ok_def gens_ok_def)
qed

lemma upd_session_ok:
  assumes "guest_ok g" "p < length (g_heap g)"
    "session_later (g_all g ! p) (g_heap g ! p) (g_all g ! p) (f (g_heap g ! p))"
    "buffered (g_all g ! p) (f (g_heap g ! p))" "s_id (f (g_heap g ! p)) = s_id (g_heap g ! p)"
  shows "guest_ok (upd_session p f g)"
  using guest_ok_session [OF assms(1-4) _ assms(5)] session_at [OF assms(1,2)] by (simp add: upd_session_def)

lemma buffered_cong: "s_frames s = s_frames s' \<Longrightarrow> s_bytes s = s_bytes s' \<Longrightarrow> s_total s = s_total s' \<Longrightarrow>
    buffered all s \<Longrightarrow> buffered all s'"
  by (simp add: buffered_def)

lemma guest_ok_keep: "guest_ok g \<Longrightarrow> p < length (g_heap g) \<Longrightarrow> guest_ok (keep p tty g)"
proof -
  assume g: "guest_ok g" "p < length (g_heap g)"
  let ?f = "\<lambda>s. s\<lparr>s_started := True, s_tty := tty\<rparr>"
  have "guest_ok (upd_session p ?f g)"
    using g session_at [OF g] by (intro upd_session_ok) (simp_all add: session_later_def buffered_def)
  then have "guest_ok ((upd_session p ?f g)\<lparr>g_atts := g_atts (upd_session p ?f g) @ [new_attachment p 0]\<rparr>)"
    using g(2) by (intro guest_ok_new_att) (simp_all add: upd_session_def)
  then show ?thesis by (simp add: keep_def upd_session_def)
qed

lemma guest_ok_output:
  assumes "guest_ok g" "p < length (g_heap g)" "s_exit (g_heap g ! p) = None"
    "t = FrameStdout \<or> t = FrameStderr" "length chunk \<le> 32768"
  shows "guest_ok (copy_out p t chunk g)"
proof -
  have b: "buffered (g_all g ! p @ [(t, chunk)]) (session_write t chunk (g_heap g ! p))"
    using buffered_write session_at [OF assms(1,2)] assms(5) by (simp add: keptBytes_def)
  have c: "chunks_ok (g_all g ! p @ [(t, chunk)])"
    using session_at [OF assms(1,2)] assms(4,5) by (auto simp: chunks_ok_def)
  have "s_id (session_write t chunk (g_heap g ! p)) = s_id (g_heap g ! p)"
    by (simp add: session_write_def notify_def Let_def split: prod.split)
  from guest_ok_session [OF assms(1,2) later_write [OF assms(3)] b c this]
  show ?thesis by (simp add: copy_out_def upd_session_def)
qed

lemma guest_ok_begin:
  assumes g: "guest_ok g" "i < length (g_atts g)" "a_phase (g_atts g ! i) = Begin"
  shows "guest_ok (serve_begin i g)"
proof -
  let ?p = "a_ptr (g_atts g ! i)"
  let ?n = "Suc (s_gen (g_heap g ! ?p))"
  let ?s = "notify ((g_heap g ! ?p)\<lparr>s_gen := ?n\<rparr>)"
  let ?a = "(g_atts g ! i)\<lparr>a_gen := ?n, a_phase := Looping\<rparr>"
  let ?g = "upd_session ?p (\<lambda>s. notify (s\<lparr>s_gen := ?n\<rparr>)) g"
  have p: "?p < length (g_heap g)" and ok: "att_ok (g_all g ! ?p) (g_heap g ! ?p) (g_atts g ! i)"
    using att_at [OF g(1,2)] by auto
  have later: "session_later (g_all g ! ?p) (g_heap g ! ?p) (g_all g ! ?p) ?s"
    by (simp add: session_later_def notify_def)
  have g1: "guest_ok ?g"
    using g(1) p later session_at [OF g(1) p] by (intro upd_session_ok) (simp_all add: notify_def buffered_def)
  have "att_ok (g_all g ! ?p) ?s (g_atts g ! i)" by (rule att_later [OF later ok])
  then have a: "att_ok (g_all g ! ?p) ?s ?a"
    using g(3) by (simp add: att_ok_def output_ok_def running_ok_def seen_ok_def first_ok_def whole_ok_def
        queue_of_def pos_end_def notice_def notify_def)
  have fresh: "a_gen (g_atts g ! j) \<noteq> ?n" if "j < length (g_atts g)" "a_ptr (g_atts g ! j) = ?p" for j
    using att_at [OF g(1) that(1)] that(2) by (auto simp: att_ok_def)
  have "guest_ok (?g\<lparr>g_atts := (g_atts ?g)[i := ?a]\<rparr>)"
  proof (rule guest_ok_att [OF g1])
    show "att_ok (g_all ?g ! a_ptr ?a) (g_heap ?g ! a_ptr ?a) ?a" using a p by (simp add: upd_session_def)
  qed (use g fresh in \<open>auto simp: upd_session_def\<close>)
  then show ?thesis by (simp add: serve_begin_def Let_def upd_att_def upd_session_def)
qed

lemma set_phase_ok:
  assumes "guest_ok g" "i < length (g_atts g)" "a_phase (g_atts g ! i) \<noteq> Begin"
    "att_ok (g_all g ! a_ptr (g_atts g ! i)) (g_heap g ! a_ptr (g_atts g ! i)) ((g_atts g ! i)\<lparr>a_phase := ph\<rparr>)"
  shows "guest_ok (set_phase ph i g)"
  unfolding set_phase_def by (rule upd_att_ok [OF assms(1-3)]) (use assms(4) in simp_all)

lemma att_ok_wake: "att_ok all s a \<Longrightarrow> a_phase a = Waiting w \<Longrightarrow> att_ok all s (a\<lparr>a_phase := Looping\<rparr>)"
  by (auto simp: att_ok_def output_ok_def running_ok_def seen_ok_def first_ok_def whole_ok_def
      queue_of_def pos_end_def notice_def)

lemma att_ok_finished:
  "att_ok all s a \<Longrightarrow> a_phase a = Delivered \<or> a_phase a = Deleting \<Longrightarrow> ph = Deleting \<or> ph = Ended \<Longrightarrow>
   att_ok all s (a\<lparr>a_phase := ph\<rparr>)"
  by (auto simp: att_ok_def output_ok_def finished_ok_def seen_ok_def first_ok_def whole_ok_def notice_def)

lemma table_at: "guest_ok g \<Longrightarrow> map_of (g_table g) sid = Some p \<Longrightarrow> p < length (g_heap g) \<and> s_id (g_heap g ! p) = sid"
  by (auto simp: guest_ok_def table_ok_def dest!: map_of_SomeD)

lemma guest_ok0: "guest_ok guest0"
  by (simp add: guest0_def guest_ok_def heap_ok_def atts_ok_def table_ok_def gens_ok_def)

lemma guest_ok_step: "guest_ok g \<Longrightarrow> gstep g g' \<Longrightarrow> guest_ok g'"
proof (rotate_tac, induction rule: gstep.induct)
  case (g_exit p g code)
  then show ?case unfolding process_done_def
    by (intro upd_session_ok later_finish) (auto simp: session_finish_def notify_def buffered_def dest: session_at)
next
  case (g_stamp p g)
  have "guest_ok (upd_session p (\<lambda>s. s\<lparr>s_done := Suc (g_finished g)\<rparr>) g)"
    using g_stamp by (intro upd_session_ok) (auto simp: session_later_def buffered_def dest: session_at)
  then show ?case by (simp add: stamp_done_def guest_ok_def heap_ok_def atts_ok_def table_ok_def gens_ok_def)
next
  case (g_attach g req)
  then show ?case
    by (auto simp: attach_def intro!: guest_ok_new_att split: option.split dest: table_at)
next
  case (g_round i g)
  then show ?case unfolding serve_round_def
    by (intro upd_att_ok att_round) (auto simp: round_of_def dest: att_at session_at)
next
  case (g_send i g q e n w ok)
  then show ?case unfolding serve_send_def
    by (intro upd_att_ok att_send) (auto simp: send_of_def Let_def split: list.split option.split dest: att_at)
next
  case (g_wake i g)
  then show ?case
    by (auto simp: can_wake_def intro!: set_phase_ok dest: att_at intro: att_ok_wake split: phase.splits)
next
  case (g_gone i g w)
  then show ?case
    using att_ended [of _ _ "g_atts g ! i" "a_pos (g_atts g ! i)"] by (auto intro!: set_phase_ok dest: att_at)
next
  case (g_check i g)
  then show ?case unfolding forget_check_def Let_def
    by (auto intro!: set_phase_ok att_ok_finished dest: att_at)
next
  case (g_delete i g)
  then show ?case unfolding forget_delete_def Let_def
    by (auto intro!: set_phase_ok att_ok_finished guest_ok_delete dest: att_at)
qed (auto simp: release_def pruneExited_def intro: guest_ok_delete guest_ok_filter guest_ok_keep guest_ok_output
    guest_ok_begin guest_ok_reserve)

interpretation guest_run: step_invariant "\<lambda>g. g = guest0" gstep guest_ok
  by unfold_locales (auto intro: guest_ok0 guest_ok_step)

section \<open>A run\<close>

text \<open>A process that prints, waits for its connection and exits with code 3.\<close>

definition demo_started :: guest where
  "demo_started = keep 0 False (case reserve ''a'' guest0 of Some (_, g) \<Rightarrow> g | None \<Rightarrow> guest0)"

definition demo_asleep :: guest where
  "demo_asleep = serve_send 0 True (serve_send 0 True (serve_round 0 (serve_begin 0
     (copy_out 0 FrameStdout ''hi'' demo_started))))"

definition demo_exited :: guest where
  "demo_exited = process_done 0 3 demo_asleep"

definition demo_delivered :: guest where
  "demo_delivered = serve_send 0 True (serve_round 0 (set_phase Looping 0 demo_exited))"

lemmas demo_defs = demo_started_def demo_asleep_def demo_exited_def demo_delivered_def

lemma demo_started_reach: "reach (\<lambda>g. g = guest0) gstep demo_started"
proof -
  have "reserve ''a'' guest0 = Some (0, case reserve ''a'' guest0 of Some (_, g) \<Rightarrow> g | None \<Rightarrow> guest0)" by code_simp
  moreover have "SessionIDOK ''a''" by code_simp
  ultimately have "gstep guest0 (case reserve ''a'' guest0 of Some (_, g) \<Rightarrow> g | None \<Rightarrow> guest0)" by (metis g_reserve)
  then have r: "reach (\<lambda>g. g = guest0) gstep (case reserve ''a'' guest0 of Some (_, g) \<Rightarrow> g | None \<Rightarrow> guest0)"
    by (intro reach_step [OF reach_init]) simp_all
  show ?thesis unfolding demo_started_def by (rule reach_step [OF r], rule g_keep) code_simp+
qed

lemmas step_back = reach_step [rotated]

lemma demo_asleep_reach: "reach (\<lambda>g. g = guest0) gstep demo_asleep"
  unfolding demo_asleep_def
  apply (rule step_back, rule g_send [where q = "[]" and e = None and n = 2 and w = 2], code_simp, code_simp)
  apply (rule step_back, rule g_send [where q = "[(FrameStdout, ''hi'')]" and e = None and n = 2 and w = 2], code_simp, code_simp)
  apply (rule step_back, rule g_round, code_simp, code_simp)
  apply (rule step_back, rule g_begin, code_simp, code_simp)
  apply (rule step_back, rule g_output, code_simp, code_simp, code_simp, code_simp, code_simp, code_simp)
  apply (rule demo_started_reach)
  done

lemma demo_delivered_reach: "reach (\<lambda>g. g = guest0) gstep demo_delivered"
  unfolding demo_delivered_def demo_exited_def
  apply (rule step_back, rule g_send [where q = "[]" and e = "Some 3" and n = 2 and w = 3], code_simp, code_simp)
  apply (rule step_back, rule g_round, code_simp, code_simp)
  apply (rule step_back, rule g_wake, code_simp, code_simp)
  apply (rule step_back, rule g_exit, code_simp, code_simp, code_simp)
  apply (rule demo_asleep_reach)
  done

section \<open>Properties\<close>

abbreviation guest_reach :: "guest \<Rightarrow> bool" where
  "guest_reach \<equiv> reach (\<lambda>g. g = guest0) gstep"

text \<open>The bytes of one stream in a tagged output.\<close>

definition of_stream :: "byte \<Rightarrow> (byte \<times> byte) list \<Rightarrow> bytes" where
  "of_stream t xs = map snd (filter (\<lambda>x. fst x = t) xs)"

lemma payloads_of_stream: "payloads t fs = of_stream t (stream fs)"
proof (induction fs)
  case (Cons f fs)
  have "filter (\<lambda>x. fst x = t) (map (Pair u) c) = (if u = t then map (Pair u) c else [])" for u c
    by (induction c) auto
  with Cons show ?case by (cases f) (simp add: payloads_def of_stream_def comp_def)
qed (simp add: payloads_def of_stream_def)

lemma exit_not_output:
  assumes "list_all output_frame fs"
  shows "exit_frame c \<notin> set (notice a @ fs)"
  using assms by (auto simp: notice_def list_all_iff output_frame_def exit_frame_def dropped_frame_def frame_type_defs)

lemma exit_finished: "att_ok all s a \<Longrightarrow> exit_frame c \<in> set (a_sent a) \<Longrightarrow> finished_ok all s a"
  unfolding att_ok_def output_ok_def running_ok_def broken_ok_def
  by (auto split: phase.splits) (metis Un_iff exit_not_output set_append)+

lemma reach_att:
  assumes "guest_reach g" "i < length (g_atts g)"
  shows "att_ok (g_all g ! a_ptr (g_atts g ! i)) (g_heap g ! a_ptr (g_atts g ! i)) (g_atts g ! i)"
    "buffered (g_all g ! a_ptr (g_atts g ! i)) (g_heap g ! a_ptr (g_atts g ! i))"
  using guest_run.inv_reach [OF assms(1)] att_at session_at assms(2) by blast+

lemma pump_notice:
  "a_from a - a_off a < 2 ^ 62 \<Longrightarrow>
   pump (concat (map put_frame (notice a)) @ rest) pumped0 =
     pump rest (pumped0\<lparr>p_dropped := (if a_off a < a_from a then [int (a_from a - a_off a)] else [])\<rparr>)"
  by (simp add: notice_def pump_dropped pumped0_def)

lemma of_stream_subseq: "subseq xs ys \<Longrightarrow> subseq (of_stream t xs) (of_stream t ys)"
  unfolding of_stream_def by (intro subseq_map subseq_filter)

text \<open>
  C23: What a host that attached to a kept process ends up with, under every interleaving of the
  process's writes, of attaches and takeovers, and of the pruning of other sessions. Once the exit code
  has been delivered: the code is the process's own; the count of dropped bytes is exactly the distance from the
  offset the host asked for to the position its replay starts at; its stdout and stderr are in the order the process wrote them
  from that position, with nothing twice, and are all the process wrote from there unless a later round had to skip bytes
  (\<open>late_gap_unreported\<close>). Output that never passed \<open>keptBytes\<close> is never skipped and is replayed whole, from the very offset
  asked for.
\<close>

theorem kept_output_complete:
  assumes "guest_reach g" "i < length (g_atts g)" "a = g_atts g ! i"
    "exit_frame c \<in> set (a_sent a)"
    "s = g_heap g ! a_ptr a" "all = g_all g ! a_ptr a"
    "s_exit s = Some code" "- (2 ^ 31) \<le> code" "code < 2 ^ 31" "a_from a - a_off a < 2 ^ 62"
    "out = pump (concat (map put_frame (a_sent a)) @ rest) pumped0"
  shows "p_code out = code \<and> p_dropped out = (if a_off a < a_from a then [int (a_from a - a_off a)] else []) \<and>
    subseq (p_stdout out) (of_stream FrameStdout (drop (a_from a) (stream all))) \<and>
    subseq (p_stderr out) (of_stream FrameStderr (drop (a_from a) (stream all))) \<and>
    (a_gap a \<or> p_stdout out = of_stream FrameStdout (drop (a_from a) (stream all)) \<and>
      p_stderr out = of_stream FrameStderr (drop (a_from a) (stream all))) \<and>
    (s_total s \<le> keptBytes \<longrightarrow> \<not> a_gap a \<and> a_from a = a_off a)"
proof -
  have ok: "att_ok all s a" "buffered all s"
    using reach_att [OF assms(1,2)] assms(3,5,6) by simp_all
  obtain fs where fs: "list_all output_frame fs" "a_sent a = notice a @ fs @ [exit_frame code]"
    "subseq (stream fs) (drop (a_from a) (stream all))" "a_gap a \<or> stream fs = drop (a_from a) (stream all)"
    using exit_finished [OF ok(1) assms(4)] assms(7) by (auto simp: finished_ok_def)
  have "out = \<lparr>p_stdout = of_stream FrameStdout (stream fs), p_stderr = of_stream FrameStderr (stream fs),
       p_dropped = (if a_off a < a_from a then [int (a_from a - a_off a)] else []), p_code = code\<rparr>"
    using assms(10)
    by (simp add: assms(11) fs(2) pump_notice pump_outputs [OF fs(1)] pump_exit [OF assms(8,9)] payloads_of_stream)
      (simp add: pumped0_def)
  moreover have "s_total s \<le> keptBytes \<longrightarrow> \<not> a_gap a \<and> a_from a = a_off a"
    using ok by (auto simp: att_ok_def whole_ok_def buffered_def)
  ultimately show ?thesis using fs(4) of_stream_subseq [OF fs(3)] by auto
qed

theorem kept_output_complete_witness:
  "pump (concat (map put_frame (a_sent (g_atts demo_delivered ! 0))) @ []) pumped0 =
     \<lparr>p_stdout = ''hi'', p_stderr = [], p_dropped = [], p_code = 3\<rparr>"
proof -
  let ?a = "g_atts demo_delivered ! 0"
  have c: "0 < length (g_atts demo_delivered)" "exit_frame 3 \<in> set (a_sent ?a)" "s_total (g_heap demo_delivered ! 0) \<le> keptBytes" "a_ptr ?a = 0"
    "s_exit (g_heap demo_delivered ! 0) = Some 3" "a_from ?a = 0" "a_off ?a = 0"
    "of_stream FrameStdout (stream (g_all demo_delivered ! 0)) = ''hi''"
    "of_stream FrameStderr (stream (g_all demo_delivered ! 0)) = []" by code_simp+
  show ?thesis
    using kept_output_complete [OF demo_delivered_reach c(1) refl c(2) refl refl _ _ _ _ refl, of 3 "[]"] c(3)
    by (auto simp: c(4-) intro!: pumped.equality)
qed

text \<open>
  C24: No wakeup is lost. A connection asleep in the select of \<open>serveSession\<close> that nothing will wake is
  up to date: its process is still running, no newer attach has taken the session over, its position is
  past everything written, and it has been given every byte from where its replay starts, unless a later round had to
  skip some. The buffer of every session stays within \<open>keptBytes\<close>.
\<close>

theorem no_lost_wakeup:
  assumes "guest_reach g" "i < length (g_atts g)" "a = g_atts g ! i"
    "a_phase a = Waiting w" "\<not> can_wake i g" "s = g_heap g ! a_ptr a"
  shows "s_exit s = None \<and> s_gen s = a_gen a \<and> s_total s \<le> a_pos a \<and>
    (a_gap a \<or> (\<exists>fs. a_sent a = notice a @ fs \<and> stream fs = drop (a_from a) (stream (g_all g ! a_ptr a)))) \<and>
    list_all (\<lambda>t. s_bytes t \<le> keptBytes) (g_heap g)"
proof -
  let ?all = "g_all g ! a_ptr a"
  have ok: "att_ok ?all s a" "buffered ?all s" using reach_att [OF assms(1,2)] assms(3,6) by simp_all
  have tot: "s_total s = length (stream ?all)" using ok(2) by (auto simp: buffered_def)
  have bytes: "list_all (\<lambda>t. s_bytes t \<le> keptBytes) (g_heap g)"
    using session_at [OF guest_run.inv_reach [OF assms(1)]] by (fastforce simp: list_all_length buffered_def)
  have w: "s_changed s = w" using assms(3-6) by (simp add: can_wake_def)
  then have seen: "length (stream ?all) \<le> a_pos a" "s_exit s = None" "s_gen s = a_gen a"
    using ok(1) assms(4) by (auto simp: att_ok_def seen_ok_def)
  obtain fs where "a_sent a = notice a @ fs" "\<not> a_gap a \<longrightarrow> stream fs = drop (a_from a) (stream ?all)"
    using ok(1) assms(4) seen(1)
    by (auto simp: att_ok_def output_ok_def running_ok_def queue_of_def pos_end_def)
  with seen tot bytes show ?thesis by auto
qed

theorem no_lost_wakeup_witness:
  "s_total (g_heap demo_asleep ! 0) = 2 \<and> s_total (g_heap demo_asleep ! 0) \<le> a_pos (g_atts demo_asleep ! 0)"
proof -
  let ?a = "g_atts demo_asleep ! 0"
  have c: "0 < length (g_atts demo_asleep)" "a_phase ?a = Waiting 2" "\<not> can_wake 0 demo_asleep" "a_ptr ?a = 0"
    "s_total (g_heap demo_asleep ! 0) = 2" by code_simp+
  show ?thesis using no_lost_wakeup [OF demo_asleep_reach c(1) refl c(2,3) refl] c(4,5) by simp
qed

text \<open>
  A gap that opens behind a slow connection is not reported. On every round but the first, when
  the buffer has dropped bytes the connection was not given, the round sends the output that is left
  and no count of what is missing, and the connection's position moves past it.
\<close>

theorem late_gap_unreported:
  assumes "buffered all s" "s_gen s = a_gen a" "\<not> a_first a" "0 < dropped_of (a_pos a) (s_frames s)"
    "chunks_ok all"
  shows "list_all (\<lambda>f. fst f \<noteq> FrameDropped) (queue_of (round_of s a)) \<and>
    stream (queue_of (round_of s a)) = drop (a_pos a + dropped_of (a_pos a) (s_frames s)) (stream all) \<and>
    pos_end (round_of s a) = max (a_pos a) (s_total s)"
  using round_output [OF assms(1,5), of "a_pos a"] round_exact(1) [OF assms(1)] assms(2,3)
  by (auto simp: round_of_def queue_of_def pos_end_def round_frames_def list_all_iff output_frame_def frame_type_defs)

theorem late_gap_unreported_witness:
  "\<exists>all s a. buffered all s \<and> 0 < dropped_of (a_pos a) (s_frames s) \<and>
     stream (queue_of (round_of s a)) = drop (a_pos a + dropped_of (a_pos a) (s_frames s)) (stream all)"
proof -
  let ?old = "replicate 32 (FrameStdout, replicate 32768 (CHR ''x''))"
  let ?all = "?old @ [(FrameStdout, ''yy'')]"
  let ?s = "(new_session ''a'')\<lparr>s_started := True, s_frames := placed (length (stream ?old)) [(FrameStdout, ''yy'')],
    s_bytes := 2, s_total := length (stream ?all)\<rparr>"
  let ?a = "(new_attachment 0 0)\<lparr>a_first := False\<rparr>"
  have len: "length (stream ?old) = 1048576"
    by (simp add: stream_def length_concat map_replicate_const sum_list_replicate)
  have b: "buffered ?all ?s"
    unfolding buffered_def
    by (rule exI [of _ ?old], rule exI [of _ "[(FrameStdout, ''yy'')]"]) (simp add: len keptBytes_def)
  have d: "0 < dropped_of (a_pos ?a) (s_frames ?s)"
    by (simp add: dropped_of_def new_attachment_def len)
  have "chunks_ok ?all" by (simp add: chunks_ok_def list_all_iff)
  then have "stream (queue_of (round_of ?s ?a)) = drop (a_pos ?a + dropped_of (a_pos ?a) (s_frames ?s)) (stream ?all)"
    using late_gap_unreported [OF b, of ?a] d by (simp add: new_attachment_def new_session_def)
  with b d show ?thesis by blast
qed

text \<open>A connection can always send what it has queued.\<close>

lemma drain:
  assumes "i < length (g_atts g)" "a_phase (g_atts g ! i) = Sending q e n w"
  shows "\<exists>a'. gstep\<^sup>*\<^sup>* g (g\<lparr>g_atts := (g_atts g)[i := a']\<rparr>) \<and> a_phase a' = Sending [] e n w \<and>
    a_ptr a' = a_ptr (g_atts g ! i) \<and> a_gen a' = a_gen (g_atts g ! i)"
  using assms
proof (induction q arbitrary: g)
  case Nil
  then show ?case by (intro exI [of _ "g_atts g ! i"]) simp
next
  case (Cons f q)
  let ?a = "(g_atts g ! i)\<lparr>a_phase := Sending q e n w, a_sent := a_sent (g_atts g ! i) @ [f]\<rparr>"
  let ?g = "g\<lparr>g_atts := (g_atts g)[i := ?a]\<rparr>"
  have "serve_send i True g = ?g"
    using Cons.prems by (simp add: serve_send_def upd_att_def send_of_def)
  then have s: "gstep g ?g" using g_send [OF Cons.prems, of True] by simp
  obtain a' where a': "gstep\<^sup>*\<^sup>* ?g (?g\<lparr>g_atts := (g_atts ?g)[i := a']\<rparr>)" "a_phase a' = Sending [] e n w"
    "a_ptr a' = a_ptr (g_atts ?g ! i)" "a_gen a' = a_gen (g_atts ?g ! i)"
    using Cons.IH [of ?g] Cons.prems(1) by auto
  have "gstep\<^sup>*\<^sup>* g (g\<lparr>g_atts := (g_atts g)[i := a']\<rparr>)"
    using converse_rtranclp_into_rtranclp [OF s a'(1)] by simp
  with a'(2-) Cons.prems(1) show ?case by auto
qed

definition exit_sent :: "int \<Rightarrow> nat \<Rightarrow> guest \<Rightarrow> bool" where
  "exit_sent c i g \<longleftrightarrow> i < length (g_atts g) \<and> exit_frame c \<in> set (a_sent (g_atts g ! i))"

lemma sending_delivers:
  assumes "i < length (g_atts g)" "a_phase (g_atts g ! i) = Sending q (Some c) n w"
  shows "\<exists>g'. gstep\<^sup>*\<^sup>* g g' \<and> exit_sent c i g'"
proof -
  obtain a' where a': "gstep\<^sup>*\<^sup>* g (g\<lparr>g_atts := (g_atts g)[i := a']\<rparr>)" "a_phase a' = Sending [] (Some c) n w"
    using drain [OF assms] by blast
  let ?g = "g\<lparr>g_atts := (g_atts g)[i := a']\<rparr>"
  have "gstep ?g (serve_send i True ?g)" using a'(2) assms(1) by (intro g_send) auto
  moreover have "exit_sent c i (serve_send i True ?g)"
    using a'(2) assms(1) by (simp add: exit_sent_def serve_send_def upd_att_def send_of_def Let_def)
  ultimately show ?thesis using a'(1) by (meson rtranclp.rtrancl_into_rtrancl)
qed

lemma looping_delivers:
  assumes "i < length (g_atts g)" "a_phase (g_atts g ! i) = Looping"
    "s_exit (g_heap g ! a_ptr (g_atts g ! i)) = Some c"
    "s_gen (g_heap g ! a_ptr (g_atts g ! i)) = a_gen (g_atts g ! i)"
  shows "\<exists>g'. gstep\<^sup>*\<^sup>* g g' \<and> exit_sent c i g'"
proof -
  have s: "gstep g (serve_round i g)" using assms by (intro g_round)
  have "\<exists>g'. gstep\<^sup>*\<^sup>* (serve_round i g) g' \<and> exit_sent c i g'"
    using assms by (intro sending_delivers) (auto simp: serve_round_def upd_att_def round_of_def)
  then show ?thesis using s by (meson converse_rtranclp_into_rtranclp)
qed

lemma waiting_delivers:
  assumes g: "guest_ok g" "i < length (g_atts g)" "a_phase (g_atts g ! i) = Waiting w"
    "s_exit (g_heap g ! a_ptr (g_atts g ! i)) = Some c"
    "s_gen (g_heap g ! a_ptr (g_atts g ! i)) = a_gen (g_atts g ! i)"
  shows "\<exists>g'. gstep\<^sup>*\<^sup>* g g' \<and> exit_sent c i g'"
proof -
  have "can_wake i g"
    using att_at [OF g(1,2)] g(3,4) by (auto simp: att_ok_def seen_ok_def can_wake_def)
  then have s: "gstep g (set_phase Looping i g)" using g(2) by (intro g_wake)
  have "\<exists>g'. gstep\<^sup>*\<^sup>* (set_phase Looping i g) g' \<and> exit_sent c i g'"
    using g by (intro looping_delivers) (auto simp: set_phase_def upd_att_def)
  then show ?thesis using s by (meson converse_rtranclp_into_rtranclp)
qed

lemma sending_any_delivers:
  assumes g: "guest_ok g" "i < length (g_atts g)" "a_phase (g_atts g ! i) = Sending q e n w"
    "s_exit (g_heap g ! a_ptr (g_atts g ! i)) = Some c"
    "s_gen (g_heap g ! a_ptr (g_atts g ! i)) = a_gen (g_atts g ! i)"
  shows "\<exists>g'. gstep\<^sup>*\<^sup>* g g' \<and> exit_sent c i g'"
proof (cases e)
  case (Some d)
  then have "d = c" using att_at [OF g(1,2)] g(3,4) by (auto simp: att_ok_def seen_ok_def)
  with Some g show ?thesis by (intro sending_delivers) auto
next
  case None
  obtain a' where a': "gstep\<^sup>*\<^sup>* g (g\<lparr>g_atts := (g_atts g)[i := a']\<rparr>)" "a_phase a' = Sending [] None n w"
    "a_ptr a' = a_ptr (g_atts g ! i)" "a_gen a' = a_gen (g_atts g ! i)"
    using drain [OF g(2,3)] None by blast
  let ?g = "g\<lparr>g_atts := (g_atts g)[i := a']\<rparr>"
  have s: "gstep ?g (serve_send i True ?g)" using a'(2) g(2) by (intro g_send) auto
  have run: "gstep\<^sup>*\<^sup>* g (serve_send i True ?g)" using a'(1) s by (rule rtranclp.rtrancl_into_rtrancl)
  have ok: "guest_ok (serve_send i True ?g)" by (rule guest_run.inv_steps [OF run g(1)])
  have "\<exists>g'. gstep\<^sup>*\<^sup>* (serve_send i True ?g) g' \<and> exit_sent c i g'"
    by (rule waiting_delivers [OF ok, of _ w])
      (use g a' in \<open>auto simp: serve_send_def upd_att_def send_of_def Let_def\<close>)
  then show ?thesis using run by (meson rtranclp_trans)
qed

text \<open>
  C25: Once a process has ended, its attached connection is never stuck: from every reachable state
  in which the connection that holds the session's current generation is looping, sending or asleep,
  steps of the guest lead to a state in which that connection has been given the process's exit code.
\<close>

theorem exit_is_delivered:
  assumes "guest_reach g" "i < length (g_atts g)" "a = g_atts g ! i"
    "s_exit (g_heap g ! a_ptr a) = Some c" "s_gen (g_heap g ! a_ptr a) = a_gen a"
    "a_phase a \<notin> {Begin, Delivered, Deleting, Ended}"
  shows "\<exists>g'. gstep\<^sup>*\<^sup>* g g' \<and> exit_sent c i g'"
proof -
  have ok: "guest_ok g" using assms(1) by (rule guest_run.inv_reach)
  show ?thesis
  proof (cases "a_phase a")
    case Looping
    then show ?thesis using assms by (intro looping_delivers) auto
  next
    case (Sending q e n w)
    then show ?thesis using assms by (intro sending_any_delivers [OF ok]) auto
  next
    case (Waiting w)
    then show ?thesis using assms by (intro waiting_delivers [OF ok]) auto
  qed (use assms(6) in auto)
qed

theorem exit_is_delivered_witness:
  "a_phase (g_atts demo_exited ! 0) = Waiting 2 \<and> (\<exists>g'. gstep\<^sup>*\<^sup>* demo_exited g' \<and> exit_sent 3 0 g')"
proof -
  have r: "guest_reach demo_exited"
    unfolding demo_exited_def by (rule step_back, rule g_exit, code_simp, code_simp, code_simp, rule demo_asleep_reach)
  have c: "0 < length (g_atts demo_exited)" "s_exit (g_heap demo_exited ! a_ptr (g_atts demo_exited ! 0)) = Some 3"
    "s_gen (g_heap demo_exited ! a_ptr (g_atts demo_exited ! 0)) = a_gen (g_atts demo_exited ! 0)"
    "a_phase (g_atts demo_exited ! 0) = Waiting 2" by code_simp+
  then show ?thesis using exit_is_delivered [OF r c(1) refl c(2,3)] by simp
qed

lemma map_of_filter_key: "map_of (filter (\<lambda>(k, _). P k) xs) k = (if P k then map_of xs k else None)"
  by (induction xs) auto

lemma prune_parts:
  assumes "table_ok g" "prune_order g ds" "\<not> length ds \<le> keptExited"
  defines "old \<equiv> take (length ds - keptExited) ds"
  shows "set ds = set (exited g)"
    and "length (exited (pruneExited ds g)) = keptExited"
    and "\<forall>x \<in> set old. \<forall>y \<in> set (exited (pruneExited ds g)). s_done (g_heap g ! snd x) \<le> s_done (g_heap g ! snd y)"
proof -
  let ?new = "drop (length ds - keptExited) ds"
  have dt: "distinct (map fst (g_table g))" using assms(1) by (simp add: table_ok_def)
  have ms: "mset ds = mset (exited g)" and so: "sorted (map (\<lambda>(_, p). s_done (g_heap g ! p)) ds)"
    using assms(2) by (simp_all add: prune_order_def)
  show sd: "set ds = set (exited g)" using ms by (metis set_mset_mset)
  have de: "distinct (map fst (exited g))" unfolding exited_def using dt by (rule distinct_map_filter)
  have "mset (map fst ds) = mset (map fst (exited g))" using ms by simp
  then have dd: "distinct (map fst ds)" using de by (metis mset_eq_imp_distinct_iff)
  have dd2: "distinct (map fst (old @ ?new))" and so2: "sorted (map (\<lambda>(_, p). s_done (g_heap g ! p)) (old @ ?new))"
    and sd2: "set ds = set old \<union> set ?new"
    using dd so by (simp_all add: old_def set_append [symmetric] del: map_append set_append)
  have disj: "fst x \<notin> fst ` set old" if "x \<in> set ?new" for x
    using dd2 that by auto
  have e': "exited (pruneExited ds g) = filter (\<lambda>(k, _). k \<notin> fst ` set old) (exited g)"
    using assms(3) by (auto simp: exited_def pruneExited_def old_def intro: filter_cong)
  have "set (exited (pruneExited ds g)) = set ?new"
  proof -
    have "set (exited g) = set old \<union> set ?new" using sd sd2 by simp
    then show ?thesis unfolding e' using disj by (fastforce simp: rev_image_eqI)
  qed
  then have sn: "set (exited (pruneExited ds g)) = set ?new" .
  have "distinct (exited (pruneExited ds g))" "distinct ?new"
    using de dd unfolding e' by (auto simp: distinct_map intro: distinct_filter)
  then show "length (exited (pruneExited ds g)) = keptExited"
    using sn assms(3) by (metis diff_diff_cancel distinct_card length_drop nat_le_linear)
  show "\<forall>x \<in> set old. \<forall>y \<in> set (exited (pruneExited ds g)). s_done (g_heap g ! snd x) \<le> s_done (g_heap g ! snd y)"
    using so2 unfolding sn by (auto simp: sorted_append case_prod_unfold)
qed

text \<open>
  Pruning touches only processes that have ended and holds at most \<open>keptExited\<close> of those: what it
  removes finished no later, by the order stamped on them, than anything ended that it keeps, and a
  running session stays attachable under its id.
\<close>

theorem prune_keeps_newest:
  assumes "guest_reach g" "prune_order g ds"
  shows "length (exited (pruneExited ds g)) \<le> keptExited \<and>
    (\<forall>sid p. map_of (g_table g) sid = Some p \<longrightarrow> map_of (g_table (pruneExited ds g)) sid \<noteq> Some p \<longrightarrow>
       s_exit (g_heap g ! p) \<noteq> None \<and> map_of (g_table (pruneExited ds g)) sid = None \<and>
       (\<forall>(k, q) \<in> set (exited (pruneExited ds g)). s_done (g_heap g ! p) \<le> s_done (g_heap g ! q)))"
proof (cases "length ds \<le> keptExited")
  case True
  moreover have "length (exited g) = length ds" using assms(2) by (metis prune_order_def size_mset)
  ultimately show ?thesis by (simp add: pruneExited_def)
next
  case False
  have tok: "table_ok g" using guest_run.inv_reach [OF assms(1)] by (simp add: guest_ok_def)
  note parts = prune_parts [OF tok assms(2) False]
  show ?thesis
  proof (intro conjI allI impI)
    show "length (exited (pruneExited ds g)) \<le> keptExited"
      using parts(2) False by simp
  next
    fix sid p
    assume m: "map_of (g_table g) sid = Some p" "map_of (g_table (pruneExited ds g)) sid \<noteq> Some p"
    let ?old = "take (length ds - keptExited) ds"
    have "sid \<in> fst ` set ?old"
      using m False by (auto simp: pruneExited_def map_of_filter_key split: if_splits)
    then obtain p' where p': "(sid, p') \<in> set ?old" by auto
    then have ex: "(sid, p') \<in> set (exited g)" using parts(1) by (metis in_set_takeD)
    then have "(sid, p') \<in> set (g_table g)" by (auto simp: exited_def)
    then have pp: "p' = p" using m(1) tok by (simp add: table_ok_def)
    then show "s_exit (g_heap g ! p) \<noteq> None" using ex by (simp add: exited_def)
    show "map_of (g_table (pruneExited ds g)) sid = None"
      using \<open>sid \<in> fst ` set ?old\<close> False by (simp add: pruneExited_def map_of_filter_key)
    show "\<forall>(k, q) \<in> set (exited (pruneExited ds g)). s_done (g_heap g ! p) \<le> s_done (g_heap g ! q)"
      using parts(3) p' pp by fastforce
  qed
qed

theorem prune_keeps_newest_witness:
  "prune_order demo_delivered [(''a'', 0)] \<and> length (exited (pruneExited [(''a'', 0)] demo_delivered)) \<le> keptExited"
proof -
  have e: "exited demo_delivered = [(''a'', 0)]" by code_simp
  then have "prune_order demo_delivered [(''a'', 0)]" by (simp add: prune_order_def)
  then show ?thesis using prune_keeps_newest [OF demo_delivered_reach] by blast
qed

end
