(* ===== verification/Guest_Server.thy ===== *)
theory Guest_Server
  imports Guest_Session Go_Path
begin

text \<open>
  The guest agent (\<open>internal/guestproto/server.go\<close>, \<open>server_unix.go\<close>, \<open>volumes_linux.go\<close>): it reads the one
  request a connection carries and answers it.

  The operating system is an argument, a record of the calls the agent makes over a state of its own
  (\<open>'w\<close>): stat, open, mkdir, write, remove, readdir, chown, start a process, connect to a port. A process
  is what it was observed to do: the chunks of output in the order the copying goroutines send them and
  the status it ends with. Every handler returns the state and the bytes it writes to the connection,
  whose write errors the code ignores.
\<close>

subsection \<open>The system calls\<close>

datatype os_error = ENotExist | EExist | ENotDir | ENotEmpty | EReadOnly | EMsg bytes

record file_info =
  fi_IsDir :: bool
  fi_Size :: nat
  fi_Exec :: bool

text \<open>An open file: what \<open>Stat\<close> says of it and what reading it to the end yields, which may differ.\<close>

record open_file =
  of_stat :: "(os_error, file_info) result"
  of_data :: "(os_error, bytes) result"

datatype raw_type = RSymlink | RDir | RRegular "nat option" | ROther

record cmd =
  cmd_Path :: bytes
  cmd_Args :: "bytes list"
  cmd_Dir :: bytes
  cmd_Env :: "(bytes \<times> bytes) list option"
  cmd_Tty :: bool
  cmd_Cred :: "(int \<times> int) option"

datatype proc_state = PSNil | Signaled nat | Exited int

record process =
  pr_out :: "(byte \<times> bytes) list"
  pr_state :: proc_state

record 'w os =
  os_stat :: "'w \<Rightarrow> bytes \<Rightarrow> (os_error, file_info) result"
  os_open :: "'w \<Rightarrow> bytes \<Rightarrow> (os_error, open_file) result"
  os_mkdir :: "'w \<Rightarrow> bytes \<Rightarrow> 'w \<times> os_error option"
  os_write :: "'w \<Rightarrow> bytes \<Rightarrow> bytes \<Rightarrow> 'w \<times> os_error option"
  os_remove :: "'w \<Rightarrow> bytes \<Rightarrow> 'w \<times> os_error option"
  os_readdir :: "'w \<Rightarrow> bytes \<Rightarrow> (os_error, (bytes \<times> raw_type) list) result"
  os_lchown :: "'w \<Rightarrow> bytes \<Rightarrow> int \<Rightarrow> int \<Rightarrow> 'w"
  os_root :: bool
  os_pty :: "nat \<times> nat \<Rightarrow> bytes option"
  os_start :: "'w \<Rightarrow> cmd \<Rightarrow> (os_error, process \<times> 'w) result"
  os_dial :: "'w \<Rightarrow> bytes \<Rightarrow> (bytes \<Rightarrow> bytes) option"
  os_sync :: "bool \<Rightarrow> 'w \<Rightarrow> 'w"

text \<open>The agent's configuration; its three optional hooks answer with an error's text or none.\<close>

record 'w server =
  sv_Root :: bytes
  sv_UID :: int
  sv_GID :: int
  sv_BaseEnv :: "(bytes \<times> bytes) list"
  sv_Home :: bytes
  sv_GrowScratch :: "(int \<Rightarrow> 'w \<Rightarrow> 'w \<times> bytes option) option"
  sv_SetClock :: "(int \<Rightarrow> 'w \<Rightarrow> 'w \<times> bytes option) option"
  sv_Stats :: "('w \<Rightarrow> (bytes, guest_stats) result) option"

subsection \<open>Answers and paths\<close>

definition fmt_int :: "int \<Rightarrow> bytes" where
  "fmt_int x = (if x < 0 then ''-'' @ Itoa (nat (- x)) else Itoa (nat x))"

definition reply :: "codec \<Rightarrow> response \<Rightarrow> bytes" where
  "reply js r = put_rsp js r @ [CHR 0x0A]"

text \<open>\<open>failErr\<close>; \<open>isDir\<close> is the sentinel the handlers raise themselves.\<close>

definition failErr :: "os_error \<Rightarrow> response" where
  "failErr e = (case e of
      ENotExist \<Rightarrow> fail_response CodeNotFound ''no such file or directory''
    | ENotDir \<Rightarrow> fail_response CodeNotDir ''not a directory''
    | ENotEmpty \<Rightarrow> fail_response CodeNotEmpty ''directory not empty''
    | EReadOnly \<Rightarrow> fail_response CodeReadOnly ''read-only file system''
    | EExist \<Rightarrow> fail_response CodeInternal ''file exists''
    | EMsg m \<Rightarrow> fail_response CodeInternal m)"

definition failIsDir :: response where
  "failIsDir = fail_response CodeIsDir ''is a directory''"

definition resolve :: "'w server \<Rightarrow> bytes \<Rightarrow> (bytes, bytes) result" where
  "resolve sv p =
    (if \<not> HasPrefix p ''/'' \<or> CHR 0x00 \<in> set p then Inl ''path must be absolute''
     else if ''..'' \<in> set (Split p ''/'') then Inl ''path must not contain ..''
     else Inr (PathJoin (if sv_Root sv = [] then ''/'' else sv_Root sv) p))"

definition chown :: "'w os \<Rightarrow> 'w server \<Rightarrow> bytes \<Rightarrow> 'w \<Rightarrow> 'w" where
  "chown os sv p w =
    (if os_root os \<and> sv_UID sv \<ge> 0 \<and> sv_GID sv \<ge> 0 then os_lchown os w p (sv_UID sv) (sv_GID sv) else w)"

text \<open>
  \<open>mkdirAll\<close> goes up until a directory exists. Were even the root missing it would not return, which
  is the value \<open>None\<close>.
\<close>

partial_function (option) mkdirAll ::
  "'w os \<Rightarrow> 'w server \<Rightarrow> bytes \<Rightarrow> 'w \<Rightarrow> ('w \<times> os_error option) option" where
  "mkdirAll os sv dir w = (case os_stat os w dir of
      Inr fi \<Rightarrow> Some (w, if fi_IsDir fi then None else Some ENotDir)
    | Inl _ \<Rightarrow> Option.bind (mkdirAll os sv (Dir dir) w) (\<lambda>(w1, e1). case e1 of
        Some e \<Rightarrow> Some (w1, Some e)
      | None \<Rightarrow> (case os_mkdir os w1 dir of
          (w2, None) \<Rightarrow> Some (chown os sv dir w2, None)
        | (w2, Some EExist) \<Rightarrow> Some (chown os sv dir w2, None)
        | (w2, Some e) \<Rightarrow> Some (w2, Some e))))"

subsection \<open>Files and directories\<close>

definition read_answer :: "'w os \<Rightarrow> 'w server \<Rightarrow> request \<Rightarrow> 'w \<Rightarrow> response \<times> bytes" where
  "read_answer os sv req w = (case resolve sv (req_Path req) of
      Inl e \<Rightarrow> (fail_response CodeBadRequest e, [])
    | Inr p \<Rightarrow> (case os_open os w p of
        Inl e \<Rightarrow> (failErr e, [])
      | Inr f \<Rightarrow> (case of_stat f of
          Inl e \<Rightarrow> (failErr e, [])
        | Inr fi \<Rightarrow>
            if fi_IsDir fi then (failIsDir, [])
            else if fi_Size fi > MaxFileBytes
            then (fail_response CodeTooLarge (Itoa (fi_Size fi) @ '' bytes exceeds '' @ Itoa MaxFileBytes), [])
            else (case of_data f of
                Inl e \<Rightarrow> (failErr e, [])
              | Inr contents \<Rightarrow>
                  let data = take (MaxFileBytes + 1) contents in
                  if length data > MaxFileBytes
                  then (fail_response CodeTooLarge ''file grew past the limit while being read'', [])
                  else (ok_response\<lparr>rs_Size := int (length data)\<rparr>, data)))))"

definition srv_read :: "codec \<Rightarrow> 'w os \<Rightarrow> 'w server \<Rightarrow> request \<Rightarrow> 'w \<Rightarrow> bytes" where
  "srv_read js os sv req w = (case read_answer os sv req w of (r, data) \<Rightarrow> reply js r @ data)"

text \<open>\<open>write\<close> reads the file's bytes from the connection; on a short read it stops without an answer.\<close>

definition srv_write ::
  "codec \<Rightarrow> 'w os \<Rightarrow> 'w server \<Rightarrow> request \<Rightarrow> bytes \<Rightarrow> 'w \<Rightarrow> ('w \<times> bytes) option" where
  "srv_write js os sv req input w = (case resolve sv (req_Path req) of
      Inl e \<Rightarrow> Some (w, reply js (fail_response CodeBadRequest e))
    | Inr p \<Rightarrow>
        if req_Size req < 0 \<or> req_Size req > int MaxFileBytes
        then Some (w, reply js (fail_response CodeTooLarge (fmt_int (req_Size req) @ '' bytes is outside 0..'' @ Itoa MaxFileBytes)))
        else if (case os_stat os w p of Inr fi \<Rightarrow> fi_IsDir fi | Inl _ \<Rightarrow> False)
        then Some (w, reply js failIsDir)
        else Option.bind (mkdirAll os sv (Dir p) w) (\<lambda>(w1, e1). case e1 of
            Some e \<Rightarrow> Some (w1, reply js (failErr e))
          | None \<Rightarrow> (case ReadFull (nat (req_Size req)) input of
              Inl _ \<Rightarrow> Some (w1, reply js ok_response)
            | Inr (data, _) \<Rightarrow> (case os_write os w1 p data of
                (w2, Some e) \<Rightarrow> Some (w2, reply js ok_response @ reply js (failErr e))
              | (w2, None) \<Rightarrow> Some (chown os sv p w2, reply js ok_response @ reply js ok_response)))))"

definition srv_remove :: "codec \<Rightarrow> 'w os \<Rightarrow> 'w server \<Rightarrow> request \<Rightarrow> 'w \<Rightarrow> 'w \<times> bytes" where
  "srv_remove js os sv req w = (case resolve sv (req_Path req) of
      Inl e \<Rightarrow> (w, reply js (fail_response CodeBadRequest e))
    | Inr p \<Rightarrow> (case os_remove os w p of
        (w1, Some e) \<Rightarrow> (w1, reply js (failErr e))
      | (w1, None) \<Rightarrow> (w1, reply js ok_response)))"

definition dir_entry_of :: "bytes \<times> raw_type \<Rightarrow> dir_entry" where
  "dir_entry_of e = (case snd e of
      RSymlink \<Rightarrow> \<lparr>de_Name = fst e, de_Type = ESymlink, de_Size = 0\<rparr>
    | RDir \<Rightarrow> \<lparr>de_Name = fst e, de_Type = EDir, de_Size = 0\<rparr>
    | RRegular sz \<Rightarrow> \<lparr>de_Name = fst e, de_Type = EFile, de_Size = (case sz of Some n \<Rightarrow> int n | None \<Rightarrow> 0)\<rparr>
    | ROther \<Rightarrow> \<lparr>de_Name = fst e, de_Type = EOther, de_Size = 0\<rparr>)"

definition srv_list :: "codec \<Rightarrow> 'w os \<Rightarrow> 'w server \<Rightarrow> request \<Rightarrow> 'w \<Rightarrow> bytes" where
  "srv_list js os sv req w = (case resolve sv (req_Path req) of
      Inl e \<Rightarrow> reply js (fail_response CodeBadRequest e)
    | Inr p \<Rightarrow> (case os_stat os w p of
        Inl e \<Rightarrow> reply js (failErr e)
      | Inr fi \<Rightarrow>
          if \<not> fi_IsDir fi then reply js (fail_response CodeNotDir ''not a directory'')
          else (case os_readdir os w p of
              Inl e \<Rightarrow> reply js (failErr e)
            | Inr des \<Rightarrow> reply js (ok_response\<lparr>rs_Entries := sort_key de_Name (map dir_entry_of des)\<rparr>))))"

subsection \<open>Processes\<close>

text \<open>
  \<open>lookPath\<close>: \<open>filepath.SplitList\<close> splits a PATH at colons; an empty one has no parts. The three parts
  it joins are never empty.
\<close>

definition lookPath :: "'w os \<Rightarrow> 'w \<Rightarrow> bytes \<Rightarrow> bytes \<Rightarrow> bytes \<Rightarrow> bytes option" where
  "lookPath os w name path rt =
    (let rt' = (if rt = [] then ''/'' else rt);
         dirs = (if path = [] then [] else Split path '':'');
         cands = map (\<lambda>dir. Clean (Join [rt', dir, name] ''/'')) (filter (\<lambda>dir. dir \<noteq> [] \<and> IsAbs dir) dirs)
     in find (\<lambda>p. case os_stat os w p of Inr fi \<Rightarrow> \<not> fi_IsDir fi \<and> fi_Exec fi | Inl _ \<Rightarrow> False) cands)"

definition exitCode :: "proc_state \<Rightarrow> int" where
  "exitCode ps = (case ps of PSNil \<Rightarrow> -1 | Signaled n \<Rightarrow> 128 + int n | Exited c \<Rightarrow> c)"

definition procAttr :: "'w os \<Rightarrow> 'w server \<Rightarrow> (int \<times> int) option" where
  "procAttr os sv = (if os_root os \<and> sv_UID sv \<ge> 0 \<and> sv_GID sv \<ge> 0 then Some (sv_UID sv, sv_GID sv) else None)"

definition signals :: "(bytes \<times> nat) list" where
  "signals = [(''INT'', 2), (''TERM'', 15), (''KILL'', 9), (''HUP'', 1)]"

text \<open>What the frames of the host do to a process.\<close>

datatype proc_input = PStdin bytes | PStdinClose | PKill nat | PResize nat nat

definition killGroup :: "bytes \<Rightarrow> proc_input list" where
  "killGroup name = (case map_of signals name of None \<Rightarrow> [] | Some n \<Rightarrow> [PKill n])"

definition host_frame :: "bool \<Rightarrow> byte \<Rightarrow> bytes \<Rightarrow> proc_input list" where
  "host_frame tty t payload =
    (if t = FrameStdin then [PStdin payload]
     else if t = FrameStdinEOF then (if \<not> tty then [PStdinClose] else [PStdin [CHR 0x04]])
     else if t = FrameSignal then killGroup payload
     else if t = FrameResize then
       (if tty \<and> length payload = 4
        then [PResize (be16 (payload ! 0) (payload ! 1)) (be16 (payload ! 2) (payload ! 3))] else [])
     else [])"

text \<open>The reading goroutine of \<open>exec\<close>: when the connection goes, the process is killed.\<close>

function host_frames :: "bool \<Rightarrow> bytes \<Rightarrow> proc_input list" where
  "host_frames tty s = (case ReadFrame s of
      Inl _ \<Rightarrow> killGroup ''KILL''
    | Inr ((t, payload), rest) \<Rightarrow> host_frame tty t payload @ host_frames tty rest)"
  by pat_completeness auto
termination
  by (relation "measure (\<lambda>(tty, s). length s)") (auto dest: ReadFrame_shorter)

declare host_frames.simps [simp del]

text \<open>
  The reading goroutine of \<open>serveSession\<close>: a frame reaches the kept process only from the connection of
  the session's current generation; any other connection stops reading.
\<close>

definition session_frame :: "session \<Rightarrow> attachment \<Rightarrow> byte \<Rightarrow> bytes \<Rightarrow> proc_input list option" where
  "session_frame s a t payload = (if s_gen s = a_gen a then Some (host_frame (s_tty s) t payload) else None)"

text \<open>The environment: the request's variables over the agent's; each name once.\<close>

definition merge_env :: "(bytes \<times> bytes) list \<Rightarrow> (bytes \<times> bytes) list \<Rightarrow> (bytes \<times> bytes) list" where
  "merge_env base req = filter (\<lambda>(k, _). k \<notin> fst ` set req) base @ req"

definition env_get :: "(bytes \<times> bytes) list \<Rightarrow> bytes \<Rightarrow> bytes" where
  "env_get env k = (case map_of env k of None \<Rightarrow> [] | Some v \<Rightarrow> v)"

text \<open>The checks of \<open>exec\<close> up to the command it will start.\<close>

definition exec_command :: "'w os \<Rightarrow> 'w server \<Rightarrow> request \<Rightarrow> 'w \<Rightarrow> (response, cmd) result" where
  "exec_command os sv req w =
    (let cwd = (if req_Cwd req \<noteq> [] then req_Cwd req else if sv_Home sv \<noteq> [] then sv_Home sv else ''/'') in
     case resolve sv cwd of
       Inl e \<Rightarrow> Inl (fail_response CodeBadRequest (''cwd: '' @ e))
     | Inr dir \<Rightarrow>
         if (case os_stat os w dir of Inr fi \<Rightarrow> \<not> fi_IsDir fi | Inl _ \<Rightarrow> True)
         then Inl (fail_response CodeNoSuchCwd (''no such directory: '' @ cwd))
         else
           let env = merge_env (sv_BaseEnv sv) (req_Env req);
               arg0 = hd (req_Argv req) in
           case (if CHR ''/'' \<in> set arg0 then Some arg0 else lookPath os w arg0 (env_get env ''PATH'') (sv_Root sv)) of
             None \<Rightarrow> Inl (fail_response CodeNoSuchCommand (''no such command: '' @ arg0))
           | Some name \<Rightarrow>
               let cmd0 = \<lparr>cmd_Path = name, cmd_Args = req_Argv req, cmd_Dir = dir,
                     cmd_Env = (if env = [] then None else Some env), cmd_Tty = req_Tty req,
                     cmd_Cred = procAttr os sv\<rparr> in
               if \<not> req_Tty req then Inr cmd0
               else (case os_pty os (if req_Rows req = 0 \<or> req_Cols req = 0 then (24, 80) else (req_Rows req, req_Cols req)) of
                   Some m \<Rightarrow> Inl (fail_response CodeInternal (''allocating a terminal: '' @ m))
                 | None \<Rightarrow> Inr (if env \<noteq> [] \<and> env_get env ''TERM'' = []
                     then cmd0\<lparr>cmd_Env := Some (merge_env env [(''TERM'', ''xterm-256color'')])\<rparr> else cmd0)))"

text \<open>
  \<open>exec\<close>: without Keep the frames of the whole process are written to the connection; with Keep the id
  is reserved first and released when the process does not start.
\<close>

definition exec_frames :: "process \<Rightarrow> (byte \<times> bytes) list" where
  "exec_frames p = pr_out p @ [exit_frame (exitCode (pr_state p))]"

definition start_process :: "'w os \<Rightarrow> 'w server \<Rightarrow> request \<Rightarrow> 'w \<Rightarrow> (response, process \<times> 'w) result" where
  "start_process os sv req w = and_then (exec_command os sv req w) (\<lambda>cmd.
     case os_start os w cmd of
       Inl ENotExist \<Rightarrow> Inl (fail_response CodeNoSuchCommand (''no such command: '' @ hd (req_Argv req)))
     | Inl e \<Rightarrow> Inl (fail_response CodeInternal (case e of EMsg m \<Rightarrow> m | _ \<Rightarrow> []))
     | Inr r \<Rightarrow> Inr r)"

record 'w agent =
  ag_world :: 'w
  ag_guest :: guest
  ag_inputs :: "proc_input list"

definition srv_exec :: "codec \<Rightarrow> 'w os \<Rightarrow> 'w server \<Rightarrow> request \<Rightarrow> bytes \<Rightarrow> 'w agent \<Rightarrow> 'w agent \<times> bytes" where
  "srv_exec js os sv req input ag =
    (if req_Argv req = [] \<or> hd (req_Argv req) = []
     then (ag, reply js (fail_response CodeBadRequest ''argv is required''))
     else if \<not> req_Keep req then
       (case start_process os sv req (ag_world ag) of
          Inl r \<Rightarrow> (ag, reply js r)
        | Inr (p, w) \<Rightarrow> (ag\<lparr>ag_world := w, ag_inputs := ag_inputs ag @ host_frames (req_Tty req) input\<rparr>,
            reply js ok_response @ concat (map put_frame (exec_frames p))))
     else if \<not> SessionIDOK (req_Session req)
     then (ag, reply js (fail_response CodeBadRequest
            ''a kept process needs a session id of 1-64 letters, digits, - and _''))
     else (case reserve (req_Session req) (ag_guest ag) of
         None \<Rightarrow> (ag, reply js (fail_response CodeBadRequest (''session '' @ req_Session req @ '' exists'')))
       | Some (ks, g1) \<Rightarrow> (case start_process os sv req (ag_world ag) of
            Inl r \<Rightarrow> (ag\<lparr>ag_guest := release ks g1\<rparr>, reply js r)
          | Inr (p, w) \<Rightarrow> (ag\<lparr>ag_world := w, ag_guest := keep ks (req_Tty req) g1\<rparr>, reply js ok_response))))"

subsection \<open>Ports, and the request a connection carries\<close>

definition srv_dial :: "codec \<Rightarrow> 'w os \<Rightarrow> request \<Rightarrow> bytes \<Rightarrow> 'w \<Rightarrow> bytes" where
  "srv_dial js os req input w =
    (if req_Port req < 1 \<or> req_Port req > 65535 then reply js (fail_response CodeBadRequest ''port must be 1-65535'')
     else case os_dial os w (''127.0.0.1:'' @ Itoa (nat (req_Port req))) of
         None \<Rightarrow> reply js (fail_response CodeNotFound ''nothing is listening on that port'')
       | Some peer \<Rightarrow> reply js ok_response @ peer input)"

text \<open>\<open>finalizeVolumes\<close>: the mount points among the lines of /proc/mounts that it remounts read-only.\<close>

definition isVolumeDevice :: "bytes \<Rightarrow> bool" where
  "isVolumeDevice dev \<longleftrightarrow> length dev = 8 \<and> HasPrefix dev ''/dev/vd'' \<and> 99 \<le> nat_of_byte (dev ! 7) \<and> nat_of_byte (dev ! 7) \<le> 122"

definition finalizeVolumes :: "bytes list \<Rightarrow> bytes list" where
  "finalizeVolumes mounts = concat (map (\<lambda>l. let fs = Fields l in
     if length fs < 4 \<or> \<not> isVolumeDevice (fs ! 0) then []
     else if \<not> Contains ('','' @ (fs ! 3) @ '','') '',rw,'' then []
     else [fs ! 1]) mounts)"

definition hook_reply :: "codec \<Rightarrow> 'w agent \<Rightarrow> 'w \<times> bytes option \<Rightarrow> 'w agent \<times> bytes" where
  "hook_reply js ag r = (ag\<lparr>ag_world := fst r\<rparr>, reply js (case snd r of
      Some m \<Rightarrow> fail_response CodeInternal m | None \<Rightarrow> ok_response))"

definition srv_grow :: "codec \<Rightarrow> 'w server \<Rightarrow> request \<Rightarrow> 'w agent \<Rightarrow> 'w agent \<times> bytes" where
  "srv_grow js sv req ag = (case sv_GrowScratch sv of
      None \<Rightarrow> (ag, reply js (fail_response CodeBadRequest ''this guest has no scratch filesystem to grow''))
    | Some f \<Rightarrow> if req_Size req \<le> 0 then (ag, reply js (fail_response CodeBadRequest ''grow_scratch: a size in bytes''))
        else hook_reply js ag (f (req_Size req) (ag_world ag)))"

definition srv_clock :: "codec \<Rightarrow> 'w server \<Rightarrow> request \<Rightarrow> 'w agent \<Rightarrow> 'w agent \<times> bytes" where
  "srv_clock js sv req ag = (case sv_SetClock sv of
      None \<Rightarrow> (ag, reply js (fail_response CodeBadRequest ''this guest agent does not set the clock''))
    | Some f \<Rightarrow> if req_Time req \<le> 0
        then (ag, reply js (fail_response CodeBadRequest ''set_clock: a time in nanoseconds since the epoch''))
        else hook_reply js ag (f (req_Time req) (ag_world ag)))"

definition srv_stats :: "codec \<Rightarrow> 'w server \<Rightarrow> 'w agent \<Rightarrow> bytes" where
  "srv_stats js sv ag = reply js (case sv_Stats sv of
      None \<Rightarrow> fail_response CodeBadRequest ''this guest agent does not report stats''
    | Some f \<Rightarrow> (case f (ag_world ag) of
        Inl m \<Rightarrow> fail_response CodeInternal m | Inr st \<Rightarrow> ok_response\<lparr>rs_Stats := Some st\<rparr>))"

definition serve_op :: "codec \<Rightarrow> 'w os \<Rightarrow> 'w server \<Rightarrow> request \<Rightarrow> bytes \<Rightarrow> 'w agent \<Rightarrow> ('w agent \<times> bytes) option" where
  "serve_op js os sv req input ag =
    (let op = req_Op req; w = ag_world ag in
     if op = OpPing then Some (ag, reply js (ok_response\<lparr>rs_Version := Version\<rparr>))
     else if op = OpRead then Some (ag, srv_read js os sv req w)
     else if op = OpWrite then map_option (\<lambda>(w', out). (ag\<lparr>ag_world := w'\<rparr>, out)) (srv_write js os sv req input w)
     else if op = OpRemove then (case srv_remove js os sv req w of (w', out) \<Rightarrow> Some (ag\<lparr>ag_world := w'\<rparr>, out))
     else if op = OpList then Some (ag, srv_list js os sv req w)
     else if op = OpExec then Some (srv_exec js os sv req input ag)
     else if op = OpDial then Some (ag, srv_dial js os req input w)
     else if op = OpSync then Some (ag\<lparr>ag_world := os_sync os (req_Final req) w\<rparr>, reply js ok_response)
     else if op = OpAttach then (case attach req (ag_guest ag) of
         (r, g) \<Rightarrow> Some (ag\<lparr>ag_guest := g\<rparr>, reply js r))
     else if op = OpSessions then Some (ag, reply js (ok_response\<lparr>rs_Sessions := listSessions (ag_guest ag)\<rparr>))
     else if op = OpGrowScratch then Some (srv_grow js sv req ag)
     else if op = OpSetClock then Some (srv_clock js sv req ag)
     else if op = OpStats then Some (ag, srv_stats js sv ag)
     else Some (ag, reply js (fail_response CodeBadRequest (''unknown op '' @ op))))"

text \<open>\<open>ServeConn\<close>: the bytes the host sent, and what the agent writes back.\<close>

definition ServeConn :: "codec \<Rightarrow> 'w os \<Rightarrow> 'w server \<Rightarrow> bytes \<Rightarrow> 'w agent \<Rightarrow> ('w agent \<times> bytes) option" where
  "ServeConn js os sv s ag = (case readLine s MaxLine of
      Inl _ \<Rightarrow> Some (ag, [])
    | Inr (line, rest) \<Rightarrow> (case get_req js line of
        None \<Rightarrow> Some (ag, reply js (fail_response CodeBadRequest ''unreadable request''))
      | Some req \<Rightarrow> serve_op js os sv req rest ag))"

section \<open>Paths stay beneath the root\<close>

text \<open>A path at the root or beneath it, by components.\<close>

definition beneath :: "bytes list \<Rightarrow> bytes \<Rightarrow> bool" where
  "beneath rs p \<longleftrightarrow> (\<exists>cs. list_all is_comp cs \<and> p = abs_path (rs @ cs))"

lemma resolve_beneath:
  assumes "list_all is_comp rs" "sv_Root sv = abs_path rs" "resolve sv p = Inr q"
  shows "beneath rs q"
proof -
  have p: "p \<noteq> []" "''..'' \<notin> set (Split p ''/'')" "q = PathJoin (abs_path rs) p"
    using assms by (auto simp: resolve_def HasPrefix_def abs_path_def split: if_splits)
  then show ?thesis
    using PathJoin_abs [OF assms(1) p(2,1)] path_comps_comp [OF p(2)] by (auto simp: beneath_def)
qed

text \<open>Two operating systems that answer alike for every path beneath the root.\<close>

definition agree_beneath :: "bytes list \<Rightarrow> 'w os \<Rightarrow> 'w os \<Rightarrow> bool" where
  "agree_beneath rs os os' \<longleftrightarrow> os_root os' = os_root os \<and> (\<forall>p w. beneath rs p \<longrightarrow>
     os_stat os' w p = os_stat os w p \<and> os_open os' w p = os_open os w p \<and> os_mkdir os' w p = os_mkdir os w p \<and>
     os_write os' w p = os_write os w p \<and> os_remove os' w p = os_remove os w p \<and>
     os_readdir os' w p = os_readdir os w p \<and> os_lchown os' w p = os_lchown os w p)"

lemma agree_chown: "agree_beneath rs os os' \<Longrightarrow> beneath rs p \<Longrightarrow> chown os' sv p w = chown os sv p w"
  by (simp add: agree_beneath_def chown_def)

text \<open>\<open>mkdirAll\<close> beneath an existing root returns, and asks only about paths beneath it.\<close>

lemma mkdirAll_beneath:
  assumes rs: "list_all is_comp rs" and cs: "list_all is_comp cs"
    and ag: "agree_beneath rs os os'" and root: "os_stat os w (abs_path rs) = Inr fi"
  shows "\<exists>r. mkdirAll os sv (abs_path (rs @ cs)) w = Some r \<and> mkdirAll os' sv (abs_path (rs @ cs)) w = Some r"
  using cs
proof (induction cs rule: rev_induct)
  case Nil
  have "beneath rs (abs_path rs)" unfolding beneath_def by (rule exI [of _ "[]"]) simp
  then show ?case
    using root ag by (subst (1 2) mkdirAll.simps) (simp add: agree_beneath_def)
next
  case (snoc c cs)
  let ?p = "abs_path (rs @ cs @ [c])"
  have b: "beneath rs ?p" using snoc.prems unfolding beneath_def by blast
  have d: "Dir ?p = abs_path (rs @ cs)"
    using Dir_abs_path [of "rs @ cs" c] snoc.prems rs by simp
  obtain w1 e1 where up: "mkdirAll os sv (abs_path (rs @ cs)) w = Some (w1, e1)"
    "mkdirAll os' sv (abs_path (rs @ cs)) w = Some (w1, e1)"
    using snoc by auto
  have same: "os_stat os' w ?p = os_stat os w ?p" "os_mkdir os' w1 ?p = os_mkdir os w1 ?p"
    "chown os' sv ?p = chown os sv ?p"
    using ag b agree_chown [OF ag b] by (auto simp: agree_beneath_def)
  show ?case
    by (subst (1 2) mkdirAll.simps)
      (auto simp: same d up split: sum.split option.split prod.split os_error.split)
qed

lemma serve_write_beneath:
  assumes rs: "list_all is_comp rs" "sv_Root sv = abs_path rs" and ag: "agree_beneath rs os os'"
    and root: "os_stat os w (abs_path rs) = Inr fi" "fi_IsDir fi"
  shows "\<exists>r. srv_write js os sv req input w = Some r \<and> srv_write js os' sv req input w = Some r"
proof (cases "resolve sv (req_Path req)")
  case (Inl e)
  then show ?thesis by (simp add: srv_write_def)
next
  case (Inr p)
  obtain cs where cs: "list_all is_comp cs" "p = abs_path (rs @ cs)"
    using resolve_beneath [OF rs Inr] by (auto simp: beneath_def)
  have b: "beneath rs p" using cs by (auto simp: beneath_def)
  have same: "os_stat os' w p = os_stat os w p" "os_write os' v p d = os_write os v p d"
    "chown os' sv p v = chown os sv p v" for v d
    using ag b agree_chown [OF ag b] by (auto simp: agree_beneath_def)
  show ?thesis
  proof (cases "\<exists>c ds. cs = ds @ [c]")
    case False
    then have "p = abs_path rs" using cs by (cases cs rule: rev_cases) auto
    then show ?thesis using root same by (simp add: srv_write_def Inr)
  next
    case True
    then obtain ds c where "cs = ds @ [c]" by blast
    then have d: "Dir p = abs_path (rs @ ds)" "list_all is_comp ds"
      using Dir_abs_path [of "rs @ ds" c] cs rs by simp_all
    obtain w1 e1 where mk: "mkdirAll os sv (Dir p) w = Some (w1, e1)" "mkdirAll os' sv (Dir p) w = Some (w1, e1)"
      using mkdirAll_beneath [OF rs(1) d(2) ag root(1), of sv] d(1) by auto
    show ?thesis
      by (auto simp: srv_write_def Inr same mk split: sum.split option.split prod.split)
  qed
qed

lemma serve_op_ends:
  assumes "list_all is_comp rs" "sv_Root sv = abs_path rs"
    "os_stat os (ag_world ag) (abs_path rs) = Inr fi" "fi_IsDir fi"
  shows "serve_op js os sv req input ag \<noteq> None"
proof -
  have "agree_beneath rs os os" by (simp add: agree_beneath_def)
  then obtain a b where "srv_write js os sv req input (ag_world ag) = Some (a, b)"
    using serve_write_beneath [OF assms(1,2) _ assms(3,4), of os js req input] by auto
  then show ?thesis by (simp add: serve_op_def Let_def split: prod.split)
qed

section \<open>Both ends together\<close>

text \<open>A line the other end reads back: its JSON has no newline and is within the limit.\<close>

definition sends_req :: "codec \<Rightarrow> request \<Rightarrow> bool" where
  "sends_req js r \<longleftrightarrow> get_req js (put_req js r) = Some r \<and> CHR 0x0A \<notin> set (put_req js r) \<and> length (put_req js r) < MaxLine"

definition sends_rsp :: "codec \<Rightarrow> response \<Rightarrow> bool" where
  "sends_rsp js r \<longleftrightarrow> get_rsp js (put_rsp js r) = Some r \<and> CHR 0x0A \<notin> set (put_rsp js r) \<and> length (put_rsp js r) < MaxLine"

lemma ServeConn_req:
  "sends_req js req \<Longrightarrow> ServeConn js os sv (put_req js req @ CHR 0x0A # rest) ag = serve_op js os sv req rest ag"
  by (simp add: ServeConn_def sends_req_def readLine_line)

lemma conn_response_reply:
  "sends_rsp js r \<Longrightarrow> conn_response js \<lparr>cn_rwc = w, cn_br = reply js r @ rest\<rparr> =
     (if rs_OK r then Inr (r, \<lparr>cn_rwc = w, cn_br = rest\<rparr>)
      else case rs_Error r of
          None \<Rightarrow> Inl (GuestError (gerr CodeInternal ''the guest agent failed without saying why''))
        | Some e \<Rightarrow> Inl (GuestError e))"
  by (simp add: conn_response_def reply_def sends_rsp_def readLine_line)

lemma client_open_new:
  "client_open js (Some \<lparr>cn_rwc = new_writer None, cn_br = b\<rparr>) req =
     Inr ((), \<lparr>cn_rwc = \<lparr>wr_sent = put_req js req @ [CHR 0x0A], wr_room = None\<rparr>, cn_br = b\<rparr>)"
  by (simp add: client_open_def new_writer_def Write_def)

lemma fail_response_fields [simp]: "\<not> rs_OK (fail_response c m)" "rs_Error (fail_response c m) = Some (gerr c m)"
  by (simp_all add: fail_response_def)

lemma failErr_fields [simp]: "\<not> rs_OK (failErr e)" "\<exists>x. rs_Error (failErr e) = Some x"
  by (cases e; simp add: failErr_def)+

lemma ok_response_OK [simp]: "rs_OK ok_response"
  by (simp add: ok_response_def)

lemma read_answer_shape:
  "read_answer os sv req w = (r, d) \<Longrightarrow>
    (\<not> rs_OK r \<and> (\<exists>e. rs_Error r = Some e) \<and> d = []) \<or> (rs_OK r \<and> rs_Size r = int (length d) \<and> length d \<le> MaxFileBytes)"
  unfolding read_answer_def
  by (cases "resolve sv (req_Path req)"; simp)
    (auto simp: failIsDir_def Let_def split: sum.splits if_splits)

section \<open>A small system\<close>

text \<open>Files in one directory \<open>/r\<close>, and a command that prints and exits; used to apply the properties.\<close>

definition demo_os :: "(bytes \<times> bytes) list os" where
  "demo_os = \<lparr>
     os_stat = (\<lambda>w p. if p = ''/r'' then Inr \<lparr>fi_IsDir = True, fi_Size = 0, fi_Exec = True\<rparr>
       else case map_of w p of None \<Rightarrow> Inl ENotExist
         | Some d \<Rightarrow> Inr \<lparr>fi_IsDir = False, fi_Size = length d, fi_Exec = True\<rparr>),
     os_open = (\<lambda>w p. case map_of w p of None \<Rightarrow> Inl ENotExist
       | Some d \<Rightarrow> Inr \<lparr>of_stat = Inr \<lparr>fi_IsDir = False, fi_Size = length d, fi_Exec = True\<rparr>, of_data = Inr d\<rparr>),
     os_mkdir = (\<lambda>w p. (w, Some EReadOnly)),
     os_write = (\<lambda>w p d. ((p, d) # w, None)),
     os_remove = (\<lambda>w p. (filter (\<lambda>(k, _). k \<noteq> p) w, None)),
     os_readdir = (\<lambda>w p. Inr []),
     os_lchown = (\<lambda>w p _ _. w),
     os_root = False,
     os_pty = (\<lambda>_. None),
     os_start = (\<lambda>w _. Inr (\<lparr>pr_out = [(FrameStdout, ''ok'')], pr_state = Exited 0\<rparr>, w)),
     os_dial = (\<lambda>_ _. None),
     os_sync = (\<lambda>_ w. w)\<rparr>"

definition demo_server :: "(bytes \<times> bytes) list server" where
  "demo_server = \<lparr>sv_Root = ''/r'', sv_UID = 0, sv_GID = 0, sv_BaseEnv = [], sv_Home = [],
     sv_GrowScratch = None, sv_SetClock = None, sv_Stats = None\<rparr>"

definition demo_agent :: "(bytes \<times> bytes) list agent" where
  "demo_agent = \<lparr>ag_world = [(''/r/f'', ''hi'')], ag_guest = guest0, ag_inputs = []\<rparr>"

definition demo_codec :: "request \<Rightarrow> response \<Rightarrow> codec" where
  "demo_codec q r = \<lparr>put_req = (\<lambda>_. ''q''), get_req = (\<lambda>_. Some q), put_rsp = (\<lambda>_. ''r''), get_rsp = (\<lambda>_. Some r)\<rparr>"

lemma demo_sends: "sends_req (demo_codec q r) q" "sends_rsp (demo_codec q r) r"
  by (simp_all add: sends_req_def sends_rsp_def demo_codec_def MaxLine_def)

lemma demo_root: "list_all is_comp [''r'']" "sv_Root demo_server = abs_path [''r'']"
  "os_stat demo_os w (abs_path [''r'']) = Inr \<lparr>fi_IsDir = True, fi_Size = 0, fi_Exec = True\<rparr>"
  by (simp_all add: demo_server_def demo_os_def abs_path_def is_comp_def)

lemma demo_answers:
  "\<exists>ag' out. ServeConn (demo_codec q r) demo_os demo_server (put_req (demo_codec q r) q @ CHR 0x0A # rest) demo_agent
     = Some (ag', out)"
proof -
  have "serve_op (demo_codec q r) demo_os demo_server q rest demo_agent \<noteq> None"
    by (rule serve_op_ends [OF demo_root]) simp
  then show ?thesis by (auto simp: ServeConn_req [OF demo_sends(1)])
qed

text \<open>
  \<open>lookPath\<close> is not kept inside the root: a PATH entry with a dot-dot is joined and cleaned like any
  other, so the lookup may return an executable beside it.
\<close>

lemma lookPath_leaves_root:
  "lookPath demo_os [(''/bin/ls'', [])] ''ls'' ''/../bin'' ''/r'' = Some ''/bin/ls''"
  by code_simp

section \<open>Properties\<close>

text \<open>
  C26: The agent asks the operating system only about paths beneath its root. Whatever path a read,
  write, remove or list request names, its answer and its effect are the same under any two operating
  systems that agree on the paths beneath the root, so nothing outside can be read, changed or even
  probed; in particular no path with a dot-dot gets out.
\<close>

theorem agent_stays_beneath_root:
  assumes "list_all is_comp rs" "sv_Root sv = abs_path rs" "agree_beneath rs os os'"
    "os_stat os (ag_world ag) (abs_path rs) = Inr fi" "fi_IsDir fi"
    "req_Op req \<in> {OpRead, OpWrite, OpRemove, OpList}"
  shows "serve_op js os' sv req input ag = serve_op js os sv req input ag"
proof -
  have w: "srv_write js os' sv req input (ag_world ag) = srv_write js os sv req input (ag_world ag)"
    using serve_write_beneath [OF assms(1-5)] by (metis option.inject)
  have same: "os_stat os' v p = os_stat os v p \<and> os_open os' v p = os_open os v p \<and>
      os_remove os' v p = os_remove os v p \<and> os_readdir os' v p = os_readdir os v p"
    if "resolve sv (req_Path req) = Inr p" for p v
    using resolve_beneath [OF assms(1,2) that] assms(3) by (simp add: agree_beneath_def)
  have rest: "srv_read js os' sv req (ag_world ag) = srv_read js os sv req (ag_world ag)
     \<and> srv_remove js os' sv req (ag_world ag) = srv_remove js os sv req (ag_world ag)
     \<and> srv_list js os' sv req (ag_world ag) = srv_list js os sv req (ag_world ag)"
  proof (cases "resolve sv (req_Path req)")
    case (Inl e)
    then show ?thesis by (simp add: srv_read_def read_answer_def srv_remove_def srv_list_def)
  next
    case (Inr p)
    show ?thesis
      by (simp add: srv_read_def read_answer_def srv_remove_def srv_list_def Inr same [OF Inr] split: sum.split)
  qed
  consider "req_Op req = OpRead" | "req_Op req = OpWrite" | "req_Op req = OpRemove" | "req_Op req = OpList"
    using assms(6) by blast
  then show ?thesis by cases (simp_all add: serve_op_def op_defs w rest)
qed

theorem agent_stays_beneath_root_witness:
  "serve_op (demo_codec (request0 OpPing) ok_response)
     (demo_os\<lparr>os_stat := (\<lambda>w p. if HasPrefix p ''/r'' then os_stat demo_os w p else Inl EReadOnly)\<rparr>)
     demo_server (request0 OpRead\<lparr>req_Path := ''/../x''\<rparr>) [] demo_agent
   = serve_op (demo_codec (request0 OpPing) ok_response) demo_os demo_server (request0 OpRead\<lparr>req_Path := ''/../x''\<rparr>) [] demo_agent"
proof (rule agent_stays_beneath_root [OF demo_root(1,2) _ demo_root(3)])
  have "HasPrefix p ''/r''" if "beneath [''r''] p" for p
    using that by (auto simp: beneath_def abs_path_def HasPrefix_iff)
  then show "agree_beneath [''r''] demo_os
     (demo_os\<lparr>os_stat := (\<lambda>w p. if HasPrefix p ''/r'' then os_stat demo_os w p else Inl EReadOnly)\<rparr>)"
    by (simp add: agree_beneath_def)
qed (simp_all add: request0_def)

text \<open>
  Every connection is answered: whatever bytes a host sends, the agent's handling of them ends,
  the creation of missing parent directories included, as long as its root is a directory.
\<close>

theorem agent_answers:
  assumes "list_all is_comp rs" "sv_Root sv = abs_path rs"
    "os_stat os (ag_world ag) (abs_path rs) = Inr fi" "fi_IsDir fi"
  shows "\<exists>ag' out. ServeConn js os sv s ag = Some (ag', out)"
proof (cases "readLine s MaxLine")
  case (Inr r)
  have "serve_op js os sv req rest ag \<noteq> None" for req rest by (rule serve_op_ends [OF assms])
  then show ?thesis by (auto simp: ServeConn_def Inr split: option.split prod.split)
qed (simp add: ServeConn_def)

theorem agent_answers_witness:
  "\<exists>ag' out. ServeConn (demo_codec (request0 OpPing) ok_response) demo_os demo_server ''ping'' demo_agent = Some (ag', out)"
  by (rule agent_answers [OF demo_root]) simp

text \<open>
  A file read over the wire is the file: the host's \<open>ReadFile\<close>, given what the agent answers to
  the bytes \<open>ReadFile\<close> sends, returns exactly the contents the agent read, or the agent's error; the
  announced size always matches and never passes \<open>MaxFileBytes\<close>.
\<close>

theorem read_file_over_wire:
  assumes "req = request0 OpRead\<lparr>req_Path := path\<rparr>" "sends_req js req"
    "read_answer os sv req (ag_world ag) = (r, contents)" "sends_rsp js r"
    "ServeConn js os sv (put_req js req @ [CHR 0x0A]) ag = Some (ag', out)"
  shows "ag' = ag \<and> ReadFile js (Some \<lparr>cn_rwc = new_writer None, cn_br = out\<rparr>) path =
    (if rs_OK r then Inr contents else Inl (GuestError (the (rs_Error r))))"
proof -
  have o: "ag' = ag" "out = reply js r @ contents"
    using assms(3,5) ServeConn_req [OF assms(2), of os sv "[]" ag] assms(1)
    by (auto simp: serve_op_def srv_read_def request0_def op_defs)
  have "roundtrip js (Some \<lparr>cn_rwc = new_writer None, cn_br = out\<rparr>) req =
     conn_response js \<lparr>cn_rwc = \<lparr>wr_sent = put_req js req @ [CHR 0x0A], wr_room = None\<rparr>, cn_br = reply js r @ contents\<rparr>"
    by (simp add: roundtrip_def client_open_new o)
  then show ?thesis
    using read_answer_shape [OF assms(3)] o(1)
    by (auto simp: ReadFile_def assms(1) [symmetric] conn_response_reply [OF assms(4)] ReadFull_def)
qed

theorem read_file_over_wire_witness:
  "\<exists>js out. ReadFile js (Some \<lparr>cn_rwc = new_writer None, cn_br = out\<rparr>) ''/f'' = Inr ''hi''"
proof -
  let ?req = "request0 OpRead\<lparr>req_Path := ''/f''\<rparr>"
  let ?r = "ok_response\<lparr>rs_Size := 2\<rparr>"
  have ra: "read_answer demo_os demo_server ?req (ag_world demo_agent) = (?r, ''hi'')" by code_simp
  obtain ag' out where "ServeConn (demo_codec ?req ?r) demo_os demo_server
      (put_req (demo_codec ?req ?r) ?req @ [CHR 0x0A]) demo_agent = Some (ag', out)"
    using demo_answers by blast
  from read_file_over_wire [OF refl demo_sends(1) ra demo_sends(2) this] show ?thesis by auto
qed

text \<open>
  A file written over the wire arrives whole: the bytes \<open>WriteFile\<close> sends make the agent write
  exactly the host's data to the resolved path, and the two answers the agent gives are the ones the
  call waits for.
\<close>

theorem write_file_over_wire:
  assumes "req = request0 OpWrite\<lparr>req_Path := path, req_Size := int (length data)\<rparr>" "sends_req js req"
    "sends_rsp js ok_response" "length data \<le> MaxFileBytes" "resolve sv path = Inr p"
    "\<not> (case os_stat os (ag_world ag) p of Inr fi \<Rightarrow> fi_IsDir fi | Inl _ \<Rightarrow> False)"
    "mkdirAll os sv (Dir p) (ag_world ag) = Some (w1, None)" "os_write os w1 p data = (w2, None)"
  shows "\<exists>cn out. WriteFile js (Some \<lparr>cn_rwc = new_writer None, cn_br = out\<rparr>) path data = Inr cn \<and>
    ServeConn js os sv (wr_sent (cn_rwc cn)) ag = Some (ag\<lparr>ag_world := chown os sv p w2\<rparr>, out)"
proof -
  let ?out = "reply js ok_response @ reply js ok_response"
  let ?cn = "\<lparr>cn_rwc = \<lparr>wr_sent = put_req js req @ CHR 0x0A # data, wr_room = None\<rparr>, cn_br = []\<rparr>"
  have c2: "conn_response js \<lparr>cn_rwc = w, cn_br = reply js ok_response\<rparr> = Inr (ok_response, \<lparr>cn_rwc = w, cn_br = []\<rparr>)" for w
    using conn_response_reply [OF assms(3), of w "[]"] by simp
  have "WriteFile js (Some \<lparr>cn_rwc = new_writer None, cn_br = ?out\<rparr>) path data = Inr ?cn"
    using assms(4)
    by (simp add: WriteFile_def roundtrip_def client_open_new conn_response_reply [OF assms(3)] c2 Write_def assms(1))
  moreover have "srv_write js os sv req data (ag_world ag) = Some (chown os sv p w2, ?out)"
    using assms by (simp add: srv_write_def request0_def ReadFull_def)
  then have "ServeConn js os sv (wr_sent (cn_rwc ?cn)) ag = Some (ag\<lparr>ag_world := chown os sv p w2\<rparr>, ?out)"
    using ServeConn_req [OF assms(2), of os sv data ag] assms(1) by (simp add: serve_op_def request0_def op_defs)
  ultimately show ?thesis by blast
qed

theorem write_file_over_wire_witness:
  "\<exists>js cn out. WriteFile js (Some \<lparr>cn_rwc = new_writer None, cn_br = out\<rparr>) ''/g'' ''new'' = Inr cn \<and>
     ServeConn js demo_os demo_server (wr_sent (cn_rwc cn)) demo_agent =
       Some (demo_agent\<lparr>ag_world := [(''/r/g'', ''new''), (''/r/f'', ''hi'')]\<rparr>, out)"
proof -
  let ?req = "request0 OpWrite\<lparr>req_Path := ''/g'', req_Size := int (length ''new'')\<rparr>"
  have c: "resolve demo_server ''/g'' = Inr ''/r/g''" "Dir ''/r/g'' = ''/r''"
    "chown demo_os demo_server ''/r/g'' w = w" for w
    by (code_simp, code_simp, simp add: chown_def demo_os_def)
  have m: "mkdirAll demo_os demo_server ''/r'' w = Some (w, None)" for w
    by (subst mkdirAll.simps) (simp add: demo_os_def)
  have f: "length ''new'' \<le> MaxFileBytes" "os_stat demo_os (ag_world demo_agent) ''/r/g'' = Inl ENotExist"
    "os_write demo_os (ag_world demo_agent) ''/r/g'' ''new'' = ([(''/r/g'', ''new''), (''/r/f'', ''hi'')], None)"
    by (simp_all add: demo_os_def demo_agent_def MaxFileBytes_def)
  show ?thesis
    using write_file_over_wire [OF refl demo_sends(1) demo_sends(2), where os = demo_os and sv = demo_server
        and ag = demo_agent and path = "''/g''" and data = "''new''" and p = "''/r/g''" and ?w1.0 = "ag_world demo_agent"
        and ?w2.0 = "[(''/r/g'', ''new''), (''/r/f'', ''hi'')]"] f by (simp only: c m sum.case) blast
qed

text \<open>
  C27: A command run over the wire: when the agent starts the process, the host's \<open>Exec\<close> ends up with
  everything the process wrote to stdout and to stderr, in order, and with its exit code (128 and the
  signal's number for one killed by a signal).
\<close>

theorem exec_over_wire:
  assumes "sends_req js (req\<lparr>req_Op := OpExec\<rparr>)" "sends_rsp js ok_response"
    "req_Argv req \<noteq> []" "hd (req_Argv req) \<noteq> []" "\<not> req_Keep req"
    "start_process os sv (req\<lparr>req_Op := OpExec\<rparr>) (ag_world ag) = Inr (p, w')"
    "list_all output_frame (pr_out p)" "- (2 ^ 31) \<le> exitCode (pr_state p)" "exitCode (pr_state p) < 2 ^ 31"
    "ServeConn js os sv (put_req js (req\<lparr>req_Op := OpExec\<rparr>) @ CHR 0x0A # input) ag = Some (ag', out)"
  shows "\<exists>cn. ExecRequest js (Some \<lparr>cn_rwc = new_writer None, cn_br = out\<rparr>) req =
    Inr (\<lparr>p_stdout = payloads FrameStdout (pr_out p), p_stderr = payloads FrameStderr (pr_out p),
          p_dropped = [], p_code = exitCode (pr_state p)\<rparr>, cn) \<and>
    ag_inputs ag' = ag_inputs ag @ host_frames (req_Tty req) input"
proof -
  let ?req = "req\<lparr>req_Op := OpExec\<rparr>"
  have o: "out = reply js ok_response @ concat (map put_frame (exec_frames p))"
    "ag_inputs ag' = ag_inputs ag @ host_frames (req_Tty req) input"
    using assms(3-6,10) ServeConn_req [OF assms(1), of os sv input ag]
    by (auto simp: serve_op_def srv_exec_def op_defs)
  have "pump (concat (map put_frame (pr_out p)) @ put_frame (exit_frame (exitCode (pr_state p))) @ []) pumped0 =
     \<lparr>p_stdout = payloads FrameStdout (pr_out p), p_stderr = payloads FrameStderr (pr_out p),
          p_dropped = [], p_code = exitCode (pr_state p)\<rparr>"
    unfolding pump_outputs [OF assms(7)] pump_exit [OF assms(8,9)] by (simp add: pumped0_def)
  then show ?thesis
    by (simp add: ExecRequest_def roundtrip_def client_open_new o conn_response_reply [OF assms(2)] exec_frames_def)
qed

theorem exec_over_wire_witness:
  "\<exists>js out p cn. ExecRequest js (Some \<lparr>cn_rwc = new_writer None, cn_br = out\<rparr>)
     (request0 OpExec\<lparr>req_Argv := [''/r/f'']\<rparr>) = Inr (p, cn) \<and> p_stdout p = ''ok'' \<and> p_code p = 0"
proof -
  let ?req = "request0 OpExec\<lparr>req_Argv := [''/r/f'']\<rparr>"
  have q: "?req\<lparr>req_Op := OpExec\<rparr> = ?req" by (simp add: request0_def)
  let ?p = "\<lparr>pr_out = [(FrameStdout, ''ok'')], pr_state = Exited 0\<rparr>"
  have st: "start_process demo_os demo_server ?req (ag_world demo_agent) = Inr (?p, ag_world demo_agent)" by code_simp
  obtain ag' out where o: "ServeConn (demo_codec ?req ok_response) demo_os demo_server
      (put_req (demo_codec ?req ok_response) ?req @ CHR 0x0A # []) demo_agent = Some (ag', out)"
    using demo_answers by blast
  have "list_all output_frame (pr_out ?p)" by code_simp
  moreover have "payloads FrameStdout (pr_out ?p) = ''ok''" by code_simp
  ultimately show ?thesis
    using exec_over_wire [of "demo_codec ?req ok_response" ?req demo_os demo_server demo_agent ?p "ag_world demo_agent" "[]" ag' out]
      demo_sends [of ?req ok_response] st o unfolding q by (fastforce simp: request0_def exitCode_def)
qed

text \<open>
  One connection at a time drives a kept process: in every reachable state, of two connections that
  are being served on one session at most one has its input and signals passed to the process, under
  every interleaving of attaches.
\<close>

theorem one_connection_drives:
  assumes "guest_reach g" "i < length (g_atts g)" "j < length (g_atts g)" "i \<noteq> j"
    "a_ptr (g_atts g ! i) = a_ptr (g_atts g ! j)" "a_phase (g_atts g ! i) \<noteq> Begin" "a_phase (g_atts g ! j) \<noteq> Begin"
    "session_frame (g_heap g ! a_ptr (g_atts g ! i)) (g_atts g ! i) t payload \<noteq> None"
  shows "session_frame (g_heap g ! a_ptr (g_atts g ! j)) (g_atts g ! j) u q = None"
proof -
  have "gens_ok g" using guest_run.inv_reach [OF assms(1)] by (simp add: guest_ok_def)
  then have "a_gen (g_atts g ! i) \<noteq> a_gen (g_atts g ! j)" using assms(2-7) by (simp add: gens_ok_def)
  then show ?thesis using assms(5,8) by (auto simp: session_frame_def split: if_splits)
qed

text \<open>A second connection takes the session over.\<close>

definition demo_taken_over :: guest where
  "demo_taken_over = serve_begin 1 (snd (attach (request0 OpAttach\<lparr>req_Session := ''a''\<rparr>) demo_asleep))"

lemma demo_taken_over_reach: "guest_reach demo_taken_over"
  unfolding demo_taken_over_def
  by (rule step_back, rule g_begin, code_simp, code_simp, rule step_back, rule g_attach, rule demo_asleep_reach)

theorem one_connection_drives_witness:
  "session_frame (g_heap demo_taken_over ! 0) (g_atts demo_taken_over ! 1) FrameStdin ''x'' = Some [PStdin ''x''] \<and>
   session_frame (g_heap demo_taken_over ! 0) (g_atts demo_taken_over ! 0) FrameStdin ''y'' = None"
proof -
  have c: "1 < length (g_atts demo_taken_over)" "0 < length (g_atts demo_taken_over)"
    "a_ptr (g_atts demo_taken_over ! 1) = a_ptr (g_atts demo_taken_over ! 0)"
    "a_phase (g_atts demo_taken_over ! 1) \<noteq> Begin" "a_phase (g_atts demo_taken_over ! 0) \<noteq> Begin"
    "a_ptr (g_atts demo_taken_over ! 0) = 0" by code_simp+
  have d: "session_frame (g_heap demo_taken_over ! 0) (g_atts demo_taken_over ! 1) FrameStdin ''x'' = Some [PStdin ''x'']"
    by code_simp
  then show ?thesis
    using one_connection_drives [OF demo_taken_over_reach c(1,2) _ c(3-5), of FrameStdin "''x''" FrameStdin "''y''"] c(3,6)
    by simp
qed

end
