(* ===== verification/Spec_Resolve.thy ===== *)
theory Spec_Resolve
  imports Api_Types Egress_Host Go_Path
begin

text \<open>
  \<open>internal/spec/spec.go\<close>: an API request becomes a fully resolved sandbox against the server's
  policy, or is refused. The parameter \<open>lr\<close> of the functions that lower-case a name is
  Unicode's simple lower-case mapping of non-ASCII code points, as in \<open>Go_Strings\<close>.
\<close>

subsection \<open>Errors\<close>

text \<open>One constructor per message; \<open>Invalid\<close> and \<open>Refused\<close> are the two error types the API maps
  to different answers.\<close>

datatype volume_reason =
    TooManyVolumes | BadVolumeName bytes | VolumeTwice bytes | BadVolumePath bytes bytes
  | ReservedMount bytes bytes | NestedMounts bytes bytes

datatype label_reason =
    TooManyLabels | BadLabelKey bytes | LabelTooLong bytes | LabelNotUTF8 bytes | LabelControl bytes

datatype time_reason =
    IdleNegative | IdleTooLong int | IdleNeverRefused | BadIdleAction bytes
  | LifetimeNegative | LifetimeTooLong int | LifetimeZero
  | ScheduleNegative | KeepWithoutEvery | EveryTooShort int | KeepTooMany int

datatype gpu_reason =
    GPUNegative | GPUNone int | GPUTooMany int | GPUSuspend | GPUSchedule | GPUSnapshot

datatype network_reason =
    NetworkRequired | NetworkGroups "bytes list" | BadMode bytes | AboveCeiling bytes bytes
  | BadHost bytes bytes | NoAllowList bytes | MayNotAllow bytes | EmptyAllowList

datatype reason =
    BadName bytes | BadImage bytes | ImageNotPermitted bytes
  | Vol volume_reason | Lab label_reason | Time time_reason | GPU gpu_reason | Net network_reason
  | BadCPUs f64 | BadMemory int | BadDisk int | DiskShrinks int int
  | BadEnvName bytes | ReservedEnv bytes | EnvNul bytes

datatype spec_error = Invalid reason | Refused reason

text \<open>What makes a server's own policy incoherent.\<close>

datatype policy_error =
    NoDefaultImage | CeilingNotMode bytes | NegativeGPUs | NegativeLifetime
  | DefaultNotPermitted spec_error | PoolSize bytes | TwoPools bytes | PoolImage bytes
  | DefaultResources | SnapshotLimits | NegativeExport
  | PolicyRead | PolicyNetworkDefault spec_error

subsection \<open>The server's policy\<close>

record Pool =
  po_Image :: bytes
  po_Size :: int

record ServerNetwork =
  sn_Default :: NetworkPolicy
  sn_Ceiling :: bytes
  sn_MayAllow :: "bytes list option"

record Policy =
  p_DefaultImage :: bytes
  p_Images :: "bytes list option"
  p_DefaultCPUs :: f64
  p_DefaultMemoryMB :: int
  p_DefaultDiskMB :: int
  p_DefaultIdleSecs :: int
  p_Limits :: Limits
  p_Network :: ServerNetwork
  p_Pools :: "Pool list"

definition MaxPoolSize :: int where "MaxPoolSize = 32"
definition MaxVolumeMounts :: nat where "MaxVolumeMounts = 8"
definition MaxLabels :: nat where "MaxLabels = 32"
definition MaxLabelValueBytes :: nat where "MaxLabelValueBytes = 256"
definition minMemoryMB :: int where "minMemoryMB = 128"

definition open_policy :: NetworkPolicy where
  "open_policy = zero_network\<lparr>np_Mode := ''open''\<rparr>"

definition none_policy :: NetworkPolicy where
  "none_policy = zero_network\<lparr>np_Mode := ''none''\<rparr>"

definition DefaultPolicy :: "bytes \<Rightarrow> Policy" where
  "DefaultPolicy defaultImage = \<lparr>p_DefaultImage = defaultImage, p_Images = None,
     p_DefaultCPUs = Fin 1, p_DefaultMemoryMB = 1024, p_DefaultDiskMB = 10240, p_DefaultIdleSecs = 1800,
     p_Limits = \<lparr>l_MaxCPUs = Fin 8, l_MaxMemoryMB = 16384, l_MaxDiskMB = 102400,
       l_MaxIdleTimeoutSecs = 7 * 24 * 3600, l_MaxLifetimeSecs = 0, l_MinSnapshotEverySecs = 300,
       l_MaxSnapshotKeep = 5, l_MinMetricsExportSecs = 10, l_MaxGPUs = 8\<rparr>,
     p_Network = \<lparr>sn_Default = open_policy, sn_Ceiling = ''open'', sn_MayAllow = Some [''*'']\<rparr>,
     p_Pools = []\<rparr>"

subsection \<open>Shapes of names\<close>

definition nameRE :: rx where
  "nameRE = Seq (Cls lower_digit) (Upto 62 (Cls lower_digit_dash))"

definition envNameRE :: rx where
  "envNameRE = Seq (Cls [(CHR ''A'', CHR ''Z''), (CHR ''a'', CHR ''z''), (CHR ''_'', CHR ''_'')])
     (Star (Cls [(CHR ''A'', CHR ''Z''), (CHR ''a'', CHR ''z''), (CHR ''0'', CHR ''9''), (CHR ''_'', CHR ''_'')]))"

definition imageRE :: rx where
  "imageRE = Seq (Cls [(CHR ''A'', CHR ''Z''), (CHR ''a'', CHR ''z''), (CHR ''0'', CHR ''9'')])
     (Upto 254 (Cls [(CHR ''A'', CHR ''Z''), (CHR ''a'', CHR ''z''), (CHR ''0'', CHR ''9''), (CHR ''.'', CHR ''.''),
       (CHR ''_'', CHR ''_''), (CHR ''/'', CHR ''/''), (CHR '':'', CHR '':''), (CHR ''@'', CHR ''@''), (CHR ''-'', CHR ''-'')]))"

definition idRE :: rx where
  "idRE = Seq (Lit ''sbx_'')
     (Seq (Opt (Seq (Cls lower_digit) (Seq (Upto 30 (Cls lower_digit_dash)) (Lit ''_''))))
       (Times 16 (Cls [(CHR ''0'', CHR ''9''), (CHR ''a'', CHR ''f'')])))"

definition volumePathRE :: rx where
  "volumePathRE = Plus (Seq (Lit ''/'') (Plus (Cls [(CHR ''A'', CHR ''Z''), (CHR ''a'', CHR ''z''), (CHR ''0'', CHR ''9''),
     (CHR ''.'', CHR ''.''), (CHR ''_'', CHR ''_''), (CHR ''-'', CHR ''-'')])))"

definition labelKeyRE :: rx where
  "labelKeyRE = Seq (Cls lower_digit) (Upto 62 (Cls [(CHR ''a'', CHR ''z''), (CHR ''0'', CHR ''9''), (CHR ''.'', CHR ''.''),
     (CHR ''_'', CHR ''_''), (CHR ''/'', CHR ''/''), (CHR ''-'', CHR ''-'')]))"

definition labelRE :: rx where
  "labelRE = Seq (Cls lower_digit) (Opt (Seq (Upto 61 (Cls lower_digit_dash)) (Cls lower_digit)))"

definition hostRE :: rx where
  "hostRE = Seq (Opt (Lit ''*.'')) (Seq (Star (Seq labelRE (Lit ''.''))) labelRE)"

definition ValidID :: "bytes \<Rightarrow> bool" where
  "ValidID s = rx_match idRE s"

definition ValidName :: "bytes \<Rightarrow> bool" where
  "ValidName s = rx_match nameRE s"

text \<open>The id a node makes, from the sixteen hexadecimal digits of its eight random bytes.\<close>

definition NewIDFor :: "bytes \<Rightarrow> bytes \<Rightarrow> bytes" where
  "NewIDFor node hex = (if node = [] then ''sbx_'' @ hex
     else ''sbx_'' @ node @ ''_'' @ TrimPrefix (''sbx_'' @ hex) ''sbx_'')"

subsection \<open>Images, names, volumes, labels\<close>

definition images_refuse :: "Policy \<Rightarrow> bytes \<Rightarrow> bool" where
  "images_refuse pol img \<longleftrightarrow> items (p_Images pol) \<noteq> [] \<and> img \<notin> set (items (p_Images pol))"

definition CheckImage :: "bytes \<Rightarrow> Policy \<Rightarrow> spec_error option" where
  "CheckImage img pol =
    (if \<not> rx_match imageRE img then Some (Invalid (BadImage img))
     else if images_refuse pol img then Some (Refused (ImageNotPermitted img))
     else None)"

definition CheckName :: "bytes \<Rightarrow> spec_error option" where
  "CheckName name = (if name \<noteq> [] \<and> \<not> ValidName name then Some (Invalid (BadName name)) else None)"

definition reservedMountRoots :: "bytes list" where
  "reservedMountRoots = [''/proc'', ''/sys'', ''/dev'', ''/run'', ''/etc'', ''/usr'', ''/bin'', ''/sbin'',
     ''/lib'', ''/lib32'', ''/lib64'', ''/libx32'', ''/boot'', ''/tmp'']"

definition plain_path :: "bytes \<Rightarrow> bool" where
  "plain_path p \<longleftrightarrow> rx_match volumePathRE p \<and> \<not> Contains p ''/./'' \<and> \<not> Contains p ''/../'' \<and>
     \<not> HasSuffix p ''/.'' \<and> \<not> HasSuffix p ''/..''"

definition check_volume :: "VolumeMount list \<Rightarrow> VolumeMount \<Rightarrow> spec_error option" where
  "check_volume prev m =
    (if \<not> ValidName (vm_Name m) then Some (Invalid (Vol (BadVolumeName (vm_Name m))))
     else if vm_Name m \<in> vm_Name ` set prev then Some (Invalid (Vol (VolumeTwice (vm_Name m))))
     else if \<not> plain_path (vm_Path m) then Some (Invalid (Vol (BadVolumePath (vm_Name m) (vm_Path m))))
     else case find (\<lambda>r. under r (vm_Path m)) reservedMountRoots of
       Some r \<Rightarrow> Some (Invalid (Vol (ReservedMount (vm_Name m) r)))
     | None \<Rightarrow>
        (case find (\<lambda>v. vm_Path m = vm_Path v \<or> HasPrefix (vm_Path m) (vm_Path v @ ''/'') \<or>
             HasPrefix (vm_Path v) (vm_Path m @ ''/'')) prev of
           Some v \<Rightarrow> Some (Invalid (Vol (NestedMounts (vm_Name v) (vm_Name m))))
         | None \<Rightarrow> None))"

fun check_volumes :: "VolumeMount list \<Rightarrow> VolumeMount list \<Rightarrow> spec_error option" where
  "check_volumes prev [] = None"
| "check_volumes prev (m # ms) =
    (case check_volume prev m of Some e \<Rightarrow> Some e | None \<Rightarrow> check_volumes (prev @ [m]) ms)"

definition ValidateVolumeMounts :: "VolumeMount list \<Rightarrow> spec_error option" where
  "ValidateVolumeMounts mounts =
    (if MaxVolumeMounts < length mounts then Some (Invalid (Vol TooManyVolumes)) else check_volumes [] mounts)"

definition control_rune :: "nat \<Rightarrow> bool" where
  "control_rune r \<longleftrightarrow> r < 0x20 \<or> r = 0x7f \<or> (0x80 \<le> r \<and> r \<le> 0x9f)"

definition check_label :: "bytes \<times> bytes \<Rightarrow> spec_error option" where
  "check_label kv = (case kv of (k, v) \<Rightarrow>
     if \<not> rx_match labelKeyRE k then Some (Invalid (Lab (BadLabelKey k)))
     else if MaxLabelValueBytes < length v then Some (Invalid (Lab (LabelTooLong k)))
     else if \<not> valid_utf8 v then Some (Invalid (Lab (LabelNotUTF8 k)))
     else if list_ex control_rune (runes v) then Some (Invalid (Lab (LabelControl k)))
     else None)"

definition ValidateLabels :: "(bytes \<times> bytes) list \<Rightarrow> spec_error option" where
  "ValidateLabels labels =
    (if MaxLabels < length labels then Some (Invalid (Lab TooManyLabels)) else for_all_ok check_label labels)"

subsection \<open>Environment, devices, timeouts, schedules\<close>

definition check_env :: "bytes \<times> bytes \<Rightarrow> spec_error option" where
  "check_env kv = (case kv of (k, v) \<Rightarrow>
     if \<not> rx_match envNameRE k then Some (Invalid (BadEnvName k))
     else if IsReservedEnv k then Some (Refused (ReservedEnv k))
     else if CHR 0x00 \<in> set v then Some (Invalid (EnvNul k))
     else None)"

definition ResolveEnv :: "(bytes \<times> bytes) list \<Rightarrow> (spec_error, (bytes \<times> bytes) list) result" where
  "ResolveEnv env = (case for_all_ok check_env env of Some e \<Rightarrow> Inl e | None \<Rightarrow> Inr env)"

definition checkGPUs :: "CreateSandboxRequest \<Rightarrow> Limits \<Rightarrow> spec_error option" where
  "checkGPUs req l = (let n = rq_GPUs req in
     if n = 0 then None
     else if n < 0 then Some (Invalid (GPU GPUNegative))
     else if l_MaxGPUs l = 0 then Some (Invalid (GPU (GPUNone n)))
     else if n > l_MaxGPUs l then Some (Invalid (GPU (GPUTooMany n)))
     else if rq_IdleAction req = ''suspend'' then Some (Invalid (GPU GPUSuspend))
     else if rq_SnapshotEverySecs req > 0 then Some (Invalid (GPU GPUSchedule))
     else if rq_SnapshotID req \<noteq> [] then Some (Invalid (GPU GPUSnapshot))
     else None)"

definition ResolveIdleAction :: "bytes \<Rightarrow> (spec_error, bytes) result" where
  "ResolveIdleAction action =
    (if action = [] \<or> action = ''terminate'' then Inr []
     else if action = ''suspend'' then Inr ''suspend''
     else Inl (Invalid (Time (BadIdleAction action))))"

definition resolve_idle :: "int \<Rightarrow> Policy \<Rightarrow> (spec_error, int) result" where
  "resolve_idle idle pol =
    (if idle < 0 then Inl (Invalid (Time IdleNegative))
     else if idle = 0 then Inr (p_DefaultIdleSecs pol)
     else if l_MaxIdleTimeoutSecs (p_Limits pol) > 0 \<and> idle > l_MaxIdleTimeoutSecs (p_Limits pol)
       then Inl (Invalid (Time (IdleTooLong idle)))
     else Inr idle)"

definition resolve_lifetime :: "int \<Rightarrow> Limits \<Rightarrow> (spec_error, int) result" where
  "resolve_lifetime life l = (let mx = l_MaxLifetimeSecs l in
     if life < 0 then Inl (Invalid (Time LifetimeNegative))
     else if life = 0 then Inr mx
     else if mx > 0 \<and> life > mx then Inl (Invalid (Time (LifetimeTooLong life)))
     else Inr life)"

definition ResolveIdleUpdate :: "int \<Rightarrow> Policy \<Rightarrow> (spec_error, int) result" where
  "ResolveIdleUpdate idle pol = (let mx = l_MaxIdleTimeoutSecs (p_Limits pol) in
     if idle < 0 then Inl (Invalid (Time IdleNegative))
     else if idle = 0 \<and> mx > 0 then Inl (Invalid (Time IdleNeverRefused))
     else if mx > 0 \<and> idle > mx then Inl (Invalid (Time (IdleTooLong idle)))
     else Inr idle)"

definition ResolveLifetimeUpdate :: "int \<Rightarrow> Policy \<Rightarrow> (spec_error, int) result" where
  "ResolveLifetimeUpdate life pol = (let mx = l_MaxLifetimeSecs (p_Limits pol) in
     if life \<le> 0 then Inl (Invalid (Time LifetimeZero))
     else if mx > 0 \<and> life > mx then Inl (Invalid (Time (LifetimeTooLong life)))
     else Inr life)"

definition ResolveSchedule :: "SnapshotSchedule \<Rightarrow> Limits \<Rightarrow> (spec_error, SnapshotSchedule) result" where
  "ResolveSchedule s l =
    (if sc_EverySecs s < 0 \<or> sc_Keep s < 0 then Inl (Invalid (Time ScheduleNegative))
     else if sc_EverySecs s = 0 \<and> sc_Keep s \<noteq> 0 then Inl (Invalid (Time KeepWithoutEvery))
     else if sc_EverySecs s = 0 then Inr \<lparr>sc_EverySecs = 0, sc_Keep = 0\<rparr>
     else if sc_EverySecs s < l_MinSnapshotEverySecs l then Inl (Invalid (Time (EveryTooShort (sc_EverySecs s))))
     else let s' = (if sc_Keep s = 0 then s\<lparr>sc_Keep := 1\<rparr> else s) in
       if sc_Keep s' > l_MaxSnapshotKeep l then Inl (Invalid (Time (KeepTooMany (sc_Keep s')))) else Inr s')"

definition ResolveResize ::
    "ResizeSandboxRequest \<Rightarrow> NodeResources \<Rightarrow> Policy \<Rightarrow> (spec_error, NodeResources) result" where
  "ResolveResize req cur pol =
    (let l = p_Limits pol;
         out = cur\<lparr>nr_CPUs := (if rz_CPUs req \<noteq> Fin 0 then rz_CPUs req else nr_CPUs cur),
           nr_MemoryMB := (if rz_MemoryMB req \<noteq> 0 then rz_MemoryMB req else nr_MemoryMB cur),
           nr_DiskMB := (if rz_DiskMB req \<noteq> 0 then rz_DiskMB req else nr_DiskMB cur)\<rparr> in
     if f_le (nr_CPUs out) (Fin 0) \<or> f_lt (l_MaxCPUs l) (nr_CPUs out) then Inl (Invalid (BadCPUs (nr_CPUs out)))
     else if nr_MemoryMB out < minMemoryMB \<or> nr_MemoryMB out > l_MaxMemoryMB l
       then Inl (Invalid (BadMemory (nr_MemoryMB out)))
     else if nr_DiskMB out > l_MaxDiskMB l then Inl (Invalid (BadDisk (nr_DiskMB out)))
     else if nr_DiskMB out < nr_DiskMB cur then Inl (Invalid (DiskShrinks (nr_DiskMB out) (nr_DiskMB cur)))
     else Inr out)"

subsection \<open>Network policy\<close>

definition copyPolicy :: "NetworkPolicy \<Rightarrow> NetworkPolicy" where
  "copyPolicy p = \<lparr>np_Mode = np_Mode p, np_Allow = append_slice None (items (np_Allow p)),
     np_Deny = append_slice None (items (np_Deny p)), np_Groups = None\<rparr>"

definition normal_name :: "(nat \<Rightarrow> nat) \<Rightarrow> bytes \<Rightarrow> bytes" where
  "normal_name lr raw = TrimSuffix (ToLower lr (TrimSpace raw)) ''.''"

definition good_name :: "bytes \<Rightarrow> bool" where
  "good_name n \<longleftrightarrow> \<not> (n = ''*'' \<or> \<not> rx_match hostRE n \<or> 253 < length n)"

fun normalize_loop :: "(nat \<Rightarrow> nat) \<Rightarrow> bytes \<Rightarrow> bytes list \<Rightarrow> bytes list \<Rightarrow> (spec_error, bytes list) result" where
  "normalize_loop lr field out [] = Inr out"
| "normalize_loop lr field out (raw # rest) =
    (let n = normal_name lr raw in
     if \<not> good_name n then Inl (Invalid (Net (BadHost field raw)))
     else normalize_loop lr field (if n \<in> set out then out else out @ [n]) rest)"

text \<open>The result is a nil slice when there was nothing to put in it.\<close>

definition normalizeNames :: "(nat \<Rightarrow> nat) \<Rightarrow> bytes \<Rightarrow> bytes list option \<Rightarrow> (spec_error, bytes list option) result" where
  "normalizeNames lr field ns =
    (case normalize_loop lr field [] (items ns) of
       Inl e \<Rightarrow> Inl e
     | Inr out \<Rightarrow> Inr (append_slice None (sort out)))"

definition permitted :: "(nat \<Rightarrow> nat) \<Rightarrow> bytes \<Rightarrow> bytes list \<Rightarrow> bool" where
  "permitted lr name mayAllow =
    (if ''*'' \<in> set mayAllow then True
     else case CutPrefix name ''*.'' of
       Some rest \<Rightarrow>
         list_ex (\<lambda>m. case CutPrefix m ''*.'' of
             Some mr \<Rightarrow> rest = mr \<or> HasSuffix rest (''.'' @ mr)
           | None \<Rightarrow> False) mayAllow
     | None \<Rightarrow> allows lr (NewMatcher lr mayAllow) name)"

definition defaultAllow :: "ServerNetwork \<Rightarrow> bytes list" where
  "defaultAllow pol = (if np_Mode (sn_Default pol) = ''allowlist''
     then items (np_Allow (sn_Default pol)) else BaselineEgress)"

text \<open>The allow list of an allowlist request: the server's when it sent none.\<close>

definition chosen_allow ::
    "(nat \<Rightarrow> nat) \<Rightarrow> NetworkPolicy \<Rightarrow> bytes list \<Rightarrow> ServerNetwork \<Rightarrow> (spec_error, bytes list) result" where
  "chosen_allow lr p allow pol =
    (if np_Allow p = None then Inr (defaultAllow pol)
     else case find (\<lambda>name. name \<notin> set (defaultAllow pol) \<and> \<not> permitted lr name (items (sn_MayAllow pol))) allow of
       Some name \<Rightarrow> Inl (Refused (Net (MayNotAllow name)))
     | None \<Rightarrow> Inr allow)"

definition resolve_named ::
    "(nat \<Rightarrow> nat) \<Rightarrow> NetworkPolicy \<Rightarrow> bytes \<Rightarrow> bytes list option \<Rightarrow> bytes list option \<Rightarrow> ServerNetwork
      \<Rightarrow> (spec_error, NetworkPolicy) result" where
  "resolve_named lr p mode deny allow pol =
    (let out = \<lparr>np_Mode = mode, np_Allow = None, np_Deny = deny, np_Groups = None\<rparr> in
     if mode = ''none'' \<or> mode = ''open'' then
       (if items allow \<noteq> [] then Inl (Invalid (Net (NoAllowList mode)))
        else Inr (if mode = ''none'' then out\<lparr>np_Deny := None\<rparr> else out))
     else case chosen_allow lr p (items allow) pol of
       Inl e \<Rightarrow> Inl e
     | Inr names \<Rightarrow>
        if names = [] then Inl (Refused (Net EmptyAllowList)) else Inr (out\<lparr>np_Allow := Some names\<rparr>))"

definition resolveNetwork ::
    "(nat \<Rightarrow> nat) \<Rightarrow> NetworkPolicy option \<Rightarrow> ServerNetwork \<Rightarrow> (spec_error, NetworkPolicy) result" where
  "resolveNetwork lr po pol =
    (case po of
       None \<Rightarrow> Inr (copyPolicy (sn_Default pol))
     | Some p \<Rightarrow>
        if items (np_Groups p) \<noteq> [] then Inl (Invalid (Net (NetworkGroups (items (np_Groups p)))))
        else let mode = (if np_Mode p = [] then np_Mode (sn_Default pol) else np_Mode p) in
          if NetworkRank mode < 0 then Inl (Invalid (Net (BadMode (np_Mode p))))
          else if NetworkRank mode > NetworkRank (sn_Ceiling pol)
            then Inl (Refused (Net (AboveCeiling mode (sn_Ceiling pol))))
          else case normalizeNames lr ''deny'' (np_Deny p) of
            Inl e \<Rightarrow> Inl e
          | Inr deny \<Rightarrow>
             (case normalizeNames lr ''allow'' (np_Allow p) of
                Inl e \<Rightarrow> Inl e
              | Inr allow \<Rightarrow> resolve_named lr p mode deny allow pol))"

definition ResolveNetworkUpdate ::
    "(nat \<Rightarrow> nat) \<Rightarrow> NetworkPolicy option \<Rightarrow> Policy \<Rightarrow> (spec_error, NetworkPolicy) result" where
  "ResolveNetworkUpdate lr po pol =
    (case po of None \<Rightarrow> Inl (Invalid (Net NetworkRequired)) | Some p \<Rightarrow> resolveNetwork lr (Some p) (p_Network pol))"

subsection \<open>Resolving a create request\<close>

definition base_spec :: "CreateSandboxRequest \<Rightarrow> Policy \<Rightarrow> bytes \<Rightarrow> bytes \<Rightarrow> Spec" where
  "base_spec req pol sid img =
    \<lparr>sp_ID = sid, sp_Image = img,
     sp_CPUs = (if rq_CPUs req = Fin 0 then p_DefaultCPUs pol else rq_CPUs req),
     sp_MemoryMB = (if rq_MemoryMB req = 0 then p_DefaultMemoryMB pol else rq_MemoryMB req),
     sp_DiskMB = (if rq_DiskMB req = 0 then p_DefaultDiskMB pol else rq_DiskMB req),
     sp_Env = [], sp_Network = zero_network, sp_IdleTimeoutSecs = 0, sp_IdleAction = [],
     sp_LifetimeSecs = 0, sp_SnapshotEverySecs = 0, sp_SnapshotKeep = 0, sp_FromSnapshot = [],
     sp_Volumes = rq_Volumes req, sp_GPUs = []\<rparr>"

definition check_sizes :: "Spec \<Rightarrow> Limits \<Rightarrow> spec_error option" where
  "check_sizes s l =
    (if f_lt (sp_CPUs s) (Fin 0) \<or> f_lt (l_MaxCPUs l) (sp_CPUs s) then Some (Invalid (BadCPUs (sp_CPUs s)))
     else if sp_MemoryMB s < 0 \<or> sp_MemoryMB s > l_MaxMemoryMB l then Some (Invalid (BadMemory (sp_MemoryMB s)))
     else if sp_DiskMB s < 0 \<or> sp_DiskMB s > l_MaxDiskMB l then Some (Invalid (BadDisk (sp_DiskMB s)))
     else None)"

definition Resolve ::
    "(nat \<Rightarrow> nat) \<Rightarrow> CreateSandboxRequest \<Rightarrow> Policy \<Rightarrow> bytes \<Rightarrow> (spec_error, Spec) result" where
  "Resolve lr req pol sid =
    unless_err (CheckName (rq_Name req)) (
    unless_err (ValidateLabels (rq_Labels req)) (
    unless_err (ValidateVolumeMounts (rq_Volumes req)) (
    let img = (if rq_Image req = [] then p_DefaultImage pol else rq_Image req) in
    unless_err (CheckImage img pol) (
    let s = base_spec req pol sid img in
    unless_err (check_sizes s (p_Limits pol)) (
    unless_err (checkGPUs req (p_Limits pol)) (
    and_then (resolve_idle (rq_IdleTimeoutSecs req) pol) (\<lambda>idle.
    and_then (ResolveIdleAction (rq_IdleAction req)) (\<lambda>action.
    and_then (resolve_lifetime (rq_LifetimeSecs req) (p_Limits pol)) (\<lambda>life.
    and_then (ResolveSchedule \<lparr>sc_EverySecs = rq_SnapshotEverySecs req, sc_Keep = rq_SnapshotKeep req\<rparr>
        (p_Limits pol)) (\<lambda>sched.
    and_then (ResolveEnv (rq_Env req)) (\<lambda>env.
    and_then (resolveNetwork lr (rq_Network req) (p_Network pol)) (\<lambda>net.
    Inr (s\<lparr>sp_IdleTimeoutSecs := idle, sp_IdleAction := action, sp_LifetimeSecs := life,
      sp_SnapshotEverySecs := sc_EverySecs sched, sp_SnapshotKeep := sc_Keep sched,
      sp_Env := env, sp_Network := net\<rparr>)))))))))))))"

subsection \<open>A coherent policy\<close>

fun check_pools :: "Policy \<Rightarrow> bytes list \<Rightarrow> Pool list \<Rightarrow> policy_error option" where
  "check_pools p seen [] = None"
| "check_pools p seen (pl # pls) =
    (let img = (if po_Image pl = [] then p_DefaultImage p else po_Image pl) in
     if po_Size pl < 1 \<or> po_Size pl > MaxPoolSize then Some (PoolSize img)
     else if img \<in> set seen then Some (TwoPools img)
     else if images_refuse p img then Some (PoolImage img)
     else check_pools p (img # seen) pls)"

definition bad_defaults :: "Policy \<Rightarrow> bool" where
  "bad_defaults p \<longleftrightarrow> (let l = p_Limits p in
     f_le (p_DefaultCPUs p) (Fin 0) \<or> f_lt (l_MaxCPUs l) (p_DefaultCPUs p) \<or>
     p_DefaultMemoryMB p \<le> 0 \<or> p_DefaultMemoryMB p > l_MaxMemoryMB l \<or>
     p_DefaultDiskMB p \<le> 0 \<or> p_DefaultDiskMB p > l_MaxDiskMB l)"

definition ValidatePolicy :: "(nat \<Rightarrow> nat) \<Rightarrow> Policy \<Rightarrow> policy_error option" where
  "ValidatePolicy lr p =
    (let l = p_Limits p; n = p_Network p in
     if p_DefaultImage p = [] then Some NoDefaultImage
     else if NetworkRank (sn_Ceiling n) < 0 then Some (CeilingNotMode (sn_Ceiling n))
     else if l_MaxGPUs l < 0 then Some NegativeGPUs
     else if l_MaxLifetimeSecs l < 0 then Some NegativeLifetime
     else case resolveNetwork lr (Some (sn_Default n)) (n\<lparr>sn_MayAllow := None\<rparr>) of
       Inl e \<Rightarrow> Some (DefaultNotPermitted e)
     | Inr _ \<Rightarrow>
        (case check_pools p [] (p_Pools p) of
           Some e \<Rightarrow> Some e
         | None \<Rightarrow>
            if bad_defaults p then Some DefaultResources
            else if l_MinSnapshotEverySecs l < 1 \<or> l_MaxSnapshotKeep l < 0 then Some SnapshotLimits
            else if l_MinMetricsExportSecs l < 0 then Some NegativeExport
            else None))"

subsection \<open>Fitting a policy to a backend\<close>

definition FitTo :: "Policy \<Rightarrow> caps \<Rightarrow> Policy \<times> string list" where
  "FitTo p has =
    (let n = p_Network p;
         (n', notes) =
           (if \<not> has ''egress_allowlist'' \<and> sn_Ceiling n = ''open'' \<and> has ''egress_open'' then
              (if np_Mode (sn_Default n) = ''allowlist''
               then (n\<lparr>sn_Default := none_policy, sn_MayAllow := None\<rparr>,
                 [''this backend cannot enforce an egress allowlist: the default is none, open is available on request''])
               else (n\<lparr>sn_MayAllow := None\<rparr>, []))
            else if \<not> has ''egress_allowlist'' \<and> NetworkRank (sn_Ceiling n) > NetworkRank ''none'' then
              (n\<lparr>sn_Ceiling := ''none'', sn_Default := none_policy, sn_MayAllow := None\<rparr>,
                [''this backend cannot enforce an egress allowlist: sandboxes get no network (mode none)''])
            else if \<not> has ''egress_open'' \<and> sn_Ceiling n = ''open'' then
              (if np_Mode (sn_Default n) = ''open''
               then (n\<lparr>sn_Ceiling := ''allowlist'',
                   sn_Default := zero_network\<lparr>np_Mode := ''allowlist'', np_Allow := Some BaselineEgress\<rparr>\<rparr>,
                 [''this backend cannot offer open egress: the default is the allowlist, and the ceiling too''])
               else (n\<lparr>sn_Ceiling := ''allowlist''\<rparr>,
                 [''this backend cannot offer open egress: the ceiling is allowlist'']))
            else (n, []));
         l' = (if has ''gpu'' then p_Limits p else (p_Limits p)\<lparr>l_MaxGPUs := 0\<rparr>)
     in (p\<lparr>p_Network := n', p_Limits := l'\<rparr>, notes))"

definition DefaultPolicyFor :: "bytes \<Rightarrow> caps \<Rightarrow> Policy" where
  "DefaultPolicyFor defaultImage has = fst (FitTo (DefaultPolicy defaultImage) has)"

definition Ceiling :: "Policy \<Rightarrow> NetworkCeiling" where
  "Ceiling p = \<lparr>nc_Default = copyPolicy (sn_Default (p_Network p)), nc_Ceiling = sn_Ceiling (p_Network p),
     nc_MayAllow = items (sn_MayAllow (p_Network p))\<rparr>"

subsection \<open>The operator's policy file\<close>

text \<open>\<open>policyfile.go\<close>: a pointer field is an option. Reading and decoding the YAML file is the
  library's; the decoded file is the argument.\<close>

record file_defaults =
  fd_CPUs :: "f64 option"
  fd_MemoryMB :: "int option"
  fd_DiskMB :: "int option"
  fd_IdleTimeoutSecs :: "int option"

record file_limits =
  fl_MaxCPUs :: "f64 option"
  fl_MaxMemoryMB :: "int option"
  fl_MaxDiskMB :: "int option"
  fl_MaxIdleTimeoutSecs :: "int option"
  fl_MaxLifetimeSecs :: "int option"
  fl_MinSnapshotEverySecs :: "int option"
  fl_MaxSnapshotKeep :: "int option"
  fl_MinMetricsExportSecs :: "int option"
  fl_MaxGPUs :: "int option"

record file_network =
  fn_Default :: "(bytes \<times> bytes list option \<times> bytes list option) option"
  fn_Ceiling :: "bytes option"
  fn_MayAllow :: "bytes list option"

record policyFile =
  pf_DefaultImage :: "bytes option"
  pf_Images :: "bytes list option"
  pf_Defaults :: "file_defaults option"
  pf_Limits :: "file_limits option"
  pf_Network :: "file_network option"
  pf_Pools :: "(bytes \<times> int) list"

text \<open>\<open>set(dst, v)\<close>.\<close>

definition set_opt :: "'a \<Rightarrow> 'a option \<Rightarrow> 'a" where
  "set_opt dst v = (case v of None \<Rightarrow> dst | Some x \<Rightarrow> x)"

definition apply_defaults :: "file_defaults \<Rightarrow> Policy \<Rightarrow> Policy" where
  "apply_defaults d p = p\<lparr>p_DefaultCPUs := set_opt (p_DefaultCPUs p) (fd_CPUs d),
     p_DefaultMemoryMB := set_opt (p_DefaultMemoryMB p) (fd_MemoryMB d),
     p_DefaultDiskMB := set_opt (p_DefaultDiskMB p) (fd_DiskMB d),
     p_DefaultIdleSecs := set_opt (p_DefaultIdleSecs p) (fd_IdleTimeoutSecs d)\<rparr>"

definition apply_limits :: "file_limits \<Rightarrow> Limits \<Rightarrow> Limits" where
  "apply_limits f l = \<lparr>l_MaxCPUs = set_opt (l_MaxCPUs l) (fl_MaxCPUs f),
     l_MaxMemoryMB = set_opt (l_MaxMemoryMB l) (fl_MaxMemoryMB f),
     l_MaxDiskMB = set_opt (l_MaxDiskMB l) (fl_MaxDiskMB f),
     l_MaxIdleTimeoutSecs = set_opt (l_MaxIdleTimeoutSecs l) (fl_MaxIdleTimeoutSecs f),
     l_MaxLifetimeSecs = set_opt (l_MaxLifetimeSecs l) (fl_MaxLifetimeSecs f),
     l_MinSnapshotEverySecs = set_opt (l_MinSnapshotEverySecs l) (fl_MinSnapshotEverySecs f),
     l_MaxSnapshotKeep = set_opt (l_MaxSnapshotKeep l) (fl_MaxSnapshotKeep f),
     l_MinMetricsExportSecs = set_opt (l_MinMetricsExportSecs l) (fl_MinMetricsExportSecs f),
     l_MaxGPUs = set_opt (l_MaxGPUs l) (fl_MaxGPUs f)\<rparr>"

definition apply_network :: "file_network \<Rightarrow> ServerNetwork \<Rightarrow> ServerNetwork" where
  "apply_network f n =
    \<lparr>sn_Default = (case fn_Default f of None \<Rightarrow> sn_Default n
       | Some (mode, al, dn) \<Rightarrow> \<lparr>np_Mode = mode, np_Allow = al, np_Deny = dn, np_Groups = None\<rparr>),
     sn_Ceiling = set_opt (sn_Ceiling n) (fn_Ceiling f),
     sn_MayAllow = (case fn_MayAllow f of None \<Rightarrow> sn_MayAllow n | Some m \<Rightarrow> Some m)\<rparr>"

definition apply_file :: "policyFile \<Rightarrow> Policy \<Rightarrow> Policy" where
  "apply_file f p0 =
    (let p1 = p0\<lparr>p_DefaultImage := set_opt (p_DefaultImage p0) (pf_DefaultImage f),
           p_Images := (case pf_Images f of None \<Rightarrow> p_Images p0 | Some i \<Rightarrow> Some i)\<rparr>;
         p2 = (case pf_Defaults f of None \<Rightarrow> p1 | Some d \<Rightarrow> apply_defaults d p1);
         p3 = (case pf_Limits f of None \<Rightarrow> p2 | Some l \<Rightarrow> p2\<lparr>p_Limits := apply_limits l (p_Limits p2)\<rparr>);
         p4 = (case pf_Network f of None \<Rightarrow> p3 | Some n \<Rightarrow> p3\<lparr>p_Network := apply_network n (p_Network p3)\<rparr>)
     in p4\<lparr>p_Pools := p_Pools p4 @ map (\<lambda>(i, n). \<lparr>po_Image = i, po_Size = n\<rparr>) (pf_Pools f)\<rparr>)"

definition LoadPolicy ::
    "(nat \<Rightarrow> nat) \<Rightarrow> bytes \<Rightarrow> (policy_error, policyFile) result \<Rightarrow> (policy_error, Policy) result" where
  "LoadPolicy lr defaultImage file =
    (case file of
       Inl e \<Rightarrow> Inl e
     | Inr f \<Rightarrow>
        let p = apply_file f (DefaultPolicy defaultImage); n = p_Network p in
        case resolveNetwork lr (Some (sn_Default n))
            \<lparr>sn_Default = sn_Default n, sn_Ceiling = sn_Ceiling n, sn_MayAllow = Some [''*'']\<rparr> of
          Inl e \<Rightarrow> Inl (PolicyNetworkDefault e)
        | Inr nd \<Rightarrow>
           let p' = p\<lparr>p_Network := n\<lparr>sn_Default := nd\<rparr>\<rparr> in
           case ValidatePolicy lr p' of Some e \<Rightarrow> Inl e | None \<Rightarrow> Inr p')"

end
