(* ===== verification/Spec_Safety.thy ===== *)
theory Spec_Safety
  imports Spec_Resolve
begin

text \<open>
  What the resolver of \<open>Spec_Resolve\<close> promises: a request may tighten what the server decided
  and never loosen it, and whatever it resolves to is within the server's limits.
\<close>

subsection \<open>Names in normal form\<close>

lemma labelRE_ends: "s \<in> rx_lang labelRE \<Longrightarrow> s \<noteq> [] \<and> in_cls (last s) lower_digit"
  unfolding labelRE_def rx_lang.simps lang_Opt by auto

lemma hostRE_ends: "s \<in> rx_lang hostRE \<Longrightarrow> s \<noteq> [] \<and> in_cls (last s) lower_digit"
proof -
  assume "s \<in> rx_lang hostRE"
  then obtain x y z where "s = x @ y @ z" "z \<in> rx_lang labelRE"
    unfolding hostRE_def rx_lang.simps mem_Collect_eq by blast
  with labelRE_ends [of z] show ?thesis by simp
qed

lemma hostRE_chars: "rx_match hostRE s \<Longrightarrow> c \<in> set s \<Longrightarrow> host_char c"
  by (drule (1) rx_match_chars)
    (auto simp: hostRE_def labelRE_def Opt_def in_cls_def host_char_def plain_char_def)

lemma good_name_plain:
  assumes "good_name n"
  shows "list_all host_char n" "\<not> HasSuffix n ''.''" "n \<noteq> []"
proof -
  have m: "rx_match hostRE n" using assms by (simp add: good_name_def)
  show "list_all host_char n" using hostRE_chars [OF m] by (simp add: list_all_iff)
  have "n \<noteq> [] \<and> in_cls (last n) lower_digit" using m by (simp add: rx_match_lang hostRE_ends)
  then show "\<not> HasSuffix n ''.''" "n \<noteq> []" by (auto simp: HasSuffix_Cons1 in_cls_def)
qed

lemma normalizeHost_good: "good_name n \<Longrightarrow> normalizeHost lr n = n"
  by (simp add: normalizeHost_plain good_name_plain)

lemma host_char_plain: "list_all host_char n \<Longrightarrow> list_all plain_char n"
  by (auto simp: list_all_iff host_char_def)

lemma normal_name_good: "good_name n \<Longrightarrow> normal_name lr n = n"
  using good_name_plain [of n]
  by (simp add: normal_name_def TrimSpace_plain ToLower_plain TrimSuffix_id host_char_plain)

lemma normalize_loop_out:
  assumes "normalize_loop lr field out ns = Inr res" "distinct out" "\<forall>n\<in>set out. good_name n"
  shows "distinct res \<and> (\<forall>n\<in>set res. good_name n) \<and> set res = set out \<union> normal_name lr ` set ns"
  using assms
proof (induction ns arbitrary: out)
  case (Cons raw rest)
  define n where "n = normal_name lr raw"
  define out' where "out' = (if n \<in> set out then out else out @ [n])"
  have step: "good_name n" "normalize_loop lr field out' rest = Inr res"
    using Cons.prems(1) by (simp_all add: n_def out'_def Let_def split: if_split_asm)
  have "distinct out'" "\<forall>m\<in>set out'. good_name m" "set out' = insert n (set out)"
    using Cons.prems(2,3) step(1) by (auto simp: out'_def)
  with Cons.IH [OF step(2)] show ?case by (simp add: n_def)
qed simp

lemma normalizeNames_out:
  assumes "normalizeNames lr field ns = Inr res"
  shows "sorted (items res)" "distinct (items res)" "\<forall>n\<in>set (items res). good_name n"
    "set (items res) = normal_name lr ` set (items ns)" "res \<noteq> Some []"
proof -
  from assms obtain out where out: "normalize_loop lr field [] (items ns) = Inr out"
      "res = append_slice None (sort out)"
    by (auto simp: normalizeNames_def split: sum.splits)
  have "items res = sort out" by (simp add: out(2) append_slice_def items_def)
  with normalize_loop_out [OF out(1)]
  show "sorted (items res)" "distinct (items res)" "\<forall>n\<in>set (items res). good_name n"
    "set (items res) = normal_name lr ` set (items ns)" by auto
  show "res \<noteq> Some []" by (auto simp: out(2) append_slice_def split: if_splits)
qed

lemma normalize_loop_id:
  "\<forall>n\<in>set ns. good_name n \<Longrightarrow> distinct (out @ ns) \<Longrightarrow> normalize_loop lr field out ns = Inr (out @ ns)"
  by (induction ns arbitrary: out) (auto simp: Let_def normal_name_good)

lemma normalizeNames_id:
  assumes "sorted (items ns)" "distinct (items ns)" "\<forall>n\<in>set (items ns). good_name n" "ns \<noteq> Some []"
  shows "normalizeNames lr field ns = Inr ns"
  using assms normalize_loop_id [of "items ns" "[]"]
  by (cases ns) (auto simp: normalizeNames_def sorted_sort_id append_slice_def)

lemma normalizeNames_twice:
  "normalizeNames lr f ns = Inr res \<Longrightarrow> normalizeNames lr g res = Inr res"
  by (intro normalizeNames_id normalizeNames_out [of lr f ns])

subsection \<open>What an allow entry reaches\<close>

text \<open>\<open>matcherFor\<close> of \<open>internal/backend/firecracker/network.go\<close>: the names of a resolved policy.\<close>

definition matcherFor :: "(nat \<Rightarrow> nat) \<Rightarrow> NetworkPolicy \<Rightarrow> matcher" where
  "matcherFor lr p = (if np_Mode p = ''open'' then NewDenyMatcher lr (items (np_Deny p))
     else NewPolicyMatcher lr (items (np_Allow p)) (items (np_Deny p)))"

lemma suffix_good:
  assumes "good_name (''*.'' @ rest)" "rest = mr \<or> HasSuffix rest (''.'' @ mr)"
  shows "mr \<noteq> [] \<and> normalizeHost lr (''*.'' @ mr) = ''*.'' @ mr"
proof -
  have g: "list_all host_char rest" "\<not> HasSuffix rest ''.''"
    using good_name_plain [OF assms(1)] by (auto simp: HasSuffix_iff)
  from assms(2) obtain t where t: "rest = t @ mr" by (auto simp: HasSuffix_iff)
  have mr: "mr \<noteq> []"
  proof
    assume "mr = []"
    with assms(2) g(2) have "rest = []" by auto
    with assms(1) show False
      using good_name_plain(2) [OF assms(1)] by (simp add: HasSuffix_Cons1)
  qed
  have "list_all host_char (''*.'' @ mr)" using g(1) t by (simp add: host_char_def plain_char_def)
  moreover have "\<not> HasSuffix (''*.'' @ mr) ''.''" using g(2) t mr by (simp add: HasSuffix_Cons1)
  ultimately show ?thesis using mr by (simp add: normalizeHost_plain)
qed

lemma permitted_wildcard:
  assumes g: "good_name (''*.'' @ rest)" and m: "''*.'' @ mr \<in> set may"
    and r: "rest = mr \<or> HasSuffix rest (''.'' @ mr)" and n: "pattern_match (''*.'' @ rest) n"
  shows "names_match lr may n"
proof -
  note s = suffix_good [OF g r, of lr]
  have rest: "rest \<noteq> []" using s r by (auto simp: HasSuffix_iff)
  have "HasSuffix n (''.'' @ rest)" "length rest + 2 \<le> length n"
    using n rest by (auto simp: pattern_match_def HasPrefix_def split: if_splits)
  then have "HasSuffix n (''.'' @ mr)" "length mr + 2 \<le> length n"
    using r by (auto simp: HasSuffix_iff)
  then have "pattern_match (''*.'' @ mr) n"
    using s by (simp add: pattern_match_def HasPrefix_def)
  with m s show ?thesis unfolding names_match_def list_ex_iff by (intro bexI [OF _ m]) simp
qed

lemma permitted_within:
  assumes "good_name name" "permitted lr name may" "''*'' \<notin> set may" "pattern_match name n"
  shows "names_match lr may n"
proof (cases "CutPrefix name ''*.''")
  case None
  with assms have "allows lr (NewMatcher lr may) name" by (simp add: permitted_def)
  then have "names_match lr may name" by (simp add: allows_NewMatcher normalizeHost_good assms(1))
  moreover have "n = name"
    using assms(4) None by (auto simp: pattern_match_def CutPrefix_def split: if_splits)
  ultimately show ?thesis by simp
next
  case (Some rest)
  then have name: "name = ''*.'' @ rest" by (simp only: CutPrefix_Some)
  with assms(2,3) Some obtain m mr where "m \<in> set may" "CutPrefix m ''*.'' = Some mr"
      "rest = mr \<or> HasSuffix rest (''.'' @ mr)"
    by (auto simp: permitted_def list_ex_iff split: option.splits)
  then show ?thesis
    using permitted_wildcard [of rest mr may n lr] assms(1,4) name by (auto simp only: CutPrefix_Some)
qed

subsection \<open>The network policy a request resolves to\<close>

lemma resolveNetwork_Some:
  assumes "resolveNetwork lr (Some p) pol = Inr out"
  obtains mode deny allow where
    "items (np_Groups p) = []" "mode = (if np_Mode p = [] then np_Mode (sn_Default pol) else np_Mode p)"
    "0 \<le> NetworkRank mode" "NetworkRank mode \<le> NetworkRank (sn_Ceiling pol)"
    "normalizeNames lr ''deny'' (np_Deny p) = Inr deny"
    "normalizeNames lr ''allow'' (np_Allow p) = Inr allow"
    "resolve_named lr p mode deny allow pol = Inr out"
  using assms unfolding resolveNetwork_def Let_def option.case
  by (cases "normalizeNames lr ''deny'' (np_Deny p)"; cases "normalizeNames lr ''allow'' (np_Allow p)")
    (auto simp del: not_less simp: not_less [symmetric] split: if_split_asm)

lemma chosen_allow_Inr:
  assumes "chosen_allow lr p al pol = Inr names"
  shows "(np_Allow p = None \<and> names = defaultAllow pol) \<or>
    (np_Allow p \<noteq> None \<and> names = al \<and>
      (\<forall>n\<in>set names. n \<in> set (defaultAllow pol) \<or> permitted lr n (items (sn_MayAllow pol))))"
  using assms by (auto simp: chosen_allow_def find_None_iff split: if_split_asm option.splits)

lemma resolve_named_Inr:
  assumes "resolve_named lr p mode deny al pol = Inr out"
  shows "np_Mode out = mode" "np_Groups out = None"
    "mode \<noteq> ''none'' \<Longrightarrow> np_Deny out = deny" "mode = ''none'' \<Longrightarrow> np_Deny out = None"
    "mode = ''none'' \<or> mode = ''open'' \<Longrightarrow> np_Allow out = None \<and> items al = []"
    "\<not> (mode = ''none'' \<or> mode = ''open'') \<Longrightarrow>
       \<exists>names. chosen_allow lr p (items al) pol = Inr names \<and> names \<noteq> [] \<and> np_Allow out = Some names"
  using assms by (auto simp: resolve_named_def Let_def split: if_split_asm sum.splits)

text \<open>
  The names a resolved policy can reach are within what the server decided. Mode \<open>open\<close> names none: it is within a ceiling that is open,
  by the order of the modes.
\<close>

definition network_within :: "(nat \<Rightarrow> nat) \<Rightarrow> ServerNetwork \<Rightarrow> NetworkPolicy \<Rightarrow> bool" where
  "network_within lr pol net \<longleftrightarrow>
     0 \<le> NetworkRank (np_Mode net) \<and> NetworkRank (np_Mode net) \<le> NetworkRank (sn_Ceiling pol) \<and>
     np_Groups net = None \<and>
     (\<forall>h. allows lr (matcherFor lr net) h \<longrightarrow>
        np_Mode net = ''open'' \<or>
        (np_Mode net = ''allowlist'' \<and>
          (''*'' \<in> set (items (sn_MayAllow pol)) \<or>
           names_match lr (defaultAllow pol @ items (sn_MayAllow pol)) (normalizeHost lr h))))"

lemma chosen_names_within:
  assumes "chosen_allow lr p (items al) pol = Inr names" "normalizeNames lr f (np_Allow p) = Inr al"
    and "names_match lr names n" "''*'' \<notin> set (items (sn_MayAllow pol))"
  shows "names_match lr (defaultAllow pol @ items (sn_MayAllow pol)) n"
proof (cases "np_Allow p = None")
  case True
  with chosen_allow_Inr [OF assms(1)] assms(3) show ?thesis by simp
next
  case False
  with chosen_allow_Inr [OF assms(1)] have names: "names = items al"
    "\<forall>m\<in>set names. m \<in> set (defaultAllow pol) \<or> permitted lr m (items (sn_MayAllow pol))" by auto
  from assms(3) obtain m where m: "m \<in> set names" "pattern_match (normalizeHost lr m) n"
    by (auto simp: names_match_def list_ex_iff)
  have g: "good_name m" using m(1) names(1) normalizeNames_out(3) [OF assms(2)] by simp
  show ?thesis
  proof (cases "m \<in> set (defaultAllow pol)")
    case True
    with m(2) show ?thesis by (auto simp: names_match_def list_ex_iff)
  next
    case False
    with names(2) m(1) have "permitted lr m (items (sn_MayAllow pol))" by blast
    with permitted_within [OF g _ assms(4)] m(2) show ?thesis by (simp add: normalizeHost_good [OF g])
  qed
qed

lemma resolveNetwork_within:
  assumes "resolveNetwork lr (Some p) pol = Inr out"
  shows "network_within lr pol out"
proof -
  from assms obtain mode deny allow where r:
      "0 \<le> NetworkRank mode" "NetworkRank mode \<le> NetworkRank (sn_Ceiling pol)"
      "normalizeNames lr ''allow'' (np_Allow p) = Inr allow"
      "resolve_named lr p mode deny allow pol = Inr out"
    by (rule resolveNetwork_Some)
  note out = resolve_named_Inr [OF r(4)]
  have "mode = ''none'' \<or> mode = ''allowlist'' \<or> mode = ''open''" using r(1) by (simp add: NetworkRank_cases)
  then consider (none) "mode = ''none''" | (opn) "mode = ''open''" | (lst) "mode = ''allowlist''" by blast
  then have "\<forall>h. allows lr (matcherFor lr out) h \<longrightarrow> mode = ''open'' \<or> (mode = ''allowlist'' \<and>
       (''*'' \<in> set (items (sn_MayAllow pol)) \<or>
        names_match lr (defaultAllow pol @ items (sn_MayAllow pol)) (normalizeHost lr h)))"
  proof cases
    case none
    then have "items (np_Allow out) = []" using out(5) by simp
    with none show ?thesis
      by (simp add: matcherFor_def out(1) allows_NewPolicyMatcher) (simp add: names_match_def)
  next
    case lst
    then obtain names where n: "chosen_allow lr p (items allow) pol = Inr names" "np_Allow out = Some names"
      using out(6) by auto
    then show ?thesis
      using chosen_names_within [OF n(1) r(3)] lst
      by (auto simp: matcherFor_def out(1) allows_NewPolicyMatcher simp del: names_match_append)
  qed simp
  with r(1,2) out(1,2) show ?thesis by (simp add: network_within_def)
qed

text \<open>Of a coherent policy the default is within it too, so a client that sends nothing gets no more.\<close>

lemma ValidatePolicy_default:
  assumes "ValidatePolicy lr p = None"
  obtains out where
    "resolveNetwork lr (Some (sn_Default (p_Network p))) ((p_Network p)\<lparr>sn_MayAllow := None\<rparr>) = Inr out"
  using assms by (auto simp: ValidatePolicy_def Let_def split: if_split_asm sum.splits)

lemma items_append_slice [simp]: "items (append_slice None xs) = xs"
  by (simp add: append_slice_def)

lemma default_within:
  assumes "ValidatePolicy lr p = None"
  shows "network_within lr (p_Network p) (copyPolicy (sn_Default (p_Network p)))"
proof -
  define n d where "n = p_Network p" and "d = sn_Default n"
  obtain out where "resolveNetwork lr (Some d) (n\<lparr>sn_MayAllow := None\<rparr>) = Inr out"
    using ValidatePolicy_default [OF assms] unfolding n_def d_def by blast
  then obtain mode deny allow where r:
      "mode = (if np_Mode d = [] then np_Mode (sn_Default (n\<lparr>sn_MayAllow := None\<rparr>)) else np_Mode d)"
      "0 \<le> NetworkRank mode" "NetworkRank mode \<le> NetworkRank (sn_Ceiling (n\<lparr>sn_MayAllow := None\<rparr>))"
      "normalizeNames lr ''allow'' (np_Allow d) = Inr allow"
      "resolve_named lr d mode deny allow (n\<lparr>sn_MayAllow := None\<rparr>) = Inr out"
    by (rule resolveNetwork_Some)
  have mode: "mode = np_Mode d" using r(1) by (simp add: d_def)
  have none: "mode = ''none'' \<Longrightarrow> items (np_Allow d) = []"
    using resolve_named_Inr(5) [OF r(5)] normalizeNames_out(4) [OF r(4)] by simp
  have "mode = ''none'' \<or> mode = ''allowlist'' \<or> mode = ''open''" using r(2) by (simp add: NetworkRank_cases)
  then have "allows lr (matcherFor lr (copyPolicy d)) h \<Longrightarrow> mode = ''open'' \<or>
      (mode = ''allowlist'' \<and> names_match lr (defaultAllow n) (normalizeHost lr h))" for h
    using none mode [symmetric]
    by (auto simp: matcherFor_def copyPolicy_def allows_NewPolicyMatcher defaultAllow_def d_def [symmetric]
        split: if_split_asm) (auto simp: names_match_def)
  then show ?thesis
    using r(2,3) mode [symmetric]
    by (auto simp: network_within_def n_def [symmetric] d_def [symmetric]) (simp_all add: copyPolicy_def)
qed

text \<open>A request's deny list is always in force.\<close>

lemma resolveNetwork_deny:
  assumes "resolveNetwork lr (Some p) pol = Inr out" "d \<in> set (items (np_Deny p))"
    and "pattern_match (normal_name lr d) (normalizeHost lr (normalizeHost lr h))"
  shows "\<not> allows lr (matcherFor lr out) h"
proof -
  from assms(1) obtain mode deny allow where r:
      "0 \<le> NetworkRank mode" "normalizeNames lr ''deny'' (np_Deny p) = Inr deny"
      "resolve_named lr p mode deny allow pol = Inr out"
    by (rule resolveNetwork_Some)
  note out = resolve_named_Inr [OF r(3)]
  have "normal_name lr d \<in> set (items deny)" "good_name (normal_name lr d)"
    using assms(2) normalizeNames_out(3,4) [OF r(2)] by auto
  with assms(3) have "names_match lr (items deny) (normalizeHost lr (normalizeHost lr h))"
    by (auto simp: names_match_def list_ex_iff normalizeHost_good intro!: bexI [of _ "normal_name lr d"])
  then show ?thesis
    using out(1,3,4,5)
    by (cases "mode = ''none''")
      (auto simp: matcherFor_def allows_NewPolicyMatcher allows_NewDenyMatcher names_match_def)
qed

subsection \<open>Limits\<close>

text \<open>Every step of a successful resolution, in one place.\<close>

lemma Resolve_steps:
  assumes "Resolve lr req pol sid = Inr s"
  obtains img idle act life sched env net where
    "CheckName (rq_Name req) = None" "ValidateLabels (rq_Labels req) = None"
    "ValidateVolumeMounts (rq_Volumes req) = None"
    "img = (if rq_Image req = [] then p_DefaultImage pol else rq_Image req)" "CheckImage img pol = None"
    "check_sizes (base_spec req pol sid img) (p_Limits pol) = None" "checkGPUs req (p_Limits pol) = None"
    "resolve_idle (rq_IdleTimeoutSecs req) pol = Inr idle" "ResolveIdleAction (rq_IdleAction req) = Inr act"
    "resolve_lifetime (rq_LifetimeSecs req) (p_Limits pol) = Inr life"
    "ResolveSchedule \<lparr>sc_EverySecs = rq_SnapshotEverySecs req, sc_Keep = rq_SnapshotKeep req\<rparr> (p_Limits pol) = Inr sched"
    "ResolveEnv (rq_Env req) = Inr env" "resolveNetwork lr (rq_Network req) (p_Network pol) = Inr net"
    "s = (base_spec req pol sid img)\<lparr>sp_IdleTimeoutSecs := idle, sp_IdleAction := act,
       sp_LifetimeSecs := life, sp_SnapshotEverySecs := sc_EverySecs sched, sp_SnapshotKeep := sc_Keep sched,
       sp_Env := env, sp_Network := net\<rparr>"
  using assms unfolding Resolve_def Let_def unless_err_Inr and_then_Inr by (elim conjE exE) (rule that; auto)

definition limits_kept :: "Limits \<Rightarrow> Spec \<Rightarrow> bool" where
  "limits_kept l s \<longleftrightarrow>
     f_lt (Fin 0) (sp_CPUs s) \<and> f_le (sp_CPUs s) (l_MaxCPUs l) \<and>
     0 < sp_MemoryMB s \<and> sp_MemoryMB s \<le> l_MaxMemoryMB l \<and>
     0 < sp_DiskMB s \<and> sp_DiskMB s \<le> l_MaxDiskMB l \<and>
     (0 < l_MaxLifetimeSecs l \<longrightarrow> 0 < sp_LifetimeSecs s \<and> sp_LifetimeSecs s \<le> l_MaxLifetimeSecs l) \<and>
     (sp_SnapshotEverySecs s \<noteq> 0 \<longrightarrow>
        l_MinSnapshotEverySecs l \<le> sp_SnapshotEverySecs s \<and> 1 \<le> sp_SnapshotKeep s) \<and>
     0 \<le> sp_SnapshotKeep s \<and> sp_SnapshotKeep s \<le> max 0 (l_MaxSnapshotKeep l)"

lemma ResolveSchedule_Inr:
  assumes "ResolveSchedule s l = Inr r"
  shows "sc_EverySecs r \<noteq> 0 \<Longrightarrow> l_MinSnapshotEverySecs l \<le> sc_EverySecs r \<and> 1 \<le> sc_Keep r"
    "0 \<le> sc_Keep r" "sc_Keep r \<le> max 0 (l_MaxSnapshotKeep l)"
  using assms by (auto simp: ResolveSchedule_def Let_def split: if_split_asm)

lemma resolve_lifetime_Inr:
  "resolve_lifetime n l = Inr life \<Longrightarrow> 0 < l_MaxLifetimeSecs l \<Longrightarrow> 0 < life \<and> life \<le> l_MaxLifetimeSecs l"
  by (auto simp: resolve_lifetime_def Let_def split: if_split_asm)

lemma f_lt_zero_cases: "x \<noteq> NaN \<Longrightarrow> \<not> f_lt x (Fin 0) \<Longrightarrow> x = Fin 0 \<or> f_lt (Fin 0) x"
  using f_lt_trichotomy [of x "Fin 0"] by auto

lemma Validate_defaults:
  "ValidatePolicy lr p = None \<Longrightarrow> \<not> bad_defaults p"
  by (auto simp: ValidatePolicy_def Let_def split: if_split_asm sum.splits option.splits)

lemma base_spec_sizes:
  assumes v: "\<not> bad_defaults pol" and c: "check_sizes (base_spec req pol sid img) (p_Limits pol) = None"
    and nan: "rq_CPUs req \<noteq> NaN" "l_MaxCPUs (p_Limits pol) \<noteq> NaN" "p_DefaultCPUs pol \<noteq> NaN"
  shows "f_lt (Fin 0) (sp_CPUs (base_spec req pol sid img))"
    "f_le (sp_CPUs (base_spec req pol sid img)) (l_MaxCPUs (p_Limits pol))"
    "0 < sp_MemoryMB (base_spec req pol sid img)" "sp_MemoryMB (base_spec req pol sid img) \<le> l_MaxMemoryMB (p_Limits pol)"
    "0 < sp_DiskMB (base_spec req pol sid img)" "sp_DiskMB (base_spec req pol sid img) \<le> l_MaxDiskMB (p_Limits pol)"
proof -
  define cpus where "cpus = sp_CPUs (base_spec req pol sid img)"
  have cpus: "cpus = (if rq_CPUs req = Fin 0 then p_DefaultCPUs pol else rq_CPUs req)"
    by (simp add: cpus_def base_spec_def)
  have ok: "\<not> f_lt cpus (Fin 0)" "\<not> f_lt (l_MaxCPUs (p_Limits pol)) cpus"
    using c by (auto simp: check_sizes_def cpus_def [symmetric] split: if_split_asm)
  have "cpus \<noteq> NaN" "cpus \<noteq> Fin 0" using v nan cpus by (auto simp: bad_defaults_def Let_def f_le_def)
  with ok nan(2) show "f_lt (Fin 0) (sp_CPUs (base_spec req pol sid img))"
    "f_le (sp_CPUs (base_spec req pol sid img)) (l_MaxCPUs (p_Limits pol))"
    using f_lt_zero_cases not_f_lt by (auto simp: cpus_def [symmetric])
  show "0 < sp_MemoryMB (base_spec req pol sid img)" "sp_MemoryMB (base_spec req pol sid img) \<le> l_MaxMemoryMB (p_Limits pol)"
    "0 < sp_DiskMB (base_spec req pol sid img)" "sp_DiskMB (base_spec req pol sid img) \<le> l_MaxDiskMB (p_Limits pol)"
    using v c by (auto simp: bad_defaults_def check_sizes_def base_spec_def Let_def split: if_split_asm)
qed

lemma Resolve_limits:
  assumes "Resolve lr req pol sid = Inr s" "ValidatePolicy lr pol = None"
    and "rq_CPUs req \<noteq> NaN" "l_MaxCPUs (p_Limits pol) \<noteq> NaN" "p_DefaultCPUs pol \<noteq> NaN"
  shows "limits_kept (p_Limits pol) s"
proof -
  from assms(1) obtain img idle act life sched env net where r:
      "check_sizes (base_spec req pol sid img) (p_Limits pol) = None"
      "resolve_lifetime (rq_LifetimeSecs req) (p_Limits pol) = Inr life"
      "ResolveSchedule \<lparr>sc_EverySecs = rq_SnapshotEverySecs req, sc_Keep = rq_SnapshotKeep req\<rparr> (p_Limits pol) = Inr sched"
      "s = (base_spec req pol sid img)\<lparr>sp_IdleTimeoutSecs := idle, sp_IdleAction := act,
         sp_LifetimeSecs := life, sp_SnapshotEverySecs := sc_EverySecs sched, sp_SnapshotKeep := sc_Keep sched,
         sp_Env := env, sp_Network := net\<rparr>"
    by (rule Resolve_steps)
  show ?thesis
    using base_spec_sizes [OF Validate_defaults [OF assms(2)] r(1) assms(3-5)]
      resolve_lifetime_Inr [OF r(2)] ResolveSchedule_Inr [OF r(3)]
    by (simp add: limits_kept_def r(4))
qed

subsection \<open>Environment and volumes\<close>

lemma ResolveEnv_Inr:
  assumes "ResolveEnv env = Inr out"
  shows "out = env" "\<forall>(k, v)\<in>set out. rx_match envNameRE k \<and> \<not> IsReservedEnv k \<and> CHR 0x00 \<notin> set v"
  using assms by (auto simp: ResolveEnv_def check_env_def split: option.splits if_split_asm dest!: bspec)

text \<open>A plain path is the cleaned path of its components.\<close>

lemma volumePathRE_comps:
  assumes "rx_match volumePathRE p"
  obtains cs where "cs \<noteq> []" "p = concat (map ((#) (CHR ''/'')) cs)"
    "\<forall>c\<in>set cs. c \<noteq> [] \<and> CHR ''/'' \<notin> set c"
proof -
  define P where "P = Plus (Cls [(CHR ''A'', CHR ''Z''), (CHR ''a'', CHR ''z''), (CHR ''0'', CHR ''9''),
     (CHR ''.'', CHR ''.''), (CHR ''_'', CHR ''_''), (CHR ''-'', CHR ''-'')])"
  define L where "L = rx_lang P"
  have L: "c \<noteq> [] \<and> CHR ''/'' \<notin> set c" if "c \<in> L" for c
  proof
    show "c \<noteq> []" using that unfolding L_def P_def Plus_def by auto
    show "CHR ''/'' \<notin> set c"
      using rx_lang_chars [OF that [unfolded L_def P_def], of "CHR ''/''"] by (auto simp: Plus_def in_cls_def)
  qed
  have word: "\<exists>c\<in>L. w = CHR ''/'' # c" if "w \<in> rx_lang (Seq (Lit ''/'') P)" for w
    using that by (auto simp: in_cls_single L_def)
  have "p \<in> rx_lang (Seq (Seq (Lit ''/'') P) (Star (Seq (Lit ''/'') P)))"
    using assms by (simp only: rx_match_lang volumePathRE_def Plus_def [of "Seq (Lit ''/'') _"] P_def)
  then obtain w ws where "p = w @ concat ws" "w \<in> rx_lang (Seq (Lit ''/'') P)" "set ws \<subseteq> rx_lang (Seq (Lit ''/'') P)"
    unfolding rx_lang.simps(4) [of "Seq (Lit ''/'') P"] rx_lang.simps(6) mem_Collect_eq by blast
  then have w: "p = w @ concat ws" "\<forall>v\<in>set (w # ws). \<exists>c\<in>L. v = CHR ''/'' # c"
    using word by (auto simp del: rx_lang.simps Lit.simps)
  have "\<exists>cs. length cs = length vs \<and> concat vs = concat (map ((#) (CHR ''/'')) cs) \<and> set cs \<subseteq> L"
    if "\<forall>v\<in>set vs. \<exists>c\<in>L. v = CHR ''/'' # c" for vs
    using that
  proof (induction vs)
    case (Cons v vs)
    then obtain cs c where "length cs = length vs" "concat vs = concat (map ((#) (CHR ''/'')) cs)" "set cs \<subseteq> L"
      "c \<in> L" "v = CHR ''/'' # c" by auto
    then show ?case by (intro exI [of _ "c # cs"]) auto
  qed simp
  from this [OF w(2)] obtain cs where "length cs = length (w # ws)"
    "concat (w # ws) = concat (map ((#) (CHR ''/'')) cs)" "set cs \<subseteq> L" by blast
  with w(1) L that [of cs] show thesis by (cases cs) auto
qed

lemma plain_path_comps:
  assumes "plain_path p"
  obtains cs where "cs \<noteq> []" "p = abs_path cs" "list_all is_comp cs"
proof -
  have m: "rx_match volumePathRE p" using assms by (simp add: plain_path_def)
  from volumePathRE_comps [OF m] obtain cs where cs: "cs \<noteq> []" "p = concat (map ((#) (CHR ''/'')) cs)"
    "\<forall>c\<in>set cs. c \<noteq> [] \<and> CHR ''/'' \<notin> set c" .
  have "c \<noteq> d" if c: "c \<in> set cs" and d: "d = ''.'' \<or> d = ''..''" for c d
  proof
    assume "c = d"
    from c obtain as bs where "cs = as @ c # bs" by (meson split_list)
    with cs(2) have p: "p = concat (map ((#) (CHR ''/'')) as) @ (CHR ''/'' # d) @ concat (map ((#) (CHR ''/'')) bs)"
      using \<open>c = d\<close> by simp
    show False
    proof (cases bs)
      case Nil
      with p have "HasSuffix p (CHR ''/'' # d)" by (auto simp: HasSuffix_iff)
      with assms d show False by (auto simp: plain_path_def)
    next
      case (Cons b bs')
      with p have "p = concat (map ((#) (CHR ''/'')) as) @ (CHR ''/'' # d @ ''/'') @ (b @ concat (map ((#) (CHR ''/'')) bs'))"
        by simp
      then have "Contains p (CHR ''/'' # d @ ''/'')" unfolding Contains_iff by blast
      with assms d show False by (auto simp: plain_path_def)
    qed
  qed
  with cs(3) have "list_all is_comp cs" by (auto simp: list_all_iff is_comp_def)
  with cs that show thesis by (simp add: abs_path_def)
qed
lemma check_volume_None:
  assumes "check_volume prev m = None"
  shows "plain_path (vm_Path m)" "\<forall>r\<in>set reservedMountRoots. \<not> under r (vm_Path m)"
    "vm_Name m \<notin> vm_Name ` set prev" "ValidName (vm_Name m)"
    "\<forall>v\<in>set prev. \<not> under (vm_Path v) (vm_Path m) \<and> \<not> under (vm_Path m) (vm_Path v)"
  using assms
  by (auto simp: check_volume_def find_None_iff under_def split: if_split_asm option.splits)

text \<open>
  What a volume list must be: as many as the bound, each volume once, each path absolute and
  already clean, outside the reserved roots, and no path at or beneath another.
\<close>

definition mounts_ok :: "VolumeMount list \<Rightarrow> bool" where
  "mounts_ok ms \<longleftrightarrow> distinct (map vm_Name ms) \<and>
     (\<forall>m\<in>set ms. IsAbs (vm_Path m) \<and> Clean (vm_Path m) = vm_Path m \<and>
        (\<forall>r\<in>set reservedMountRoots. \<not> under r (vm_Path m))) \<and>
     (\<forall>i<length ms. \<forall>j<length ms. i \<noteq> j \<longrightarrow> \<not> under (vm_Path (ms ! i)) (vm_Path (ms ! j)))"

lemma plain_path_Clean: "plain_path p \<Longrightarrow> IsAbs p \<and> Clean p = p"
proof (elim plain_path_comps)
  fix cs assume "cs \<noteq> []" "p = abs_path cs" "list_all is_comp cs"
  then show "IsAbs p \<and> Clean p = p"
    using Clean_abs_path [of cs] by (cases cs) (simp_all add: IsAbs_def abs_path_def HasPrefix_iff)
qed

lemma mounts_ok_snoc:
  assumes "mounts_ok prev" "check_volume prev m = None"
  shows "mounts_ok (prev @ [m])"
  using assms(1) check_volume_None [OF assms(2)] plain_path_Clean [of "vm_Path m"]
  by (auto simp: mounts_ok_def nth_append less_Suc_eq image_iff)

lemma check_volumes_ok: "check_volumes prev ms = None \<Longrightarrow> mounts_ok prev \<Longrightarrow> mounts_ok (prev @ ms)"
proof (induction ms arbitrary: prev)
  case (Cons m ms)
  then have "check_volume prev m = None" "check_volumes (prev @ [m]) ms = None"
    by (auto split: option.splits)
  with Cons.IH [of "prev @ [m]"] Cons.prems(2) mounts_ok_snoc show ?case by simp
qed simp

lemma ValidateVolumeMounts_ok:
  "ValidateVolumeMounts ms = None \<Longrightarrow> length ms \<le> MaxVolumeMounts \<and> mounts_ok ms"
  using check_volumes_ok [of "[]" ms]
  by (auto simp: ValidateVolumeMounts_def mounts_ok_def split: if_split_asm)

subsection \<open>A policy fitted to a backend\<close>

text \<open>\<open>canEnforce\<close> of \<open>internal/server/server.go\<close>: the second check, against the backend itself.\<close>

definition canEnforce :: "caps \<Rightarrow> NetworkPolicy \<Rightarrow> bool" where
  "canEnforce has p =
    (if np_Mode p = ''allowlist'' \<and> \<not> has ''egress_allowlist'' then False
     else if np_Mode p = ''open'' \<and> \<not> has ''egress_open'' then False
     else True)"

lemma FitTo_cases [case_names keep_open offline no_open kept]:
  fixes p :: Policy and has :: caps
  defines "n \<equiv> p_Network p" and "n' \<equiv> p_Network (fst (FitTo p has))"
  obtains
    "\<not> has ''egress_allowlist''" "sn_Ceiling n = ''open''" "has ''egress_open''" "sn_Ceiling n' = ''open''"
      "sn_MayAllow n' = None"
      "sn_Default n' = (if np_Mode (sn_Default n) = ''allowlist'' then none_policy else sn_Default n)"
  | "\<not> has ''egress_allowlist''" "sn_Ceiling n' = ''none''" "sn_Default n' = none_policy"
      "NetworkRank (sn_Ceiling n) > 0" "sn_MayAllow n' = None"
  | "has ''egress_allowlist''" "\<not> has ''egress_open''" "sn_Ceiling n = ''open''" "sn_Ceiling n' = ''allowlist''"
      "sn_MayAllow n' = sn_MayAllow n"
      "sn_Default n' = (if np_Mode (sn_Default n) = ''open''
         then zero_network\<lparr>np_Mode := ''allowlist'', np_Allow := Some BaselineEgress\<rparr> else sn_Default n)"
  | "n' = n" "has ''egress_allowlist'' \<or> NetworkRank (sn_Ceiling n) \<le> 0"
      "has ''egress_open'' \<or> sn_Ceiling n \<noteq> ''open''"
proof -
  let ?a = "has ''egress_allowlist''" and ?o = "has ''egress_open''" and ?c = "sn_Ceiling (p_Network p)"
  consider "\<not> ?a" "?c = ''open''" "?o" | "\<not> ?a" "\<not> (?c = ''open'' \<and> ?o)" "NetworkRank ?c > 0"
    | "?a" "\<not> ?o" "?c = ''open''" | "?a \<or> NetworkRank ?c \<le> 0" "?o \<or> ?c \<noteq> ''open''"
    by (cases ?a; cases ?o; cases "?c = ''open''"; force simp: NetworkRank_def)
  then show thesis
  proof cases
    case 1 then show thesis by (intro that(1)) (simp_all add: n_def n'_def FitTo_def Let_def)
  next
    case 2 then show thesis
      by (intro that(2)) (auto simp: n_def n'_def FitTo_def Let_def NetworkRank_def split: if_split_asm)
  next
    case 3 then show thesis by (intro that(3)) (simp_all add: n_def n'_def FitTo_def Let_def)
  next
    case 4 then show thesis
      by (intro that(4)) (auto simp: n_def n'_def FitTo_def Let_def NetworkRank_def split: if_split_asm)
  qed
qed

lemma BaselineEgress_good: "\<forall>n\<in>set BaselineEgress. good_name n" "distinct BaselineEgress"
proof -
  have "list_all good_name BaselineEgress" by code_simp
  then show "\<forall>n\<in>set BaselineEgress. good_name n" by (simp add: list_all_iff)
  show "distinct BaselineEgress" by code_simp
qed

lemma resolve_none_policy:
  "0 \<le> NetworkRank (sn_Ceiling n) \<Longrightarrow> resolveNetwork lr (Some none_policy) n = Inr none_policy"
  by (simp add: resolveNetwork_def none_policy_def zero_network_def normalizeNames_def append_slice_def
      resolve_named_def NetworkRank_def Let_def)

lemma normalize_baseline: "normalizeNames lr f (Some BaselineEgress) = Inr (Some (sort BaselineEgress))"
  using normalize_loop_id [of BaselineEgress "[]"] BaselineEgress_good
  by (simp add: normalizeNames_def append_slice_def) (simp add: BaselineEgress_def)

lemma resolve_baseline_policy:
  assumes "sn_Ceiling n = ''allowlist''"
    "sn_Default n = zero_network\<lparr>np_Mode := ''allowlist'', np_Allow := Some BaselineEgress\<rparr>"
  shows "\<exists>out. resolveNetwork lr (Some (sn_Default n)) n = Inr out"
proof -
  have "find (\<lambda>name. name \<notin> set BaselineEgress \<and> Q name) (sort BaselineEgress) = None" for Q
    by (simp add: find_None_iff)
  moreover have "normalizeNames lr f None = Inr None" for f
    by (simp add: normalizeNames_def append_slice_def)
  ultimately show ?thesis
    using assms normalize_baseline
    by (simp add: resolveNetwork_def zero_network_def NetworkRank_def resolve_named_def chosen_allow_def
        defaultAllow_def Let_def) (simp add: BaselineEgress_def)
qed

lemma resolveNetwork_ceiling:
  assumes "resolveNetwork lr (Some p) n = Inr out" "NetworkRank (np_Mode out) \<le> NetworkRank (sn_Ceiling n')"
    "sn_Default n' = sn_Default n" "sn_MayAllow n' = sn_MayAllow n"
  shows "resolveNetwork lr (Some p) n' = Inr out"
proof -
  from assms(1) obtain mode deny allow where r: "items (np_Groups p) = []"
      "mode = (if np_Mode p = [] then np_Mode (sn_Default n) else np_Mode p)" "0 \<le> NetworkRank mode"
      "normalizeNames lr ''deny'' (np_Deny p) = Inr deny" "normalizeNames lr ''allow'' (np_Allow p) = Inr allow"
      "resolve_named lr p mode deny allow n = Inr out"
    by (rule resolveNetwork_Some)
  have "chosen_allow lr p (items allow) n' = chosen_allow lr p (items allow) n"
    using assms(3,4) by (simp add: chosen_allow_def defaultAllow_def)
  with r(6) have "resolve_named lr p mode deny allow n' = Inr out" by (simp only: resolve_named_def Let_def)
  then show ?thesis
    using r(1-5) assms(2,3) resolve_named_Inr(1) [OF r(6)]
    by (cases "np_Mode p = []") (simp_all add: resolveNetwork_def Let_def)
qed

text \<open>Fitting keeps a coherent policy coherent: its default is still one it would grant.\<close>

lemma fitted_default:
  fixes has :: caps
  assumes "ValidatePolicy lr p = None"
  defines "n' \<equiv> p_Network (fst (FitTo p has))"
  shows "0 \<le> NetworkRank (sn_Ceiling n')"
    and "\<exists>out. resolveNetwork lr (Some (sn_Default n')) (n'\<lparr>sn_MayAllow := None\<rparr>) = Inr out"
proof -
  define n where "n = p_Network p"
  have c: "0 \<le> NetworkRank (sn_Ceiling n)"
    using assms(1) by (auto simp: ValidatePolicy_def n_def Let_def split: if_split_asm)
  obtain out where out: "resolveNetwork lr (Some (sn_Default n)) (n\<lparr>sn_MayAllow := None\<rparr>) = Inr out"
    using ValidatePolicy_default [OF assms(1)] unfolding n_def by blast
  have mode: "np_Mode out = np_Mode (sn_Default n)" "0 \<le> NetworkRank (np_Mode out)"
    using out by (auto elim!: resolveNetwork_Some dest: resolve_named_Inr(1) split: if_split_asm)
  have keep: "\<exists>out. resolveNetwork lr (Some (sn_Default n)) (n'\<lparr>sn_MayAllow := None\<rparr>) = Inr out"
    if "sn_Default n' = sn_Default n" "NetworkRank (np_Mode (sn_Default n)) \<le> NetworkRank (sn_Ceiling n')"
    using resolveNetwork_ceiling [OF out, of "n'\<lparr>sn_MayAllow := None\<rparr>"] that mode by auto
  have "0 \<le> NetworkRank (sn_Ceiling n') \<and>
      (\<exists>out. resolveNetwork lr (Some (sn_Default n')) (n'\<lparr>sn_MayAllow := None\<rparr>) = Inr out)"
  proof (cases rule: FitTo_cases [of has p, folded n_def n'_def])
    case 1
    then show ?thesis
      using keep resolve_none_policy [of "n'\<lparr>sn_MayAllow := None\<rparr>" lr] c
      by (auto simp: NetworkRank_def split: if_split_asm)
  next
    case 2
    then show ?thesis
      using resolve_none_policy [of "n'\<lparr>sn_MayAllow := None\<rparr>" lr] by (simp add: NetworkRank_def)
  next
    case 3
    then show ?thesis
      using keep mode resolve_baseline_policy [of "n'\<lparr>sn_MayAllow := None\<rparr>" lr]
      by (auto simp: NetworkRank_def split: if_split_asm)
  next
    case 4
    then show ?thesis using c out by auto
  qed
  then show "0 \<le> NetworkRank (sn_Ceiling n')"
    "\<exists>out. resolveNetwork lr (Some (sn_Default n')) (n'\<lparr>sn_MayAllow := None\<rparr>) = Inr out" by auto
qed

lemma FitTo_fields [simp]:
  "p_DefaultImage (fst (FitTo p has)) = p_DefaultImage p" "p_Images (fst (FitTo p has)) = p_Images p"
  "p_Pools (fst (FitTo p has)) = p_Pools p" "p_DefaultCPUs (fst (FitTo p has)) = p_DefaultCPUs p"
  "p_DefaultMemoryMB (fst (FitTo p has)) = p_DefaultMemoryMB p" "p_DefaultDiskMB (fst (FitTo p has)) = p_DefaultDiskMB p"
  "p_Limits (fst (FitTo p has)) = (if has ''gpu'' then p_Limits p else (p_Limits p)\<lparr>l_MaxGPUs := 0\<rparr>)"
  by (simp_all add: FitTo_def Let_def split: prod.splits)

lemma check_pools_cong:
  "p_DefaultImage p' = p_DefaultImage p \<Longrightarrow> p_Images p' = p_Images p \<Longrightarrow> check_pools p' seen ps = check_pools p seen ps"
  by (induction ps arbitrary: seen) (simp_all add: images_refuse_def Let_def)

lemma ValidatePolicy_None:
  "ValidatePolicy lr p = None \<longleftrightarrow> p_DefaultImage p \<noteq> [] \<and> 0 \<le> NetworkRank (sn_Ceiling (p_Network p)) \<and>
    0 \<le> l_MaxGPUs (p_Limits p) \<and> 0 \<le> l_MaxLifetimeSecs (p_Limits p) \<and>
    (\<exists>out. resolveNetwork lr (Some (sn_Default (p_Network p))) ((p_Network p)\<lparr>sn_MayAllow := None\<rparr>) = Inr out) \<and>
    check_pools p [] (p_Pools p) = None \<and> \<not> bad_defaults p \<and>
    1 \<le> l_MinSnapshotEverySecs (p_Limits p) \<and> 0 \<le> l_MaxSnapshotKeep (p_Limits p) \<and>
    0 \<le> l_MinMetricsExportSecs (p_Limits p)"
  by (cases "resolveNetwork lr (Some (sn_Default (p_Network p))) ((p_Network p)\<lparr>sn_MayAllow := None\<rparr>)")
    (auto simp: ValidatePolicy_def Let_def split: option.splits)

lemma FitTo_valid: "ValidatePolicy lr p = None \<Longrightarrow> ValidatePolicy lr (fst (FitTo p has)) = None"
  using fitted_default [of lr p has]
  unfolding ValidatePolicy_None
  by (auto simp: check_pools_cong [of "fst (FitTo p has)" p] bad_defaults_def Let_def)

text \<open>What a fitted policy grants and the backend can enforce, the original would have granted.\<close>

lemma network_within_mono:
  assumes "network_within lr n' out" "NetworkRank (sn_Ceiling n') \<le> NetworkRank (sn_Ceiling n)"
    and "np_Mode out = ''allowlist'' \<Longrightarrow> defaultAllow n' = defaultAllow n \<and> sn_MayAllow n' = sn_MayAllow n"
  shows "network_within lr n out"
  using assms by (auto simp: network_within_def)

lemma FitTo_within:
  assumes "network_within lr (p_Network (fst (FitTo p has))) out" "canEnforce has out"
    "0 \<le> NetworkRank (sn_Ceiling (p_Network p))"
  shows "network_within lr (p_Network p) out"
proof (cases rule: FitTo_cases [of has p])
  case keep_open
  with assms show ?thesis by (intro network_within_mono [OF assms(1)]) (auto simp: canEnforce_def split: if_split_asm)
next
  case offline
  with assms show ?thesis
    by (intro network_within_mono [OF assms(1)]) (auto simp: network_within_def NetworkRank_def)
next
  case no_open
  then show ?thesis
    by (intro network_within_mono [OF assms(1)])
      (auto simp: NetworkRank_def defaultAllow_def zero_network_def split: if_split_asm)
next
  case kept
  with assms(1) show ?thesis by simp
qed

subsection \<open>A loaded policy\<close>

text \<open>A resolved policy resolves to itself where its own list is the default.\<close>

lemma resolveNetwork_again:
  assumes "resolveNetwork lr (Some d) n = Inr out" "sn_Default n = d"
    and "sn_Default n' = out" "sn_Ceiling n' = sn_Ceiling n"
  shows "copyPolicy out = out" "resolveNetwork lr (Some out) n' = Inr out"
proof -
  from assms(1) obtain mode deny allow where r:
      "mode = (if np_Mode d = [] then np_Mode (sn_Default n) else np_Mode d)"
      "0 \<le> NetworkRank mode" "NetworkRank mode \<le> NetworkRank (sn_Ceiling n)"
      "normalizeNames lr ''deny'' (np_Deny d) = Inr deny" "normalizeNames lr ''allow'' (np_Allow d) = Inr allow"
      "resolve_named lr d mode deny allow n = Inr out"
    by (rule resolveNetwork_Some)
  note o = resolve_named_Inr [OF r(6)]
  have mode: "mode = np_Mode out" "mode \<noteq> []" "mode = ''none'' \<or> mode = ''allowlist'' \<or> mode = ''open''"
    using o(1) r(2) by (auto simp: NetworkRank_cases)
  have none: "normalizeNames lr f None = Inr None" for f by (simp add: normalizeNames_def append_slice_def)
  have deny: "normalizeNames lr ''deny'' (np_Deny out) = Inr (np_Deny out)"
    using o(3,4) normalizeNames_twice [OF r(4)] none by (cases "mode = ''none''") auto
  have lst: "np_Allow out = allow \<and> items allow \<noteq> []" if m: "mode = ''allowlist''"
  proof -
    from m o(6) obtain names where n: "chosen_allow lr d (items allow) n = Inr names" "names \<noteq> []"
      "np_Allow out = Some names" by auto
    have "np_Allow d \<noteq> None"
      using chosen_allow_Inr [OF n(1)] n(2) m r(1) assms(2) by (auto simp: defaultAllow_def)
    with chosen_allow_Inr [OF n(1)] n(2,3) show ?thesis by (cases allow) auto
  qed
  have allow: "normalizeNames lr ''allow'' (np_Allow out) = Inr (np_Allow out)"
    using mode(3) lst o(5) none normalizeNames_twice [OF r(5)] by auto
  have slice: "append_slice None (items x) = x" if "x \<noteq> Some []" for x :: "bytes list option"
    using that by (cases x) (auto simp: append_slice_def)
  have ne: "np_Allow out \<noteq> Some []" "np_Deny out \<noteq> Some []"
    using normalizeNames_out(5) [OF allow] normalizeNames_out(5) [OF deny] by auto
  then show "copyPolicy out = out" using o(2) slice by (cases out) (simp add: copyPolicy_def)
  have chosen: "chosen_allow lr out (items (np_Allow out)) n' = Inr (items (np_Allow out))" if m: "mode = ''allowlist''"
  proof -
    have "np_Allow out \<noteq> None" using o(6) m by auto
    moreover have "defaultAllow n' = items (np_Allow out)" using m mode(1) assms(3) by (simp add: defaultAllow_def)
    moreover have "find (\<lambda>x. x \<notin> set xs \<and> Q x) xs = None" for xs :: "bytes list" and Q
      by (simp add: find_None_iff)
    ultimately show ?thesis by (simp add: chosen_allow_def)
  qed
  have "resolve_named lr out mode (np_Deny out) (np_Allow out) n' = Inr out"
  proof (cases "mode = ''allowlist''")
    case True
    then obtain names where "np_Allow out = Some names" "names \<noteq> []" using o(6) by auto
    with True chosen [OF True] o(1,2) show ?thesis by (cases out) (simp add: resolve_named_def)
  next
    case False
    with mode o(2,4,5) show ?thesis by (cases out) (auto simp: resolve_named_def Let_def)
  qed
  then show "resolveNetwork lr (Some out) n' = Inr out"
    using mode(1,2) r(2,3) o(2) deny allow assms(4)
    by (simp add: resolveNetwork_def Let_def)
qed

lemma LoadPolicy_Inr:
  assumes "LoadPolicy lr img (Inr f) = Inr p"
  obtains n out where "resolveNetwork lr (Some (sn_Default n)) (n\<lparr>sn_MayAllow := Some [''*'']\<rparr>) = Inr out"
    "p_Network p = n\<lparr>sn_Default := out\<rparr>" "ValidatePolicy lr p = None"
proof -
  define q where "q = apply_file f (DefaultPolicy img)"
  have eq: "\<lparr>sn_Default = sn_Default (p_Network q), sn_Ceiling = sn_Ceiling (p_Network q), sn_MayAllow = Some [''*'']\<rparr>
      = (p_Network q)\<lparr>sn_MayAllow := Some [''*'']\<rparr>" by simp
  show thesis
    using assms unfolding LoadPolicy_def Let_def sum.case q_def [symmetric] eq
    by (cases "resolveNetwork lr (Some (sn_Default (p_Network q))) ((p_Network q)\<lparr>sn_MayAllow := Some [''*'']\<rparr>)")
      (auto split: option.splits intro!: that)
qed

lemma LoadPolicy_default:
  assumes "LoadPolicy lr img (Inr f) = Inr p"
  shows "resolveNetwork lr (Some (sn_Default (p_Network p))) (p_Network p) = resolveNetwork lr None (p_Network p)"
    and "ValidatePolicy lr p = None"
proof -
  from assms obtain n out where l:
      "resolveNetwork lr (Some (sn_Default n)) (n\<lparr>sn_MayAllow := Some [''*'']\<rparr>) = Inr out"
      "p_Network p = n\<lparr>sn_Default := out\<rparr>" "ValidatePolicy lr p = None"
    by (rule LoadPolicy_Inr)
  note a = resolveNetwork_again [OF l(1), of "p_Network p"]
  show "resolveNetwork lr (Some (sn_Default (p_Network p))) (p_Network p) = resolveNetwork lr None (p_Network p)"
    using a l(2) by (simp add: resolveNetwork_def [of lr None])
  show "ValidatePolicy lr p = None" by (rule l(3))
qed

subsection \<open>Properties\<close>

definition demo_policy :: Policy where
  "demo_policy = (DefaultPolicy ''img'')\<lparr>p_Network :=
     \<lparr>sn_Default = zero_network\<lparr>np_Mode := ''allowlist'', np_Allow := Some [''github.com'']\<rparr>,
      sn_Ceiling = ''allowlist'', sn_MayAllow = Some [''*.example.com'']\<rparr>\<rparr>"

definition demo_request :: CreateSandboxRequest where
  "demo_request = zero_request\<lparr>rq_CPUs := Fin 2, rq_Env := [(''A'', ''1'')],
     rq_Volumes := [\<lparr>vm_Name = ''d'', vm_Path = ''/data'', vm_ReadOnly = False\<rparr>,
       \<lparr>vm_Name = ''e'', vm_Path = ''/sandbox/x'', vm_ReadOnly = True\<rparr>],
     rq_Network := Some (zero_network\<lparr>np_Mode := ''allowlist'',
       np_Allow := Some [''GitHub.com.'', ''*.a.example.com''], np_Deny := Some [''b.a.example.com'']\<rparr>)\<rparr>"

lemma demo_valid: "ValidatePolicy (\<lambda>x. x) demo_policy = None"
  by code_simp

lemma demo_resolves:
  "result_holds (\<lambda>s. sp_MemoryMB s = 1024 \<and> np_Allow (sp_Network s) = Some [''*.a.example.com'', ''github.com''])
    (Resolve (\<lambda>x. x) demo_request demo_policy ''sbx_0'')"
  by code_simp

lemma Resolve_within:
  assumes "Resolve lr req pol sid = Inr s" and "ValidatePolicy lr pol = None"
  shows "network_within lr (p_Network pol) (sp_Network s)"
proof -
  from assms(1) obtain net where "resolveNetwork lr (rq_Network req) (p_Network pol) = Inr net" "sp_Network s = net"
    by (rule Resolve_steps) simp
  then show ?thesis
    using resolveNetwork_within default_within [OF assms(2)]
    by (cases "rq_Network req") (auto simp: resolveNetwork_def [of lr None])
qed

text \<open>C4: A create request never widens what the server decided. Whatever the request says, the
  resolved sandbox's mode is at or below the server's ceiling. Under an allow list, every host its matcher
  lets through is within the server's default list or its may-allow patterns (a wildcard entry included);
  under none there is no such host. A request resolves to open, where the matcher lets every host through
  that is not denied, only under a ceiling that is open itself.\<close>

theorem request_never_widens:
  assumes "Resolve lr req pol sid = Inr s" and "ValidatePolicy lr pol = None"
  shows "network_within lr (p_Network pol) (sp_Network s) \<and> (np_Mode (sp_Network s) = ''open'' \<longrightarrow> sn_Ceiling (p_Network pol) = ''open'')"
  using Resolve_within [OF assms] by (auto simp: network_within_def NetworkRank_def split: if_splits)

theorem request_never_widens_witness:
  "\<exists>s. Resolve (\<lambda>x. x) demo_request demo_policy ''sbx_0'' = Inr s \<and> network_within (\<lambda>x. x) (p_Network demo_policy) (sp_Network s)"
  using demo_resolves request_never_widens [OF _ demo_valid] unfolding result_holds_iff by blast

text \<open>C5: A host that matches one of the request's own deny entries is refused by the resolved
  sandbox's matcher, whatever the mode and however wide the allow list.\<close>

theorem request_deny_wins:
  assumes "Resolve lr req pol sid = Inr s" and "rq_Network req = Some p" and "d \<in> set (items (np_Deny p))"
    and "pattern_match (normal_name lr d) (normalizeHost lr (normalizeHost lr h))"
  shows "\<not> allows lr (matcherFor lr (sp_Network s)) h"
proof -
  from assms(1) obtain net where "resolveNetwork lr (rq_Network req) (p_Network pol) = Inr net" "sp_Network s = net"
    by (rule Resolve_steps) simp
  with resolveNetwork_deny [of lr p "p_Network pol" net d h] assms(2-4) show ?thesis by simp
qed

theorem request_deny_wins_witness:
  "\<exists>s. Resolve (\<lambda>x. x) demo_request demo_policy ''sbx_0'' = Inr s \<and>
     \<not> allows (\<lambda>x. x) (matcherFor (\<lambda>x. x) (sp_Network s)) ''B.a.example.com:443''"
proof -
  obtain s where s: "Resolve (\<lambda>x. x) demo_request demo_policy ''sbx_0'' = Inr s"
    using demo_resolves unfolding result_holds_iff by blast
  have "rq_Network demo_request = Some (zero_network\<lparr>np_Mode := ''allowlist'',
       np_Allow := Some [''GitHub.com.'', ''*.a.example.com''], np_Deny := Some [''b.a.example.com'']\<rparr>)"
    by (simp add: demo_request_def)
  moreover have "pattern_match (normal_name (\<lambda>x. x) ''b.a.example.com'')
      (normalizeHost (\<lambda>x. x) (normalizeHost (\<lambda>x. x) ''B.a.example.com:443''))" by code_simp
  ultimately show ?thesis using request_deny_wins [OF s, where d = "''b.a.example.com''"] s by simp
qed

text \<open>C6: A resolved sandbox is within the server's limits: its CPUs, memory and disk are positive
  and at most the maxima, a lifetime where the operator set one is positive and no longer than it,
  and a snapshot schedule is no more frequent and keeps no more than allowed. The processor counts
  are numbers: JSON cannot say otherwise, and a policy file's are assumed to be.\<close>

theorem resolved_within_limits:
  assumes "Resolve lr req pol sid = Inr s" and "ValidatePolicy lr pol = None"
    and "rq_CPUs req \<noteq> NaN" and "l_MaxCPUs (p_Limits pol) \<noteq> NaN" and "p_DefaultCPUs pol \<noteq> NaN"
  shows "limits_kept (p_Limits pol) s"
  using assms by (rule Resolve_limits)

theorem resolved_within_limits_witness:
  "\<exists>s. Resolve (\<lambda>x. x) demo_request demo_policy ''sbx_0'' = Inr s \<and> limits_kept (p_Limits demo_policy) s"
proof -
  have "rq_CPUs demo_request \<noteq> NaN" "l_MaxCPUs (p_Limits demo_policy) \<noteq> NaN" "p_DefaultCPUs demo_policy \<noteq> NaN"
    by (simp_all add: demo_request_def demo_policy_def DefaultPolicy_def)
  then show ?thesis
    using demo_resolves resolved_within_limits [OF _ demo_valid] unfolding result_holds_iff by blast
qed

text \<open>What a resolved sandbox is given of the request's own is safe to give: the environment is
  the request's, with portable names, no reserved name and no NUL; the volumes are at most eight,
  each mounted once, at absolute paths that are already clean, outside every reserved root, none
  at or beneath another; the image is one the policy permits.\<close>

theorem resolved_parts_safe:
  assumes "Resolve lr req pol sid = Inr s"
  shows "sp_Env s = rq_Env req \<and>
      (\<forall>(k, v)\<in>set (sp_Env s). rx_match envNameRE k \<and> \<not> IsReservedEnv k \<and> CHR 0x00 \<notin> set v) \<and>
      sp_Volumes s = rq_Volumes req \<and> length (sp_Volumes s) \<le> MaxVolumeMounts \<and> mounts_ok (sp_Volumes s) \<and>
      \<not> images_refuse pol (sp_Image s) \<and> \<not> HasPrefix (sp_Image s) ''-''"
proof -
  from assms obtain img idle act life env net and sched :: SnapshotSchedule where r:
      "ValidateVolumeMounts (rq_Volumes req) = None" "CheckImage img pol = None" "ResolveEnv (rq_Env req) = Inr env"
      "s = (base_spec req pol sid img)\<lparr>sp_IdleTimeoutSecs := idle, sp_IdleAction := act,
         sp_LifetimeSecs := life, sp_SnapshotEverySecs := sc_EverySecs sched, sp_SnapshotKeep := sc_Keep sched,
         sp_Env := env, sp_Network := net\<rparr>"
    by (rule Resolve_steps)
  have f: "sp_Env s = env" "sp_Volumes s = rq_Volumes req" "sp_Image s = img"
    by (simp_all add: r(4) base_spec_def)
  have "rx_match imageRE img" "\<not> images_refuse pol img"
    using r(2) by (auto simp: CheckImage_def split: if_split_asm)
  moreover have "\<not> HasPrefix img ''-''"
  proof
    assume "HasPrefix img ''-''"
    then obtain t where "img = CHR ''-'' # t" by (auto simp: HasPrefix_iff)
    with \<open>rx_match imageRE img\<close> show False
      by (simp add: rx_match_lang imageRE_def Seq_Cons in_cls_def del: rx_lang.simps(4))
  qed
  ultimately show ?thesis
    using ResolveEnv_Inr [OF r(3)] ValidateVolumeMounts_ok [OF r(1)] f by auto
qed

theorem resolved_parts_safe_witness:
  "\<exists>s. Resolve (\<lambda>x. x) demo_request demo_policy ''sbx_0'' = Inr s \<and> sp_Env s = [(''A'', ''1'')] \<and> mounts_ok (sp_Volumes s)"
proof -
  obtain s where s: "Resolve (\<lambda>x. x) demo_request demo_policy ''sbx_0'' = Inr s"
    using demo_resolves unfolding result_holds_iff by blast
  show ?thesis using resolved_parts_safe [OF s] s by (auto simp: demo_request_def)
qed

text \<open>Fitting a coherent policy to a backend's capabilities gives a coherent policy, never
  raises the ceiling, has a default the backend can enforce, and grants nothing enforceable there
  that the original policy would not have granted.\<close>

theorem fit_only_narrows:
  assumes "ValidatePolicy lr p = None"
  shows "ValidatePolicy lr (fst (FitTo p has)) = None \<and>
    NetworkRank (sn_Ceiling (p_Network (fst (FitTo p has)))) \<le> NetworkRank (sn_Ceiling (p_Network p)) \<and>
    canEnforce has (sn_Default (p_Network (fst (FitTo p has)))) \<and>
    (\<forall>req out. resolveNetwork lr req (p_Network (fst (FitTo p has))) = Inr out \<and> canEnforce has out
       \<longrightarrow> network_within lr (p_Network p) out)"
proof -
  define n n' where "n = p_Network p" and "n' = p_Network (fst (FitTo p has))"
  note v = FitTo_valid [OF assms, of has]
  have c: "0 \<le> NetworkRank (sn_Ceiling n)" "0 \<le> NetworkRank (sn_Ceiling n')"
    using assms v by (simp_all add: ValidatePolicy_None n_def n'_def)
  have d: "network_within lr n' (copyPolicy (sn_Default n'))" using default_within [OF v] by (simp add: n'_def)
  then have "NetworkRank (np_Mode (sn_Default n')) \<le> NetworkRank (sn_Ceiling n')"
    "0 \<le> NetworkRank (np_Mode (sn_Default n'))" by (auto simp: network_within_def copyPolicy_def)
  then have "NetworkRank (sn_Ceiling n') \<le> NetworkRank (sn_Ceiling n) \<and> canEnforce has (sn_Default n')"
    using c(1)
    by (cases rule: FitTo_cases [of has p, folded n_def n'_def])
      (auto simp: canEnforce_def NetworkRank_def none_policy_def zero_network_def split: if_split_asm)
  moreover have "network_within lr n out" if "resolveNetwork lr req n' = Inr out" "canEnforce has out" for req out
  proof -
    have "network_within lr n' out"
      using that(1) resolveNetwork_within d by (cases req) (auto simp: resolveNetwork_def [of lr None])
    then show ?thesis using FitTo_within [of lr p has out] that(2) c(1) by (simp add: n_def n'_def)
  qed
  ultimately show ?thesis using v by (auto simp: n_def n'_def)
qed

theorem fit_only_narrows_witness:
  "ValidatePolicy (\<lambda>x. x) (fst (FitTo demo_policy (\<lambda>_. False))) = None \<and>
   sn_Ceiling (p_Network (fst (FitTo demo_policy (\<lambda>_. False)))) = ''none''"
  using fit_only_narrows [OF demo_valid, of "\<lambda>_. False"]
  by (simp add: FitTo_def demo_policy_def NetworkRank_def)

text \<open>Under a policy loaded from a file, sending no network policy and sending the server's
  default explicitly resolve to the same thing, and the loaded policy is coherent.\<close>

theorem loaded_default_is_a_request:
  assumes "LoadPolicy lr img (Inr f) = Inr p"
  shows "ValidatePolicy lr p = None \<and>
    resolveNetwork lr (Some (sn_Default (p_Network p))) (p_Network p) = resolveNetwork lr None (p_Network p)"
  using LoadPolicy_default [OF assms] by simp

definition demo_file :: policyFile where
  "demo_file = \<lparr>pf_DefaultImage = None, pf_Images = None, pf_Defaults = None, pf_Limits = None,
     pf_Network = Some \<lparr>fn_Default = Some (''allowlist'', Some [''GitHub.com''], Some [''b.c'', ''B.C.'']),
       fn_Ceiling = None, fn_MayAllow = None\<rparr>, pf_Pools = [([], 2)]\<rparr>"

theorem loaded_default_is_a_request_witness:
  "\<exists>p. LoadPolicy (\<lambda>x. x) ''img'' (Inr demo_file) = Inr p \<and> np_Deny (sn_Default (p_Network p)) = Some [''b.c''] \<and>
    resolveNetwork (\<lambda>x. x) (Some (sn_Default (p_Network p))) (p_Network p) = resolveNetwork (\<lambda>x. x) None (p_Network p)"
proof -
  have "result_holds (\<lambda>p. np_Deny (sn_Default (p_Network p)) = Some [''b.c'']) (LoadPolicy (\<lambda>x. x) ''img'' (Inr demo_file))"
    by code_simp
  then show ?thesis using loaded_default_is_a_request unfolding result_holds_iff by blast
qed

text \<open>A resize that is granted gives what was asked, keeps what was not, stays within the
  limits, leaves the guest enough memory to boot, and never shrinks the disk.\<close>

theorem resize_never_shrinks:
  assumes "ResolveResize req cur pol = Inr out"
  shows "nr_DiskMB cur \<le> nr_DiskMB out \<and> nr_DiskMB out \<le> l_MaxDiskMB (p_Limits pol) \<and>
    minMemoryMB \<le> nr_MemoryMB out \<and> nr_MemoryMB out \<le> l_MaxMemoryMB (p_Limits pol) \<and>
    \<not> f_le (nr_CPUs out) (Fin 0) \<and> \<not> f_lt (l_MaxCPUs (p_Limits pol)) (nr_CPUs out) \<and>
    nr_GPUs out = nr_GPUs cur \<and>
    nr_DiskMB out = (if rz_DiskMB req = 0 then nr_DiskMB cur else rz_DiskMB req) \<and>
    nr_MemoryMB out = (if rz_MemoryMB req = 0 then nr_MemoryMB cur else rz_MemoryMB req) \<and>
    nr_CPUs out = (if rz_CPUs req = Fin 0 then nr_CPUs cur else rz_CPUs req)"
  using assms unfolding ResolveResize_def Let_def by (simp split: if_split_asm) auto

theorem resize_never_shrinks_witness:
  "\<exists>out. ResolveResize \<lparr>rz_CPUs = Fin 0, rz_MemoryMB = 0, rz_DiskMB = 20480\<rparr>
      \<lparr>nr_CPUs = Fin 1, nr_MemoryMB = 1024, nr_DiskMB = 10240, nr_GPUs = 0\<rparr> demo_policy = Inr out \<and> nr_DiskMB out = 20480"
proof -
  have "result_holds (\<lambda>_. True) (ResolveResize \<lparr>rz_CPUs = Fin 0, rz_MemoryMB = 0, rz_DiskMB = 20480\<rparr>
      \<lparr>nr_CPUs = Fin 1, nr_MemoryMB = 1024, nr_DiskMB = 10240, nr_GPUs = 0\<rparr> demo_policy)" by code_simp
  then obtain out where o: "ResolveResize \<lparr>rz_CPUs = Fin 0, rz_MemoryMB = 0, rz_DiskMB = 20480\<rparr>
      \<lparr>nr_CPUs = Fin 1, nr_MemoryMB = 1024, nr_DiskMB = 10240, nr_GPUs = 0\<rparr> demo_policy = Inr out"
    unfolding result_holds_iff by blast
  show ?thesis using resize_never_shrinks [OF o] o by simp
qed

subsection \<open>Where the code parts from its documentation\<close>

definition idle_policy :: Policy where
  "idle_policy = demo_policy\<lparr>p_Limits := (p_Limits demo_policy)\<lparr>l_MaxIdleTimeoutSecs := 600\<rparr>\<rparr>"

text \<open>A policy the server accepts may have a default idle timeout above its own maximum: a
  request that names no timeout is then given more than the maximum, while one that asks for the
  same number is refused.\<close>

theorem default_idle_above_maximum:
  "ValidatePolicy (\<lambda>x. x) idle_policy = None \<and>
   result_holds (\<lambda>s. l_MaxIdleTimeoutSecs (p_Limits idle_policy) < sp_IdleTimeoutSecs s)
     (Resolve (\<lambda>x. x) zero_request idle_policy ''sbx_0'') \<and>
   Resolve (\<lambda>x. x) (zero_request\<lparr>rq_IdleTimeoutSecs := 1800\<rparr>) idle_policy ''sbx_0'' = Inl (Invalid (Time (IdleTooLong 1800)))"
  by code_simp

definition deny_policy :: Policy where
  "deny_policy = (DefaultPolicy ''img'')\<lparr>p_Network :=
     \<lparr>sn_Default = zero_network\<lparr>np_Mode := ''open'', np_Deny := Some [''gist.github.com'']\<rparr>,
      sn_Ceiling = ''open'', sn_MayAllow = None\<rparr>\<rparr>"

text \<open>The deny list of the server's default is not part of the floor: a request that names just
  the default's own mode reaches a host that a request naming nothing does not.\<close>

theorem request_drops_default_deny:
  "ValidatePolicy (\<lambda>x. x) deny_policy = None \<and>
   result_holds (\<lambda>s. \<not> allows (\<lambda>x. x) (matcherFor (\<lambda>x. x) (sp_Network s)) ''gist.github.com'')
     (Resolve (\<lambda>x. x) zero_request deny_policy ''sbx_0'') \<and>
   result_holds (\<lambda>s. allows (\<lambda>x. x) (matcherFor (\<lambda>x. x) (sp_Network s)) ''gist.github.com'')
     (Resolve (\<lambda>x. x) (zero_request\<lparr>rq_Network := Some open_policy\<rparr>) deny_policy ''sbx_0'')"
  by code_simp

text \<open>An address passes for a name: a dotted quad is four labels of digits.\<close>

theorem address_passes_for_name:
  "normalizeNames (\<lambda>x. x) ''allow'' (Some [''169.254.169.254'']) = Inr (Some [''169.254.169.254''])"
  by code_simp

end
