(* ===== verification/Server_Sandbox.thy ===== *)
theory Server_Sandbox
  imports Spec_Safety "HOL-Library.Multiset"
begin

text \<open>
  The sandbox server's records (\<open>internal/server\<close>: \<open>server.go\<close>, \<open>volumes.go\<close>, \<open>gpu.go\<close>, \<open>lifecycle.go\<close>): what
  a create is refused for, what it claims under the server's lock, and how a sandbox's record moves
  between its states while requests, the idle reaper and the backend's answers interleave.

  Records are in a store, its indices the code's pointers; the table maps ids to pointers. A request in
  the middle of a backend call is an entry of \<open>v_ops\<close> (\<open>v_pooled\<close> has the creates that took a pooled
  sandbox, their variable \<open>from\<close>); each critical section is one step. Refusals are
  the HTTP status and the API's error code; messages are not modelled. Times are nanoseconds. The
  backend is the record \<open>config\<close>: what it can do and whether a device is ready; whether a call to it
  succeeds is part of the step.
\<close>

subsection \<open>Records\<close>

datatype sbx_state = Pending | Running | Suspended | Terminated

record sandbox =
  b_ID :: bytes
  b_Name :: bytes
  b_State :: sbx_state
  b_Image :: bytes
  b_CPUs :: f64
  b_MemoryMB :: int
  b_DiskMB :: int
  b_EnvNames :: "bytes list"
  b_Network :: NetworkPolicy
  b_CreatedAt :: int
  b_IdleTimeoutSecs :: int
  b_IdleAction :: bytes
  b_IdleSuspended :: bool
  b_LifetimeSecs :: int
  b_ExpiresAt :: "int option"
  b_SnapshotEverySecs :: int
  b_SnapshotKeep :: int
  b_Snapshotting :: bool
  b_Labels :: "(bytes \<times> bytes) list"
  b_Volumes :: "VolumeMount list"
  b_GPUs :: "bytes list"

record rec =
  r_sbx :: sandbox
  r_env :: "(bytes \<times> bytes) list"
  r_procs :: "(nat \<times> bool) list"
  r_nextPID :: nat
  r_lastActive :: int
  r_lastScheduled :: int
  r_snapshotting :: bool

definition second :: int where
  "second = 1000000000"

subsection \<open>The server\<close>

text \<open>What the server is given: the operator's policy (with the lower-case mapping of letters names are
  compared under), the backend's capabilities, the optional interfaces it has, the node's devices.\<close>

record config =
  cf_lower :: "nat \<Rightarrow> nat"
  cf_Policy :: Policy
  cf_caps :: caps
  cf_Suspender :: bool
  cf_Snapshotter :: bool
  cf_VolumeStore :: bool
  cf_GPUs :: "bytes list"
  cf_gpuReady :: "bytes \<Rightarrow> bool"
  cf_NodeID :: bytes

record snapshot =
  sn_ID :: bytes
  sn_Sandbox :: bytes
  sn_Kind :: bytes
  sn_Scheduled :: bool
  sn_CreatedAt :: int
  sn_Image :: bytes
  sn_CPUs :: f64
  sn_MemoryMB :: int
  sn_DiskMB :: int

text \<open>
  A request that is waiting on the backend: a create, a suspend (for being idle, or by request), a
  resume, the deletion of a volume. A suspend or resume holds its record's \<open>transit\<close> lock.
\<close>

datatype op = Creating nat | Suspending nat bool | Resuming nat | DeletingVolume bytes

record srv =
  v_heap :: "rec list"
  v_table :: "(bytes \<times> nat) list"
  v_deleting :: "bytes list"
  v_cordoned :: bool
  v_snaps :: "(bytes \<times> snapshot) list"
  v_ops :: "op list"
  v_pooled :: "nat list"

definition srv0 :: srv where
  "srv0 = \<lparr>v_heap = [], v_table = [], v_deleting = [], v_cordoned = False, v_snaps = [], v_ops = [], v_pooled = []\<rparr>"

abbreviation sbx_at :: "srv \<Rightarrow> nat \<Rightarrow> sandbox" where
  "sbx_at v p \<equiv> r_sbx (v_heap v ! p)"

definition live :: "sandbox \<Rightarrow> bool" where
  "live sb \<longleftrightarrow> b_State sb \<noteq> Terminated"

text \<open>The sandboxes of the table, in the order the map happens to be visited.\<close>

definition sandboxes :: "srv \<Rightarrow> sandbox list" where
  "sandboxes v = map (\<lambda>(_, p). sbx_at v p) (v_table v)"

subsection \<open>Refusals\<close>

type_synonym refusal = "nat \<times> bytes"

abbreviation unsupported :: refusal where
  "unsupported \<equiv> (501, ''unsupported'')"

abbreviation invalid :: refusal where
  "invalid \<equiv> (400, ''invalid_request'')"

abbreviation not_found :: refusal where
  "not_found \<equiv> (404, ''not_found'')"

abbreviation conflict :: refusal where
  "conflict \<equiv> (409, ''conflict'')"

abbreviation unavailable :: refusal where
  "unavailable \<equiv> (503, ''unavailable'')"

definition spec_refusal :: "spec_error \<Rightarrow> refusal" where
  "spec_refusal e = (case e of Refused _ \<Rightarrow> (403, ''refused'') | Invalid _ \<Rightarrow> invalid)"

definition checkRegistryLogin :: "RegistryLogin \<Rightarrow> bool" where
  "checkRegistryLogin l \<longleftrightarrow>
     \<not> (rl_Registry l = [] \<or> length (rl_Registry l) > 255 \<or>
        ContainsAny (rl_Registry l) [CHR ''/'', CHR '' '', CHR 0x09, CHR 0x0D, CHR 0x0A, CHR 0x00]) \<and>
     \<not> (rl_Username l = [] \<or> length (rl_Username l) > 256 \<or>
        ContainsAny (rl_Username l) [CHR '':'', CHR 0x0D, CHR 0x0A, CHR 0x00]) \<and>
     \<not> (rl_Password l = [] \<or> length (rl_Password l) > 8192 \<or>
        ContainsAny (rl_Password l) [CHR 0x0D, CHR 0x0A, CHR 0x00])"

definition canSnapshot :: "caps \<Rightarrow> bool" where
  "canSnapshot caps \<longleftrightarrow> caps ''memory_snapshot'' \<or> caps ''disk_snapshot''"

definition canSuspend :: "config \<Rightarrow> bool" where
  "canSuspend cf \<longleftrightarrow> cf_Suspender cf \<and> cf_caps cf ''suspend''"

definition servesGPUs :: "config \<Rightarrow> bool" where
  "servesGPUs cf \<longleftrightarrow> cf_caps cf ''gpu'' \<and> cf_GPUs cf \<noteq> []"

text \<open>\<open>fromSnapshot\<close>: a memory snapshot fixes the image and the sizes, a disk snapshot the image only.\<close>

definition fromSnapshot :: "(bytes \<times> snapshot) list \<Rightarrow> CreateSandboxRequest \<Rightarrow> (refusal, CreateSandboxRequest) result" where
  "fromSnapshot snaps req = (case map_of snaps (rq_SnapshotID req) of
      None \<Rightarrow> Inl not_found
    | Some sn \<Rightarrow>
        if sn_Kind sn = ''disk'' then
          if rq_Image req \<noteq> [] \<and> rq_Image req \<noteq> sn_Image sn then Inl invalid
          else Inr (req\<lparr>rq_Image := sn_Image sn,
            rq_CPUs := (if rq_CPUs req = Fin 0 then sn_CPUs sn else rq_CPUs req),
            rq_MemoryMB := (if rq_MemoryMB req = 0 then sn_MemoryMB sn else rq_MemoryMB req),
            rq_DiskMB := (if rq_DiskMB req = 0 then sn_DiskMB sn else rq_DiskMB req)\<rparr>)
        else if (rq_Image req \<noteq> [] \<and> rq_Image req \<noteq> sn_Image sn) \<or>
          (rq_CPUs req \<noteq> Fin 0 \<and> \<not> (rq_CPUs req = sn_CPUs sn \<and> rq_CPUs req \<noteq> NaN)) \<or>
          (rq_MemoryMB req \<noteq> 0 \<and> rq_MemoryMB req \<noteq> sn_MemoryMB sn) \<or>
          (rq_DiskMB req \<noteq> 0 \<and> rq_DiskMB req \<noteq> sn_DiskMB sn) then Inl invalid
        else Inr (req\<lparr>rq_Image := sn_Image sn, rq_CPUs := sn_CPUs sn, rq_MemoryMB := sn_MemoryMB sn,
            rq_DiskMB := sn_DiskMB sn\<rparr>))"

definition scheduleRefusal :: "config \<Rightarrow> int \<Rightarrow> VolumeMount list \<Rightarrow> refusal option" where
  "scheduleRefusal cf every vols =
    (if every = 0 then None
     else if \<not> cf_Snapshotter cf \<or> \<not> canSnapshot (cf_caps cf) then Some unsupported
     else if vols \<noteq> [] then Some conflict
     else None)"

definition volumeStore :: "config \<Rightarrow> bool" where
  "volumeStore cf \<longleftrightarrow> cf_VolumeStore cf \<and> cf_caps cf ''volumes''"

definition volumesExist :: "config \<Rightarrow> (refusal, bytes list) result \<Rightarrow> VolumeMount list \<Rightarrow> refusal option" where
  "volumesExist cf have mounts =
    (if \<not> volumeStore cf then Some unsupported
     else case have of Inl e \<Rightarrow> Some e
       | Inr known \<Rightarrow> for_all_ok (\<lambda>m. if vm_Name m \<in> set known then None else Some not_found) mounts)"

text \<open>
  \<open>createSandbox\<close> up to the claim: the checks in the code's order, with the registry login taken out of
  the request. The resolver is \<open>Spec_Resolve\<close>; \<open>export_refused\<close> is the verdict on the metrics export, \<open>known\<close>
  the backend's answer to which volumes there are.
\<close>

definition create_check ::
  "config \<Rightarrow> (bytes \<times> snapshot) list \<Rightarrow> (refusal, bytes list) result \<Rightarrow> refusal option \<Rightarrow>
     CreateSandboxRequest \<Rightarrow> bytes
    \<Rightarrow> (refusal, CreateSandboxRequest \<times> Spec) result" where
  "create_check cf snaps known export_refused req sid =
    unless_err (case rq_RegistryLogin req of None \<Rightarrow> None
      | Some l \<Rightarrow> if \<not> cf_caps cf ''registry_login'' then Some unsupported
          else if \<not> checkRegistryLogin l then Some invalid else None) (
    and_then (if rq_SnapshotID req = [] then Inr (req\<lparr>rq_RegistryLogin := None\<rparr>)
      else if \<not> canSnapshot (cf_caps cf) then Inl unsupported
      else fromSnapshot snaps (req\<lparr>rq_RegistryLogin := None\<rparr>)) (\<lambda>req1.
    unless_err (if rq_GPUs req1 > 0 \<and> \<not> servesGPUs cf then Some unsupported else None) (
    and_then (case Resolve (cf_lower cf) req1 (cf_Policy cf) sid of Inl e \<Rightarrow> Inl (spec_refusal e) | Inr s \<Rightarrow> Inr s) (\<lambda>s.
    unless_err (if canEnforce (cf_caps cf) (sp_Network s) then None else Some unsupported) (
    let bs = s\<lparr>sp_FromSnapshot := rq_SnapshotID req1\<rparr> in
    unless_err export_refused (
    unless_err (if sp_IdleAction bs = ''suspend'' \<and> \<not> canSuspend cf then Some unsupported else None) (
    unless_err (scheduleRefusal cf (sp_SnapshotEverySecs bs) (sp_Volumes bs)) (
    unless_err (if sp_Volumes bs = [] then None
      else if sp_FromSnapshot bs \<noteq> [] then Some invalid
      else volumesExist cf known (sp_Volumes bs)) (
    Inr (req1, bs))))))))))"

subsection \<open>What a create claims\<close>

text \<open>
  \<open>holders\<close>: a live sandbox that has the volume, or the empty id, and whether one has it writable. With
  several holders the id depends on the order of the map; nothing but a message reads which one it is.
\<close>

definition holds_volume :: "bytes \<Rightarrow> sandbox \<Rightarrow> bool" where
  "holds_volume name sb \<longleftrightarrow> live sb \<and> list_ex (\<lambda>m. vm_Name m = name) (b_Volumes sb)"

definition writes_volume :: "bytes \<Rightarrow> sandbox \<Rightarrow> bool" where
  "writes_volume name sb \<longleftrightarrow> live sb \<and> list_ex (\<lambda>m. vm_Name m = name \<and> \<not> vm_ReadOnly m) (b_Volumes sb)"

definition holders :: "srv \<Rightarrow> bytes \<Rightarrow> bytes \<times> bool" where
  "holders v name =
    (let hs = filter (holds_volume name) (sandboxes v); ws = filter (writes_volume name) hs in
     (if hs = [] then [] else if ws = [] then b_ID (hd hs) else b_ID (last ws), ws \<noteq> []))"

definition volumeBusy :: "srv \<Rightarrow> VolumeMount \<Rightarrow> bool" where
  "volumeBusy v m = (case holders v (vm_Name m) of (holder, w) \<Rightarrow>
     if holder = [] then False else if w then True else \<not> vm_ReadOnly m)"

definition freeGPUsOf :: "config \<Rightarrow> sandbox list \<Rightarrow> bytes list" where
  "freeGPUsOf cf sbs = filter (\<lambda>g. \<not> list_ex (\<lambda>sb. live sb \<and> g \<in> set (b_GPUs sb)) sbs \<and> cf_gpuReady cf g) (cf_GPUs cf)"

definition freeGPUsLocked :: "config \<Rightarrow> srv \<Rightarrow> nat \<Rightarrow> bytes list option" where
  "freeGPUsLocked cf v n = (let free = freeGPUsOf cf (sandboxes v) in if length free < n then None else Some (take n free))"

definition nameTakenLocked :: "srv \<Rightarrow> bytes \<Rightarrow> bytes \<Rightarrow> bool" where
  "nameTakenLocked v name sid \<longleftrightarrow> name \<noteq> [] \<and>
     list_ex (\<lambda>(oid, p). oid \<noteq> sid \<and> b_Name (sbx_at v p) = name \<and> live (sbx_at v p)) (v_table v)"

definition new_record :: "CreateSandboxRequest \<Rightarrow> Spec \<Rightarrow> bytes list \<Rightarrow> int \<Rightarrow> rec" where
  "new_record req bs gpus now = \<lparr>
     r_sbx = \<lparr>b_ID = sp_ID bs, b_Name = rq_Name req, b_State = Pending, b_Image = sp_Image bs, b_CPUs = sp_CPUs bs,
       b_MemoryMB = sp_MemoryMB bs, b_DiskMB = sp_DiskMB bs, b_EnvNames = sort (map fst (sp_Env bs)), b_Network = sp_Network bs,
       b_CreatedAt = now, b_IdleTimeoutSecs = sp_IdleTimeoutSecs bs, b_IdleAction = sp_IdleAction bs,
       b_IdleSuspended = False, b_LifetimeSecs = sp_LifetimeSecs bs,
       b_ExpiresAt = (if sp_LifetimeSecs bs > 0 then Some (now + sp_LifetimeSecs bs * second) else None),
       b_SnapshotEverySecs = sp_SnapshotEverySecs bs, b_SnapshotKeep = sp_SnapshotKeep bs, b_Snapshotting = False,
       b_Labels = rq_Labels req, b_Volumes = sp_Volumes bs, b_GPUs = gpus\<rparr>,
     r_env = sp_Env bs, r_procs = [], r_nextPID = 0, r_lastActive = now, r_lastScheduled = now, r_snapshotting = False\<rparr>"

text \<open>The claim, one hold of the server's lock: the record is registered, or the create refused.\<close>

definition claim :: "config \<Rightarrow> CreateSandboxRequest \<Rightarrow> Spec \<Rightarrow> int \<Rightarrow> srv \<Rightarrow> (refusal, nat \<times> srv) result" where
  "claim cf req bs now v =
    (if v_cordoned v then Inl unavailable
     else if rq_Name req \<noteq> [] \<and> list_ex (\<lambda>sb. b_Name sb = rq_Name req \<and> live sb) (sandboxes v) then Inl conflict
     else if list_ex (\<lambda>m. vm_Name m \<in> set (v_deleting v) \<or> volumeBusy v m) (sp_Volumes bs) then Inl conflict
     else case (if rq_GPUs req > 0 then freeGPUsLocked cf v (nat (rq_GPUs req)) else Some []) of
       None \<Rightarrow> Inl unavailable
     | Some gpus \<Rightarrow>
         let p = length (v_heap v) in
         Inr (p, v\<lparr>v_heap := v_heap v @ [new_record req bs gpus now],
                   v_table := v_table v @ [(sp_ID bs, p)], v_ops := Creating p # v_ops v\<rparr>))"

subsection \<open>A record between its states\<close>

definition upd_rec :: "nat \<Rightarrow> (rec \<Rightarrow> rec) \<Rightarrow> srv \<Rightarrow> srv" where
  "upd_rec p f v = v\<lparr>v_heap := (v_heap v)[p := f (v_heap v ! p)]\<rparr>"

definition upd_sbx :: "nat \<Rightarrow> (sandbox \<Rightarrow> sandbox) \<Rightarrow> srv \<Rightarrow> srv" where
  "upd_sbx p f = upd_rec p (\<lambda>r. r\<lparr>r_sbx := f (r_sbx r)\<rparr>)"

definition end_op :: "op \<Rightarrow> srv \<Rightarrow> srv" where
  "end_op o' v = v\<lparr>v_ops := remove1 o' (v_ops v)\<rparr>"

definition begin_op :: "op \<Rightarrow> srv \<Rightarrow> srv" where
  "begin_op o' v = v\<lparr>v_ops := o' # v_ops v\<rparr>"

definition delete_sandbox :: "bytes \<Rightarrow> srv \<Rightarrow> srv" where
  "delete_sandbox sid v = v\<lparr>v_table := filter (\<lambda>(k, _). k \<noteq> sid) (v_table v)\<rparr>"

text \<open>The end of a create: the backend failed, or made it, or a pooled sandbox took its place.\<close>

definition create_failed :: "nat \<Rightarrow> srv \<Rightarrow> srv" where
  "create_failed p v = end_op (Creating p) (delete_sandbox (b_ID (sbx_at v p)) v)"

definition create_pooled :: "nat \<Rightarrow> bytes \<Rightarrow> srv \<Rightarrow> srv" where
  "create_pooled p pooled v =
    (let v1 = delete_sandbox (b_ID (sbx_at v p)) v;
         v2 = upd_sbx p (\<lambda>sb. sb\<lparr>b_ID := pooled\<rparr>) v1
     in v2\<lparr>v_table := v_table v2 @ [(pooled, p)], v_pooled := p # v_pooled v2\<rparr>)"

definition create_done :: "nat \<Rightarrow> srv \<Rightarrow> srv" where
  "create_done p v = end_op (Creating p) (upd_sbx p (\<lambda>sb. sb\<lparr>b_State := Running\<rparr>) v)"

definition busy :: "rec \<Rightarrow> bool" where
  "busy r \<longleftrightarrow> list_ex snd (r_procs r)"

text \<open>\<open>transit\<close> is free: no suspend or resume of the record is in progress.\<close>

definition transit_free :: "nat \<Rightarrow> srv \<Rightarrow> bool" where
  "transit_free p v \<longleftrightarrow> Resuming p \<notin> set (v_ops v) \<and> (\<forall>idle. Suspending p idle \<notin> set (v_ops v))"

text \<open>\<open>suspend\<close> by request: its refusals, and what it writes when the backend has suspended the VM.\<close>

definition suspend_check :: "config \<Rightarrow> rec \<Rightarrow> refusal option" where
  "suspend_check cf r =
    (if \<not> canSuspend cf then Some unsupported
     else if b_State (r_sbx r) \<noteq> Running then Some conflict
     else if b_GPUs (r_sbx r) \<noteq> [] then Some unsupported
     else if busy r then Some conflict
     else None)"

definition suspend_done :: "nat \<Rightarrow> bool \<Rightarrow> srv \<Rightarrow> srv" where
  "suspend_done p idle v = end_op (Suspending p idle)
     (upd_sbx p (\<lambda>sb. sb\<lparr>b_State := Suspended, b_IdleSuspended := idle\<rparr>) v)"

text \<open>\<open>idleSuspend\<close> looks again under \<open>transit\<close>; a suspend that failed starts the idle clock again.\<close>

definition idleSuspend_check :: "int \<Rightarrow> rec \<Rightarrow> bool" where
  "idleSuspend_check now r \<longleftrightarrow> \<not> (b_State (r_sbx r) \<noteq> Running \<or> b_IdleAction (r_sbx r) \<noteq> ''suspend'' \<or>
     b_IdleTimeoutSecs (r_sbx r) \<le> 0 \<or> now - r_lastActive r < b_IdleTimeoutSecs (r_sbx r) * second \<or> busy r)"

definition touch :: "int \<Rightarrow> nat \<Rightarrow> srv \<Rightarrow> srv" where
  "touch now p = upd_rec p (\<lambda>r. r\<lparr>r_lastActive := now\<rparr>)"

definition suspend_failed :: "nat \<Rightarrow> bool \<Rightarrow> int \<Rightarrow> srv \<Rightarrow> srv" where
  "suspend_failed p idle now v = end_op (Suspending p idle) (if idle then touch now p v else v)"

text \<open>\<open>resume\<close> and \<open>wake\<close>: who may resume, and \<open>resumed\<close>.\<close>

datatype wake_verdict = AlreadyRunning | NotRunning | MayResume

definition wake_check :: "config \<Rightarrow> sandbox \<Rightarrow> wake_verdict" where
  "wake_check cf sb =
    (if b_State sb = Running then AlreadyRunning
     else if b_State sb \<noteq> Suspended \<or> \<not> b_IdleSuspended sb then NotRunning
     else if \<not> cf_Suspender cf then NotRunning
     else MayResume)"

definition resume_check :: "config \<Rightarrow> sandbox \<Rightarrow> refusal option" where
  "resume_check cf sb = (if \<not> cf_Suspender cf then Some unsupported
     else if b_State sb \<noteq> Suspended then Some conflict else None)"

definition resumed :: "nat \<Rightarrow> int \<Rightarrow> srv \<Rightarrow> srv" where
  "resumed p now v = end_op (Resuming p)
     (touch now p (upd_sbx p (\<lambda>sb. sb\<lparr>b_State := Running, b_IdleSuspended := False\<rparr>) v))"

text \<open>The end of \<open>terminateSandbox\<close> and of the reaper's terminations: unconditional, after the backend.\<close>

definition terminated :: "nat \<Rightarrow> srv \<Rightarrow> srv" where
  "terminated p = upd_sbx p (\<lambda>sb. sb\<lparr>b_State := Terminated\<rparr>)"

definition keepTerminated :: nat where
  "keepTerminated = 100"

text \<open>\<open>forgetOldTerminated\<close>: the dead, oldest first, in an order the sort may choose among equals.\<close>

definition dead :: "srv \<Rightarrow> sandbox list" where
  "dead v = filter (\<lambda>sb. b_State sb = Terminated) (sandboxes v)"

definition dead_order :: "srv \<Rightarrow> sandbox list \<Rightarrow> bool" where
  "dead_order v ds \<longleftrightarrow> mset ds = mset (dead v) \<and> sorted (map b_CreatedAt ds)"

definition forgetOldTerminated :: "sandbox list \<Rightarrow> srv \<Rightarrow> srv" where
  "forgetOldTerminated ds v =
    (if length ds \<le> keepTerminated then v
     else v\<lparr>v_table := filter (\<lambda>(k, _). k \<notin> b_ID ` set (take (length ds - keepTerminated) ds)) (v_table v)\<rparr>)"

text \<open>
  \<open>updateSandbox\<close>: its checks against the record as it was first read, the resolved update on the right;
  the metrics export is left out but for its verdict.
\<close>

record update_request =
  uq_Network :: "NetworkPolicy option"
  uq_Name :: "bytes option"
  uq_Labels :: "(bytes \<times> bytes) list option"
  uq_IdleTimeoutSecs :: "int option"
  uq_IdleAction :: "bytes option"
  uq_LifetimeSecs :: "int option"
  uq_MetricsExport :: bool

text \<open>The records part of \<open>updateSandbox\<close>, one hold of the lock: every field asked for, or none.\<close>

record update =
  u_Name :: "bytes option"
  u_Labels :: "(bytes \<times> bytes) list option"
  u_IdleTimeoutSecs :: "int option"
  u_IdleAction :: "bytes option"
  u_LifetimeSecs :: "int option"

definition or_keep :: "'a option \<Rightarrow> 'a \<Rightarrow> 'a" where
  "or_keep new old = (case new of None \<Rightarrow> old | Some x \<Rightarrow> x)"

definition on_given :: "('a \<Rightarrow> (refusal, 'b) result) \<Rightarrow> 'a option \<Rightarrow> (refusal, 'b option) result" where
  "on_given f x = (case x of None \<Rightarrow> Inr None | Some y \<Rightarrow> and_then (f y) (\<lambda>z. Inr (Some z)))"

definition as_refusal :: "(spec_error, 'a) result \<Rightarrow> (refusal, 'a) result" where
  "as_refusal x = (case x of Inl e \<Rightarrow> Inl (spec_refusal e) | Inr y \<Rightarrow> Inr y)"

definition check_refusal :: "('a \<Rightarrow> spec_error option) \<Rightarrow> 'a \<Rightarrow> (refusal, 'a) result" where
  "check_refusal f x = (case f x of None \<Rightarrow> Inr x | Some e \<Rightarrow> Inl (spec_refusal e))"

definition update_check :: "config \<Rightarrow> update_request \<Rightarrow> sandbox \<Rightarrow> refusal option \<Rightarrow> (refusal, update) result" where
  "update_check cf q sb export_refused =
    (if uq_Network q = None \<and> uq_Name q = None \<and> uq_Labels q = None \<and> uq_IdleTimeoutSecs q = None \<and>
       uq_IdleAction q = None \<and> uq_LifetimeSecs q = None \<and> \<not> uq_MetricsExport q then Inl invalid
     else if b_State sb = Terminated then Inl conflict
     else if uq_Network q \<noteq> None \<and> b_State sb \<noteq> Running then Inl conflict
     else and_then (on_given (check_refusal CheckName) (uq_Name q)) (\<lambda>name.
       and_then (on_given (check_refusal ValidateLabels) (uq_Labels q)) (\<lambda>labels.
       and_then (on_given (\<lambda>n. as_refusal (ResolveIdleUpdate n (cf_Policy cf))) (uq_IdleTimeoutSecs q)) (\<lambda>idle.
       and_then (on_given (\<lambda>a. and_then (as_refusal (ResolveIdleAction a)) (\<lambda>action.
           if action = ''suspend'' \<and> \<not> canSuspend cf then Inl unsupported
           else if action = ''suspend'' \<and> b_GPUs sb \<noteq> [] then Inl unsupported
           else Inr action)) (uq_IdleAction q)) (\<lambda>action.
       and_then (on_given (\<lambda>n. as_refusal (ResolveLifetimeUpdate n (cf_Policy cf))) (uq_LifetimeSecs q)) (\<lambda>life.
       unless_err (if uq_MetricsExport q then export_refused else None) (
       Inr \<lparr>u_Name = name, u_Labels = labels, u_IdleTimeoutSecs = idle, u_IdleAction = action, u_LifetimeSecs = life\<rparr>)))))))"

definition updated :: "update \<Rightarrow> sandbox \<Rightarrow> sandbox" where
  "updated u sb = sb\<lparr>b_Name := or_keep (u_Name u) (b_Name sb), b_Labels := or_keep (u_Labels u) (b_Labels sb),
     b_IdleTimeoutSecs := or_keep (u_IdleTimeoutSecs u) (b_IdleTimeoutSecs sb),
     b_IdleAction := or_keep (u_IdleAction u) (b_IdleAction sb),
     b_LifetimeSecs := or_keep (u_LifetimeSecs u) (b_LifetimeSecs sb),
     b_ExpiresAt := (case u_LifetimeSecs u of None \<Rightarrow> b_ExpiresAt sb | Some n \<Rightarrow> Some (b_CreatedAt sb + n * second))\<rparr>"

definition updateSandbox :: "nat \<Rightarrow> bytes \<Rightarrow> update \<Rightarrow> srv \<Rightarrow> (refusal, srv) result" where
  "updateSandbox p sid u v =
    (case u_Name u of
       Some n \<Rightarrow> if nameTakenLocked v n sid then Inl conflict else Inr (upd_sbx p (updated u) v)
     | None \<Rightarrow> Inr (upd_sbx p (updated u) v))"

text \<open>The network part of \<open>updateSandbox\<close>, after the backend has taken the policy.\<close>

definition network_updated :: "nat \<Rightarrow> NetworkPolicy \<Rightarrow> srv \<Rightarrow> srv" where
  "network_updated p pol = upd_sbx p (\<lambda>sb. sb\<lparr>b_Network := pol\<rparr>)"

text \<open>\<open>deleteVolume\<close>: the name is held against creates while the backend deletes it.\<close>

definition delete_volume_begin :: "config \<Rightarrow> bytes \<Rightarrow> srv \<Rightarrow> (refusal, srv) result" where
  "delete_volume_begin cf name v =
    (if \<not> volumeStore cf then Inl unsupported
     else if \<not> ValidName name then Inl not_found
     else if fst (holders v name) \<noteq> [] then Inl conflict
     else Inr (begin_op (DeletingVolume name) (v\<lparr>v_deleting := name # v_deleting v\<rparr>)))"

definition delete_volume_end :: "bytes \<Rightarrow> srv \<Rightarrow> srv" where
  "delete_volume_end name v = end_op (DeletingVolume name) (v\<lparr>v_deleting := filter (\<lambda>n. n \<noteq> name) (v_deleting v)\<rparr>)"

definition cordon :: "bool \<Rightarrow> srv \<Rightarrow> srv" where
  "cordon b v = v\<lparr>v_cordoned := b\<rparr>"

text \<open>A process starts, and ends.\<close>

definition process_started :: "nat \<Rightarrow> srv \<Rightarrow> srv" where
  "process_started p = upd_rec p (\<lambda>r. r\<lparr>r_nextPID := Suc (r_nextPID r), r_procs := (Suc (r_nextPID r), True) # r_procs r\<rparr>)"

definition process_exited :: "nat \<Rightarrow> nat \<Rightarrow> srv \<Rightarrow> srv" where
  "process_exited p pid = upd_rec p (\<lambda>r. r\<lparr>r_procs := map (\<lambda>(k, a). (k, a \<and> k \<noteq> pid)) (r_procs r)\<rparr>)"

subsection \<open>Finding a sandbox, and the reaper\<close>

text \<open>\<open>find\<close>: an id, else the live sandbox of that name, else the newest terminated one; \<open>visit\<close> is the order the
  map's entries come in.\<close>

fun find_name :: "srv \<Rightarrow> bytes \<Rightarrow> nat option \<Rightarrow> (bytes \<times> nat) list \<Rightarrow> nat option" where
  "find_name v ref best [] = best"
| "find_name v ref best ((k, p) # rest) =
    (let sb = sbx_at v p in
     if b_Name sb = [] \<or> b_Name sb \<noteq> ref then find_name v ref best rest
     else if live sb then Some p
     else find_name v ref
       (case best of None \<Rightarrow> Some p | Some q \<Rightarrow> if b_CreatedAt sb > b_CreatedAt (sbx_at v q) then Some p else Some q) rest)"

definition find_ref :: "(bytes \<times> nat) list \<Rightarrow> srv \<Rightarrow> bytes \<Rightarrow> nat option" where
  "find_ref visit v ref = (case map_of (v_table v) ref of Some p \<Rightarrow> Some p | None \<Rightarrow> find_name v ref None visit)"

text \<open>\<open>use\<close> and \<open>live\<close>: what a request that needs the VM, or only a running sandbox, gets.\<close>

datatype use_verdict = UseNow | UseAfterWake | UseRefused refusal

definition use_check :: "bool \<Rightarrow> sandbox option \<Rightarrow> use_verdict" where
  "use_check background sbo = (case sbo of
      None \<Rightarrow> UseRefused not_found
    | Some sb \<Rightarrow>
        if b_State sb = Running then UseNow
        else if \<not> background \<and> b_State sb = Suspended \<and> b_IdleSuspended sb then UseAfterWake
        else UseRefused conflict)"

text \<open>One record in \<open>reapOnce\<close>: a busy one is touched, then judged.\<close>

datatype verdict = Stay | Sleepy | Due bytes

definition reap_one :: "bool \<Rightarrow> int \<Rightarrow> rec \<Rightarrow> rec \<times> verdict" where
  "reap_one can_suspend now r =
    (let r1 = (if busy r then r\<lparr>r_lastActive := now\<rparr> else r); sb = r_sbx r1;
         expired = (case b_ExpiresAt sb of None \<Rightarrow> False | Some t \<Rightarrow> \<not> now < t) \<and> (b_State sb = Running \<or> b_State sb = Suspended)
     in (r1,
       if expired then Due ''lifetime''
       else if b_State sb = Running \<and> b_IdleTimeoutSecs sb > 0 \<and> now - r_lastActive r1 \<ge> b_IdleTimeoutSecs sb * second then
         (if b_IdleAction sb = ''suspend'' \<and> can_suspend then Sleepy else Due ''idle'')
       else Stay))"

subsection \<open>The steps\<close>

text \<open>Ids are random; one that was given out does not come again.\<close>

definition all_ids :: "srv \<Rightarrow> bytes list" where
  "all_ids v = map (\<lambda>r. b_ID (r_sbx r)) (v_heap v)"

inductive sstep :: "config \<Rightarrow> srv \<Rightarrow> srv \<Rightarrow> bool" for cf where
  s_claim: "create_check cf (v_snaps v) known er req sid = Inr (req1, bs) \<Longrightarrow> sid \<noteq> [] \<Longrightarrow>
    sid \<notin> set (all_ids v) \<Longrightarrow> claim cf req1 bs now v = Inr (p, v') \<Longrightarrow> sstep cf v v'"
| s_failed: "Creating p \<in> set (v_ops v) \<Longrightarrow> p \<notin> set (v_pooled v) \<Longrightarrow> sstep cf v (create_failed p v)"
| s_pooled: "Creating p \<in> set (v_ops v) \<Longrightarrow> p \<notin> set (v_pooled v) \<Longrightarrow> pooled \<noteq> [] \<Longrightarrow> pooled \<notin> set (all_ids v) \<Longrightarrow>
    sstep cf v (create_pooled p pooled v)"
| s_created: "Creating p \<in> set (v_ops v) \<Longrightarrow> sstep cf v (create_done p v)"
| s_suspend: "p < length (v_heap v) \<Longrightarrow> transit_free p v \<Longrightarrow> suspend_check cf (v_heap v ! p) = None \<Longrightarrow>
    sstep cf v (begin_op (Suspending p False) v)"
| s_idle: "p < length (v_heap v) \<Longrightarrow> transit_free p v \<Longrightarrow> cf_Suspender cf \<Longrightarrow> idleSuspend_check now (v_heap v ! p) \<Longrightarrow>
    sstep cf v (begin_op (Suspending p True) v)"
| s_suspended: "Suspending p idle \<in> set (v_ops v) \<Longrightarrow> sstep cf v (suspend_done p idle v)"
| s_not_suspended: "Suspending p idle \<in> set (v_ops v) \<Longrightarrow> sstep cf v (suspend_failed p idle now v)"
| s_resume: "p < length (v_heap v) \<Longrightarrow> transit_free p v \<Longrightarrow>
    resume_check cf (sbx_at v p) = None \<or> wake_check cf (sbx_at v p) = MayResume \<Longrightarrow>
    sstep cf v (begin_op (Resuming p) v)"
| s_resumed: "Resuming p \<in> set (v_ops v) \<Longrightarrow> sstep cf v (resumed p now v)"
| s_not_resumed: "Resuming p \<in> set (v_ops v) \<Longrightarrow> sstep cf v (end_op (Resuming p) v)"
| s_terminated: "p < length (v_heap v) \<Longrightarrow> sstep cf v (terminated p v)"
| s_forget: "dead_order v ds \<Longrightarrow> sstep cf v (forgetOldTerminated ds v)"
| s_update: "p < length (v_heap v) \<Longrightarrow> sid = b_ID (sbx_at v p) \<or> sid \<notin> set (all_ids v) \<Longrightarrow>
    update_check cf ureq old er = Inr u \<Longrightarrow> updateSandbox p sid u v = Inr v' \<Longrightarrow> sstep cf v v'"
| s_network: "p < length (v_heap v) \<Longrightarrow> cf_caps cf ''network_policy_update'' \<Longrightarrow> ResolveNetworkUpdate (cf_lower cf) req (cf_Policy cf) = Inr pol \<Longrightarrow>
    canEnforce (cf_caps cf) pol \<Longrightarrow> sstep cf v (network_updated p pol v)"
| s_delete: "delete_volume_begin cf name v = Inr v' \<Longrightarrow> sstep cf v v'"
| s_deleted: "DeletingVolume name \<in> set (v_ops v) \<Longrightarrow> sstep cf v (delete_volume_end name v)"
| s_cordon: "sstep cf v (cordon b v)"
| s_touch: "p < length (v_heap v) \<Longrightarrow> sstep cf v (touch now p v)"
| s_process: "p < length (v_heap v) \<Longrightarrow> sstep cf v (process_started p v)"
| s_exit: "p < length (v_heap v) \<Longrightarrow> sstep cf v (process_exited p pid v)"

end
