(* ===== verification/Server_Safety.thy ===== *)
theory Server_Safety
  imports Server_Sandbox
begin

text \<open>
  What the sandbox server promises over every interleaving of its requests: unless a terminated sandbox
  has come back, live sandboxes share no name, no volume one of them writes and no GPU, and a name finds its
  sandbox; networks stay within the operator's policy; the reaper takes only what is due.
\<close>

section \<open>What live sandboxes share\<close>

text \<open>Two sandboxes that may both be live: no common name, no volume one of them writes, no GPU.\<close>

definition apart :: "sandbox \<Rightarrow> sandbox \<Rightarrow> bool" where
  "apart a b \<longleftrightarrow> (b_Name a = b_Name b \<longrightarrow> b_Name a = []) \<and>
     (\<forall>m \<in> set (b_Volumes a). \<forall>n \<in> set (b_Volumes b). vm_Name m = vm_Name n \<longrightarrow> vm_ReadOnly m \<and> vm_ReadOnly n) \<and>
     set (b_GPUs a) \<inter> set (b_GPUs b) = {}"

definition table_ok :: "srv \<Rightarrow> bool" where
  "table_ok v \<longleftrightarrow> distinct (map fst (v_table v)) \<and> distinct (map snd (v_table v)) \<and>
     (\<forall>(k, p) \<in> set (v_table v). p < length (v_heap v) \<and> b_ID (sbx_at v p) = k \<and> k \<noteq> [])"

definition apart_ok :: "srv \<Rightarrow> bool" where
  "apart_ok v \<longleftrightarrow> (\<forall>(k, p) \<in> set (v_table v). \<forall>(l, q) \<in> set (v_table v).
     p \<noteq> q \<longrightarrow> live (sbx_at v p) \<longrightarrow> live (sbx_at v q) \<longrightarrow> apart (sbx_at v p) (sbx_at v q))"

definition held_ok :: "config \<Rightarrow> srv \<Rightarrow> bool" where
  "held_ok cf v \<longleftrightarrow> (\<forall>(k, p) \<in> set (v_table v). live (sbx_at v p) \<longrightarrow>
     set (b_GPUs (sbx_at v p)) \<subseteq> set (cf_GPUs cf) \<and> (\<forall>m \<in> set (b_Volumes (sbx_at v p)). vm_Name m \<notin> set (v_deleting v)))"

definition is_creating :: "op \<Rightarrow> bool" where
  "is_creating x = (case x of Creating _ \<Rightarrow> True | _ \<Rightarrow> False)"

definition ops_ok :: "srv \<Rightarrow> bool" where
  "ops_ok v \<longleftrightarrow> distinct (filter is_creating (v_ops v)) \<and>
     (\<forall>p. Creating p \<in> set (v_ops v) \<longrightarrow> p < length (v_heap v) \<and>
        (p \<notin> snd ` set (v_table v) \<longrightarrow> b_State (sbx_at v p) = Terminated)) \<and>
     (\<forall>p idle. Suspending p idle \<in> set (v_ops v) \<longrightarrow> p < length (v_heap v)) \<and>
     (\<forall>p. Resuming p \<in> set (v_ops v) \<longrightarrow> p < length (v_heap v))"

definition srv_ok :: "config \<Rightarrow> srv \<Rightarrow> bool" where
  "srv_ok cf v \<longleftrightarrow> distinct (all_ids v) \<and> table_ok v \<and> apart_ok v \<and> held_ok cf v \<and> ops_ok v \<and>
     (\<forall>p < length (v_heap v). canEnforce (cf_caps cf) (b_Network (sbx_at v p)))"

text \<open>
  A transition that finishes after its record was terminated brings the record back. What follows is an
  invariant of the runs without such a step.
\<close>

definition resurrects :: "srv \<Rightarrow> srv \<Rightarrow> bool" where
  "resurrects v v' \<longleftrightarrow> (\<exists>p < length (v_heap v). b_State (sbx_at v p) = Terminated \<and> b_State (sbx_at v' p) \<noteq> Terminated)"

definition quiet_step :: "config \<Rightarrow> srv \<Rightarrow> srv \<Rightarrow> bool" where
  "quiet_step cf v v' \<longleftrightarrow> sstep cf v v' \<and> \<not> resurrects v v'"

text \<open>The steps that only move a record between states, or leave what it holds alone.\<close>

definition keeps_claims :: "sandbox \<Rightarrow> sandbox \<Rightarrow> bool" where
  "keeps_claims sb sb' \<longleftrightarrow> b_ID sb' = b_ID sb \<and> b_Name sb' = b_Name sb \<and> b_Volumes sb' = b_Volumes sb \<and>
     b_GPUs sb' = b_GPUs sb \<and> (live sb' \<longrightarrow> live sb)"

lemma upd_rec_nth: "p < length (v_heap v) \<Longrightarrow> v_heap (upd_rec p f v) ! q = (if q = p then f (v_heap v ! p) else v_heap v ! q)"
  by (simp add: upd_rec_def nth_list_update)

lemma upd_rec_fields [simp]:
  "v_table (upd_rec p f v) = v_table v" "v_deleting (upd_rec p f v) = v_deleting v" "v_ops (upd_rec p f v) = v_ops v"
  "length (v_heap (upd_rec p f v)) = length (v_heap v)" "v_snaps (upd_rec p f v) = v_snaps v" "v_cordoned (upd_rec p f v) = v_cordoned v"
  by (simp_all add: upd_rec_def)

lemma apart_sym: "apart a b \<Longrightarrow> apart b a"
  unfolding apart_def by (metis Int_commute)

lemma apart_okD:
  "srv_ok cf v \<Longrightarrow> (k, p) \<in> set (v_table v) \<Longrightarrow> (l, q) \<in> set (v_table v) \<Longrightarrow> p \<noteq> q \<Longrightarrow>
   live (sbx_at v p) \<Longrightarrow> live (sbx_at v q) \<Longrightarrow> apart (sbx_at v p) (sbx_at v q)"
  by (auto simp: srv_ok_def apart_ok_def)

lemma held_okD:
  "srv_ok cf v \<Longrightarrow> (k, p) \<in> set (v_table v) \<Longrightarrow> live (sbx_at v p) \<Longrightarrow>
   set (b_GPUs (sbx_at v p)) \<subseteq> set (cf_GPUs cf) \<and> (\<forall>m \<in> set (b_Volumes (sbx_at v p)). vm_Name m \<notin> set (v_deleting v))"
  by (auto simp: srv_ok_def held_ok_def)

text \<open>A record changes: it keeps its id and what it holds, comes back from the dead at no point, and stays
  apart from the others.\<close>

lemma upd_rec_apart_ok:
  assumes v: "srv_ok cf v" and p: "p < length (v_heap v)"
    and same: "b_ID (r_sbx (f (v_heap v ! p))) = b_ID (sbx_at v p)" "b_Volumes (r_sbx (f (v_heap v ! p))) = b_Volumes (sbx_at v p)"
      "b_GPUs (r_sbx (f (v_heap v ! p))) = b_GPUs (sbx_at v p)" "live (r_sbx (f (v_heap v ! p))) \<Longrightarrow> live (sbx_at v p)"
    and net: "canEnforce (cf_caps cf) (b_Network (r_sbx (f (v_heap v ! p))))"
    and ap: "\<And>k l q. (k, p) \<in> set (v_table v) \<Longrightarrow> (l, q) \<in> set (v_table v) \<Longrightarrow> q \<noteq> p \<Longrightarrow>
       live (r_sbx (f (v_heap v ! p))) \<Longrightarrow> live (sbx_at v q) \<Longrightarrow> apart (r_sbx (f (v_heap v ! p))) (sbx_at v q)"
  shows "srv_ok cf (upd_rec p f v)"
proof -
  let ?w = "upd_rec p f v"
  have at: "sbx_at ?w q = (if q = p then r_sbx (f (v_heap v ! p)) else sbx_at v q)" for q
    by (simp add: upd_rec_nth [OF p])
  have kept: "b_ID (sbx_at ?w q) = b_ID (sbx_at v q)" "b_Volumes (sbx_at ?w q) = b_Volumes (sbx_at v q)"
    "b_GPUs (sbx_at ?w q) = b_GPUs (sbx_at v q)" "live (sbx_at ?w q) \<Longrightarrow> live (sbx_at v q)" for q
    using same by (auto simp: at split: if_splits)
  have "table_ok ?w" using v kept(1) by (simp add: srv_ok_def table_ok_def)
  moreover have "apart (sbx_at ?w x) (sbx_at ?w y)"
    if "(i, x) \<in> set (v_table v)" "(j, y) \<in> set (v_table v)" "x \<noteq> y" "live (sbx_at ?w x)" "live (sbx_at ?w y)" for i x j y
    using that ap [of i j y] ap [of j i x] apart_sym apart_okD [OF v that(1-3)] kept(4)
    by (cases "x = p"; cases "y = p") (auto simp: at)
  then have "apart_ok ?w" by (auto simp: apart_ok_def)
  moreover have "held_ok cf ?w"
    using held_okD [OF v] kept by (fastforce simp: held_ok_def)
  moreover have "ops_ok ?w"
  proof -
    have "b_State (sbx_at v q) = Terminated \<Longrightarrow> b_State (sbx_at ?w q) = Terminated" for q
      using kept(4) [of q] by (auto simp: live_def)
    then show ?thesis using v by (auto simp: srv_ok_def ops_ok_def)
  qed
  moreover have "\<forall>q < length (v_heap ?w). canEnforce (cf_caps cf) (b_Network (sbx_at ?w q))"
    using v net by (simp add: srv_ok_def at)
  moreover have "all_ids ?w = all_ids v"
    using same(1) p by (simp add: all_ids_def upd_rec_def map_update list_update_same_conv)
  ultimately show ?thesis using v by (simp add: srv_ok_def)
qed

lemma upd_rec_ok:
  assumes "srv_ok cf v" "p < length (v_heap v)" "keeps_claims (sbx_at v p) (r_sbx (f (v_heap v ! p)))"
    "canEnforce (cf_caps cf) (b_Network (r_sbx (f (v_heap v ! p))))"
  shows "srv_ok cf (upd_rec p f v)"
proof (rule upd_rec_apart_ok [OF assms(1,2)])
  fix k l q
  assume h: "(k, p) \<in> set (v_table v)" "(l, q) \<in> set (v_table v)" "q \<noteq> p" "live (r_sbx (f (v_heap v ! p)))" "live (sbx_at v q)"
  have "live (sbx_at v p)" using assms(3) h(4) by (simp add: keeps_claims_def)
  then have "apart (sbx_at v p) (sbx_at v q)" using apart_okD [OF assms(1) h(1,2)] h(3,5) by simp
  then show "apart (r_sbx (f (v_heap v ! p))) (sbx_at v q)" using assms(3) by (simp add: keeps_claims_def apart_def)
qed (use assms(3,4) in \<open>simp_all add: keeps_claims_def\<close>)

lemma ops_fields_ok:
  "table_ok (v\<lparr>v_ops := ops\<rparr>) = table_ok v" "apart_ok (v\<lparr>v_ops := ops\<rparr>) = apart_ok v"
  "held_ok cf (v\<lparr>v_ops := ops\<rparr>) = held_ok cf v" "all_ids (v\<lparr>v_ops := ops\<rparr>) = all_ids v"
  by (simp_all add: table_ok_def apart_ok_def held_ok_def all_ids_def)

lemma sub_ops_ok:
  assumes "srv_ok cf v" "set ops \<subseteq> set (v_ops v)" "distinct (filter is_creating ops)"
  shows "srv_ok cf (v\<lparr>v_ops := ops\<rparr>)"
proof -
  have "ops_ok (v\<lparr>v_ops := ops\<rparr>)"
    using assms unfolding srv_ok_def ops_ok_def by (simp add: subset_iff) blast
  then show ?thesis using assms(1) by (simp add: srv_ok_def ops_fields_ok)
qed

lemma end_op_ok: "srv_ok cf v \<Longrightarrow> srv_ok cf (end_op x v)"
  unfolding end_op_def by (rule sub_ops_ok) (simp_all add: set_remove1_subset srv_ok_def ops_ok_def filter_remove1)

lemma begin_op_ok:
  assumes "srv_ok cf v" "x = Suspending p idle \<or> x = Resuming p" "p < length (v_heap v)"
  shows "srv_ok cf (begin_op x v)"
proof -
  have "ops_ok (begin_op x v)"
    using assms unfolding srv_ok_def ops_ok_def begin_op_def by (auto simp: is_creating_def)
  then show ?thesis using assms(1) by (simp add: srv_ok_def begin_op_def ops_fields_ok)
qed

text \<open>Entries may leave the table when their records are dead or no longer being created.\<close>

lemma filter_table_ok:
  assumes "srv_ok cf v"
    "\<And>k p. (k, p) \<in> set (v_table v) \<Longrightarrow> \<not> P (k, p) \<Longrightarrow> Creating p \<in> set (v_ops v) \<Longrightarrow> b_State (sbx_at v p) = Terminated"
  shows "srv_ok cf (v\<lparr>v_table := filter P (v_table v)\<rparr>)"
proof -
  let ?w = "v\<lparr>v_table := filter P (v_table v)\<rparr>"
  have "table_ok ?w" using assms(1) by (auto simp: srv_ok_def table_ok_def distinct_map_filter)
  moreover have "apart_ok ?w" using assms(1) by (auto simp: srv_ok_def apart_ok_def)
  moreover have "held_ok cf ?w" using assms(1) by (auto simp: srv_ok_def held_ok_def)
  moreover have "ops_ok ?w"
  proof -
    have "p < length (v_heap v) \<and> b_State (sbx_at v p) = Terminated"
      if "Creating p \<in> set (v_ops v)" "p \<notin> snd ` set (filter P (v_table v))" for p
    proof (cases "p \<in> snd ` set (v_table v)")
      case True
      then obtain k where k: "(k, p) \<in> set (v_table v)" by auto
      then have "\<not> P (k, p)" using that(2) by force
      then show ?thesis using assms(2) [OF k] that(1) assms(1) by (simp add: srv_ok_def ops_ok_def)
    next
      case False
      with that assms(1) show ?thesis by (simp add: srv_ok_def ops_ok_def)
    qed
    then show ?thesis using assms(1) by (auto simp: srv_ok_def ops_ok_def)
  qed
  ultimately show ?thesis using assms(1) by (simp add: srv_ok_def all_ids_def)
qed

lemma same_id: "srv_ok cf v \<Longrightarrow> p < length (v_heap v) \<Longrightarrow> q < length (v_heap v) \<Longrightarrow> b_ID (sbx_at v p) = b_ID (sbx_at v q) \<Longrightarrow> p = q"
  using nth_eq_iff_index_eq [of "all_ids v" p q] by (simp add: srv_ok_def all_ids_def)

lemma table_entry: "srv_ok cf v \<Longrightarrow> (k, p) \<in> set (v_table v) \<Longrightarrow> p < length (v_heap v) \<and> b_ID (sbx_at v p) = k \<and> k \<noteq> []"
  by (auto simp: srv_ok_def table_ok_def)

lemma swap_updates: "v\<lparr>v_ops := a, v_table := b\<rparr> = v\<lparr>v_table := b, v_ops := a\<rparr>"
  by (cases v) simp

lemma create_failed_ok: "srv_ok cf v \<Longrightarrow> Creating p \<in> set (v_ops v) \<Longrightarrow> srv_ok cf (create_failed p v)"
proof -
  assume v: "srv_ok cf v" and p: "Creating p \<in> set (v_ops v)"
  have gone: "Creating p \<notin> set (remove1 (Creating p) (v_ops v))"
  proof
    assume "Creating p \<in> set (remove1 (Creating p) (v_ops v))"
    then have "Creating p \<in> set (filter is_creating (remove1 (Creating p) (v_ops v)))" by (simp add: is_creating_def)
    moreover have "distinct (filter is_creating (v_ops v))" using v by (simp add: srv_ok_def ops_ok_def)
    ultimately show False by (simp add: filter_remove1)
  qed
  have pl: "p < length (v_heap v)" using v p by (simp add: srv_ok_def ops_ok_def)
  have "srv_ok cf ((end_op (Creating p) v)\<lparr>v_table := filter (\<lambda>(k, _). k \<noteq> b_ID (sbx_at v p)) (v_table (end_op (Creating p) v))\<rparr>)"
  proof (rule filter_table_ok [OF end_op_ok [OF v]])
    fix k q
    assume q: "(k, q) \<in> set (v_table (end_op (Creating p) v))" "\<not> (case (k, q) of (k, _) \<Rightarrow> k \<noteq> b_ID (sbx_at v p))"
      "Creating q \<in> set (v_ops (end_op (Creating p) v))"
    then have "q = p" using table_entry [OF v] same_id [OF v] pl by (auto simp: end_op_def)
    with q(3) gone show "b_State (sbx_at (end_op (Creating p) v) q) = Terminated" by (simp add: end_op_def)
  qed
  then show ?thesis by (simp add: create_failed_def delete_sandbox_def end_op_def swap_updates)
qed

lemma set_sandboxes: "sb \<in> set (sandboxes v) \<longleftrightarrow> (\<exists>k p. (k, p) \<in> set (v_table v) \<and> sb = sbx_at v p)"
  by (force simp: sandboxes_def)

lemma not_volumeBusy:
  assumes v: "srv_ok cf v" and free: "\<not> volumeBusy v m"
    and sb: "sb \<in> set (sandboxes v)" "live sb" "n \<in> set (b_Volumes sb)" "vm_Name n = vm_Name m"
  shows "vm_ReadOnly n \<and> vm_ReadOnly m"
proof -
  let ?hs = "filter (holds_volume (vm_Name m)) (sandboxes v)"
  let ?ws = "filter (writes_volume (vm_Name m)) ?hs"
  have h: "sb \<in> set ?hs" using sb by (auto simp: holds_volume_def list_ex_iff)
  have ids: "b_ID x \<noteq> []" if "x \<in> set (sandboxes v)" for x
    using that v by (auto simp: set_sandboxes srv_ok_def table_ok_def)
  have ne: "?hs \<noteq> []" using h by (metis empty_iff list.set(1))
  then have "hd ?hs \<in> set (sandboxes v)" by (metis filter_is_subset list.set_sel(1) subsetD)
  moreover have "last ?ws \<in> set (sandboxes v)" if "?ws \<noteq> []"
    using last_in_set [OF that] by simp
  ultimately have "fst (holders v (vm_Name m)) \<noteq> []"
    using ne ids by (auto simp: holders_def Let_def)
  then have "?ws = []" "vm_ReadOnly m"
    using free by (auto simp: volumeBusy_def holders_def Let_def split: if_splits)
  moreover have "vm_ReadOnly n"
  proof (rule ccontr)
    assume "\<not> vm_ReadOnly n"
    then have "sb \<in> set ?ws" using sb h by (auto simp: writes_volume_def list_ex_iff)
    with \<open>?ws = []\<close> show False by (metis empty_iff list.set(1))
  qed
  ultimately show ?thesis by simp
qed

lemma create_check_Inr:
  assumes "create_check cf snaps known er req sid = Inr (req1, bs)"
  shows "\<exists>s. Resolve (cf_lower cf) req1 (cf_Policy cf) sid = Inr s \<and> bs = s\<lparr>sp_FromSnapshot := rq_SnapshotID req1\<rparr>"
    and "canEnforce (cf_caps cf) (sp_Network bs)"
  using assms unfolding create_check_def Let_def unless_err_Inr and_then_Inr
  by (auto split: if_split_asm sum.split_asm)

lemma Resolve_id: "Resolve lr req pol sid = Inr s \<Longrightarrow> sp_ID s = sid"
  by (erule Resolve_steps) (simp add: base_spec_def)

lemma claim_Inr:
  assumes "claim cf req bs now v = Inr (p, v')"
  obtains gpus where "p = length (v_heap v)"
    "v' = v\<lparr>v_heap := v_heap v @ [new_record req bs gpus now], v_table := v_table v @ [(sp_ID bs, length (v_heap v))],
            v_ops := Creating (length (v_heap v)) # v_ops v\<rparr>"
    "rq_Name req = [] \<or> (\<forall>sb \<in> set (sandboxes v). b_Name sb = rq_Name req \<longrightarrow> \<not> live sb)"
    "\<forall>m \<in> set (sp_Volumes bs). vm_Name m \<notin> set (v_deleting v) \<and> \<not> volumeBusy v m"
    "set gpus \<subseteq> set (freeGPUsOf cf (sandboxes v))"
  using assms unfolding claim_def
  by (auto simp: Let_def list_ex_iff freeGPUsLocked_def dest: in_set_takeD split: if_split_asm option.split_asm)

lemma new_record_fields:
  "b_ID (r_sbx (new_record req bs gpus now)) = sp_ID bs" "b_Name (r_sbx (new_record req bs gpus now)) = rq_Name req"
  "b_Volumes (r_sbx (new_record req bs gpus now)) = sp_Volumes bs" "b_GPUs (r_sbx (new_record req bs gpus now)) = gpus"
  "b_Network (r_sbx (new_record req bs gpus now)) = sp_Network bs" "b_State (r_sbx (new_record req bs gpus now)) = Pending"
  by (simp_all add: new_record_def)

lemma claim_ok:
  assumes v: "srv_ok cf v" and sid: "sp_ID bs \<noteq> []" "sp_ID bs \<notin> set (all_ids v)"
    and net: "canEnforce (cf_caps cf) (sp_Network bs)" and c: "claim cf req bs now v = Inr (p, v')"
  shows "srv_ok cf v'"
proof -
  obtain gpus where g: "p = length (v_heap v)"
    "v' = v\<lparr>v_heap := v_heap v @ [new_record req bs gpus now], v_table := v_table v @ [(sp_ID bs, length (v_heap v))],
            v_ops := Creating (length (v_heap v)) # v_ops v\<rparr>"
    "rq_Name req = [] \<or> (\<forall>sb \<in> set (sandboxes v). b_Name sb = rq_Name req \<longrightarrow> \<not> live sb)"
    "\<forall>m \<in> set (sp_Volumes bs). vm_Name m \<notin> set (v_deleting v) \<and> \<not> volumeBusy v m"
    "set gpus \<subseteq> set (freeGPUsOf cf (sandboxes v))"
    using c by (rule claim_Inr)
  let ?n = "length (v_heap v)" and ?nb = "r_sbx (new_record req bs gpus now)"
  note nf = new_record_fields
  have old: "sbx_at v' q = sbx_at v q" if "q < ?n" for q using that by (simp add: g(2) nth_append)
  have new: "sbx_at v' ?n = ?nb" by (simp add: g(2))
  have tab: "q < ?n \<and> b_ID (sbx_at v q) = k \<and> k \<noteq> []" if "(k, q) \<in> set (v_table v)" for k q
    using table_entry [OF v that] .
  have nkey: "sp_ID bs \<notin> fst ` set (v_table v)"
    using sid(2) tab by (force simp: all_ids_def in_set_conv_nth)
  have apart_new: "apart ?nb (sbx_at v q)" if q: "(k, q) \<in> set (v_table v)" "live (sbx_at v q)" for k q
  proof -
    have s: "sbx_at v q \<in> set (sandboxes v)" using q(1) by (auto simp: set_sandboxes)
    have "set (b_GPUs (sbx_at v q)) \<inter> set gpus = {}"
      using g(5) s q(2) by (auto simp: freeGPUsOf_def list_ex_iff)
    moreover have "vm_ReadOnly m \<and> vm_ReadOnly n"
      if "m \<in> set (sp_Volumes bs)" "n \<in> set (b_Volumes (sbx_at v q))" "vm_Name m = vm_Name n" for m n
      using not_volumeBusy [OF v _ s q(2) that(2), of m] g(4) that by simp
    ultimately show ?thesis using g(3) s q(2) unfolding apart_def nf by auto
  qed
  have "table_ok v'"
  proof -
    have "?n \<notin> snd ` set (v_table v)" using tab by force
    then have "distinct (map fst (v_table v'))" "distinct (map snd (v_table v'))"
      using v nkey by (auto simp: srv_ok_def table_ok_def g(2))
    moreover have "\<forall>(k, q) \<in> set (v_table v'). q < length (v_heap v') \<and> b_ID (sbx_at v' q) = k \<and> k \<noteq> []"
      using tab old new sid(1) nf(1) by (fastforce simp: g(2))
    ultimately show ?thesis by (simp add: table_ok_def)
  qed
  moreover have "apart_ok v'"
  proof -
    have "apart (sbx_at v' q) (sbx_at v' r)"
      if "(k, q) \<in> set (v_table v')" "(l, r) \<in> set (v_table v')" "q \<noteq> r" "live (sbx_at v' q)" "live (sbx_at v' r)" for k q l r
    proof -
      note h = that
      consider "(k, q) \<in> set (v_table v)" "(l, r) \<in> set (v_table v)" | "q = ?n" "(l, r) \<in> set (v_table v)"
        | "(k, q) \<in> set (v_table v)" "r = ?n" using h(1-3) by (auto simp: g(2))
      then show ?thesis
      proof cases
        case 1
        then have "q < ?n" "r < ?n" using tab by blast+
        then have e: "sbx_at v' q = sbx_at v q" "sbx_at v' r = sbx_at v r" using old by blast+
        show ?thesis using apart_okD [OF v 1 h(3)] h(4,5) unfolding e by simp
      next
        case 2
        then show ?thesis using apart_new [of l r] h(5) tab old new by auto
      next
        case 3
        then show ?thesis using apart_new [of k q] h(4) tab old new apart_sym by auto
      qed
    qed
    then show ?thesis by (auto simp: apart_ok_def)
  qed
  moreover have "held_ok cf v'"
  proof -
    have "set (b_GPUs (sbx_at v' q)) \<subseteq> set (cf_GPUs cf) \<and> (\<forall>m \<in> set (b_Volumes (sbx_at v' q)). vm_Name m \<notin> set (v_deleting v'))"
      if "(k, q) \<in> set (v_table v')" "live (sbx_at v' q)" for k q
    proof (cases "q = ?n")
      case True
      have "set gpus \<subseteq> set (cf_GPUs cf)" using g(5) by (auto simp: freeGPUsOf_def)
      with True g(4) show ?thesis unfolding True new nf by (simp add: g(2))
    next
      case False
      then have kq: "(k, q) \<in> set (v_table v)" using that(1) by (simp add: g(2))
      then have "sbx_at v' q = sbx_at v q" using tab old by blast
      then show ?thesis using held_okD [OF v kq] that(2) by (simp add: g(2))
    qed
    then show ?thesis by (auto simp: held_ok_def)
  qed
  moreover have "ops_ok v'"
  proof -
    have "Creating ?n \<notin> set (v_ops v)" using v by (auto simp: srv_ok_def ops_ok_def)
    then show ?thesis using v old unfolding srv_ok_def ops_ok_def by (auto simp: g(2) is_creating_def nth_append less_SucI)
  qed
  moreover have "\<forall>q < length (v_heap v'). canEnforce (cf_caps cf) (b_Network (sbx_at v' q))"
    using v net nf(5) by (auto simp: srv_ok_def g(2) nth_append less_Suc_eq)
  moreover have "distinct (all_ids v')"
    using v sid(2) by (simp add: srv_ok_def all_ids_def g(2) nf(1))
  ultimately show ?thesis by (simp add: srv_ok_def)
qed

text \<open>The remaining steps.\<close>

lemma create_pooled_ok:
  assumes v: "srv_ok cf v" and p: "Creating p \<in> set (v_ops v)" and i: "pooled \<noteq> []" "pooled \<notin> set (all_ids v)"
  shows "srv_ok cf (create_pooled p pooled v)"
proof -
  let ?w = "create_pooled p pooled v" and ?old = "filter (\<lambda>(k, _). k \<noteq> b_ID (sbx_at v p)) (v_table v)"
  have pl: "p < length (v_heap v)" and gone: "p \<notin> snd ` set (v_table v) \<Longrightarrow> b_State (sbx_at v p) = Terminated"
    using v p by (simp_all add: srv_ok_def ops_ok_def)
  have w: "v_table ?w = ?old @ [(pooled, p)]" "v_deleting ?w = v_deleting v" "v_ops ?w = v_ops v"
    "length (v_heap ?w) = length (v_heap v)"
    by (simp_all add: create_pooled_def Let_def upd_sbx_def delete_sandbox_def)
  have sb: "sbx_at ?w q = (if q = p then (sbx_at v p)\<lparr>b_ID := pooled\<rparr> else sbx_at v q)" for q
    using pl by (simp add: create_pooled_def Let_def upd_sbx_def delete_sandbox_def upd_rec_def nth_list_update)
  have oldp: "q \<noteq> p \<and> (k, q) \<in> set (v_table v)" if "(k, q) \<in> set ?old" for k q
    using that table_entry [OF v, of k q] by auto
  have inold: "(k, q) \<in> set ?old \<or> q = p" if "(k, q) \<in> set (v_table v)" for k q
    using that table_entry [OF v that] same_id [OF v _ pl] by auto
  have in_p: "live (sbx_at v p) \<Longrightarrow> \<exists>k. (k, p) \<in> set (v_table v)"
    using gone by (force simp: live_def)
  have held: "(k, q) \<in> set (v_table ?w) \<Longrightarrow> live (sbx_at v q) \<Longrightarrow> \<exists>k'. (k', q) \<in> set (v_table v)" for k q
    using oldp in_p unfolding w(1) by fastforce
  have lv: "live (sbx_at ?w q) = live (sbx_at v q)" for q by (simp add: sb live_def)
  have ap: "apart (sbx_at ?w q) (sbx_at ?w r) = apart (sbx_at v q) (sbx_at v r)" for q r
    by (simp add: sb apart_def)
  have "table_ok ?w"
  proof -
    have "pooled \<notin> fst ` set (v_table v)"
      using i(2) table_entry [OF v] by (force simp: all_ids_def in_set_conv_nth)
    moreover have "distinct (map fst ?old)" "distinct (map snd ?old)"
      using v by (simp_all add: srv_ok_def table_ok_def distinct_map_filter)
    ultimately have d: "distinct (map fst (v_table ?w))" "distinct (map snd (v_table ?w))"
      using oldp unfolding w(1) by (auto simp: image_iff)
    have "q < length (v_heap ?w) \<and> b_ID (sbx_at ?w q) = k \<and> k \<noteq> []" if "(k, q) \<in> set (v_table ?w)" for k q
      using that oldp [of k q] table_entry [OF v, of k q] pl i(1) unfolding w(1) by (auto simp: sb w(4))
    with d show ?thesis by (auto simp: table_ok_def)
  qed
  moreover have "apart_ok ?w"
  proof -
    have "apart (sbx_at ?w q) (sbx_at ?w r)"
      if "(k, q) \<in> set (v_table ?w)" "(l, r) \<in> set (v_table ?w)" "q \<noteq> r" "live (sbx_at ?w q)" "live (sbx_at ?w r)" for k q l r
    proof -
      note h = that
      obtain k' l' where "(k', q) \<in> set (v_table v)" "(l', r) \<in> set (v_table v)"
        using held [OF h(1)] held [OF h(2)] h(4,5) lv by auto
      then show ?thesis using apart_okD [OF v _ _ h(3)] h(4,5) unfolding ap lv by blast
    qed
    then show ?thesis by (auto simp: apart_ok_def)
  qed
  moreover have "held_ok cf ?w"
  proof -
    have "set (b_GPUs (sbx_at ?w q)) \<subseteq> set (cf_GPUs cf) \<and> (\<forall>m \<in> set (b_Volumes (sbx_at ?w q)). vm_Name m \<notin> set (v_deleting ?w))"
      if "(k, q) \<in> set (v_table ?w)" "live (sbx_at ?w q)" for k q
    proof -
      note h = that
      obtain k' where k': "(k', q) \<in> set (v_table v)" using held [OF h(1)] h(2) lv by auto
      have "set (b_GPUs (sbx_at v q)) \<subseteq> set (cf_GPUs cf) \<and> (\<forall>m \<in> set (b_Volumes (sbx_at v q)). vm_Name m \<notin> set (v_deleting v))"
        using held_okD [OF v k'] h(2) unfolding lv by blast
      then show ?thesis by (auto simp: sb w(2))
    qed
    then show ?thesis by (auto simp: held_ok_def)
  qed
  moreover have "ops_ok ?w"
  proof -
    have "b_State (sbx_at ?w q) = Terminated" if "Creating q \<in> set (v_ops v)" "q \<notin> snd ` set (v_table ?w)" for q
    proof -
      have "q \<notin> snd ` set (v_table v)" using that(2) inold unfolding w(1) by force
      then have "b_State (sbx_at v q) = Terminated" using v that(1) by (simp add: srv_ok_def ops_ok_def)
      then show ?thesis by (auto simp: sb)
    qed
    then show ?thesis using v by (simp add: srv_ok_def ops_ok_def w)
  qed
  moreover have "\<forall>q < length (v_heap ?w). canEnforce (cf_caps cf) (b_Network (sbx_at ?w q))"
    using v by (simp add: srv_ok_def sb w(4))
  moreover have "distinct (all_ids ?w)"
  proof -
    have "all_ids ?w = (all_ids v)[p := pooled]"
      by (rule nth_equalityI) (simp_all add: all_ids_def w(4) nth_list_update sb)
    then show ?thesis using v i(2) by (simp add: srv_ok_def distinct_list_update [of _ pooled])
  qed
  ultimately show ?thesis by (simp add: srv_ok_def)
qed

lemma update_ok:
  assumes v: "srv_ok cf v" and p: "p < length (v_heap v)" and i: "sid = b_ID (sbx_at v p) \<or> sid \<notin> set (all_ids v)"
    and u: "updateSandbox p sid u v = Inr v'"
  shows "srv_ok cf v'"
proof -
  have v': "v' = upd_rec p (\<lambda>r. r\<lparr>r_sbx := updated u (r_sbx r)\<rparr>) v"
    and free: "u_Name u = Some n \<Longrightarrow> \<not> nameTakenLocked v n sid" for n
    using u by (auto simp: updateSandbox_def upd_sbx_def split: option.split_asm if_split_asm)
  have "apart (updated u (sbx_at v p)) (sbx_at v q)"
    if "(k, p) \<in> set (v_table v)" "(l, q) \<in> set (v_table v)" "q \<noteq> p" "live (sbx_at v p)" "live (sbx_at v q)" for k l q
  proof -
    have ap: "apart (sbx_at v p) (sbx_at v q)" using that by (intro apart_okD [OF v]) auto
    have "l \<noteq> sid" using table_entry [OF v that(2)] same_id [OF v p, of q] that(3) i
      by (auto simp: all_ids_def dest: nth_mem)
    then have "u_Name u = Some n \<Longrightarrow> n = [] \<or> b_Name (sbx_at v q) \<noteq> n" for n
      using free [of n] that(2,5) by (auto simp: nameTakenLocked_def list_ex_iff)
    with ap show ?thesis by (cases "u_Name u") (auto simp: apart_def updated_def or_keep_def)
  qed
  then show ?thesis unfolding v'
    using v p by (intro upd_rec_apart_ok) (auto simp: updated_def live_def srv_ok_def)
qed

lemma delete_begin_ok:
  assumes v: "srv_ok cf v" and d: "delete_volume_begin cf name v = Inr v'"
  shows "srv_ok cf v'"
proof -
  have v': "v' = begin_op (DeletingVolume name) (v\<lparr>v_deleting := name # v_deleting v\<rparr>)" and free: "fst (holders v name) = []"
    using d by (auto simp: delete_volume_begin_def split: if_split_asm)
  have "\<not> volumeBusy v \<lparr>vm_Name = name, vm_Path = [], vm_ReadOnly = False\<rparr>"
    using free by (cases "holders v name") (simp add: volumeBusy_def)
  then have nobody: "vm_Name m \<noteq> name" if "(k, p) \<in> set (v_table v)" "live (sbx_at v p)" "m \<in> set (b_Volumes (sbx_at v p))" for k p m
    using not_volumeBusy [OF v, of "\<lparr>vm_Name = name, vm_Path = [], vm_ReadOnly = False\<rparr>" "sbx_at v p" m] that
    by (auto simp: set_sandboxes)
  have "vm_Name m \<notin> set (v_deleting v')" if "(k, p) \<in> set (v_table v')" "live (sbx_at v' p)" "m \<in> set (b_Volumes (sbx_at v' p))" for k p m
    using held_okD [OF v, of k p] nobody [of k p m] that by (simp add: v' begin_op_def)
  moreover have "set (b_GPUs (sbx_at v' p)) \<subseteq> set (cf_GPUs cf)" if "(k, p) \<in> set (v_table v')" "live (sbx_at v' p)" for k p
    using held_okD [OF v, of k p] that by (simp add: v' begin_op_def)
  ultimately have "held_ok cf v'" unfolding held_ok_def by blast
  then show ?thesis
    using v by (simp add: srv_ok_def v' begin_op_def table_ok_def apart_ok_def ops_ok_def is_creating_def all_ids_def)
qed

lemma delete_end_ok: "srv_ok cf v \<Longrightarrow> srv_ok cf (delete_volume_end name v)"
proof -
  assume v: "srv_ok cf v"
  have "held_ok cf (v\<lparr>v_deleting := filter (\<lambda>n. n \<noteq> name) (v_deleting v)\<rparr>)"
    using held_okD [OF v] by (auto simp: held_ok_def)
  then have "srv_ok cf (v\<lparr>v_deleting := filter (\<lambda>n. n \<noteq> name) (v_deleting v)\<rparr>)"
    using v by (simp add: srv_ok_def table_ok_def apart_ok_def ops_ok_def all_ids_def)
  then show ?thesis by (simp add: delete_volume_end_def end_op_ok)
qed

lemma forget_ok:
  assumes v: "srv_ok cf v" and d: "dead_order v ds"
  shows "srv_ok cf (forgetOldTerminated ds v)"
proof (cases "length ds \<le> keepTerminated")
  case False
  have "set ds = set (dead v)" using d by (metis dead_order_def set_mset_mset)
  then have old: "\<exists>l q. (l, q) \<in> set (v_table v) \<and> sb = sbx_at v q \<and> b_State sb = Terminated"
    if "sb \<in> set (take n ds)" for sb n using that by (auto simp: dead_def set_sandboxes dest!: in_set_takeD)
  have "srv_ok cf (v\<lparr>v_table := filter (\<lambda>(k, _). k \<notin> b_ID ` set (take (length ds - keepTerminated) ds)) (v_table v)\<rparr>)"
  proof (rule filter_table_ok [OF v])
    fix k p assume kp: "(k, p) \<in> set (v_table v)"
      "\<not> (case (k, p) of (k, _) \<Rightarrow> k \<notin> b_ID ` set (take (length ds - keepTerminated) ds))"
    then obtain sb where "sb \<in> set (take (length ds - keepTerminated) ds)" "k = b_ID sb" by auto
    then obtain l q where "(l, q) \<in> set (v_table v)" "k = b_ID (sbx_at v q)" "b_State (sbx_at v q) = Terminated"
      using old by metis
    then show "b_State (sbx_at v p) = Terminated"
      using table_entry [OF v] kp(1) same_id [OF v] by metis
  qed
  then show ?thesis using False by (simp add: forgetOldTerminated_def)
qed (simp add: v forgetOldTerminated_def)

lemma state_step_ok:
  assumes "srv_ok cf v" "p < length (v_heap v)" "keeps_claims (sbx_at v p) (f (sbx_at v p))"
    "b_Network (f (sbx_at v p)) = b_Network (sbx_at v p)"
  shows "srv_ok cf (upd_sbx p f v)"
  unfolding upd_sbx_def using assms by (intro upd_rec_ok) (simp_all add: srv_ok_def)

lemma same_sbx_ok:
  "srv_ok cf v \<Longrightarrow> p < length (v_heap v) \<Longrightarrow> r_sbx (f (v_heap v ! p)) = sbx_at v p \<Longrightarrow> srv_ok cf (upd_rec p f v)"
  by (rule upd_rec_ok) (simp_all add: srv_ok_def keeps_claims_def)

lemma touch_ok: "srv_ok cf v \<Longrightarrow> p < length (v_heap v) \<Longrightarrow> srv_ok cf (touch now p v)"
  unfolding touch_def by (rule same_sbx_ok) simp_all

lemma not_resurrects:
  "\<not> resurrects v v' \<Longrightarrow> p < length (v_heap v) \<Longrightarrow> live (sbx_at v' p) \<Longrightarrow> live (sbx_at v p)"
  by (auto simp: resurrects_def live_def)

lemma upd_sbx_at: "p < length (v_heap v) \<Longrightarrow> sbx_at (upd_sbx p f v) p = f (sbx_at v p)"
  by (simp add: upd_sbx_def upd_rec_def)

lemma end_op_heap [simp]: "v_heap (end_op x v) = v_heap v"
  by (simp add: end_op_def)

lemma srv_ok_step:
  assumes v: "srv_ok cf v" and q: "quiet_step cf v v'"
  shows "srv_ok cf v'"
proof -
  have alive: "p < length (v_heap v) \<Longrightarrow> live (sbx_at v' p) \<Longrightarrow> live (sbx_at v p)" for p
    using q not_resurrects by (auto simp: quiet_step_def)
  have ops: "Creating p \<in> set (v_ops v) \<Longrightarrow> p < length (v_heap v)" "Suspending p idle \<in> set (v_ops v) \<Longrightarrow> p < length (v_heap v)"
    "Resuming p \<in> set (v_ops v) \<Longrightarrow> p < length (v_heap v)" for p idle
    using v by (auto simp: srv_ok_def ops_ok_def)
  have "sstep cf v v'" using q by (simp add: quiet_step_def)
  then show ?thesis
  proof cases
    case (s_claim known er req sid req1 bs now p)
    note cc = create_check_Inr [OF s_claim(1)]
    have "sp_ID bs = sid" using cc(1) Resolve_id by auto
    then show ?thesis using claim_ok [OF v _ _ cc(2) s_claim(4)] s_claim(2,3) by simp
  next
    case (s_created p)
    have "live (sbx_at v p)"
      using alive [OF ops(1) [OF s_created(2)]] ops(1) [OF s_created(2)]
      by (simp add: s_created(1) create_done_def upd_sbx_at live_def)
    then show ?thesis unfolding s_created(1) create_done_def
      using ops(1) [OF s_created(2)] v by (intro end_op_ok state_step_ok) (simp_all add: keeps_claims_def)
  next
    case (s_suspended p idle)
    have "live (sbx_at v p)"
      using alive [OF ops(2) [OF s_suspended(2)]] ops(2) [OF s_suspended(2)]
      by (simp add: s_suspended(1) suspend_done_def upd_sbx_at live_def)
    then show ?thesis unfolding s_suspended(1) suspend_done_def
      using ops(2) [OF s_suspended(2)] v by (intro end_op_ok state_step_ok) (simp_all add: keeps_claims_def)
  next
    case (s_resumed p now)
    note pl = ops(3) [OF s_resumed(2)]
    have "live (sbx_at v p)"
      using alive [OF pl] pl by (simp add: s_resumed(1) resumed_def touch_def upd_sbx_def upd_rec_nth live_def)
    then show ?thesis unfolding s_resumed(1) resumed_def
      using pl v by (intro end_op_ok touch_ok state_step_ok) (simp_all add: keeps_claims_def upd_sbx_def)
  next
    case (s_not_suspended p idle now)
    then show ?thesis using v ops(2) by (simp add: suspend_failed_def end_op_ok touch_ok)
  next
    case (s_terminated p)
    then show ?thesis using v by (simp add: terminated_def state_step_ok keeps_claims_def live_def)
  next
    case (s_network p req pol)
    then show ?thesis using v unfolding network_updated_def upd_sbx_def
      by (auto intro!: upd_rec_ok simp: keeps_claims_def live_def)
  next
    case (s_cordon b)
    then show ?thesis using v
      by (simp add: cordon_def srv_ok_def table_ok_def apart_ok_def held_ok_def ops_ok_def all_ids_def)
  next
    case (s_process p)
    then show ?thesis using v by (simp add: process_started_def same_sbx_ok)
  next
    case (s_exit p pid)
    then show ?thesis using v by (simp add: process_exited_def same_sbx_ok)
  qed (use v in \<open>auto intro: create_failed_ok create_pooled_ok begin_op_ok end_op_ok forget_ok update_ok delete_begin_ok
    delete_end_ok touch_ok\<close>)
qed

lemma srv_ok_init: "srv_ok cf srv0"
  by (simp add: srv_ok_def srv0_def table_ok_def apart_ok_def held_ok_def ops_ok_def all_ids_def)

interpretation srv_run: step_invariant "\<lambda>v. v = srv0" "quiet_step cf" "srv_ok cf" for cf
  by unfold_locales (auto intro: srv_ok_init srv_ok_step)

section \<open>Networks\<close>

text \<open>Every record's network: enforceable by the backend, and within the operator's policy.\<close>

definition network_ok :: "config \<Rightarrow> NetworkPolicy \<Rightarrow> bool" where
  "network_ok cf n \<longleftrightarrow> canEnforce (cf_caps cf) n \<and> network_within (cf_lower cf) (p_Network (cf_Policy cf)) n"

definition networks_ok :: "config \<Rightarrow> srv \<Rightarrow> bool" where
  "networks_ok cf v \<longleftrightarrow> (\<forall>p < length (v_heap v). network_ok cf (b_Network (sbx_at v p)))"

lemma upd_networks_ok:
  "networks_ok cf v \<Longrightarrow> (p < length (v_heap v) \<Longrightarrow> network_ok cf (b_Network (r_sbx (f (v_heap v ! p))))) \<Longrightarrow> networks_ok cf (upd_rec p f v)"
  by (cases "p < length (v_heap v)") (simp_all add: networks_ok_def upd_rec_nth, simp add: upd_rec_def)

lemma same_heap_networks_ok: "networks_ok cf v \<Longrightarrow> v_heap v' = v_heap v \<Longrightarrow> networks_ok cf v'"
  by (simp add: networks_ok_def)

lemma networks_ok_step:
  assumes valid: "ValidatePolicy (cf_lower cf) (cf_Policy cf) = None" and v: "networks_ok cf v" and s: "sstep cf v v'"
  shows "networks_ok cf v'"
proof -
  have upd: "networks_ok cf w" if "networks_ok cf v" "v_heap w = v_heap (upd_sbx p f v)" "\<And>sb. b_Network (f sb) = b_Network sb" for w v p f
    using that upd_networks_ok [of cf v p] same_heap_networks_ok [of cf "upd_sbx p f v" w]
    by (auto simp: upd_sbx_def networks_ok_def)
  show ?thesis using s
  proof cases
    case (s_claim known er req sid req1 bs now p)
    note cc = create_check_Inr [OF s_claim(1)]
    have "network_ok cf (sp_Network bs)"
      using cc Resolve_within [OF _ valid] by (auto simp: network_ok_def)
    then show ?thesis using v s_claim(4)
      by (auto elim!: claim_Inr simp: networks_ok_def nth_append less_Suc_eq new_record_fields)
  next
    case (s_pooled p pooled)
    show ?thesis by (rule upd [OF v, of _ p "\<lambda>sb. sb\<lparr>b_ID := pooled\<rparr>"])
      (simp_all add: s_pooled(1) create_pooled_def Let_def delete_sandbox_def upd_sbx_def upd_rec_def)
  next
    case (s_created p)
    show ?thesis by (rule upd [OF v, of _ p "\<lambda>sb. sb\<lparr>b_State := Running\<rparr>"]) (simp_all add: s_created(1) create_done_def)
  next
    case (s_suspended p idle)
    show ?thesis by (rule upd [OF v, of _ p "\<lambda>sb. sb\<lparr>b_State := Suspended, b_IdleSuspended := idle\<rparr>"])
      (simp_all add: s_suspended(1) suspend_done_def)
  next
    case (s_resumed p now)
    have "networks_ok cf (upd_sbx p (\<lambda>sb. sb\<lparr>b_State := Running, b_IdleSuspended := False\<rparr>) v)"
      by (rule upd [OF v, of _ p "\<lambda>sb. sb\<lparr>b_State := Running, b_IdleSuspended := False\<rparr>"]) simp_all
    then show ?thesis
      by (simp add: s_resumed(1) resumed_def end_op_def touch_def)
        (rule same_heap_networks_ok [OF upd_networks_ok], assumption, auto simp: networks_ok_def)
  next
    case (s_update p sid ureq old er u)
    then have "v' = upd_sbx p (updated u) v" by (auto simp: updateSandbox_def split: option.split_asm if_split_asm)
    then show ?thesis using upd [OF v, of v' p "updated u"] by (simp add: updated_def)
  next
    case (s_network p req pol)
    have "network_ok cf pol"
      using s_network(4,5) resolveNetwork_within by (auto simp: network_ok_def ResolveNetworkUpdate_def split: option.split_asm)
    then show ?thesis using v by (simp add: s_network(1) network_updated_def upd_sbx_def upd_networks_ok)
  next
    case (s_terminated p)
    show ?thesis by (rule upd [OF v, of _ p "\<lambda>sb. sb\<lparr>b_State := Terminated\<rparr>"]) (simp_all add: s_terminated(1) terminated_def)
  next
    case (s_delete name)
    then show ?thesis using v same_heap_networks_ok
      by (auto simp: delete_volume_begin_def begin_op_def split: if_split_asm)
  next
    case (s_not_suspended p idle now)
    have "networks_ok cf (touch now p v)" unfolding touch_def by (rule upd_networks_ok [OF v]) (use v in \<open>simp add: networks_ok_def\<close>)
    then show ?thesis using v by (simp add: s_not_suspended(1) suspend_failed_def networks_ok_def)
  next
    case (s_touch p now)
    show ?thesis unfolding s_touch(1) touch_def by (rule upd_networks_ok [OF v]) (use v in \<open>simp add: networks_ok_def\<close>)
  next
    case (s_process p)
    show ?thesis unfolding s_process(1) process_started_def by (rule upd_networks_ok [OF v]) (use v in \<open>simp add: networks_ok_def\<close>)
  next
    case (s_exit p pid)
    show ?thesis unfolding s_exit(1) process_exited_def by (rule upd_networks_ok [OF v]) (use v in \<open>simp add: networks_ok_def\<close>)
  qed (use v in \<open>simp_all add: networks_ok_def create_failed_def delete_sandbox_def begin_op_def forgetOldTerminated_def
    delete_volume_end_def cordon_def\<close>)
qed

lemma networks_ok_init: "networks_ok cf srv0"
  by (simp add: networks_ok_def srv0_def)

interpretation srv_net: step_invariant "\<lambda>v. v = srv0" "sstep cf"
  "\<lambda>v. ValidatePolicy (cf_lower cf) (cf_Policy cf) = None \<longrightarrow> networks_ok cf v" for cf
  by unfold_locales (auto intro: networks_ok_init networks_ok_step)

section \<open>Names\<close>

lemma find_name_live:
  assumes "(k, p) \<in> set t" "live (sbx_at v p)" "b_Name (sbx_at v p) = ref" "ref \<noteq> []"
    "\<And>l q. (l, q) \<in> set t \<Longrightarrow> b_Name (sbx_at v q) = ref \<Longrightarrow> live (sbx_at v q) \<Longrightarrow> q = p"
  shows "find_name v ref best t = Some p"
  using assms(1,5)
proof (induction t arbitrary: best)
  case (Cons e rest)
  obtain l q where e: "e = (l, q)" by (cases e)
  show ?case
  proof (cases "b_Name (sbx_at v q) = ref \<and> live (sbx_at v q)")
    case True
    then have "q = p" using Cons.prems(2) [of l q] by (simp add: e)
    then show ?thesis using True assms(4) by (simp add: e Let_def)
  next
    case False
    then have "(k, p) \<in> set rest" using Cons.prems(1) assms(2,3) by (auto simp: e)
    moreover have "q' = p" if "(l', q') \<in> set rest" "b_Name (sbx_at v q') = ref" "live (sbx_at v q')" for l' q'
      using Cons.prems(2) [of l' q'] that by simp
    ultimately have "find_name v ref best' rest = Some p" for best' by (rule Cons.IH)
    then show ?thesis using False by (auto simp: e Let_def)
  qed
qed simp

lemma find_name_sound:
  assumes "find_name v ref best t = Some q"
  shows "best = Some q \<or> (\<exists>k. (k, q) \<in> set t) \<and> ref \<noteq> [] \<and> b_Name (sbx_at v q) = ref"
  using assms
  by (induction v ref best t rule: find_name.induct) (auto simp: Let_def split: if_splits option.splits)

section \<open>Runs on a concrete server\<close>

definition demo_cf :: config where
  "demo_cf = \<lparr>cf_lower = (\<lambda>x. x), cf_Policy = demo_policy, cf_caps = (\<lambda>_. True), cf_Suspender = True, cf_Snapshotter = True,
     cf_VolumeStore = True, cf_GPUs = [''gpu0'', ''gpu1''], cf_gpuReady = (\<lambda>_. True), cf_NodeID = []\<rparr>"

definition demo_mount :: VolumeMount where
  "demo_mount = \<lparr>vm_Name = ''d'', vm_Path = ''/data'', vm_ReadOnly = False\<rparr>"

definition demo_ask :: "bytes \<Rightarrow> VolumeMount list \<Rightarrow> CreateSandboxRequest" where
  "demo_ask name vols = zero_request\<lparr>rq_Name := name, rq_Volumes := vols\<rparr>"

definition asked :: "bytes \<Rightarrow> VolumeMount list \<Rightarrow> bytes \<Rightarrow> CreateSandboxRequest \<times> Spec \<Rightarrow> bool" where
  "asked name vols sid qs = (case qs of (q, bs) \<Rightarrow> rq_Name q = name \<and> rq_GPUs q = 0 \<and> sp_ID bs = sid \<and> sp_Volumes bs = vols)"

lemma demo_checks:
  "result_holds (asked ''web'' [demo_mount] ''a'') (create_check demo_cf [] (Inr [''d'']) None (demo_ask ''web'' [demo_mount]) ''a'')"
  "result_holds (asked ''web'' [demo_mount] ''b'') (create_check demo_cf [] (Inr [''d'']) None (demo_ask ''web'' [demo_mount]) ''b'')"
  "result_holds (asked ''db'' [] ''b'') (create_check demo_cf [] (Inr [''d'']) None (demo_ask ''db'' []) ''b'')"
  by code_simp+

text \<open>A create on a server with nothing live in its way.\<close>

lemma demo_claim:
  assumes c: "result_holds (asked name vols sid) (create_check demo_cf [] known None req sid)"
    and v: "v_snaps v = []" "\<not> v_cordoned v" "v_deleting v = []" "sid \<noteq> []" "sid \<notin> set (all_ids v)"
    and free: "\<forall>sb \<in> set (sandboxes v). live sb \<longrightarrow> b_Name sb \<noteq> name \<and> (\<forall>m \<in> set (b_Volumes sb). \<forall>n \<in> set vols. vm_Name m \<noteq> vm_Name n)"
  obtains r where "sstep demo_cf v (v\<lparr>v_heap := v_heap v @ [r], v_table := v_table v @ [(sid, length (v_heap v))],
      v_ops := Creating (length (v_heap v)) # v_ops v\<rparr>)"
    "b_ID (r_sbx r) = sid" "b_Name (r_sbx r) = name" "b_State (r_sbx r) = Pending" "b_Volumes (r_sbx r) = vols"
proof -
  obtain req1 bs where q: "create_check demo_cf [] known None req sid = Inr (req1, bs)" "asked name vols sid (req1, bs)"
    using c unfolding result_holds_iff by auto
  have "\<not> volumeBusy v m" if "m \<in> set vols" for m
  proof -
    have "filter (holds_volume (vm_Name m)) (sandboxes v) = []"
      using free that by (auto simp: filter_empty_conv holds_volume_def list_ex_iff)
    then have "holders v (vm_Name m) = ([], False)" by (simp add: holders_def)
    then show ?thesis by (simp add: volumeBusy_def)
  qed
  then have "claim demo_cf req1 bs 0 v = Inr (length (v_heap v),
      v\<lparr>v_heap := v_heap v @ [new_record req1 bs [] 0], v_table := v_table v @ [(sid, length (v_heap v))],
        v_ops := Creating (length (v_heap v)) # v_ops v\<rparr>)"
    using q(2) v free by (auto simp: claim_def asked_def list_ex_iff Let_def)
  then have "sstep demo_cf v (v\<lparr>v_heap := v_heap v @ [new_record req1 bs [] 0], v_table := v_table v @ [(sid, length (v_heap v))],
      v_ops := Creating (length (v_heap v)) # v_ops v\<rparr>)"
    using q(1) v by (intro s_claim) simp_all
  then show ?thesis using q(2) by (intro that [of "new_record req1 bs [] 0"]) (simp_all add: asked_def new_record_fields)
qed

lemmas demo_run = reach_init [where init = "\<lambda>v. v = srv0" and step = "sstep demo_cf", OF refl]
  reach_step [where init = "\<lambda>v. v = srv0" and step = "sstep demo_cf"]

lemmas demo_quiet_run = reach_init [where init = "\<lambda>v. v = srv0" and step = "quiet_step demo_cf", OF refl]
  reach_step [where init = "\<lambda>v. v = srv0" and step = "quiet_step demo_cf"]

text \<open>Two creates that ask for different things, one after the other.\<close>

lemma demo_two_live:
  obtains v1 v where "quiet_step demo_cf srv0 v1" "quiet_step demo_cf v1 v" "v_table v = [(''a'', 0), (''b'', 1)]"
    "live (sbx_at v 0)" "live (sbx_at v 1)" "b_Volumes (sbx_at v 0) = [demo_mount]" "b_Name (sbx_at v 0) = ''web''" "b_Name (sbx_at v 1) = ''db''"
proof -
  obtain r where r: "sstep demo_cf srv0 (srv0\<lparr>v_heap := [r], v_table := [(''a'', 0)], v_ops := [Creating 0]\<rparr>)"
    "b_ID (r_sbx r) = ''a''" "b_Name (r_sbx r) = ''web''" "b_State (r_sbx r) = Pending" "b_Volumes (r_sbx r) = [demo_mount]"
    by (rule demo_claim [OF demo_checks(1), of srv0]) (simp_all add: srv0_def all_ids_def sandboxes_def)
  let ?v1 = "srv0\<lparr>v_heap := [r], v_table := [(''a'', 0)], v_ops := [Creating 0]\<rparr>"
  obtain q where q: "sstep demo_cf ?v1 (?v1\<lparr>v_heap := [r, q], v_table := [(''a'', 0), (''b'', 1)], v_ops := [Creating 1, Creating 0]\<rparr>)"
    "b_ID (r_sbx q) = ''b''" "b_Name (r_sbx q) = ''db''" "b_State (r_sbx q) = Pending"
    by (rule demo_claim [OF demo_checks(3), of ?v1]) (simp_all add: srv0_def all_ids_def sandboxes_def r)
  let ?v2 = "?v1\<lparr>v_heap := [r, q], v_table := [(''a'', 0), (''b'', 1)], v_ops := [Creating 1, Creating 0]\<rparr>"
  have q1: "quiet_step demo_cf srv0 ?v1" using r(1) by (simp add: quiet_step_def resurrects_def srv0_def)
  have q2: "quiet_step demo_cf ?v1 ?v2" using q(1) by (simp add: quiet_step_def resurrects_def)
  show ?thesis using r q by (intro that [OF q1 q2]) (simp_all add: live_def)
qed

section \<open>Properties\<close>

text \<open>A run of the server: its states in order, each a step of the one before.\<close>

definition run_of :: "config \<Rightarrow> srv list \<Rightarrow> bool" where
  "run_of cf vs \<longleftrightarrow> vs \<noteq> [] \<and> vs ! 0 = srv0 \<and> (\<forall>i. Suc i < length vs \<longrightarrow> sstep cf (vs ! i) (vs ! Suc i))"

lemma quiet_run:
  assumes "run_of cf vs" "\<And>i. Suc i < length vs \<Longrightarrow> \<not> resurrects (vs ! i) (vs ! Suc i)" "n < length vs"
  shows "reach (\<lambda>v. v = srv0) (quiet_step cf) (vs ! n)"
  using assms(3)
proof (induction n)
  case 0
  then show ?case using assms(1) by (auto simp: run_of_def intro: reach_init)
next
  case (Suc n)
  then show ?case using assms(1,2) by (auto simp: run_of_def quiet_step_def intro: reach_step)
qed

text \<open>
  C7: However creates, pool claims, suspends, resumes, terminations, renames and volume deletions
  interleave, after any run of the server either some step of the run has made a terminated sandbox
  live again (\<open>terminated_comes_back\<close>), or two live sandboxes of the table have different names, share a
  volume only when both have it read-only, and share no GPU; each holds only GPUs of the node and no volume
  that is marked as being deleted.
\<close>

theorem live_sandboxes_apart:
  assumes "run_of cf vs" "v = last vs"
    and "(k, p) \<in> set (v_table v)" "(l, q) \<in> set (v_table v)" "k \<noteq> l" "live (sbx_at v p)" "live (sbx_at v q)"
  shows "(\<exists>i. Suc i < length vs \<and> resurrects (vs ! i) (vs ! Suc i)) \<or>
    (b_Name (sbx_at v p) = b_Name (sbx_at v q) \<longrightarrow> b_Name (sbx_at v p) = []) \<and>
    (\<forall>m \<in> set (b_Volumes (sbx_at v p)). vm_Name m \<notin> set (v_deleting v) \<and>
      (\<forall>n \<in> set (b_Volumes (sbx_at v q)). vm_Name m = vm_Name n \<longrightarrow> vm_ReadOnly m \<and> vm_ReadOnly n)) \<and>
    set (b_GPUs (sbx_at v p)) \<inter> set (b_GPUs (sbx_at v q)) = {} \<and> set (b_GPUs (sbx_at v p)) \<subseteq> set (cf_GPUs cf)"
proof (cases "\<exists>i. Suc i < length vs \<and> resurrects (vs ! i) (vs ! Suc i)")
  case False
  have "vs \<noteq> []" using assms(1) by (simp add: run_of_def)
  then have "reach (\<lambda>v. v = srv0) (quiet_step cf) v"
    using quiet_run [OF assms(1), of "length vs - 1"] False assms(2) by (auto simp: last_conv_nth)
  then have v: "srv_ok cf v" by (rule srv_run.inv_reach)
  have "p \<noteq> q" using table_entry [OF v assms(3)] table_entry [OF v assms(4)] assms(5) by auto
  then have ap: "apart (sbx_at v p) (sbx_at v q)" using apart_okD [OF v assms(3,4)] assms(6,7) by simp
  then show ?thesis using held_okD [OF v assms(3,6)] by (simp add: apart_def)
qed simp

theorem live_sandboxes_apart_witness:
  "\<exists>vs v. run_of demo_cf vs \<and> v = last vs \<and> live (sbx_at v 0) \<and> live (sbx_at v 1) \<and> b_Volumes (sbx_at v 0) = [demo_mount] \<and>
     set (b_GPUs (sbx_at v 0)) \<inter> set (b_GPUs (sbx_at v 1)) = {}"
proof -
  obtain v1 v2 where v: "quiet_step demo_cf srv0 v1" "quiet_step demo_cf v1 v2" "v_table v2 = [(''a'', 0), (''b'', 1)]"
    "live (sbx_at v2 0)" "live (sbx_at v2 1)" "b_Volumes (sbx_at v2 0) = [demo_mount]"
    by (rule demo_two_live)
  have r: "run_of demo_cf [srv0, v1, v2]" using v(1,2) by (auto simp: run_of_def quiet_step_def less_Suc_eq)
  have n: "\<not> (\<exists>i. Suc i < length [srv0, v1, v2] \<and> resurrects ([srv0, v1, v2] ! i) ([srv0, v1, v2] ! Suc i))"
    using v(1,2) by (auto simp: quiet_step_def nth_Cons split: nat.splits)
  show ?thesis
    using live_sandboxes_apart [OF r, of v2 "''a''" 0 "''b''" 1] n v r by (intro exI [of _ "[srv0, v1, v2]"] exI [of _ v2]) auto
qed

text \<open>
  C8: Over every run of the server, updates included, each sandbox's network is
  one the backend can enforce and never exceeds what the operator's policy allows.
\<close>

theorem networks_stay_within_policy:
  assumes "ValidatePolicy (cf_lower cf) (cf_Policy cf) = None" and "reach (\<lambda>v. v = srv0) (sstep cf) v" and "r \<in> set (v_heap v)"
  shows "canEnforce (cf_caps cf) (b_Network (r_sbx r)) \<and>
    network_within (cf_lower cf) (p_Network (cf_Policy cf)) (b_Network (r_sbx r))"
proof -
  have "networks_ok cf v" using srv_net.inv_reach [OF assms(2)] assms(1) by blast
  then show ?thesis using assms(3) by (auto simp: networks_ok_def network_ok_def in_set_conv_nth)
qed

text \<open>
  A request that names a live sandbox gets that sandbox, whatever order the records are visited in,
  unless the name is some sandbox's id; and what a request gets has that id or name.
\<close>

theorem name_finds_live_sandbox:
  assumes "reach (\<lambda>v. v = srv0) (quiet_step cf) v" and "mset visit = mset (v_table v)"
    and "(k, p) \<in> set (v_table v)" "live (sbx_at v p)" "ref = k \<or> b_Name (sbx_at v p) = ref \<and> ref \<noteq> [] \<and> ref \<notin> fst ` set (v_table v)"
  shows "find_ref visit v ref = Some p"
proof -
  have v: "srv_ok cf v" using assms(1) by (rule srv_run.inv_reach)
  have t: "set visit = set (v_table v)" using assms(2) by (metis set_mset_mset)
  have d: "distinct (map fst (v_table v))" using v by (simp add: srv_ok_def table_ok_def)
  show ?thesis
  proof (cases "ref = k")
    case True
    then show ?thesis using map_of_is_SomeI [OF d assms(3)] by (simp add: find_ref_def)
  next
    case False
    then have r: "b_Name (sbx_at v p) = ref" "ref \<noteq> []" "map_of (v_table v) ref = None"
      using assms(5) by (auto simp: map_of_eq_None_iff)
    have "q = p" if "(l, q) \<in> set visit" "b_Name (sbx_at v q) = ref" "live (sbx_at v q)" for l q
      using apart_okD [OF v assms(3), of l q] that r(1,2) assms(4) by (auto simp: t apart_def)
    with assms(3,4) r(1,2) have "find_name v ref None visit = Some p" unfolding t [symmetric] by (rule find_name_live)
    then show ?thesis using r(3) by (simp add: find_ref_def)
  qed
qed

theorem name_finds_live_sandbox_witness:
  "\<exists>v. reach (\<lambda>v. v = srv0) (quiet_step demo_cf) v \<and> find_ref (rev (v_table v)) v ''web'' = Some 0"
proof -
  obtain v1 v where v: "quiet_step demo_cf srv0 v1" "quiet_step demo_cf v1 v" "v_table v = [(''a'', 0), (''b'', 1)]" "live (sbx_at v 0)"
    "b_Name (sbx_at v 0) = ''web''"
    by (rule demo_two_live)
  have r: "reach (\<lambda>v. v = srv0) (quiet_step demo_cf) v" by (rule demo_quiet_run(2) [OF demo_quiet_run(2) [OF demo_quiet_run(1) v(1)] v(2)])
  then show ?thesis using name_finds_live_sandbox [OF r, of "rev (v_table v)" "''a''" 0 "''web''"] v by auto
qed

theorem networks_stay_within_policy_witness:
  "\<exists>v r. reach (\<lambda>v. v = srv0) (sstep demo_cf) v \<and> r \<in> set (v_heap v) \<and>
     network_within (\<lambda>x. x) (p_Network demo_policy) (b_Network (r_sbx r))"
proof -
  obtain r where r: "sstep demo_cf srv0 (srv0\<lparr>v_heap := [r], v_table := [(''a'', 0)], v_ops := [Creating 0]\<rparr>)"
    by (rule demo_claim [OF demo_checks(1), of srv0]) (simp_all add: srv0_def all_ids_def sandboxes_def)
  have "reach (\<lambda>v. v = srv0) (sstep demo_cf) (srv0\<lparr>v_heap := [r], v_table := [(''a'', 0)], v_ops := [Creating 0]\<rparr>)"
    by (rule demo_run(2) [OF demo_run(1) r])
  moreover have "r \<in> set (v_heap (srv0\<lparr>v_heap := [r], v_table := [(''a'', 0)], v_ops := [Creating 0]\<rparr>))" by simp
  moreover have "ValidatePolicy (cf_lower demo_cf) (cf_Policy demo_cf) = None" by (simp add: demo_cf_def demo_valid)
  ultimately have "network_within (cf_lower demo_cf) (p_Network (cf_Policy demo_cf)) (b_Network (r_sbx r))"
    using networks_stay_within_policy by blast
  then have "network_within (\<lambda>x. x) (p_Network demo_policy) (b_Network (r_sbx r))" by (simp add: demo_cf_def)
  with \<open>reach _ _ _\<close> \<open>r \<in> _\<close> show ?thesis by blast
qed

text \<open>
  The reaper's verdict on a record: it is ended for its lifetime exactly when that has run out on a
  running or suspended sandbox, busy or not; for being idle it is ended or suspended only when it runs, no
  process of it does and its timeout has passed since it was last used, suspended exactly when it asked to
  be and the backend can; in every other case it is left alone.
\<close>

theorem reaper_takes_only_due:
  assumes "reap_one cs now r = (r', d)"
  defines "expired \<equiv> (\<exists>t. b_ExpiresAt (r_sbx r) = Some t \<and> t \<le> now) \<and> b_State (r_sbx r) \<in> {Running, Suspended}"
    and "idle \<equiv> b_State (r_sbx r) = Running \<and> \<not> busy r \<and> b_IdleTimeoutSecs (r_sbx r) > 0 \<and>
      r_lastActive r + b_IdleTimeoutSecs (r_sbx r) * second \<le> now"
  shows "r_sbx r' = r_sbx r \<and> d = (if expired then Due ''lifetime''
    else if idle then (if b_IdleAction (r_sbx r) = ''suspend'' \<and> cs then Sleepy else Due ''idle'') else Stay)"
proof -
  have "expired \<longleftrightarrow> (case b_ExpiresAt (r_sbx r) of None \<Rightarrow> False | Some t \<Rightarrow> \<not> now < t) \<and>
      (b_State (r_sbx r) = Running \<or> b_State (r_sbx r) = Suspended)"
    by (auto simp: expired_def split: option.splits)
  moreover have "\<not> 0 \<ge> b_IdleTimeoutSecs (r_sbx r) * second \<longleftrightarrow> b_IdleTimeoutSecs (r_sbx r) > 0"
    by (auto simp: second_def)
  ultimately show ?thesis using assms(1) unfolding reap_one_def Let_def idle_def
    by (cases "busy r") (auto simp: algebra_simps)
qed

theorem reaper_takes_only_due_witness:
  "\<exists>r. reap_one True (11 * second) r = (r, Sleepy) \<and> r_lastActive r + b_IdleTimeoutSecs (r_sbx r) * second \<le> 11 * second"
proof -
  obtain r0 :: rec where True by simp
  define r where "r = r0\<lparr>r_procs := [], r_lastActive := 0, r_sbx := (r_sbx r0)\<lparr>b_State := Running, b_IdleTimeoutSecs := 10,
    b_IdleAction := ''suspend'', b_ExpiresAt := None\<rparr>\<rparr>"
  have e: "reap_one True (11 * second) r = (r, Sleepy)" by (simp add: reap_one_def r_def busy_def second_def)
  then show ?thesis using reaper_takes_only_due [OF e] by (auto split: if_split_asm)
qed

text \<open>
  A create that returns writes its sandbox running whatever happened to the record meanwhile. Where the sandbox was terminated while
  its create was at the backend, the step that ends the create makes it live again, with the name, the volumes and the GPUs it had, and leaves
  every other sandbox as it was: one that took the name or a volume in between now shares it.
\<close>

theorem terminated_comes_back:
  assumes "reach (\<lambda>v. v = srv0) (sstep cf) v" "Creating p \<in> set (v_ops v)" "b_State (sbx_at v p) = Terminated" "p < length (v_heap v)"
  shows "sstep cf v (create_done p v) \<and> resurrects v (create_done p v) \<and>
    sbx_at (create_done p v) p = (sbx_at v p)\<lparr>b_State := Running\<rparr> \<and> live (sbx_at (create_done p v) p) \<and>
    (\<forall>q. q \<noteq> p \<longrightarrow> sbx_at (create_done p v) q = sbx_at v q) \<and> v_table (create_done p v) = v_table v"
proof -
  have s: "sstep cf v (create_done p v)" by (rule s_created [OF assms(2)])
  have 2: "sbx_at (create_done p v) q = sbx_at v q" if "q \<noteq> p" for q
    using that by (simp add: create_done_def upd_sbx_def upd_rec_def end_op_def)
  have "v_table (create_done p v) = v_table v" by (simp add: create_done_def upd_sbx_def upd_rec_def end_op_def)
  moreover have p: "sbx_at (create_done p v) p = (sbx_at v p)\<lparr>b_State := Running\<rparr>"
    using assms(4) by (simp add: create_done_def upd_sbx_def upd_rec_def end_op_def)
  moreover have "resurrects v (create_done p v)" using assms(3,4) p by (auto simp: resurrects_def)
  ultimately show ?thesis using s 2 by (simp add: live_def)
qed

theorem terminated_comes_back_witness:
  "\<exists>v v'. reach (\<lambda>v. v = srv0) (sstep demo_cf) v \<and> b_State (sbx_at v 0) = Terminated \<and> sstep demo_cf v v' \<and> v_table v' = [(''a'', 0), (''b'', 1)] \<and>
     live (sbx_at v' 0) \<and> live (sbx_at v' 1) \<and> b_Name (sbx_at v' 0) = ''web'' \<and> b_Name (sbx_at v' 1) = ''web'' \<and>
     b_Volumes (sbx_at v' 0) = [demo_mount] \<and> b_Volumes (sbx_at v' 1) = [demo_mount]"
proof -
  obtain r where r: "sstep demo_cf srv0 (srv0\<lparr>v_heap := [r], v_table := [(''a'', 0)], v_ops := [Creating 0]\<rparr>)"
    "b_ID (r_sbx r) = ''a''" "b_Name (r_sbx r) = ''web''" "b_State (r_sbx r) = Pending" "b_Volumes (r_sbx r) = [demo_mount]"
    by (rule demo_claim [OF demo_checks(1), of srv0]) (simp_all add: srv0_def all_ids_def sandboxes_def)
  let ?v1 = "srv0\<lparr>v_heap := [r], v_table := [(''a'', 0)], v_ops := [Creating 0]\<rparr>"
  let ?v2 = "terminated 0 ?v1"
  have s2: "sstep demo_cf ?v1 ?v2" by (rule s_terminated) simp
  have v2: "?v2 = ?v1\<lparr>v_heap := [r\<lparr>r_sbx := (r_sbx r)\<lparr>b_State := Terminated\<rparr>\<rparr>]\<rparr>"
    by (simp add: terminated_def upd_sbx_def upd_rec_def)
  obtain q where q: "sstep demo_cf ?v2 (?v2\<lparr>v_heap := v_heap ?v2 @ [q], v_table := v_table ?v2 @ [(''b'', length (v_heap ?v2))],
      v_ops := Creating (length (v_heap ?v2)) # v_ops ?v2\<rparr>)"
    "b_Name (r_sbx q) = ''web''" "b_State (r_sbx q) = Pending" "b_Volumes (r_sbx q) = [demo_mount]"
    by (rule demo_claim [OF demo_checks(2), of ?v2], unfold v2) (simp_all add: srv0_def all_ids_def sandboxes_def r live_def)
  let ?v3 = "?v2\<lparr>v_heap := v_heap ?v2 @ [q], v_table := v_table ?v2 @ [(''b'', length (v_heap ?v2))],
      v_ops := Creating (length (v_heap ?v2)) # v_ops ?v2\<rparr>"
  have rc: "reach (\<lambda>v. v = srv0) (sstep demo_cf) ?v3"
    by (rule demo_run(2) [OF demo_run(2) [OF demo_run(2) [OF demo_run(1) r(1)] s2] q(1)])
  have f: "Creating 0 \<in> set (v_ops ?v3)" "b_State (sbx_at ?v3 0) = Terminated" "0 < length (v_heap ?v3)" "v_table ?v3 = [(''a'', 0), (''b'', 1)]"
    "sbx_at ?v3 0 = (r_sbx r)\<lparr>b_State := Terminated\<rparr>" "sbx_at ?v3 1 = r_sbx q" by (simp_all add: v2)
  note c = terminated_comes_back [OF rc f(1-3)]
  show ?thesis
    by (rule exI [of _ ?v3], rule exI [of _ "create_done 0 ?v3"]) (use c f r q rc in \<open>simp add: live_def\<close>)
qed

text \<open>
  Two requests to delete one volume may both be at the backend, and the first to return lifts the
  mark that holds creates off: a create then attaches a volume the other request is still deleting.
\<close>

theorem attached_while_being_deleted:
  "\<exists>v p. reach (\<lambda>v. v = srv0) (quiet_step demo_cf) v \<and> p \<in> snd ` set (v_table v) \<and> live (sbx_at v p) \<and>
     demo_mount \<in> set (b_Volumes (sbx_at v p)) \<and> DeletingVolume (vm_Name demo_mount) \<in> set (v_ops v)"
proof -
  let ?v1 = "srv0\<lparr>v_deleting := [''d''], v_ops := [DeletingVolume ''d'']\<rparr>"
  let ?v2 = "srv0\<lparr>v_deleting := [''d'', ''d''], v_ops := [DeletingVolume ''d'', DeletingVolume ''d'']\<rparr>"
  let ?v3 = "delete_volume_end ''d'' ?v2"
  have h: "v_heap srv0 = []" "v_table srv0 = []" by (simp_all add: srv0_def)
  have v3: "?v3 = srv0\<lparr>v_ops := [DeletingVolume ''d'']\<rparr>" by (simp add: delete_volume_end_def end_op_def srv0_def)
  have name: "ValidName ''d''" by code_simp
  have b: "delete_volume_begin demo_cf ''d'' srv0 = Inr ?v1" "delete_volume_begin demo_cf ''d'' ?v1 = Inr ?v2"
    by (simp_all add: delete_volume_begin_def demo_cf_def volumeStore_def name begin_op_def holders_def sandboxes_def srv0_def)
  have s: "sstep demo_cf srv0 ?v1" "sstep demo_cf ?v1 ?v2" "sstep demo_cf ?v2 ?v3"
    using b by (auto intro: s_delete s_deleted)
  obtain r where r: "sstep demo_cf ?v3 (?v3\<lparr>v_heap := v_heap ?v3 @ [r], v_table := v_table ?v3 @ [(''a'', length (v_heap ?v3))],
      v_ops := Creating (length (v_heap ?v3)) # v_ops ?v3\<rparr>)"
    "b_State (r_sbx r) = Pending" "b_Volumes (r_sbx r) = [demo_mount]"
    by (rule demo_claim [OF demo_checks(1), of ?v3], unfold v3) (simp_all add: srv0_def all_ids_def sandboxes_def)
  let ?v4 = "?v3\<lparr>v_heap := v_heap ?v3 @ [r], v_table := v_table ?v3 @ [(''a'', length (v_heap ?v3))],
      v_ops := Creating (length (v_heap ?v3)) # v_ops ?v3\<rparr>"
  have q: "quiet_step demo_cf srv0 ?v1" "quiet_step demo_cf ?v1 ?v2" "quiet_step demo_cf ?v2 ?v3" "quiet_step demo_cf ?v3 ?v4"
    using s r(1) by (simp_all add: quiet_step_def resurrects_def v3 h)
  have "reach (\<lambda>v. v = srv0) (quiet_step demo_cf) ?v4"
    by (intro demo_quiet_run(2) [OF _ q(4)] demo_quiet_run(2) [OF _ q(3)] demo_quiet_run(2) [OF _ q(2)] demo_quiet_run(2) [OF _ q(1)]
      demo_quiet_run(1))
  then show ?thesis using r(2,3)
    by (intro exI [of _ ?v4] exI [of _ "0 :: nat"]) (simp add: v3 h live_def demo_mount_def)
qed

end
