(* ===== verification/Server_Keep.thy ===== *)
theory Server_Keep
  imports Server_Safety Guest_Proto
begin

text \<open>
  Records on disk (\<open>internal/server/keep.go\<close>): what a server writes of each sandbox, and what the next one takes back from the records it
  finds and the machines its backend kept. A directory entry comes with what its JSON decodes to; the
  atomic rename and log lines are not modelled, nor is a write of a record that fails, which is logged.
\<close>

subsection \<open>Records\<close>

record keptProc =
  kp_PID :: int
  kp_Session :: bytes
  kp_Argv :: "bytes list"
  kp_Tty :: bool
  kp_StartedAt :: int

record keptRecord =
  kr_Sandbox :: sandbox
  kr_Env :: "(bytes \<times> bytes) list"
  kr_NextPID :: int
  kr_Procs :: "keptProc list"

definition recordPath :: "bytes \<Rightarrow> bytes" where
  "recordPath sid = sid @ ''.json''"

text \<open>
  What a record written as JSON decodes to: of the network policy, \<open>deny\<close> and \<open>groups\<close> are marked \<open>omitempty\<close>, so that an empty list comes back
  missing. The model's other lists do not tell the two apart, as the code that reads them does not.
\<close>

definition omit_empty :: "'a list option \<Rightarrow> 'a list option" where
  "omit_empty xs = (if xs = Some [] then None else xs)"

definition json_network :: "NetworkPolicy \<Rightarrow> NetworkPolicy" where
  "json_network n = n\<lparr>np_Deny := omit_empty (np_Deny n), np_Groups := omit_empty (np_Groups n)\<rparr>"

definition json_record :: "keptRecord \<Rightarrow> keptRecord" where
  "json_record kr = kr\<lparr>kr_Sandbox := (kr_Sandbox kr)\<lparr>b_Network := json_network (b_Network (kr_Sandbox kr))\<rparr>\<rparr>"

text \<open>\<open>persist\<close>: the file of a sandbox is replaced, or removed when the sandbox has ended. \<open>procs\<close> are its running processes that have a session.\<close>

definition persist :: "keptProc list \<Rightarrow> rec \<Rightarrow> (bytes \<rightharpoonup> keptRecord) \<Rightarrow> (bytes \<rightharpoonup> keptRecord)" where
  "persist procs r disk =
    (let path = recordPath (b_ID (r_sbx r)) in
     if b_State (r_sbx r) = Terminated then disk(path := None)
     else disk(path \<mapsto> json_record \<lparr>kr_Sandbox = r_sbx r, kr_Env = r_env r, kr_NextPID = int (r_nextPID r), kr_Procs = procs\<rparr>))"

definition forget_record :: "bytes \<Rightarrow> (bytes \<rightharpoonup> keptRecord) \<Rightarrow> (bytes \<rightharpoonup> keptRecord)" where
  "forget_record sid disk = disk(recordPath sid := None)"

subsection \<open>Taking back\<close>

text \<open>A directory entry: its name, whether it is a regular file, and its record, None where it does not decode.\<close>

record dirent =
  de_Name :: bytes
  de_Regular :: bool
  de_Record :: "keptRecord option"

definition CutSuffix :: "bytes \<Rightarrow> bytes \<Rightarrow> bytes option" where
  "CutSuffix s suf = (if HasSuffix s suf then Some (take (length s - length suf) s) else None)"

definition readRecord :: "bytes \<Rightarrow> keptRecord option \<Rightarrow> keptRecord option" where
  "readRecord sid content = (case content of None \<Rightarrow> None
    | Some kr \<Rightarrow> if b_ID (kr_Sandbox kr) \<noteq> sid \<or> kr_NextPID kr < 0 then None else Some kr)"

text \<open>The record as it is served again: its state is what the backend says, its clocks start over.\<close>

definition taken_back :: "int \<Rightarrow> bool \<Rightarrow> keptRecord \<Rightarrow> rec" where
  "taken_back now suspended kr =
    (let sb = kr_Sandbox kr in
     \<lparr>r_sbx = sb\<lparr>b_State := (if suspended then Suspended else Running), b_IdleSuspended := (suspended \<and> b_IdleSuspended sb),
        b_IdleAction := (case ResolveIdleAction (b_IdleAction sb) of Inl _ \<Rightarrow> [] | Inr _ \<Rightarrow> b_IdleAction sb), b_Snapshotting := False\<rparr>,
      r_env = kr_Env kr, r_procs = [], r_nextPID = nat (kr_NextPID kr), r_lastActive = now, r_lastScheduled = now, r_snapshotting = False\<rparr>)"

datatype entry_fate = Left_alone | Removed | Taken bytes rec "keptProc list"

definition restore_entry :: "config \<Rightarrow> int \<Rightarrow> (bytes \<times> bool) list \<Rightarrow> dirent \<Rightarrow> entry_fate" where
  "restore_entry cf now kept de =
    (case (case CutSuffix (de_Name de) ''.json'' of Some sid \<Rightarrow> if ValidID sid \<and> de_Regular de then Some sid else None | None \<Rightarrow> None) of
       None \<Rightarrow> if HasPrefix (de_Name de) ''.record-'' then Removed else Left_alone
     | Some sid \<Rightarrow> (case readRecord sid (de_Record de) of
         None \<Rightarrow> Removed
       | Some kr \<Rightarrow> (case map_of kept sid of
           None \<Rightarrow> Removed
         | Some suspended \<Rightarrow>
             (case ResolveNetworkUpdate (cf_lower cf) (Some (b_Network (kr_Sandbox kr))) (cf_Policy cf) of
                Inl _ \<Rightarrow> Removed
              | Inr _ \<Rightarrow> Taken sid (taken_back now suspended kr) (kr_Procs kr)))))"

fun taken_of :: "entry_fate list \<Rightarrow> (bytes \<times> rec \<times> keptProc list) list" where
  "taken_of [] = []"
| "taken_of (Taken sid r procs # fs) = (sid, r, procs) # taken_of fs"
| "taken_of (_ # fs) = taken_of fs"

text \<open>
  The loops of \<open>Restore\<close>: the sandboxes served again, with the processes their records name, and the machines the backend is told to terminate (one it
  fails to terminate is logged).
\<close>

definition restore_records :: "config \<Rightarrow> int \<Rightarrow> (bytes \<times> bool) list \<Rightarrow> dirent list \<Rightarrow> (bytes \<times> rec \<times> keptProc list) list \<times> bytes list" where
  "restore_records cf now kept des =
    (let back' = taken_of (map (restore_entry cf now kept) des)
     in (back', filter (\<lambda>sid. sid \<notin> fst ` set back') (map fst kept)))"

text \<open>
  The records directory: its path, empty where none is configured; whether it could be made; its permission bits, and its
  entries, None where the call failed. One that group or others may use is refused.
\<close>

record records_dir =
  rd_Path :: bytes
  rd_Made :: bool
  rd_Perm :: "nat option"
  rd_Entries :: "dirent list option"

datatype restore_error = DirFailed | DirReadable

definition Restore :: "config \<Rightarrow> int \<Rightarrow> (bytes \<times> bool) list \<Rightarrow> records_dir \<Rightarrow> (restore_error, (bytes \<times> rec \<times> keptProc list) list \<times> bytes list) result" where
  "Restore cf now kept dir =
    (if rd_Path dir = [] then Inr ([], [])
     else if \<not> rd_Made dir then Inl DirFailed
     else case rd_Perm dir of None \<Rightarrow> Inl DirFailed
       | Some perm \<Rightarrow> if perm mod 64 \<noteq> 0 then Inl DirReadable
           else case rd_Entries dir of None \<Rightarrow> Inl DirFailed | Some des \<Rightarrow> Inr (restore_records cf now kept des))"

text \<open>\<open>reattach\<close>: \<open>alive\<close> is whether the backend takes a session back; a process that cannot be is listed as ended.\<close>

definition reattach :: "(bytes \<Rightarrow> bool) \<Rightarrow> keptProc list \<Rightarrow> rec \<Rightarrow> rec" where
  "reattach alive procs r = foldl (\<lambda>q kp.
     if kp_PID kp \<le> 0 \<or> kp_PID kp > int (r_nextPID q) \<or> \<not> SessionIDOK (kp_Session kp) then q
     else q\<lparr>r_procs := (nat (kp_PID kp), alive (kp_Session kp)) # filter (\<lambda>(k, _). k \<noteq> nat (kp_PID kp)) (r_procs q)\<rparr>) r procs"

subsection \<open>Snapshots\<close>

record snapfile =
  sf_Name :: bytes
  sf_Regular :: bool
  sf_ID :: "bytes option"

definition lower_hex :: "byte \<Rightarrow> bool" where
  "lower_hex c \<longleftrightarrow> c \<in> set ''0123456789abcdef''"

definition snapshotIDOK :: "bytes \<Rightarrow> bool" where
  "snapshotIDOK sid = (case CutPrefix sid ''snp_'' of None \<Rightarrow> False | Some rest \<Rightarrow> length rest = 16 \<and> list_all lower_hex rest)"

definition restore_snapshot :: "bytes list \<Rightarrow> snapfile \<Rightarrow> bytes option" where
  "restore_snapshot stored sf = (case CutSuffix (sf_Name sf) ''.json'' of
      None \<Rightarrow> None
    | Some sid \<Rightarrow> if snapshotIDOK sid \<and> sf_Regular sf \<and> sf_ID sf = Some sid \<and> sid \<in> set stored then Some sid else None)"

text \<open>The snapshots listed again, and those whose files are deleted.\<close>

definition restoreSnapshots :: "bool \<Rightarrow> bytes list \<Rightarrow> snapfile list \<Rightarrow> bytes list \<times> bytes list" where
  "restoreSnapshots canSnap stored sfs =
    (let again = List.map_filter (restore_snapshot stored) sfs
     in (again, if canSnap then filter (\<lambda>sid. sid \<notin> set again) stored else []))"

section \<open>The two lists are matched\<close>

lemma CutSuffix_append: "CutSuffix (s @ suf) suf = Some s"
  by (simp add: CutSuffix_def HasSuffix_def)

lemma CutSuffix_Some: "CutSuffix s suf = Some x \<longleftrightarrow> s = x @ suf"
  by (auto simp: CutSuffix_def HasSuffix_def split: if_split_asm) (metis append_eq_conv_conj append_take_drop_id length_append add_diff_cancel_right')

lemma taken_of_iff: "(sid, r, procs) \<in> set (taken_of fs) \<longleftrightarrow> Taken sid r procs \<in> set fs"
  by (induction fs rule: taken_of.induct) auto

lemma restore_entry_Taken:
  "restore_entry cf now kept de = Taken sid r procs \<longleftrightarrow> de_Name de = recordPath sid \<and> ValidID sid \<and> de_Regular de \<and>
    (\<exists>kr suspended. de_Record de = Some kr \<and> b_ID (kr_Sandbox kr) = sid \<and> 0 \<le> kr_NextPID kr \<and> map_of kept sid = Some suspended \<and>
      (\<exists>net. ResolveNetworkUpdate (cf_lower cf) (Some (b_Network (kr_Sandbox kr))) (cf_Policy cf) = Inr net) \<and>
      r = taken_back now suspended kr \<and> procs = kr_Procs kr)"
  by (auto simp: restore_entry_def readRecord_def recordPath_def CutSuffix_append CutSuffix_Some not_less split: option.splits if_splits sum.splits)

text \<open>A network policy as a server resolves it: its names normalized, the mode spelled out.\<close>

definition net_normal :: "(nat \<Rightarrow> nat) \<Rightarrow> NetworkPolicy \<Rightarrow> bool" where
  "net_normal lr p \<longleftrightarrow> np_Groups p = None \<and> np_Mode p \<noteq> [] \<and> normalizeNames lr ''deny'' (np_Deny p) = Inr (np_Deny p) \<and>
     normalizeNames lr ''allow'' (np_Allow p) = Inr (np_Allow p) \<and> (np_Mode p = ''none'' \<longrightarrow> np_Deny p = None) \<and>
     (np_Mode p = ''allowlist'' \<longrightarrow> np_Allow p \<noteq> None)"

lemma normal_resolves_to_itself:
  assumes n: "net_normal lr p" and r: "resolveNetwork lr (Some p) pol = Inr out"
  shows "out = p"
proof -
  from r obtain mode deny allow where m: "mode = (if np_Mode p = [] then np_Mode (sn_Default pol) else np_Mode p)" "0 \<le> NetworkRank mode"
    "normalizeNames lr ''deny'' (np_Deny p) = Inr deny" "normalizeNames lr ''allow'' (np_Allow p) = Inr allow" "resolve_named lr p mode deny allow pol = Inr out"
    by (rule resolveNetwork_Some)
  have p: "mode = np_Mode p" "deny = np_Deny p" "allow = np_Allow p" "np_Groups p = None" "np_Allow p \<noteq> Some []"
    using n m(1,3,4) normalizeNames_out(5) [OF m(4)] by (auto simp: net_normal_def)
  note o = resolve_named_Inr [OF m(5)]
  have "mode = ''none'' \<or> mode = ''allowlist'' \<or> mode = ''open''" using m(2) by (simp add: NetworkRank_cases)
  moreover have "np_Allow out = np_Allow p" if l: "mode = ''allowlist''"
  proof -
    obtain names where "chosen_allow lr p (items allow) pol = Inr names" "np_Allow out = Some names" using o(6) l by auto
    moreover have "np_Allow p \<noteq> None" using n l p(1) by (simp add: net_normal_def)
    ultimately show ?thesis using chosen_allow_Inr [of lr p "items allow" pol names] p(3) by (cases "np_Allow p") auto
  qed
  moreover have "np_Allow out = np_Allow p" if "mode = ''none'' \<or> mode = ''open''" using o(5) [OF that] p(3,5) by (cases "np_Allow p") auto
  moreover have "np_Deny out = np_Deny p" using o(3,4) n p(1,2) by (cases "mode = ''none''") (auto simp: net_normal_def)
  ultimately show ?thesis using o(1,2) p(1,4) by (cases out; cases p) auto
qed

lemma resolved_is_normal:
  assumes r: "resolveNetwork lr (Some q) pol = Inr out" and d: "np_Allow q = None \<Longrightarrow> normalizeNames lr ''allow'' (Some (defaultAllow pol)) = Inr (Some (defaultAllow pol))"
  shows "net_normal lr out"
proof -
  from r obtain mode deny allow where m: "0 \<le> NetworkRank mode"
    "normalizeNames lr ''deny'' (np_Deny q) = Inr deny" "normalizeNames lr ''allow'' (np_Allow q) = Inr allow" "resolve_named lr q mode deny allow pol = Inr out"
    by (rule resolveNetwork_Some)
  note o = resolve_named_Inr [OF m(4)]
  have none: "normalizeNames lr f None = Inr None" for f by (simp add: normalizeNames_def append_slice_def)
  have modes: "mode = ''none'' \<or> mode = ''allowlist'' \<or> mode = ''open''" using m(1) by (simp add: NetworkRank_cases)
  have "normalizeNames lr ''deny'' (np_Deny out) = Inr (np_Deny out)"
    using o(3,4) normalizeNames_twice [OF m(2)] none by (cases "mode = ''none''") auto
  moreover have "normalizeNames lr ''allow'' (np_Allow out) = Inr (np_Allow out)"
  proof (cases "mode = ''allowlist''")
    case True
    then obtain names where n: "chosen_allow lr q (items allow) pol = Inr names" "names \<noteq> []" "np_Allow out = Some names" using o(6) by auto
    show ?thesis
    proof (cases "np_Allow q")
      case None
      then show ?thesis using chosen_allow_Inr [OF n(1)] n(3) d by auto
    next
      case (Some ns)
      then have "Some names = allow" using chosen_allow_Inr [OF n(1)] n(2) by (cases allow) auto
      then show ?thesis using normalizeNames_twice [OF m(3)] n(3) by simp
    qed
  next
    case False
    then show ?thesis using o(5) modes none by auto
  qed
  ultimately show ?thesis using o modes by (auto simp: net_normal_def)
qed

lemma taken_distinct:
  "distinct (map de_Name des) \<Longrightarrow> distinct (map fst (taken_of (map (restore_entry cf now kept) des)))"
proof (induction des)
  case (Cons de des)
  have "sid \<notin> fst ` set (taken_of (map (restore_entry cf now kept) des))" if t: "restore_entry cf now kept de = Taken sid r procs" for sid r procs
  proof
    assume "sid \<in> fst ` set (taken_of (map (restore_entry cf now kept) des))"
    then obtain r' procs' where "(sid, r', procs') \<in> set (taken_of (map (restore_entry cf now kept) des))" by auto
    then obtain de' where "de' \<in> set des" "restore_entry cf now kept de' = Taken sid r' procs'" by (auto simp: taken_of_iff)
    then have "de_Name de' = de_Name de" using t by (simp add: restore_entry_Taken)
    then show False using Cons.prems \<open>de' \<in> set des\<close> by (metis image_eqI list.set_map distinct.simps(2) list.simps(9))
  qed
  then show ?case using Cons by (cases "restore_entry cf now kept de") auto
qed simp

lemma Restore_records:
  assumes "Restore cf now kept dir = Inr x" "rd_Path dir \<noteq> []"
  obtains perm des where "rd_Perm dir = Some perm" "perm mod 64 = 0" "rd_Entries dir = Some des" "restore_records cf now kept des = x"
  using assms by (auto simp: Restore_def split: if_split_asm option.split_asm)

lemma restored_distinct: "restore_records cf now kept des = (again, ended) \<Longrightarrow> distinct (map de_Name des) \<Longrightarrow> distinct (map fst again)"
  using taken_distinct [of des cf now kept] by (auto simp: restore_records_def Let_def)

text \<open>
  C28: A server that starts with a records directory, which only its user may use, takes back a machine its backend kept only if it has a
  readable record of its own and a network policy the operator's policy of today allows; every other machine that was kept it has the
  backend terminate. What is taken back has its record's id, and a network policy that is in the form the server
  gives one is within the policy of today. Size, lifetime and idle limits are not looked at again.
\<close>

theorem restored_are_matched:
  assumes "Restore cf now kept dir = Inr (again, ended)" "rd_Path dir \<noteq> []" "rd_Entries dir = Some des" "distinct (map de_Name des)"
  shows "(\<exists>perm. rd_Perm dir = Some perm \<and> perm mod 64 = 0) \<and>
    distinct (map fst again) \<and> fst ` set kept = fst ` set again \<union> set ended \<and> fst ` set again \<inter> set ended = {} \<and>
    (\<forall>sid r procs. (sid, r, procs) \<in> set again \<longrightarrow> ValidID sid \<and> b_ID (r_sbx r) = sid \<and>
       (\<exists>de kr. de \<in> set des \<and> de_Name de = recordPath sid \<and> de_Regular de \<and> de_Record de = Some kr \<and> b_ID (kr_Sandbox kr) = sid \<and> 0 \<le> kr_NextPID kr \<and>
          b_Network (r_sbx r) = b_Network (kr_Sandbox kr)) \<and>
       (\<exists>net. resolveNetwork (cf_lower cf) (Some (b_Network (r_sbx r))) (p_Network (cf_Policy cf)) = Inr net) \<and>
       (net_normal (cf_lower cf) (b_Network (r_sbx r)) \<longrightarrow> network_within (cf_lower cf) (p_Network (cf_Policy cf)) (b_Network (r_sbx r))))"
proof -
  obtain perm where perm: "rd_Perm dir = Some perm" "perm mod 64 = 0" and rr: "restore_records cf now kept des = (again, ended)"
    by (rule Restore_records [OF assms(1,2)]) (simp add: assms(3))
  then have again: "again = taken_of (map (restore_entry cf now kept) des)" "ended = filter (\<lambda>sid. sid \<notin> fst ` set again) (map fst kept)"
    by (auto simp: restore_records_def Let_def)
  have mem: "(sid, r, procs) \<in> set again \<longleftrightarrow> (\<exists>de \<in> set des. restore_entry cf now kept de = Taken sid r procs)" for sid r procs
    unfolding again(1) taken_of_iff by (auto simp: image_iff) metis
  have ids: "sid \<in> fst ` set again \<longleftrightarrow> (\<exists>de \<in> set des. \<exists>r procs. restore_entry cf now kept de = Taken sid r procs)" for sid
    using mem by (force simp: image_iff)
  have key: "(\<exists>b. map_of kept sid = Some b) \<longleftrightarrow> sid \<in> fst ` set kept" for sid
    by (metis map_of_eq_None_iff not_Some_eq)
  have sub: "fst ` set again \<subseteq> fst ` set kept" using ids key by (force simp: restore_entry_Taken)
  have taken: "ValidID sid \<and> b_ID (r_sbx r) = sid \<and>
       (\<exists>de kr. de \<in> set des \<and> de_Name de = recordPath sid \<and> de_Regular de \<and> de_Record de = Some kr \<and> b_ID (kr_Sandbox kr) = sid \<and> 0 \<le> kr_NextPID kr \<and>
          b_Network (r_sbx r) = b_Network (kr_Sandbox kr)) \<and>
       (\<exists>net. resolveNetwork (cf_lower cf) (Some (b_Network (r_sbx r))) (p_Network (cf_Policy cf)) = Inr net) \<and>
       (net_normal (cf_lower cf) (b_Network (r_sbx r)) \<longrightarrow> network_within (cf_lower cf) (p_Network (cf_Policy cf)) (b_Network (r_sbx r)))"
    if t: "(sid, r, procs) \<in> set again" for sid r procs
  proof -
    obtain de kr suspended net where k: "de \<in> set des" "de_Name de = recordPath sid" "ValidID sid" "de_Regular de" "de_Record de = Some kr"
      "b_ID (kr_Sandbox kr) = sid" "0 \<le> kr_NextPID kr" "r = taken_back now suspended kr"
      "resolveNetwork (cf_lower cf) (Some (b_Network (kr_Sandbox kr))) (p_Network (cf_Policy cf)) = Inr net"
      using t by (auto simp: mem restore_entry_Taken ResolveNetworkUpdate_def)
    have r: "b_Network (r_sbx r) = b_Network (kr_Sandbox kr)" "b_ID (r_sbx r) = sid" using k by (simp_all add: taken_back_def Let_def)
    have "net_normal (cf_lower cf) (b_Network (r_sbx r)) \<longrightarrow> network_within (cf_lower cf) (p_Network (cf_Policy cf)) (b_Network (r_sbx r))"
      using resolveNetwork_within [OF k(9)] normal_resolves_to_itself [OF _ k(9)] r(1) by auto
    then show ?thesis using k r by auto
  qed
  have dist: "distinct (map fst again)" by (rule restored_distinct [OF rr assms(4)])
  have "fst ` set kept = fst ` set again \<union> set ended" "fst ` set again \<inter> set ended = {}" using sub again(2) by auto
  then show ?thesis using dist perm by (intro conjI allI impI exI [of _ perm]) (simp_all only: taken)
qed

text \<open>
  C29: A sandbox comes through a restart as it was. When the server wrote its record while the sandbox was live, the backend
  kept its machine, the next server can read the directory and the policy of today still allows its network, the next server serves it under the
  same id and name with the same labels, volumes, GPUs, size, environment and lifetime and the same network policy up to what JSON does to an empty
  deny list, and gives no process a number that was used before.
\<close>

theorem sandbox_comes_through_restart:
  assumes "Restore cf now kept dir = Inr (again, ended)" "rd_Path dir \<noteq> []" "rd_Entries dir = Some des" "distinct (map de_Name des)"
    and files: "\<And>name kr. disk name = Some kr \<Longrightarrow> \<exists>de \<in> set des. de_Name de = name \<and> de_Regular de \<and> de_Record de = Some kr"
    and written: "disk = persist procs r earlier" "live (r_sbx r)" "ValidID (b_ID (r_sbx r))"
    and here: "(b_ID (r_sbx r), suspended) \<in> set kept" "distinct (map fst kept)"
    and allowed: "resolveNetwork (cf_lower cf) (Some (json_network (b_Network (r_sbx r)))) (p_Network (cf_Policy cf)) = Inr net"
  shows "\<exists>q. map_of again (b_ID (r_sbx r)) = Some (q, procs) \<and>
    b_State (r_sbx q) = (if suspended then Suspended else Running) \<and> b_Name (r_sbx q) = b_Name (r_sbx r) \<and> b_Labels (r_sbx q) = b_Labels (r_sbx r) \<and>
    b_Volumes (r_sbx q) = b_Volumes (r_sbx r) \<and> b_GPUs (r_sbx q) = b_GPUs (r_sbx r) \<and> b_CPUs (r_sbx q) = b_CPUs (r_sbx r) \<and>
    b_MemoryMB (r_sbx q) = b_MemoryMB (r_sbx r) \<and> b_DiskMB (r_sbx q) = b_DiskMB (r_sbx r) \<and> b_Network (r_sbx q) = json_network (b_Network (r_sbx r)) \<and>
    b_LifetimeSecs (r_sbx q) = b_LifetimeSecs (r_sbx r) \<and> b_ExpiresAt (r_sbx q) = b_ExpiresAt (r_sbx r) \<and>
    r_env q = r_env r \<and> r_nextPID q = r_nextPID r"
proof -
  let ?sid = "b_ID (r_sbx r)" and ?kr = "json_record \<lparr>kr_Sandbox = r_sbx r, kr_Env = r_env r, kr_NextPID = int (r_nextPID r), kr_Procs = procs\<rparr>"
  let ?q = "taken_back now suspended ?kr"
  have rr: "restore_records cf now kept des = (again, ended)" by (rule Restore_records [OF assms(1,2)]) (simp add: assms(3))
  have "disk (recordPath ?sid) = Some ?kr" using written by (auto simp: persist_def Let_def live_def)
  then obtain de where de: "de \<in> set des" "de_Name de = recordPath ?sid" "de_Regular de" "de_Record de = Some ?kr" using files by blast
  have "map_of kept ?sid = Some suspended" using map_of_is_SomeI [OF here(2,1)] .
  then have "restore_entry cf now kept de = Taken ?sid ?q procs"
    using de written(3) allowed unfolding restore_entry_Taken by (intro conjI exI [of _ ?kr] exI [of _ suspended]) (auto simp: ResolveNetworkUpdate_def json_record_def)
  then have "Taken ?sid ?q procs \<in> set (map (restore_entry cf now kept) des)" using de(1) by (metis image_eqI list.set_map)
  then have "(?sid, ?q, procs) \<in> set again" using rr by (auto simp: restore_records_def Let_def taken_of_iff simp del: set_map)
  moreover have "distinct (map fst again)" using restored_distinct [OF rr assms(4)] .
  ultimately have "map_of again ?sid = Some (?q, procs)" by (intro map_of_is_SomeI) simp_all
  then show ?thesis by (intro exI [of _ ?q]) (simp add: taken_back_def Let_def json_record_def)
qed

subsection \<open>A restart\<close>

definition demo_id :: bytes where
  "demo_id = ''sbx_0123456789abcdef''"

definition demo_rec :: rec where
  "demo_rec = \<lparr>r_sbx = \<lparr>b_ID = demo_id, b_Name = ''web'', b_State = Suspended, b_Image = ''img'', b_CPUs = Fin 1, b_MemoryMB = 1024,
     b_DiskMB = 10240, b_EnvNames = [''A''], b_Network = zero_network\<lparr>np_Mode := ''none''\<rparr>, b_CreatedAt = 0, b_IdleTimeoutSecs = 0, b_IdleAction = ''suspend'',
     b_IdleSuspended = True, b_LifetimeSecs = 60, b_ExpiresAt = Some 60, b_SnapshotEverySecs = 0, b_SnapshotKeep = 0, b_Snapshotting = False,
     b_Labels = [(''k'', ''v'')], b_Volumes = [demo_mount], b_GPUs = []\<rparr>, r_env = [(''A'', ''1'')], r_procs = [], r_nextPID = 3, r_lastActive = 0,
     r_lastScheduled = 0, r_snapshotting = False\<rparr>"

definition demo_dir :: "dirent list" where
  "demo_dir = [\<lparr>de_Name = recordPath demo_id, de_Regular = True, de_Record = persist [] demo_rec Map.empty (recordPath demo_id)\<rparr>,
     \<lparr>de_Name = ''.record-7'', de_Regular = True, de_Record = None\<rparr>]"

definition demo_records :: records_dir where
  "demo_records = \<lparr>rd_Path = ''/var/lib/sandboxd/records'', rd_Made = True, rd_Perm = Some 448, rd_Entries = Some demo_dir\<rparr>"

lemma demo_restores:
  obtains again ended where "Restore cf now kept demo_records = Inr (again, ended)" "rd_Path demo_records \<noteq> []" "rd_Entries demo_records = Some demo_dir"
  by (cases "restore_records cf now kept demo_dir") (auto simp: Restore_def demo_records_def)

lemma demo_dir_files:
  assumes "persist [] demo_rec Map.empty name = Some kr"
  shows "\<exists>de \<in> set demo_dir. de_Name de = name \<and> de_Regular de \<and> de_Record de = Some kr"
proof -
  have "name = recordPath demo_id" using assms by (auto simp: persist_def Let_def demo_rec_def split: if_split_asm)
  then show ?thesis using assms by (auto simp: demo_dir_def)
qed

theorem restored_are_matched_witness:
  "\<exists>again ended. Restore demo_cf 9 [(demo_id, True), (''sbx_other'', False)] demo_records = Inr (again, ended) \<and> ended = [''sbx_other''] \<and> fst ` set again = {demo_id}"
proof -
  let ?kept = "[(demo_id, True), (''sbx_other'', False)]"
  obtain again ended where r: "Restore demo_cf 9 ?kept demo_records = Inr (again, ended)" "rd_Path demo_records \<noteq> []" "rd_Entries demo_records = Some demo_dir"
    by (rule demo_restores)
  have d: "distinct (map de_Name demo_dir)" by code_simp
  have "snd (restore_records demo_cf 9 ?kept demo_dir) = [''sbx_other'']" by code_simp
  then have e: "ended = [''sbx_other'']" using r(1) by (simp add: Restore_def demo_records_def)
  have parts: "fst ` set ?kept = fst ` set again \<union> set ended \<and> fst ` set again \<inter> set ended = {}"
    using restored_are_matched [OF r d] by (elim conjE) (rule conjI)
  have "X = {a :: bytes}" if "{a, b} = X \<union> {b}" "X \<inter> {b} = {}" "a \<noteq> b" for a b X using that by blast
  from this [of demo_id "''sbx_other''" "fst ` set again"] have "fst ` set again = {demo_id}"
    using parts by (simp add: e demo_id_def)
  then show ?thesis using r e by blast
qed

theorem sandbox_comes_through_restart_witness:
  "\<exists>again ended q. Restore demo_cf 9 [(demo_id, True)] demo_records = Inr (again, ended) \<and> map_of again demo_id = Some (q, []) \<and>
     b_State (r_sbx q) = Suspended \<and> b_Volumes (r_sbx q) = [demo_mount] \<and> r_nextPID q = 3"
proof -
  obtain again ended where r: "Restore demo_cf 9 [(demo_id, True)] demo_records = Inr (again, ended)" "rd_Path demo_records \<noteq> []" "rd_Entries demo_records = Some demo_dir"
    by (rule demo_restores)
  have d: "distinct (map de_Name demo_dir)" by code_simp
  have v: "live (r_sbx demo_rec)" "ValidID (b_ID (r_sbx demo_rec))" by code_simp+
  have k: "(b_ID (r_sbx demo_rec), True) \<in> set [(demo_id, True)]" "distinct (map fst [(demo_id, True)])" by (simp_all add: demo_rec_def)
  have "result_holds (\<lambda>_. True) (resolveNetwork (cf_lower demo_cf) (Some (json_network (b_Network (r_sbx demo_rec)))) (p_Network (cf_Policy demo_cf)))" by code_simp
  then obtain net where n: "resolveNetwork (cf_lower demo_cf) (Some (json_network (b_Network (r_sbx demo_rec)))) (p_Network (cf_Policy demo_cf)) = Inr net"
    unfolding result_holds_iff by blast
  show ?thesis
    using sandbox_comes_through_restart [OF r d demo_dir_files refl v k n] r by (auto simp: demo_rec_def)
qed

end
