(* ===== verification/Server_Snapshots.thy ===== *)
theory Server_Snapshots
  imports Server_Sandbox
begin

text \<open>
  Snapshots of the sandbox server (\<open>internal/server/lifecycle.go\<close>, \<open>schedule.go\<close>): taking one by request or by a
  sandbox's schedule, deleting one, the schedule itself and its retention. The state is the records, the
  snapshots and the goroutines in between their critical sections; the backend's capture is part of the
  step. What a snapshot's progress shows is reduced to whether one is being taken.
\<close>

subsection \<open>Retention\<close>

text \<open>\<open>pruneScheduled\<close>: the sandbox's scheduled snapshots, newest first, equal times in an order the sort chooses.\<close>

definition scheduled_of :: "bytes \<Rightarrow> (bytes \<times> snapshot) list \<Rightarrow> snapshot list" where
  "scheduled_of sid snaps = filter (\<lambda>s. sn_Scheduled s \<and> sn_Sandbox s = sid) (map snd snaps)"

definition newest_first :: "bytes \<Rightarrow> (bytes \<times> snapshot) list \<Rightarrow> snapshot list \<Rightarrow> bool" where
  "newest_first sid snaps mine \<longleftrightarrow> mset mine = mset (scheduled_of sid snaps) \<and> sorted (map (\<lambda>s. - sn_CreatedAt s) mine)"

definition pruneScheduled :: "snapshot list \<Rightarrow> int \<Rightarrow> (bytes \<times> snapshot) list \<Rightarrow> (bytes \<times> snapshot) list" where
  "pruneScheduled mine keep snaps = filter (\<lambda>(k, _). k \<notin> sn_ID ` set (drop (nat keep) mine)) snaps"

subsection \<open>Taking a snapshot\<close>

definition takeSnapshot_check :: "config \<Rightarrow> sandbox \<Rightarrow> refusal option" where
  "takeSnapshot_check cf sb =
    (if \<not> cf_Snapshotter cf then Some unsupported
     else if b_Volumes sb \<noteq> [] then Some conflict
     else if b_GPUs sb \<noteq> [] then Some unsupported
     else if b_Snapshotting sb then Some conflict
     else None)"

definition createSnapshot_check :: "config \<Rightarrow> sandbox \<Rightarrow> refusal option" where
  "createSnapshot_check cf sb =
    (if \<not> cf_Snapshotter cf \<or> \<not> canSnapshot (cf_caps cf) then Some unsupported
     else if b_State sb \<noteq> Running then Some conflict
     else takeSnapshot_check cf sb)"

text \<open>What the backend answers: the kind (empty is a memory snapshot) and what the sandbox was made of.\<close>

record snapshot_info =
  si_Kind :: bytes
  si_Image :: bytes
  si_CPUs :: f64
  si_MemoryMB :: int
  si_DiskMB :: int

definition new_snapshot :: "bytes \<Rightarrow> bytes \<Rightarrow> bool \<Rightarrow> int \<Rightarrow> snapshot_info \<Rightarrow> snapshot" where
  "new_snapshot sid sandbox scheduled now info = \<lparr>sn_ID = sid, sn_Sandbox = sandbox,
     sn_Kind = (if si_Kind info = [] then ''memory'' else si_Kind info), sn_Scheduled = scheduled, sn_CreatedAt = now,
     sn_Image = si_Image info, sn_CPUs = si_CPUs info, sn_MemoryMB = si_MemoryMB info, sn_DiskMB = si_DiskMB info\<rparr>"

definition deleteSnapshot :: "bytes \<Rightarrow> (bytes \<times> snapshot) list \<Rightarrow> (refusal, (bytes \<times> snapshot) list) result" where
  "deleteSnapshot sid snaps = (if map_of snaps sid = None then Inl not_found else Inr (filter (\<lambda>(k, _). k \<noteq> sid) snaps))"

subsection \<open>The schedule\<close>

definition setSchedule_check :: "config \<Rightarrow> SnapshotSchedule \<Rightarrow> sandbox \<Rightarrow> (refusal, SnapshotSchedule) result" where
  "setSchedule_check cf req sb =
    and_then (case ResolveSchedule req (p_Limits (cf_Policy cf)) of Inl e \<Rightarrow> Inl (spec_refusal e) | Inr s \<Rightarrow> Inr s) (\<lambda>sched.
    if b_State sb \<noteq> Running then Inl conflict
    else unless_err (scheduleRefusal cf (sc_EverySecs sched) (b_Volumes sb)) (
      if sc_EverySecs sched > 0 \<and> b_GPUs sb \<noteq> [] then Inl unsupported else Inr sched))"

definition with_schedule :: "SnapshotSchedule \<Rightarrow> int \<Rightarrow> rec \<Rightarrow> rec" where
  "with_schedule sched now r = r\<lparr>r_sbx := (r_sbx r)\<lparr>b_SnapshotEverySecs := sc_EverySecs sched, b_SnapshotKeep := sc_Keep sched\<rparr>,
     r_lastScheduled := now\<rparr>"

definition schedule_due :: "int \<Rightarrow> rec \<Rightarrow> bool" where
  "schedule_due now r \<longleftrightarrow> b_SnapshotEverySecs (r_sbx r) * second > 0 \<and> b_State (r_sbx r) = Running \<and> \<not> r_snapshotting r \<and>
     \<not> b_Snapshotting (r_sbx r) \<and> now - r_lastScheduled r \<ge> b_SnapshotEverySecs (r_sbx r) * second"

subsection \<open>Goroutines\<close>

text \<open>
  A goroutine between two critical sections: a scheduled snapshot that is due, one being captured, one that
  has been (or has failed), the end of \<open>scheduledSnapshot\<close>, and a retention still to be applied. The flag says
  whether the schedule took it.
\<close>

datatype snap_op = Due_op nat | Capturing nat bool | Captured nat bool bool | Closing nat bool | Prune bytes int

record snap_state =
  z_recs :: "rec list"
  z_snaps :: "(bytes \<times> snapshot) list"
  z_ops :: "snap_op list"

abbreviation z_rec :: "snap_state \<Rightarrow> nat \<Rightarrow> rec" where
  "z_rec z p \<equiv> z_recs z ! p"

definition z_upd :: "nat \<Rightarrow> (rec \<Rightarrow> rec) \<Rightarrow> snap_state \<Rightarrow> snap_state" where
  "z_upd p f z = z\<lparr>z_recs := (z_recs z)[p := f (z_rec z p)]\<rparr>"

definition z_become :: "snap_op \<Rightarrow> snap_op list \<Rightarrow> snap_state \<Rightarrow> snap_state" where
  "z_become x ys z = z\<lparr>z_ops := ys @ remove1 x (z_ops z)\<rparr>"

definition set_taking :: "bool \<Rightarrow> rec \<Rightarrow> rec" where
  "set_taking b r = r\<lparr>r_sbx := (r_sbx r)\<lparr>b_Snapshotting := b\<rparr>\<rparr>"

definition snapshot_asked :: "nat \<Rightarrow> snap_state \<Rightarrow> snap_state" where
  "snapshot_asked p z = (z_upd p (set_taking True) z)\<lparr>z_ops := Capturing p False # z_ops z\<rparr>"

definition scheduleTick_one :: "nat \<Rightarrow> snap_state \<Rightarrow> snap_state" where
  "scheduleTick_one p z = (z_upd p (\<lambda>r. r\<lparr>r_snapshotting := True\<rparr>) z)\<lparr>z_ops := Due_op p # z_ops z\<rparr>"

definition scheduled_begins :: "config \<Rightarrow> nat \<Rightarrow> snap_state \<Rightarrow> snap_state" where
  "scheduled_begins cf p z =
    (if takeSnapshot_check cf (r_sbx (z_rec z p)) = None
     then z_become (Due_op p) [Capturing p True] (z_upd p (set_taking True) z)
     else z_become (Due_op p) [Closing p False] z)"

definition capture_ends :: "nat \<Rightarrow> bool \<Rightarrow> (bytes \<times> snapshot_info) option \<Rightarrow> int \<Rightarrow> snap_state \<Rightarrow> snap_state" where
  "capture_ends p sch result now z = (case result of
      None \<Rightarrow> z_become (Capturing p sch) [Captured p sch False] z
    | Some (sid, info) \<Rightarrow> z_become (Capturing p sch) [Captured p sch True]
        (z\<lparr>z_snaps := z_snaps z @ [(sid, new_snapshot sid (b_ID (r_sbx (z_rec z p))) sch now info)]\<rparr>))"

definition take_returns :: "nat \<Rightarrow> bool \<Rightarrow> bool \<Rightarrow> snap_state \<Rightarrow> snap_state" where
  "take_returns p sch ok z = z_become (Captured p sch ok) (if sch then [Closing p ok] else []) (z_upd p (set_taking False) z)"

definition scheduled_ends :: "nat \<Rightarrow> bool \<Rightarrow> int \<Rightarrow> snap_state \<Rightarrow> snap_state" where
  "scheduled_ends p ok now z =
    z_become (Closing p ok) (if ok then [Prune (b_ID (r_sbx (z_rec z p))) (b_SnapshotKeep (r_sbx (z_rec z p)))] else [])
      (z_upd p (\<lambda>r. r\<lparr>r_lastScheduled := now, r_snapshotting := False\<rparr>) z)"

definition prune_now :: "bytes \<Rightarrow> int \<Rightarrow> snapshot list \<Rightarrow> snap_state \<Rightarrow> snap_state" where
  "prune_now sid keep mine z = z_become (Prune sid keep) [] (z\<lparr>z_snaps := pruneScheduled mine keep (z_snaps z)\<rparr>)"

definition schedule_set :: "nat \<Rightarrow> SnapshotSchedule \<Rightarrow> int \<Rightarrow> snap_state \<Rightarrow> snap_state" where
  "schedule_set p sched now z =
    (z_upd p (with_schedule sched now) z)\<lparr>z_ops := Prune (b_ID (r_sbx (z_rec z p))) (sc_Keep sched) # z_ops z\<rparr>"

text \<open>
  \<open>old\<close> is the sandbox as a request read it before it took the record's lock. Other requests change a record's
  state, and more sandboxes come; neither touches the snapshot marks.
\<close>

inductive zstep :: "config \<Rightarrow> snap_state \<Rightarrow> snap_state \<Rightarrow> bool" for cf where
  z_ask: "p < length (z_recs z) \<Longrightarrow> createSnapshot_check cf old = None \<Longrightarrow> \<not> b_Snapshotting (r_sbx (z_rec z p)) \<Longrightarrow> zstep cf z (snapshot_asked p z)"
| z_tick: "p < length (z_recs z) \<Longrightarrow> schedule_due now (z_rec z p) \<Longrightarrow> zstep cf z (scheduleTick_one p z)"
| z_begin: "Due_op p \<in> set (z_ops z) \<Longrightarrow> zstep cf z (scheduled_begins cf p z)"
| z_capture: "Capturing p sch \<in> set (z_ops z) \<Longrightarrow> (\<And>sid info. result = Some (sid, info) \<Longrightarrow> sid \<notin> fst ` set (z_snaps z)) \<Longrightarrow>
    zstep cf z (capture_ends p sch result now z)"
| z_return: "Captured p sch ok \<in> set (z_ops z) \<Longrightarrow> zstep cf z (take_returns p sch ok z)"
| z_end: "Closing p ok \<in> set (z_ops z) \<Longrightarrow> zstep cf z (scheduled_ends p ok now z)"
| z_prune: "Prune sid keep \<in> set (z_ops z) \<Longrightarrow> newest_first sid (z_snaps z) mine \<Longrightarrow> zstep cf z (prune_now sid keep mine z)"
| z_set: "p < length (z_recs z) \<Longrightarrow> setSchedule_check cf req old = Inr sched \<Longrightarrow> zstep cf z (schedule_set p sched now z)"
| z_delete: "deleteSnapshot sid (z_snaps z) = Inr snaps \<Longrightarrow> zstep cf z (z\<lparr>z_snaps := snaps\<rparr>)"
| z_state: "p < length (z_recs z) \<Longrightarrow> zstep cf z (z_upd p (\<lambda>r. r\<lparr>r_sbx := (r_sbx r)\<lparr>b_State := st\<rparr>\<rparr>) z)"
| z_new: "\<not> b_Snapshotting (r_sbx r) \<Longrightarrow> \<not> r_snapshotting r \<Longrightarrow> zstep cf z (z\<lparr>z_recs := z_recs z @ [r]\<rparr>)"

definition z0 :: snap_state where
  "z0 = \<lparr>z_recs = [], z_snaps = [], z_ops = []\<rparr>"

section \<open>One snapshot at a time\<close>

fun takes :: "nat \<Rightarrow> snap_op \<Rightarrow> bool" where
  "takes p (Capturing q _) \<longleftrightarrow> q = p"
| "takes p (Captured q _ _) \<longleftrightarrow> q = p"
| "takes p _ \<longleftrightarrow> False"

fun runs_schedule :: "nat \<Rightarrow> snap_op \<Rightarrow> bool" where
  "runs_schedule p (Due_op q) \<longleftrightarrow> q = p"
| "runs_schedule p (Capturing q sch) \<longleftrightarrow> q = p \<and> sch"
| "runs_schedule p (Captured q sch _) \<longleftrightarrow> q = p \<and> sch"
| "runs_schedule p (Closing q _) \<longleftrightarrow> q = p"
| "runs_schedule p (Prune _ _) \<longleftrightarrow> False"

fun op_rec :: "snap_op \<Rightarrow> nat option" where
  "op_rec (Due_op p) = Some p"
| "op_rec (Capturing p _) = Some p"
| "op_rec (Captured p _ _) = Some p"
| "op_rec (Closing p _) = Some p"
| "op_rec (Prune _ _) = None"

definition many :: "(snap_op \<Rightarrow> bool) \<Rightarrow> snap_state \<Rightarrow> nat" where
  "many P z = length (filter P (z_ops z))"

definition taking_mark :: "snap_state \<Rightarrow> nat \<Rightarrow> nat" where
  "taking_mark z p = (if p < length (z_recs z) \<and> b_Snapshotting (r_sbx (z_rec z p)) then 1 else 0)"

definition schedule_mark :: "snap_state \<Rightarrow> nat \<Rightarrow> nat" where
  "schedule_mark z p = (if p < length (z_recs z) \<and> r_snapshotting (z_rec z p) then 1 else 0)"

definition snaps_ok :: "(bytes \<times> snapshot) list \<Rightarrow> bool" where
  "snaps_ok snaps \<longleftrightarrow> distinct (map fst snaps) \<and> (\<forall>(k, s) \<in> set snaps. sn_ID s = k)"

definition z_ok :: "snap_state \<Rightarrow> bool" where
  "z_ok z \<longleftrightarrow> (\<forall>p. many (takes p) z = taking_mark z p \<and> many (runs_schedule p) z = schedule_mark z p) \<and> snaps_ok (z_snaps z)"

lemma many_become:
  assumes "x \<in> set (z_ops z)"
  shows "many P (z_become x ys z) = length (filter P ys) + many P z - (if P x then 1 else 0)"
proof -
  have "length (filter P (remove1 x (z_ops z))) = many P z - (if P x then 1 else 0)"
    using assms by (auto simp: many_def filter_remove1 length_remove1)
  moreover have "P x \<Longrightarrow> many P z \<ge> 1"
    using assms by (auto simp: many_def Suc_le_eq filter_empty_conv)
  ultimately show ?thesis by (auto simp: many_def z_become_def)
qed

lemma z_upd_fields [simp]:
  "z_ops (z_upd p f z) = z_ops z" "z_snaps (z_upd p f z) = z_snaps z" "length (z_recs (z_upd p f z)) = length (z_recs z)"
  by (simp_all add: z_upd_def)

lemma z_become_fields [simp]: "z_recs (z_become x ys z) = z_recs z" "z_snaps (z_become x ys z) = z_snaps z"
  by (simp_all add: z_become_def)

lemma many_cons: "z_ops z' = x # z_ops z \<Longrightarrow> many P z' = (if P x then 1 else 0) + many P z"
  by (simp add: many_def)

lemma many_cong: "z_ops z' = z_ops z \<Longrightarrow> many P z' = many P z"
  by (simp add: many_def)

lemma many_pos: "x \<in> set (z_ops z) \<Longrightarrow> P x \<Longrightarrow> many P z \<noteq> 0"
  by (auto simp: many_def filter_empty_conv)

lemma set_taking_fields [simp]: "b_Snapshotting (r_sbx (set_taking b r)) = b" "r_snapshotting (set_taking b r) = r_snapshotting r"
  by (simp_all add: set_taking_def)

lemma op_in_range:
  assumes "z_ok z" "x \<in> set (z_ops z)"
  shows "takes p x \<Longrightarrow> p < length (z_recs z) \<and> b_Snapshotting (r_sbx (z_rec z p))"
    and "runs_schedule p x \<Longrightarrow> p < length (z_recs z) \<and> r_snapshotting (z_rec z p)"
  using assms many_pos [OF assms(2), of "takes p"] many_pos [OF assms(2), of "runs_schedule p"]
  by (auto simp: z_ok_def taking_mark_def schedule_mark_def split: if_splits)

text \<open>A step that changes one record and the goroutines about it.\<close>

lemma z_ok_change:
  assumes ok: "z_ok z" and recs: "z_recs z' = (z_recs z)[p := r]" and snaps: "snaps_ok (z_snaps z')"
    and "\<And>q. q \<noteq> p \<Longrightarrow> many (takes q) z' = many (takes q) z" "\<And>q. q \<noteq> p \<Longrightarrow> many (runs_schedule q) z' = many (runs_schedule q) z"
    and "p < length (z_recs z) \<Longrightarrow> many (takes p) z' = (if b_Snapshotting (r_sbx r) then 1 else 0)"
      "p < length (z_recs z) \<Longrightarrow> many (runs_schedule p) z' = (if r_snapshotting r then 1 else 0)"
    and p: "p < length (z_recs z)"
  shows "z_ok z'"
proof -
  have "many (takes q) z' = taking_mark z' q \<and> many (runs_schedule q) z' = schedule_mark z' q" for q
  proof (cases "q = p")
    case True
    then show ?thesis using assms(6,7) p by (simp add: taking_mark_def schedule_mark_def recs)
  next
    case False
    then have "taking_mark z' q = taking_mark z q" "schedule_mark z' q = schedule_mark z q"
      by (simp_all add: taking_mark_def schedule_mark_def recs)
    then show ?thesis using False assms(4,5) ok by (simp add: z_ok_def)
  qed
  then show ?thesis using snaps by (simp add: z_ok_def)
qed

lemma z_ok_snaps: "z_ok z \<Longrightarrow> snaps_ok snaps \<Longrightarrow> z_ok (z\<lparr>z_snaps := snaps\<rparr>)"
  by (simp add: z_ok_def many_def taking_mark_def schedule_mark_def)

lemma z_ok_prune_op: "z_ok z \<Longrightarrow> z_ok (z\<lparr>z_ops := Prune sid keep # z_ops z\<rparr>)"
  by (simp add: z_ok_def many_def taking_mark_def schedule_mark_def)

lemma snaps_ok_filter: "snaps_ok snaps \<Longrightarrow> snaps_ok (filter P snaps)"
  by (auto simp: snaps_ok_def distinct_map_filter)

lemma snaps_ok_insert: "snaps_ok snaps \<Longrightarrow> sid \<notin> fst ` set snaps \<Longrightarrow> sn_ID s = sid \<Longrightarrow> snaps_ok (snaps @ [(sid, s)])"
  by (auto simp: snaps_ok_def)

lemma same_record: "p < length (z_recs z) \<Longrightarrow> z_recs z = (z_recs z)[p := z_rec z p]"
  by simp

lemma z_ok_step:
  assumes ok: "z_ok z" and s: "zstep cf z z'"
  shows "z_ok z'"
proof -
  have T: "p < length (z_recs z) \<Longrightarrow> many (takes p) z = (if b_Snapshotting (r_sbx (z_rec z p)) then 1 else 0)" for p
    using ok by (simp add: z_ok_def taking_mark_def)
  have R: "p < length (z_recs z) \<Longrightarrow> many (runs_schedule p) z = (if r_snapshotting (z_rec z p) then 1 else 0)" for p
    using ok by (simp add: z_ok_def schedule_mark_def)
  have S: "snaps_ok (z_snaps z)" using ok by (simp add: z_ok_def)
  show ?thesis using s
  proof cases
    case (z_ask p old)
    show ?thesis
      by (rule z_ok_change [OF ok, of _ p "set_taking True (z_rec z p)"])
        (use z_ask T R S in \<open>simp_all add: snapshot_asked_def z_upd_def many_def\<close>)
  next
    case (z_tick p now)
    show ?thesis
      by (rule z_ok_change [OF ok, of _ p "(z_rec z p)\<lparr>r_snapshotting := True\<rparr>"])
        (use z_tick T R S in \<open>simp_all add: scheduleTick_one_def z_upd_def many_def schedule_due_def\<close>)
  next
    case (z_begin p)
    have p: "p < length (z_recs z)" "r_snapshotting (z_rec z p)" using op_in_range(2) [OF ok z_begin(2)] by auto
    show ?thesis
    proof (cases "takeSnapshot_check cf (r_sbx (z_rec z p)) = None")
      case True
      then have "\<not> b_Snapshotting (r_sbx (z_rec z p))" by (simp add: takeSnapshot_check_def split: if_split_asm)
      then show ?thesis using True
        by (intro z_ok_change [OF ok, of _ p "set_taking True (z_rec z p)"])
          (use z_begin p T R S in \<open>simp_all add: scheduled_begins_def many_become many_cong [of "z_upd _ _ _"], simp_all add: z_upd_def\<close>)
    next
      case False
      then have e: "z' = z_become (Due_op p) [Closing p False] z" using z_begin(1) by (simp only: scheduled_begins_def if_False)
      show ?thesis
        by (rule z_ok_change [OF ok, of _ p "z_rec z p"]) (use e z_begin(2) p T R S in \<open>simp_all add: many_become\<close>)
    qed
  next
    case (z_return p sch ok')
    have p: "p < length (z_recs z)" "b_Snapshotting (r_sbx (z_rec z p))" "sch \<Longrightarrow> r_snapshotting (z_rec z p)"
      using op_in_range [OF ok z_return(2)] by auto
    show ?thesis
      by (rule z_ok_change [OF ok, of _ p "set_taking False (z_rec z p)"])
        (use z_return p T R S in \<open>simp_all add: take_returns_def many_become many_cong [of "z_upd _ _ _"], simp_all add: z_upd_def\<close>)
  next
    case (z_end p ok' now)
    have p: "p < length (z_recs z)" "r_snapshotting (z_rec z p)" using op_in_range [OF ok z_end(2)] by auto
    show ?thesis
      by (rule z_ok_change [OF ok, of _ p "(z_rec z p)\<lparr>r_lastScheduled := now, r_snapshotting := False\<rparr>"])
        (use z_end p T R S in \<open>simp_all add: scheduled_ends_def many_become many_cong [of "z_upd _ _ _"], simp_all add: z_upd_def\<close>)
  next
    case (z_set p req old sched now)
    have "z_ok (z_upd p (with_schedule sched now) z)"
      by (rule z_ok_change [OF ok, of _ p "with_schedule sched now (z_rec z p)"])
        (use z_set T R S in \<open>simp_all add: z_upd_def many_def with_schedule_def\<close>)
    then show ?thesis using z_ok_prune_op [of "z_upd p (with_schedule sched now) z"] by (simp add: z_set(1) schedule_set_def)
  next
    case (z_capture p sch result now)
    have p: "p < length (z_recs z)" using op_in_range [OF ok z_capture(2)] by auto
    have sn: "snaps_ok (z_snaps z')"
      using S z_capture(3) snaps_ok_insert by (auto simp: z_capture(1) capture_ends_def new_snapshot_def split: option.split)
    show ?thesis
      by (rule z_ok_change [OF ok, of _ p "z_rec z p"])
        (use z_capture(1,2) p T R sn in \<open>simp_all add: capture_ends_def many_become many_cong [of "z_snaps_update _ _"] split: option.splits\<close>)
  next
    case (z_prune sid keep mine)
    have "z_ok (z\<lparr>z_snaps := pruneScheduled mine keep (z_snaps z)\<rparr>)"
      unfolding pruneScheduled_def using z_ok_snaps [OF ok snaps_ok_filter [OF S]] .
    then show ?thesis using z_prune(2) by (simp add: z_prune(1) prune_now_def z_ok_def many_become taking_mark_def schedule_mark_def)
  next
    case (z_delete sid snaps)
    then show ?thesis using z_ok_snaps [OF ok snaps_ok_filter [OF S]] by (auto simp: deleteSnapshot_def split: if_split_asm)
  next
    case (z_state p st)
    show ?thesis
      by (rule z_ok_change [OF ok, of _ p "(z_rec z p)\<lparr>r_sbx := (r_sbx (z_rec z p))\<lparr>b_State := st\<rparr>\<rparr>"])
        (use z_state T R S in \<open>simp_all add: z_upd_def many_def\<close>)
  next
    case (z_new r)
    have "taking_mark z' p = taking_mark z p" "schedule_mark z' p = schedule_mark z p" for p
      using z_new by (auto simp: taking_mark_def schedule_mark_def nth_append less_Suc_eq)
    then show ?thesis using ok by (simp add: z_ok_def many_def z_new(1))
  qed
qed

lemma z_ok_init: "z_ok z0"
  by (simp add: z_ok_def z0_def many_def taking_mark_def schedule_mark_def snaps_ok_def)

interpretation snap_run: step_invariant "\<lambda>z. z = z0" "zstep cf" z_ok for cf
  by unfold_locales (auto intro: z_ok_init z_ok_step)

section \<open>Retention keeps the newest\<close>

lemma map_of_snaps: "snaps_ok snaps \<Longrightarrow> (k, s) \<in> set snaps \<Longrightarrow> (k, t) \<in> set snaps \<Longrightarrow> s = t"
  by (auto simp: snaps_ok_def dest: eq_key_imp_eq_value)

lemma ids_of_scheduled: "snaps_ok snaps \<Longrightarrow> distinct (map sn_ID (scheduled_of sid snaps))"
proof -
  assume ok: "snaps_ok snaps"
  have "map (sn_ID \<circ> snd) snaps = map fst snaps" using ok by (auto simp: snaps_ok_def)
  then have "distinct (map sn_ID (map snd snaps))" using ok by (simp only: snaps_ok_def map_map)
  then show ?thesis unfolding scheduled_of_def by (rule distinct_map_filter)
qed

lemma set_scheduled_of: "s \<in> set (scheduled_of sid snaps) \<longleftrightarrow> sn_Scheduled s \<and> sn_Sandbox s = sid \<and> (\<exists>k. (k, s) \<in> set snaps)"
  by (force simp: scheduled_of_def)

lemma pruned_scheduled:
  assumes ok: "snaps_ok snaps" and mine: "newest_first sid snaps mine"
  shows "set (scheduled_of sid (pruneScheduled mine keep snaps)) = set (take (nat keep) mine)"
proof -
  have sm: "set mine = set (scheduled_of sid snaps)" using mine by (metis newest_first_def set_mset_mset)
  have "distinct (map sn_ID mine)"
    using ids_of_scheduled [OF ok, of sid] mine unfolding newest_first_def by (metis mset_eq_imp_distinct_iff mset_map)
  then have d: "sn_ID ` set (take n mine) \<inter> sn_ID ` set (drop n mine) = {}" for n
    by (metis distinct_append append_take_drop_id map_append set_map)
  have tk: "sn_ID s = k" if "(k, s) \<in> set snaps" for k s using that ok by (auto simp: snaps_ok_def)
  have split: "s \<in> set mine \<longleftrightarrow> s \<in> set (take n mine) \<or> s \<in> set (drop n mine)" for s n
    by (metis Un_iff append_take_drop_id set_append)
  show ?thesis
  proof (intro set_eqI iffI)
    fix s assume "s \<in> set (scheduled_of sid (pruneScheduled mine keep snaps))"
    then obtain k where k: "(k, s) \<in> set snaps" "k \<notin> sn_ID ` set (drop (nat keep) mine)" "sn_Scheduled s" "sn_Sandbox s = sid"
      by (auto simp: set_scheduled_of pruneScheduled_def)
    then have "s \<in> set mine" by (auto simp: sm set_scheduled_of)
    then show "s \<in> set (take (nat keep) mine)" using k(1,2) tk split by blast
  next
    fix s assume s: "s \<in> set (take (nat keep) mine)"
    then have "s \<in> set (scheduled_of sid snaps)" using sm split by blast
    then obtain k where k: "(k, s) \<in> set snaps" "sn_Scheduled s" "sn_Sandbox s = sid" by (auto simp: set_scheduled_of)
    moreover have "k \<notin> sn_ID ` set (drop (nat keep) mine)" using d s tk [OF k(1)] by blast
    ultimately show "s \<in> set (scheduled_of sid (pruneScheduled mine keep snaps))"
      by (auto simp: set_scheduled_of pruneScheduled_def)
  qed
qed

text \<open>A sandbox with one scheduled snapshot.\<close>

definition snap_rec :: rec where
  "snap_rec = \<lparr>r_sbx = \<lparr>b_ID = ''a'', b_Name = [], b_State = Running, b_Image = ''img'', b_CPUs = Fin 1, b_MemoryMB = 1, b_DiskMB = 1,
     b_EnvNames = [], b_Network = zero_network, b_CreatedAt = 0, b_IdleTimeoutSecs = 0, b_IdleAction = [], b_IdleSuspended = False,
     b_LifetimeSecs = 0, b_ExpiresAt = None, b_SnapshotEverySecs = 60, b_SnapshotKeep = 1, b_Snapshotting = False, b_Labels = [],
     b_Volumes = [], b_GPUs = []\<rparr>, r_env = [], r_procs = [], r_nextPID = 0, r_lastActive = 0, r_lastScheduled = 0,
     r_snapshotting = False\<rparr>"

definition snap_cf :: config where
  "snap_cf = \<lparr>cf_lower = (\<lambda>x. x), cf_Policy = demo_policy, cf_caps = (\<lambda>_. True), cf_Suspender = True, cf_Snapshotter = True,
     cf_VolumeStore = True, cf_GPUs = [], cf_gpuReady = (\<lambda>_. True), cf_NodeID = []\<rparr>"

definition demo_info :: snapshot_info where
  "demo_info = \<lparr>si_Kind = ''disk'', si_Image = ''img'', si_CPUs = Fin 1, si_MemoryMB = 1, si_DiskMB = 1\<rparr>"

definition demo_taken :: snap_state where
  "demo_taken = scheduled_ends 0 True (61 * second) (take_returns 0 True True (capture_ends 0 True (Some (''s1'', demo_info)) (60 * second)
     (scheduled_begins snap_cf 0 (scheduleTick_one 0 (z0\<lparr>z_recs := [snap_rec]\<rparr>)))))"

lemma demo_taken_reach: "reach (\<lambda>z. z = z0) (zstep snap_cf) demo_taken"
proof -
  note nxt = reach_step [where init = "\<lambda>z. z = z0" and step = "zstep snap_cf"]
  note ev = scheduled_ends_def take_returns_def capture_ends_def scheduled_begins_def scheduleTick_one_def z_upd_def z_become_def
    takeSnapshot_check_def snap_cf_def z0_def snap_rec_def set_taking_def
  have "zstep snap_cf z0 (z0\<lparr>z_recs := [snap_rec]\<rparr>)" using z_new [of snap_rec snap_cf z0] by (simp add: snap_rec_def z0_def)
  then have "reach (\<lambda>z. z = z0) (zstep snap_cf) (z0\<lparr>z_recs := [snap_rec]\<rparr>)" by (intro nxt [OF reach_init]) simp_all
  then have "reach (\<lambda>z. z = z0) (zstep snap_cf) (scheduleTick_one 0 (z0\<lparr>z_recs := [snap_rec]\<rparr>))"
    by (rule nxt) (rule z_tick [where now = "60 * second"], simp_all add: schedule_due_def snap_rec_def second_def)
  then have "reach (\<lambda>z. z = z0) (zstep snap_cf) (scheduled_begins snap_cf 0 (scheduleTick_one 0 (z0\<lparr>z_recs := [snap_rec]\<rparr>)))"
    by (rule nxt) (rule z_begin, simp add: ev)
  then have "reach (\<lambda>z. z = z0) (zstep snap_cf) (capture_ends 0 True (Some (''s1'', demo_info)) (60 * second)
     (scheduled_begins snap_cf 0 (scheduleTick_one 0 (z0\<lparr>z_recs := [snap_rec]\<rparr>))))"
    by (rule nxt) (rule z_capture, simp_all add: ev)
  then have "reach (\<lambda>z. z = z0) (zstep snap_cf) (take_returns 0 True True (capture_ends 0 True (Some (''s1'', demo_info)) (60 * second)
     (scheduled_begins snap_cf 0 (scheduleTick_one 0 (z0\<lparr>z_recs := [snap_rec]\<rparr>)))))"
    by (rule nxt) (rule z_return, simp add: ev)
  then show ?thesis unfolding demo_taken_def by (rule nxt) (rule z_end, simp add: ev)
qed

lemma demo_taken_snaps:
  "z_snaps demo_taken = [(''s1'', new_snapshot ''s1'' ''a'' True (60 * second) demo_info)]" "length (z_recs demo_taken) = 1"
  "b_ID (r_sbx (z_rec demo_taken 0)) = ''a''" "b_State (r_sbx (z_rec demo_taken 0)) = Running"
  by (simp_all add: demo_taken_def scheduled_ends_def take_returns_def capture_ends_def scheduled_begins_def scheduleTick_one_def z_upd_def
    z_become_def takeSnapshot_check_def snap_cf_def z0_def snap_rec_def set_taking_def)

lemma demo_taken_order:
  "newest_first ''a'' (z_snaps demo_taken) [new_snapshot ''s1'' ''a'' True (60 * second) demo_info]"
  "scheduled_of ''a'' (z_snaps demo_taken) = [new_snapshot ''s1'' ''a'' True (60 * second) demo_info]"
  by (simp_all add: newest_first_def scheduled_of_def demo_taken_snaps new_snapshot_def)

text \<open>
  A retention run, in any state the server can reach and however the sort orders snapshots of the same
  time, leaves every snapshot taken by request and every one of another sandbox where it was, keeps
  as many of the sandbox's scheduled ones as it was told to (or all, when there are fewer), and removes none
  that is newer than one it keeps.
\<close>

theorem retention_keeps_newest:
  assumes "reach (\<lambda>z. z = z0) (zstep cf) z" and "newest_first sid (z_snaps z) mine"
    and z'_def: "z' = prune_now sid keep mine z"
  shows "(\<forall>(k, s) \<in> set (z_snaps z). \<not> sn_Scheduled s \<or> sn_Sandbox s \<noteq> sid \<longrightarrow> (k, s) \<in> set (z_snaps z')) \<and>
    card (set (scheduled_of sid (z_snaps z'))) = min (nat keep) (length (scheduled_of sid (z_snaps z))) \<and>
    (\<forall>s \<in> set (scheduled_of sid (z_snaps z')). \<forall>t \<in> set (scheduled_of sid (z_snaps z)) - set (scheduled_of sid (z_snaps z')).
       sn_CreatedAt t \<le> sn_CreatedAt s)"
proof -
  have ok: "snaps_ok (z_snaps z)" using snap_run.inv_reach [OF assms(1)] by (simp add: z_ok_def)
  have z': "z_snaps z' = pruneScheduled mine keep (z_snaps z)" by (simp add: z'_def prune_now_def)
  have sm: "set mine = set (scheduled_of sid (z_snaps z))" "length mine = length (scheduled_of sid (z_snaps z))"
    using assms(2) by (metis newest_first_def set_mset_mset, metis newest_first_def size_mset)
  note kept = pruned_scheduled [OF ok assms(2), of keep, folded z']
  have dm: "distinct mine"
    using ids_of_scheduled [OF ok, of sid] assms(2) unfolding newest_first_def by (metis distinct_map mset_eq_imp_distinct_iff)
  have "(k, s) \<in> set (z_snaps z')" if "(k, s) \<in> set (z_snaps z)" "\<not> sn_Scheduled s \<or> sn_Sandbox s \<noteq> sid" for k s
  proof -
    have "k \<notin> sn_ID ` set (drop (nat keep) mine)"
    proof
      assume "k \<in> sn_ID ` set (drop (nat keep) mine)"
      then obtain t where t: "k = sn_ID t" "t \<in> set (scheduled_of sid (z_snaps z))" using sm(1) by (auto dest: in_set_dropD)
      then have "(k, t) \<in> set (z_snaps z)" using ok by (auto simp: set_scheduled_of snaps_ok_def)
      then show False using map_of_snaps [OF ok that(1)] t(2) that(2) by (auto simp: set_scheduled_of)
    qed
    then show ?thesis using that(1) by (simp add: z' pruneScheduled_def)
  qed
  moreover have "card (set (scheduled_of sid (z_snaps z'))) = min (nat keep) (length (scheduled_of sid (z_snaps z)))"
    using dm by (simp add: kept distinct_card sm(2) [symmetric])
  moreover have "sn_CreatedAt t \<le> sn_CreatedAt s" if "s \<in> set (take (nat keep) mine)" "t \<in> set mine - set (take (nat keep) mine)" for s t
  proof -
    have "t \<in> set (drop (nat keep) mine)" using that(2) by (metis DiffE UnE append_take_drop_id set_append)
    moreover have "sorted (map (\<lambda>s. - sn_CreatedAt s) (take (nat keep) mine @ drop (nat keep) mine))"
      using assms(2) by (simp add: newest_first_def)
    ultimately show ?thesis using that(1) by (auto simp: sorted_append simp del: append_take_drop_id)
  qed
  ultimately show ?thesis unfolding kept using sm(1) by blast
qed

theorem retention_keeps_newest_witness:
  "card (set (scheduled_of ''a'' (z_snaps (prune_now ''a'' 3 [new_snapshot ''s1'' ''a'' True (60 * second) demo_info] demo_taken)))) = 1"
  using retention_keeps_newest [OF demo_taken_reach demo_taken_order(1) refl, of 3] by (simp add: demo_taken_order(2))

text \<open>
  At most one snapshot of a sandbox is being taken at any moment, by request or by its schedule, and its
  schedule has at most one run under way; the marks on the record say so exactly.
\<close>

theorem one_snapshot_at_a_time:
  assumes "reach (\<lambda>z. z = z0) (zstep cf) z"
  shows "length (filter (takes p) (z_ops z)) = (if p < length (z_recs z) \<and> b_Snapshotting (r_sbx (z_rec z p)) then 1 else 0) \<and>
    length (filter (runs_schedule p) (z_ops z)) = (if p < length (z_recs z) \<and> r_snapshotting (z_rec z p) then 1 else 0)"
  using snap_run.inv_reach [OF assms] by (simp add: z_ok_def many_def taking_mark_def schedule_mark_def)

theorem one_snapshot_at_a_time_witness:
  "reach (\<lambda>z. z = z0) (zstep snap_cf) demo_taken \<and> length (filter (takes 0) (z_ops demo_taken)) \<le> 1"
  using one_snapshot_at_a_time [OF demo_taken_reach, of 0] demo_taken_reach by (simp split: if_split_asm)

text \<open>
  Stopping a sandbox's schedule removes every snapshot the schedule took: the request that stops it is
  accepted with nothing to keep, and its retention leaves none.
\<close>

theorem stopping_schedule_removes_all:
  assumes "reach (\<lambda>z. z = z0) (zstep cf) z" "p < length (z_recs z)" "b_State (r_sbx (z_rec z p)) = Running"
    and "newest_first (b_ID (r_sbx (z_rec z p))) (z_snaps z) mine"
  shows "\<exists>sched. setSchedule_check cf \<lparr>sc_EverySecs = 0, sc_Keep = 0\<rparr> (r_sbx (z_rec z p)) = Inr sched \<and>
    scheduled_of (b_ID (r_sbx (z_rec z p)))
      (z_snaps (prune_now (b_ID (r_sbx (z_rec z p))) (sc_Keep sched) mine (schedule_set p sched now z))) = []"
proof -
  have ok: "snaps_ok (z_snaps z)" using snap_run.inv_reach [OF assms(1)] by (simp add: z_ok_def)
  have "setSchedule_check cf \<lparr>sc_EverySecs = 0, sc_Keep = 0\<rparr> (r_sbx (z_rec z p)) = Inr \<lparr>sc_EverySecs = 0, sc_Keep = 0\<rparr>"
    using assms(3) by (simp add: setSchedule_check_def ResolveSchedule_def scheduleRefusal_def Let_def and_then_def unless_err_def)
  moreover have "set (scheduled_of (b_ID (r_sbx (z_rec z p))) (pruneScheduled mine 0 (z_snaps z))) = {}"
    using pruned_scheduled [OF ok assms(4), of 0] by simp
  ultimately show ?thesis by (simp add: prune_now_def schedule_set_def)
qed

theorem stopping_schedule_removes_all_witness:
  "scheduled_of ''a'' (z_snaps demo_taken) \<noteq> [] \<and>
   (\<exists>sched. setSchedule_check snap_cf \<lparr>sc_EverySecs = 0, sc_Keep = 0\<rparr> (r_sbx (z_rec demo_taken 0)) = Inr sched \<and>
     scheduled_of ''a'' (z_snaps (prune_now ''a'' (sc_Keep sched) [new_snapshot ''s1'' ''a'' True (60 * second) demo_info]
       (schedule_set 0 sched 0 demo_taken))) = [])"
  using stopping_schedule_removes_all [OF demo_taken_reach, of 0 "[new_snapshot ''s1'' ''a'' True (60 * second) demo_info]" 0]
    demo_taken_order by (simp add: demo_taken_snaps(2-4))

end
