(* ===== verification/Server_Output.thy ===== *)
theory Server_Output
  imports Go_Strings
begin

text \<open>
  A process's output as the sandbox server keeps it (\<open>internal/server/outputlog.go\<close>): the log every stream
  appends to under a cap, and a follower that reads it from the beginning while it grows. Replacing the
  channel \<open>changed\<close> is a counter going up; a channel taken before is closed once the counter has moved on.
\<close>

section \<open>The log\<close>

definition maxStreamBytes :: int where
  "maxStreamBytes = 8 * 2 ^ 20"

datatype OutputEvent = Chunk bytes bytes | ExitCode int

record outputLog =
  ol_events :: "(bytes \<times> bytes) list"
  ol_size :: "bytes \<Rightarrow> int"
  ol_truncated :: bool
  ol_exit :: "int option"
  ol_changed :: nat

definition newOutputLog :: outputLog where
  "newOutputLog = \<lparr>ol_events = [], ol_size = (\<lambda>_. 0), ol_truncated = False, ol_exit = None, ol_changed = 0\<rparr>"

definition log_notify :: "outputLog \<Rightarrow> outputLog" where
  "log_notify l = l\<lparr>ol_changed := Suc (ol_changed l)\<rparr>"

text \<open>\<open>streamWriter.Write\<close>, which reports every byte as accepted.\<close>

definition log_Write :: "bytes \<Rightarrow> bytes \<Rightarrow> outputLog \<Rightarrow> outputLog \<times> int" where
  "log_Write stream p l =
    (let room = maxStreamBytes - ol_size l stream;
         cut = int (length p) > room;
         data = (if cut then take (nat (max room 0)) p else p);
         l1 = (if cut then l\<lparr>ol_truncated := True\<rparr> else l);
         l2 = (if data \<noteq> [] then log_notify (l1\<lparr>ol_events := ol_events l1 @ [(stream, data)],
                 ol_size := (ol_size l1)(stream := ol_size l1 stream + int (length data))\<rparr>) else l1)
     in (l2, int (length p)))"

definition markTruncated :: "outputLog \<Rightarrow> outputLog" where
  "markTruncated l = l\<lparr>ol_truncated := True\<rparr>"

definition log_finish :: "int \<Rightarrow> outputLog \<Rightarrow> outputLog" where
  "log_finish code l = log_notify (l\<lparr>ol_exit := Some code\<rparr>)"

definition stream_bytes :: "bytes \<Rightarrow> (bytes \<times> bytes) list \<Rightarrow> bytes" where
  "stream_bytes stream evs = concat (map snd (filter (\<lambda>(s, _). s = stream) evs))"

definition collect :: "outputLog \<Rightarrow> bytes \<times> bytes \<times> bool" where
  "collect l = (stream_bytes ''stdout'' (ol_events l), stream_bytes ''stderr'' (ol_events l), ol_truncated l)"

section \<open>A follower\<close>

datatype fpc = Looking | Sending | Sleeping | Returned | GaveUp

record follower =
  fo_pc :: fpc
  fo_next :: nat
  fo_pending :: "(bytes \<times> bytes) list"
  fo_exit :: "int option"
  fo_wait :: nat
  fo_out :: "OutputEvent list"

definition follower0 :: follower where
  "follower0 = \<lparr>fo_pc = Looking, fo_next = 0, fo_pending = [], fo_exit = None, fo_wait = 0, fo_out = []\<rparr>"

text \<open>The critical section of the loop of \<open>follow\<close>, then \<open>fn\<close> on the next event, or what follows the last.\<close>

definition follow_look :: "outputLog \<Rightarrow> follower \<Rightarrow> follower" where
  "follow_look l f = f\<lparr>fo_pc := Sending, fo_pending := drop (fo_next f) (ol_events l), fo_next := length (ol_events l),
     fo_exit := ol_exit l, fo_wait := ol_changed l\<rparr>"

definition follow_send :: "follower \<Rightarrow> follower" where
  "follow_send f = (case fo_pending f of
      (s, d) # rest \<Rightarrow> f\<lparr>fo_out := fo_out f @ [Chunk s d], fo_pending := rest\<rparr>
    | [] \<Rightarrow> (case fo_exit f of
        Some code \<Rightarrow> f\<lparr>fo_out := fo_out f @ [ExitCode code], fo_pc := Returned\<rparr>
      | None \<Rightarrow> f\<lparr>fo_pc := Sleeping\<rparr>))"

record follow_state =
  fs_log :: outputLog
  fs_written :: "(bytes \<times> bytes) list"
  fs_before :: nat
  fs_follower :: follower

text \<open>
  The steps of the writers, of the process's end (\<open>watchProcess\<close> waits for it once) and of one follower,
  whose \<open>fn\<close> or context may end it. \<open>fs_written\<close> records what was written, in order, uncut, and \<open>fs_before\<close> how many
  events there were when the process ended.
\<close>

inductive fstep :: "follow_state \<Rightarrow> follow_state \<Rightarrow> bool" where
  f_write: "fstep s (s\<lparr>fs_log := fst (log_Write stream p (fs_log s)), fs_written := fs_written s @ [(stream, p)]\<rparr>)"
| f_mark: "fstep s (s\<lparr>fs_log := markTruncated (fs_log s)\<rparr>)"
| f_finish: "ol_exit (fs_log s) = None \<Longrightarrow> fstep s (s\<lparr>fs_log := log_finish code (fs_log s), fs_before := length (ol_events (fs_log s))\<rparr>)"
| f_look: "fo_pc (fs_follower s) = Looking \<Longrightarrow> fstep s (s\<lparr>fs_follower := follow_look (fs_log s) (fs_follower s)\<rparr>)"
| f_send: "fo_pc (fs_follower s) = Sending \<Longrightarrow> fstep s (s\<lparr>fs_follower := follow_send (fs_follower s)\<rparr>)"
| f_fail: "fo_pc (fs_follower s) \<in> {Sending, Sleeping} \<Longrightarrow> fstep s (s\<lparr>fs_follower := (fs_follower s)\<lparr>fo_pc := GaveUp\<rparr>\<rparr>)"
| f_wake: "fo_pc (fs_follower s) = Sleeping \<Longrightarrow> ol_changed (fs_log s) \<noteq> fo_wait (fs_follower s) \<Longrightarrow>
    fstep s (s\<lparr>fs_follower := (fs_follower s)\<lparr>fo_pc := Looking\<rparr>\<rparr>)"

text \<open>A follower may look for the first time at any later moment.\<close>

definition follow_init :: "follow_state \<Rightarrow> bool" where
  "follow_init s \<longleftrightarrow> fs_follower s = follower0 \<and> fs_log s = newOutputLog \<and> fs_written s = []"

section \<open>What the log holds\<close>

lemma stream_bytes_append [simp]: "stream_bytes s (a @ b) = stream_bytes s a @ stream_bytes s b"
  by (simp add: stream_bytes_def)

lemma stream_bytes_one [simp]: "stream_bytes s [(t, d)] = (if t = s then d else [])" "stream_bytes s [] = []"
  by (simp_all add: stream_bytes_def)

text \<open>The log against everything that was written: the first \<open>maxStreamBytes\<close> bytes of each stream.\<close>

definition log_ok :: "outputLog \<Rightarrow> (bytes \<times> bytes) list \<Rightarrow> bool" where
  "log_ok l ws \<longleftrightarrow> (\<forall>s. stream_bytes s (ol_events l) = take (nat maxStreamBytes) (stream_bytes s ws) \<and>
       ol_size l s = int (length (stream_bytes s (ol_events l)))) \<and>
     ((\<exists>s. int (length (stream_bytes s ws)) > maxStreamBytes) \<longrightarrow> ol_truncated l) \<and>
     (\<forall>(s, d) \<in> set (ol_events l). d \<noteq> [])"

lemma log_notify_fields [simp]:
  "ol_events (log_notify l) = ol_events l" "ol_size (log_notify l) = ol_size l" "ol_truncated (log_notify l) = ol_truncated l"
  "ol_exit (log_notify l) = ol_exit l" "ol_changed (log_notify l) = Suc (ol_changed l)"
  by (simp_all add: log_notify_def)

lemma log_Write_ok:
  assumes "log_ok l ws"
  shows "log_ok (fst (log_Write stream p l)) (ws @ [(stream, p)])"
proof -
  let ?old = "stream_bytes stream ws" and ?room = "maxStreamBytes - ol_size l stream"
  let ?data = "if int (length p) > ?room then take (nat (max ?room 0)) p else p"
  have size: "ol_size l stream = min (int (length ?old)) maxStreamBytes"
    using assms by (simp add: log_ok_def maxStreamBytes_def min_def)
  have room: "nat (max ?room 0) = nat maxStreamBytes - length ?old"
    unfolding size by (simp add: maxStreamBytes_def)
  have data: "take (nat maxStreamBytes) ?old @ ?data = take (nat maxStreamBytes) (?old @ p)"
  proof (cases "int (length p) > ?room")
    case True
    then show ?thesis by (simp add: room)
  next
    case False
    then have "length ?old + length p \<le> nat maxStreamBytes \<or> p = []" unfolding size by (cases p) (auto simp: maxStreamBytes_def min_def split: if_splits)
    then show ?thesis using False by auto
  qed
  have cut: "int (length (?old @ p)) > maxStreamBytes \<Longrightarrow> int (length p) > ?room \<or> int (length ?old) > maxStreamBytes"
    unfolding size by auto
  let ?l = "fst (log_Write stream p l)"
  have evs: "ol_events ?l = ol_events l @ (if ?data = [] then [] else [(stream, ?data)])"
    and sz: "ol_size ?l = (ol_size l)(stream := ol_size l stream + int (length ?data))"
    and tr: "ol_truncated ?l \<longleftrightarrow> ol_truncated l \<or> int (length p) > ?room"
    by (auto simp: log_Write_def Let_def)
  have "stream_bytes s (ol_events ?l) = take (nat maxStreamBytes) (stream_bytes s (ws @ [(stream, p)]))" for s
  proof (cases "s = stream")
    case True
    have "stream_bytes stream (ol_events ?l) = stream_bytes stream (ol_events l) @ ?data" by (simp add: evs)
    also have "\<dots> = take (nat maxStreamBytes) ?old @ ?data" using assms by (simp add: log_ok_def)
    finally show ?thesis using True data by simp
  next
    case False
    then show ?thesis using assms by (simp add: evs log_ok_def)
  qed
  moreover have "ol_size ?l s = int (length (stream_bytes s (ol_events ?l)))" for s
    using assms by (simp add: sz evs log_ok_def)
  moreover have "ol_truncated ?l" if "int (length (stream_bytes s (ws @ [(stream, p)]))) > maxStreamBytes" for s
    using that cut assms by (cases "s = stream") (auto simp: tr log_ok_def)
  moreover have "\<forall>(s, d) \<in> set (ol_events ?l). d \<noteq> []"
    using assms by (auto simp: evs log_ok_def)
  ultimately show ?thesis unfolding log_ok_def by blast
qed

lemma log_fields_Write:
  "ol_exit (fst (log_Write stream p l)) = ol_exit l" "\<exists>more_events. ol_events (fst (log_Write stream p l)) = ol_events l @ more_events"
  "ol_changed (fst (log_Write stream p l)) = ol_changed l \<Longrightarrow> ol_events (fst (log_Write stream p l)) = ol_events l"
  "ol_changed l \<le> ol_changed (fst (log_Write stream p l))"
  by (auto simp: log_Write_def Let_def split: if_splits)

section \<open>What a follower gets\<close>

abbreviation chunks :: "(bytes \<times> bytes) list \<Rightarrow> OutputEvent list" where
  "chunks \<equiv> map (\<lambda>(s, d). Chunk s d)"

text \<open>Where a follower stands: behind by its pending events; asleep only when nothing has changed since it looked.\<close>

definition follower_ok :: "outputLog \<Rightarrow> nat \<Rightarrow> follower \<Rightarrow> bool" where
  "follower_ok l before f \<longleftrightarrow> fo_next f \<le> length (ol_events l) \<and> fo_wait f \<le> ol_changed l \<and>
     (fo_exit f \<noteq> None \<longrightarrow> fo_exit f = ol_exit l \<and> before \<le> fo_next f) \<and>
     (case fo_pc f of
        Looking \<Rightarrow> fo_out f = chunks (take (fo_next f) (ol_events l)) \<and> fo_exit f = None
      | Sending \<Rightarrow> fo_out f @ chunks (fo_pending f) = chunks (take (fo_next f) (ol_events l)) \<and>
          (ol_changed l = fo_wait f \<longrightarrow> fo_next f = length (ol_events l) \<and> fo_exit f = ol_exit l)
      | Sleeping \<Rightarrow> fo_out f = chunks (take (fo_next f) (ol_events l)) \<and> fo_exit f = None \<and>
          (ol_changed l = fo_wait f \<longrightarrow> fo_next f = length (ol_events l) \<and> ol_exit l = None)
      | Returned \<Rightarrow> (\<exists>code. fo_exit f = Some code \<and> fo_out f = chunks (take (fo_next f) (ol_events l)) @ [ExitCode code])
      | GaveUp \<Rightarrow> True)"

definition fs_ok :: "follow_state \<Rightarrow> bool" where
  "fs_ok s \<longleftrightarrow> log_ok (fs_log s) (fs_written s) \<and> (ol_exit (fs_log s) \<noteq> None \<longrightarrow> fs_before s \<le> length (ol_events (fs_log s))) \<and>
     follower_ok (fs_log s) (fs_before s) (fs_follower s)"

text \<open>A log that grew, with its counter moved on whenever it did.\<close>

lemma follower_grows:
  assumes "follower_ok l before f" "ol_events l' = ol_events l @ new" "ol_exit l' = ol_exit l \<or> ol_exit l = None"
    "ol_changed l' \<ge> ol_changed l" "ol_changed l' = ol_changed l \<Longrightarrow> new = [] \<and> ol_exit l' = ol_exit l"
    "before' = before \<or> ol_exit l = None"
  shows "follower_ok l' before' f"
proof -
  have "ol_changed l' = fo_wait f \<Longrightarrow> ol_changed l = fo_wait f \<and> new = [] \<and> ol_exit l' = ol_exit l"
    using assms(1,4,5) unfolding follower_ok_def by auto
  then show ?thesis using assms(1-4,6) unfolding follower_ok_def by (auto split: fpc.splits)
qed

lemma fs_ok_step: "fs_ok s \<Longrightarrow> fstep s s' \<Longrightarrow> fs_ok s'"
proof -
  assume ok: "fs_ok s" and st: "fstep s s'"
  have L: "log_ok (fs_log s) (fs_written s)" and B: "ol_exit (fs_log s) \<noteq> None \<longrightarrow> fs_before s \<le> length (ol_events (fs_log s))"
    and F: "follower_ok (fs_log s) (fs_before s) (fs_follower s)" using ok by (simp_all add: fs_ok_def)
  show ?thesis using st
  proof cases
    case (f_write stream p)
    obtain new where new: "ol_events (fst (log_Write stream p (fs_log s))) = ol_events (fs_log s) @ new"
      using log_fields_Write(2) by blast
    have "follower_ok (fst (log_Write stream p (fs_log s))) (fs_before s) (fs_follower s)"
      by (rule follower_grows [OF F new]) (use log_fields_Write(1,3,4) [where stream = stream and p = p and l = "fs_log s"] new in auto)
    then show ?thesis using log_Write_ok [OF L] B new by (auto simp: f_write fs_ok_def log_fields_Write(1))
  next
    case f_mark
    have "follower_ok (markTruncated (fs_log s)) (fs_before s) (fs_follower s)"
      by (rule follower_grows [OF F, of _ "[]"]) (simp_all add: markTruncated_def)
    then show ?thesis using L B by (simp add: f_mark fs_ok_def log_ok_def markTruncated_def)
  next
    case (f_finish code)
    have "follower_ok (log_finish code (fs_log s)) (length (ol_events (fs_log s))) (fs_follower s)"
      by (rule follower_grows [OF F, of _ "[]"]) (use f_finish in \<open>simp_all add: log_finish_def\<close>)
    then show ?thesis using L by (simp add: f_finish fs_ok_def log_ok_def log_finish_def)
  next
    case f_look
    have "follower_ok (fs_log s) (fs_before s) (follow_look (fs_log s) (fs_follower s))"
      using F B f_look by (auto simp: follower_ok_def follow_look_def simp flip: map_append)
    then show ?thesis using L B by (simp add: f_look fs_ok_def)
  next
    case f_send
    have "follower_ok (fs_log s) (fs_before s) (follow_send (fs_follower s))"
      using F f_send by (auto simp: follower_ok_def follow_send_def split: list.splits option.splits)
    then show ?thesis using L B by (simp add: f_send fs_ok_def)
  next
    case f_fail
    then show ?thesis using ok by (simp add: fs_ok_def follower_ok_def)
  next
    case f_wake
    then show ?thesis using ok by (simp add: fs_ok_def follower_ok_def)
  qed
qed

lemma fs_ok_init: "follow_init s \<Longrightarrow> fs_ok s"
  by (simp add: follow_init_def fs_ok_def follower_ok_def follower0_def newOutputLog_def log_ok_def maxStreamBytes_def)

interpretation follow_run: step_invariant follow_init fstep fs_ok
  by unfold_locales (auto intro: fs_ok_init fs_ok_step)

text \<open>What a follower can still do on its own leads it to its end.\<close>

lemma send_all:
  assumes "fo_pc (fs_follower s) = Sending"
  shows "\<exists>f. fstep\<^sup>*\<^sup>* s (s\<lparr>fs_follower := f\<rparr>) \<and> fo_exit f = fo_exit (fs_follower s) \<and>
    fo_pc f = (if fo_exit (fs_follower s) = None then Sleeping else Returned)"
  using assms
proof (induction "fo_pending (fs_follower s)" arbitrary: s)
  case Nil
  then have "follow_send (fs_follower s) = (case fo_exit (fs_follower s) of
      Some code \<Rightarrow> (fs_follower s)\<lparr>fo_out := fo_out (fs_follower s) @ [ExitCode code], fo_pc := Returned\<rparr>
    | None \<Rightarrow> (fs_follower s)\<lparr>fo_pc := Sleeping\<rparr>)" by (simp add: follow_send_def flip: Nil.hyps)
  then show ?case using f_send [OF Nil.prems]
    by (intro exI [of _ "follow_send (fs_follower s)"]) (auto split: option.split)
next
  case (Cons e rest)
  let ?s = "s\<lparr>fs_follower := follow_send (fs_follower s)\<rparr>"
  have e: "follow_send (fs_follower s) = (fs_follower s)\<lparr>fo_out := fo_out (fs_follower s) @ [Chunk (fst e) (snd e)], fo_pending := rest\<rparr>"
    by (simp add: follow_send_def flip: Cons.hyps(2)) (simp add: case_prod_unfold)
  have "\<exists>f. fstep\<^sup>*\<^sup>* ?s (?s\<lparr>fs_follower := f\<rparr>) \<and> fo_exit f = fo_exit (fs_follower ?s) \<and>
    fo_pc f = (if fo_exit (fs_follower ?s) = None then Sleeping else Returned)"
    using Cons.prems by (intro Cons.hyps(1)) (simp_all add: e)
  then obtain f where f: "fstep\<^sup>*\<^sup>* ?s (?s\<lparr>fs_follower := f\<rparr>)" "fo_exit f = fo_exit (fs_follower s)"
    "fo_pc f = (if fo_exit (fs_follower s) = None then Sleeping else Returned)" by (auto simp: e)
  have "fstep\<^sup>*\<^sup>* s (s\<lparr>fs_follower := f\<rparr>)"
    using converse_rtranclp_into_rtranclp [of fstep s ?s] f_send [OF Cons.prems] f(1) by simp
  with f(2,3) show ?case by blast
qed

lemma look_and_send:
  assumes "fo_pc (fs_follower s) = Looking" "ol_exit (fs_log s) = Some code"
  shows "\<exists>s'. fstep\<^sup>*\<^sup>* s s' \<and> fo_pc (fs_follower s') = Returned"
proof -
  let ?s = "s\<lparr>fs_follower := follow_look (fs_log s) (fs_follower s)\<rparr>"
  obtain f where "fstep\<^sup>*\<^sup>* ?s (?s\<lparr>fs_follower := f\<rparr>)" "fo_pc f = Returned"
    using send_all [of ?s] assms(2) by (auto simp: follow_look_def)
  moreover have "fstep s ?s" using assms(1) by (rule f_look)
  ultimately show ?thesis by (metis converse_rtranclp_into_rtranclp follow_state.select_convs(4) follow_state.surjective follow_state.update_convs(4))
qed

section \<open>Properties\<close>

definition follow_start :: follow_state where
  "follow_start = \<lparr>fs_log = newOutputLog, fs_written = [], fs_before = 0, fs_follower = follower0\<rparr>"

text \<open>A process writes a line and ends; a follower looks and gets it all.\<close>

definition demo_ended :: follow_state where
  "demo_ended = (let l = fst (log_Write ''stdout'' ''hi'' newOutputLog) in
     follow_start\<lparr>fs_log := log_finish 0 l, fs_written := [(''stdout'', ''hi'')], fs_before := length (ol_events l)\<rparr>)"

definition demo_followed :: follow_state where
  "demo_followed = (let f = follow_look (fs_log demo_ended) (fs_follower demo_ended) in
     demo_ended\<lparr>fs_follower := follow_send (follow_send f)\<rparr>)"

lemma demo_ended_reach: "reach follow_init fstep demo_ended"
proof -
  have "reach follow_init fstep follow_start" by (rule reach_init) (simp add: follow_init_def follow_start_def)
  then have "reach follow_init fstep (follow_start\<lparr>fs_log := fst (log_Write ''stdout'' ''hi'' (fs_log follow_start)),
      fs_written := fs_written follow_start @ [(''stdout'', ''hi'')]\<rparr>)"
    by (rule reach_step) (rule f_write)
  from reach_step [OF this f_finish [where code = 0]] show ?thesis
    by (simp add: demo_ended_def follow_start_def Let_def log_fields_Write(1) newOutputLog_def)
qed

lemma demo_followed_reach: "reach follow_init fstep demo_followed"
proof -
  let ?f = "follow_look (fs_log demo_ended) (fs_follower demo_ended)"
  have l: "fs_follower demo_ended = follower0" "ol_events (fs_log demo_ended) = [(''stdout'', ''hi'')]"
    by (simp_all add: demo_ended_def follow_start_def Let_def log_finish_def log_Write_def newOutputLog_def maxStreamBytes_def)
  have "reach follow_init fstep (demo_ended\<lparr>fs_follower := ?f\<rparr>)"
    using demo_ended_reach by (rule reach_step) (rule f_look, simp add: l follower0_def)
  then have "reach follow_init fstep (demo_ended\<lparr>fs_follower := ?f, fs_follower := follow_send ?f\<rparr>)"
    by (rule reach_step) (use f_send [of "demo_ended\<lparr>fs_follower := ?f\<rparr>"] in \<open>simp add: follow_look_def\<close>)
  then have r: "reach follow_init fstep (demo_ended\<lparr>fs_follower := follow_send ?f\<rparr>)" by simp
  show ?thesis unfolding demo_followed_def Let_def
    by (rule reach_step [OF r])
      (use f_send [of "demo_ended\<lparr>fs_follower := follow_send ?f\<rparr>"] in \<open>simp add: follow_look_def follow_send_def l follower0_def\<close>)
qed

text \<open>
  C36: Under every interleaving of writers, followers and the process's end: what the log keeps of each stream
  is the first \<open>maxStreamBytes\<close> bytes written to it, whole writes in order, and a log that dropped any says it is
  truncated; and a follower that returns has been given every event up to some point after the process
  ended, from the first, in order and once each, then the exit code.
\<close>

theorem followed_output_complete:
  assumes "reach follow_init fstep s" and "fo_pc (fs_follower s) = Returned"
  shows "(\<forall>stream. stream_bytes stream (ol_events (fs_log s)) = take (nat maxStreamBytes) (stream_bytes stream (fs_written s)) \<and>
      (int (length (stream_bytes stream (fs_written s))) > maxStreamBytes \<longrightarrow> ol_truncated (fs_log s))) \<and>
    (\<exists>n code. fs_before s \<le> n \<and> ol_exit (fs_log s) = Some code \<and>
      fo_out (fs_follower s) = map (\<lambda>(stream, d). Chunk stream d) (take n (ol_events (fs_log s))) @ [ExitCode code])"
proof -
  have ok: "log_ok (fs_log s) (fs_written s)" "follower_ok (fs_log s) (fs_before s) (fs_follower s)"
    using follow_run.inv_reach [OF assms(1)] by (simp_all add: fs_ok_def)
  obtain code where "fo_exit (fs_follower s) = Some code" "ol_exit (fs_log s) = Some code" "fs_before s \<le> fo_next (fs_follower s)"
    "fo_out (fs_follower s) = chunks (take (fo_next (fs_follower s)) (ol_events (fs_log s))) @ [ExitCode code]"
    using ok(2) assms(2) by (auto simp: follower_ok_def)
  then show ?thesis using ok(1) by (auto simp: log_ok_def)
qed

theorem followed_output_complete_witness:
  "fo_out (fs_follower demo_followed) = [Chunk ''stdout'' ''hi'', ExitCode 0] \<and>
   (\<exists>n code. fs_before demo_followed \<le> n \<and> ol_exit (fs_log demo_followed) = Some code)"
proof -
  have "fo_pc (fs_follower demo_followed) = Returned" "fo_out (fs_follower demo_followed) = [Chunk ''stdout'' ''hi'', ExitCode 0]"
    by (simp_all add: demo_followed_def demo_ended_def follow_start_def Let_def log_finish_def log_Write_def newOutputLog_def
      maxStreamBytes_def follow_look_def follow_send_def follower0_def)
  then show ?thesis using followed_output_complete [OF demo_followed_reach] by blast
qed

text \<open>
  No follower is left waiting once the process has ended: from every reachable state a follower that has
  neither returned nor given up can, by its own steps, be brought to return.
\<close>

theorem follower_reaches_exit:
  assumes "reach follow_init fstep s" and "ol_exit (fs_log s) = Some code" and "fo_pc (fs_follower s) \<noteq> GaveUp"
  shows "\<exists>s'. fstep\<^sup>*\<^sup>* s s' \<and> fo_pc (fs_follower s') = Returned"
proof -
  have asleep: "\<exists>s'. fstep\<^sup>*\<^sup>* s s' \<and> fo_pc (fs_follower s') = Returned"
    if "reach follow_init fstep s" "ol_exit (fs_log s) = Some code" "fo_pc (fs_follower s) = Sleeping" for s
  proof -
    have "ol_changed (fs_log s) \<noteq> fo_wait (fs_follower s)"
      using follow_run.inv_reach [OF that(1)] that(2,3) by (auto simp: fs_ok_def follower_ok_def)
    then have "fstep s (s\<lparr>fs_follower := (fs_follower s)\<lparr>fo_pc := Looking\<rparr>\<rparr>)" using that(3) by (intro f_wake)
    then show ?thesis using look_and_send [of "s\<lparr>fs_follower := (fs_follower s)\<lparr>fo_pc := Looking\<rparr>\<rparr>" code] that(2)
      by (auto intro: converse_rtranclp_into_rtranclp)
  qed
  show ?thesis
  proof (cases "fo_pc (fs_follower s)")
    case Sending
    obtain f where f: "fstep\<^sup>*\<^sup>* s (s\<lparr>fs_follower := f\<rparr>)" "fo_pc f = (if fo_exit (fs_follower s) = None then Sleeping else Returned)"
      using send_all [OF Sending] by blast
    have "reach follow_init fstep (s\<lparr>fs_follower := f\<rparr>)"
      using f(1) assms(1) by (induction rule: rtranclp_induct) (auto intro: reach_step)
    then show ?thesis using asleep [of "s\<lparr>fs_follower := f\<rparr>"] f assms(2)
      by (cases "fo_exit (fs_follower s)") (auto intro: rtranclp_trans)
  qed (use assms asleep look_and_send in auto)
qed

theorem follower_reaches_exit_witness:
  "fo_pc (fs_follower demo_ended) = Looking \<and> (\<exists>s'. fstep\<^sup>*\<^sup>* demo_ended s' \<and> fo_pc (fs_follower s') = Returned)"
proof -
  have "fo_pc (fs_follower demo_ended) = Looking" "ol_exit (fs_log demo_ended) = Some 0"
    by (simp_all add: demo_ended_def follow_start_def Let_def log_finish_def newOutputLog_def follower0_def)
  then show ?thesis using follower_reaches_exit [OF demo_ended_reach] by auto
qed

end
