(* ===== verification/Gateway_Access.thy ===== *)
theory Gateway_Access
  imports Server_Sandbox Go_Path "HOL-Library.Product_Lexorder"
begin

text \<open>
  Who may do what at the gateway (\<open>internal/gateway/contracts.go\<close>, \<open>gateway.go\<close>, \<open>orgs.go\<close>, \<open>http.go\<close>, \<open>sandboxes.go\<close>): keys and the
  principals they become, the organisation a request acts in, the owners of sandboxes, the router that
  turns a reference into a sandbox and its node, listings, and the path a request is forwarded to. The
  database is an argument: its answers, or its failure.
\<close>

subsection \<open>Keys and principals\<close>

record Key =
  k_ID :: bytes
  k_User :: bytes
  k_Tenant :: bytes
  k_Scopes :: "bytes list"
  k_Revoked :: bool
  k_Expires :: "int option"
  k_Parent :: bytes
  k_Bound :: bool
  k_Org :: bytes
  k_RestoreUntil :: "int option"

definition Active :: "int \<Rightarrow> Key \<Rightarrow> bool" where
  "Active now k \<longleftrightarrow> \<not> k_Revoked k \<and> (case k_Expires k of None \<Rightarrow> True | Some t \<Rightarrow> now < t)"

definition Suspended_key :: "int \<Rightarrow> Key \<Rightarrow> bool" where
  "Suspended_key now k \<longleftrightarrow> k_Revoked k \<and> (case k_RestoreUntil k of None \<Rightarrow> False | Some t \<Rightarrow> now < t)"

record Principal =
  pp_User :: bytes
  pp_Tenant :: bytes
  pp_KeyTenant :: bytes
  pp_KeyID :: bytes
  pp_Scopes :: "bytes list"
  pp_Sandbox :: bytes
  pp_Bound :: bool
  pp_BoundOrg :: bytes

definition Can :: "Principal \<Rightarrow> bytes \<Rightarrow> bool" where
  "Can p scope \<longleftrightarrow> ''admin'' \<in> set (pp_Scopes p) \<or> scope \<in> set (pp_Scopes p)"

text \<open>
  \<open>KeyBySecret\<close>: \<open>byHash\<close> and \<open>byID\<close> are the rows of the key table, \<open>hash\<close> is \<open>hashSecret\<close>. A sign-in's key is cut off with
  its account. \<open>authenticate\<close> takes the Authorization header.
\<close>

definition keySecretPrefix :: bytes where
  "keySecretPrefix = ''sgk_''"

definition KeyBySecret :: "(bytes \<Rightarrow> bytes) \<Rightarrow> (bytes \<Rightarrow> Key option) \<Rightarrow> (bytes \<Rightarrow> Key option) \<Rightarrow> int \<Rightarrow> bytes \<Rightarrow> Key option" where
  "KeyBySecret hash byHash byID now secret =
    (if \<not> HasPrefix secret keySecretPrefix then None
     else case byHash (hash secret) of
       None \<Rightarrow> None
     | Some k \<Rightarrow>
         if \<not> Active now k then None
         else if k_Parent k \<noteq> [] \<and> (case byID (k_Parent k) of None \<Rightarrow> True | Some a \<Rightarrow> \<not> Active now a) then None
         else Some k)"

definition principal_of :: "Key \<Rightarrow> Principal" where
  "principal_of k = \<lparr>pp_User = k_User k, pp_Tenant = k_Tenant k, pp_KeyTenant = k_Tenant k, pp_KeyID = k_ID k,
     pp_Scopes = k_Scopes k, pp_Sandbox = [], pp_Bound = k_Bound k, pp_BoundOrg = k_Org k\<rparr>"

definition authenticate :: "(bytes \<Rightarrow> Key option) \<Rightarrow> bytes \<Rightarrow> Principal option" where
  "authenticate bySecret header = (case CutPrefix header ''Bearer '' of
      None \<Rightarrow> None
    | Some secret \<Rightarrow> if secret = [] then None else map_option principal_of (bySecret secret))"

subsection \<open>The organisation of a request\<close>

definition wireOrg :: "bytes \<Rightarrow> bytes" where
  "wireOrg tenant = (if tenant = [] then ''default'' else tenant)"

definition tenantOfOrg :: "bytes \<Rightarrow> bytes" where
  "tenantOfOrg name = (if name = ''default'' then [] else name)"

datatype org_error = HeaderTwice | BoundElsewhere | NoSuchOrg | StoreFailed

text \<open>\<open>role t u ut\<close> is the store's \<open>MemberRole\<close>: None when the database did not answer, else whether user \<open>u\<close> of tenant \<open>ut\<close> is a
  member of \<open>t\<close>.\<close>

type_synonym members = "bytes \<Rightarrow> bytes \<Rightarrow> bytes \<Rightarrow> bool option"

definition selectOrg :: "(nat \<Rightarrow> nat) \<Rightarrow> members \<Rightarrow> bytes list \<Rightarrow> Principal \<Rightarrow> (org_error, Principal) result" where
  "selectOrg lr role vals p =
    (if length vals > 1 then Inl HeaderTwice
     else
       let name0 = (case vals of [] \<Rightarrow> [] | v # _ \<Rightarrow> TrimSpace v);
           name = (if pp_Bound p \<and> name0 = [] then wireOrg (pp_BoundOrg p) else name0)
       in if pp_Bound p \<and> \<not> EqualFold (tenantOfOrg name) (pp_BoundOrg p) then Inl BoundElsewhere
       else if name = [] then Inr p
       else
         let t = tenantOfOrg name in
         if t = pp_KeyTenant p \<or> name = pp_KeyTenant p then Inr p
         else case role t (pp_User p) (pp_KeyTenant p) of
           None \<Rightarrow> Inl StoreFailed
         | Some False \<Rightarrow> Inl NoSuchOrg
         | Some True \<Rightarrow> Inr (p\<lparr>pp_Tenant := (if t \<noteq> [] then ToLower lr t else t)\<rparr>))"

definition stillInTenant :: "members \<Rightarrow> Principal \<Rightarrow> Key \<Rightarrow> bool option" where
  "stillInTenant role p k =
    (if k_Bound k \<and> \<not> EqualFold (pp_Tenant p) (k_Org k) then Some False
     else if pp_Tenant p = k_Tenant k then Some True
     else role (pp_Tenant p) (k_User k) (k_Tenant k))"

subsection \<open>Owners and tombstones\<close>

record Owner =
  ow_User :: bytes
  ow_Tenant :: bytes
  ow_Node :: bytes

definition mayAct :: "Principal \<Rightarrow> Owner \<Rightarrow> bool" where
  "mayAct p o' \<longleftrightarrow> pp_User p \<noteq> [] \<and> ow_User o' = pp_User p \<and> ow_Tenant o' = pp_Tenant p"

definition mayEnd :: "Principal \<Rightarrow> bytes \<Rightarrow> bool" where
  "mayEnd p scope \<longleftrightarrow> scope = ''sandbox:delete'' \<and> Can p ''admin''"

record tombstones =
  tb_max :: int
  tb_ttl :: int
  tb_m :: "bytes \<rightharpoonup> Owner \<times> int"
  tb_order :: "bytes list"

definition newTombstones :: "int \<Rightarrow> int \<Rightarrow> tombstones" where
  "newTombstones mx ttl = \<lparr>tb_max = mx, tb_ttl = ttl, tb_m = Map.empty, tb_order = []\<rparr>"

function evict :: "tombstones \<Rightarrow> tombstones" where
  "evict t = (if int (length (tb_order t)) > tb_max t \<and> tb_order t \<noteq> []
     then evict (t\<lparr>tb_m := (tb_m t)(List.hd (tb_order t) := None), tb_order := tl (tb_order t)\<rparr>) else t)"
  by pat_completeness auto
termination by (relation "measure (\<lambda>t. length (tb_order t))") auto

declare evict.simps [simp del]

definition tomb_add :: "bytes \<Rightarrow> Owner \<Rightarrow> int \<Rightarrow> tombstones \<Rightarrow> tombstones" where
  "tomb_add sid o' now t =
    evict (t\<lparr>tb_m := (tb_m t)(sid \<mapsto> (o', now)), tb_order := (if tb_m t sid = None then tb_order t @ [sid] else tb_order t)\<rparr>)"

definition tomb_get :: "bytes \<Rightarrow> int \<Rightarrow> tombstones \<Rightarrow> Owner option" where
  "tomb_get sid now t = (case tb_m t sid of None \<Rightarrow> None | Some (o', since) \<Rightarrow> if now - since > tb_ttl t then None else Some o')"

subsection \<open>What the gateway knows\<close>

text \<open>
  \<open>gv_OwnerOf\<close> is the store's row of a sandbox, seen through \<open>storeFor\<close>: the first argument is the tenant the store is held to, if
  any. \<open>gv_history\<close> are a user's live rows. \<open>gv_nodes\<close> are the nodes by name with their health, and \<open>gv_list\<close> what a node
  answers when asked for the sandboxes with a user's owner label.
\<close>

datatype route_error = ErrUnauthenticated | ErrForbidden | ErrNotFound | ErrNodeDown | ErrStore | ErrNode

datatype listing = Listed "sandbox list" | NeverSent | ListFailed

record view =
  gv_OwnerOf :: "bytes option \<Rightarrow> bytes \<Rightarrow> (route_error, Owner option) result"
  gv_history :: "bytes option \<Rightarrow> bytes \<Rightarrow> bytes \<Rightarrow> (route_error, (bytes \<times> Owner) list) result"
  gv_tombs :: tombstones
  gv_now :: int
  gv_nodes :: "(bytes \<times> bool) list"
  gv_list :: "bytes \<Rightarrow> bytes \<Rightarrow> listing"

definition storeFor :: "Principal \<Rightarrow> bytes option" where
  "storeFor p = (if Can p ''admin'' then None else Some (pp_Tenant p))"

definition ownerOf :: "view \<Rightarrow> Principal \<Rightarrow> bytes \<Rightarrow> (route_error, Owner option) result" where
  "ownerOf g p sid = (case gv_OwnerOf g (storeFor p) sid of
      Inl e \<Rightarrow> Inl e
    | Inr (Some o') \<Rightarrow> Inr (Some o')
    | Inr None \<Rightarrow> Inr (tomb_get sid (gv_now g) (gv_tombs g)))"

subsection \<open>Listing\<close>

definition isHealthy :: "view \<Rightarrow> bytes \<Rightarrow> bool" where
  "isHealthy g n \<longleftrightarrow> map_of (gv_nodes g) n = Some True"

definition healthy_nodes :: "view \<Rightarrow> bytes list" where
  "healthy_nodes g = filter (isHealthy g) (sort (map fst (gv_nodes g)))"

definition listed_here :: "view \<Rightarrow> Principal \<Rightarrow> (bytes \<times> Owner) list \<Rightarrow> bytes \<Rightarrow> sandbox \<Rightarrow> bool" where
  "listed_here g p owned n sb =
    (case (case map_of owned (b_ID sb) of Some o' \<Rightarrow> Some o' | None \<Rightarrow> tomb_get (b_ID sb) (gv_now g) (gv_tombs g)) of
       None \<Rightarrow> False
     | Some o' \<Rightarrow> ow_Node o' = n \<and> ow_User o' = pp_User p \<and> ow_Tenant o' = pp_Tenant p)"

fun listed_on :: "(bytes \<Rightarrow> sandbox \<Rightarrow> bool) \<Rightarrow> (bytes \<Rightarrow> listing) \<Rightarrow> bytes list \<Rightarrow> (route_error, sandbox list) result" where
  "listed_on mine ask [] = Inr []"
| "listed_on mine ask (n # ns) = (case (ask n, listed_on mine ask ns) of
      (ListFailed, _) \<Rightarrow> Inl ErrNode
    | (_, Inl e) \<Rightarrow> Inl e
    | (NeverSent, Inr out) \<Rightarrow> Inr out
    | (Listed sbs, Inr out) \<Rightarrow> Inr (filter (mine n) sbs @ out))"

definition newest :: "sandbox list \<Rightarrow> sandbox list" where
  "newest sbs = rev (sort_key (\<lambda>sb. (b_CreatedAt sb, b_ID sb)) sbs)"

definition listSandboxes :: "view \<Rightarrow> Principal \<Rightarrow> (route_error, sandbox list) result" where
  "listSandboxes g p = and_then (gv_history g (storeFor p) (pp_Tenant p) (pp_User p)) (\<lambda>owned.
     and_then (listed_on (listed_here g p owned) (\<lambda>n. gv_list g n (pp_User p)) (healthy_nodes g)) (\<lambda>out. Inr (newest out)))"

definition byName :: "view \<Rightarrow> Principal \<Rightarrow> bytes \<Rightarrow> (route_error, bytes) result" where
  "byName g p name = and_then (listSandboxes g p) (\<lambda>list.
     let named = filter (\<lambda>sb. b_Name sb = name) list in
     case find live named of
       Some sb \<Rightarrow> Inr (b_ID sb)
     | None \<Rightarrow> (case foldl (\<lambda>best sb. case best of None \<Rightarrow> Some sb
                  | Some b \<Rightarrow> if b_CreatedAt sb > b_CreatedAt b then Some sb else best) None named of
           None \<Rightarrow> Inl ErrNotFound
         | Some sb \<Rightarrow> Inr (b_ID sb)))"

subsection \<open>The router\<close>

text \<open>\<open>resolve\<close>: the scope before the sandbox is looked up; a sandbox the caller may not act on is not found.\<close>

definition found_owner :: "view \<Rightarrow> Principal \<Rightarrow> (Owner \<Rightarrow> bool) \<Rightarrow> bytes \<Rightarrow> (route_error, Owner) result" where
  "found_owner g p may sid = and_then (ownerOf g p sid) (\<lambda>x. case x of
     None \<Rightarrow> Inl ErrNotFound | Some o' \<Rightarrow> if may o' then Inr o' else Inl ErrNotFound)"

definition route_ref :: "view \<Rightarrow> Principal \<Rightarrow> bytes \<Rightarrow> bytes \<Rightarrow> (route_error, bytes \<times> Owner) result" where
  "route_ref g p ref scope =
    (if ValidID ref then and_then (found_owner g p (\<lambda>o'. mayAct p o' \<or> mayEnd p scope) ref) (\<lambda>o'. Inr (ref, o'))
     else if ValidName ref then and_then (byName g p ref) (\<lambda>sid. and_then (found_owner g p (mayAct p) sid) (\<lambda>o'. Inr (sid, o')))
     else Inl ErrNotFound)"

definition route :: "view \<Rightarrow> Principal \<Rightarrow> bytes \<Rightarrow> bytes \<Rightarrow> (route_error, bytes \<times> Owner) result" where
  "route g p ref scope =
    (if pp_User p = [] then Inl ErrUnauthenticated
     else if scope = [] \<or> \<not> Can p scope then Inl ErrForbidden
     else and_then (route_ref g p ref scope) (\<lambda>(sid, o').
       if pp_Sandbox p \<noteq> [] \<and> pp_Sandbox p \<noteq> sid then Inl ErrNotFound
       else if (case NodeOfID sid of None \<Rightarrow> False | Some named \<Rightarrow> named \<noteq> ow_Node o') then Inl ErrNotFound
       else if \<not> isHealthy g (ow_Node o') then Inl ErrNodeDown
       else Inr (sid, o')))"

subsection \<open>Forwarding\<close>

text \<open>\<open>url.PathEscape\<close>: every byte but letters, digits and a few marks as a percent and two capital hexadecimal digits.\<close>

definition path_safe :: "byte \<Rightarrow> bool" where
  "path_safe c \<longleftrightarrow> (let x = nat_of_byte c in 48 \<le> x \<and> x \<le> 57 \<or> 65 \<le> x \<and> x \<le> 90 \<or> 97 \<le> x \<and> x \<le> 122) \<or> c \<in> set ''-_.~$&+:=@''"

definition hex_digit :: "nat \<Rightarrow> byte" where
  "hex_digit x = ''0123456789ABCDEF'' ! x"

definition PathEscape :: "bytes \<Rightarrow> bytes" where
  "PathEscape s = concat (map (\<lambda>c. if path_safe c then [c]
     else [CHR ''%'', hex_digit (nat_of_byte c div 16), hex_digit (nat_of_byte c mod 16)]) s)"

definition forward_target :: "bytes \<Rightarrow> bytes \<Rightarrow> bytes \<Rightarrow> bytes option" where
  "forward_target ref sid path = (case CutPrefix path (''/v1/sandboxes/'' @ ref) of
      None \<Rightarrow> None
    | Some rest \<Rightarrow> let target = ''/v1/sandboxes/'' @ PathEscape sid @ rest in if Clean target \<noteq> target then None else Some target)"

section \<open>Only what is the caller's\<close>

lemma found_owner_Inr: "found_owner g p may sid = Inr o' \<longleftrightarrow> ownerOf g p sid = Inr (Some o') \<and> may o'"
  by (auto simp: found_owner_def split: option.splits if_splits)

lemma listed_on_mine:
  "listed_on mine ask ns = Inr out \<Longrightarrow> sb \<in> set out \<Longrightarrow> \<exists>n sbs. n \<in> set ns \<and> ask n = Listed sbs \<and> sb \<in> set sbs \<and> mine n sb"
  by (induction ns arbitrary: out) (fastforce split: prod.splits listing.splits sum.splits)+

lemma set_newest [simp]: "set (newest sbs) = set sbs"
  by (simp add: newest_def)

lemma listed_is_own:
  assumes "listSandboxes g p = Inr out" "sb \<in> set out"
  shows "\<exists>n sbs owned. isHealthy g n \<and> gv_list g n (pp_User p) = Listed sbs \<and> sb \<in> set sbs \<and>
    gv_history g (storeFor p) (pp_Tenant p) (pp_User p) = Inr owned \<and> listed_here g p owned n sb"
  using assms by (fastforce simp: listSandboxes_def healthy_nodes_def dest: listed_on_mine)

lemma fold_best_in: "foldl (\<lambda>best sb. case best of None \<Rightarrow> Some sb | Some b \<Rightarrow> if f sb > f b then Some sb else best) best xs = Some (x :: 'a) \<Longrightarrow>
    x \<in> set xs \<or> best = Some x" for f :: "'a \<Rightarrow> int"
  by (induction xs arbitrary: best) (fastforce split: option.splits if_splits)+

lemma byName_listed:
  assumes "byName g p name = Inr sid"
  shows "\<exists>out sb. listSandboxes g p = Inr out \<and> sb \<in> set out \<and> b_ID sb = sid \<and> b_Name sb = name"
proof -
  obtain out where out: "listSandboxes g p = Inr out" using assms by (auto simp: byName_def)
  let ?named = "filter (\<lambda>sb. b_Name sb = name) out"
  show ?thesis
  proof (cases "find live ?named")
    case None
    then obtain sb where "b_ID sb = sid" "foldl (\<lambda>best sb. case best of None \<Rightarrow> Some sb
        | Some b \<Rightarrow> if b_CreatedAt sb > b_CreatedAt b then Some sb else best) None ?named = Some sb"
      using assms out by (auto simp: byName_def Let_def split: option.splits)
    then show ?thesis using out fold_best_in [where f = b_CreatedAt and best = None] by fastforce
  next
    case (Some sb)
    then have "sb \<in> set ?named" by (metis find_Some_iff nth_mem)
    then show ?thesis using assms out Some by (auto simp: byName_def Let_def)
  qed
qed

text \<open>
  C9: A request is routed to a sandbox only for a principal that has a user and holds the scope, to the sandbox
  the store or a tombstone records as the user's own in the tenant the request acts in; an operator's delete
  by id is the one exception. A name is one of the caller's own sandboxes'. A principal confined to one
  sandbox reaches no other, the node is the recorded one and answering, and an id naming another node
  goes nowhere.
\<close>

theorem routed_only_to_own:
  assumes "route g p ref scope = Inr (sid, o')"
  shows "pp_User p \<noteq> [] \<and> Can p scope \<and> ownerOf g p sid = Inr (Some o') \<and>
    (ow_User o' = pp_User p \<and> ow_Tenant o' = pp_Tenant p \<or> scope = ''sandbox:delete'' \<and> ''admin'' \<in> set (pp_Scopes p) \<and> ref = sid) \<and>
    (ref = sid \<or> (\<exists>out sb. listSandboxes g p = Inr out \<and> sb \<in> set out \<and> b_ID sb = sid \<and> b_Name sb = ref)) \<and>
    pp_Sandbox p \<in> {[], sid} \<and> isHealthy g (ow_Node o') \<and> NodeOfID sid \<in> {None, Some (ow_Node o')}"
proof -
  have r: "route_ref g p ref scope = Inr (sid, o')" and rest: "pp_User p \<noteq> []" "Can p scope" "pp_Sandbox p \<in> {[], sid}"
    "isHealthy g (ow_Node o')" "NodeOfID sid \<in> {None, Some (ow_Node o')}"
    using assms by (auto simp: route_def split: if_splits option.splits)
  show ?thesis
  proof (cases "ValidID ref")
    case True
    then have "ref = sid" "ownerOf g p sid = Inr (Some o')" "mayAct p o' \<or> mayEnd p scope"
      using r by (auto simp: route_ref_def found_owner_Inr)
    then show ?thesis using rest by (auto simp: mayAct_def mayEnd_def Can_def)
  next
    case False
    then have "byName g p ref = Inr sid" "ownerOf g p sid = Inr (Some o')" "mayAct p o'"
      using r by (auto simp: route_ref_def found_owner_Inr split: if_splits)
    then show ?thesis using rest byName_listed [of g p ref sid] by (auto simp: mayAct_def)
  qed
qed

text \<open>
  What a caller may see of two views of the gateway is the same: the nodes and their health, the caller's own rows,
  the owners of the caller's own sandboxes, and those of the caller's sandboxes each node lists. Everything about others may
  differ: which sandboxes there are, whose, where, which were deleted.
\<close>

definition own_part :: "Principal \<Rightarrow> (route_error, Owner option) result \<Rightarrow> (route_error, Owner option) result" where
  "own_part p r = (case r of Inr (Some o') \<Rightarrow> Inr (if mayAct p o' then Some o' else None) | _ \<Rightarrow> r)"

fun own_listing :: "(sandbox \<Rightarrow> bool) \<Rightarrow> listing \<Rightarrow> listing" where
  "own_listing mine (Listed sbs) = Listed (filter mine sbs)"
| "own_listing mine l = l"

definition same_to :: "Principal \<Rightarrow> view \<Rightarrow> view \<Rightarrow> bool" where
  "same_to p g h \<longleftrightarrow> gv_nodes g = gv_nodes h \<and>
     gv_history g (storeFor p) (pp_Tenant p) (pp_User p) = gv_history h (storeFor p) (pp_Tenant p) (pp_User p) \<and>
     (\<forall>sid. own_part p (ownerOf g p sid) = own_part p (ownerOf h p sid)) \<and>
     (\<forall>n owned. gv_history g (storeFor p) (pp_Tenant p) (pp_User p) = Inr owned \<longrightarrow>
       own_listing (listed_here g p owned n) (gv_list g n (pp_User p)) = own_listing (listed_here h p owned n) (gv_list h n (pp_User p)))"

lemma listed_on_cong:
  "(\<And>n. own_listing (mine n) (ask n) = own_listing (mine' n) (ask' n)) \<Longrightarrow> listed_on mine ask ns = listed_on mine' ask' ns"
proof (induction ns)
  case (Cons n ns)
  have "own_listing (mine n) (ask n) = own_listing (mine' n) (ask' n)" by (rule Cons.prems)
  then show ?case using Cons.IH [OF Cons.prems] by (cases "ask n"; cases "ask' n") (auto split: sum.splits)
qed simp

lemma same_list: "same_to p g h \<Longrightarrow> listSandboxes g p = listSandboxes h p"
proof -
  assume s: "same_to p g h"
  have "healthy_nodes g = healthy_nodes h" using s by (simp add: healthy_nodes_def isHealthy_def [abs_def] same_to_def)
  moreover have "listed_on (listed_here g p owned) (\<lambda>n. gv_list g n (pp_User p)) ns = listed_on (listed_here h p owned) (\<lambda>n. gv_list h n (pp_User p)) ns"
    if "gv_history g (storeFor p) (pp_Tenant p) (pp_User p) = Inr owned" for owned ns
    using s that by (intro listed_on_cong) (auto simp: same_to_def)
  moreover have "gv_history h (storeFor p) (pp_Tenant p) (pp_User p) = gv_history g (storeFor p) (pp_Tenant p) (pp_User p)"
    using s by (simp add: same_to_def)
  ultimately show ?thesis
    by (cases "gv_history g (storeFor p) (pp_Tenant p) (pp_User p)") (simp_all add: listSandboxes_def)
qed

lemma same_found: "same_to p g h \<Longrightarrow> found_owner g p (mayAct p) sid = found_owner h p (mayAct p) sid"
proof -
  assume "same_to p g h"
  then have "own_part p (ownerOf g p sid) = own_part p (ownerOf h p sid)" by (simp add: same_to_def)
  then show ?thesis
    by (cases "ownerOf g p sid"; cases "ownerOf h p sid") (auto simp: found_owner_def own_part_def split: option.splits if_splits)
qed

text \<open>
  C32: A caller learns nothing about sandboxes that are not its own: with any reference and any scope, a
  request that is not an operator's delete gets the same answer whatever others have, had or deleted.
\<close>

theorem routing_hides_others:
  assumes "same_to p g h" and "\<not> (scope = ''sandbox:delete'' \<and> ''admin'' \<in> set (pp_Scopes p))"
  shows "route g p ref scope = route h p ref scope"
proof -
  have "(\<lambda>o'. mayAct p o' \<or> mayEnd p scope) = mayAct p" using assms(2) by (auto simp: mayEnd_def Can_def)
  then have "route_ref g p ref scope = route_ref h p ref scope"
    by (simp add: route_ref_def same_found [OF assms(1)] byName_def same_list [OF assms(1)])
  moreover have "isHealthy g = isHealthy h" using assms(1) by (simp add: isHealthy_def [abs_def] same_to_def)
  ultimately show ?thesis by (cases "route_ref h p ref scope") (auto simp: route_def)
qed

text \<open>A gateway with a sandbox of ann's and one of bob's on node n1, and the same gateway without bob's.\<close>

definition ann :: Principal where
  "ann = \<lparr>pp_User = ''ann'', pp_Tenant = [], pp_KeyTenant = [], pp_KeyID = ''k1'', pp_Scopes = [''sandbox:read''], pp_Sandbox = [],
     pp_Bound = False, pp_BoundOrg = []\<rparr>"

definition ann_id :: bytes where
  "ann_id = ''sbx_n1_0123456789abcdef''"

definition bob_id :: bytes where
  "bob_id = ''sbx_n1_fedcba9876543210''"

definition demo_view :: "(bytes \<times> Owner) list \<Rightarrow> view" where
  "demo_view rows = \<lparr>gv_OwnerOf = (\<lambda>_ sid. Inr (map_of rows sid)), gv_history = (\<lambda>_ _ _. Inr []), gv_tombs = newTombstones 10 60,
     gv_now = 0, gv_nodes = [(''n1'', True)], gv_list = (\<lambda>_ _. Listed [])\<rparr>"

definition demo_rows :: "(bytes \<times> Owner) list" where
  "demo_rows = [(ann_id, \<lparr>ow_User = ''ann'', ow_Tenant = [], ow_Node = ''n1''\<rparr>), (bob_id, \<lparr>ow_User = ''bob'', ow_Tenant = [], ow_Node = ''n1''\<rparr>)]"

lemma demo_ids: "ValidID ann_id" "ValidID bob_id" "NodeOfID ann_id = Some ''n1''"
  by code_simp+

theorem routed_only_to_own_witness:
  "route (demo_view demo_rows) ann ann_id ''sandbox:read'' = Inr (ann_id, \<lparr>ow_User = ''ann'', ow_Tenant = [], ow_Node = ''n1''\<rparr>) \<and>
   ownerOf (demo_view demo_rows) ann ann_id = Inr (Some \<lparr>ow_User = ''ann'', ow_Tenant = [], ow_Node = ''n1''\<rparr>)"
proof -
  have r: "route (demo_view demo_rows) ann ann_id ''sandbox:read'' = Inr (ann_id, \<lparr>ow_User = ''ann'', ow_Tenant = [], ow_Node = ''n1''\<rparr>)"
    by (simp add: route_def route_ref_def demo_ids found_owner_def ownerOf_def demo_view_def demo_rows_def ann_def Can_def mayAct_def isHealthy_def)
  from routed_only_to_own [OF r] r show ?thesis by simp
qed

lemma ids_differ: "ann_id \<noteq> bob_id"
  by (simp add: ann_id_def bob_id_def)

lemma demo_same: "same_to ann (demo_view demo_rows) (demo_view [hd demo_rows])"
  using ids_differ
  by (auto simp: same_to_def demo_view_def demo_rows_def ownerOf_def own_part_def mayAct_def ann_def tomb_get_def newTombstones_def)

theorem routing_hides_others_witness:
  "route (demo_view demo_rows) ann bob_id ''sandbox:read'' = route (demo_view [hd demo_rows]) ann bob_id ''sandbox:read''"
  by (rule routing_hides_others [OF demo_same]) simp

subsection \<open>Forwarded paths\<close>

lemma PathEscape_id: "list_all path_safe s \<Longrightarrow> PathEscape s = s"
  by (induction s) (auto simp: PathEscape_def)

lemma ValidID_chars: "ValidID sid \<Longrightarrow> c \<in> set sid \<Longrightarrow> path_safe c \<and> c \<noteq> CHR ''/'' \<and> c \<noteq> CHR ''.''"
proof -
  assume "ValidID sid" "c \<in> set sid"
  then have "in_cls c (rx_chars idRE)" using rx_match_chars [of idRE sid c] by (simp add: ValidID_def)
  moreover have "list_all (\<lambda>(lo, hi). lo = hi \<and> lo \<in> set ''-_'' \<or> 97 \<le> nat_of_byte lo \<and> nat_of_byte hi \<le> 122 \<or>
      48 \<le> nat_of_byte lo \<and> nat_of_byte hi \<le> 57) (rx_chars idRE)" by code_simp
  ultimately obtain lo hi where r: "nat_of_byte lo \<le> nat_of_byte c" "nat_of_byte c \<le> nat_of_byte hi"
    "lo = hi \<and> lo \<in> set ''-_'' \<or> 97 \<le> nat_of_byte lo \<and> nat_of_byte hi \<le> 122 \<or> 48 \<le> nat_of_byte lo \<and> nat_of_byte hi \<le> 57"
    by (fastforce simp: in_cls_def list_ex_iff list_all_iff)
  have "c = lo" if "lo = hi" using r(1,2) that of_char_eq_iff [where 'a = nat, of c lo] le_antisym by metis
  with r have "c \<in> set ''-_'' \<or> 97 \<le> nat_of_byte c \<and> nat_of_byte c \<le> 122 \<or> 48 \<le> nat_of_byte c \<and> nat_of_byte c \<le> 57"
    by (elim disjE conjE) (simp_all only:, auto)
  then show ?thesis by (auto simp: path_safe_def Let_def)
qed

lemma ValidID_comp: "ValidID sid \<Longrightarrow> is_comp sid \<and> PathEscape sid = sid"
proof -
  assume v: "ValidID sid"
  have "sid \<noteq> []" using v by (auto simp: ValidID_def) code_simp
  then have "is_comp sid" using ValidID_chars [OF v] unfolding is_comp_def by force
  moreover have "list_all path_safe sid" using ValidID_chars [OF v] by (simp add: list_all_iff)
  ultimately show ?thesis by (simp add: PathEscape_id)
qed

lemma clean_step_comps: "list_all is_comp acc \<Longrightarrow> \<forall>c \<in> set cs. c \<noteq> ''..'' \<longrightarrow> is_comp c \<Longrightarrow> list_all is_comp (foldl (clean_step True) acc cs)"
proof (induction cs arbitrary: acc)
  case (Cons c cs)
  have "acc \<noteq> [] \<Longrightarrow> last acc \<noteq> ''..''" using Cons.prems(1) last_in_set [of acc] by (auto simp: list_all_iff is_comp_def)
  then have "list_all is_comp (clean_step True acc c)"
    using Cons.prems by (auto simp: list_all_iff dest: in_set_butlastD)
  then show ?case using Cons by simp
qed simp

lemma Clean_rooted: "IsAbs p \<Longrightarrow> \<exists>cs. list_all is_comp cs \<and> Clean p = abs_path cs"
proof -
  assume a: "IsAbs p"
  then have "p \<noteq> []" by (auto simp: IsAbs_def HasPrefix_def)
  let ?cs = "foldl (clean_step True) [] (path_comps p)"
  have "list_all is_comp ?cs"
    by (rule clean_step_comps) (auto simp: path_comps_def is_comp_def dest: Split_no_slash)
  moreover have "Clean p = abs_path ?cs"
    using a \<open>p \<noteq> []\<close> by (cases "?cs = []") (simp_all add: Clean_def Let_def Join_slash abs_path_def)
  ultimately show ?thesis by blast
qed

text \<open>
  C33: The path a request is forwarded to names the sandbox the router found, in one segment of its own, and
  what follows it has no empty, dot or dot-dot segment: however the caller's path was written or escaped, the
  node is never asked about another sandbox.
\<close>

theorem forwarded_stays_on_sandbox:
  assumes "forward_target ref sid (''/v1/sandboxes/'' @ ref @ rest) = Some target" and "ValidID sid"
    and "rest = [] \<or> (\<exists>r. rest = CHR ''/'' # r)"
  shows "\<exists>cs. list_all is_comp cs \<and> target = abs_path ([''v1'', ''sandboxes'', sid] @ cs)"
proof -
  have sid: "is_comp sid" "PathEscape sid = sid" using ValidID_comp [OF assms(2)] by auto
  have t: "target = ''/v1/sandboxes/'' @ sid @ rest" "Clean target = target"
    using assms(1) sid(2) by (auto simp: forward_target_def CutPrefix_def HasPrefix_def Let_def split: if_splits)
  have abs: "IsAbs target" by (simp add: t(1) IsAbs_def HasPrefix_def)
  obtain cs where cs: "list_all is_comp cs" "target = abs_path cs" using Clean_rooted [OF abs] t(2) by auto
  have one: "path_comps c = [c]" if "is_comp c" for c using that by (auto simp: path_comps_def is_comp_def Split_single)
  have known: "is_comp ''v1''" "is_comp ''sandboxes''" by (simp_all add: is_comp_def)
  obtain more' where "path_comps target = path_comps [] @ path_comps ''v1'' @ path_comps ''sandboxes'' @ path_comps sid @ more'"
  proof (cases "rest = []")
    case True
    then show ?thesis
      using that [of "[]"] path_comps_slash [of "[]" "''v1/sandboxes/'' @ sid"] path_comps_slash [of "''v1''" "''sandboxes/'' @ sid"]
        path_comps_slash [of "''sandboxes''" sid] by (simp add: t(1))
  next
    case False
    then obtain r where "rest = CHR ''/'' # r" using assms(3) by blast
    then show ?thesis
      using that [of "path_comps r"] path_comps_slash [of "[]" "''v1/sandboxes/'' @ sid @ rest"] path_comps_slash [of "''v1''" "''sandboxes/'' @ sid @ rest"]
        path_comps_slash [of "''sandboxes''" "sid @ rest"] path_comps_slash [of sid r] by (simp add: t(1))
  qed
  moreover have "path_comps [] = []" by (simp add: path_comps_def Split_single)
  ultimately have "cs = [''v1'', ''sandboxes'', sid] @ more'"
    using path_comps_abs_path [OF cs(1)] cs(2) by (simp add: one known sid)
  then show ?thesis using cs by (auto simp: list_all_iff)
qed

theorem forwarded_stays_on_sandbox_witness:
  "forward_target ''web'' ann_id ''/v1/sandboxes/web/files'' = Some (''/v1/sandboxes/'' @ ann_id @ ''/files'') \<and>
   (\<exists>cs. list_all is_comp cs \<and> ''/v1/sandboxes/'' @ ann_id @ ''/files'' = abs_path ([''v1'', ''sandboxes'', ann_id] @ cs))"
proof -
  have f: "forward_target ''web'' ann_id ''/v1/sandboxes/web/files'' = Some (''/v1/sandboxes/'' @ ann_id @ ''/files'')" by code_simp
  from forwarded_stays_on_sandbox [of "''web''" ann_id "''/files''"] f demo_ids(1) show ?thesis by simp
qed

section \<open>The organisation a key acts in\<close>

lemma EqualFold_lower: "list_all ascii t \<Longrightarrow> EqualFold (ToLower lr t) u = EqualFold t u"
proof -
  assume a: "list_all ascii t"
  have f: "fold_rune (nat_of_byte (ascii_lower c)) = fold_rune (nat_of_byte c)" if "ascii c" for c
    using that by (auto simp: fold_rune_def ascii_lower_def ascii_def)
  have "list_all ascii (map ascii_lower t)" using a by (simp add: list_all_iff ascii_lower_ascii)
  then have "map fold_rune (runes (map ascii_lower t)) = map fold_rune (runes t)"
    using a f by (simp add: runes_ascii list_all_iff)
  then show ?thesis using a by (simp add: EqualFold_def ToLower_ascii)
qed

text \<open>
  C34: The tenant a request acts in is the key's own or that of an organisation its user is a member of; a key
  bound to an organisation acts there only. What \<open>selectOrg\<close> lets through, the recheck of open requests lets
  stand: the two agree on every key, while nothing changes. Names of organisations are ASCII, the store takes
  them in any case, and no tenant is called as the default one is on the wire.
\<close>

theorem selected_org_is_members:
  assumes "selectOrg lr role vals (principal_of k) = Inr p" and "k_Tenant k \<noteq> ''default''"
    and "\<And>v. v \<in> set vals \<Longrightarrow> list_all ascii (TrimSpace v)" "list_all ascii (k_Org k)"
    and "\<And>t u ut. list_all ascii t \<Longrightarrow> role (ToLower lr t) u ut = role t u ut"
  shows "(pp_Tenant p = k_Tenant k \<or> role (pp_Tenant p) (k_User k) (k_Tenant k) = Some True) \<and>
    (k_Bound k \<longrightarrow> EqualFold (pp_Tenant p) (k_Org k)) \<and> pp_User p = k_User k \<and> pp_Scopes p = k_Scopes k \<and>
    stillInTenant role p k = Some True"
proof -
  let ?q = "principal_of k"
  define name0 where "name0 = (case vals of [] \<Rightarrow> [] | v # _ \<Rightarrow> TrimSpace v)"
  define name where "name = (if k_Bound k \<and> name0 = [] then wireOrg (k_Org k) else name0)"
  have asc: "list_all ascii (tenantOfOrg name)"
    using assms(3,4) by (auto simp: name_def name0_def tenantOfOrg_def wireOrg_def split: list.split)
  note sel = assms(1) [unfolded selectOrg_def Let_def, folded name0_def]
  have bound: "k_Bound k \<longrightarrow> EqualFold (tenantOfOrg name) (k_Org k) \<and> name \<noteq> []"
    using sel by (auto simp: name_def principal_of_def wireOrg_def split: if_split_asm)
  consider (own) "p = ?q" "name = [] \<or> tenantOfOrg name = k_Tenant k \<or> name = k_Tenant k"
    | (org) "role (tenantOfOrg name) (k_User k) (k_Tenant k) = Some True"
        "p = ?q\<lparr>pp_Tenant := (if tenantOfOrg name \<noteq> [] then ToLower lr (tenantOfOrg name) else tenantOfOrg name)\<rparr>"
    using sel by (auto simp: name_def principal_of_def split: if_split_asm option.split_asm bool.split_asm)
  then show ?thesis
  proof cases
    case own
    have "k_Bound k \<longrightarrow> EqualFold (k_Tenant k) (k_Org k)"
      using bound own(2) assms(2) by (auto simp: tenantOfOrg_def split: if_split_asm)
    then show ?thesis using own(1) by (simp add: principal_of_def stillInTenant_def)
  next
    case org
    then have "role (pp_Tenant p) (k_User k) (k_Tenant k) = Some True" using assms(5) [OF asc] by (cases "tenantOfOrg name = []") simp_all
    moreover have "k_Bound k \<longrightarrow> EqualFold (pp_Tenant p) (k_Org k)" using bound EqualFold_lower [OF asc] org(2) by (cases "tenantOfOrg name = []") simp_all
    ultimately show ?thesis using org(2) by (simp add: principal_of_def stillInTenant_def)
  qed
qed

text \<open>A personal key of ann's bound to organisation acme, used without naming one.\<close>

theorem selected_org_is_members_witness:
  "\<exists>p. selectOrg (\<lambda>x. x) (\<lambda>t _ _. Some (ToLower (\<lambda>x. x) t = ''acme'')) []
      (principal_of \<lparr>k_ID = ''k1'', k_User = ''ann'', k_Tenant = [], k_Scopes = [''sandbox:read''], k_Revoked = False, k_Expires = None,
        k_Parent = ''k0'', k_Bound = True, k_Org = ''acme'', k_RestoreUntil = None\<rparr>) = Inr p \<and> EqualFold (pp_Tenant p) ''acme''"
proof -
  define k where "k = \<lparr>k_ID = ''k1'', k_User = ''ann'', k_Tenant = [], k_Scopes = [''sandbox:read''], k_Revoked = False, k_Expires = None,
        k_Parent = ''k0'', k_Bound = True, k_Org = ''acme'', k_RestoreUntil = None\<rparr>"
  let ?role = "\<lambda>t u ut. Some (ToLower (\<lambda>x. x) t = ''acme'')"
  have "EqualFold ''acme'' ''acme''" by (simp add: EqualFold_def)
  moreover have low: "ToLower (\<lambda>x. x) ''acme'' = ''acme''" by code_simp
  ultimately have s: "selectOrg (\<lambda>x. x) ?role [] (principal_of k) = Inr ((principal_of k)\<lparr>pp_Tenant := ''acme''\<rparr>)"
    by (simp add: selectOrg_def principal_of_def k_def wireOrg_def tenantOfOrg_def Let_def)
  have "ToLower (\<lambda>x. x) (ToLower (\<lambda>x. x) t) = ToLower (\<lambda>x. x) t" if "list_all ascii t" for t
    using that by (simp add: ToLower_ascii list_all_iff ascii_lower_ascii)
  moreover have "list_all ascii ''acme''" by code_simp
  ultimately show ?thesis
    using selected_org_is_members [OF s] s unfolding k_def [symmetric] by (simp add: k_def)
qed

section \<open>Tombstones\<close>

definition tombs_ok :: "tombstones \<Rightarrow> bool" where
  "tombs_ok t \<longleftrightarrow> distinct (tb_order t) \<and> dom (tb_m t) = set (tb_order t) \<and> int (length (tb_order t)) \<le> tb_max t"

lemma evict_fits: "int (length (tb_order t)) \<le> tb_max t \<Longrightarrow> evict t = t"
  by (subst evict.simps) simp

lemma evict_one:
  assumes "int (length (tb_order t)) = tb_max t + 1" "tb_order t = x # xs"
  shows "evict t = t\<lparr>tb_m := (tb_m t)(x := None), tb_order := xs\<rparr>"
  using assms by (subst evict.simps) (simp add: evict_fits)

lemma tomb_add_known:
  "tombs_ok t \<Longrightarrow> tb_m t sid \<noteq> None \<Longrightarrow> tomb_add sid o' now t = t\<lparr>tb_m := (tb_m t)(sid \<mapsto> (o', now))\<rparr>"
  by (cases t) (auto simp: tomb_add_def tombs_ok_def evict_fits)

lemma tomb_add_new:
  assumes "tombs_ok t" "tb_m t sid = None" "1 \<le> tb_max t"
  shows "tomb_add sid o' now t = (if int (length (tb_order t)) < tb_max t
    then t\<lparr>tb_m := (tb_m t)(sid \<mapsto> (o', now)), tb_order := tb_order t @ [sid]\<rparr>
    else t\<lparr>tb_m := ((tb_m t)(sid \<mapsto> (o', now)))(List.hd (tb_order t) := None), tb_order := tl (tb_order t) @ [sid]\<rparr>)"
proof (cases "int (length (tb_order t)) < tb_max t")
  case True
  then show ?thesis using assms by (simp add: tomb_add_def evict_fits)
next
  case False
  then obtain x xs where x: "tb_order t = x # xs" using assms(3) by (cases "tb_order t") auto
  then show ?thesis
    using False assms evict_one [of "t\<lparr>tb_m := (tb_m t)(sid \<mapsto> (o', now)), tb_order := tb_order t @ [sid]\<rparr>" x "xs @ [sid]"]
    by (simp add: tomb_add_def tombs_ok_def)
qed

lemma tombs_ok_add: "tombs_ok t \<Longrightarrow> 1 \<le> tb_max t \<Longrightarrow> tombs_ok (tomb_add sid o' now t) \<and> tb_max (tomb_add sid o' now t) = tb_max t"
proof -
  assume t: "tombs_ok t" and m: "1 \<le> tb_max t"
  show ?thesis
  proof (cases "tb_m t sid")
    case None
    then have "sid \<notin> set (tb_order t)" using t by (auto simp: tombs_ok_def)
    moreover have "tb_order t \<noteq> [] \<Longrightarrow> set (tl (tb_order t)) = set (tb_order t) - {List.hd (tb_order t)} \<and> distinct (tl (tb_order t))"
      using t by (cases "tb_order t") (auto simp: tombs_ok_def)
    ultimately show ?thesis using t m by (cases "tb_order t = []") (auto simp: tomb_add_new [OF t None m] tombs_ok_def)
  next
    case (Some x)
    then show ?thesis using t by (auto simp: tomb_add_known tombs_ok_def)
  qed
qed

text \<open>
  After any sequence of deletions the gateway remembers at most as many as it keeps, and of the one deleted
  last it says who owned it until its time is over: it is never the one that is dropped.
\<close>

theorem tombstones_bounded:
  assumes "1 \<le> mx" "0 \<le> ttl" "t = foldl (\<lambda>t (sid, o', at'). tomb_add sid o' at' t) (newTombstones mx ttl) ds"
  shows "int (card (dom (tb_m t))) \<le> mx \<and> (now \<le> since + ttl \<longrightarrow> tomb_get sid now (tomb_add sid o' since t) = Some o')"
proof -
  have "tombs_ok (foldl (\<lambda>t (sid, o', at'). tomb_add sid o' at' t) t ds) \<and> tb_max (foldl (\<lambda>t (sid, o', at'). tomb_add sid o' at' t) t ds) = tb_max t \<and>
      tb_ttl (foldl (\<lambda>t (sid, o', at'). tomb_add sid o' at' t) t ds) = tb_ttl t"
    if "tombs_ok t" "1 \<le> tb_max t" for t
    using that
  proof (induction ds arbitrary: t)
    case (Cons d ds)
    obtain sid o' at' where d: "d = (sid, o', at')" by (cases d)
    have "tb_ttl (tomb_add sid o' at' t) = tb_ttl t"
      using tomb_add_known [OF Cons.prems(1), of sid o' at'] tomb_add_new [OF Cons.prems(1) _ Cons.prems(2), of sid o' at']
      by (cases "tb_m t sid = None") auto
    then show ?case using Cons tombs_ok_add [OF Cons.prems, of sid o' at'] by (simp add: d)
  qed simp
  moreover have "tombs_ok (newTombstones mx ttl)" using assms(1) by (simp add: tombs_ok_def newTombstones_def)
  ultimately have ok: "tombs_ok t" "tb_max t = mx" "tb_ttl t = ttl" using assms(1,3) by (auto simp: newTombstones_def)
  have "card (dom (tb_m t)) = length (tb_order t)" using ok(1) by (metis distinct_card tombs_ok_def)
  moreover have "tomb_get sid now (tomb_add sid o' since t) = Some o'" if "now \<le> since + ttl"
  proof (cases "tb_m t sid")
    case None
    have "sid \<noteq> List.hd (tb_order t)" if "tb_order t \<noteq> []" using that None ok(1) by (metis domIff list.set_sel(1) tombs_ok_def)
    then show ?thesis using that None ok assms(1) by (cases "tb_order t = []") (auto simp: tomb_add_new tomb_get_def)
  next
    case (Some x)
    then show ?thesis using that ok by (simp add: tomb_add_known tomb_get_def)
  qed
  ultimately show ?thesis using ok by (simp add: tombs_ok_def)
qed

theorem tombstones_bounded_witness:
  "tomb_get ''b'' 5 (tomb_add ''b'' \<lparr>ow_User = ''ann'', ow_Tenant = [], ow_Node = ''n1''\<rparr> 2
     (tomb_add ''a'' \<lparr>ow_User = ''bob'', ow_Tenant = [], ow_Node = ''n1''\<rparr> 1 (newTombstones 1 60))) = Some \<lparr>ow_User = ''ann'', ow_Tenant = [], ow_Node = ''n1''\<rparr>"
  using tombstones_bounded [of 1 60 _ "[(''a'', \<lparr>ow_User = ''bob'', ow_Tenant = [], ow_Node = ''n1''\<rparr>, 1)]" 5 2 "''b''"
      "\<lparr>ow_User = ''ann'', ow_Tenant = [], ow_Node = ''n1''\<rparr>", OF _ _ refl] by simp

end
