(* ===== verification/Gateway_Names.thy ===== *)
theory Gateway_Names
  imports Gateway_Access
begin

text \<open>
  The names of a user's sandboxes (\<open>claim\<close>, \<open>unclaim\<close> of \<open>internal/gateway/gateway.go\<close>, the name's part of \<open>createSpread\<close> in \<open>sandboxes.go\<close> and of
  \<open>updateHandler\<close> in \<open>update.go\<close>). A node keeps names apart among its own sandboxes; the gateway keeps a user's apart across nodes, by a
  claim on the name held while the user's sandboxes are listed and the sandbox is made or renamed.
\<close>

subsection \<open>The claim and the check\<close>

definition sandbox_key :: "Principal \<Rightarrow> bytes \<Rightarrow> bytes" where
  "sandbox_key p name = ''sbx'' @ [CHR 0x00] @ pp_User p @ [CHR 0x00] @ pp_Tenant p @ [CHR 0x00] @ name"

definition claim_key :: "bytes \<Rightarrow> bytes list \<Rightarrow> bytes list option" where
  "claim_key key claimed = (if key \<in> set claimed then None else Some (key # claimed))"

definition unclaim :: "bytes \<Rightarrow> bytes list \<Rightarrow> bytes list" where
  "unclaim key claimed = filter (\<lambda>k. k \<noteq> key) claimed"

datatype name_error = NameTaken | NotListed route_error

text \<open>\<open>self\<close> is the sandbox that is renamed, None at a create.\<close>

definition name_check :: "view \<Rightarrow> Principal \<Rightarrow> bytes option \<Rightarrow> bytes \<Rightarrow> name_error option" where
  "name_check g p self name = (case listSandboxes g p of
      Inl e \<Rightarrow> Some (NotListed e)
    | Inr out \<Rightarrow> if list_ex (\<lambda>sb. self \<noteq> Some (b_ID sb) \<and> b_Name sb = name \<and> b_State sb \<noteq> Terminated) out then Some NameTaken else None)"

subsection \<open>Creates and renames, interleaved\<close>

text \<open>
  A request that has the claim; one that found the name free; a create whose node has made the sandbox and whose owner
  is not yet recorded; one that is through.
\<close>

datatype name_op =
  Claimed Principal bytes "bytes option"
| Free Principal bytes "bytes option"
| Made Principal bytes bytes bytes
| Through Principal bytes

fun op_key :: "name_op \<Rightarrow> bytes" where
  "op_key (Claimed p name self) = sandbox_key p name"
| "op_key (Free p name self) = sandbox_key p name"
| "op_key (Made p name sid n) = sandbox_key p name"
| "op_key (Through p name) = sandbox_key p name"

text \<open>\<open>nm_all\<close> are the sandboxes of all nodes, each with its node; \<open>nm_used\<close> the ids any node has ever given out.\<close>

record names =
  nm_claimed :: "bytes list"
  nm_rows :: "(bytes \<times> Owner) list"
  nm_all :: "(bytes \<times> sandbox) list"
  nm_used :: "bytes set"
  nm_ops :: "nat \<Rightarrow> name_op option"

definition has_owner :: "bytes \<Rightarrow> bytes \<Rightarrow> Owner \<Rightarrow> bool" where
  "has_owner u t o' \<longleftrightarrow> ow_User o' = u \<and> ow_Tenant o' = t"

text \<open>
  What the gateway sees when \<open>nodes\<close> are healthy and answer: a node lists by the owner's label, the store has the rows. A node that is unhealthy or
  cannot be connected to is left out of the listing.
\<close>

definition names_view :: "bytes list \<Rightarrow> tombstones \<Rightarrow> int \<Rightarrow> names \<Rightarrow> view" where
  "names_view nodes tombs now s = \<lparr>gv_OwnerOf = (\<lambda>_ sid. Inr (map_of (nm_rows s) sid)),
     gv_history = (\<lambda>_ t u. Inr (filter (\<lambda>(_, o'). has_owner u t o') (nm_rows s))), gv_tombs = tombs, gv_now = now,
     gv_nodes = map (\<lambda>n. (n, True)) nodes,
     gv_list = (\<lambda>n u. Listed (map snd (filter (\<lambda>(m, sb). m = n \<and> map_of (b_Labels sb) ''gateway.owner'' = Some u) (nm_all s))))\<rparr>"

text \<open>A live sandbox of the name, other than the one renamed, is on a node that the listing leaves out.\<close>

definition left_out :: "bytes list \<Rightarrow> names \<Rightarrow> Principal \<Rightarrow> bytes option \<Rightarrow> bytes \<Rightarrow> bool" where
  "left_out nodes s p self name \<longleftrightarrow> list_ex (\<lambda>(n, sb). n \<notin> set nodes \<and> live sb \<and> b_Name sb = name \<and> self \<noteq> Some (b_ID sb) \<and>
     (case map_of (nm_rows s) (b_ID sb) of None \<Rightarrow> False | Some o' \<Rightarrow> has_owner (pp_User p) (pp_Tenant p) o')) (nm_all s)"

definition on_id :: "bytes \<Rightarrow> (sandbox \<Rightarrow> sandbox) \<Rightarrow> (bytes \<times> sandbox) list \<Rightarrow> (bytes \<times> sandbox) list" where
  "on_id sid f = map (\<lambda>(n, sb). (n, if b_ID sb = sid then f sb else sb))"

definition end_claim :: "nat \<Rightarrow> name_op \<Rightarrow> names \<Rightarrow> names" where
  "end_claim i op s = s\<lparr>nm_claimed := unclaim (op_key op) (nm_claimed s), nm_ops := (nm_ops s)(i := None)\<rparr>"

text \<open>
  A sandbox with no name is made without a claim. The row of a sandbox is dropped once the sandbox is not live on its
  node: \<open>afterDelete\<close> and \<open>reconcileNode\<close>.
\<close>

inductive nstep :: "bytes list \<Rightarrow> names \<Rightarrow> names \<Rightarrow> bool" for nodes where
  n_claim: "name \<noteq> [] \<Longrightarrow> claim_key (sandbox_key p name) (nm_claimed s) = Some claimed \<Longrightarrow> nm_ops s i = None \<Longrightarrow>
    (\<forall>sid. self = Some sid \<longrightarrow> (\<exists>o'. map_of (nm_rows s) sid = Some o' \<and> mayAct p o')) \<Longrightarrow>
    nstep nodes s (s\<lparr>nm_claimed := claimed, nm_ops := (nm_ops s)(i \<mapsto> Claimed p name self)\<rparr>)"
| n_listed: "nm_ops s i = Some (Claimed p name self) \<Longrightarrow> name_check (names_view up tombs now s) p self name = None \<Longrightarrow> \<not> left_out up s p self name \<Longrightarrow>
    nstep nodes s (s\<lparr>nm_ops := (nm_ops s)(i \<mapsto> Free p name self)\<rparr>)"
| n_make: "nm_ops s i = Some (Free p name None) \<Longrightarrow> n \<in> set nodes \<Longrightarrow> b_ID sb \<notin> nm_used s \<Longrightarrow> b_Name sb = name \<Longrightarrow>
    map_of (b_Labels sb) ''gateway.owner'' = Some (pp_User p) \<Longrightarrow>
    nstep nodes s (s\<lparr>nm_all := (n, sb) # nm_all s, nm_used := insert (b_ID sb) (nm_used s), nm_ops := (nm_ops s)(i \<mapsto> Made p name (b_ID sb) n)\<rparr>)"
| n_record: "nm_ops s i = Some (Made p name sid n) \<Longrightarrow>
    nstep nodes s (s\<lparr>nm_rows := (sid, \<lparr>ow_User = pp_User p, ow_Tenant = pp_Tenant p, ow_Node = n\<rparr>) # nm_rows s,
      nm_ops := (nm_ops s)(i \<mapsto> Through p name)\<rparr>)"
| n_rename: "nm_ops s i = Some (Free p name (Some sid)) \<Longrightarrow>
    nstep nodes s (s\<lparr>nm_all := on_id sid (\<lambda>sb. sb\<lparr>b_Name := name\<rparr>) (nm_all s), nm_ops := (nm_ops s)(i \<mapsto> Through p name)\<rparr>)"
| n_end: "nm_ops s i = Some op \<Longrightarrow> nstep nodes s (end_claim i op s)"
| n_plain: "n \<in> set nodes \<Longrightarrow> b_ID sb \<notin> nm_used s \<Longrightarrow> b_Name sb = [] \<Longrightarrow> map_of (b_Labels sb) ''gateway.owner'' = Some u \<Longrightarrow>
    nstep nodes s (s\<lparr>nm_all := (n, sb) # nm_all s, nm_used := insert (b_ID sb) (nm_used s),
      nm_rows := (b_ID sb, \<lparr>ow_User = u, ow_Tenant = t, ow_Node = n\<rparr>) # nm_rows s\<rparr>)"
| n_changes: "(\<And>sb. b_ID (f sb) = b_ID sb \<and> b_Name (f sb) = b_Name sb \<and> b_Labels (f sb) = b_Labels sb \<and> (live (f sb) \<longrightarrow> live sb)) \<Longrightarrow>
    nstep nodes s (s\<lparr>nm_all := on_id sid f (nm_all s)\<rparr>)"
| n_gone: "nstep nodes s (s\<lparr>nm_all := filter (\<lambda>(_, sb). live sb \<or> b_ID sb \<noteq> sid) (nm_all s)\<rparr>)"
| n_forget: "\<not> (\<exists>n sb. (n, sb) \<in> set (nm_all s) \<and> b_ID sb = sid \<and> live sb) \<Longrightarrow>
    nstep nodes s (s\<lparr>nm_rows := filter (\<lambda>(k, _). k \<noteq> sid) (nm_rows s)\<rparr>)"

text \<open>
  What else may happen. A listing leaves out a node that has the name. A claim is given up while its request is still under way at
  the node: the client goes and the handler returns. Another gateway process on the same store has claims of its own. A node makes a terminated
  sandbox live again (\<open>Server_Safety.terminated_comes_back\<close>).
\<close>

datatype name_mishap = NodeLeftOut | ClaimGone | OtherGateway | CameBack

inductive nmove :: "bytes list \<Rightarrow> names \<Rightarrow> name_mishap option \<Rightarrow> names \<Rightarrow> bool" for nodes where
  m_step: "nstep nodes s s' \<Longrightarrow> nmove nodes s None s'"
| m_left_out: "nm_ops s i = Some (Claimed p name self) \<Longrightarrow> name_check (names_view up tombs now s) p self name = None \<Longrightarrow> left_out up s p self name \<Longrightarrow>
    nmove nodes s (Some NodeLeftOut) (s\<lparr>nm_ops := (nm_ops s)(i \<mapsto> Free p name self)\<rparr>)"
| m_claim_gone: "nm_ops s i = Some op \<Longrightarrow> nmove nodes s (Some ClaimGone) (s\<lparr>nm_claimed := unclaim (op_key op) (nm_claimed s)\<rparr>)"
| m_other: "name \<noteq> [] \<Longrightarrow> sandbox_key p name \<in> set (nm_claimed s) \<Longrightarrow> nm_ops s i = None \<Longrightarrow>
    (\<forall>sid. self = Some sid \<longrightarrow> (\<exists>o'. map_of (nm_rows s) sid = Some o' \<and> mayAct p o')) \<Longrightarrow>
    nmove nodes s (Some OtherGateway) (s\<lparr>nm_ops := (nm_ops s)(i \<mapsto> Claimed p name self)\<rparr>)"
| m_back: "(n, sb) \<in> set (nm_all s) \<Longrightarrow> \<not> live sb \<Longrightarrow>
    nmove nodes s (Some CameBack) (s\<lparr>nm_all := on_id (b_ID sb) (\<lambda>sb. sb\<lparr>b_State := Running\<rparr>) (nm_all s)\<rparr>)"

definition names0 :: names where
  "names0 = \<lparr>nm_claimed = [], nm_rows = [], nm_all = [], nm_used = {}, nm_ops = Map.empty\<rparr>"

section \<open>A user's live sandboxes have different names\<close>

text \<open>The recorded live sandboxes of a user in a tenant that have a name.\<close>

definition holding :: "names \<Rightarrow> bytes \<Rightarrow> bytes \<Rightarrow> bytes \<Rightarrow> bytes set" where
  "holding s u t name = {b_ID sb | n sb o'. (n, sb) \<in> set (nm_all s) \<and> live sb \<and> b_Name sb = name \<and>
     map_of (nm_rows s) (b_ID sb) = Some o' \<and> has_owner u t o'}"

definition rows_ok :: "bytes list \<Rightarrow> names \<Rightarrow> bool" where
  "rows_ok nodes s \<longleftrightarrow> (\<forall>n sb o'. (n, sb) \<in> set (nm_all s) \<longrightarrow> map_of (nm_rows s) (b_ID sb) = Some o' \<longrightarrow>
       n = ow_Node o' \<and> n \<in> set nodes \<and> map_of (b_Labels sb) ''gateway.owner'' = Some (ow_User o')) \<and>
     fst ` set (nm_rows s) \<subseteq> nm_used s \<and> (\<lambda>(_, sb). b_ID sb) ` set (nm_all s) \<subseteq> nm_used s \<and>
     distinct (map (\<lambda>(_, sb). b_ID sb) (nm_all s)) \<and> distinct (map fst (nm_rows s))"

fun name_op_ok :: "bytes list \<Rightarrow> names \<Rightarrow> name_op \<Rightarrow> bool" where
  "name_op_ok nodes s (Claimed p name self) = (name \<noteq> [] \<and> (\<forall>sid. self = Some sid \<longrightarrow> sid \<in> nm_used s \<and>
     (\<forall>o'. map_of (nm_rows s) sid = Some o' \<longrightarrow> has_owner (pp_User p) (pp_Tenant p) o')))"
| "name_op_ok nodes s (Free p name self) = (name \<noteq> [] \<and> (\<forall>sid. self = Some sid \<longrightarrow> sid \<in> nm_used s \<and>
     (\<forall>o'. map_of (nm_rows s) sid = Some o' \<longrightarrow> has_owner (pp_User p) (pp_Tenant p) o')) \<and>
     holding s (pp_User p) (pp_Tenant p) name \<subseteq> set_option self)"
| "name_op_ok nodes s (Made p name sid n) = (name \<noteq> [] \<and> n \<in> set nodes \<and> sid \<in> nm_used s \<and> map_of (nm_rows s) sid = None \<and>
     (\<forall>m sb. (m, sb) \<in> set (nm_all s) \<longrightarrow> b_ID sb = sid \<longrightarrow> m = n \<and> b_Name sb = name \<and>
        map_of (b_Labels sb) ''gateway.owner'' = Some (pp_User p)) \<and>
     holding s (pp_User p) (pp_Tenant p) name = {})"
| "name_op_ok nodes s (Through p name) = True"

fun op_self :: "name_op \<Rightarrow> bytes option" where
  "op_self (Claimed p name self) = self"
| "op_self (Free p name self) = self"
| "op_self _ = None"

fun op_made :: "name_op \<Rightarrow> bytes option" where
  "op_made (Made p name sid n) = Some sid"
| "op_made _ = None"

fun op_owner :: "name_op \<Rightarrow> bytes \<times> bytes \<times> bytes" where
  "op_owner (Claimed p name self) = (pp_User p, pp_Tenant p, name)"
| "op_owner (Free p name self) = (pp_User p, pp_Tenant p, name)"
| "op_owner (Made p name sid n) = (pp_User p, pp_Tenant p, name)"
| "op_owner (Through p name) = (pp_User p, pp_Tenant p, name)"

definition ops_apart :: "(nat \<Rightarrow> name_op option) \<Rightarrow> bool" where
  "ops_apart ops \<longleftrightarrow> (\<forall>i j op op'. ops i = Some op \<longrightarrow> ops j = Some op' \<longrightarrow> i \<noteq> j \<longrightarrow>
     op_key op \<noteq> op_key op' \<and> (op_made op \<noteq> None \<longrightarrow> op_made op \<noteq> op_made op' \<and> op_made op \<noteq> op_self op'))"

definition names_apart :: "names \<Rightarrow> bool" where
  "names_apart s \<longleftrightarrow> (\<forall>u t name. name \<noteq> [] \<longrightarrow> (\<forall>a \<in> holding s u t name. \<forall>b \<in> holding s u t name. a = b))"

definition names_ok :: "bytes list \<Rightarrow> names \<Rightarrow> bool" where
  "names_ok nodes s \<longleftrightarrow> rows_ok nodes s \<and> names_apart s \<and> ops_apart (nm_ops s) \<and>
     (\<forall>i op. nm_ops s i = Some op \<longrightarrow> name_op_ok nodes s op \<and> op_key op \<in> set (nm_claimed s))"

lemma op_key_owner: "op_owner op = op_owner op' \<Longrightarrow> op_key op = op_key op'"
  by (cases op; cases op') (auto simp: sandbox_key_def)

text \<open>What an operation relies on stays as long as its name gets no new holder and the rows and sandboxes it is about do not change.\<close>

lemma op_ok_mono:
  assumes "name_op_ok nodes s op" and "nm_used s \<subseteq> nm_used s'"
    and "\<And>u t name. op_owner op = (u, t, name) \<Longrightarrow> name \<noteq> [] \<Longrightarrow> holding s' u t name \<subseteq> holding s u t name"
    and "\<And>sid o'. op_self op = Some sid \<Longrightarrow> map_of (nm_rows s') sid = Some o' \<Longrightarrow> map_of (nm_rows s) sid = Some o'"
    and "\<And>sid. op_made op = Some sid \<Longrightarrow> map_of (nm_rows s) sid = None \<Longrightarrow> map_of (nm_rows s') sid = None"
    and "\<And>m sb. op_made op = Some (b_ID sb) \<Longrightarrow> (m, sb) \<in> set (nm_all s') \<Longrightarrow>
      \<exists>sb0. (m, sb0) \<in> set (nm_all s) \<and> b_ID sb0 = b_ID sb \<and> b_Name sb0 = b_Name sb \<and> b_Labels sb0 = b_Labels sb"
  shows "name_op_ok nodes s' op"
proof (cases op)
  case (Claimed p name self)
  then show ?thesis using assms(1,2,4) by auto
next
  case (Free p name self)
  then show ?thesis using assms(1,2,3,4) by (simp add: subset_iff)
next
  case (Made p name sid n)
  have "m = n \<and> b_Name sb = name \<and> map_of (b_Labels sb) ''gateway.owner'' = Some (pp_User p)"
    if "(m, sb) \<in> set (nm_all s')" "b_ID sb = sid" for m sb
    using assms(1) assms(6) [of sb m] that Made by fastforce
  moreover have "holding s' (pp_User p) (pp_Tenant p) name = {}" using assms(1,3) Made by auto
  ultimately show ?thesis using assms(1,2,5) Made by auto
qed simp

text \<open>A state with no more than another: fewer rows, and of each sandbox no more than was there.\<close>

definition fewer :: "names \<Rightarrow> names \<Rightarrow> bool" where
  "fewer s' s \<longleftrightarrow> nm_used s' = nm_used s \<and> (\<forall>k o'. map_of (nm_rows s') k = Some o' \<longrightarrow> map_of (nm_rows s) k = Some o') \<and>
     (\<forall>m sb. (m, sb) \<in> set (nm_all s') \<longrightarrow> (\<exists>sb0. (m, sb0) \<in> set (nm_all s) \<and> b_ID sb0 = b_ID sb \<and> b_Name sb0 = b_Name sb \<and>
        b_Labels sb0 = b_Labels sb \<and> (live sb \<longrightarrow> live sb0)))"

lemma fewerD:
  assumes "fewer s' s"
  shows "nm_used s' = nm_used s" "map_of (nm_rows s') k = Some o' \<Longrightarrow> map_of (nm_rows s) k = Some o'"
    "(m, sb) \<in> set (nm_all s') \<Longrightarrow> \<exists>sb0. (m, sb0) \<in> set (nm_all s) \<and> b_ID sb0 = b_ID sb \<and> b_Name sb0 = b_Name sb \<and>
        b_Labels sb0 = b_Labels sb \<and> (live sb \<longrightarrow> live sb0)"
  using assms unfolding fewer_def by blast+

lemma fewer_holding: "fewer s' s \<Longrightarrow> holding s' u t name \<subseteq> holding s u t name"
proof
  fix x assume f: "fewer s' s" and "x \<in> holding s' u t name"
  then obtain n sb o' where sb: "x = b_ID sb" "(n, sb) \<in> set (nm_all s')" "live sb" "b_Name sb = name"
    "map_of (nm_rows s') (b_ID sb) = Some o'" "has_owner u t o'" by (auto simp: holding_def)
  from fewerD(3) [OF f sb(2)] obtain sb0 where "(n, sb0) \<in> set (nm_all s)" "b_ID sb0 = b_ID sb" "b_Name sb0 = b_Name sb" "live sb0"
    using sb(3) by blast
  then show "x \<in> holding s u t name" using sb fewerD(2) [OF f sb(5)] unfolding holding_def by (intro CollectI exI [of _ n] exI [of _ sb0] exI [of _ o']) simp
qed

lemma fewer_op_ok:
  assumes f: "fewer s' s" and "name_op_ok nodes s op"
  shows "name_op_ok nodes s' op"
proof (rule op_ok_mono [OF assms(2)])
  show "nm_used s \<subseteq> nm_used s'" using fewerD(1) [OF f] by simp
  show "holding s' u t name \<subseteq> holding s u t name" for u t name by (rule fewer_holding [OF f])
  show "map_of (nm_rows s') sid = Some o' \<Longrightarrow> map_of (nm_rows s) sid = Some o'" for sid o' by (rule fewerD(2) [OF f])
  show "map_of (nm_rows s) sid = None \<Longrightarrow> map_of (nm_rows s') sid = None" for sid
    using fewerD(2) [OF f, of sid] by (cases "map_of (nm_rows s') sid") auto
  show "\<exists>sb0. (m, sb0) \<in> set (nm_all s) \<and> b_ID sb0 = b_ID sb \<and> b_Name sb0 = b_Name sb \<and> b_Labels sb0 = b_Labels sb"
    if "(m, sb) \<in> set (nm_all s')" for m sb using fewerD(3) [OF f that] by blast
qed

lemma rows_okD:
  assumes "rows_ok nodes s"
  shows "map_of (nm_rows s) k = Some o' \<Longrightarrow> k \<in> nm_used s" "(m, sb) \<in> set (nm_all s) \<Longrightarrow> b_ID sb \<in> nm_used s"
    "(m, sb) \<in> set (nm_all s) \<Longrightarrow> map_of (nm_rows s) (b_ID sb) = Some o' \<Longrightarrow>
       m = ow_Node o' \<and> m \<in> set nodes \<and> map_of (b_Labels sb) ''gateway.owner'' = Some (ow_User o')"
    "(m, sb) \<in> set (nm_all s) \<Longrightarrow> (m', sb') \<in> set (nm_all s) \<Longrightarrow> b_ID sb = b_ID sb' \<Longrightarrow> m = m' \<and> sb = sb'"
proof -
  have r: "fst ` set (nm_rows s) \<subseteq> nm_used s" "(\<lambda>(_, sb). b_ID sb) ` set (nm_all s) \<subseteq> nm_used s"
    "distinct (map (\<lambda>(_, sb). b_ID sb) (nm_all s))" using assms unfolding rows_ok_def by simp_all
  show "map_of (nm_rows s) k = Some o' \<Longrightarrow> k \<in> nm_used s" using r(1) map_of_SomeD [of "nm_rows s" k o'] by (simp add: image_subset_iff) fastforce
  show "(m, sb) \<in> set (nm_all s) \<Longrightarrow> b_ID sb \<in> nm_used s" using subsetD [OF r(2) imageI [of "(m, sb)"]] by simp
  show "(m, sb) \<in> set (nm_all s) \<Longrightarrow> map_of (nm_rows s) (b_ID sb) = Some o' \<Longrightarrow>
       m = ow_Node o' \<and> m \<in> set nodes \<and> map_of (b_Labels sb) ''gateway.owner'' = Some (ow_User o')"
    using assms unfolding rows_ok_def by metis
  show "(m, sb) \<in> set (nm_all s) \<Longrightarrow> (m', sb') \<in> set (nm_all s) \<Longrightarrow> b_ID sb = b_ID sb' \<Longrightarrow> m = m' \<and> sb = sb'"
    using r(3) inj_onD [of "\<lambda>(_, sb). b_ID sb" "set (nm_all s)" "(m, sb)" "(m', sb')"] by (simp add: distinct_map)
qed

lemma rows_okI:
  assumes "\<And>k o'. map_of (nm_rows s) k = Some o' \<Longrightarrow> k \<in> nm_used s" "\<And>m sb. (m, sb) \<in> set (nm_all s) \<Longrightarrow> b_ID sb \<in> nm_used s"
    and "\<And>m sb o'. (m, sb) \<in> set (nm_all s) \<Longrightarrow> map_of (nm_rows s) (b_ID sb) = Some o' \<Longrightarrow>
       m = ow_Node o' \<and> m \<in> set nodes \<and> map_of (b_Labels sb) ''gateway.owner'' = Some (ow_User o')"
    and "distinct (map (\<lambda>(_, sb). b_ID sb) (nm_all s))" "distinct (map fst (nm_rows s))"
  shows "rows_ok nodes s"
proof -
  have "fst ` set (nm_rows s) \<subseteq> nm_used s" using assms(1) by (metis map_of_eq_None_iff not_None_eq subsetI)
  moreover have "(\<lambda>(_, sb). b_ID sb) ` set (nm_all s) \<subseteq> nm_used s" using assms(2) by clarsimp
  ultimately show ?thesis using assms(3-5) unfolding rows_ok_def by simp
qed

lemma fewer_rows_ok:
  assumes f: "fewer s' s" and ok: "rows_ok nodes s" and "distinct (map (\<lambda>(_, sb). b_ID sb) (nm_all s'))" "distinct (map fst (nm_rows s'))"
  shows "rows_ok nodes s'"
proof (rule rows_okI)
  show "map_of (nm_rows s') k = Some o' \<Longrightarrow> k \<in> nm_used s'" for k o'
    using rows_okD(1) [OF ok fewerD(2) [OF f]] fewerD(1) [OF f] by simp
  fix m sb assume sb: "(m, sb) \<in> set (nm_all s')"
  from fewerD(3) [OF f this] obtain sb0 where sb0: "(m, sb0) \<in> set (nm_all s)" "b_ID sb0 = b_ID sb" "b_Labels sb0 = b_Labels sb" by blast
  show "b_ID sb \<in> nm_used s'" using rows_okD(2) [OF ok sb0(1)] sb0(2) fewerD(1) [OF f] by simp
  show "m = ow_Node o' \<and> m \<in> set nodes \<and> map_of (b_Labels sb) ''gateway.owner'' = Some (ow_User o')"
    if "map_of (nm_rows s') (b_ID sb) = Some o'" for o'
    using rows_okD(3) [OF ok sb0(1), of o'] fewerD(2) [OF f that] sb0(2,3) by auto
qed (use assms(3,4) in simp_all)

lemma fewer_names_ok:
  assumes "names_ok nodes s" "fewer s' s" "distinct (map (\<lambda>(_, sb). b_ID sb) (nm_all s'))" "distinct (map fst (nm_rows s'))"
    and "ops_apart (nm_ops s')"
    and "\<And>i op. nm_ops s' i = Some op \<Longrightarrow> name_op_ok nodes s op \<and> op_key op \<in> set (nm_claimed s')"
  shows "names_ok nodes s'"
proof -
  have "names_apart s'" using assms(1) fewer_holding [OF assms(2)] unfolding names_ok_def names_apart_def by (meson subsetD)
  then show ?thesis
    using assms fewer_rows_ok [OF assms(2) _ assms(3,4)] fewer_op_ok [OF assms(2)] unfolding names_ok_def by blast
qed

text \<open>A listing has all of a user's recorded sandboxes of the nodes that answer.\<close>

lemma listed_on_all:
  "listed_on mine ask ns = Inr out \<Longrightarrow> n \<in> set ns \<Longrightarrow> ask n = Listed sbs \<Longrightarrow> sb \<in> set sbs \<Longrightarrow> mine n sb \<Longrightarrow> sb \<in> set out"
  by (induction ns arbitrary: out) (auto split: listing.split_asm sum.split_asm)

lemma listing_complete:
  assumes ok: "rows_ok nodes s" and l: "listSandboxes (names_view up tombs now s) p = Inr out" and u: "n \<in> set up"
    and sb: "(n, sb) \<in> set (nm_all s)" "map_of (nm_rows s) (b_ID sb) = Some o'" "has_owner (pp_User p) (pp_Tenant p) o'"
  shows "sb \<in> set out"
proof -
  let ?g = "names_view up tombs now s" and ?own = "filter (\<lambda>(_, o'). has_owner (pp_User p) (pp_Tenant p) o') (nm_rows s)"
  obtain out0 where out0: "listed_on (listed_here ?g p ?own) (\<lambda>n. gv_list ?g n (pp_User p)) (healthy_nodes ?g) = Inr out0" "set out = set out0"
    using l by (auto simp: listSandboxes_def names_view_def)
  note here = rows_okD(3) [OF ok sb(1,2)]
  have "map_of (map (\<lambda>n. (n, True)) up) n = Some True" using u by (induction up) auto
  then have h: "n \<in> set (healthy_nodes ?g)" using u by (auto simp: healthy_nodes_def isHealthy_def names_view_def)
  have "distinct (map fst (nm_rows s))" using ok by (simp add: rows_ok_def)
  then have "map_of ?own (b_ID sb) = Some o'"
    using map_of_SomeD [OF sb(2)] sb(3) by (intro map_of_is_SomeI) (auto simp: distinct_map_filter)
  then have m: "listed_here ?g p ?own n sb" using here sb(3) by (simp add: listed_here_def has_owner_def)
  have "sb \<in> set (map snd (filter (\<lambda>(m, sb). m = n \<and> map_of (b_Labels sb) ''gateway.owner'' = Some (pp_User p)) (nm_all s)))"
    using sb here by (force simp: has_owner_def)
  then show ?thesis using listed_on_all [OF out0(1) h _ _ m] out0(2) by (simp add: names_view_def)
qed

lemma name_check_free:
  assumes ok: "rows_ok nodes s" and n: "name_check (names_view up tombs now s) p self name = None" "\<not> left_out up s p self name"
  shows "holding s (pp_User p) (pp_Tenant p) name \<subseteq> set_option self"
proof
  fix x assume "x \<in> holding s (pp_User p) (pp_Tenant p) name"
  then obtain m sb o' where sb: "x = b_ID sb" "(m, sb) \<in> set (nm_all s)" "live sb" "b_Name sb = name" "map_of (nm_rows s) (b_ID sb) = Some o'"
    "has_owner (pp_User p) (pp_Tenant p) o'" by (auto simp: holding_def)
  obtain out where out: "listSandboxes (names_view up tombs now s) p = Inr out"
    "\<not> list_ex (\<lambda>sb. self \<noteq> Some (b_ID sb) \<and> b_Name sb = name \<and> b_State sb \<noteq> Terminated) out"
    using n(1) by (auto simp: name_check_def split: sum.split_asm if_split_asm)
  show "x \<in> set_option self"
  proof (cases "m \<in> set up")
    case True
    then have "sb \<in> set out" by (rule listing_complete [OF ok out(1) _ sb(2,5,6)])
    then show ?thesis using out(2) sb by (auto simp: list_ex_iff live_def)
  next
    case False
    then show ?thesis using n(2) sb by (auto simp: left_out_def list_ex_iff)
  qed
qed

subsection \<open>Each step keeps it\<close>

lemma ops_apart_upd:
  assumes "ops_apart ops" "ops i = Some op" "op_key op' = op_key op" "op_self op' \<in> {op_self op, None}" "op_made op' \<in> {op_made op, None}"
  shows "ops_apart (ops(i \<mapsto> op'))"
  unfolding ops_apart_def
proof (intro allI impI)
  fix j k a b assume jk: "(ops(i \<mapsto> op')) j = Some a" "(ops(i \<mapsto> op')) k = Some b" "j \<noteq> k"
  define a0 where "a0 = (if j = i then op else a)"
  define b0 where "b0 = (if k = i then op else b)"
  have "ops j = Some a0" "ops k = Some b0" using jk assms(2) by (auto simp: a0_def b0_def split: if_split_asm)
  then have "op_key a0 \<noteq> op_key b0 \<and> (op_made a0 \<noteq> None \<longrightarrow> op_made a0 \<noteq> op_made b0 \<and> op_made a0 \<noteq> op_self b0)"
    using assms(1) jk(3) unfolding ops_apart_def by blast
  then show "op_key a \<noteq> op_key b \<and> (op_made a \<noteq> None \<longrightarrow> op_made a \<noteq> op_made b \<and> op_made a \<noteq> op_self b)"
    using jk assms(3-5) by (auto simp: a0_def b0_def split: if_split_asm)
qed

lemma ops_apart_new:
  assumes "ops_apart ops"
    and "\<And>j b. j \<noteq> i \<Longrightarrow> ops j = Some b \<Longrightarrow> op_key op \<noteq> op_key b \<and> (op_made op \<noteq> None \<longrightarrow> op_made op \<noteq> op_made b \<and> op_made op \<noteq> op_self b) \<and>
      (op_made b \<noteq> None \<longrightarrow> op_made b \<noteq> op_made op \<and> op_made b \<noteq> op_self op)"
  shows "ops_apart (ops(i \<mapsto> op))"
  unfolding ops_apart_def
proof (intro allI impI)
  fix j k a b assume jk: "(ops(i \<mapsto> op)) j = Some a" "(ops(i \<mapsto> op)) k = Some b" "j \<noteq> k"
  consider "j = i" "k \<noteq> i" | "k = i" "j \<noteq> i" | "j \<noteq> i" "k \<noteq> i" using jk(3) by blast
  then show "op_key a \<noteq> op_key b \<and> (op_made a \<noteq> None \<longrightarrow> op_made a \<noteq> op_made b \<and> op_made a \<noteq> op_self b)"
  proof cases
    case 1 then show ?thesis using assms(2) [of k b] jk by auto
  next
    case 2 then show ?thesis using assms(2) [of j a] jk by auto
  next
    case 3 then show ?thesis using assms(1) jk unfolding ops_apart_def by (auto simp: fun_upd_other)
  qed
qed

lemma names_okD:
  assumes "names_ok nodes s"
  shows "rows_ok nodes s" "names_apart s" "ops_apart (nm_ops s)"
    "nm_ops s i = Some op \<Longrightarrow> name_op_ok nodes s op" "nm_ops s i = Some op \<Longrightarrow> op_key op \<in> set (nm_claimed s)"
  using assms unfolding names_ok_def by blast+

lemma op_ids_used: "name_op_ok nodes s op \<Longrightarrow> set_option (op_self op) \<union> set_option (op_made op) \<subseteq> nm_used s"
  by (cases op) auto

lemma made_unrecorded: "name_op_ok nodes s op \<Longrightarrow> op_made op = Some sid \<Longrightarrow> map_of (nm_rows s) sid = None"
  by (cases op) auto

text \<open>A step that gives one sandbox one name: the operation's own.\<close>

lemma names_ok_gain:
  assumes ok: "names_ok nodes s" and i: "nm_ops s i = Some op" "op_owner op = (u0, t0, name0)"
    and rows: "rows_ok nodes s'" and used: "nm_used s' = nm_used s" "nm_claimed s' = nm_claimed s"
    and ops: "nm_ops s' = (nm_ops s)(i \<mapsto> Through p name0)" "op_key op = sandbox_key p name0"
    and gain: "\<And>u t name. holding s' u t name \<subseteq> holding s u t name \<union> (if (u, t, name) = (u0, t0, name0) then {sid} else {})"
    and before: "holding s u0 t0 name0 \<subseteq> {sid}"
    and others: "\<And>j q. j \<noteq> i \<Longrightarrow> nm_ops s j = Some q \<Longrightarrow>
      (\<forall>k o'. op_self q = Some k \<longrightarrow> map_of (nm_rows s') k = Some o' \<longrightarrow> map_of (nm_rows s) k = Some o') \<and>
      (\<forall>k. op_made q = Some k \<longrightarrow> map_of (nm_rows s) k = None \<longrightarrow> map_of (nm_rows s') k = None) \<and>
      (\<forall>m sb. op_made q = Some (b_ID sb) \<longrightarrow> (m, sb) \<in> set (nm_all s') \<longrightarrow>
        (\<exists>sb0. (m, sb0) \<in> set (nm_all s) \<and> b_ID sb0 = b_ID sb \<and> b_Name sb0 = b_Name sb \<and> b_Labels sb0 = b_Labels sb))"
  shows "names_ok nodes s'"
proof -
  note d = names_okD [OF ok]
  have same: "holding s' u t name \<subseteq> holding s u t name" if "(u, t, name) \<noteq> (u0, t0, name0)" for u t name
    using gain [of u t name] that by auto
  have apart: "names_apart s'"
    unfolding names_apart_def
  proof (intro allI impI)
    fix u t name assume ne: "name \<noteq> ([] :: bytes)"
    show "\<forall>a \<in> holding s' u t name. \<forall>b \<in> holding s' u t name. a = b"
    proof (cases "(u, t, name) = (u0, t0, name0)")
      case True
      then have "holding s' u t name \<subseteq> {sid}" using gain [of u t name] before by auto
      then show ?thesis by auto
    next
      case False
      then show ?thesis using same [OF False] d(2) ne unfolding names_apart_def by (meson subsetD)
    qed
  qed
  have "name_op_ok nodes s' q" if q: "nm_ops s j = Some q" "j \<noteq> i" for j q
  proof (rule op_ok_mono [OF d(4) [OF q(1)]])
    have "op_key q \<noteq> op_key op" using d(3) i(1) q unfolding ops_apart_def by metis
    then have "op_owner q \<noteq> (u0, t0, name0)" using op_key_owner [of q op] i(2) by auto
    then show "op_owner q = (u, t, name) \<Longrightarrow> holding s' u t name \<subseteq> holding s u t name" for u t name using same by auto
  qed (use used others [OF q(2,1)] in auto)
  moreover have "ops_apart (nm_ops s')" unfolding ops(1) by (rule ops_apart_upd [OF d(3) i(1)]) (simp_all add: ops(2))
  ultimately show ?thesis using apart rows d(5) d(5) [OF i(1)] used ops unfolding names_ok_def by (auto split: if_split_asm)
qed

text \<open>A step that adds a sandbox with a new id, which has no name or no row.\<close>

lemma names_ok_add:
  assumes ok: "names_ok nodes s" and new: "b_ID sb \<notin> nm_used s" "nm_all s' = (n, sb) # nm_all s" "nm_used s' = insert (b_ID sb) (nm_used s)"
    "nm_claimed s' = nm_claimed s"
    and rows: "\<And>k. k \<noteq> b_ID sb \<Longrightarrow> map_of (nm_rows s') k = map_of (nm_rows s) k" "b_Name sb = [] \<or> map_of (nm_rows s') (b_ID sb) = None"
      "rows_ok nodes s'"
    and ops: "ops_apart (nm_ops s')"
      "\<And>j q. nm_ops s' j = Some q \<Longrightarrow> nm_ops s j = Some q \<or>
         op_key q \<in> set (nm_claimed s) \<and> (holding s' (fst (op_owner q)) (fst (snd (op_owner q))) (snd (snd (op_owner q))) = {} \<longrightarrow> name_op_ok nodes s' q) \<and>
         holding s (fst (op_owner q)) (fst (snd (op_owner q))) (snd (snd (op_owner q))) = {} \<and> snd (snd (op_owner q)) \<noteq> []"
  shows "names_ok nodes s'"
proof -
  note d = names_okD [OF ok]
  have h: "holding s' u t name \<subseteq> holding s u t name" if "name \<noteq> []" for u t name
  proof
    fix x assume "x \<in> holding s' u t name"
    then obtain m q o' where q: "x = b_ID q" "(m, q) \<in> set (nm_all s')" "live q" "b_Name q = name" "map_of (nm_rows s') (b_ID q) = Some o'"
      "has_owner u t o'" by (auto simp: holding_def)
    then have "q \<noteq> sb" using rows(2) that by auto
    then have "(m, q) \<in> set (nm_all s)" using q(2) new(2) by auto
    moreover from this have "b_ID q \<noteq> b_ID sb" using rows_okD(2) [OF d(1)] new(1) by metis
    ultimately show "x \<in> holding s u t name"
      using q rows(1) [of "b_ID q"] unfolding holding_def by (intro CollectI exI [of _ m] exI [of _ q] exI [of _ o']) simp
  qed
  have "names_apart s'" using d(2) h unfolding names_apart_def by (meson subsetD)
  moreover have "name_op_ok nodes s' q \<and> op_key q \<in> set (nm_claimed s')" if q: "nm_ops s' j = Some q" for j q
  proof (cases "nm_ops s j = Some q")
    case True
    note used = op_ids_used [OF d(4) [OF True]]
    have "name_op_ok nodes s' q"
    proof (rule op_ok_mono [OF d(4) [OF True]])
      show "map_of (nm_rows s') k = Some o' \<Longrightarrow> map_of (nm_rows s) k = Some o'" if "op_self q = Some k" for k o'
        using rows(1) [of k] used that new(1) by (cases "k = b_ID sb") auto
      show "map_of (nm_rows s) k = None \<Longrightarrow> map_of (nm_rows s') k = None" if "op_made q = Some k" for k
        using rows(1) [of k] used that new(1) by (cases "k = b_ID sb") auto
      show "\<exists>sb0. (m, sb0) \<in> set (nm_all s) \<and> b_ID sb0 = b_ID x \<and> b_Name sb0 = b_Name x \<and> b_Labels sb0 = b_Labels x"
        if "op_made q = Some (b_ID x)" "(m, x) \<in> set (nm_all s')" for m x
        using used that new(1,2) by (intro exI [of _ x]) auto
    qed (use h new(3) in auto)
    then show ?thesis using d(5) [OF True] new(4) by simp
  next
    case False
    with ops(2) [OF q] h new(4) show ?thesis by (metis subset_empty)
  qed
  ultimately show ?thesis using rows(3) ops(1) unfolding names_ok_def by blast
qed

lemma map_of_filter_ne: "map_of (filter (\<lambda>(k, _). k \<noteq> x) rows) k = (if k = x then None else map_of rows k)"
  by (induction rows) auto

lemma on_id_keeps: "(\<And>sb. b_ID (f sb) = b_ID sb) \<Longrightarrow> map (\<lambda>(_, sb). b_ID sb) (on_id sid f xs) = map (\<lambda>(_, sb). b_ID sb) xs"
  by (auto simp: on_id_def)

lemma on_id_in: "(m, sb) \<in> set (on_id sid f xs) \<longleftrightarrow> (\<exists>sb0. (m, sb0) \<in> set xs \<and> sb = (if b_ID sb0 = sid then f sb0 else sb0))"
  by (force simp: on_id_def)

lemma names_ok_claim:
  assumes ok: "names_ok nodes s" and n: "name \<noteq> []" "claim_key (sandbox_key p name) (nm_claimed s) = Some claimed"
    "\<forall>sid. self = Some sid \<longrightarrow> (\<exists>o'. map_of (nm_rows s) sid = Some o' \<and> mayAct p o')"
  shows "names_ok nodes (s\<lparr>nm_claimed := claimed, nm_ops := (nm_ops s)(i \<mapsto> Claimed p name self)\<rparr>)"
proof (rule fewer_names_ok [OF ok])
  note d = names_okD [OF ok]
  have c: "sandbox_key p name \<notin> set (nm_claimed s)" "claimed = sandbox_key p name # nm_claimed s"
    using n(2) by (auto simp: claim_key_def split: if_split_asm)
  have "op_key b \<noteq> sandbox_key p name \<and> (op_made b \<noteq> None \<longrightarrow> op_made b \<noteq> self)" if "nm_ops s j = Some b" for j b
    using d(5) [OF that] c(1) made_unrecorded [OF d(4) [OF that]] n(3) by (cases self) fastforce+
  then show "ops_apart (nm_ops (s\<lparr>nm_claimed := claimed, nm_ops := (nm_ops s)(i \<mapsto> Claimed p name self)\<rparr>))"
    using ops_apart_new [OF d(3), of i "Claimed p name self"] by fastforce
  have "name_op_ok nodes s (Claimed p name self)"
    using n(1,3) rows_okD(1) [OF d(1)] by (fastforce simp: mayAct_def has_owner_def)
  then show "name_op_ok nodes s op \<and> op_key op \<in> set (nm_claimed (s\<lparr>nm_claimed := claimed, nm_ops := (nm_ops s)(i \<mapsto> Claimed p name self)\<rparr>))"
    if "nm_ops (s\<lparr>nm_claimed := claimed, nm_ops := (nm_ops s)(i \<mapsto> Claimed p name self)\<rparr>) j = Some op" for j op
    using that d(4,5) [of j op] c(2) by (auto split: if_split_asm)
qed (use names_okD(1) [OF ok] in \<open>auto simp: fewer_def rows_ok_def\<close>)

lemma names_ok_listed:
  assumes ok: "names_ok nodes s" and c: "nm_ops s i = Some (Claimed p name self)" "name_check (names_view up tombs now s) p self name = None"
      "\<not> left_out up s p self name"
    and s': "s' = s\<lparr>nm_ops := (nm_ops s)(i \<mapsto> Free p name self)\<rparr>"
  shows "names_ok nodes s'"
proof (rule fewer_names_ok [OF ok])
  note d = names_okD [OF ok]
  show "ops_apart (nm_ops s')" unfolding s' using ops_apart_upd [OF d(3) c(1), of "Free p name self"] by simp
  have "name_op_ok nodes s (Free p name self)" using d(4) [OF c(1)] name_check_free [OF d(1) c(2,3)] by simp
  then show "name_op_ok nodes s op \<and> op_key op \<in> set (nm_claimed s')" if "nm_ops s' j = Some op" for j op
    using that d(4,5) [of j op] d(5) [OF c(1)] s' by (auto split: if_split_asm)
qed (use names_okD(1) [OF ok] s' in \<open>auto simp: fewer_def rows_ok_def\<close>)

lemma names_ok_make:
  assumes ok: "names_ok nodes s" and i: "nm_ops s i = Some (Free p name None)" and sb: "n \<in> set nodes" "b_ID sb \<notin> nm_used s" "b_Name sb = name"
      "map_of (b_Labels sb) ''gateway.owner'' = Some (pp_User p)"
    and s': "s' = s\<lparr>nm_all := (n, sb) # nm_all s, nm_used := insert (b_ID sb) (nm_used s), nm_ops := (nm_ops s)(i \<mapsto> Made p name (b_ID sb) n)\<rparr>"
  shows "names_ok nodes s'"
proof (rule names_ok_add [OF ok sb(2), of s' n])
  note d = names_okD [OF ok]
  have none: "map_of (nm_rows s) (b_ID sb) = None" using rows_okD(1) [OF d(1), of "b_ID sb"] sb(2) by (cases "map_of (nm_rows s) (b_ID sb)") auto
  then show "b_Name sb = [] \<or> map_of (nm_rows s') (b_ID sb) = None" using s' by simp
  show "rows_ok nodes s'" by (rule rows_okI) (use d(1) rows_okD(1-3) [OF d(1)] none s' sb(2) in \<open>auto simp: rows_ok_def\<close>)
  have "op_key q \<noteq> sandbox_key p name \<and> op_made q \<noteq> Some (b_ID sb) \<and> op_self q \<noteq> Some (b_ID sb)" if "nm_ops s j = Some q" "j \<noteq> i" for j q
    using d(3) i that op_ids_used [OF d(4) [OF that(1)]] sb(2) unfolding ops_apart_def by force
  then have other: "j \<noteq> i \<Longrightarrow> nm_ops s j = Some q \<Longrightarrow> op_key q \<noteq> sandbox_key p name \<and> op_made q \<noteq> Some (b_ID sb) \<and> op_self q \<noteq> Some (b_ID sb)" for j q
    by blast
  have "ops_apart ((nm_ops s)(i \<mapsto> Made p name (b_ID sb) n))"
    by (rule ops_apart_new [OF d(3)], drule (1) other) auto
  then show "ops_apart (nm_ops s')" using s' by simp
  have "x = sb \<and> m = n" if "(m, x) \<in> set (nm_all s')" "b_ID x = b_ID sb" for m x using rows_okD(2) [OF d(1), of m x] s' sb(2) that by auto
  moreover have "b_ID sb \<in> nm_used s'" "map_of (nm_rows s') (b_ID sb) = None" using s' none by simp_all
  ultimately have "name_op_ok nodes s' (Made p name (b_ID sb) n)" if "holding s' (pp_User p) (pp_Tenant p) name = {}"
    using that sb d(4) [OF i] by auto
  then show "nm_ops s j = Some q \<or> op_key q \<in> set (nm_claimed s) \<and>
      (holding s' (fst (op_owner q)) (fst (snd (op_owner q))) (snd (snd (op_owner q))) = {} \<longrightarrow> name_op_ok nodes s' q) \<and>
      holding s (fst (op_owner q)) (fst (snd (op_owner q))) (snd (snd (op_owner q))) = {} \<and> snd (snd (op_owner q)) \<noteq> []"
    if "nm_ops s' j = Some q" for j q
  proof (cases "j = i")
    case True
    then have "q = Made p name (b_ID sb) n" using that s' by simp
    then show ?thesis using \<open>holding s' (pp_User p) (pp_Tenant p) name = {} \<Longrightarrow> name_op_ok nodes s' (Made p name (b_ID sb) n)\<close> d(4) [OF i] d(5) [OF i] by simp
  next
    case False
    then show ?thesis using that s' by simp
  qed
qed (use s' in auto)

lemma names_ok_record:
  assumes ok: "names_ok nodes s" and i: "nm_ops s i = Some (Made p name sid n)"
    and s': "s' = s\<lparr>nm_rows := (sid, \<lparr>ow_User = pp_User p, ow_Tenant = pp_Tenant p, ow_Node = n\<rparr>) # nm_rows s, nm_ops := (nm_ops s)(i \<mapsto> Through p name)\<rparr>"
  shows "names_ok nodes s'"
proof (rule names_ok_gain [OF ok i, of "pp_User p" "pp_Tenant p" name s' p sid])
  note d = names_okD [OF ok]
  have sid: "sid \<in> nm_used s" "map_of (nm_rows s) sid = None" "holding s (pp_User p) (pp_Tenant p) name = {}" using d(4) [OF i] by simp_all
  then show "holding s (pp_User p) (pp_Tenant p) name \<subseteq> {sid}" by simp
  have node: "n \<in> set nodes" using d(4) [OF i] by simp
  have here: "m = n \<and> b_Name sb = name \<and> map_of (b_Labels sb) ''gateway.owner'' = Some (pp_User p)"
    if "(m, sb) \<in> set (nm_all s)" "b_ID sb = sid" for m sb using d(4) [OF i] that by auto
  show "rows_ok nodes s'"
    by (rule rows_okI) (use d(1) rows_okD(1-3) [OF d(1)] sid here node s' in \<open>auto simp: rows_ok_def map_of_eq_None_iff split: if_split_asm\<close>)
  show "holding s' u t name' \<subseteq> holding s u t name' \<union> (if (u, t, name') = (pp_User p, pp_Tenant p, name) then {sid} else {})" for u t name'
  proof
    fix x assume "x \<in> holding s' u t name'"
    then obtain m sb o' where sb: "x = b_ID sb" "(m, sb) \<in> set (nm_all s)" "live sb" "b_Name sb = name'"
      "map_of (nm_rows s') (b_ID sb) = Some o'" "has_owner u t o'" using s' by (auto simp: holding_def)
    show "x \<in> holding s u t name' \<union> (if (u, t, name') = (pp_User p, pp_Tenant p, name) then {sid} else {})"
    proof (cases "b_ID sb = sid")
      case True then show ?thesis using sb here s' by (auto simp: has_owner_def)
    next
      case False
      then have "map_of (nm_rows s) (b_ID sb) = Some o'" using sb(5) s' by simp
      then have "x \<in> holding s u t name'" using sb unfolding holding_def by blast
      then show ?thesis by simp
    qed
  qed
  fix j q assume jq: "j \<noteq> i" "nm_ops s j = Some q"
  then have "op_made q \<noteq> Some sid" "op_self q \<noteq> Some sid" using d(3) i unfolding ops_apart_def by force+
  then show "(\<forall>k o'. op_self q = Some k \<longrightarrow> map_of (nm_rows s') k = Some o' \<longrightarrow> map_of (nm_rows s) k = Some o') \<and>
    (\<forall>k. op_made q = Some k \<longrightarrow> map_of (nm_rows s) k = None \<longrightarrow> map_of (nm_rows s') k = None) \<and>
    (\<forall>m sb. op_made q = Some (b_ID sb) \<longrightarrow> (m, sb) \<in> set (nm_all s') \<longrightarrow>
      (\<exists>sb0. (m, sb0) \<in> set (nm_all s) \<and> b_ID sb0 = b_ID sb \<and> b_Name sb0 = b_Name sb \<and> b_Labels sb0 = b_Labels sb))"
    unfolding s' by auto
qed (use s' in auto)

lemma names_ok_rename:
  assumes ok: "names_ok nodes s" and i: "nm_ops s i = Some (Free p name (Some sid))"
    and s': "s' = s\<lparr>nm_all := on_id sid (\<lambda>sb. sb\<lparr>b_Name := name\<rparr>) (nm_all s), nm_ops := (nm_ops s)(i \<mapsto> Through p name)\<rparr>"
  shows "names_ok nodes s'"
proof (rule names_ok_gain [OF ok i, of "pp_User p" "pp_Tenant p" name s' p sid])
  note d = names_okD [OF ok]
  have own: "\<forall>o'. map_of (nm_rows s) sid = Some o' \<longrightarrow> has_owner (pp_User p) (pp_Tenant p) o'"
    and "holding s (pp_User p) (pp_Tenant p) name \<subseteq> {sid}" using d(4) [OF i] by simp_all
  then show "holding s (pp_User p) (pp_Tenant p) name \<subseteq> {sid}" by simp
  have in': "\<exists>sb0. (m, sb0) \<in> set (nm_all s) \<and> sb = (if b_ID sb0 = sid then sb0\<lparr>b_Name := name\<rparr> else sb0)" if "(m, sb) \<in> set (nm_all s')" for m sb
    using that unfolding s' by (simp add: on_id_in)
  show "rows_ok nodes s'"
  proof (rule rows_okI)
    show "distinct (map (\<lambda>(_, sb). b_ID sb) (nm_all s'))" using d(1) s' by (simp add: rows_ok_def on_id_keeps)
    fix m sb assume "(m, sb) \<in> set (nm_all s')"
    from in' [OF this] obtain sb0 where sb0: "(m, sb0) \<in> set (nm_all s)" "b_ID sb = b_ID sb0" "b_Labels sb = b_Labels sb0" by (auto split: if_split_asm)
    show "b_ID sb \<in> nm_used s'" using rows_okD(2) [OF d(1) sb0(1)] sb0(2) s' by simp
    show "m = ow_Node o' \<and> m \<in> set nodes \<and> map_of (b_Labels sb) ''gateway.owner'' = Some (ow_User o')" if "map_of (nm_rows s') (b_ID sb) = Some o'" for o'
      using rows_okD(3) [OF d(1) sb0(1), of o'] that sb0(2,3) s' by auto
  qed (use d(1) rows_okD(1) [OF d(1)] s' in \<open>auto simp: rows_ok_def\<close>)
  show "holding s' u t name' \<subseteq> holding s u t name' \<union> (if (u, t, name') = (pp_User p, pp_Tenant p, name) then {sid} else {})" for u t name'
  proof
    fix x assume "x \<in> holding s' u t name'"
    then obtain m sb o' where sb: "x = b_ID sb" "(m, sb) \<in> set (nm_all s')" "live sb" "b_Name sb = name'"
      "map_of (nm_rows s) (b_ID sb) = Some o'" "has_owner u t o'" using s' by (auto simp: holding_def)
    from in' [OF sb(2)] obtain sb0 where sb0: "(m, sb0) \<in> set (nm_all s)" "sb = (if b_ID sb0 = sid then sb0\<lparr>b_Name := name\<rparr> else sb0)" by blast
    show "x \<in> holding s u t name' \<union> (if (u, t, name') = (pp_User p, pp_Tenant p, name) then {sid} else {})"
    proof (cases "b_ID sb0 = sid")
      case True then show ?thesis using sb sb0 own by (auto simp: has_owner_def)
    next
      case False
      then have "x \<in> holding s u t name'" using sb sb0 unfolding holding_def by auto
      then show ?thesis by simp
    qed
  qed
  fix j q assume jq: "j \<noteq> i" "nm_ops s j = Some q"
  then have ne: "op_made q \<noteq> Some sid" using d(3) i unfolding ops_apart_def by force
  have "\<exists>sb0. (m, sb0) \<in> set (nm_all s) \<and> b_ID sb0 = b_ID sb \<and> b_Name sb0 = b_Name sb \<and> b_Labels sb0 = b_Labels sb"
    if "op_made q = Some (b_ID sb)" "(m, sb) \<in> set (nm_all s')" for m sb
    using in' [OF that(2)] that(1) ne by (auto split: if_split_asm)
  then show "(\<forall>k o'. op_self q = Some k \<longrightarrow> map_of (nm_rows s') k = Some o' \<longrightarrow> map_of (nm_rows s) k = Some o') \<and>
    (\<forall>k. op_made q = Some k \<longrightarrow> map_of (nm_rows s) k = None \<longrightarrow> map_of (nm_rows s') k = None) \<and>
    (\<forall>m sb. op_made q = Some (b_ID sb) \<longrightarrow> (m, sb) \<in> set (nm_all s') \<longrightarrow>
      (\<exists>sb0. (m, sb0) \<in> set (nm_all s) \<and> b_ID sb0 = b_ID sb \<and> b_Name sb0 = b_Name sb \<and> b_Labels sb0 = b_Labels sb))"
    unfolding s' by auto
qed (use s' in auto)

lemma names_ok_plain:
  assumes ok: "names_ok nodes s" and sb: "n \<in> set nodes" "b_ID sb \<notin> nm_used s" "b_Name sb = []" "map_of (b_Labels sb) ''gateway.owner'' = Some u"
    and s': "s' = s\<lparr>nm_all := (n, sb) # nm_all s, nm_used := insert (b_ID sb) (nm_used s),
      nm_rows := (b_ID sb, \<lparr>ow_User = u, ow_Tenant = t, ow_Node = n\<rparr>) # nm_rows s\<rparr>"
  shows "names_ok nodes s'"
proof (rule names_ok_add [OF ok sb(2), of s' n])
  note d = names_okD [OF ok]
  have "b_ID sb \<notin> fst ` set (nm_rows s)" using d(1) sb(2) by (auto simp: rows_ok_def)
  moreover have "(m, q) \<in> set (nm_all s) \<Longrightarrow> b_ID q \<noteq> b_ID sb" for m q using rows_okD(2) [OF d(1), of m q] sb(2) by auto
  ultimately show "rows_ok nodes s'"
    by (intro rows_okI) (use d(1) rows_okD(1-3) [OF d(1)] s' sb in \<open>auto simp: rows_ok_def split: if_split_asm\<close>)
qed (use s' sb names_okD(3) [OF ok] in auto)

lemma names_ok_end:
  assumes ok: "names_ok nodes s" and i: "nm_ops s i = Some op"
  shows "names_ok nodes (end_claim i op s)"
proof (rule fewer_names_ok [OF ok])
  note d = names_okD [OF ok]
  show "ops_apart (nm_ops (end_claim i op s))" using d(3) unfolding ops_apart_def end_claim_def by auto
  show "name_op_ok nodes s q \<and> op_key q \<in> set (nm_claimed (end_claim i op s))" if "nm_ops (end_claim i op s) j = Some q" for j q
  proof -
    have q: "nm_ops s j = Some q" "j \<noteq> i" using that by (auto simp: end_claim_def split: if_split_asm)
    then have "op_key q \<noteq> op_key op" using d(3) i unfolding ops_apart_def by metis
    then show ?thesis using d(4,5) [OF q(1)] by (simp add: end_claim_def unclaim_def)
  qed
qed (use names_okD(1) [OF ok] in \<open>auto simp: fewer_def rows_ok_def end_claim_def\<close>)

lemma names_ok_less:
  assumes ok: "names_ok nodes s" and s': "fewer s' s" "distinct (map (\<lambda>(_, sb). b_ID sb) (nm_all s'))" "distinct (map fst (nm_rows s'))"
    "nm_ops s' = nm_ops s" "nm_claimed s' = nm_claimed s"
  shows "names_ok nodes s'"
  by (rule fewer_names_ok [OF ok s'(1-3)]) (use names_okD [OF ok] s'(4,5) in auto)

lemma names_ok_step:
  assumes ok: "names_ok nodes s" and st: "nstep nodes s s'"
  shows "names_ok nodes s'"
  using st
proof cases
  case (n_changes f sid)
  have "fewer s' s" unfolding n_changes(1) fewer_def using n_changes(2) by (auto simp: on_id_in)
  then show ?thesis by (rule names_ok_less [OF ok]) (use names_okD(1) [OF ok] n_changes in \<open>auto simp: rows_ok_def on_id_keeps\<close>)
next
  case (n_gone sid)
  have "fewer s' s" unfolding n_gone fewer_def by auto
  then show ?thesis by (rule names_ok_less [OF ok]) (use names_okD(1) [OF ok] n_gone in \<open>auto simp: rows_ok_def distinct_map_filter\<close>)
next
  case (n_forget sid)
  have "fewer s' s" unfolding n_forget(1) fewer_def by (auto simp: map_of_filter_ne split: if_split_asm)
  then show ?thesis by (rule names_ok_less [OF ok]) (use names_okD(1) [OF ok] n_forget(1) in \<open>auto simp: rows_ok_def distinct_map_filter\<close>)
next
  case (n_claim name p claimed i self)
  show ?thesis unfolding n_claim(1) by (rule names_ok_claim [OF ok n_claim(2,3,5)])
next
  case (n_end i op)
  show ?thesis unfolding n_end(1) by (rule names_ok_end [OF ok n_end(2)])
next
  case (n_listed i p name self up tombs now)
  show ?thesis by (rule names_ok_listed [OF ok n_listed(2,3,4,1)])
next
  case (n_make i p name n sb)
  show ?thesis by (rule names_ok_make [OF ok n_make(2-6,1)])
next
  case (n_record i p name sid n)
  show ?thesis by (rule names_ok_record [OF ok n_record(2,1)])
next
  case (n_rename i p name sid)
  show ?thesis by (rule names_ok_rename [OF ok n_rename(2,1)])
next
  case (n_plain n sb u t)
  show ?thesis by (rule names_ok_plain [OF ok n_plain(2-5,1)])
qed

lemma names_ok_init: "names_ok nodes names0"
  by (simp add: names0_def names_ok_def rows_ok_def names_apart_def holding_def ops_apart_def)

interpretation names_run: event_invariant "\<lambda>s. s = names0" "nmove nodes" "\<lambda>e. e = None" "names_ok nodes" for nodes
  by unfold_locales (auto simp: names_ok_init elim!: nmove.cases intro: names_ok_step)

text \<open>
  C11: After any run of creates and renames, overlapping in any way, on any nodes, two recorded live sandboxes of one user in one organisation
  have different names, or one of four things happened in the run: a listing left out a node that has a live sandbox of the name
  (unhealthy, or not to be connected to), a claim was given up before its request was through, a second gateway process took a claimed name, or
  a node made a terminated sandbox live again.
\<close>

theorem names_are_the_users_own:
  assumes "trace (nmove nodes) names0 es s"
    and "(n, a) \<in> set (nm_all s)" "(m, b) \<in> set (nm_all s)" "live a" "live b" "b_ID a \<noteq> b_ID b"
    and "map_of (nm_rows s) (b_ID a) = Some oa" "map_of (nm_rows s) (b_ID b) = Some ob" "ow_User oa = ow_User ob" "ow_Tenant oa = ow_Tenant ob"
  shows "b_Name a \<noteq> b_Name b \<or> b_Name a = [] \<or> (\<exists>e. Some e \<in> set es)"
proof (rule ccontr)
  assume neg: "\<not> (b_Name a \<noteq> b_Name b \<or> b_Name a = [] \<or> (\<exists>e. Some e \<in> set es))"
  then have "b_ID a \<in> holding s (ow_User oa) (ow_Tenant oa) (b_Name a)" "b_ID b \<in> holding s (ow_User oa) (ow_Tenant oa) (b_Name a)" "b_Name a \<noteq> []"
    using assms by (auto simp: holding_def has_owner_def)
  moreover have "names_ok nodes s" using names_run.inv_trace [OF assms(1)] neg by fastforce
  ultimately show False using names_okD(2) assms(6) unfolding names_apart_def by blast
qed

subsection \<open>Two creates\<close>

definition demo_user :: Principal where
  "demo_user = \<lparr>pp_User = ''ann'', pp_Tenant = ''t'', pp_KeyTenant = ''t'', pp_KeyID = ''k'', pp_Scopes = [], pp_Sandbox = [], pp_Bound = False, pp_BoundOrg = []\<rparr>"

definition demo_named :: "bytes \<Rightarrow> bytes \<Rightarrow> sandbox" where
  "demo_named sid name = \<lparr>b_ID = sid, b_Name = name, b_State = Running, b_Image = [], b_CPUs = Fin 1, b_MemoryMB = 512, b_DiskMB = 0, b_EnvNames = [],
     b_Network = zero_network, b_CreatedAt = 0, b_IdleTimeoutSecs = 0, b_IdleAction = [], b_IdleSuspended = False, b_LifetimeSecs = 0,
     b_ExpiresAt = None, b_SnapshotEverySecs = 0, b_SnapshotKeep = 0, b_Snapshotting = False, b_Labels = [(''gateway.owner'', ''ann'')],
     b_Volumes = [], b_GPUs = []\<rparr>"

definition demo_names :: "(bytes \<times> Owner) list \<Rightarrow> (bytes \<times> sandbox) list \<Rightarrow> bytes set \<Rightarrow> names" where
  "demo_names rows all used = \<lparr>nm_claimed = [], nm_rows = rows, nm_all = all, nm_used = used, nm_ops = Map.empty\<rparr>"

lemma demo_named_create:
  assumes r: "reach (\<lambda>s. s = names0) (nstep nodes) (demo_names rows all used)"
    and c: "name_check (names_view nodes tombs now (demo_names rows all used)) demo_user None name = None" "name \<noteq> []" "n \<in> set nodes" "sid \<notin> used"
  shows "reach (\<lambda>s. s = names0) (nstep nodes) (demo_names ((sid, \<lparr>ow_User = ''ann'', ow_Tenant = ''t'', ow_Node = n\<rparr>) # rows)
    ((n, demo_named sid name) # all) (insert sid used))"
proof -
  let ?s = "demo_names rows all used" and ?k = "sandbox_key demo_user name" and ?sb = "demo_named sid name"
  let ?s1 = "?s\<lparr>nm_claimed := [?k], nm_ops := [0 \<mapsto> Claimed demo_user name None]\<rparr>"
  let ?s2 = "?s\<lparr>nm_claimed := [?k], nm_ops := [0 \<mapsto> Free demo_user name None]\<rparr>"
  let ?s3 = "?s\<lparr>nm_claimed := [?k], nm_all := (n, ?sb) # all, nm_used := insert sid used, nm_ops := [0 \<mapsto> Made demo_user name sid n]\<rparr>"
  let ?s4 = "?s3\<lparr>nm_rows := (sid, \<lparr>ow_User = ''ann'', ow_Tenant = ''t'', ow_Node = n\<rparr>) # rows, nm_ops := [0 \<mapsto> Through demo_user name]\<rparr>"
  note go = reach_step [where init = "\<lambda>s. s = names0" and step = "nstep nodes"]
  have v: "names_view nodes tombs now ?s1 = names_view nodes tombs now ?s" by (simp add: names_view_def)
  have 1: "nstep nodes ?s ?s1" using n_claim [of name demo_user ?s "[?k]" 0 None nodes] c(2) by (simp add: demo_names_def claim_key_def)
  have "names_ok nodes ?s" using r by (induction rule: reach.induct) (auto simp: names_ok_init intro: names_ok_step)
  then have "\<not> left_out nodes ?s1 demo_user None name"
    using rows_okD(3) [OF names_okD(1)] by (fastforce simp: left_out_def list_ex_iff split: option.splits)
  then have 2: "nstep nodes ?s1 ?s2" using n_listed [of ?s1 0 demo_user name None nodes tombs now] c(1) v by simp
  have 3: "nstep nodes ?s2 ?s3" using n_make [of ?s2 0 demo_user name n nodes ?sb] c(3,4)
    by (simp add: demo_names_def demo_named_def demo_user_def)
  have 4: "nstep nodes ?s3 ?s4" using n_record [of ?s3 0 demo_user name sid n nodes] by (simp add: demo_names_def demo_user_def)
  have 5: "nstep nodes ?s4 (end_claim 0 (Through demo_user name) ?s4)" by (rule n_end) simp
  show ?thesis using go [OF go [OF go [OF go [OF go [OF r 1] 2] 3] 4] 5]
    by (simp add: end_claim_def unclaim_def demo_names_def)
qed

theorem names_are_the_users_own_witness:
  "\<exists>es s a b. trace (nmove [''n1'', ''n2'']) names0 es s \<and> \<not> (\<exists>e. Some e \<in> set es) \<and> (''n1'', a) \<in> set (nm_all s) \<and> (''n2'', b) \<in> set (nm_all s) \<and>
     live a \<and> live b \<and> b_Name a \<noteq> [] \<and> b_Name a \<noteq> b_Name b"
proof -
  let ?o = "\<lambda>n. \<lparr>ow_User = ''ann'', ow_Tenant = ''t'', ow_Node = n\<rparr>"
  let ?s1 = "demo_names [(''x'', ?o ''n1'')] [(''n1'', demo_named ''x'' ''web'')] {''x''}"
  let ?s2 = "demo_names [(''y'', ?o ''n2''), (''x'', ?o ''n1'')] [(''n2'', demo_named ''y'' ''db''), (''n1'', demo_named ''x'' ''web'')] {''y'', ''x''}"
  have "reach (\<lambda>s. s = names0) (nstep [''n1'', ''n2'']) (demo_names [] [] {})" by (rule reach_init) (simp add: demo_names_def names0_def)
  moreover have "name_check (names_view [''n1'', ''n2''] (newTombstones 10 60) 0 (demo_names [] [] {})) demo_user None ''web'' = None" by code_simp
  ultimately have "reach (\<lambda>s. s = names0) (nstep [''n1'', ''n2'']) ?s1" by (rule demo_named_create) simp_all
  moreover have "name_check (names_view [''n1'', ''n2''] (newTombstones 10 60) 0 ?s1) demo_user None ''db'' = None" by code_simp
  ultimately have "reach (\<lambda>s. s = names0) (nstep [''n1'', ''n2'']) ?s2" by (rule demo_named_create) simp_all
  then have "\<exists>s0 n. s0 = names0 \<and> trace (nmove [''n1'', ''n2'']) s0 (replicate n None) ?s2" by (rule reach_trace) (rule m_step)
  then obtain n where r: "trace (nmove [''n1'', ''n2'']) names0 (replicate n None) ?s2" by blast
  have "b_Name (demo_named ''x'' ''web'') \<noteq> b_Name (demo_named ''y'' ''db'') \<or> b_Name (demo_named ''x'' ''web'') = [] \<or>
      (\<exists>e. Some e \<in> set (replicate n (None :: name_mishap option)))"
    by (rule names_are_the_users_own [OF r, of "''n1''" _ "''n2''" _ "?o ''n1''" "?o ''n2''"]) (simp_all add: demo_names_def demo_named_def live_def)
  then show ?thesis using r
    by (intro exI [of _ "replicate n None"] exI [of _ ?s2] exI [of _ "demo_named ''x'' ''web''"] exI [of _ "demo_named ''y'' ''db''"])
      (simp add: demo_names_def demo_named_def live_def)
qed

end
