(* ===== verification/Gateway_Quota.thy ===== *)
theory Gateway_Quota
  imports Gateway_Access
begin

text \<open>
  A tenant's quota (\<open>reserve\<close>, \<open>quotaHold\<close> of \<open>internal/gateway/gateway.go\<close> and \<open>usageOf\<close> of \<open>lost.go\<close>): what the store records, what is in
  flight, and the holds that move from one to the other. \<open>int\<close> sums wrap at 64 bits; the rounding of \<open>float64\<close> sums is
  the argument \<open>rnd\<close>.
\<close>

subsection \<open>Usage and holds\<close>

record Usage =
  ug_Sandboxes :: int
  ug_CPUs :: f64
  ug_MemoryMB :: int

definition no_usage :: Usage where
  "no_usage = \<lparr>ug_Sandboxes = 0, ug_CPUs = Fin 0, ug_MemoryMB = 0\<rparr>"

record Quota =
  q_Sandboxes :: int
  q_CPUs :: f64
  q_MemoryMB :: int

text \<open>A row of the store: a live sandbox, whose it is, and its size. \<open>lost\<close> are the nodes given up.\<close>

record row =
  rw_ID :: bytes
  rw_Owner :: Owner
  rw_Size :: NodeResources

definition add_usage :: "(rat \<Rightarrow> f64) \<Rightarrow> int \<Rightarrow> NodeResources \<Rightarrow> Usage \<Rightarrow> Usage" where
  "add_usage rnd n r u = \<lparr>ug_Sandboxes = i64 (ug_Sandboxes u + n), ug_CPUs = f_add rnd (ug_CPUs u) (nr_CPUs r),
     ug_MemoryMB = i64 (ug_MemoryMB u + nr_MemoryMB r)\<rparr>"

definition tenant_rows :: "bytes \<Rightarrow> row list \<Rightarrow> row list" where
  "tenant_rows t rows = filter (\<lambda>r. ow_Tenant (rw_Owner r) = t) rows"

definition usageOf :: "(rat \<Rightarrow> f64) \<Rightarrow> (bytes \<Rightarrow> bool) \<Rightarrow> bytes \<Rightarrow> row list \<Rightarrow> Usage" where
  "usageOf rnd lost t rows =
    foldl (\<lambda>u r. add_usage rnd 1 (rw_Size r) u) no_usage (filter (\<lambda>r. \<not> lost (ow_Node (rw_Owner r))) (tenant_rows t rows))"

record quotaHold =
  qh_tenant :: bytes
  qh_r :: NodeResources
  qh_n :: int

definition over_quota :: "(rat \<Rightarrow> f64) \<Rightarrow> Quota \<Rightarrow> Usage \<Rightarrow> Usage \<Rightarrow> NodeResources \<Rightarrow> int \<Rightarrow> bool" where
  "over_quota rnd q u fl r n \<longleftrightarrow>
     n > 0 \<and> q_Sandboxes q > 0 \<and> i64 (i64 (ug_Sandboxes u + ug_Sandboxes fl) + n) > q_Sandboxes q \<or>
     f_lt (Fin 0) (q_CPUs q) \<and>
       f_lt (f_add rnd (q_CPUs q) (rnd (1 / 10 ^ 9))) (f_add rnd (f_add rnd (ug_CPUs u) (ug_CPUs fl)) (nr_CPUs r)) \<or>
     q_MemoryMB q > 0 \<and> i64 (i64 (ug_MemoryMB u + ug_MemoryMB fl) + nr_MemoryMB r) > q_MemoryMB q"

definition has_quota :: "Quota \<Rightarrow> bool" where
  "has_quota q \<longleftrightarrow> q_Sandboxes q > 0 \<or> f_lt (Fin 0) (q_CPUs q) \<or> q_MemoryMB q > 0"

text \<open>\<open>usage\<close> is None when the database did not answer.\<close>

definition reserve_quota :: "(rat \<Rightarrow> f64) \<Rightarrow> Quota \<Rightarrow> Usage option \<Rightarrow> NodeResources \<Rightarrow> int \<Rightarrow> Usage \<Rightarrow> Usage option" where
  "reserve_quota rnd q usage r n fl =
    (if has_quota q \<and> (case usage of None \<Rightarrow> True | Some u \<Rightarrow> over_quota rnd q u fl r n) then None
     else Some (add_usage rnd n r fl))"

text \<open>\<open>drop\<close>: the entry goes when nothing is in flight any more.\<close>

definition drop_hold :: "(rat \<Rightarrow> f64) \<Rightarrow> quotaHold \<Rightarrow> Usage \<Rightarrow> Usage" where
  "drop_hold rnd h fl =
    (let fl' = \<lparr>ug_Sandboxes = i64 (ug_Sandboxes fl - qh_n h), ug_CPUs = f_add rnd (ug_CPUs fl) (f_neg (nr_CPUs (qh_r h))),
                 ug_MemoryMB = i64 (ug_MemoryMB fl - nr_MemoryMB (qh_r h))\<rparr>
     in if ug_Sandboxes fl' \<le> 0 \<and> f_lt (ug_CPUs fl') (rnd (1 / 10 ^ 9)) \<and> ug_MemoryMB fl' \<le> 0 then no_usage else fl')"

subsection \<open>Creates, resizes and terminations\<close>

text \<open>
  \<open>qs_holds\<close> are the holds not yet done, by the create or resize that has them. A create records a sandbox the store
  has no row of, a resize replaces a row. Here the node gives a sandbox no more than is held for it, every node's rows
  count, and no request is so large that the sums of the check wrap; \<open>qmove\<close> below has the other steps.
\<close>

record quota_state =
  qs_rows :: "row list"
  qs_inflight :: "bytes \<Rightarrow> Usage"
  qs_holds :: "(nat \<times> quotaHold) list"

definition hold_done :: "(rat \<Rightarrow> f64) \<Rightarrow> nat \<Rightarrow> quotaHold \<Rightarrow> quota_state \<Rightarrow> quota_state" where
  "hold_done rnd i h s = s\<lparr>qs_inflight := (qs_inflight s)(qh_tenant h := drop_hold rnd h (qs_inflight s (qh_tenant h))),
     qs_holds := filter (\<lambda>(j, _). j \<noteq> i) (qs_holds s)\<rparr>"

definition put_row :: "row \<Rightarrow> row list \<Rightarrow> row list" where
  "put_row r rows = r # filter (\<lambda>x. rw_ID x \<noteq> rw_ID r) rows"

definition old_rows :: "bytes \<Rightarrow> row list \<Rightarrow> row list" where
  "old_rows sid rows = filter (\<lambda>x. rw_ID x = sid) rows"

inductive qstep :: "(rat \<Rightarrow> f64) \<Rightarrow> Quota \<Rightarrow> quota_state \<Rightarrow> quota_state \<Rightarrow> bool" for rnd q where
  q_reserve: "reserve_quota rnd q (Some (usageOf rnd (\<lambda>_. False) t (qs_rows s))) r n (qs_inflight s t) = Some fl \<Longrightarrow>
    i \<notin> fst ` set (qs_holds s) \<Longrightarrow> n \<in> {0, 1} \<Longrightarrow> 0 \<le> nr_MemoryMB r \<Longrightarrow> nr_MemoryMB r < 2 ^ 62 \<Longrightarrow>
    qstep rnd q s (s\<lparr>qs_inflight := (qs_inflight s)(t := fl), qs_holds := (i, \<lparr>qh_tenant = t, qh_r = r, qh_n = n\<rparr>) # qs_holds s\<rparr>)"
| q_release: "(i, h) \<in> set (qs_holds s) \<Longrightarrow> qstep rnd q s (hold_done rnd i h s)"
| q_record: "(i, h) \<in> set (qs_holds s) \<Longrightarrow> ow_Tenant (rw_Owner r) = qh_tenant h \<Longrightarrow>
    0 \<le> nr_MemoryMB (rw_Size r) \<Longrightarrow>
    (old_rows (rw_ID r) (qs_rows s) = [] \<and> qh_n h = 1 \<and> nr_MemoryMB (rw_Size r) \<le> nr_MemoryMB (qh_r h) \<or>
     (\<exists>old. old_rows (rw_ID r) (qs_rows s) = [old] \<and> rw_Owner old = rw_Owner r \<and>
        nr_MemoryMB (rw_Size r) \<le> nr_MemoryMB (rw_Size old) + nr_MemoryMB (qh_r h))) \<Longrightarrow>
    qstep rnd q s ((hold_done rnd i h s)\<lparr>qs_rows := put_row r (qs_rows s)\<rparr>)"
| q_forget: "qstep rnd q s (s\<lparr>qs_rows := filter (\<lambda>r. rw_ID r \<noteq> sid) (qs_rows s)\<rparr>)"

text \<open>What the hold of a create or resize covers.\<close>

definition covers :: "quotaHold \<Rightarrow> row \<Rightarrow> row list \<Rightarrow> bool" where
  "covers h r rows \<longleftrightarrow> (case old_rows (rw_ID r) rows of
      [] \<Rightarrow> qh_n h = 1 \<and> nr_MemoryMB (rw_Size r) \<le> nr_MemoryMB (qh_r h)
    | old # _ \<Rightarrow> rw_Owner old = rw_Owner r \<and> nr_MemoryMB (rw_Size r) \<le> nr_MemoryMB (rw_Size old) + nr_MemoryMB (qh_r h))"

text \<open>
  What else may happen. A sandbox is given more than was held for it: a create from a snapshot, whose memory the node takes from the snapshot
  while the hold has the request's, or a resize worked out against a row that has changed since. A reservation is made while a node
  with rows of the tenant is lost, and its rows count again when it is back. A request asks for so much that the
  check's sum wraps.
\<close>

datatype quota_mishap = GivenMore | NodeLost | HugeRequest

inductive qmove :: "(rat \<Rightarrow> f64) \<Rightarrow> Quota \<Rightarrow> quota_state \<Rightarrow> quota_mishap option \<Rightarrow> quota_state \<Rightarrow> bool" for rnd q where
  q_step: "qstep rnd q s s' \<Longrightarrow> qmove rnd q s None s'"
| q_more: "(i, h) \<in> set (qs_holds s) \<Longrightarrow> ow_Tenant (rw_Owner r) = qh_tenant h \<Longrightarrow> \<not> covers h r (qs_rows s) \<Longrightarrow>
    qmove rnd q s (Some GivenMore) ((hold_done rnd i h s)\<lparr>qs_rows := put_row r (qs_rows s)\<rparr>)"
| q_lost: "reserve_quota rnd q (Some (usageOf rnd lost t (qs_rows s))) r n (qs_inflight s t) = Some fl \<Longrightarrow>
    list_ex (\<lambda>r. lost (ow_Node (rw_Owner r))) (tenant_rows t (qs_rows s)) \<Longrightarrow> i \<notin> fst ` set (qs_holds s) \<Longrightarrow> n \<in> {0, 1} \<Longrightarrow>
    qmove rnd q s (Some NodeLost) (s\<lparr>qs_inflight := (qs_inflight s)(t := fl), qs_holds := (i, \<lparr>qh_tenant = t, qh_r = r, qh_n = n\<rparr>) # qs_holds s\<rparr>)"
| q_huge: "reserve_quota rnd q (Some (usageOf rnd (\<lambda>_. False) t (qs_rows s))) r n (qs_inflight s t) = Some fl \<Longrightarrow>
    2 ^ 62 \<le> nr_MemoryMB r \<Longrightarrow> i \<notin> fst ` set (qs_holds s) \<Longrightarrow> n \<in> {0, 1} \<Longrightarrow>
    qmove rnd q s (Some HugeRequest) (s\<lparr>qs_inflight := (qs_inflight s)(t := fl), qs_holds := (i, \<lparr>qh_tenant = t, qh_r = r, qh_n = n\<rparr>) # qs_holds s\<rparr>)"

definition memory_of :: "bytes \<Rightarrow> row list \<Rightarrow> int" where
  "memory_of t rows = (\<Sum>r \<leftarrow> tenant_rows t rows. nr_MemoryMB (rw_Size r))"

definition quota_init :: "Quota \<Rightarrow> quota_state \<Rightarrow> bool" where
  "quota_init q s \<longleftrightarrow> qs_holds s = [] \<and> qs_inflight s = (\<lambda>_. no_usage) \<and> distinct (map rw_ID (qs_rows s)) \<and>
     list_all (\<lambda>r. 0 \<le> nr_MemoryMB (rw_Size r)) (qs_rows s) \<and>
     (\<forall>t. (q_MemoryMB q > 0 \<longrightarrow> memory_of t (qs_rows s) \<le> q_MemoryMB q) \<and>
          (q_Sandboxes q > 0 \<longrightarrow> int (length (tenant_rows t (qs_rows s))) \<le> q_Sandboxes q))"

section \<open>One dimension of a quota\<close>

text \<open>What a tenant has recorded and holds, of whatever is counted.\<close>

definition sum_rows :: "(row \<Rightarrow> int) \<Rightarrow> bytes \<Rightarrow> row list \<Rightarrow> int" where
  "sum_rows f t rows = (\<Sum>r \<leftarrow> tenant_rows t rows. f r)"

definition tenant_holds :: "bytes \<Rightarrow> (nat \<times> quotaHold) list \<Rightarrow> (nat \<times> quotaHold) list" where
  "tenant_holds t hs = filter (\<lambda>(_, h). qh_tenant h = t) hs"

definition sum_holds :: "(quotaHold \<Rightarrow> int) \<Rightarrow> bytes \<Rightarrow> (nat \<times> quotaHold) list \<Rightarrow> int" where
  "sum_holds f t hs = (\<Sum>(_, h) \<leftarrow> tenant_holds t hs. f h)"

lemma sum_rows_filter:
  "sum_rows f t (filter P rows) = sum_rows f t rows - sum_rows f t (filter (\<lambda>r. \<not> P r) rows)"
  by (induction rows) (auto simp: sum_rows_def tenant_rows_def)

lemma sum_rows_Cons: "sum_rows f t (r # rows) = (if ow_Tenant (rw_Owner r) = t then f r else 0) + sum_rows f t rows"
  by (simp add: sum_rows_def tenant_rows_def)

lemma sum_rows_nonneg: "\<forall>r \<in> set rows. 0 \<le> f r \<Longrightarrow> 0 \<le> sum_rows f t rows"
  by (auto simp: sum_rows_def tenant_rows_def intro!: sum_list_nonneg)

lemma sum_holds_Cons: "sum_holds f t ((i, h) # hs) = (if qh_tenant h = t then f h else 0) + sum_holds f t hs"
  by (simp add: sum_holds_def tenant_holds_def)

lemma sum_holds_nonneg: "\<forall>(i, h) \<in> set hs. 0 \<le> f h \<Longrightarrow> 0 \<le> sum_holds f t hs"
  by (auto simp: sum_holds_def tenant_holds_def intro!: sum_list_nonneg)

lemma sum_holds_remove:
  "distinct (map fst hs) \<Longrightarrow> (i, h) \<in> set hs \<Longrightarrow>
    sum_holds f t (filter (\<lambda>(j, _). j \<noteq> i) hs) = sum_holds f t hs - (if qh_tenant h = t then f h else 0)"
proof (induction hs)
  case (Cons x hs)
  obtain j k where x: "x = (j, k)" by (cases x)
  show ?case
  proof (cases "j = i")
    case True
    then have "filter (\<lambda>(j, _). j \<noteq> i) hs = hs" using Cons.prems(1) x by (force simp: filter_id_conv)
    moreover have "k = h" using Cons.prems True x by (auto simp: image_iff)
    ultimately show ?thesis using True x by (simp add: sum_holds_Cons)
  next
    case False
    then show ?thesis using Cons x by (simp add: sum_holds_Cons)
  qed
qed simp

text \<open>
  One thing the quota counts, with its limit \<open>cap\<close>, or none if that is not positive: what it is of a usage, of a hold and of a row. The laws are what \<open>reserve\<close>, \<open>drop\<close>
  and \<open>usageOf\<close> do to it.
\<close>

locale quota_dim =
  fixes rnd :: "rat \<Rightarrow> f64" and q :: Quota and pu :: "Usage \<Rightarrow> int" and ph :: "quotaHold \<Rightarrow> int" and pr :: "row \<Rightarrow> int" and cap :: int
  assumes small: "cap < 2 ^ 62"
    and zero: "pu no_usage = 0"
    and counted: "pu (usageOf rnd (\<lambda>_. False) t rows) = foldl (\<lambda>a r. i64 (a + pr r)) 0 (tenant_rows t rows)"
    and dropped: "pu (drop_hold rnd h fl) = i64 (pu fl - ph h) \<or> pu (drop_hold rnd h fl) = 0 \<and> i64 (pu fl - ph h) \<le> 0"
    and reserved: "reserve_quota rnd q (Some u) r n fl = Some fl' \<Longrightarrow> 0 \<le> n \<Longrightarrow> 0 < cap \<Longrightarrow>
      pu fl' = i64 (pu fl + ph \<lparr>qh_tenant = t, qh_r = r, qh_n = n\<rparr>) \<and>
      (ph \<lparr>qh_tenant = t, qh_r = r, qh_n = n\<rparr> = 0 \<or> i64 (i64 (pu u + pu fl) + ph \<lparr>qh_tenant = t, qh_r = r, qh_n = n\<rparr>) \<le> cap)"
begin

lemma usage_exact:
  assumes "\<forall>r \<in> set rows. 0 \<le> pr r" "sum_rows pr t rows \<le> cap"
  shows "pu (usageOf rnd (\<lambda>_. False) t rows) = sum_rows pr t rows"
proof -
  have "foldl (\<lambda>a r. i64 (a + pr r)) a xs = a + (\<Sum>r \<leftarrow> xs. pr r)"
    if "\<forall>r \<in> set xs. 0 \<le> pr r" "0 \<le> a" "a + (\<Sum>r \<leftarrow> xs. pr r) \<le> cap" for a xs
    using that
  proof (induction xs arbitrary: a)
    case (Cons x xs)
    have "0 \<le> (\<Sum>r \<leftarrow> xs. pr r)" using Cons.prems(1) by (auto intro!: sum_list_nonneg)
    then have "i64 (a + pr x) = a + pr x" using Cons.prems small by (simp add: i64_id in_i64_def)
    then show ?case using Cons by simp
  qed simp
  from this [of "tenant_rows t rows" 0] assms show ?thesis by (simp add: counted sum_rows_def tenant_rows_def)
qed

lemma reserve_within:
  assumes fl: "pu fl = held" "0 \<le> held" and u: "pu u = used" "0 \<le> used" "used + held \<le> cap"
    and r: "reserve_quota rnd q (Some u) r n fl = Some fl'" "0 \<le> n" "0 < cap"
    and h: "0 \<le> ph \<lparr>qh_tenant = t, qh_r = r, qh_n = n\<rparr>" "ph \<lparr>qh_tenant = t, qh_r = r, qh_n = n\<rparr> < 2 ^ 62"
  shows "pu fl' = held + ph \<lparr>qh_tenant = t, qh_r = r, qh_n = n\<rparr> \<and> used + held + ph \<lparr>qh_tenant = t, qh_r = r, qh_n = n\<rparr> \<le> cap"
proof -
  let ?p = "ph \<lparr>qh_tenant = t, qh_r = r, qh_n = n\<rparr>"
  have "i64 (used + held) = used + held" "i64 (used + held + ?p) = used + held + ?p" "i64 (held + ?p) = held + ?p"
    using assms small by (simp_all add: i64_id in_i64_def)
  then show ?thesis using reserved [OF r, of t] fl(1) u by auto
qed

lemma drop_exact: "pu fl = a \<Longrightarrow> 0 \<le> ph h \<Longrightarrow> ph h \<le> a \<Longrightarrow> a \<le> cap \<Longrightarrow> pu (drop_hold rnd h fl) = a - ph h"
proof -
  assume a: "pu fl = a" "0 \<le> ph h" "ph h \<le> a" "a \<le> cap"
  then have "i64 (pu fl - ph h) = a - ph h" using small by (simp add: i64_id in_i64_def)
  then show ?thesis using dropped [of h fl] a by auto
qed

end

definition dim_ok :: "(Usage \<Rightarrow> int) \<Rightarrow> (quotaHold \<Rightarrow> int) \<Rightarrow> (row \<Rightarrow> int) \<Rightarrow> int \<Rightarrow> quota_state \<Rightarrow> bool" where
  "dim_ok pu ph pr cap s \<longleftrightarrow> (\<forall>r \<in> set (qs_rows s). 0 \<le> pr r) \<and> (\<forall>(i, h) \<in> set (qs_holds s). 0 \<le> ph h) \<and>
     (\<forall>t. pu (qs_inflight s t) = sum_holds ph t (qs_holds s) \<and> sum_rows pr t (qs_rows s) + sum_holds ph t (qs_holds s) \<le> cap)"

lemma dim_within: "dim_ok pu ph pr cap s \<Longrightarrow> pu (qs_inflight s t) = sum_holds ph t (qs_holds s) \<and> sum_rows pr t (qs_rows s) + sum_holds ph t (qs_holds s) \<le> cap"
  by (simp add: dim_ok_def)

lemma sum_rows_Nil: "sum_rows f t [] = 0"
  by (simp add: sum_rows_def tenant_rows_def)

lemma sum_put_row: "sum_rows f t (put_row r rows) = (if ow_Tenant (rw_Owner r) = t then f r else 0) + sum_rows f t rows - sum_rows f t (old_rows (rw_ID r) rows)"
  using sum_rows_filter [of f t "\<lambda>x. rw_ID x \<noteq> rw_ID r" rows] by (simp add: put_row_def old_rows_def sum_rows_Cons)

context quota_dim
begin

lemma dim_reserve:
  assumes "dim_ok pu ph pr cap s" "reserve_quota rnd q (Some (usageOf rnd (\<lambda>_. False) t (qs_rows s))) r n (qs_inflight s t) = Some fl"
    "0 \<le> n" "0 < cap" "0 \<le> ph \<lparr>qh_tenant = t, qh_r = r, qh_n = n\<rparr>" "ph \<lparr>qh_tenant = t, qh_r = r, qh_n = n\<rparr> < 2 ^ 62"
  shows "dim_ok pu ph pr cap (s\<lparr>qs_inflight := (qs_inflight s)(t := fl), qs_holds := (i, \<lparr>qh_tenant = t, qh_r = r, qh_n = n\<rparr>) # qs_holds s\<rparr>)"
proof -
  have ok: "\<forall>r \<in> set (qs_rows s). 0 \<le> pr r" "\<forall>(i, h) \<in> set (qs_holds s). 0 \<le> ph h"
    "pu (qs_inflight s t) = sum_holds ph t (qs_holds s)" "sum_rows pr t (qs_rows s) + sum_holds ph t (qs_holds s) \<le> cap"
    using assms(1) by (auto simp: dim_ok_def)
  have pos: "0 \<le> sum_rows pr t (qs_rows s)" "0 \<le> sum_holds ph t (qs_holds s)"
    using ok(1,2) by (auto intro: sum_rows_nonneg sum_holds_nonneg)
  have "pu (usageOf rnd (\<lambda>_. False) t (qs_rows s)) = sum_rows pr t (qs_rows s)" using usage_exact [OF ok(1)] ok(4) pos by simp
  from reserve_within [OF ok(3) pos(2) this pos(1) ok(4) assms(2-6)] show ?thesis
    using assms(1,5) unfolding dim_ok_def by (auto simp: sum_holds_Cons)
qed

lemma dim_done:
  assumes "dim_ok pu ph pr cap s" "distinct (map fst (qs_holds s))" "(i, h) \<in> set (qs_holds s)"
  shows "dim_ok pu ph pr cap (hold_done rnd i h s)"
    "sum_rows pr t (qs_rows s) + sum_holds ph t (qs_holds (hold_done rnd i h s)) \<le> cap - (if qh_tenant h = t then ph h else 0)"
proof -
  let ?hs = "filter (\<lambda>(j, _). j \<noteq> i) (qs_holds s)"
  note rem = sum_holds_remove [OF assms(2,3), of ph]
  have pos: "0 \<le> sum_holds ph (qh_tenant h) ?hs" "0 \<le> ph h" "0 \<le> sum_rows pr (qh_tenant h) (qs_rows s)"
    using assms(1,3) by (auto simp: dim_ok_def intro!: sum_holds_nonneg sum_rows_nonneg)
  have "pu (drop_hold rnd h (qs_inflight s (qh_tenant h))) = sum_holds ph (qh_tenant h) (qs_holds s) - ph h"
    using pos rem [of "qh_tenant h"] dim_within [OF assms(1), of "qh_tenant h"] by (intro drop_exact) auto
  moreover have "sum_rows pr u (qs_rows s) + sum_holds ph u ?hs \<le> cap" for u
    using rem [of u] pos(2) dim_within [OF assms(1), of u] by (simp split: if_split_asm)
  ultimately show "dim_ok pu ph pr cap (hold_done rnd i h s)"
    using assms(1) rem unfolding dim_ok_def hold_done_def by auto
  show "sum_rows pr t (qs_rows s) + sum_holds ph t (qs_holds (hold_done rnd i h s)) \<le> cap - (if qh_tenant h = t then ph h else 0)"
    using assms(1) rem [of t] by (simp add: dim_ok_def hold_done_def)
qed

lemma dim_record:
  assumes ok: "dim_ok pu ph pr cap s" "distinct (map fst (qs_holds s))" "(i, h) \<in> set (qs_holds s)"
    and r: "ow_Tenant (rw_Owner r) = qh_tenant h" "0 \<le> pr r"
    and old: "old_rows (rw_ID r) (qs_rows s) = [] \<and> pr r \<le> ph h \<or>
      (\<exists>x. old_rows (rw_ID r) (qs_rows s) = [x] \<and> rw_Owner x = rw_Owner r \<and> pr r \<le> pr x + ph h)"
  shows "dim_ok pu ph pr cap ((hold_done rnd i h s)\<lparr>qs_rows := put_row r (qs_rows s)\<rparr>)"
proof -
  have put: "sum_rows pr t (put_row r (qs_rows s)) \<le> sum_rows pr t (qs_rows s) + (if qh_tenant h = t then ph h else 0)" for t
    using old r(1) by (auto simp: sum_put_row sum_rows_Cons sum_rows_Nil)
  have "sum_rows pr t (put_row r (qs_rows s)) + sum_holds ph t (qs_holds (hold_done rnd i h s)) \<le> cap" for t
    using dim_done(2) [OF ok, of t] put [of t] by simp
  then show ?thesis using dim_done(1) [OF ok] r(2) unfolding dim_ok_def by (auto simp: put_row_def hold_done_def)
qed

lemma dim_forget: "dim_ok pu ph pr cap s \<Longrightarrow> dim_ok pu ph pr cap (s\<lparr>qs_rows := filter P (qs_rows s)\<rparr>)"
proof -
  assume ok: "dim_ok pu ph pr cap s"
  have pos: "0 \<le> sum_rows pr t (filter (\<lambda>r. \<not> P r) (qs_rows s))" for t using ok by (auto simp: dim_ok_def intro!: sum_rows_nonneg)
  have "sum_rows pr t (filter P (qs_rows s)) + sum_holds ph t (qs_holds s) \<le> cap" for t
    using dim_within [OF ok, of t] pos [of t] sum_rows_filter [of pr t P "qs_rows s"] by simp
  then show ?thesis using ok by (simp add: dim_ok_def)
qed

end

section \<open>Sandboxes and memory stay within the quota\<close>

lemma memory_counted:
  "ug_MemoryMB (foldl (\<lambda>u r. add_usage rnd 1 (rw_Size r) u) u rows) = foldl (\<lambda>a r. i64 (a + nr_MemoryMB (rw_Size r))) (ug_MemoryMB u) rows"
  "ug_Sandboxes (foldl (\<lambda>u r. add_usage rnd 1 (rw_Size r) u) u rows) = foldl (\<lambda>a r. i64 (a + 1)) (ug_Sandboxes u) rows"
  by (induction rows arbitrary: u) (simp_all add: add_usage_def)

text \<open>A limit of the quota: none where it is not set. One that no \<open>int\<close> sum can reach is not followed.\<close>

definition limit_of :: "int \<Rightarrow> int" where
  "limit_of x = (if 0 < x \<and> x < 2 ^ 62 then x else 0)"

interpretation memory: quota_dim rnd q ug_MemoryMB "\<lambda>h. nr_MemoryMB (qh_r h)" "\<lambda>r. nr_MemoryMB (rw_Size r)" "limit_of (q_MemoryMB q)" for rnd q
proof unfold_locales
  fix u fl fl' :: Usage and r n t
  assume "reserve_quota rnd q (Some u) r n fl = Some fl'" "0 < limit_of (q_MemoryMB q)"
  then show "ug_MemoryMB fl' = i64 (ug_MemoryMB fl + nr_MemoryMB (qh_r \<lparr>qh_tenant = t, qh_r = r, qh_n = n\<rparr>)) \<and>
      (nr_MemoryMB (qh_r \<lparr>qh_tenant = t, qh_r = r, qh_n = n\<rparr>) = 0 \<or>
       i64 (i64 (ug_MemoryMB u + ug_MemoryMB fl) + nr_MemoryMB (qh_r \<lparr>qh_tenant = t, qh_r = r, qh_n = n\<rparr>)) \<le> limit_of (q_MemoryMB q))"
    by (auto simp: reserve_quota_def has_quota_def over_quota_def limit_of_def add_usage_def split: if_split_asm)
qed (auto simp: limit_of_def no_usage_def usageOf_def memory_counted drop_hold_def Let_def)

interpretation sandboxes: quota_dim rnd q ug_Sandboxes qh_n "\<lambda>_. 1" "limit_of (q_Sandboxes q)" for rnd q
proof unfold_locales
  fix u fl fl' :: Usage and r n t
  assume "reserve_quota rnd q (Some u) r n fl = Some fl'" "0 < limit_of (q_Sandboxes q)" "0 \<le> n"
  then show "ug_Sandboxes fl' = i64 (ug_Sandboxes fl + qh_n \<lparr>qh_tenant = t, qh_r = r, qh_n = n\<rparr>) \<and>
      (qh_n \<lparr>qh_tenant = t, qh_r = r, qh_n = n\<rparr> = 0 \<or>
       i64 (i64 (ug_Sandboxes u + ug_Sandboxes fl) + qh_n \<lparr>qh_tenant = t, qh_r = r, qh_n = n\<rparr>) \<le> limit_of (q_Sandboxes q))"
    by (auto simp: reserve_quota_def has_quota_def over_quota_def limit_of_def add_usage_def split: if_split_asm)
qed (auto simp: limit_of_def no_usage_def usageOf_def memory_counted drop_hold_def Let_def)

definition quota_ok :: "Quota \<Rightarrow> quota_state \<Rightarrow> bool" where
  "quota_ok q s \<longleftrightarrow> distinct (map fst (qs_holds s)) \<and>
     (0 < limit_of (q_MemoryMB q) \<longrightarrow>
       dim_ok ug_MemoryMB (\<lambda>h. nr_MemoryMB (qh_r h)) (\<lambda>r. nr_MemoryMB (rw_Size r)) (limit_of (q_MemoryMB q)) s) \<and>
     (0 < limit_of (q_Sandboxes q) \<longrightarrow> dim_ok ug_Sandboxes qh_n (\<lambda>_. 1) (limit_of (q_Sandboxes q)) s)"

lemma hold_done_distinct: "distinct (map fst (qs_holds s)) \<Longrightarrow> distinct (map fst (qs_holds (hold_done rnd i h s)))"
  by (simp add: hold_done_def distinct_map_filter)

lemma quota_ok_step: "quota_ok q s \<Longrightarrow> qstep rnd q s s' \<Longrightarrow> quota_ok q s'"
proof -
  assume ok: "quota_ok q s" and st: "qstep rnd q s s'"
  then have d: "distinct (map fst (qs_holds s))" by (simp add: quota_ok_def)
  show ?thesis using st
  proof cases
    case (q_reserve t r n fl i)
    then show ?thesis
      using ok memory.dim_reserve [of q s rnd t r n fl i] sandboxes.dim_reserve [of q s rnd t r n fl i] unfolding quota_ok_def by auto
  next
    case (q_release i h)
    then show ?thesis
      using ok memory.dim_done(1) [of q s i h rnd] sandboxes.dim_done(1) [of q s i h rnd] hold_done_distinct [OF d] unfolding quota_ok_def by simp
  next
    case (q_record i h r)
    have "dim_ok ug_MemoryMB (\<lambda>h. nr_MemoryMB (qh_r h)) (\<lambda>r. nr_MemoryMB (rw_Size r)) (limit_of (q_MemoryMB q)) s'"
      if "dim_ok ug_MemoryMB (\<lambda>h. nr_MemoryMB (qh_r h)) (\<lambda>r. nr_MemoryMB (rw_Size r)) (limit_of (q_MemoryMB q)) s"
      unfolding q_record(1) using that d q_record by (intro memory.dim_record) auto
    moreover have "dim_ok ug_Sandboxes qh_n (\<lambda>_. 1) (limit_of (q_Sandboxes q)) s'" if "dim_ok ug_Sandboxes qh_n (\<lambda>_. 1) (limit_of (q_Sandboxes q)) s"
    proof -
      have "0 \<le> qh_n h" using that q_record(2) by (auto simp: dim_ok_def)
      then show ?thesis unfolding q_record(1) using that d q_record by (intro sandboxes.dim_record) auto
    qed
    ultimately show ?thesis using ok hold_done_distinct [OF d] by (auto simp: quota_ok_def q_record(1))
  next
    case (q_forget sid)
    then show ?thesis using ok memory.dim_forget sandboxes.dim_forget by (auto simp: quota_ok_def)
  qed
qed

lemma quota_ok_init: "quota_init q s \<Longrightarrow> quota_ok q s"
  by (auto simp: quota_init_def quota_ok_def dim_ok_def sum_holds_def tenant_holds_def no_usage_def sum_rows_def memory_of_def limit_of_def
      list_all_iff sum_list_triv split: if_split_asm)

interpretation quota_run: event_invariant "quota_init q" "qmove rnd q" "\<lambda>e. e = None" "quota_ok q" for rnd q
  by unfold_locales (auto elim!: qmove.cases intro: quota_ok_init quota_ok_step)

text \<open>
  C12: After any run of creates, resizes and terminations, interleaved in any way, what is recorded for a tenant and what is in flight for
  it together are within its quota of memory and of sandboxes, so that creates of a burst cannot each pass the check and together exceed it;
  or one of three things happened in the run: a sandbox was given more than was held for it (a create from a snapshot, a resize
  of a size that has changed), a reservation was made while a node with sandboxes of the tenant was lost, or a request
  asked for 2 to the power of 62 MB or more. The quota itself does not change in the run.
\<close>

theorem bursts_stay_within_quota:
  assumes "trace (qmove rnd q) s0 es s" "quota_init q s0" and "q_MemoryMB q < 2 ^ 62" "q_Sandboxes q < 2 ^ 62"
  shows "(\<exists>e. Some e \<in> set es) \<or> (0 < q_MemoryMB q \<longrightarrow> (\<Sum>r \<leftarrow> tenant_rows t (qs_rows s). nr_MemoryMB (rw_Size r)) +
      (\<Sum>(_, h) \<leftarrow> tenant_holds t (qs_holds s). nr_MemoryMB (qh_r h)) \<le> q_MemoryMB q) \<and>
    (0 < q_Sandboxes q \<longrightarrow> int (length (tenant_rows t (qs_rows s))) + (\<Sum>(_, h) \<leftarrow> tenant_holds t (qs_holds s). qh_n h) \<le> q_Sandboxes q)"
proof (cases "\<exists>e. Some e \<in> set es")
  case False
  then have ok: "quota_ok q s" using quota_run.inv_trace [OF assms(1,2)] by fastforce
  have "sum_rows (\<lambda>r. nr_MemoryMB (rw_Size r)) t (qs_rows s) + sum_holds (\<lambda>h. nr_MemoryMB (qh_r h)) t (qs_holds s) \<le> q_MemoryMB q" if "0 < q_MemoryMB q"
  proof -
    have l: "limit_of (q_MemoryMB q) = q_MemoryMB q" using that assms(3) by (simp add: limit_of_def)
    have "dim_ok ug_MemoryMB (\<lambda>h. nr_MemoryMB (qh_r h)) (\<lambda>r. nr_MemoryMB (rw_Size r)) (q_MemoryMB q) s"
      using ok that l by (simp add: quota_ok_def)
    then show ?thesis using dim_within by blast
  qed
  moreover have "sum_rows (\<lambda>_. 1) t (qs_rows s) + sum_holds qh_n t (qs_holds s) \<le> q_Sandboxes q" if "0 < q_Sandboxes q"
  proof -
    have l: "limit_of (q_Sandboxes q) = q_Sandboxes q" using that assms(4) by (simp add: limit_of_def)
    have "dim_ok ug_Sandboxes qh_n (\<lambda>_. 1) (q_Sandboxes q) s" using ok that l by (simp add: quota_ok_def)
    then show ?thesis using dim_within by blast
  qed
  ultimately show ?thesis by (simp add: sum_rows_def sum_holds_def sum_list_triv)
qed simp

definition demo_quota :: Quota where
  "demo_quota = \<lparr>q_Sandboxes = 4, q_CPUs = Fin 0, q_MemoryMB = 1024\<rparr>"

definition demo_size :: "int \<Rightarrow> NodeResources" where
  "demo_size mem = \<lparr>nr_CPUs = Fin 1, nr_MemoryMB = mem, nr_DiskMB = 0, nr_GPUs = 0\<rparr>"

definition demo_reserved :: quota_state where
  "demo_reserved = \<lparr>qs_rows = [], qs_inflight = (\<lambda>_. no_usage)(''acme'' := \<lparr>ug_Sandboxes = 1, ug_CPUs = Fin 1, ug_MemoryMB = 512\<rparr>),
     qs_holds = [(0, \<lparr>qh_tenant = ''acme'', qh_r = demo_size 512, qh_n = 1\<rparr>)]\<rparr>"

theorem bursts_stay_within_quota_witness:
  "\<exists>s0 es. trace (qmove Fin demo_quota) s0 es demo_reserved \<and> quota_init demo_quota s0 \<and> \<not> (\<exists>e. Some e \<in> set es) \<and>
   (\<Sum>(_, h) \<leftarrow> tenant_holds ''acme'' (qs_holds demo_reserved). nr_MemoryMB (qh_r h)) \<le> 1024"
proof -
  let ?s = "\<lparr>qs_rows = [], qs_inflight = (\<lambda>_. no_usage), qs_holds = []\<rparr>"
  have i: "quota_init demo_quota ?s"
    by (simp add: quota_init_def demo_quota_def memory_of_def tenant_rows_def)
  have "reserve_quota Fin demo_quota (Some (usageOf Fin (\<lambda>_. False) ''acme'' [])) (demo_size 512) 1 no_usage =
      Some \<lparr>ug_Sandboxes = 1, ug_CPUs = Fin 1, ug_MemoryMB = 512\<rparr>"
    by (simp add: reserve_quota_def over_quota_def usageOf_def tenant_rows_def no_usage_def demo_quota_def demo_size_def add_usage_def i64_def)
  then have "qstep Fin demo_quota ?s demo_reserved"
    using q_reserve [of Fin demo_quota "''acme''" ?s "demo_size 512" 1 "\<lparr>ug_Sandboxes = 1, ug_CPUs = Fin 1, ug_MemoryMB = 512\<rparr>" 0]
    by (simp add: demo_size_def demo_reserved_def)
  then have "trace (qmove Fin demo_quota) ?s ([] @ [None]) demo_reserved" by (intro trace_more [OF trace_none] q_step)
  then have t: "trace (qmove Fin demo_quota) ?s [None] demo_reserved" by simp
  from bursts_stay_within_quota [OF this i, of "''acme''"] i t show ?thesis
    by (intro exI [of _ ?s] exI [of _ "[None]"]) (simp add: demo_quota_def demo_reserved_def tenant_rows_def)
qed

text \<open>
  The sum of the check wraps: a tenant that has anything recorded passes it asking for the largest number of
  megabytes, whatever its quota, and while that request is in flight passes it with one it has no room for.
\<close>

theorem huge_request_passes_quota:
  "let u = \<lparr>ug_Sandboxes = 1, ug_CPUs = Fin 1, ug_MemoryMB = 512\<rparr>; huge = demo_size (2 ^ 63 - 1) in
   reserve_quota Fin demo_quota (Some u) (demo_size 4096) 1 no_usage = None \<and>
   (\<exists>fl. reserve_quota Fin demo_quota (Some u) huge 1 no_usage = Some fl \<and>
         reserve_quota Fin demo_quota (Some u) (demo_size 4096) 1 fl \<noteq> None)"
  by (simp add: reserve_quota_def has_quota_def over_quota_def no_usage_def demo_quota_def demo_size_def add_usage_def i64_def)

end
