(* ===== verification/Gateway_Schedule.thy ===== *)
theory Gateway_Schedule
  imports Api_Types "HOL-Library.Multiset" "HOL-Library.Product_Lexorder"
begin

text \<open>
  The gateway's scheduler (\<open>internal/gateway/schedule.go\<close>): which node a new sandbox goes to, and which node a
  request that no node can run is sent to be refused by. The rounding of \<open>float64\<close> sums is the argument \<open>rnd\<close>.
\<close>

subsection \<open>Nodes and wants\<close>

record Candidate =
  ca_Name :: bytes
  ca_Status :: NodeStatus
  ca_Reserved :: NodeResources

record Want =
  w_Image :: bytes
  w_CPUs :: f64
  w_MemoryMB :: int
  w_DiskMB :: int
  w_GPUs :: int
  w_Caps :: "bytes list"
  w_NetworkMode :: bytes
  w_Node :: bytes
  w_Exclude :: "bytes list"
  w_Spread :: "(bytes \<Rightarrow> int) option"

datatype sched_error = NoCandidate | NoCapable | NoRoom

definition canRun :: "NodeStatus \<Rightarrow> Want \<Rightarrow> bool" where
  "canRun st w \<longleftrightarrow> list_all (st_caps st) (w_Caps w) \<and>
     \<not> (w_NetworkMode w \<noteq> [] \<and> NetworkRank (w_NetworkMode w) > NetworkRank (st_Ceiling st)) \<and>
     \<not> (w_GPUs w > 0 \<and> (\<not> st_caps st ''gpu'' \<or> w_GPUs w > l_MaxGPUs (st_Limits st))) \<and>
     f_le (w_CPUs w) (l_MaxCPUs (st_Limits st)) \<and> w_MemoryMB w \<le> l_MaxMemoryMB (st_Limits st) \<and>
     w_DiskMB w \<le> l_MaxDiskMB (st_Limits st)"

definition free_on :: "(rat \<Rightarrow> f64) \<Rightarrow> Candidate \<Rightarrow> NodeResources" where
  "free_on rnd c = (let f = st_Free (ca_Status c); r = ca_Reserved c in
     \<lparr>nr_CPUs = f_add rnd (nr_CPUs f) (f_neg (nr_CPUs r)), nr_MemoryMB = i64 (nr_MemoryMB f - nr_MemoryMB r),
      nr_DiskMB = i64 (nr_DiskMB f - nr_DiskMB r), nr_GPUs = i64 (nr_GPUs f - nr_GPUs r)\<rparr>)"

definition hasRoom :: "(rat \<Rightarrow> f64) \<Rightarrow> Candidate \<Rightarrow> Want \<Rightarrow> bool" where
  "hasRoom rnd c w = (let f = free_on rnd c in
     if f_lt (f_add rnd (nr_CPUs f) (rnd (1 / 10 ^ 9))) (w_CPUs w) \<or> nr_MemoryMB f < w_MemoryMB w \<or> nr_GPUs f < w_GPUs w then False
     else nr_DiskMB (st_Capacity (ca_Status c)) = 0 \<or> nr_DiskMB f \<ge> w_DiskMB w)"

definition better :: "(rat \<Rightarrow> f64) \<Rightarrow> Want \<Rightarrow> Candidate \<Rightarrow> Candidate \<Rightarrow> bool" where
  "better rnd w a b =
    (let ap = st_Pooled (ca_Status a) (w_Image w) > 0; bp = st_Pooled (ca_Status b) (w_Image w) > 0;
         ac = w_Image w \<in> set (st_Images (ca_Status a)); bc = w_Image w \<in> set (st_Images (ca_Status b));
         fa = nr_MemoryMB (free_on rnd a); fb = nr_MemoryMB (free_on rnd b)
     in if w_Image w \<noteq> [] \<and> ap \<noteq> bp then ap
        else if w_Image w \<noteq> [] \<and> ac \<noteq> bc then ac
        else if fa \<noteq> fb then fa > fb
        else ca_Name a < ca_Name b)"

subsection \<open>Sorting by a comparison\<close>

text \<open>A stable sort: what comes first among equals stays first.\<close>

fun insert_by :: "('a \<Rightarrow> 'a \<Rightarrow> bool) \<Rightarrow> 'a \<Rightarrow> 'a list \<Rightarrow> 'a list" where
  "insert_by lt x [] = [x]"
| "insert_by lt x (y # ys) = (if lt y x then y # insert_by lt x ys else x # y # ys)"

definition sort_stable :: "('a \<Rightarrow> 'a \<Rightarrow> bool) \<Rightarrow> 'a list \<Rightarrow> 'a list" where
  "sort_stable lt xs = foldr (insert_by lt) xs []"

text \<open>What a comparison has to be for a sort to mean anything, and what the sort then gives.\<close>

locale comparison =
  fixes lt :: "'a \<Rightarrow> 'a \<Rightarrow> bool"
  assumes asym: "lt x y \<Longrightarrow> \<not> lt y x"
    and neg_trans: "\<not> lt y x \<Longrightarrow> \<not> lt z y \<Longrightarrow> \<not> lt z x"
begin

lemma set_insert_by [simp]: "set (insert_by lt x ys) = insert x (set ys)"
  by (induction ys) auto

lemma set_sort_stable [simp]: "set (sort_stable lt xs) = set xs"
  by (induction xs) (simp_all add: sort_stable_def)

lemma insert_by_sorted:
  "sorted_wrt (\<lambda>x y. \<not> lt y x) ys \<Longrightarrow> sorted_wrt (\<lambda>x y. \<not> lt y x) (insert_by lt x ys)"
  by (induction ys) (auto dest: asym, meson neg_trans)

lemma sort_stable_sorted: "sorted_wrt (\<lambda>x y. \<not> lt y x) (sort_stable lt xs)"
  by (induction xs) (simp_all add: sort_stable_def insert_by_sorted)

lemma sort_stable_hd:
  assumes "xs \<noteq> []"
  shows "hd (sort_stable lt xs) \<in> set xs \<and> (\<forall>y \<in> set xs. \<not> lt y (hd (sort_stable lt xs)))"
proof -
  have "sort_stable lt xs \<noteq> []" using assms by (metis set_empty set_sort_stable)
  then obtain z zs where z: "sort_stable lt xs = z # zs" by (cases "sort_stable lt xs") auto
  have "z \<in> set xs" using set_sort_stable [of xs] z by (metis list.set_intros(1))
  moreover have "\<not> lt y z" if "y \<in> set xs" for y
  proof -
    have "y = z \<or> y \<in> set zs" using that set_sort_stable [of xs] unfolding z by auto
    then show ?thesis using sort_stable_sorted [of xs] asym by (auto simp: z)
  qed
  ultimately show ?thesis by (simp add: z)
qed

end

subsection \<open>Choosing a node\<close>

definition spread_filter :: "Want \<Rightarrow> Candidate list \<Rightarrow> Candidate list" where
  "spread_filter w fits = (case w_Spread w of None \<Rightarrow> fits
    | Some sp \<Rightarrow> (let least = foldl (\<lambda>m c. min m (sp (ca_Name c))) (sp (ca_Name (hd fits))) fits in
        filter (\<lambda>c. \<not> sp (ca_Name c) > least) fits))"

definition taking :: "Want \<Rightarrow> Candidate \<Rightarrow> bool" where
  "taking w c \<longleftrightarrow> \<not> (st_Cordoned (ca_Status c) \<or> ca_Name c \<in> set (w_Exclude w)) \<and> \<not> (w_Node w \<noteq> [] \<and> ca_Name c \<noteq> w_Node w)"

definition Schedule :: "(rat \<Rightarrow> f64) \<Rightarrow> Candidate list \<Rightarrow> Want \<Rightarrow> (sched_error, bytes) result" where
  "Schedule rnd cands w =
    (let live = filter (taking w) cands in
     if live = [] then Inl NoCandidate
     else let capable = filter (\<lambda>c. canRun (ca_Status c) w) live in
       if capable = [] then Inl NoCapable
       else let fits = filter (\<lambda>c. hasRoom rnd c w) capable in
         if fits = [] then Inl NoRoom
         else Inr (ca_Name (hd (sort_stable (better rnd w) (spread_filter w fits)))))"

definition nearness :: "NodeStatus \<Rightarrow> Want \<Rightarrow> int" where
  "nearness st w = int (length (filter (st_caps st) (w_Caps w))) + (if w_GPUs w > 0 \<and> st_caps st ''gpu'' then 1 else 0)"

definition nearer :: "Want \<Rightarrow> Candidate \<Rightarrow> Candidate \<Rightarrow> bool" where
  "nearer w a b = (let d = nearness (ca_Status b) w - nearness (ca_Status a) w in if d \<noteq> 0 then d < 0 else ca_Name a < ca_Name b)"

definition Fallback :: "Candidate list \<Rightarrow> bytes list \<Rightarrow> Want \<Rightarrow> bytes option" where
  "Fallback cands exclude w =
    (let live = filter (\<lambda>c. \<not> st_Cordoned (ca_Status c) \<and> ca_Name c \<notin> set exclude) cands in
     if live = [] then None else Some (ca_Name (hd (sort_stable (nearer w) live))))"

section \<open>The comparisons are orders\<close>

definition rank_key :: "(rat \<Rightarrow> f64) \<Rightarrow> Want \<Rightarrow> Candidate \<Rightarrow> bool \<times> bool \<times> int \<times> bytes" where
  "rank_key rnd w c = (w_Image w \<noteq> [] \<and> \<not> st_Pooled (ca_Status c) (w_Image w) > 0,
     w_Image w \<noteq> [] \<and> w_Image w \<notin> set (st_Images (ca_Status c)), - nr_MemoryMB (free_on rnd c), ca_Name c)"

lemma better_key: "better rnd w a b \<longleftrightarrow> rank_key rnd w a < rank_key rnd w b"
  by (auto simp: better_def rank_key_def Let_def less_prod_def' less_bool_def)

definition near_key :: "Want \<Rightarrow> Candidate \<Rightarrow> int \<times> bytes" where
  "near_key w c = (- nearness (ca_Status c) w, ca_Name c)"

lemma nearer_key: "nearer w a b \<longleftrightarrow> near_key w a < near_key w b"
  by (auto simp: nearer_def near_key_def Let_def less_prod_def')

interpretation best: comparison "better rnd w" for rnd w
  by unfold_locales (auto simp: better_key)

interpretation nearest: comparison "nearer w" for w
  by unfold_locales (auto simp: nearer_key)

lemma Min_foldl: "foldl (\<lambda>m c. min m (f c)) (a :: int) xs = Min (insert a (f ` set xs))"
proof (induction xs arbitrary: a)
  case (Cons x xs)
  then show ?case by (cases "xs = []") (simp_all add: min.assoc)
qed simp

definition fits :: "(rat \<Rightarrow> f64) \<Rightarrow> Want \<Rightarrow> Candidate \<Rightarrow> bool" where
  "fits rnd w c \<longleftrightarrow> taking w c \<and> canRun (ca_Status c) w \<and> hasRoom rnd c w"

definition spread_of :: "Want \<Rightarrow> Candidate \<Rightarrow> int" where
  "spread_of w c = (case w_Spread w of None \<Rightarrow> 0 | Some sp \<Rightarrow> sp (ca_Name c))"

lemma set_spread_filter:
  assumes "cs \<noteq> []"
  shows "set (spread_filter w cs) = {c \<in> set cs. \<forall>d \<in> set cs. spread_of w c \<le> spread_of w d}" "spread_filter w cs \<noteq> []"
proof -
  show e: "set (spread_filter w cs) = {c \<in> set cs. \<forall>d \<in> set cs. spread_of w c \<le> spread_of w d}"
  proof (cases "w_Spread w")
    case None
    then show ?thesis by (simp add: spread_filter_def spread_of_def)
  next
    case (Some sp)
    have "insert (sp (ca_Name (hd cs))) ((\<lambda>c. sp (ca_Name c)) ` set cs) = (\<lambda>c. sp (ca_Name c)) ` set cs"
      using assms by (simp add: insert_absorb)
    then show ?thesis using Some assms by (auto simp: spread_filter_def spread_of_def Min_foldl not_less)
  qed
  obtain c where "c \<in> set cs" "spread_of w c = Min (spread_of w ` set cs)"
    using assms Min_in [of "spread_of w ` set cs"] by fastforce
  then have "c \<in> set (spread_filter w cs)" by (simp add: e)
  then show "spread_filter w cs \<noteq> []" by auto
qed

lemma Schedule_fits:
  "Schedule rnd cands w = (if filter (fits rnd w) cands \<noteq> []
     then Inr (ca_Name (hd (sort_stable (better rnd w) (spread_filter w (filter (fits rnd w) cands)))))
     else if filter (\<lambda>c. taking w c \<and> canRun (ca_Status c) w) cands \<noteq> [] then Inl NoRoom
     else if filter (taking w) cands \<noteq> [] then Inl NoCapable else Inl NoCandidate)"
  by (auto simp: Schedule_def Let_def fits_def [abs_def] filter_empty_conv conj_assoc)

definition chosen :: "(rat \<Rightarrow> f64) \<Rightarrow> Want \<Rightarrow> Candidate list \<Rightarrow> Candidate \<Rightarrow> bool" where
  "chosen rnd w cands c \<longleftrightarrow> c \<in> set cands \<and> fits rnd w c \<and> (\<forall>d \<in> set cands. fits rnd w d \<longrightarrow>
     spread_of w c \<le> spread_of w d \<and> (spread_of w d = spread_of w c \<longrightarrow> \<not> better rnd w d c))"

lemma Schedule_chosen:
  assumes "Schedule rnd cands w = Inr n"
  obtains c where "chosen rnd w cands c" "ca_Name c = n"
proof -
  let ?fs = "filter (fits rnd w) cands"
  have ne: "?fs \<noteq> []" and n: "n = ca_Name (hd (sort_stable (better rnd w) (spread_filter w ?fs)))"
    using assms by (auto simp: Schedule_fits split: if_split_asm)
  note sf = set_spread_filter [OF ne, of w]
  note h = best.sort_stable_hd [OF sf(2), of rnd w]
  have "chosen rnd w cands (hd (sort_stable (better rnd w) (spread_filter w ?fs)))"
    using h unfolding chosen_def sf(1) by auto
  then show ?thesis using n that by blast
qed

lemma chosen_unique:
  assumes "distinct (map ca_Name cands)" "chosen rnd w cands c" "chosen rnd w cands d"
  shows "c = d"
proof -
  have "\<not> better rnd w d c" "\<not> better rnd w c d" using assms(2,3) unfolding chosen_def by (auto intro: antisym)
  then have "rank_key rnd w c = rank_key rnd w d" by (simp add: better_key)
  then have "ca_Name c = ca_Name d" by (simp add: rank_key_def)
  then show ?thesis using assms by (auto simp: chosen_def distinct_map dest: inj_onD)
qed

section \<open>Properties\<close>

text \<open>Two nodes, one with the image and one with more room.\<close>

definition demo_node :: "bytes \<Rightarrow> bytes list \<Rightarrow> int \<Rightarrow> Candidate" where
  "demo_node name images mem = \<lparr>ca_Name = name, ca_Status = \<lparr>st_caps = (\<lambda>_. True),
     st_Limits = \<lparr>l_MaxCPUs = Fin 8, l_MaxMemoryMB = 8192, l_MaxDiskMB = 8192, l_MaxIdleTimeoutSecs = 0, l_MaxLifetimeSecs = 0,
       l_MinSnapshotEverySecs = 1, l_MaxSnapshotKeep = 1, l_MinMetricsExportSecs = 1, l_MaxGPUs = 0\<rparr>,
     st_Ceiling = ''open'', st_Capacity = \<lparr>nr_CPUs = Fin 8, nr_MemoryMB = mem, nr_DiskMB = 0, nr_GPUs = 0\<rparr>,
     st_Free = \<lparr>nr_CPUs = Fin 8, nr_MemoryMB = mem, nr_DiskMB = 0, nr_GPUs = 0\<rparr>, st_Pooled = (\<lambda>_. 0), st_Images = images,
     st_Cordoned = False, st_Node = name, st_Running = 0\<rparr>, ca_Reserved = \<lparr>nr_CPUs = Fin 0, nr_MemoryMB = 0, nr_DiskMB = 0, nr_GPUs = 0\<rparr>\<rparr>"

definition demo_want :: Want where
  "demo_want = \<lparr>w_Image = ''img'', w_CPUs = Fin 1, w_MemoryMB = 512, w_DiskMB = 0, w_GPUs = 0, w_Caps = [], w_NetworkMode = [],
     w_Node = [], w_Exclude = [], w_Spread = None\<rparr>"

lemma demo_schedule:
  "Schedule Fin [demo_node ''b'' [] 4096, demo_node ''a'' [''img''] 1024] demo_want = Inr ''a''"
  by (simp add: Schedule_def Let_def demo_node_def demo_want_def taking_def canRun_def hasRoom_def free_on_def f_le_def
    spread_filter_def sort_stable_def better_def i64_id in_i64_def)

text \<open>
  The answer does not depend on the order the nodes are listed in, refusals included, when no two have
  the same name.
\<close>

theorem schedule_ignores_order:
  assumes "mset cands' = mset cands" and "distinct (map ca_Name cands)"
  shows "Schedule rnd cands' w = Schedule rnd cands w"
proof -
  have s: "set cands' = set cands" using assms(1) by (metis set_mset_mset)
  have ch: "chosen rnd w cands' = chosen rnd w cands" by (simp add: fun_eq_iff chosen_def s)
  show ?thesis
  proof (cases "\<exists>c \<in> set cands. fits rnd w c")
    case True
    then obtain m n where mn: "Schedule rnd cands w = Inr m" "Schedule rnd cands' w = Inr n"
      by (auto simp: Schedule_fits filter_empty_conv s)
    then show ?thesis using chosen_unique [OF assms(2)] by (metis Schedule_chosen ch)
  next
    case False
    then show ?thesis by (simp add: Schedule_fits filter_empty_conv s)
  qed
qed

theorem schedule_ignores_order_witness:
  "Schedule Fin [demo_node ''a'' [''img''] 1024, demo_node ''b'' [] 4096] demo_want = Inr ''a''"
  using schedule_ignores_order [of "[demo_node ''a'' [''img''] 1024, demo_node ''b'' [] 4096]"
      "[demo_node ''b'' [] 4096, demo_node ''a'' [''img''] 1024]" Fin demo_want] demo_schedule
  by (simp add: demo_node_def add_mset_commute)

text \<open>A request no node can run goes to one that has the most of what it needs.\<close>

lemma Fallback_nearest:
  assumes "Fallback cands exclude w = Some n"
  shows "\<exists>c \<in> set cands. ca_Name c = n \<and> \<not> st_Cordoned (ca_Status c) \<and> n \<notin> set exclude \<and>
    (\<forall>d \<in> set cands. \<not> st_Cordoned (ca_Status d) \<and> ca_Name d \<notin> set exclude \<longrightarrow> nearness (ca_Status d) w \<le> nearness (ca_Status c) w)"
proof -
  let ?live = "filter (\<lambda>c. \<not> st_Cordoned (ca_Status c) \<and> ca_Name c \<notin> set exclude) cands"
  have ne: "?live \<noteq> []" and n: "n = ca_Name (hd (sort_stable (nearer w) ?live))"
    using assms by (auto simp: Fallback_def Let_def split: if_split_asm)
  note h = nearest.sort_stable_hd [OF ne, of w]
  have "nearness (ca_Status d) w \<le> nearness (ca_Status (hd (sort_stable (nearer w) ?live))) w" if "d \<in> set ?live" for d
    using h that by (force simp: nearer_def Let_def split: if_split_asm)
  then show ?thesis using h n by (intro bexI [of _ "hd (sort_stable (nearer w) ?live)"]) auto
qed

end
