(* ===== verification/Gateway_Fleet.thy ===== *)
theory Gateway_Fleet
  imports Gateway_Schedule
begin

text \<open>
  What a fleet of nodes offers together (\<open>CombineCapabilities\<close>, \<open>intersectAllow\<close> and \<open>anyNodeHas\<close> of \<open>internal/gateway/resources.go\<close>): a
  capability only if every node has it, the strictest limits and network.
\<close>

subsection \<open>Combining capabilities\<close>

record Capabilities =
  cp_Backend :: bytes
  cp_caps :: caps
  cp_Limits :: Limits
  cp_Network :: NetworkCeiling

definition f_min :: "f64 \<Rightarrow> f64 \<Rightarrow> f64" where
  "f_min x y = (if x = NaN \<or> y = NaN then NaN else if f_lt y x then y else x)"

text \<open>Zero is no bound.\<close>

definition stricter :: "int \<Rightarrow> int \<Rightarrow> int" where
  "stricter a b = (if a = 0 \<or> (b > 0 \<and> b < a) then b else a)"

definition intersectAllow :: "bytes list \<Rightarrow> bytes list \<Rightarrow> bytes list" where
  "intersectAllow a b = (if ''*'' \<in> set a then b else if ''*'' \<in> set b then a else filter (\<lambda>x. x \<in> set b) a)"

definition combine_limits :: "Limits \<Rightarrow> Limits \<Rightarrow> Limits" where
  "combine_limits l c = l\<lparr>l_MaxCPUs := f_min (l_MaxCPUs l) (l_MaxCPUs c), l_MaxMemoryMB := min (l_MaxMemoryMB l) (l_MaxMemoryMB c),
     l_MaxDiskMB := min (l_MaxDiskMB l) (l_MaxDiskMB c),
     l_MinMetricsExportSecs := max (l_MinMetricsExportSecs l) (l_MinMetricsExportSecs c),
     l_MaxIdleTimeoutSecs := stricter (l_MaxIdleTimeoutSecs l) (l_MaxIdleTimeoutSecs c),
     l_MaxLifetimeSecs := stricter (l_MaxLifetimeSecs l) (l_MaxLifetimeSecs c)\<rparr>"

definition combine_network :: "NetworkCeiling \<Rightarrow> NetworkCeiling \<Rightarrow> NetworkCeiling" where
  "combine_network n c = n\<lparr>
     nc_Ceiling := (if NetworkRank (nc_Ceiling c) < NetworkRank (nc_Ceiling n) then nc_Ceiling c else nc_Ceiling n),
     nc_MayAllow := intersectAllow (nc_MayAllow n) (nc_MayAllow c)\<rparr>"

definition fleet_gpus :: "Capabilities list \<Rightarrow> Capabilities list" where
  "fleet_gpus sts = filter (\<lambda>c. cp_caps c ''gpu'') sts"

definition add_backend :: "bytes list \<Rightarrow> bytes \<Rightarrow> bytes list" where
  "add_backend bs b = (if b \<in> set bs then bs else bs @ [b])"

text \<open>The first node's values, then every node's, the first's again; an empty fleet has none.\<close>

definition CombineCapabilities :: "Capabilities list \<Rightarrow> Capabilities option" where
  "CombineCapabilities sts = (case sts of [] \<Rightarrow> None | first # _ \<Rightarrow>
     let lim = foldl (\<lambda>l c. combine_limits l (cp_Limits c)) (cp_Limits first) sts;
         net = foldl (\<lambda>n c. combine_network n (cp_Network c)) (cp_Network first) sts;
         caps = (\<lambda>k. list_all (\<lambda>c. cp_caps c k) sts)(''images'' := False, ''gpu'' := fleet_gpus sts \<noteq> []);
         gpus = foldl (\<lambda>m c. max m (l_MaxGPUs (cp_Limits c))) 0 (fleet_gpus sts);
         deflt = (if NetworkRank (np_Mode (nc_Default net)) > NetworkRank (nc_Ceiling net)
                  then \<lparr>np_Mode = nc_Ceiling net, np_Allow = Some [], np_Deny = None, np_Groups = None\<rparr> else nc_Default net)
     in Some \<lparr>cp_Backend = Join (sort (foldl (\<lambda>bs c. add_backend bs (cp_Backend c)) [] sts)) ''+'', cp_caps = caps,
          cp_Limits = lim\<lparr>l_MaxGPUs := gpus\<rparr>, cp_Network = net\<lparr>nc_Default := deflt\<rparr>\<rparr>)"

definition anyNodeHas :: "Candidate list \<Rightarrow> bytes \<Rightarrow> bool" where
  "anyNodeHas cands k = list_ex (\<lambda>c. st_caps (ca_Status c) k) cands"

section \<open>A fleet promises no more than each of its nodes\<close>

text \<open>A node whose limits are as the policy of a node requires them: no size limit that is not a number, no bound below zero.\<close>

definition sane_limits :: "Limits \<Rightarrow> bool" where
  "sane_limits l \<longleftrightarrow> l_MaxCPUs l \<noteq> NaN \<and> 0 \<le> l_MaxIdleTimeoutSecs l \<and> 0 \<le> l_MaxLifetimeSecs l"

definition bounds :: "int \<Rightarrow> int \<Rightarrow> bool" where
  "bounds b a \<longleftrightarrow> a = 0 \<or> 0 < b \<and> b \<le> a"

definition within_limits :: "Limits \<Rightarrow> Limits \<Rightarrow> bool" where
  "within_limits l c \<longleftrightarrow> f_le (l_MaxCPUs l) (l_MaxCPUs c) \<and> l_MaxMemoryMB l \<le> l_MaxMemoryMB c \<and> l_MaxDiskMB l \<le> l_MaxDiskMB c \<and>
     l_MinMetricsExportSecs c \<le> l_MinMetricsExportSecs l \<and> bounds (l_MaxIdleTimeoutSecs l) (l_MaxIdleTimeoutSecs c) \<and>
     bounds (l_MaxLifetimeSecs l) (l_MaxLifetimeSecs c)"

definition within_network :: "NetworkCeiling \<Rightarrow> NetworkCeiling \<Rightarrow> bool" where
  "within_network n c \<longleftrightarrow> NetworkRank (nc_Ceiling n) \<le> NetworkRank (nc_Ceiling c) \<and>
     (\<forall>x \<in> set (nc_MayAllow n). x \<in> set (nc_MayAllow c) \<or> ''*'' \<in> set (nc_MayAllow c))"

lemma f_le_refl: "x \<noteq> NaN \<Longrightarrow> f_le x x"
  by (simp add: f_le_def)

lemma f_le_trans: "f_le x y \<Longrightarrow> f_le y z \<Longrightarrow> f_le x z"
  by (cases x; cases y; cases z) (auto simp: f_le_def)

lemma f_min_le: "x \<noteq> NaN \<Longrightarrow> y \<noteq> NaN \<Longrightarrow> f_le (f_min x y) x \<and> f_le (f_min x y) y \<and> f_min x y \<noteq> NaN"
  by (cases x; cases y) (auto simp: f_min_def f_le_def)

lemma combine_limits_within:
  "sane_limits l \<Longrightarrow> sane_limits c \<Longrightarrow> within_limits (combine_limits l c) l \<and> within_limits (combine_limits l c) c \<and> sane_limits (combine_limits l c)"
  using f_min_le [of "l_MaxCPUs l" "l_MaxCPUs c"]
  by (auto simp: sane_limits_def within_limits_def combine_limits_def bounds_def stricter_def)

lemma within_limits_trans: "within_limits a b \<Longrightarrow> within_limits b c \<Longrightarrow> within_limits a c"
  by (auto simp: within_limits_def bounds_def intro: f_le_trans)

lemma combine_network_within: "within_network (combine_network n c) n \<and> within_network (combine_network n c) c"
  by (auto simp: within_network_def combine_network_def intersectAllow_def)

lemma within_network_trans: "within_network a b \<Longrightarrow> within_network b c \<Longrightarrow> within_network a c"
  unfolding within_network_def by (meson order_trans)

text \<open>Folding a way to combine two values whose result is within both.\<close>

locale combination =
  fixes comb :: "'a \<Rightarrow> 'a \<Rightarrow> 'a" and below :: "'a \<Rightarrow> 'a \<Rightarrow> bool" and sane :: "'a \<Rightarrow> bool"
  assumes comb_within: "sane a \<Longrightarrow> sane b \<Longrightarrow> below (comb a b) a \<and> below (comb a b) b \<and> sane (comb a b)"
    and within_trans: "below a b \<Longrightarrow> below b c \<Longrightarrow> below a c"
begin

lemma fold_below: "sane a \<Longrightarrow> list_all (\<lambda>x. sane (f x)) xs \<Longrightarrow> xs \<noteq> [] \<Longrightarrow> below (foldl (\<lambda>a x. comb a (f x)) a xs) a"
proof (induction xs arbitrary: a)
  case (Cons x xs)
  have c: "below (comb a (f x)) a" "sane (comb a (f x))" using comb_within Cons.prems by auto
  show ?case
  proof (cases "xs = []")
    case False
    then show ?thesis using Cons.IH [OF c(2)] Cons.prems c(1) within_trans by auto
  qed (use c in simp)
qed simp

lemma fold_within: "sane a \<Longrightarrow> list_all (\<lambda>x. sane (f x)) xs \<Longrightarrow> x \<in> set xs \<Longrightarrow> below (foldl (\<lambda>a x. comb a (f x)) a xs) (f x)"
proof (induction xs arbitrary: a)
  case (Cons y ys)
  have c: "below (comb a (f y)) (f y)" "sane (comb a (f y))" using comb_within Cons.prems by auto
  show ?case
  proof (cases "x \<in> set ys")
    case True
    then show ?thesis using Cons c(2) by simp
  next
    case False
    then have "x = y" using Cons.prems(3) by simp
    then show ?thesis using c fold_below [OF c(2), of f ys] Cons.prems(2) within_trans by (cases "ys = []") auto
  qed
qed simp

end

interpretation limits: combination combine_limits within_limits sane_limits
  using combine_limits_within within_limits_trans by unfold_locales auto

interpretation networks: combination combine_network within_network "\<lambda>_. True"
  using combine_network_within within_network_trans by unfold_locales auto

text \<open>
  C35: What a fleet says it offers, each of its nodes does: a capability only where every node has it (images the
  gateway does not route, GPUs it sends to a node that has them), sizes, timeouts and export intervals
  within every node's, a network ceiling no higher than any node's, only names every node may allow, and a
  default that is within its own ceiling.
\<close>

theorem fleet_promises_what_nodes_keep:
  assumes "CombineCapabilities sts = Some out" and "\<forall>c \<in> set sts. sane_limits (cp_Limits c)" and "c \<in> set sts"
  shows "(\<forall>k. k \<noteq> ''gpu'' \<and> cp_caps out k \<longrightarrow> cp_caps c k) \<and> within_limits (cp_Limits out) (cp_Limits c) \<and>
    within_network (cp_Network out) (cp_Network c) \<and>
    NetworkRank (np_Mode (nc_Default (cp_Network out))) \<le> NetworkRank (nc_Ceiling (cp_Network out))"
proof -
  obtain first rest where sts: "sts = first # rest" using assms(3) by (cases sts) auto
  let ?lim = "foldl (\<lambda>l c. combine_limits l (cp_Limits c)) (cp_Limits first) sts"
  let ?net = "foldl (\<lambda>n c. combine_network n (cp_Network c)) (cp_Network first) sts"
  have "within_limits ?lim (cp_Limits c)"
    using assms(2,3) sts limits.fold_within [of "cp_Limits first" cp_Limits sts c] by (simp add: list_all_iff)
  moreover have "within_network ?net (cp_Network c)"
    using assms(3) networks.fold_within [where a = "cp_Network first" and f = cp_Network and xs = sts and x = c] by (simp add: list_all_iff)
  moreover have "\<exists>gpus deflt. cp_Limits out = ?lim\<lparr>l_MaxGPUs := gpus\<rparr> \<and> cp_Network out = ?net\<lparr>nc_Default := deflt\<rparr> \<and>
      NetworkRank (np_Mode deflt) \<le> NetworkRank (nc_Ceiling ?net)"
    using assms(1) sts by (auto simp: CombineCapabilities_def Let_def)
  moreover have "k \<noteq> ''gpu'' \<and> cp_caps out k \<longrightarrow> cp_caps c k" for k
    using assms(1,3) sts by (auto simp: CombineCapabilities_def Let_def list_all_iff split: if_split_asm)
  ultimately show ?thesis by (auto simp: within_limits_def within_network_def)
qed

text \<open>A node that snapshots and one that does not, with different limits and ceilings.\<close>

definition demo_caps :: "bytes \<Rightarrow> bool \<Rightarrow> int \<Rightarrow> int \<Rightarrow> bytes \<Rightarrow> bytes list \<Rightarrow> Capabilities" where
  "demo_caps backend snapshots mem every mode allow = \<lparr>cp_Backend = backend, cp_caps = (\<lambda>k. k = ''suspend'' \<or> k = ''memory_snapshot'' \<and> snapshots),
     cp_Limits = \<lparr>l_MaxCPUs = Fin 8, l_MaxMemoryMB = mem, l_MaxDiskMB = 8192, l_MaxIdleTimeoutSecs = 0, l_MaxLifetimeSecs = 0,
       l_MinSnapshotEverySecs = every, l_MaxSnapshotKeep = 1, l_MinMetricsExportSecs = 1, l_MaxGPUs = 0\<rparr>,
     cp_Network = \<lparr>nc_Default = \<lparr>np_Mode = mode, np_Allow = Some allow, np_Deny = None, np_Groups = None\<rparr>, nc_Ceiling = mode, nc_MayAllow = allow\<rparr>\<rparr>"

definition demo_fleet :: "Capabilities list" where
  "demo_fleet = [demo_caps ''firecracker'' True 4096 60 ''open'' [''*''], demo_caps ''macos'' False 2048 600 ''allowlist'' [''github.com'']]"

theorem fleet_promises_what_nodes_keep_witness:
  "\<exists>out. CombineCapabilities demo_fleet = Some out \<and> l_MaxMemoryMB (cp_Limits out) \<le> 2048 \<and>
    NetworkRank (nc_Ceiling (cp_Network out)) \<le> NetworkRank ''allowlist'' \<and> \<not> cp_caps out ''memory_snapshot''"
proof -
  obtain out where out: "CombineCapabilities demo_fleet = Some out"
    by (simp add: CombineCapabilities_def demo_fleet_def Let_def)
  have "\<forall>c \<in> set demo_fleet. sane_limits (cp_Limits c)" by (simp add: demo_fleet_def demo_caps_def sane_limits_def)
  from fleet_promises_what_nodes_keep [OF out this, of "demo_caps ''macos'' False 2048 600 ''allowlist'' [''github.com'']"]
  have "l_MaxMemoryMB (cp_Limits out) \<le> 2048" "NetworkRank (nc_Ceiling (cp_Network out)) \<le> NetworkRank ''allowlist''"
    "cp_caps out ''memory_snapshot'' \<longrightarrow> False"
    by (auto simp: demo_fleet_def demo_caps_def within_limits_def within_network_def dest: spec [of _ "''memory_snapshot''"])
  then show ?thesis using out by blast
qed

text \<open>The shortest snapshot interval and the most snapshots kept are the first node's, not the strictest.\<close>

lemma fleet_snapshot_limits_are_the_first_nodes:
  "CombineCapabilities (c # sts) = Some out \<Longrightarrow> l_MinSnapshotEverySecs (cp_Limits out) = l_MinSnapshotEverySecs (cp_Limits c) \<and>
    l_MaxSnapshotKeep (cp_Limits out) = l_MaxSnapshotKeep (cp_Limits c)"
proof -
  have "l_MinSnapshotEverySecs (foldl (\<lambda>l c. combine_limits l (cp_Limits c)) l xs) = l_MinSnapshotEverySecs l \<and>
    l_MaxSnapshotKeep (foldl (\<lambda>l c. combine_limits l (cp_Limits c)) l xs) = l_MaxSnapshotKeep l" for l and xs :: "Capabilities list"
    by (induction xs arbitrary: l) (simp_all add: combine_limits_def)
  then show "CombineCapabilities (c # sts) = Some out \<Longrightarrow> ?thesis"
    by (auto simp: CombineCapabilities_def Let_def simp del: foldl_Cons)
qed

end
