(* ===== verification/Server_Pool.thy ===== *)
theory Server_Pool
  imports Server_Sandbox
begin

text \<open>
  Pools of booted sandboxes (\<open>internal/server/pool.go\<close>) and the node's account of what it has given out
  (\<open>node.go\<close>). The JSON of a sandbox's shape, which the code compares pools by, is an argument: \<open>marshal\<close> is
  None where \<open>json.Marshal\<close> fails, as it does for a number that is not finite.
\<close>

subsection \<open>Pools\<close>

record shape =
  sh_Image :: bytes
  sh_CPUs :: f64
  sh_MemoryMB :: int
  sh_DiskMB :: int
  sh_Network :: NetworkPolicy

definition shape_of :: "Spec \<Rightarrow> shape" where
  "shape_of s = \<lparr>sh_Image = sp_Image s, sh_CPUs = sp_CPUs s, sh_MemoryMB = sp_MemoryMB s, sh_DiskMB = sp_DiskMB s, sh_Network = sp_Network s\<rparr>"

definition poolKey :: "(shape \<Rightarrow> bytes option) \<Rightarrow> Spec \<Rightarrow> bytes" where
  "poolKey marshal s =
    (if sp_FromSnapshot s \<noteq> [] \<or> sp_Volumes s \<noteq> [] \<or> sp_GPUs s \<noteq> [] then []
     else case marshal (shape_of s) of None \<Rightarrow> [] | Some b \<Rightarrow> b)"

record pool =
  pl_template :: Spec
  pl_key :: bytes
  pl_ready :: "bytes list"
  pl_filling :: nat
  pl_size :: int
  pl_failures :: nat

definition startPool :: "(shape \<Rightarrow> bytes option) \<Rightarrow> config \<Rightarrow> Pool \<Rightarrow> (spec_error, pool) result" where
  "startPool marshal cf cfg =
    and_then (Resolve (cf_lower cf) (zero_request\<lparr>rq_Image := po_Image cfg\<rparr>) (cf_Policy cf) []) (\<lambda>bs.
      let t = bs\<lparr>sp_Env := []\<rparr> in
      Inr \<lparr>pl_template = t, pl_key = poolKey marshal t, pl_ready = [], pl_filling = 0, pl_size = po_Size cfg, pl_failures = 0\<rparr>)"

fun ok_pools :: "('e, pool) result list \<Rightarrow> pool list" where
  "ok_pools [] = []"
| "ok_pools (Inl _ # rs) = ok_pools rs"
| "ok_pools (Inr p # rs) = p # ok_pools rs"

definition startPools :: "(shape \<Rightarrow> bytes option) \<Rightarrow> config \<Rightarrow> pool list" where
  "startPools marshal cf = ok_pools (map (startPool marshal cf) (p_Pools (cf_Policy cf)))"

text \<open>\<open>claimPooled\<close>: the first pool of that key decides; a ready sandbox leaves it for good.\<close>

fun claim_from :: "bytes \<Rightarrow> pool list \<Rightarrow> bytes \<times> pool list" where
  "claim_from key [] = ([], [])"
| "claim_from key (p # ps) =
    (if pl_key p \<noteq> key then (case claim_from key ps of (i, ps') \<Rightarrow> (i, p # ps'))
     else case pl_ready p of [] \<Rightarrow> ([], p # ps) | i # rest \<Rightarrow> (i, p\<lparr>pl_ready := rest\<rparr> # ps))"

definition claimPooled :: "(shape \<Rightarrow> bytes option) \<Rightarrow> Spec \<Rightarrow> pool list \<Rightarrow> bytes \<times> pool list" where
  "claimPooled marshal bs ps = (if poolKey marshal bs = [] then ([], ps) else claim_from (poolKey marshal bs) ps)"

text \<open>\<open>fill\<close>: whether to boot another, after what delay, and what becomes of it.\<close>

definition fill_begin :: "pool \<Rightarrow> (pool \<times> nat) option" where
  "fill_begin p = (if int (length (pl_ready p)) + int (pl_filling p) \<ge> pl_size p then None
     else Some (p\<lparr>pl_filling := Suc (pl_filling p)\<rparr>, min (pl_failures p) 6 * 5))"

definition fill_booted :: "bytes \<Rightarrow> pool \<Rightarrow> pool" where
  "fill_booted i p = p\<lparr>pl_filling := pl_filling p - 1, pl_failures := 0, pl_ready := pl_ready p @ [i]\<rparr>"

definition fill_failed :: "pool \<Rightarrow> pool" where
  "fill_failed p = p\<lparr>pl_filling := pl_filling p - 1, pl_failures := Suc (pl_failures p)\<rparr>"

text \<open>
  The server's pools, what the backend has been asked to boot for them (the id and the spec) and what has
  been handed out (the id and the spec it was asked for). Ids are random: one given out does not come again.
\<close>

record pools_state =
  ps_pools :: "pool list"
  ps_booting :: "(nat \<times> bytes) list"
  ps_booted :: "(bytes \<times> Spec) list"
  ps_given :: "(bytes \<times> Spec) list"

definition booted_spec :: "bytes \<Rightarrow> pool \<Rightarrow> Spec" where
  "booted_spec i p = (pl_template p)\<lparr>sp_ID := i\<rparr>"

inductive pstep :: "(shape \<Rightarrow> bytes option) \<Rightarrow> pools_state \<Rightarrow> pools_state \<Rightarrow> bool" for marshal where
  p_begin: "k < length (ps_pools s) \<Longrightarrow> fill_begin (ps_pools s ! k) = Some (p', delay) \<Longrightarrow> i \<noteq> [] \<Longrightarrow>
    i \<notin> fst ` set (ps_booted s) \<Longrightarrow>
    pstep marshal s (s\<lparr>ps_pools := (ps_pools s)[k := p'], ps_booting := (k, i) # ps_booting s,
      ps_booted := (i, booted_spec i (ps_pools s ! k)) # ps_booted s\<rparr>)"
| p_booted: "(k, i) \<in> set (ps_booting s) \<Longrightarrow>
    pstep marshal s (s\<lparr>ps_pools := (ps_pools s)[k := fill_booted i (ps_pools s ! k)], ps_booting := remove1 (k, i) (ps_booting s)\<rparr>)"
| p_failed: "(k, i) \<in> set (ps_booting s) \<Longrightarrow>
    pstep marshal s (s\<lparr>ps_pools := (ps_pools s)[k := fill_failed (ps_pools s ! k)], ps_booting := remove1 (k, i) (ps_booting s)\<rparr>)"
| p_claim: "claimPooled marshal bs (ps_pools s) = (i, ps') \<Longrightarrow> i \<noteq> [] \<Longrightarrow>
    pstep marshal s (s\<lparr>ps_pools := ps', ps_given := (i, bs) # ps_given s\<rparr>)"

definition pools_init :: "(shape \<Rightarrow> bytes option) \<Rightarrow> config \<Rightarrow> pools_state \<Rightarrow> bool" where
  "pools_init marshal cf s \<longleftrightarrow> s = \<lparr>ps_pools = startPools marshal cf, ps_booting = [], ps_booted = [], ps_given = []\<rparr>"

section \<open>What a pool hands out\<close>

text \<open>One pool, the boots under way for it and what was booted.\<close>

definition pool_ok :: "(shape \<Rightarrow> bytes option) \<Rightarrow> nat \<Rightarrow> pools_state \<Rightarrow> bool" where
  "pool_ok marshal k s \<longleftrightarrow> (let p = ps_pools s ! k in
     pl_key p = poolKey marshal (pl_template p) \<and> pl_filling p = length (filter (\<lambda>(j, _). j = k) (ps_booting s)) \<and>
     int (length (pl_ready p)) + int (pl_filling p) \<le> max 0 (pl_size p) \<and>
     (\<forall>i \<in> set (pl_ready p). (i, booted_spec i p) \<in> set (ps_booted s) \<and> i \<noteq> []) \<and>
     (\<forall>i. (k, i) \<in> set (ps_booting s) \<longrightarrow> (i, booted_spec i p) \<in> set (ps_booted s) \<and> i \<noteq> []))"

definition stock :: "pools_state \<Rightarrow> bytes list" where
  "stock s = map fst (ps_given s) @ concat (map pl_ready (ps_pools s)) @ map snd (ps_booting s)"

definition stock_ok :: "pools_state \<Rightarrow> bool" where
  "stock_ok s \<longleftrightarrow> distinct (stock s) \<and> set (stock s) \<subseteq> fst ` set (ps_booted s)"

definition given_ok :: "(shape \<Rightarrow> bytes option) \<Rightarrow> pools_state \<Rightarrow> bool" where
  "given_ok marshal s \<longleftrightarrow> (\<forall>(i, bs) \<in> set (ps_given s). poolKey marshal bs \<noteq> [] \<and>
     (\<exists>sp. (i, sp) \<in> set (ps_booted s) \<and> poolKey marshal sp = poolKey marshal bs))"

definition pools_ok :: "(shape \<Rightarrow> bytes option) \<Rightarrow> pools_state \<Rightarrow> bool" where
  "pools_ok marshal s \<longleftrightarrow> (\<forall>k < length (ps_pools s). pool_ok marshal k s) \<and>
     (\<forall>k i. (k, i) \<in> set (ps_booting s) \<longrightarrow> k < length (ps_pools s)) \<and> stock_ok s \<and> given_ok marshal s"

lemma concat_update:
  "k < length xs \<Longrightarrow> mset (concat (map f (xs[k := y]))) + mset (f (xs ! k)) = mset (concat (map f xs)) + mset (f y)"
proof (induction xs arbitrary: k)
  case (Cons x xs)
  then show ?case by (cases k) (auto simp: ac_simps)
qed simp

lemma claim_from_some:
  "claim_from key ps = (i, ps') \<Longrightarrow> i \<noteq> [] \<Longrightarrow>
   \<exists>k rest. k < length ps \<and> pl_key (ps ! k) = key \<and> pl_ready (ps ! k) = i # rest \<and> ps' = ps[k := (ps ! k)\<lparr>pl_ready := rest\<rparr>]"
proof (induction key ps arbitrary: ps' rule: claim_from.induct)
  case (2 key p ps)
  show ?case
  proof (cases "pl_key p = key")
    case True
    then show ?thesis using 2(2,3) by (intro exI [of _ 0]) (auto split: list.split_asm)
  next
    case False
    then obtain qs where c: "claim_from key ps = (i, qs)" "ps' = p # qs" using 2(2) by (auto split: prod.split_asm)
    then obtain k rest where "k < length ps" "pl_key (ps ! k) = key" "pl_ready (ps ! k) = i # rest" "qs = ps[k := (ps ! k)\<lparr>pl_ready := rest\<rparr>]"
      using 2(1) [OF False c(1) 2(3)] by auto
    then show ?thesis using c(2) by (intro exI [of _ "Suc k"]) auto
  qed
qed simp

lemma poolKey_booted [simp]: "poolKey marshal (booted_spec i p) = poolKey marshal (pl_template p)"
  by (simp add: poolKey_def booted_spec_def shape_of_def)

lemma booted_spec_cong: "pl_template p' = pl_template p \<Longrightarrow> booted_spec i p' = booted_spec i p"
  by (simp add: booted_spec_def)

text \<open>The other pools do not notice.\<close>

lemma pool_ok_other:
  assumes "pool_ok marshal j s" "ps_pools s' ! j = ps_pools s ! j" "set (ps_booted s) \<subseteq> set (ps_booted s')"
    "filter (\<lambda>(l, _). l = j) (ps_booting s') = filter (\<lambda>(l, _). l = j) (ps_booting s)"
  shows "pool_ok marshal j s'"
proof -
  have "(j, i) \<in> set (ps_booting s') \<longleftrightarrow> (j, i) \<in> set (ps_booting s)" for i
    using arg_cong [OF assms(4), of set] by auto
  then show ?thesis using assms(1-3) unfolding pool_ok_def Let_def assms(2,4) by blast
qed

lemma filter_remove1_other: "j \<noteq> k \<Longrightarrow> filter (\<lambda>(l, _). l = j) (remove1 (k, i) xs) = filter (\<lambda>(l, _). l = j) xs"
  by (simp add: filter_remove1 remove1_idem)

lemma pools_okD:
  assumes "pools_ok marshal s" "k < length (ps_pools s)"
  shows "pool_ok marshal k s"
  using assms by (simp add: pools_ok_def)

lemma distinct_count: "distinct xs \<longleftrightarrow> (\<forall>a. count (mset xs) a \<le> 1)"
proof (induction xs)
  case (Cons x xs)
  have "count (mset xs) x = 0 \<longleftrightarrow> x \<notin> set xs" by (simp add: count_eq_zero_iff)
  with Cons show ?case by (auto simp: Suc_le_eq le_Suc_eq split: if_split_asm)
qed simp

lemma stock_okI:
  assumes "stock_ok s" "mset (stock s') \<subseteq># mset (stock s)" "set (ps_booted s) \<subseteq> set (ps_booted s')"
  shows "stock_ok s'"
proof -
  have "distinct (stock s')" using assms(1,2) unfolding stock_ok_def distinct_count by (meson le_trans mset_subset_eq_count)
  moreover have "set (stock s') \<subseteq> set (stock s)" using assms(2) by (metis set_mset_mono set_mset_mset)
  ultimately show ?thesis using assms(1,3) unfolding stock_ok_def by blast
qed

lemma pools_ok_begin:
  assumes ok: "pools_ok marshal s" and k: "k < length (ps_pools s)" and b: "fill_begin (ps_pools s ! k) = Some (p', delay)"
    and i: "i \<noteq> []" "i \<notin> fst ` set (ps_booted s)"
  shows "pools_ok marshal (s\<lparr>ps_pools := (ps_pools s)[k := p'], ps_booting := (k, i) # ps_booting s,
      ps_booted := (i, booted_spec i (ps_pools s ! k)) # ps_booted s\<rparr>)" (is "pools_ok _ ?s")
proof -
  have p': "p' = (ps_pools s ! k)\<lparr>pl_filling := Suc (pl_filling (ps_pools s ! k))\<rparr>"
    and room: "int (length (pl_ready (ps_pools s ! k))) + int (pl_filling (ps_pools s ! k)) < pl_size (ps_pools s ! k)"
    using b by (auto simp: fill_begin_def split: if_split_asm)
  have "pool_ok marshal j ?s" if j: "j < length (ps_pools s)" for j
  proof (cases "j = k")
    case True
    show ?thesis using pools_okD [OF ok k] room i(1) k unfolding pool_ok_def Let_def True
      by (auto simp: p' booted_spec_def)
  next
    case False
    then show ?thesis by (intro pool_ok_other [OF pools_okD [OF ok j]]) auto
  qed
  moreover have "stock_ok ?s"
  proof -
    have "mset (concat (map pl_ready ((ps_pools s)[k := p']))) = mset (concat (map pl_ready (ps_pools s)))"
      using concat_update [OF k, of pl_ready p'] by (simp add: p')
    then have m: "mset (stock ?s) = mset (i # stock s)" by (simp add: stock_def)
    have st: "distinct (stock s)" "set (stock s) \<subseteq> fst ` set (ps_booted s)" using ok by (simp_all add: pools_ok_def stock_ok_def)
    have "distinct (i # stock s)" using st i(2) by auto
    then have "distinct (stock ?s)" using mset_eq_imp_distinct_iff [OF m] by simp
    moreover have "set (stock ?s) = insert i (set (stock s))" using mset_eq_setD [OF m] by simp
    ultimately show ?thesis using st(2) by (auto simp: stock_ok_def)
  qed
  moreover have "given_ok marshal ?s" using ok by (fastforce simp: pools_ok_def given_ok_def)
  ultimately show ?thesis using ok k by (auto simp: pools_ok_def)
qed

text \<open>A boot that ends, either way: \<open>new\<close> is what it adds to the ready ones.\<close>

lemma pools_ok_end:
  assumes ok: "pools_ok marshal s" and b: "(k, i) \<in> set (ps_booting s)"
    and p': "p' = (ps_pools s ! k)\<lparr>pl_filling := pl_filling (ps_pools s ! k) - 1, pl_failures := n, pl_ready := pl_ready (ps_pools s ! k) @ new\<rparr>"
      "new = [i] \<or> new = []"
  shows "pools_ok marshal (s\<lparr>ps_pools := (ps_pools s)[k := p'], ps_booting := remove1 (k, i) (ps_booting s)\<rparr>)" (is "pools_ok _ ?s")
proof -
  have k: "k < length (ps_pools s)" using ok b by (auto simp: pools_ok_def)
  note pk = pools_okD [OF ok k]
  let ?mine = "filter (\<lambda>(j, _). j = k) (ps_booting s)"
  have mine: "(k, i) \<in> set ?mine" using b by simp
  have len: "length (filter (\<lambda>(j, _). j = k) (remove1 (k, i) (ps_booting s))) = length ?mine - 1"
    using mine by (simp add: filter_remove1 length_remove1)
  have pos: "length ?mine \<ge> 1" using mine by (auto simp: Suc_le_eq filter_empty_conv)
  have "pool_ok marshal j ?s" if j: "j < length (ps_pools s)" for j
  proof (cases "j = k")
    case True
    have "(i, booted_spec i (ps_pools s ! k)) \<in> set (ps_booted s)" "i \<noteq> []" using pk b by (auto simp: pool_ok_def Let_def)
    then show ?thesis using pk k len pos p'(2) unfolding pool_ok_def Let_def True
      by (auto simp: p'(1) booted_spec_def dest: subsetD [OF set_remove1_subset])
  next
    case False
    then show ?thesis by (intro pool_ok_other [OF pools_okD [OF ok j]]) (auto simp: filter_remove1_other)
  qed
  moreover have "stock_ok ?s"
  proof (rule stock_okI [of s])
    have "mset (concat (map pl_ready ((ps_pools s)[k := p']))) = mset (concat (map pl_ready (ps_pools s))) + mset new"
      using concat_update [OF k, of pl_ready p'] by (simp add: p'(1))
    moreover have "mset (map snd (remove1 (k, i) (ps_booting s))) = mset (map snd (ps_booting s)) - {#i#}"
      "i \<in># mset (map snd (ps_booting s))"
      using b by (force simp: image_mset_Diff)+
    ultimately show "mset (stock ?s) \<subseteq># mset (stock s)"
      using p'(2) by (auto simp: stock_def)
  qed (use ok in \<open>simp_all add: pools_ok_def\<close>)
  moreover have "given_ok marshal ?s" using ok by (simp add: pools_ok_def given_ok_def)
  moreover have "l < length (ps_pools s)" if "(l, m) \<in> set (remove1 (k, i) (ps_booting s))" for l m
    using that ok set_remove1_subset [of "(k, i)" "ps_booting s"] unfolding pools_ok_def by blast
  ultimately show ?thesis by (auto simp: pools_ok_def)
qed

lemma pools_ok_claim:
  assumes ok: "pools_ok marshal s" and c: "claimPooled marshal bs (ps_pools s) = (i, ps')" "i \<noteq> []"
  shows "pools_ok marshal (s\<lparr>ps_pools := ps', ps_given := (i, bs) # ps_given s\<rparr>)" (is "pools_ok _ ?s")
proof -
  have key: "poolKey marshal bs \<noteq> []" and from_key: "claim_from (poolKey marshal bs) (ps_pools s) = (i, ps')"
    using c by (auto simp: claimPooled_def split: if_split_asm)
  then obtain k rest where k: "k < length (ps_pools s)" "pl_key (ps_pools s ! k) = poolKey marshal bs"
    "pl_ready (ps_pools s ! k) = i # rest" "ps' = (ps_pools s)[k := (ps_pools s ! k)\<lparr>pl_ready := rest\<rparr>]"
    using claim_from_some [OF from_key c(2)] by blast
  note pk = pools_okD [OF ok k(1)]
  have "pool_ok marshal j ?s" if j: "j < length (ps_pools s)" for j
  proof (cases "j = k")
    case True
    show ?thesis using pk k unfolding pool_ok_def Let_def True by (auto simp: booted_spec_def)
  next
    case False
    then show ?thesis by (intro pool_ok_other [OF pools_okD [OF ok j]]) (auto simp: k(4))
  qed
  moreover have "stock_ok ?s"
  proof (rule stock_okI [of s])
    have "mset (concat (map pl_ready ps')) + {#i#} = mset (concat (map pl_ready (ps_pools s)))"
      using concat_update [OF k(1), of pl_ready "(ps_pools s ! k)\<lparr>pl_ready := rest\<rparr>"] k(3) by (simp add: k(4))
    from this [symmetric] show "mset (stock ?s) \<subseteq># mset (stock s)" by (simp add: stock_def)
  qed (use ok in \<open>simp_all add: pools_ok_def\<close>)
  moreover have "given_ok marshal ?s"
  proof -
    have "(i, booted_spec i (ps_pools s ! k)) \<in> set (ps_booted s)" "poolKey marshal (pl_template (ps_pools s ! k)) = poolKey marshal bs"
      using pk k(2,3) by (simp_all add: pool_ok_def Let_def)
    then show ?thesis using ok key poolKey_booted unfolding pools_ok_def given_ok_def by fastforce
  qed
  ultimately show ?thesis using ok by (auto simp: pools_ok_def k(4))
qed

lemma pools_ok_step: "pools_ok marshal s \<Longrightarrow> pstep marshal s s' \<Longrightarrow> pools_ok marshal s'"
proof -
  assume ok: "pools_ok marshal s" and st: "pstep marshal s s'"
  show ?thesis using st
  proof cases
    case (p_booted k i)
    then show ?thesis using pools_ok_end [OF ok p_booted(2), where n = 0 and new = "[i]"] by (simp add: fill_booted_def)
  next
    case (p_failed k i)
    then show ?thesis using pools_ok_end [OF ok p_failed(2), where n = "Suc (pl_failures (ps_pools s ! k))" and new = "[]"]
      by (simp add: fill_failed_def)
  qed (use ok pools_ok_begin pools_ok_claim in auto)
qed

lemma started_pool:
  "startPool marshal cf cfg = Inr p \<Longrightarrow> pl_key p = poolKey marshal (pl_template p) \<and> pl_ready p = [] \<and> pl_filling p = 0"
  by (auto simp: startPool_def Let_def)

lemma started_pools: "p \<in> set (ok_pools rs) \<Longrightarrow> Inr p \<in> set rs"
  by (induction rs rule: ok_pools.induct) auto

lemma pools_ok_init: "pools_init marshal cf s \<Longrightarrow> pools_ok marshal s"
proof -
  assume i: "pools_init marshal cf s"
  have p: "pl_key p = poolKey marshal (pl_template p) \<and> pl_ready p = [] \<and> pl_filling p = 0" if "p \<in> set (startPools marshal cf)" for p
    using started_pools that started_pool by (fastforce simp: startPools_def)
  have "stock s = []" using i p by (simp add: stock_def pools_init_def)
  then have "stock_ok s" "given_ok marshal s" using i by (simp_all add: pools_init_def stock_ok_def given_ok_def)
  moreover have "pool_ok marshal k s" if "k < length (ps_pools s)" for k
    using that i p [OF nth_mem] by (simp add: pools_init_def pool_ok_def)
  ultimately show ?thesis using i by (simp add: pools_init_def pools_ok_def)
qed

interpretation pools_run: step_invariant "pools_init marshal cf" "pstep marshal" "pools_ok marshal" for marshal cf
  by unfold_locales (auto intro: pools_ok_init pools_ok_step)

section \<open>Properties\<close>

text \<open>
  A pool holds, ready and booting, at most what it was configured for; no pooled sandbox is handed
  out twice; and a sandbox is handed only to a create whose image, CPUs, memory, disk and network are those
  it was booted with, and that asks for no snapshot, volume or GPU. The JSON of two shapes is the same
  only for the same shape.
\<close>

theorem pooled_sandbox_fits:
  assumes json: "\<And>a b j. marshal a = Some j \<Longrightarrow> marshal b = Some j \<Longrightarrow> a = b"
    and run: "reach (pools_init marshal cf) (pstep marshal) s"
  shows "(\<forall>p \<in> set (ps_pools s). int (length (pl_ready p)) + int (pl_filling p) \<le> max 0 (pl_size p)) \<and>
    distinct (map fst (ps_given s)) \<and>
    (\<forall>(i, bs) \<in> set (ps_given s). sp_FromSnapshot bs = [] \<and> sp_Volumes bs = [] \<and> sp_GPUs bs = [] \<and>
      (\<exists>sp. (i, sp) \<in> set (ps_booted s) \<and> shape_of sp = shape_of bs))"
proof -
  have ok: "pools_ok marshal s" using run by (rule pools_run.inv_reach)
  have "int (length (pl_ready p)) + int (pl_filling p) \<le> max 0 (pl_size p)" if "p \<in> set (ps_pools s)" for p
    using that ok by (auto simp: in_set_conv_nth pools_ok_def pool_ok_def Let_def)
  moreover have "distinct (map fst (ps_given s))" using ok by (simp add: pools_ok_def stock_ok_def stock_def)
  moreover have "sp_FromSnapshot bs = [] \<and> sp_Volumes bs = [] \<and> sp_GPUs bs = [] \<and>
      (\<exists>sp. (i, sp) \<in> set (ps_booted s) \<and> shape_of sp = shape_of bs)" if g: "(i, bs) \<in> set (ps_given s)" for i bs
  proof -
    obtain sp where sp: "(i, sp) \<in> set (ps_booted s)" "poolKey marshal sp = poolKey marshal bs" "poolKey marshal bs \<noteq> []"
      using ok g by (auto simp: pools_ok_def given_ok_def)
    have "shape_of sp = shape_of bs"
      using sp(2,3) json [of "shape_of sp" _ "shape_of bs"] by (auto simp: poolKey_def split: if_split_asm option.split_asm)
    then show ?thesis using sp by (auto simp: poolKey_def split: if_split_asm)
  qed
  ultimately show ?thesis by blast
qed

definition pool_cf :: config where
  "pool_cf = \<lparr>cf_lower = (\<lambda>x. x), cf_Policy = demo_policy\<lparr>p_Pools := [\<lparr>po_Image = ''img'', po_Size = 1\<rparr>]\<rparr>, cf_caps = (\<lambda>_. True),
     cf_Suspender = True, cf_Snapshotter = True, cf_VolumeStore = True, cf_GPUs = [], cf_gpuReady = (\<lambda>_. True), cf_NodeID = []\<rparr>"

lemma pool_cf_resolves:
  "result_holds (\<lambda>s. sp_FromSnapshot s = [] \<and> sp_Volumes s = [] \<and> sp_GPUs s = [])
    (Resolve (\<lambda>x. x) (zero_request\<lparr>rq_Image := ''img''\<rparr>) (cf_Policy pool_cf) [])"
  by code_simp

theorem pooled_sandbox_fits_witness:
  "\<exists>marshal s. reach (pools_init marshal pool_cf) (pstep marshal) s \<and> map fst (ps_given s) = [''a''] \<and>
    (\<forall>p \<in> set (ps_pools s). int (length (pl_ready p)) + int (pl_filling p) \<le> max 0 (pl_size p))"
proof -
  obtain t0 where t0: "Resolve (\<lambda>x. x) (zero_request\<lparr>rq_Image := ''img''\<rparr>) (cf_Policy pool_cf) [] = Inr t0"
    "sp_FromSnapshot t0 = []" "sp_Volumes t0 = []" "sp_GPUs t0 = []"
    using pool_cf_resolves unfolding result_holds_iff by blast
  define t where "t = t0\<lparr>sp_Env := []\<rparr>"
  define m where "m = (\<lambda>sh. if sh = shape_of t then Some ''k'' else None)"
  have key: "poolKey m t = ''k''" using t0 by (simp add: poolKey_def t_def m_def)
  let ?p = "\<lparr>pl_template = t, pl_key = ''k'', pl_ready = [], pl_filling = 0, pl_size = 1, pl_failures = 0\<rparr>"
  let ?s0 = "\<lparr>ps_pools = [?p], ps_booting = [], ps_booted = [], ps_given = []\<rparr>"
  let ?s1 = "\<lparr>ps_pools = [?p\<lparr>pl_filling := 1\<rparr>], ps_booting = [(0, ''a'')], ps_booted = [(''a'', booted_spec ''a'' ?p)], ps_given = []\<rparr>"
  let ?s2 = "\<lparr>ps_pools = [?p\<lparr>pl_ready := [''a'']\<rparr>], ps_booting = [], ps_booted = [(''a'', booted_spec ''a'' ?p)], ps_given = []\<rparr>"
  let ?s3 = "\<lparr>ps_pools = [?p], ps_booting = [], ps_booted = [(''a'', booted_spec ''a'' ?p)], ps_given = [(''a'', t)]\<rparr>"
  have "startPools m pool_cf = [?p]"
    using t0(1) key by (simp add: startPools_def startPool_def pool_cf_def and_then_def t_def Let_def)
  then have "reach (pools_init m pool_cf) (pstep m) ?s0" by (intro reach_init) (simp add: pools_init_def)
  moreover have "pstep m ?s0 ?s1" using p_begin [of 0 ?s0 "?p\<lparr>pl_filling := 1\<rparr>" 0 "''a''" m] by (simp add: fill_begin_def)
  moreover have "pstep m ?s1 ?s2" using p_booted [of 0 "''a''" ?s1 m] by (simp add: fill_booted_def)
  moreover have "pstep m ?s2 ?s3"
    using p_claim [of m t ?s2 "''a''" "[?p]"] by (simp add: claimPooled_def key)
  ultimately have r: "reach (pools_init m pool_cf) (pstep m) ?s3" by (blast intro: reach_step)
  have "m a = Some j \<Longrightarrow> m b = Some j \<Longrightarrow> a = b" for a b j by (auto simp: m_def split: if_split_asm)
  from pooled_sandbox_fits [OF this r] r show ?thesis by (intro exI [of _ m] exI [of _ ?s3]) auto
qed

end
