(* ===== verification/Server_Node.thy ===== *)
theory Server_Node
  imports Server_Pool
begin

text \<open>
  What a node says of itself (\<open>internal/server/node.go\<close> and \<open>caps\<close> of \<open>server.go\<close>): its capabilities, its capacity
  and what of it is free. \<open>int\<close> sums wrap at 64 bits; the rounding of \<open>float64\<close> is the argument \<open>rnd\<close>.
\<close>

subsection \<open>Capabilities\<close>

text \<open>What the server has beside its backend: an audit log, a usage reader, an image store, a metrics exporter.\<close>

record features =
  fe_Audit :: bool
  fe_usageReader :: bool
  fe_imageStore :: bool
  fe_canExport :: bool

definition caps_of :: "config \<Rightarrow> features \<Rightarrow> caps" where
  "caps_of cf fe = (cf_caps cf)(''audit'' := fe_Audit fe, ''metrics'' := fe_usageReader fe, ''images'' := fe_imageStore fe,
     ''metrics_export'' := fe_canExport fe, ''gpu'' := servesGPUs cf)"

subsection \<open>The account\<close>

record usage =
  us_CPUs :: f64
  us_MemoryMB :: int
  us_DiskMB :: int

definition add_used :: "(rat \<Rightarrow> f64) \<Rightarrow> f64 \<Rightarrow> int \<Rightarrow> int \<Rightarrow> int \<Rightarrow> usage \<Rightarrow> usage" where
  "add_used rnd cpus mem disk n u = \<lparr>us_CPUs = f_add rnd (us_CPUs u) (f_mul rnd cpus (rnd (of_int n))),
     us_MemoryMB = i64 (us_MemoryMB u + i64 (mem * n)), us_DiskMB = i64 (us_DiskMB u + i64 (disk * n))\<rparr>"

definition used_by_sandboxes :: "(rat \<Rightarrow> f64) \<Rightarrow> sandbox list \<Rightarrow> usage \<Rightarrow> usage" where
  "used_by_sandboxes rnd sbs u = foldl (\<lambda>u sb. add_used rnd (b_CPUs sb) (b_MemoryMB sb) (b_DiskMB sb) 1 u) u (filter live sbs)"

definition booted :: "pool \<Rightarrow> int" where
  "booted p = int (length (pl_ready p) + pl_filling p)"

definition used_by_pools :: "(rat \<Rightarrow> f64) \<Rightarrow> pool list \<Rightarrow> usage \<Rightarrow> usage" where
  "used_by_pools rnd ps u = foldl (\<lambda>u p. let t = pl_template p in
     add_used rnd (sp_CPUs t) (sp_MemoryMB t) (sp_DiskMB t) (booted p) u) u ps"

definition used_of :: "(rat \<Rightarrow> f64) \<Rightarrow> pool list \<Rightarrow> sandbox list \<Rightarrow> usage" where
  "used_of rnd ps sbs = used_by_pools rnd ps (used_by_sandboxes rnd sbs \<lparr>us_CPUs = Fin 0, us_MemoryMB = 0, us_DiskMB = 0\<rparr>)"

definition pooled_of :: "pool list \<Rightarrow> bytes \<Rightarrow> int" where
  "pooled_of ps = foldl (\<lambda>m p. let image = sp_Image (pl_template p) in
     m(image := i64 (m image + int (length (pl_ready p))))) (\<lambda>_. 0) (filter (\<lambda>p. pl_ready p \<noteq> []) ps)"

text \<open>\<open>cached\<close> are the images a backend that can list them has built. The network ceiling is all a scheduler reads of the policy.\<close>

definition nodeStatus :: "(rat \<Rightarrow> f64) \<Rightarrow> config \<Rightarrow> features \<Rightarrow> NodeResources \<Rightarrow> bytes list option \<Rightarrow> pool list \<Rightarrow> srv \<Rightarrow> NodeStatus" where
  "nodeStatus rnd cf fe cap cached ps v =
    (let sbs = sandboxes v; used = used_of rnd ps sbs in
     \<lparr>st_caps = caps_of cf fe, st_Limits = p_Limits (cf_Policy cf), st_Ceiling = sn_Ceiling (p_Network (cf_Policy cf)),
      st_Capacity = cap\<lparr>nr_GPUs := int (length (cf_GPUs cf))\<rparr>,
      st_Free = \<lparr>nr_CPUs = f_max0 (f_add rnd (nr_CPUs cap) (f_neg (us_CPUs used))), nr_MemoryMB = max 0 (i64 (nr_MemoryMB cap - us_MemoryMB used)),
        nr_DiskMB = max 0 (i64 (nr_DiskMB cap - us_DiskMB used)), nr_GPUs = int (length (freeGPUsOf cf sbs))\<rparr>,
      st_Pooled = pooled_of ps, st_Images = (case cached of None \<Rightarrow> [] | Some is \<Rightarrow> sort is),
      st_Cordoned = v_cordoned v, st_Node = cf_NodeID cf,
      st_Running = int (length (filter (\<lambda>sb. b_State sb = Running) sbs))\<rparr>)"

section \<open>The account is exact\<close>

text \<open>What is held: by the sandboxes not yet terminated, and by the machines booted ahead.\<close>

definition held :: "(sandbox \<Rightarrow> int) \<Rightarrow> (Spec \<Rightarrow> int) \<Rightarrow> sandbox list \<Rightarrow> pool list \<Rightarrow> int" where
  "held f g sbs ps = (\<Sum>sb \<leftarrow> filter live sbs. f sb) + (\<Sum>p \<leftarrow> ps. g (pl_template p) * booted p)"

lemma wrapping_sum:
  assumes "\<forall>x \<in> set xs. 0 \<le> f x" "0 \<le> a" "a + (\<Sum>x \<leftarrow> xs. f x) < 2 ^ 63"
  shows "foldl (\<lambda>u x. i64 (u + i64 (f x))) a xs = a + (\<Sum>x \<leftarrow> xs. f x)"
  using assms
proof (induction xs arbitrary: a)
  case (Cons x xs)
  have "0 \<le> (\<Sum>x \<leftarrow> xs. f x)" using Cons.prems(1) by (auto intro!: sum_list_nonneg)
  then have "i64 (a + i64 (f x)) = a + f x" using Cons.prems by (simp add: i64_id in_i64_def)
  then show ?case using Cons by simp
qed simp

lemma foldl_add_used:
  "us_MemoryMB (foldl (\<lambda>u x. add_used rnd (c x) (m x) (d x) (n x) u) u xs) = foldl (\<lambda>a x. i64 (a + i64 (m x * n x))) (us_MemoryMB u) xs"
  "us_DiskMB (foldl (\<lambda>u x. add_used rnd (c x) (m x) (d x) (n x) u) u xs) = foldl (\<lambda>a x. i64 (a + i64 (d x * n x))) (us_DiskMB u) xs"
  by (induction xs arbitrary: u) (simp_all add: add_used_def)

lemmas account_simps = used_of_def used_by_sandboxes_def used_by_pools_def Let_def foldl_add_used wrapping_sum held_def booted_def

text \<open>
  What a node reports free of its memory and disk is exactly its capacity less what its sandboxes and its
  booted pools hold, never less than nothing; a sandbox counts until it is terminated, pending and
  suspended ones included. No sum wraps while the total is an \<open>int\<close>.
\<close>

theorem node_free_is_exact:
  assumes "\<forall>sb \<in> set (sandboxes v). 0 \<le> b_MemoryMB sb \<and> 0 \<le> b_DiskMB sb"
    and "\<forall>p \<in> set ps. 0 \<le> sp_MemoryMB (pl_template p) \<and> 0 \<le> sp_DiskMB (pl_template p)"
    and "held b_MemoryMB sp_MemoryMB (sandboxes v) ps < 2 ^ 63" "held b_DiskMB sp_DiskMB (sandboxes v) ps < 2 ^ 63"
    and "0 \<le> nr_MemoryMB cap" "nr_MemoryMB cap < 2 ^ 63" "0 \<le> nr_DiskMB cap" "nr_DiskMB cap < 2 ^ 63"
  shows "nr_MemoryMB (st_Free (nodeStatus rnd cf fe cap cached ps v)) = max 0 (nr_MemoryMB cap - held b_MemoryMB sp_MemoryMB (sandboxes v) ps) \<and>
    nr_DiskMB (st_Free (nodeStatus rnd cf fe cap cached ps v)) = max 0 (nr_DiskMB cap - held b_DiskMB sp_DiskMB (sandboxes v) ps)"
proof -
  have pos: "0 \<le> (\<Sum>p \<leftarrow> ps. sp_MemoryMB (pl_template p) * booted p)" "0 \<le> (\<Sum>p \<leftarrow> ps. sp_DiskMB (pl_template p) * booted p)"
    "0 \<le> (\<Sum>sb \<leftarrow> filter live (sandboxes v). b_MemoryMB sb)" "0 \<le> (\<Sum>sb \<leftarrow> filter live (sandboxes v). b_DiskMB sb)"
    using assms(1,2) by (auto intro!: sum_list_nonneg simp: booted_def)
  have "us_MemoryMB (used_of rnd ps (sandboxes v)) = held b_MemoryMB sp_MemoryMB (sandboxes v) ps"
    using assms(1-3) pos by (simp add: account_simps)
  moreover have "us_DiskMB (used_of rnd ps (sandboxes v)) = held b_DiskMB sp_DiskMB (sandboxes v) ps"
    using assms(1,2,4) pos by (simp add: account_simps)
  moreover have "0 \<le> held b_MemoryMB sp_MemoryMB (sandboxes v) ps" "0 \<le> held b_DiskMB sp_DiskMB (sandboxes v) ps"
    using pos by (simp_all add: held_def)
  ultimately show ?thesis using assms by (simp add: nodeStatus_def Let_def i64_id in_i64_def)
qed

text \<open>A node with a running and a terminated sandbox, of 512 MB each, and one machine booted ahead.\<close>

definition demo_record :: "bytes \<Rightarrow> sbx_state \<Rightarrow> rec" where
  "demo_record sid st = \<lparr>r_sbx = \<lparr>b_ID = sid, b_Name = [], b_State = st, b_Image = ''img'', b_CPUs = Fin 1, b_MemoryMB = 512, b_DiskMB = 1024,
     b_EnvNames = [], b_Network = zero_network, b_CreatedAt = 0, b_IdleTimeoutSecs = 0, b_IdleAction = [], b_IdleSuspended = False,
     b_LifetimeSecs = 0, b_ExpiresAt = None, b_SnapshotEverySecs = 0, b_SnapshotKeep = 0, b_Snapshotting = False, b_Labels = [],
     b_Volumes = [], b_GPUs = []\<rparr>, r_env = [], r_procs = [], r_nextPID = 0, r_lastActive = 0, r_lastScheduled = 0,
     r_snapshotting = False\<rparr>"

definition demo_server :: srv where
  "demo_server = srv0\<lparr>v_heap := [demo_record ''a'' Running, demo_record ''b'' Terminated], v_table := [(''a'', 0), (''b'', 1)]\<rparr>"

definition demo_capacity :: NodeResources where
  "demo_capacity = \<lparr>nr_CPUs = Fin 8, nr_MemoryMB = 2048, nr_DiskMB = 4096, nr_GPUs = 0\<rparr>"

theorem node_free_is_exact_witness:
  "nr_MemoryMB (st_Free (nodeStatus Fin pool_cf \<lparr>fe_Audit = True, fe_usageReader = False, fe_imageStore = False, fe_canExport = False\<rparr>
     demo_capacity None [] demo_server)) = 1536"
  using node_free_is_exact [of demo_server "[]" demo_capacity Fin pool_cf
      "\<lparr>fe_Audit = True, fe_usageReader = False, fe_imageStore = False, fe_canExport = False\<rparr>" None]
  by (simp add: demo_server_def demo_record_def demo_capacity_def sandboxes_def held_def live_def)

end
