(* ===== verification/Gateway_Create.thy ===== *)
theory Gateway_Create
  imports Gateway_Names Gateway_Quota Gateway_Fleet Server_Node Server_Safety
begin

text \<open>
  A create at the gateway (\<open>createSandbox\<close>, \<open>createSpread\<close>, \<open>place\<close> of \<open>internal/gateway/sandboxes.go\<close>, with \<open>egress_groups.go\<close>, \<open>policies.go\<close>,
  \<open>registry_logins.go\<close> and \<open>metrics_export.go\<close>): what the request becomes, the node it is held to, and the nodes it is tried on. The name's claim, the
  quota's hold and the placements of a node are followed over their interleavings in \<open>Gateway_Names\<close>, \<open>Gateway_Quota\<close> and \<open>Gateway_Nodes\<close>.
\<close>

subsection \<open>Answers\<close>

text \<open>A refusal and whether waiting may cure it.\<close>

type_synonym create_fail = "refusal \<times> bool"

abbreviation failWith :: "refusal \<Rightarrow> create_fail" where
  "failWith r \<equiv> (r, False)"

abbreviation transientFail :: "refusal \<Rightarrow> create_fail" where
  "transientFail r \<equiv> (r, True)"

abbreviation internal :: "nat \<Rightarrow> refusal" where
  "internal status \<equiv> (status, ''internal'')"

subsection \<open>What is added to a request\<close>

record EgressGroup =
  eg_Name :: bytes
  eg_Hosts :: "bytes list"

definition add_hosts :: "bytes list \<Rightarrow> bytes list \<Rightarrow> bytes list" where
  "add_hosts allow hosts = foldl (\<lambda>a h. if h \<in> set a then a else a @ [h]) allow hosts"

fun expand_names :: "EgressGroup list \<Rightarrow> bytes list \<Rightarrow> bytes list \<Rightarrow> bytes list option" where
  "expand_names groups allow [] = Some allow"
| "expand_names groups allow (n # ns) = (case find (\<lambda>g. eg_Name g = n) groups of
      None \<Rightarrow> None
    | Some g \<Rightarrow> expand_names groups (add_hosts allow (eg_Hosts g)) ns)"

text \<open>\<open>groups\<close> is the admin's, None when the database did not answer.\<close>

definition applyGroups :: "EgressGroup list option \<Rightarrow> NetworkPolicy option \<Rightarrow> (create_fail, NetworkPolicy option) result" where
  "applyGroups groups net = (case net of
      None \<Rightarrow> Inr None
    | Some n \<Rightarrow>
        if items (np_Groups n) = [] then Inr net
        else if np_Mode n \<noteq> ''allowlist'' then Inl (failWith invalid)
        else case groups of
          None \<Rightarrow> Inl (transientFail unavailable)
        | Some gs \<Rightarrow> (case expand_names gs (items (np_Allow n)) (items (np_Groups n)) of
            None \<Rightarrow> Inl (failWith invalid)
          | Some allow \<Rightarrow> Inr (Some (n\<lparr>np_Allow := Some allow, np_Groups := None\<rparr>))))"

record UserPolicy =
  up_Name :: bytes
  up_MaxLifetimeSecs :: int

text \<open>\<open>policy\<close> is \<open>policyFor\<close> the caller: None when the database did not answer. \<open>fleet\<close> is the bound the nodes have together.\<close>

definition applyPolicyLifetime :: "UserPolicy option option \<Rightarrow> int option \<Rightarrow> CreateSandboxRequest \<Rightarrow> (create_fail, CreateSandboxRequest) result" where
  "applyPolicyLifetime policy fleet req = (case policy of
      None \<Rightarrow> Inl (transientFail unavailable)
    | Some None \<Rightarrow> Inr req
    | Some (Some pol) \<Rightarrow>
        if up_MaxLifetimeSecs pol = 0 then Inr req
        else if rq_LifetimeSecs req > up_MaxLifetimeSecs pol then Inl (failWith invalid)
        else if rq_LifetimeSecs req = 0 then
          (case fleet of
             Some mx \<Rightarrow> if mx > 0 \<and> mx < up_MaxLifetimeSecs pol then Inr req else Inr (req\<lparr>rq_LifetimeSecs := up_MaxLifetimeSecs pol\<rparr>)
           | None \<Rightarrow> Inr (req\<lparr>rq_LifetimeSecs := up_MaxLifetimeSecs pol\<rparr>))
        else Inr req)"

text \<open>\<open>login\<close> is what the tenant keeps for the registry of an image, opened.\<close>

definition addRegistryLogin ::
  "(bytes \<Rightarrow> (create_fail, RegistryLogin option) result) \<Rightarrow> CreateSandboxRequest \<Rightarrow> Want \<Rightarrow> (create_fail, CreateSandboxRequest \<times> Want) result" where
  "addRegistryLogin login req w =
    (if rq_RegistryLogin req \<noteq> None then Inl (failWith invalid)
     else if rq_Image req = [] then Inr (req, w)
     else and_then (login (rq_Image req)) (\<lambda>l. case l of
       None \<Rightarrow> Inr (req, w)
     | Some _ \<Rightarrow> Inr (req\<lparr>rq_RegistryLogin := l\<rparr>, w\<lparr>w_Caps := w_Caps w @ [''registry_login'']\<rparr>)))"

text \<open>\<open>secret\<close> opens a tenant's secret; \<open>canon\<close> is \<open>http.CanonicalHeaderKey\<close>.\<close>

fun secret_headers :: "(bytes \<Rightarrow> bytes) \<Rightarrow> (bytes \<Rightarrow> (create_fail, bytes) result) \<Rightarrow> (bytes \<times> bytes) list \<Rightarrow> (bytes \<times> bytes) list \<Rightarrow>
    (create_fail, (bytes \<times> bytes) list) result" where
  "secret_headers canon secret headers [] = Inr headers"
| "secret_headers canon secret headers ((h, name) # hs) =
    (if map_of headers (canon h) \<noteq> None then Inl (failWith invalid)
     else and_then (secret name) (\<lambda>v. secret_headers canon secret ((canon h, v) # headers) hs))"

definition resolveExportSecrets :: "(bytes \<Rightarrow> bytes) \<Rightarrow> (bytes \<Rightarrow> (create_fail, bytes) result) \<Rightarrow> ApiMetricsExport option \<Rightarrow> (create_fail, ApiMetricsExport option) result" where
  "resolveExportSecrets canon secret export = (case export of
      None \<Rightarrow> Inr None
    | Some me \<Rightarrow>
        if me_HeaderSecrets me = [] then Inr export
        else and_then (secret_headers canon secret (map (\<lambda>(k, v). (canon k, v)) (me_Headers me)) (me_HeaderSecrets me)) (\<lambda>hs.
          Inr (Some (me\<lparr>me_Headers := hs, me_HeaderSecrets := []\<rparr>))))"

subsection \<open>What the scheduler is asked for\<close>

record create_env =
  ce_cands :: "Candidate list"
  ce_fleet :: "int option"
  ce_CPUs :: f64
  ce_MemoryMB :: int
  ce_DiskMB :: int
  ce_groups :: "EgressGroup list option"
  ce_policy :: "UserPolicy option option"
  ce_login :: "bytes \<Rightarrow> (create_fail, RegistryLogin option) result"
  ce_secret :: "bytes \<Rightarrow> (create_fail, bytes) result"
  ce_canon :: "bytes \<Rightarrow> bytes"
  ce_VolumeOwner :: "bytes \<Rightarrow> Owner option option"
  ce_SnapshotOwner :: "bytes \<Rightarrow> Owner option"

definition want_of :: "create_env \<Rightarrow> (bytes \<Rightarrow> int) option \<Rightarrow> CreateSandboxRequest \<Rightarrow> Want" where
  "want_of e spread req = \<lparr>w_Image = rq_Image req, w_CPUs = (if rq_CPUs req = Fin 0 then ce_CPUs e else rq_CPUs req),
     w_MemoryMB = (if rq_MemoryMB req = 0 then ce_MemoryMB e else rq_MemoryMB req),
     w_DiskMB = (if rq_DiskMB req = 0 then ce_DiskMB e else rq_DiskMB req), w_GPUs = rq_GPUs req, w_Caps = [], w_NetworkMode = [],
     w_Node = [], w_Exclude = [], w_Spread = spread\<rparr>"

definition add_cap :: "bytes \<Rightarrow> Want \<Rightarrow> Want" where
  "add_cap k w = w\<lparr>w_Caps := w_Caps w @ [k]\<rparr>"

definition want_network :: "CreateSandboxRequest \<Rightarrow> Want \<Rightarrow> Want" where
  "want_network req w = (case rq_Network req of None \<Rightarrow> w
    | Some n \<Rightarrow> (if np_Mode n = ''allowlist'' then add_cap ''egress_allowlist'' else if np_Mode n = ''open'' then add_cap ''egress_open'' else id)
        (w\<lparr>w_NetworkMode := np_Mode n\<rparr>))"

fun pin_volumes :: "(bytes \<Rightarrow> Owner option option) \<Rightarrow> Principal \<Rightarrow> VolumeMount list \<Rightarrow> Want \<Rightarrow> (create_fail, Want) result" where
  "pin_volumes owner p [] w = Inr w"
| "pin_volumes owner p (m # ms) w = (case owner (vm_Name m) of
      None \<Rightarrow> Inl (transientFail unavailable)
    | Some None \<Rightarrow> Inl (failWith not_found)
    | Some (Some o') \<Rightarrow>
        if \<not> mayAct p o' then Inl (failWith not_found)
        else if w_Node w \<noteq> [] \<and> ow_Node o' \<noteq> w_Node w then Inl (failWith conflict)
        else pin_volumes owner p ms (w\<lparr>w_Node := ow_Node o'\<rparr>))"

text \<open>A snapshot and a volume live on one node, so the sandbox goes there; only its owner may name it.\<close>

definition pin :: "create_env \<Rightarrow> Principal \<Rightarrow> CreateSandboxRequest \<Rightarrow> Want \<Rightarrow> (create_fail, Want) result" where
  "pin e p req w =
    (if rq_SnapshotID req \<noteq> [] \<and> (anyNodeHas (ce_cands e) ''memory_snapshot'' \<or> anyNodeHas (ce_cands e) ''disk_snapshot'')
     then (case ce_SnapshotOwner e (rq_SnapshotID req) of
        None \<Rightarrow> Inl (failWith not_found)
      | Some o' \<Rightarrow> if mayAct p o' then Inr (w\<lparr>w_Node := ow_Node o'\<rparr>) else Inl (failWith not_found))
     else if rq_SnapshotEverySecs req > 0
     then Inr (if anyNodeHas (ce_cands e) ''memory_snapshot'' then add_cap ''memory_snapshot'' w
       else if anyNodeHas (ce_cands e) ''disk_snapshot'' then add_cap ''disk_snapshot'' w else w)
     else if rq_Volumes req \<noteq> [] \<and> anyNodeHas (ce_cands e) ''volumes''
     then and_then (pin_volumes (ce_VolumeOwner e) p (rq_Volumes req) w) (\<lambda>w1. Inr (add_cap ''volumes'' w1))
     else Inr w)"

definition want_rest :: "create_env \<Rightarrow> CreateSandboxRequest \<Rightarrow> Want \<Rightarrow> Want" where
  "want_rest e req w =
    (let w1 = (if rq_IdleAction req = ''suspend'' \<and> anyNodeHas (ce_cands e) ''suspend'' then add_cap ''suspend'' w else w)
     in if (case rq_MetricsExport req of None \<Rightarrow> False | Some me \<Rightarrow> me_Endpoint me \<noteq> []) \<and> anyNodeHas (ce_cands e) ''metrics_export''
        then add_cap ''metrics_export'' w1 else w1)"

definition negative_sizes :: "CreateSandboxRequest \<Rightarrow> bool" where
  "negative_sizes req \<longleftrightarrow> f_lt (rq_CPUs req) (Fin 0) \<or> rq_MemoryMB req < 0 \<or> rq_DiskMB req < 0 \<or> rq_GPUs req < 0"

text \<open>Everything a create checks and adds before it is placed; \<open>extra\<close> are labels of the gateway's own.\<close>

definition prepare ::
  "create_env \<Rightarrow> Principal \<Rightarrow> (bytes \<times> bytes) list \<Rightarrow> (bytes \<Rightarrow> int) option \<Rightarrow> CreateSandboxRequest \<Rightarrow> (create_fail, CreateSandboxRequest \<times> Want) result" where
  "prepare e p extra spread req =
    unless_err (if rq_Name req \<noteq> [] \<and> \<not> ValidName (rq_Name req) then Some (failWith invalid) else None) (
    unless_err (if int (length (rq_Labels req)) > int MaxLabels - 2 - int (length extra) then Some (failWith invalid) else None) (
    unless_err (if ValidateLabels (rq_Labels req) \<noteq> None \<or> ValidateVolumeMounts (rq_Volumes req) \<noteq> None then Some (failWith invalid) else None) (
    unless_err (if ce_cands e = [] then Some (transientFail unavailable) else None) (
    and_then (applyGroups (ce_groups e) (rq_Network req)) (\<lambda>net.
    and_then (applyPolicyLifetime (ce_policy e) (ce_fleet e) (req\<lparr>rq_Network := net\<rparr>)) (\<lambda>req1.
    unless_err (if negative_sizes req1 then Some (failWith invalid) else None) (
    and_then (addRegistryLogin (ce_login e) req1 (want_of e spread req1)) (\<lambda>(req2, w).
    and_then (resolveExportSecrets (ce_canon e) (ce_secret e) (rq_MetricsExport req2)) (\<lambda>export.
    let req3 = req2\<lparr>rq_MetricsExport := export\<rparr> in
    and_then (pin e p req3 (want_network req3 w)) (\<lambda>w1.
    Inr (req3, want_rest e req3 w1)))))))))))"

definition stamp_labels :: "Principal \<Rightarrow> (bytes \<times> bytes) list \<Rightarrow> (bytes \<times> bytes) list \<Rightarrow> bytes \<rightharpoonup> bytes" where
  "stamp_labels p extra labels =
    (let m = (map_of labels ++ map_of extra)(''gateway.owner'' \<mapsto> pp_User p)
     in if pp_Tenant p \<noteq> [] then m(''gateway.tenant'' \<mapsto> pp_Tenant p) else m)"

text \<open>\<open>createSandbox\<close>, the handler: no client sets a label of the gateway's.\<close>

definition handler_check :: "Principal \<Rightarrow> CreateSandboxRequest \<Rightarrow> create_fail option" where
  "handler_check p req =
    (if \<not> Can p ''sandbox:create'' then Some (failWith (403, ''refused''))
     else if list_ex (\<lambda>(k, _). HasPrefix k ''gateway.'') (rq_Labels req) then Some (failWith invalid) else None)"

subsection \<open>Placing and trying\<close>

text \<open>\<open>place\<close>: the node and whether room is reserved on it. A request no node can run goes to one anyway, to be refused there.\<close>

definition place :: "(rat \<Rightarrow> f64) \<Rightarrow> Candidate list \<Rightarrow> bytes list \<Rightarrow> Want \<Rightarrow> bytes list \<Rightarrow> (sched_error, bytes \<times> bool) result" where
  "place rnd cands known want tried =
    (let w = want\<lparr>w_Exclude := tried\<rparr> in
     case Schedule rnd cands w of
       Inr name \<Rightarrow> if name \<in> set known then Inr (name, True) else Inl NoCandidate
     | Inl NoCapable \<Rightarrow>
         (case (if w_Node w \<noteq> [] then Some (w_Node w) else Fallback cands tried w) of
            None \<Rightarrow> Inl NoCapable
          | Some name \<Rightarrow> if name \<in> set known then Inr (name, False) else Inl NoCandidate)
     | Inl err \<Rightarrow> Inl err)"

text \<open>What became of the request: not sent or no answer, an answer that broke off, a refusal, one with no sandbox in it, or the sandbox.\<close>

datatype node_answer = Unanswered bool | BodyLost | RefusedBy refusal | NoSandbox | MadeAs bytes

text \<open>
  \<open>cands\<close> is what \<open>candidates\<close> answers after the given nodes were tried, \<open>recorded\<close> whether the store takes the owner's row. The second component
  is the nodes asked, in order.
\<close>

primrec create_loop ::
  "nat \<Rightarrow> (rat \<Rightarrow> f64) \<Rightarrow> (bytes list \<Rightarrow> Candidate list) \<Rightarrow> bytes list \<Rightarrow> (bytes \<Rightarrow> node_answer) \<Rightarrow> (bytes \<Rightarrow> bool) \<Rightarrow> Want \<Rightarrow> bytes \<Rightarrow>
     bytes list \<Rightarrow> create_fail option \<Rightarrow> ((create_fail, bytes \<times> bytes) result \<times> bytes list) option" where
  "create_loop 0 rnd cands known ask recorded w name tried refused = None"
| "create_loop (Suc k) rnd cands known ask recorded w name tried refused =
    (case place rnd (cands tried) known w tried of
       Inl err \<Rightarrow> Some (Inl (case refused of Some r \<Rightarrow> r | None \<Rightarrow> transientFail unavailable), tried)
     | Inr (n, _) \<Rightarrow>
         (case ask n of
            Unanswered never_sent \<Rightarrow>
              if never_sent \<and> w_Node w = [] then create_loop k rnd cands known ask recorded w name (tried @ [n]) refused
              else Some (Inl (transientFail unavailable), tried @ [n])
          | BodyLost \<Rightarrow> Some (Inl (transientFail (internal 502)), tried @ [n])
          | RefusedBy r \<Rightarrow>
              if w_Node w = [] \<and> (fst r = 409 \<and> name \<noteq> [] \<or> fst r = 503 \<and> w_GPUs w > 0)
              then create_loop k rnd cands known ask recorded w name (tried @ [n]) (Some (failWith r))
              else Some (Inl (failWith r), tried @ [n])
          | NoSandbox \<Rightarrow> Some (Inl (failWith (internal 502)), tried @ [n])
          | MadeAs sid \<Rightarrow>
              if \<not> ValidID sid then Some (Inl (failWith (internal 502)), tried @ [n])
              else if (case NodeOfID sid of None \<Rightarrow> False | Some m \<Rightarrow> m \<noteq> n) \<or> \<not> recorded sid
              then Some (Inl (failWith (internal 500)), tried @ [n])
              else Some (Inr (n, sid), tried @ [n])))"

subsection \<open>The whole create\<close>

definition want_size :: "Want \<Rightarrow> NodeResources" where
  "want_size w = \<lparr>nr_CPUs = w_CPUs w, nr_MemoryMB = w_MemoryMB w, nr_DiskMB = w_DiskMB w, nr_GPUs = w_GPUs w\<rparr>"

text \<open>
  The names claimed, the tenant's usage and what is in flight are as they are when the create comes to them; \<open>unlisted\<close> is the
  answer to a listing that failed, a node's own or 502. A quota that cannot be read is refused as one that is full.
\<close>

definition createSpread ::
  "nat \<Rightarrow> (rat \<Rightarrow> f64) \<Rightarrow> create_env \<Rightarrow> view \<Rightarrow> (route_error \<Rightarrow> create_fail) \<Rightarrow> bytes list \<Rightarrow> Quota \<Rightarrow> Usage option \<Rightarrow> Usage \<Rightarrow>
     (bytes list \<Rightarrow> Candidate list) \<Rightarrow> bytes list \<Rightarrow> (bytes \<Rightarrow> node_answer) \<Rightarrow> (bytes \<Rightarrow> bool) \<Rightarrow>
     Principal \<Rightarrow> (bytes \<times> bytes) list \<Rightarrow> (bytes \<Rightarrow> int) option \<Rightarrow> CreateSandboxRequest \<Rightarrow> ((create_fail, bytes \<times> bytes) result \<times> bytes list) option" where
  "createSpread k rnd e g unlisted claimed q usage fl cands known ask recorded p extra spread req =
    (case prepare e p extra spread req of
       Inl f \<Rightarrow> Some (Inl f, [])
     | Inr (req1, w) \<Rightarrow>
         if rq_Name req1 \<noteq> [] \<and> claim_key (sandbox_key p (rq_Name req1)) claimed = None then Some (Inl (failWith conflict), [])
         else case (if rq_Name req1 = [] then None else name_check g p None (rq_Name req1)) of
           Some NameTaken \<Rightarrow> Some (Inl (failWith conflict), [])
         | Some (NotListed err) \<Rightarrow> Some (Inl (unlisted err), [])
         | None \<Rightarrow>
             (case reserve_quota rnd q usage (want_size w) 1 fl of
                None \<Rightarrow> Some (Inl (transientFail (403, ''refused'')), [])
              | Some _ \<Rightarrow> create_loop k rnd cands known ask recorded w (rq_Name req1) [] None))"

section \<open>A create ends\<close>

lemma Schedule_name: "Schedule rnd cands w = Inr n \<Longrightarrow> n \<notin> set (w_Exclude w) \<and> (w_Node w = [] \<or> n = w_Node w)"
  using Schedule_chosen [of rnd cands w n] by (auto simp: chosen_def fits_def taking_def)

lemma Fallback_name: "Fallback cands tried w = Some n \<Longrightarrow> n \<notin> set tried"
  using Fallback_nearest by blast

lemma place_known:
  assumes "place rnd cands known w tried = Inr (n, res)"
  shows "n \<in> set known" "w_Node w \<noteq> [] \<Longrightarrow> n = w_Node w" "w_Node w = [] \<Longrightarrow> n \<notin> set tried"
  using assms Schedule_name [of rnd cands "w\<lparr>w_Exclude := tried\<rparr>" n] Fallback_name [of cands tried "w\<lparr>w_Exclude := tried\<rparr>" n]
  by (auto simp: place_def Let_def split: sum.split_asm sched_error.split_asm option.split_asm if_split_asm)

text \<open>A node that did not make a sandbox: the request was never sent, or it refused.\<close>

fun passed :: "node_answer \<Rightarrow> bool" where
  "passed (Unanswered never_sent) = never_sent"
| "passed (RefusedBy r) = True"
| "passed _ = False"

lemma create_loop_ends:
  assumes "length known < length tried + k" "set tried \<subseteq> set known" "distinct tried" "\<forall>m \<in> set tried. passed (ask m)"
  shows "\<exists>r asked. create_loop k rnd cands known ask recorded w name tried refused = Some (r, asked) \<and> set asked \<subseteq> set known \<and>
    (w_Node w = [] \<longrightarrow> distinct asked) \<and> (w_Node w \<noteq> [] \<longrightarrow> asked = tried \<or> asked = tried @ [w_Node w]) \<and>
    (\<forall>m \<in> set (butlast asked). passed (ask m)) \<and>
    (\<forall>n sid. r = Inr (n, sid) \<longrightarrow> asked \<noteq> [] \<and> last asked = n \<and> ask n = MadeAs sid)"
  using assms
proof (induction k arbitrary: tried refused)
  case 0
  then have "card (set tried) \<le> length known" by (metis card_length card_mono finite_set le_trans)
  then show ?case using 0 by (simp add: distinct_card)
next
  case (Suc k)
  show ?case
  proof (cases "place rnd (cands tried) known w tried")
    case (Inl err)
    then show ?thesis using Suc.prems by (auto dest: in_set_butlastD)
  next
    case (Inr x)
    then obtain n res where pl: "place rnd (cands tried) known w tried = Inr (n, res)" by (cases x) auto
    note n = place_known [OF pl]
    show ?thesis
    proof (cases "w_Node w = []")
      case True
      have IH: "\<exists>r asked. create_loop k rnd cands known ask recorded w name (tried @ [n]) refused' = Some (r, asked) \<and> set asked \<subseteq> set known \<and>
        distinct asked \<and> (\<forall>m \<in> set (butlast asked). passed (ask m)) \<and>
        (\<forall>m sid. r = Inr (m, sid) \<longrightarrow> asked \<noteq> [] \<and> last asked = m \<and> ask m = MadeAs sid)" if "passed (ask n)" for refused'
        using that Suc.IH [of "tried @ [n]" refused'] Suc.prems n True by auto
      show ?thesis
        using pl True n Suc.prems IH [of refused] IH [of "Some (failWith r)" for r]
        by (cases "ask n") (auto split: if_split)
    next
      case False
      then show ?thesis using pl n Suc.prems by (cases "ask n") (auto split: if_split)
    qed
  qed
qed

text \<open>
  C13: A create ends whatever its nodes answer and however the fleet changes meanwhile: after as many tries as
  there are nodes there is an answer, and no node is asked twice. Before another node is asked, the one before it
  refused or never saw the request, and a sandbox returned is the last node's: a create makes at most one. A request that is
  refused by the gateway's own checks, by a name in use or by the quota asks no node at all.
\<close>

theorem create_asks_each_node_once:
  assumes "length known < k"
  shows "\<exists>r asked. createSpread k rnd e g unlisted claimed q usage fl cands known ask recorded p extra spread req = Some (r, asked) \<and>
    distinct asked \<and> set asked \<subseteq> set known \<and> (\<forall>m \<in> set (butlast asked). passed (ask m)) \<and>
    (\<forall>n sid. r = Inr (n, sid) \<longrightarrow> asked \<noteq> [] \<and> last asked = n \<and> ask n = MadeAs sid) \<and>
    (asked \<noteq> [] \<longrightarrow> (\<exists>req1 w. prepare e p extra spread req = Inr (req1, w) \<and> (w_Node w \<noteq> [] \<longrightarrow> asked = [w_Node w]) \<and>
       (rq_Name req1 \<noteq> [] \<longrightarrow> sandbox_key p (rq_Name req1) \<notin> set claimed \<and> name_check g p None (rq_Name req1) = None) \<and>
       reserve_quota rnd q usage (want_size w) 1 fl \<noteq> None))"
proof (cases "prepare e p extra spread req")
  case (Inl f)
  then show ?thesis by (simp add: createSpread_def)
next
  case (Inr x)
  then obtain req1 w where x: "prepare e p extra spread req = Inr (req1, w)" by (cases x) auto
  obtain r asked where r: "create_loop k rnd cands known ask recorded w (rq_Name req1) [] None = Some (r, asked)" "set asked \<subseteq> set known"
    "distinct asked" "w_Node w \<noteq> [] \<longrightarrow> asked = [] \<or> asked = [w_Node w]" "\<forall>m \<in> set (butlast asked). passed (ask m)"
    "\<forall>n sid. r = Inr (n, sid) \<longrightarrow> asked \<noteq> [] \<and> last asked = n \<and> ask n = MadeAs sid"
    using create_loop_ends [of known "[]" k ask rnd cands recorded w "rq_Name req1" None] assms by (cases "w_Node w = []") fastforce+
  show ?thesis
    using x r by (auto simp: createSpread_def claim_key_def split: option.split name_error.split)
qed

section \<open>A create uses only what is its owner's\<close>

lemma addRegistryLogin_keeps:
  "addRegistryLogin login req w = Inr (req', w') \<Longrightarrow> rq_SnapshotID req' = rq_SnapshotID req \<and> rq_Volumes req' = rq_Volumes req \<and>
    rq_SnapshotEverySecs req' = rq_SnapshotEverySecs req \<and> w_Node w' = w_Node w"
  by (auto simp: addRegistryLogin_def split: if_split_asm option.split_asm)

lemma prepare_pinned:
  assumes "prepare e p extra spread req = Inr (req', w)"
  shows "\<exists>w0 w1. pin e p req' w0 = Inr w1 \<and> w_Node w0 = [] \<and> w_Node w = w_Node w1"
proof -
  obtain req1 req2 w' w1 where st: "addRegistryLogin (ce_login e) req1 (want_of e spread req1) = Inr (req2, w')"
    "pin e p req' (want_network req' w') = Inr w1" "w = want_rest e req' w1"
    using assms by (auto simp: prepare_def Let_def split: prod.split_asm)
  have "w_Node (want_network req' w') = []"
    using addRegistryLogin_keeps [OF st(1)] by (auto simp: want_network_def add_cap_def want_of_def split: option.split)
  moreover have "w_Node (want_rest e req' w1) = w_Node w1" by (simp add: want_rest_def add_cap_def Let_def)
  ultimately show ?thesis using st by auto
qed

lemma pin_volumes_own:
  "pin_volumes owner p ms w = Inr w' \<Longrightarrow> (\<forall>m \<in> set ms. \<exists>o'. owner (vm_Name m) = Some (Some o') \<and> mayAct p o' \<and> (ow_Node o' = [] \<or> ow_Node o' = w_Node w')) \<and>
    (w_Node w \<noteq> [] \<longrightarrow> w_Node w' = w_Node w)"
proof (induction ms arbitrary: w)
  case (Cons m ms)
  then obtain o' where o': "owner (vm_Name m) = Some (Some o')" "mayAct p o'" "w_Node w = [] \<or> ow_Node o' = w_Node w"
    "pin_volumes owner p ms (w\<lparr>w_Node := ow_Node o'\<rparr>) = Inr w'" by (auto split: option.split_asm if_split_asm)
  from Cons.IH [OF this(4)] show ?case using o' by auto
qed simp

lemma create_check_steps:
  assumes "create_check cf snaps known export req sid = Inr (req1, bs)"
  shows "\<exists>req2 s. (if rq_SnapshotID req = [] then Inr (req\<lparr>rq_RegistryLogin := None\<rparr>)
      else if \<not> canSnapshot (cf_caps cf) then Inl unsupported else fromSnapshot snaps (req\<lparr>rq_RegistryLogin := None\<rparr>)) = Inr req2 \<and>
    Resolve (cf_lower cf) req2 (cf_Policy cf) sid = Inr s \<and> bs = s\<lparr>sp_FromSnapshot := rq_SnapshotID req2\<rparr> \<and>
    scheduleRefusal cf (sp_SnapshotEverySecs bs) (sp_Volumes bs) = None \<and>
    (sp_Volumes bs = [] \<or> sp_FromSnapshot bs = [] \<and> volumesExist cf known (sp_Volumes bs) = None)"
proof -
  have r: "(case x of Inl e \<Rightarrow> Inl (spec_refusal e) | Inr s \<Rightarrow> Inr s) = Inr (s :: Spec) \<longleftrightarrow> x = Inr s" for x s by (cases x) auto
  have v: "(if a then None else if b then Some invalid else x) = None \<longleftrightarrow> a \<or> \<not> b \<and> x = None" for a b x by simp
  show ?thesis
    using assms unfolding create_check_def Let_def unless_err_Inr and_then_Inr r v sum.inject prod.inject
    apply (elim conjE exE)
    subgoal for x y by (intro exI [of _ x] exI [of _ y] conjI; hypsubst; simp)
    done
qed

lemma create_check_keeps:
  assumes "create_check cf snaps known export req sid = Inr (req1, bs)"
  shows "sp_FromSnapshot bs = rq_SnapshotID req" "sp_Volumes bs = rq_Volumes req"
    "sp_FromSnapshot bs \<noteq> [] \<Longrightarrow> canSnapshot (cf_caps cf)"
    "sp_Volumes bs \<noteq> [] \<Longrightarrow> sp_FromSnapshot bs = [] \<and> rq_SnapshotEverySecs req \<le> 0 \<and> cf_caps cf ''volumes''"
proof -
  have from_keeps: "fromSnapshot snaps r = Inr r' \<Longrightarrow> rq_SnapshotID r' = rq_SnapshotID r \<and> rq_Volumes r' = rq_Volumes r \<and>
      rq_SnapshotEverySecs r' = rq_SnapshotEverySecs r" for r r'
    by (auto simp: fromSnapshot_def split: option.split_asm if_split_asm)
  obtain req2 s where st: "(if rq_SnapshotID req = [] then Inr (req\<lparr>rq_RegistryLogin := None\<rparr>)
      else if \<not> canSnapshot (cf_caps cf) then Inl unsupported else fromSnapshot snaps (req\<lparr>rq_RegistryLogin := None\<rparr>)) = Inr req2"
    "Resolve (cf_lower cf) req2 (cf_Policy cf) sid = Inr s" "bs = s\<lparr>sp_FromSnapshot := rq_SnapshotID req2\<rparr>"
    "scheduleRefusal cf (sp_SnapshotEverySecs bs) (sp_Volumes bs) = None"
    "sp_Volumes bs = [] \<or> sp_FromSnapshot bs = [] \<and> volumesExist cf known (sp_Volumes bs) = None"
    using create_check_steps [OF assms] by blast
  have r2: "rq_SnapshotID req2 = rq_SnapshotID req" "rq_Volumes req2 = rq_Volumes req" "rq_SnapshotEverySecs req2 = rq_SnapshotEverySecs req"
    using st(1) from_keeps [of "req\<lparr>rq_RegistryLogin := None\<rparr>" req2] by (auto split: if_split_asm)
  have s: "sp_Volumes s = rq_Volumes req2" "rq_SnapshotEverySecs req2 > 0 \<Longrightarrow> sp_SnapshotEverySecs s = rq_SnapshotEverySecs req2"
    using st(2) by (auto simp: Resolve_def Let_def base_spec_def ResolveSchedule_def split: if_split_asm)
  show "sp_FromSnapshot bs = rq_SnapshotID req" "sp_Volumes bs = rq_Volumes req" using st(3) r2 s by simp_all
  show "sp_FromSnapshot bs \<noteq> [] \<Longrightarrow> canSnapshot (cf_caps cf)" using st(1,3) r2(1) by (auto split: if_split_asm)
  show "sp_Volumes bs \<noteq> [] \<Longrightarrow> sp_FromSnapshot bs = [] \<and> rq_SnapshotEverySecs req \<le> 0 \<and> cf_caps cf ''volumes''"
    using st(3-5) s(2) r2(3) by (auto simp: scheduleRefusal_def volumesExist_def volumeStore_def not_le [symmetric] split: if_split_asm)
qed

text \<open>
  C10: The gateway's checks and the node's together. A sandbox that comes out of a create mounts only volumes of its caller, in the tenant the
  request acts in, and starts only from a snapshot of its caller, and it is on the node that holds them; unless none of the nodes the gateway
  saw when it checked had volumes, or snapshots, for then it leaves its check out and expects the node to refuse (\<open>recovered_node_mounts\<close>). A
  recorded owner names a node.
\<close>

theorem created_from_own_parts:
  assumes prep: "prepare e p extra spread req = Inr (req', w)" and pl: "place rnd cands known w tried = Inr (n, room)"
    and node: "create_check cf snaps vols export req' sid = Inr (req1, bs)"
    and owners: "\<And>v o'. ce_VolumeOwner e v = Some (Some o') \<Longrightarrow> ow_Node o' \<noteq> []" "\<And>v o'. ce_SnapshotOwner e v = Some o' \<Longrightarrow> ow_Node o' \<noteq> []"
  shows "(\<forall>m \<in> set (sp_Volumes bs). \<not> anyNodeHas (ce_cands e) ''volumes'' \<or>
      (\<exists>o'. ce_VolumeOwner e (vm_Name m) = Some (Some o') \<and> ow_User o' = pp_User p \<and> ow_Tenant o' = pp_Tenant p \<and> ow_Node o' = n)) \<and>
    (sp_FromSnapshot bs \<noteq> [] \<longrightarrow> \<not> (anyNodeHas (ce_cands e) ''memory_snapshot'' \<or> anyNodeHas (ce_cands e) ''disk_snapshot'') \<or>
      (\<exists>o'. ce_SnapshotOwner e (sp_FromSnapshot bs) = Some o' \<and> ow_User o' = pp_User p \<and> ow_Tenant o' = pp_Tenant p \<and> ow_Node o' = n))"
proof -
  obtain w0 w1 where pin: "pin e p req' w0 = Inr w1" "w_Node w0 = []" "w_Node w = w_Node w1" using prepare_pinned [OF prep] by auto
  note nd = create_check_keeps [OF node] and n = place_known(2) [OF pl]
  have snap: "\<exists>o'. ce_SnapshotOwner e (sp_FromSnapshot bs) = Some o' \<and> ow_User o' = pp_User p \<and> ow_Tenant o' = pp_Tenant p \<and> ow_Node o' = n"
    if s: "sp_FromSnapshot bs \<noteq> []" "anyNodeHas (ce_cands e) ''memory_snapshot'' \<or> anyNodeHas (ce_cands e) ''disk_snapshot''"
  proof -
    obtain o' where "ce_SnapshotOwner e (rq_SnapshotID req') = Some o'" "mayAct p o'" "w_Node w1 = ow_Node o'"
      using pin(1) s nd(1) by (auto simp: pin_def split: option.split_asm if_split_asm)
    then show ?thesis using nd(1) n pin(3) owners(2) by (auto simp: mayAct_def)
  qed
  have vols: "\<exists>o'. ce_VolumeOwner e (vm_Name m) = Some (Some o') \<and> ow_User o' = pp_User p \<and> ow_Tenant o' = pp_Tenant p \<and> ow_Node o' = n"
    if m: "m \<in> set (sp_Volumes bs)" "anyNodeHas (ce_cands e) ''volumes''" for m
  proof -
    have v: "sp_Volumes bs \<noteq> []" using m by auto
    obtain w2 where w2: "pin_volumes (ce_VolumeOwner e) p (rq_Volumes req') w0 = Inr w2" "w1 = add_cap ''volumes'' w2"
      using pin(1) nd(1,2) nd(4) [OF v] v m(2) by (auto simp: pin_def)
    then obtain o' where o': "ce_VolumeOwner e (vm_Name m) = Some (Some o')" "mayAct p o'" "ow_Node o' = [] \<or> ow_Node o' = w_Node w2"
      using pin_volumes_own [OF w2(1)] m(1) nd(2) by auto
    then have "ow_Node o' = w_Node w1" "ow_Node o' \<noteq> []" using owners(1) w2(2) by (auto simp: add_cap_def)
    then show ?thesis using o' n pin(3) by (auto simp: mayAct_def)
  qed
  show ?thesis using snap vols by blast
qed

text \<open>One node, with the volume the caller of \<open>demo_ask\<close> names on it.\<close>

definition demo_caller :: Principal where
  "demo_caller = \<lparr>pp_User = ''ann'', pp_Tenant = ''t'', pp_KeyTenant = ''t'', pp_KeyID = ''k'', pp_Scopes = [], pp_Sandbox = [], pp_Bound = False, pp_BoundOrg = []\<rparr>"

definition demo_candidate :: Candidate where
  "demo_candidate = (demo_node ''n1'' [] 8192)\<lparr>ca_Status := (ca_Status (demo_node ''n1'' [] 8192))\<lparr>st_caps := caps_of demo_cf
     \<lparr>fe_Audit = True, fe_usageReader = True, fe_imageStore = True, fe_canExport = True\<rparr>\<rparr>\<rparr>"

definition demo_env :: create_env where
  "demo_env = \<lparr>ce_cands = [demo_candidate], ce_fleet = Some 0, ce_CPUs = Fin 1, ce_MemoryMB = 512, ce_DiskMB = 0, ce_groups = Some [],
     ce_policy = Some None, ce_login = (\<lambda>_. Inr None), ce_secret = (\<lambda>_. Inl (failWith not_found)), ce_canon = (\<lambda>x. x),
     ce_VolumeOwner = (\<lambda>v. Some (if v = ''d'' then Some \<lparr>ow_User = ''ann'', ow_Tenant = ''t'', ow_Node = ''n1''\<rparr> else None)),
     ce_SnapshotOwner = (\<lambda>_. None)\<rparr>"

lemma demo_prepared:
  "result_holds (\<lambda>(req, w). req = demo_ask ''web'' [demo_mount] \<and> place Fin [demo_candidate] [''n1''] w [] = Inr (''n1'', True))
     (prepare demo_env demo_caller [] None (demo_ask ''web'' [demo_mount]))"
  by code_simp

theorem create_asks_each_node_once_witness:
  "\<exists>r asked. createSpread 2 Fin demo_env (names_view [] (newTombstones 10 60) 0 names0) (\<lambda>_. transientFail (internal 502)) []
       \<lparr>q_Sandboxes = 5, q_CPUs = Fin 0, q_MemoryMB = 0\<rparr> (Some no_usage) no_usage
       (\<lambda>_. [demo_candidate]) [''n1''] (\<lambda>_. MadeAs ''sbx_n1_0123456789abcdef'') (\<lambda>_. True) demo_caller [] None (demo_ask ''web'' [demo_mount]) = Some (r, asked) \<and>
     distinct asked \<and> asked = [''n1'']"
proof -
  let ?c = "createSpread 2 Fin demo_env (names_view [] (newTombstones 10 60) 0 names0) (\<lambda>_. transientFail (internal 502)) []
       \<lparr>q_Sandboxes = 5, q_CPUs = Fin 0, q_MemoryMB = 0\<rparr> (Some no_usage) no_usage
       (\<lambda>_. [demo_candidate]) [''n1''] (\<lambda>_. MadeAs ''sbx_n1_0123456789abcdef'') (\<lambda>_. True) demo_caller [] None (demo_ask ''web'' [demo_mount])"
  have "case ?c of None \<Rightarrow> False | Some (r, ns) \<Rightarrow> ns = [''n1'']" by code_simp
  moreover have "length [''n1''] < (2 :: nat)" by simp
  ultimately show ?thesis
    using create_asks_each_node_once [of "[''n1'']" 2 Fin demo_env "names_view [] (newTombstones 10 60) 0 names0" "\<lambda>_. transientFail (internal 502)" "[]"
      "\<lparr>q_Sandboxes = 5, q_CPUs = Fin 0, q_MemoryMB = 0\<rparr>" "Some no_usage" no_usage "\<lambda>_. [demo_candidate]" "\<lambda>_. MadeAs ''sbx_n1_0123456789abcdef''" "\<lambda>_. True"
      demo_caller "[]" None "demo_ask ''web'' [demo_mount]"] by fastforce
qed

theorem created_from_own_parts_witness:
  "\<exists>req' w req1 bs. prepare demo_env demo_caller [] None (demo_ask ''web'' [demo_mount]) = Inr (req', w) \<and>
     create_check demo_cf [] (Inr [''d'']) None req' ''a'' = Inr (req1, bs) \<and> sp_Volumes bs = [demo_mount] \<and>
     (\<exists>o'. ce_VolumeOwner demo_env ''d'' = Some (Some o') \<and> ow_User o' = ''ann'' \<and> ow_Node o' = ''n1'')"
proof -
  obtain w where w: "prepare demo_env demo_caller [] None (demo_ask ''web'' [demo_mount]) = Inr (demo_ask ''web'' [demo_mount], w)"
    "place Fin [demo_candidate] [''n1''] w [] = Inr (''n1'', True)"
    using demo_prepared unfolding result_holds_iff by auto
  obtain req1 bs where c: "create_check demo_cf [] (Inr [''d'']) None (demo_ask ''web'' [demo_mount]) ''a'' = Inr (req1, bs)"
    "sp_Volumes bs = [demo_mount]"
    using demo_checks(1) unfolding result_holds_iff asked_def by auto
  have own: "ce_VolumeOwner demo_env v = Some (Some o') \<Longrightarrow> ow_Node o' \<noteq> []" "ce_SnapshotOwner demo_env v = Some o' \<Longrightarrow> ow_Node o' \<noteq> []" for v o'
    by (auto simp: demo_env_def split: if_split_asm)
  have here: "anyNodeHas (ce_cands demo_env) ''volumes''" by code_simp
  have "\<exists>o'. ce_VolumeOwner demo_env (vm_Name demo_mount) = Some (Some o') \<and> ow_User o' = pp_User demo_caller \<and>
      ow_Tenant o' = pp_Tenant demo_caller \<and> ow_Node o' = ''n1''"
    using created_from_own_parts [OF w c(1) own] here c(2) by simp
  then show ?thesis using w c by (auto simp: demo_mount_def demo_caller_def)
qed

text \<open>
  A node that becomes healthy between the check and the placing: when the gateway checks, the one node it sees has no volumes and the
  owner of the volume is not looked at; the node it then places on has them, and mounts another user's.
\<close>

definition blind_env :: create_env where
  "blind_env = demo_env\<lparr>ce_cands := [demo_candidate\<lparr>ca_Name := ''n2'', ca_Status := (ca_Status demo_candidate)\<lparr>st_caps := (\<lambda>_. False)\<rparr>\<rparr>],
     ce_VolumeOwner := (\<lambda>v. Some (Some \<lparr>ow_User = ''bob'', ow_Tenant = ''t'', ow_Node = ''n1''\<rparr>))\<rparr>"

lemma recovered_node_mounts:
  "result_holds (\<lambda>(req, w). req = demo_ask ''web'' [demo_mount] \<and> place Fin [demo_candidate] [''n1'', ''n2''] w [] = Inr (''n1'', True) \<and>
     ce_VolumeOwner blind_env (vm_Name demo_mount) = Some (Some \<lparr>ow_User = ''bob'', ow_Tenant = ''t'', ow_Node = ''n1''\<rparr>) \<and> pp_User demo_caller = ''ann'')
     (prepare blind_env demo_caller [] None (demo_ask ''web'' [demo_mount]))"
  "result_holds (asked ''web'' [demo_mount] ''a'') (create_check demo_cf [] (Inr [''d'']) None (demo_ask ''web'' [demo_mount]) ''a'')"
  by (code_simp, rule demo_checks)

section \<open>Lifetimes under a policy\<close>

text \<open>
  What a node makes of a lifetime: where the node has a bound, or the request left the gateway with a lifetime,
  the sandbox lives no longer than the caller's policy says.
\<close>

lemma lifetime_policy_held:
  assumes "applyPolicyLifetime (Some (Some pol)) fleet req = Inr req'" and "0 < up_MaxLifetimeSecs pol"
    and "resolve_lifetime (rq_LifetimeSecs req') limits = Inr life"
    and "rq_LifetimeSecs req' \<noteq> 0 \<or> 0 < l_MaxLifetimeSecs limits \<and> (\<forall>b. fleet = Some b \<longrightarrow> l_MaxLifetimeSecs limits = b)"
  shows "0 < life \<and> life \<le> up_MaxLifetimeSecs pol"
  using assms by (auto simp: applyPolicyLifetime_def resolve_lifetime_def Let_def split: if_split_asm option.split_asm)

text \<open>
  The bound of the fleet is its strictest node's. Where it is stricter than the policy's the request goes on with
  no lifetime, and a node that has no bound of its own then gives none: the sandbox outlives the policy.
\<close>

lemma lifetime_policy_escaped:
  assumes "rq_LifetimeSecs req = 0" and "0 < b" and "b < up_MaxLifetimeSecs pol" and "l_MaxLifetimeSecs limits = 0"
  shows "applyPolicyLifetime (Some (Some pol)) (Some (stricter 0 b)) req = Inr req \<and> resolve_lifetime (rq_LifetimeSecs req) limits = Inr 0"
  using assms by (simp add: applyPolicyLifetime_def resolve_lifetime_def Let_def stricter_def)

end
