(* ===== verification/Gateway_Nodes.thy ===== *)
theory Gateway_Nodes
  imports Gateway_Schedule
begin

text \<open>
  The gateway's view of a node (\<open>internal/gateway/nodes.go\<close>): its health, the status it last reported and the
  sandboxes placed on it since, which that status may not show. A node's polls, the creates on it and the
  room they take are then followed together with what the node really has.
\<close>

section \<open>A node as the gateway keeps it\<close>

text \<open>Placements are a map from pointers; the list is the order a range over it happens to take.\<close>

record placement =
  pm_res :: NodeResources
  pm_sent :: int
  pm_done :: "int option"
  pm_id :: bytes

record gnode =
  gn_Name :: bytes
  gn_healthy :: bool
  gn_fails :: int
  gn_status :: "NodeStatus option"
  gn_placed :: "(nat \<times> placement) list"
  gn_heldFree :: int
  gn_wantCordon :: bool

definition newNode :: "bytes \<Rightarrow> gnode" where
  "newNode name = \<lparr>gn_Name = name, gn_healthy = False, gn_fails = 0, gn_status = None, gn_placed = [], gn_heldFree = 0, gn_wantCordon = False\<rparr>"

definition add_res :: "(rat \<Rightarrow> f64) \<Rightarrow> NodeResources \<Rightarrow> NodeResources \<Rightarrow> NodeResources" where
  "add_res rnd a b = \<lparr>nr_CPUs = f_add rnd (nr_CPUs a) (nr_CPUs b), nr_MemoryMB = i64 (nr_MemoryMB a + nr_MemoryMB b),
     nr_DiskMB = i64 (nr_DiskMB a + nr_DiskMB b), nr_GPUs = i64 (nr_GPUs a + nr_GPUs b)\<rparr>"

definition zero_res :: NodeResources where
  "zero_res = \<lparr>nr_CPUs = Fin 0, nr_MemoryMB = 0, nr_DiskMB = 0, nr_GPUs = 0\<rparr>"

definition candidate :: "(rat \<Rightarrow> f64) \<Rightarrow> gnode \<Rightarrow> Candidate option" where
  "candidate rnd n = (case gn_status n of
      None \<Rightarrow> None
    | Some st \<Rightarrow> if \<not> gn_healthy n then None
        else Some \<lparr>ca_Name = gn_Name n, ca_Status = st\<lparr>st_Cordoned := st_Cordoned st \<or> gn_wantCordon n\<rparr>,
          ca_Reserved = foldl (\<lambda>r (_, p). add_res rnd r (pm_res p)) zero_res (gn_placed n)\<rparr>)"

definition reserve :: "nat \<Rightarrow> NodeResources \<Rightarrow> int \<Rightarrow> gnode \<Rightarrow> gnode" where
  "reserve p res now n = n\<lparr>gn_placed := gn_placed n @ [(p, \<lparr>pm_res = res, pm_sent = now, pm_done = None, pm_id = []\<rparr>)]\<rparr>"

definition on_placement :: "nat \<Rightarrow> (placement \<Rightarrow> placement) \<Rightarrow> gnode \<Rightarrow> gnode" where
  "on_placement p f n = n\<lparr>gn_placed := map (\<lambda>(q, pl). (q, if q = p then f pl else pl)) (gn_placed n)\<rparr>"

definition finish :: "nat \<Rightarrow> bool \<Rightarrow> int \<Rightarrow> gnode \<Rightarrow> gnode" where
  "finish p created now n =
    (if \<not> created then n\<lparr>gn_placed := filter (\<lambda>(q, _). q \<noteq> p) (gn_placed n)\<rparr>
     else on_placement p (\<lambda>pl. pl\<lparr>pm_done := Some now\<rparr>) n)"

definition created :: "nat \<Rightarrow> bytes \<Rightarrow> int \<Rightarrow> gnode \<Rightarrow> gnode" where
  "created p sid now n = finish p True now (on_placement p (\<lambda>pl. pl\<lparr>pm_id := sid\<rparr>) n)"

text \<open>\<open>released\<close>: of several placements with the id, the range drops whichever comes first.\<close>

definition released :: "bytes \<Rightarrow> NodeResources \<Rightarrow> nat \<Rightarrow> int \<Rightarrow> gnode \<Rightarrow> gnode" where
  "released sid res fresh now n = (case find (\<lambda>(_, pl). pm_id pl = sid) (gn_placed n) of
      Some (p, _) \<Rightarrow> n\<lparr>gn_placed := filter (\<lambda>(q, _). q \<noteq> p) (gn_placed n)\<rparr>
    | None \<Rightarrow> n\<lparr>gn_placed := gn_placed n @ [(fresh, \<lparr>pm_res = \<lparr>nr_CPUs = f_neg (nr_CPUs res), nr_MemoryMB = i64 (- nr_MemoryMB res),
        nr_DiskMB = i64 (- nr_DiskMB res), nr_GPUs = 0\<rparr>, pm_sent = now, pm_done = Some now, pm_id = sid\<rparr>)]\<rparr>)"

definition maxHeldFree :: int where
  "maxHeldFree = 10"

text \<open>\<open>poll\<close>: an error or an answer under another node's name counts against it; \<open>asked\<close> is when it was asked.\<close>

definition poll_failed :: "int \<Rightarrow> bool \<Rightarrow> gnode \<Rightarrow> gnode" where
  "poll_failed failAfter misnamed n =
    (let f = (if misnamed then failAfter else gn_fails n) + 1 in
     n\<lparr>gn_fails := f, gn_healthy := gn_healthy n \<and> f < failAfter\<rparr>)"

definition before :: "int option \<Rightarrow> int \<Rightarrow> bool" where
  "before t asked = (case t of None \<Rightarrow> False | Some d \<Rightarrow> d < asked)"

definition poll_ok :: "int \<Rightarrow> NodeStatus \<Rightarrow> gnode \<Rightarrow> gnode" where
  "poll_ok asked st n =
    (let n1 = n\<lparr>gn_healthy := True, gn_fails := 0\<rparr>;
         ambiguous = list_ex (\<lambda>(_, pl). pm_sent pl < asked \<and> \<not> before (pm_done pl) asked) (gn_placed n1)
     in case gn_status n1 of
          Some old \<Rightarrow>
            if ambiguous \<and> gn_heldFree n1 < maxHeldFree
            then n1\<lparr>gn_heldFree := gn_heldFree n1 + 1, gn_status := Some (st\<lparr>st_Free := st_Free old\<rparr>)\<rparr>
            else n1\<lparr>gn_heldFree := 0, gn_status := Some st, gn_placed := filter (\<lambda>(_, pl). \<not> before (pm_done pl) asked) (gn_placed n1)\<rparr>
        | None \<Rightarrow> n1\<lparr>gn_heldFree := 0, gn_status := Some st,
            gn_placed := filter (\<lambda>(_, pl). \<not> before (pm_done pl) asked) (gn_placed n1)\<rparr>)"

definition poll :: "int \<Rightarrow> int \<Rightarrow> NodeStatus option \<Rightarrow> gnode \<Rightarrow> gnode" where
  "poll failAfter asked answer n = (case answer of
      None \<Rightarrow> poll_failed failAfter False n
    | Some st \<Rightarrow> if st_Node st \<noteq> [] \<and> st_Node st \<noteq> gn_Name n then poll_failed failAfter True n else poll_ok asked st n)"

section \<open>Room on a node\<close>

text \<open>
  A node and the sandboxes on their way to it. \<open>ro_live\<close> are those sent and not refused, \<open>ro_counted\<close> those the
  node has registered, so that its own account shows them; a status answers with what its account
  leaves of its memory. Sandboxes that end are not followed here: \<open>released\<close> says what it may count twice. Nor is a
  create whose answer is lost: its room is given back although the node may have made the sandbox.
\<close>

record room =
  ro_node :: gnode
  ro_clock :: int
  ro_cap :: int
  ro_mem :: "nat \<Rightarrow> int"
  ro_live :: "nat list"
  ro_counted :: "nat list"
  ro_poll :: "(int \<times> NodeStatus option) option"

definition mem_of :: "room \<Rightarrow> nat list \<Rightarrow> int" where
  "mem_of s ps = (\<Sum>p \<in> set ps. ro_mem s p)"

definition in_flight :: "room \<Rightarrow> nat \<Rightarrow> bool" where
  "in_flight s p \<longleftrightarrow> (\<exists>pl. (p, pl) \<in> set (gn_placed (ro_node s)) \<and> pm_done pl = None)"

inductive rstep :: "(rat \<Rightarrow> f64) \<Rightarrow> int \<Rightarrow> room \<Rightarrow> room \<Rightarrow> bool" for rnd failAfter where
  r_place: "candidate rnd (ro_node s) = Some c \<Longrightarrow> c \<in> set cands \<Longrightarrow> distinct (map ca_Name cands) \<Longrightarrow>
    Schedule rnd cands w = Inr (ca_Name c) \<Longrightarrow>
    0 \<le> w_MemoryMB w \<Longrightarrow> nr_MemoryMB res = w_MemoryMB w \<Longrightarrow> p \<notin> set (ro_live s) \<Longrightarrow>
    p \<notin> fst ` set (gn_placed (ro_node s)) \<Longrightarrow>
    rstep rnd failAfter s (s\<lparr>ro_node := reserve p res (ro_clock s) (ro_node s), ro_mem := (ro_mem s)(p := w_MemoryMB w),
      ro_live := p # ro_live s\<rparr>)"
| r_register: "p \<in> set (ro_live s) \<Longrightarrow> in_flight s p \<Longrightarrow> p \<notin> set (ro_counted s) \<Longrightarrow>
    rstep rnd failAfter s (s\<lparr>ro_counted := p # ro_counted s\<rparr>)"
| r_unregister: "p \<in> set (ro_live s) \<Longrightarrow> in_flight s p \<Longrightarrow> rstep rnd failAfter s (s\<lparr>ro_counted := filter (\<lambda>q. q \<noteq> p) (ro_counted s)\<rparr>)"
| r_created: "p \<in> set (ro_counted s) \<Longrightarrow> in_flight s p \<Longrightarrow>
    rstep rnd failAfter s (s\<lparr>ro_node := created p sid (ro_clock s) (ro_node s)\<rparr>)"
| r_refused: "p \<notin> set (ro_counted s) \<Longrightarrow> in_flight s p \<Longrightarrow>
    rstep rnd failAfter s (s\<lparr>ro_node := finish p False (ro_clock s) (ro_node s), ro_live := filter (\<lambda>q. q \<noteq> p) (ro_live s)\<rparr>)"
| r_ask: "ro_poll s = None \<Longrightarrow> rstep rnd failAfter s (s\<lparr>ro_poll := Some (ro_clock s, None)\<rparr>)"
| r_status: "ro_poll s = Some (asked, None) \<Longrightarrow> nr_MemoryMB (st_Free st) = max 0 (ro_cap s - mem_of s (ro_counted s)) \<Longrightarrow>
    rstep rnd failAfter s (s\<lparr>ro_poll := Some (asked, Some st)\<rparr>)"
| r_answer: "ro_poll s = Some (asked, Some st) \<Longrightarrow> st_Node st = [] \<or> st_Node st = gn_Name (ro_node s) \<Longrightarrow>
    rstep rnd failAfter s (s\<lparr>ro_node := poll failAfter asked (Some st) (ro_node s), ro_poll := None\<rparr>)"
| r_lost: "ro_poll s = Some (asked, x) \<Longrightarrow>
    rstep rnd failAfter s (s\<lparr>ro_node := poll failAfter asked None (ro_node s), ro_poll := None\<rparr>)"
| r_cordon: "rstep rnd failAfter s (s\<lparr>ro_node := (ro_node s)\<lparr>gn_wantCordon := b\<rparr>\<rparr>)"
| r_time: "d \<ge> 0 \<Longrightarrow> rstep rnd failAfter s (s\<lparr>ro_clock := ro_clock s + d\<rparr>)"

definition room_init :: "room \<Rightarrow> bool" where
  "room_init s \<longleftrightarrow> (\<exists>name t cap. 0 \<le> cap \<and> cap < 2 ^ 63 \<and>
     s = \<lparr>ro_node = newNode name, ro_clock = t, ro_cap = cap, ro_mem = (\<lambda>_. 0), ro_live = [], ro_counted = [], ro_poll = None\<rparr>)"

text \<open>The sandboxes a status taken after \<open>asked\<close> is sure to show: those no longer held as placements, or done before.\<close>

definition settled :: "gnode \<Rightarrow> int \<Rightarrow> nat \<Rightarrow> bool" where
  "settled n asked p \<longleftrightarrow> (\<forall>pl. (p, pl) \<in> set (gn_placed n) \<longrightarrow> before (pm_done pl) asked)"

definition unheld :: "gnode \<Rightarrow> nat \<Rightarrow> bool" where
  "unheld n p \<longleftrightarrow> p \<notin> fst ` set (gn_placed n)"

definition shape_ok :: "room \<Rightarrow> bool" where
  "shape_ok s \<longleftrightarrow> 0 \<le> ro_cap s \<and> ro_cap s < 2 ^ 63 \<and> distinct (map fst (gn_placed (ro_node s))) \<and>
     fst ` set (gn_placed (ro_node s)) \<subseteq> set (ro_live s) \<and> set (ro_counted s) \<subseteq> set (ro_live s) \<and>
     (\<forall>p \<in> set (ro_live s). 0 \<le> ro_mem s p) \<and>
     (\<forall>p pl. (p, pl) \<in> set (gn_placed (ro_node s)) \<longrightarrow> nr_MemoryMB (pm_res pl) = ro_mem s p \<and>
        (\<forall>d. pm_done pl = Some d \<longrightarrow> p \<in> set (ro_counted s) \<and> d \<le> ro_clock s)) \<and>
     (\<forall>p \<in> set (ro_live s). unheld (ro_node s) p \<longrightarrow> p \<in> set (ro_counted s)) \<and>
     (\<forall>asked st. ro_poll s = Some (asked, st) \<longrightarrow> asked \<le> ro_clock s)"

definition account_ok :: "room \<Rightarrow> bool" where
  "account_ok s \<longleftrightarrow> mem_of s (ro_live s) \<le> ro_cap s \<and>
     (\<forall>st. gn_status (ro_node s) = Some st \<longrightarrow> 0 \<le> nr_MemoryMB (st_Free st) \<and>
        nr_MemoryMB (st_Free st) + mem_of s (filter (unheld (ro_node s)) (ro_live s)) \<le> ro_cap s) \<and>
     (\<forall>asked st. ro_poll s = Some (asked, Some st) \<longrightarrow> 0 \<le> nr_MemoryMB (st_Free st) \<and>
        nr_MemoryMB (st_Free st) + mem_of s (filter (settled (ro_node s) asked) (ro_live s)) \<le> ro_cap s)"

definition room_ok :: "room \<Rightarrow> bool" where
  "room_ok s \<longleftrightarrow> shape_ok s \<and> account_ok s"

lemma mem_mono:
  assumes "shape_ok s" "set xs \<subseteq> set ys" "set ys \<subseteq> set (ro_live s)"
  shows "mem_of s xs \<le> mem_of s ys"
  unfolding mem_of_def using assms by (intro sum_mono2) (auto simp: shape_ok_def)

lemma mem_nonneg: "shape_ok s \<Longrightarrow> set xs \<subseteq> set (ro_live s) \<Longrightarrow> 0 \<le> mem_of s xs"
  using mem_mono [of s "[]" xs] by (simp add: mem_of_def)

lemma mem_cong: "set xs = set ys \<Longrightarrow> (\<And>p. p \<in> set ys \<Longrightarrow> ro_mem s p = ro_mem t p) \<Longrightarrow> mem_of s xs = mem_of t ys"
  unfolding mem_of_def by (rule sum.cong) auto

text \<open>What a node has reserved is the memory of its placements: no sum of them wraps.\<close>

lemma reserved_memory:
  assumes "\<forall>e \<in> set xs. 0 \<le> nr_MemoryMB (pm_res (snd e))" "0 \<le> nr_MemoryMB r"
    "nr_MemoryMB r + (\<Sum>e \<leftarrow> xs. nr_MemoryMB (pm_res (snd e))) < 2 ^ 63"
  shows "nr_MemoryMB (foldl (\<lambda>r (_, p). add_res rnd r (pm_res p)) r xs) = nr_MemoryMB r + (\<Sum>e \<leftarrow> xs. nr_MemoryMB (pm_res (snd e)))"
  using assms
proof (induction xs arbitrary: r)
  case (Cons x xs)
  obtain p pl where x: "x = (p, pl)" by (cases x)
  have pos: "0 \<le> nr_MemoryMB (pm_res pl)" "0 \<le> (\<Sum>e \<leftarrow> xs. nr_MemoryMB (pm_res (snd e)))"
    using Cons.prems(1) by (auto simp: x intro!: sum_list_nonneg)
  then have "nr_MemoryMB (add_res rnd r (pm_res pl)) = nr_MemoryMB r + nr_MemoryMB (pm_res pl)"
    using Cons.prems(2,3) by (simp add: add_res_def x i64_id in_i64_def)
  then show ?case using Cons.IH [of "add_res rnd r (pm_res pl)"] Cons.prems pos by (simp add: x)
qed simp

lemma placed_memory:
  assumes "shape_ok s"
  shows "(\<Sum>e \<leftarrow> gn_placed (ro_node s). nr_MemoryMB (pm_res (snd e))) = mem_of s (map fst (gn_placed (ro_node s)))"
proof -
  have "(\<Sum>e \<leftarrow> gn_placed (ro_node s). nr_MemoryMB (pm_res (snd e))) = (\<Sum>p \<leftarrow> map fst (gn_placed (ro_node s)). ro_mem s p)"
    using assms by (auto simp: shape_ok_def intro!: arg_cong [where f = sum_list])
  also have "\<dots> = mem_of s (map fst (gn_placed (ro_node s)))"
    unfolding mem_of_def using assms by (intro sum_list_distinct_conv_sum_set) (simp add: shape_ok_def)
  finally show ?thesis .
qed

lemma live_memory:
  assumes "shape_ok s"
  shows "mem_of s (ro_live s) = mem_of s (map fst (gn_placed (ro_node s))) + mem_of s (filter (unheld (ro_node s)) (ro_live s))"
proof -
  have "set (ro_live s) = fst ` set (gn_placed (ro_node s)) \<union> set (filter (unheld (ro_node s)) (ro_live s))"
    using assms by (auto simp: shape_ok_def unheld_def)
  moreover have "fst ` set (gn_placed (ro_node s)) \<inter> set (filter (unheld (ro_node s)) (ro_live s)) = {}"
    by (auto simp: unheld_def)
  ultimately show ?thesis unfolding mem_of_def by (metis List.finite_set list.set_map sum.union_disjoint)
qed

lemma chosen_has_room:
  assumes "Schedule rnd cands w = Inr (ca_Name c)" "c \<in> set cands" "distinct (map ca_Name cands)"
  shows "hasRoom rnd c w"
proof -
  obtain d where d: "chosen rnd w cands d" "ca_Name d = ca_Name c" using assms(1) by (rule Schedule_chosen)
  then have "d = c" using assms(2,3) by (auto simp: chosen_def distinct_map dest: inj_onD)
  then show ?thesis using d(1) by (simp add: chosen_def fits_def)
qed

lemma place_leaves_room:
  assumes ok: "room_ok s" and c: "candidate rnd (ro_node s) = Some c" and w: "hasRoom rnd c w" "0 \<le> w_MemoryMB w"
  shows "mem_of s (ro_live s) + w_MemoryMB w \<le> ro_cap s"
proof -
  let ?n = "ro_node s"
  have sh: "shape_ok s" and ac: "account_ok s" using ok by (simp_all add: room_ok_def)
  obtain st where st: "gn_status ?n = Some st" "ca_Status c = st\<lparr>st_Cordoned := st_Cordoned st \<or> gn_wantCordon ?n\<rparr>"
    "ca_Reserved c = foldl (\<lambda>r (_, p). add_res rnd r (pm_res p)) zero_res (gn_placed ?n)"
    using c by (auto simp: candidate_def split: option.split_asm if_split_asm)
  let ?held = "mem_of s (map fst (gn_placed ?n))"
  have cap: "ro_cap s < 2 ^ 63" and free: "0 \<le> nr_MemoryMB (st_Free st)"
    "nr_MemoryMB (st_Free st) + mem_of s (filter (unheld ?n) (ro_live s)) \<le> ro_cap s"
    using sh ac st(1) by (simp_all add: shape_ok_def account_ok_def)
  have un: "0 \<le> mem_of s (filter (unheld ?n) (ro_live s))" by (rule mem_nonneg [OF sh]) auto
  have held: "0 \<le> ?held" "?held \<le> ro_cap s"
    using live_memory [OF sh] un ac mem_nonneg [OF sh, of "map fst (gn_placed ?n)"] sh by (auto simp: account_ok_def shape_ok_def)
  have "nr_MemoryMB (ca_Reserved c) = ?held"
  proof -
    have "\<forall>e \<in> set (gn_placed ?n). 0 \<le> nr_MemoryMB (pm_res (snd e))"
      using sh unfolding shape_ok_def by fastforce
    from reserved_memory [OF this, of zero_res rnd] show ?thesis
      using held cap placed_memory [OF sh] by (simp add: st(3) zero_res_def)
  qed
  then have "w_MemoryMB w \<le> i64 (nr_MemoryMB (st_Free st) - ?held)"
    using w(1) by (auto simp: hasRoom_def free_on_def Let_def st(2) not_less split: if_split_asm)
  also have "\<dots> = nr_MemoryMB (st_Free st) - ?held" using free held un cap by (simp add: i64_id in_i64_def)
  finally show ?thesis using free live_memory [OF sh] by simp
qed

lemma settled_counted: "shape_ok s \<Longrightarrow> p \<in> set (ro_live s) \<Longrightarrow> settled (ro_node s) asked p \<Longrightarrow> p \<in> set (ro_counted s)"
proof -
  assume sh: "shape_ok s" and p: "p \<in> set (ro_live s)" "settled (ro_node s) asked p"
  show ?thesis
  proof (cases "unheld (ro_node s) p")
    case True
    then show ?thesis using sh p(1) by (simp add: shape_ok_def)
  next
    case False
    then obtain pl where pl: "(p, pl) \<in> set (gn_placed (ro_node s))" by (auto simp: unheld_def)
    then obtain d where "pm_done pl = Some d" using p(2) by (auto simp: settled_def before_def split: option.split_asm)
    then show ?thesis using sh pl by (auto simp: shape_ok_def)
  qed
qed

lemma in_flight_placement:
  assumes "shape_ok s" "in_flight s p"
  shows "(p, pl) \<in> set (gn_placed (ro_node s)) \<Longrightarrow> pm_done pl = None" "\<not> unheld (ro_node s) p" "\<not> settled (ro_node s) asked p"
    "p \<in> set (ro_live s)"
proof -
  obtain pl' where pl': "(p, pl') \<in> set (gn_placed (ro_node s))" "pm_done pl' = None" using assms(2) by (auto simp: in_flight_def)
  have d: "distinct (map fst (gn_placed (ro_node s)))" using assms(1) by (simp add: shape_ok_def)
  show "(p, pl) \<in> set (gn_placed (ro_node s)) \<Longrightarrow> pm_done pl = None"
    using eq_key_imp_eq_value [OF d pl'(1), of pl] pl'(2) by simp
  show "\<not> unheld (ro_node s) p" using pl'(1) by (force simp: unheld_def)
  show "\<not> settled (ro_node s) asked p" using pl' unfolding settled_def before_def by fastforce
  have "fst ` set (gn_placed (ro_node s)) \<subseteq> set (ro_live s)" using assms(1) by (simp add: shape_ok_def)
  then show "p \<in> set (ro_live s)" using pl'(1) by force
qed

text \<open>What the account depends on.\<close>

lemma account_cong:
  assumes "account_ok s" "ro_cap t = ro_cap s" "set (ro_live t) = set (ro_live s)" "\<And>p. p \<in> set (ro_live s) \<Longrightarrow> ro_mem t p = ro_mem s p"
    "gn_status (ro_node t) = gn_status (ro_node s)" "ro_poll t = ro_poll s \<or> (\<exists>a. ro_poll t = Some (a, None)) \<or> ro_poll t = None"
    "\<And>p. p \<in> set (ro_live s) \<Longrightarrow> unheld (ro_node t) p = unheld (ro_node s) p"
    "\<And>p asked st. p \<in> set (ro_live s) \<Longrightarrow> ro_poll t = Some (asked, Some st) \<Longrightarrow> settled (ro_node t) asked p = settled (ro_node s) asked p"
  shows "account_ok t"
proof -
  have "mem_of t (ro_live t) = mem_of s (ro_live s)" using assms(3,4) by (intro mem_cong) auto
  moreover have "mem_of t (filter (unheld (ro_node t)) (ro_live t)) = mem_of s (filter (unheld (ro_node s)) (ro_live s))"
    using assms(3,4,7) by (intro mem_cong) auto
  moreover have "mem_of t (filter (settled (ro_node t) asked) (ro_live t)) = mem_of s (filter (settled (ro_node s) asked) (ro_live s))"
    if "ro_poll t = Some (asked, Some st)" for asked st
    using assms(3,4) assms(8) [OF _ that] by (intro mem_cong) auto
  ultimately show ?thesis using assms(1,2,5,6) unfolding account_ok_def by auto
qed

lemma room_ok_place:
  assumes ok: "room_ok s" and c: "candidate rnd (ro_node s) = Some c" and w: "hasRoom rnd c w" "0 \<le> w_MemoryMB w"
    and res: "nr_MemoryMB res = w_MemoryMB w" and p: "p \<notin> set (ro_live s)"
  shows "room_ok (s\<lparr>ro_node := reserve p res t (ro_node s), ro_mem := (ro_mem s)(p := w_MemoryMB w), ro_live := p # ro_live s\<rparr>)"
    (is "room_ok ?s")
proof -
  have sh: "shape_ok s" and ac: "account_ok s" using ok by (simp_all add: room_ok_def)
  have new: "p \<notin> fst ` set (gn_placed (ro_node s))" using sh p by (auto simp: shape_ok_def)
  have held: "unheld (reserve p res t (ro_node s)) q = (unheld (ro_node s) q \<and> q \<noteq> p)"
    "settled (reserve p res t (ro_node s)) a q = (settled (ro_node s) a q \<and> q \<noteq> p)" for q a
    using new by (auto simp: unheld_def settled_def reserve_def before_def image_iff)
  have "shape_ok ?s"
    using sh new w(2) res p unfolding shape_ok_def by (auto simp: image_iff held) (auto simp: reserve_def image_iff)
  moreover have "account_ok ?s"
  proof -
    have e: "set (filter (unheld (ro_node ?s)) (ro_live ?s)) = set (filter (unheld (ro_node s)) (ro_live s))"
      "set (filter (settled (ro_node ?s) a) (ro_live ?s)) = set (filter (settled (ro_node s) a) (ro_live s))" for a
      using p by (auto simp: held)
    have "mem_of ?s (filter (unheld (ro_node ?s)) (ro_live ?s)) = mem_of s (filter (unheld (ro_node s)) (ro_live s))"
      by (rule mem_cong [OF e(1)]) (use p in auto)
    moreover have "mem_of ?s (filter (settled (ro_node ?s) a) (ro_live ?s)) = mem_of s (filter (settled (ro_node s) a) (ro_live s))" for a
      by (rule mem_cong [OF e(2)]) (use p in auto)
    moreover have "mem_of ?s (ro_live ?s) = w_MemoryMB w + mem_of s (ro_live s)"
    proof -
      have "(\<Sum>q \<in> set (ro_live s). if q = p then w_MemoryMB w else ro_mem s q) = mem_of s (ro_live s)"
        unfolding mem_of_def using p by (intro sum.cong) auto
      then show ?thesis using p by (simp add: mem_of_def)
    qed
    moreover have "gn_status (ro_node ?s) = gn_status (ro_node s)" by (simp add: reserve_def)
    ultimately show ?thesis using ac place_leaves_room [OF ok c w] unfolding account_ok_def by simp
  qed
  ultimately show ?thesis by (simp add: room_ok_def)
qed

lemma on_placement_keys:
  "fst ` set (gn_placed (on_placement p f n)) = fst ` set (gn_placed n)" "map fst (gn_placed (on_placement p f n)) = map fst (gn_placed n)"
  by (force simp: on_placement_def, auto simp: on_placement_def)

lemma created_placed: "gn_placed (created p sid now n) = map (\<lambda>(q, pl). (q, if q = p then pl\<lparr>pm_id := sid, pm_done := Some now\<rparr> else pl)) (gn_placed n)"
  by (auto simp: created_def finish_def on_placement_def)

lemma created_status: "gn_status (created p sid now n) = gn_status n"
  by (simp add: created_def finish_def on_placement_def)

lemma room_ok_created:
  assumes ok: "room_ok s" and p: "p \<in> set (ro_counted s)" "in_flight s p"
  shows "room_ok (s\<lparr>ro_node := created p sid (ro_clock s) (ro_node s)\<rparr>)" (is "room_ok ?s")
proof -
  have sh: "shape_ok s" and ac: "account_ok s" using ok by (simp_all add: room_ok_def)
  let ?n = "created p sid (ro_clock s) (ro_node s)"
  have keys: "map fst (gn_placed ?n) = map fst (gn_placed (ro_node s))" by (auto simp: created_placed)
  have un: "unheld ?n q = unheld (ro_node s) q" for q using arg_cong [OF keys, of set] by (simp add: unheld_def)
  have st: "settled ?n a q = settled (ro_node s) a q" if "a \<le> ro_clock s" for a q
  proof (cases "q = p")
    case True
    then show ?thesis using in_flight_placement(3) [OF sh p(2), of a] p(2) that
      by (force simp: settled_def created_placed before_def in_flight_def)
  next
    case False
    then show ?thesis by (force simp: settled_def created_placed)
  qed
  have "shape_ok ?s"
    using sh p(1) arg_cong [OF keys, of set] unfolding shape_ok_def by (simp add: keys un) (auto simp: created_placed split: if_split_asm)
  moreover have "account_ok ?s"
    using sh st by (intro account_cong [OF ac]) (simp_all add: un created_status, simp add: shape_ok_def)
  ultimately show ?thesis by (simp add: room_ok_def)
qed

lemma room_ok_refused:
  assumes ok: "room_ok s" and p: "p \<notin> set (ro_counted s)" "in_flight s p"
  shows "room_ok (s\<lparr>ro_node := finish p False t (ro_node s), ro_live := filter (\<lambda>q. q \<noteq> p) (ro_live s)\<rparr>)" (is "room_ok ?s")
proof -
  have sh: "shape_ok s" and ac: "account_ok s" using ok by (simp_all add: room_ok_def)
  have held: "q \<noteq> p \<Longrightarrow> unheld (finish p False t (ro_node s)) q = unheld (ro_node s) q"
    "q \<noteq> p \<Longrightarrow> settled (finish p False t (ro_node s)) a q = settled (ro_node s) a q" for q a
    by (auto simp: unheld_def settled_def finish_def image_iff)
  have "shape_ok ?s"
    using sh p(1) unfolding shape_ok_def by (auto simp: held) (auto simp: finish_def distinct_map_filter)
  moreover have "account_ok ?s"
  proof -
    have h2: "(q \<noteq> p \<and> unheld (finish p False t (ro_node s)) q) = unheld (ro_node s) q"
      "(q \<noteq> p \<and> settled (finish p False t (ro_node s)) a q) = settled (ro_node s) a q" for q a
      using held in_flight_placement(2,3) [OF sh p(2)] by (cases "q = p"; simp)+
    then have e: "set (filter (unheld (ro_node ?s)) (ro_live ?s)) = set (filter (unheld (ro_node s)) (ro_live s))"
      "set (filter (settled (ro_node ?s) a) (ro_live ?s)) = set (filter (settled (ro_node s) a) (ro_live s))" for a
      by auto
    have "mem_of ?s (filter (unheld (ro_node ?s)) (ro_live ?s)) = mem_of s (filter (unheld (ro_node s)) (ro_live s))"
      by (rule mem_cong [OF e(1)]) simp
    moreover have "mem_of ?s (filter (settled (ro_node ?s) a) (ro_live ?s)) = mem_of s (filter (settled (ro_node s) a) (ro_live s))" for a
      by (rule mem_cong [OF e(2)]) simp
    moreover have "mem_of ?s (ro_live ?s) \<le> mem_of s (ro_live s)"
      using mem_mono [OF sh, of "filter (\<lambda>q. q \<noteq> p) (ro_live s)" "ro_live s"] by (simp add: mem_of_def)
    ultimately show ?thesis using ac unfolding account_ok_def by (auto simp: finish_def)
  qed
  ultimately show ?thesis by (simp add: room_ok_def)
qed

lemma room_ok_status:
  assumes ok: "room_ok s" and p: "ro_poll s = Some (asked, None)"
    and st: "nr_MemoryMB (st_Free st) = max 0 (ro_cap s - mem_of s (ro_counted s))"
  shows "room_ok (s\<lparr>ro_poll := Some (asked, Some st)\<rparr>)" (is "room_ok ?s")
proof -
  have sh: "shape_ok s" and ac: "account_ok s" using ok by (simp_all add: room_ok_def)
  let ?set = "filter (settled (ro_node s) asked) (ro_live s)"
  have "mem_of s ?set \<le> mem_of s (ro_counted s)"
    using settled_counted [OF sh] sh by (intro mem_mono [OF sh]) (auto simp: shape_ok_def)
  moreover have "mem_of s ?set \<le> mem_of s (ro_live s)" by (intro mem_mono [OF sh]) auto
  ultimately have "nr_MemoryMB (st_Free st) + mem_of s ?set \<le> ro_cap s" using st ac by (auto simp: account_ok_def)
  then have "account_ok ?s" using ac st unfolding account_ok_def by (simp add: mem_of_def)
  moreover have "shape_ok ?s" using sh p unfolding shape_ok_def by auto
  ultimately show ?thesis by (simp add: room_ok_def)
qed

lemma poll_ok_outcome:
  "(\<exists>old. gn_status n = Some old \<and> gn_placed (poll_ok asked st n) = gn_placed n \<and> gn_status (poll_ok asked st n) = Some (st\<lparr>st_Free := st_Free old\<rparr>)) \<or>
   (gn_placed (poll_ok asked st n) = filter (\<lambda>(_, pl). \<not> before (pm_done pl) asked) (gn_placed n) \<and> gn_status (poll_ok asked st n) = Some st)"
proof (cases "gn_status n")
  case (Some old)
  define amb where "amb = list_ex (\<lambda>(_, pl). pm_sent pl < asked \<and> \<not> before (pm_done pl) asked) (gn_placed n)"
  show ?thesis
    by (cases "amb \<and> gn_heldFree n < maxHeldFree") (simp_all add: poll_ok_def Let_def Some flip: amb_def)
qed (simp add: poll_ok_def Let_def)

lemma room_ok_answer:
  assumes ok: "room_ok s" and p: "ro_poll s = Some (asked, Some st)"
  shows "room_ok (s\<lparr>ro_node := poll_ok asked st (ro_node s), ro_poll := None\<rparr>)" (is "room_ok ?s")
proof -
  have sh: "shape_ok s" and ac: "account_ok s" using ok by (simp_all add: room_ok_def)
  let ?n = "poll_ok asked st (ro_node s)"
  consider (held) old where "gn_status (ro_node s) = Some old" "gn_placed ?n = gn_placed (ro_node s)" "gn_status ?n = Some (st\<lparr>st_Free := st_Free old\<rparr>)"
    | (taken) "gn_placed ?n = filter (\<lambda>(_, pl). \<not> before (pm_done pl) asked) (gn_placed (ro_node s))" "gn_status ?n = Some st"
    using poll_ok_outcome by blast
  then show ?thesis
  proof cases
    case held
    then have "unheld ?n = unheld (ro_node s)" by (simp add: unheld_def fun_eq_iff)
    then show ?thesis using sh ac held unfolding room_ok_def shape_ok_def account_ok_def mem_of_def by simp
  next
    case taken
    have un: "unheld ?n q \<longleftrightarrow> settled (ro_node s) asked q" for q
      by (auto simp: unheld_def settled_def taken(1) image_iff)
    have "shape_ok ?s"
      using sh settled_counted [OF sh, of _ asked] unfolding shape_ok_def
      by (auto simp: un) (auto simp: taken(1) distinct_map_filter)
    moreover have "account_ok ?s"
    proof -
      have "mem_of ?s (filter (unheld ?n) (ro_live s)) = mem_of s (filter (settled (ro_node s) asked) (ro_live s))"
        by (rule mem_cong) (auto simp: un)
      moreover have "mem_of ?s (ro_live s) = mem_of s (ro_live s)" by (simp add: mem_of_def)
      ultimately show ?thesis using ac p taken(2) unfolding account_ok_def by simp
    qed
    ultimately show ?thesis by (simp add: room_ok_def)
  qed
qed

lemma room_ok_step: "room_ok s \<Longrightarrow> rstep rnd failAfter s s' \<Longrightarrow> room_ok s'"
proof -
  assume ok: "room_ok s" and st: "rstep rnd failAfter s s'"
  have sh: "shape_ok s" and ac: "account_ok s" using ok by (simp_all add: room_ok_def)
  show ?thesis using st
  proof cases
    case (r_place c cands w res p)
    then show ?thesis using room_ok_place [OF ok] chosen_has_room by blast
  next
    case (r_register p)
    then have "shape_ok s'" using sh unfolding shape_ok_def by auto
    then show ?thesis using ac by (simp add: room_ok_def r_register account_ok_def mem_of_def)
  next
    case (r_unregister p)
    then have "shape_ok s'" using sh in_flight_placement [OF sh r_unregister(3)] unfolding shape_ok_def by auto
    then show ?thesis using ac by (simp add: room_ok_def r_unregister account_ok_def mem_of_def)
  next
    case (r_created p sid)
    then show ?thesis using room_ok_created [OF ok] by simp
  next
    case (r_refused p)
    then show ?thesis using room_ok_refused [OF ok] by simp
  next
    case (r_status asked st)
    then show ?thesis using room_ok_status [OF ok] by simp
  next
    case (r_answer asked st)
    then show ?thesis using room_ok_answer [OF ok r_answer(2)] by (auto simp: poll_def)
  next
    case (r_ask)
    then show ?thesis using sh ac by (simp add: room_ok_def shape_ok_def account_ok_def mem_of_def)
  next
    case (r_lost asked x)
    have "gn_placed (poll_failed failAfter False n) = gn_placed n" "gn_status (poll_failed failAfter False n) = gn_status n" for n
      by (simp_all add: poll_failed_def Let_def)
    then show ?thesis using sh ac unfolding r_lost(1) poll_def room_ok_def shape_ok_def account_ok_def mem_of_def unheld_def by simp
  next
    case (r_cordon b)
    then show ?thesis using sh ac unfolding room_ok_def shape_ok_def account_ok_def mem_of_def unheld_def settled_def by simp
  next
    case (r_time d)
    have "shape_ok s'" using sh r_time(2) unfolding shape_ok_def r_time(1)
      by (simp add: add_increasing2)
    moreover have "account_ok s'" using ac by (simp add: r_time(1) account_ok_def mem_of_def)
    ultimately show ?thesis by (simp add: room_ok_def)
  qed
qed

lemma room_ok_init: "room_init s \<Longrightarrow> room_ok s"
  by (auto simp: room_init_def room_ok_def shape_ok_def account_ok_def newNode_def mem_of_def)

interpretation room_run: step_invariant room_init "rstep rnd failAfter" room_ok for rnd failAfter
  by unfold_locales (auto intro: room_ok_init room_ok_step)

text \<open>
  While no two polls of a node overlap, no answer to a create is lost and no sandbox ends: however creates, refusals, polls, cordons and the
  passing of time interleave, the sandboxes the gateway has sent to a node and not seen refused never ask together for more memory than
  the node has. A status that overlaps a create never makes the gateway count its room as free.
\<close>

theorem placements_never_overcommit:
  assumes "reach room_init (rstep rnd failAfter) s"
  shows "(\<Sum>p \<in> set (ro_live s). ro_mem s p) \<le> ro_cap s"
  using room_run.inv_reach [OF assms] by (simp add: room_ok_def account_ok_def mem_of_def)

text \<open>A node of 1024 MB that has answered a poll, and a sandbox placed on it.\<close>

definition demo_room :: "NodeStatus option \<Rightarrow> (int \<times> NodeStatus option) option \<Rightarrow> room" where
  "demo_room st asked = \<lparr>ro_node = (newNode ''a'')\<lparr>gn_healthy := st \<noteq> None, gn_status := st\<rparr>, ro_clock = 0, ro_cap = 1024,
     ro_mem = (\<lambda>_. 0), ro_live = [], ro_counted = [], ro_poll = asked\<rparr>"

definition demo_status :: NodeStatus where
  "demo_status = ca_Status (demo_node ''a'' [] 1024)"

definition demo_placed :: room where
  "demo_placed = (demo_room (Some demo_status) None)\<lparr>
     ro_node := reserve 7 (zero_res\<lparr>nr_MemoryMB := w_MemoryMB demo_want\<rparr>) 0 (ro_node (demo_room (Some demo_status) None)),
     ro_mem := (\<lambda>_. 0)(7 := w_MemoryMB demo_want), ro_live := [7]\<rparr>"

lemma demo_polled: "reach room_init (rstep Fin 3) (demo_room (Some demo_status) None)"
proof -
  note go = reach_step [where init = room_init and step = "rstep Fin 3"]
  have "reach room_init (rstep Fin 3) (demo_room None None)"
    by (rule reach_init) (auto simp: room_init_def demo_room_def newNode_def)
  from go [OF this r_ask] have "reach room_init (rstep Fin 3) (demo_room None (Some (0, None)))"
    by (simp add: demo_room_def)
  from go [OF this r_status [where asked = 0 and st = demo_status]]
  have "reach room_init (rstep Fin 3) (demo_room None (Some (0, Some demo_status)))"
    by (simp add: demo_room_def mem_of_def demo_status_def demo_node_def)
  from go [OF this r_answer [where asked = 0 and st = demo_status]]
  show ?thesis by (simp add: demo_room_def poll_def poll_ok_def newNode_def demo_status_def demo_node_def)
qed

text \<open>
  Polls that overlap, as one of \<open>adminCordon\<close> and one of the loop may: a sandbox of 512 MB is made between them, the later poll's answer has it and its
  placement goes, and then the older answer, from before it, is taken. The node counts as empty.
\<close>

lemma older_answer_frees_room_twice:
  "let n = created 7 ''sb'' 5 (reserve 7 (zero_res\<lparr>nr_MemoryMB := 512\<rparr>) 4 ((newNode ''a'')\<lparr>gn_healthy := True, gn_status := Some demo_status\<rparr>));
       later = demo_status\<lparr>st_Free := (st_Free demo_status)\<lparr>nr_MemoryMB := 512\<rparr>\<rparr>;
       room = (\<lambda>n. map_option (\<lambda>c. nr_MemoryMB (free_on Fin c)) (candidate Fin n))
   in room n = Some 512 \<and> room (poll_ok 6 later n) = Some 512 \<and> room (poll_ok 3 demo_status (poll_ok 6 later n)) = Some 1024"
  by (simp add: created_def finish_def on_placement_def reserve_def newNode_def poll_ok_def before_def candidate_def free_on_def demo_status_def demo_node_def
      zero_res_def add_res_def i64_id in_i64_def Let_def maxHeldFree_def)

theorem placements_never_overcommit_witness:
  "reach room_init (rstep Fin 3) demo_placed \<and> (\<Sum>p \<in> set (ro_live demo_placed). ro_mem demo_placed p) \<le> 1024"
proof -
  note go = reach_step [where init = room_init and step = "rstep Fin 3", OF demo_polled]
  let ?c = "demo_node ''a'' [] 1024"
  have c: "candidate Fin (ro_node (demo_room (Some demo_status) None)) = Some ?c"
    by (simp add: candidate_def demo_room_def newNode_def demo_status_def demo_node_def zero_res_def)
  have sch: "Schedule Fin [?c] demo_want = Inr (ca_Name ?c)"
    by (simp add: Schedule_def Let_def demo_node_def demo_want_def taking_def canRun_def hasRoom_def free_on_def f_le_def
      spread_filter_def sort_stable_def better_def i64_id in_i64_def)
  have "reach room_init (rstep Fin 3) demo_placed"
    using go [OF r_place [OF c _ _ sch, where p = 7 and res = "zero_res\<lparr>nr_MemoryMB := w_MemoryMB demo_want\<rparr>"]]
    by (simp add: demo_placed_def demo_room_def newNode_def demo_want_def zero_res_def)
  from placements_never_overcommit [OF this] this show ?thesis by (simp add: demo_placed_def demo_room_def)
qed

end
