(* ===== verification/Server_Resize.thy ===== *)
theory Server_Resize
  imports Server_Safety
begin

text \<open>
  Resizing a sandbox (\<open>resize\<close> of \<open>internal/server/lifecycle.go\<close>): the checks, the claim on the sandbox and what is recorded, as
  the steps of several requests on one sandbox. The backend (\<open>SandboxResizer\<close> of \<open>internal/backend/backend.go\<close>) is what its interface
  promises.
\<close>

subsection \<open>The handler\<close>

definition size_of :: "sandbox \<Rightarrow> NodeResources" where
  "size_of sb = \<lparr>nr_CPUs = b_CPUs sb, nr_MemoryMB = b_MemoryMB sb, nr_DiskMB = b_DiskMB sb, nr_GPUs = 0\<rparr>"

definition f_eq :: "f64 \<Rightarrow> f64 \<Rightarrow> bool" where
  "f_eq x y \<longleftrightarrow> x = y \<and> x \<noteq> NaN"

definition same_size :: "NodeResources \<Rightarrow> NodeResources \<Rightarrow> bool" where
  "same_size a b \<longleftrightarrow> f_eq (nr_CPUs a) (nr_CPUs b) \<and> nr_MemoryMB a = nr_MemoryMB b \<and> nr_DiskMB a = nr_DiskMB b \<and> nr_GPUs a = nr_GPUs b"

datatype resize_ask = Unchanged | Resize NodeResources bool

text \<open>\<open>resizer\<close> is whether the backend implements \<open>SandboxResizer\<close>; the sandbox is one \<open>use\<close> has let through.\<close>

definition resize_check :: "config \<Rightarrow> bool \<Rightarrow> ResizeSandboxRequest \<Rightarrow> rec \<Rightarrow> (refusal, resize_ask) result" where
  "resize_check cf resizer req r =
    (let was = size_of (r_sbx r) in
     if \<not> resizer \<or> \<not> cf_caps cf ''resize'' then Inl unsupported
     else if b_GPUs (r_sbx r) \<noteq> [] then Inl unsupported
     else and_then (as_refusal (ResolveResize req was (cf_Policy cf))) (\<lambda>want.
       if same_size want was then Inr Unchanged
       else if busy r \<and> (\<not> f_eq (nr_CPUs want) (nr_CPUs was) \<or> nr_MemoryMB want \<noteq> nr_MemoryMB was) then Inl conflict
       else Inr (Resize want (\<not> busy r))))"

definition no_size :: NodeResources where
  "no_size = \<lparr>nr_CPUs = Fin 0, nr_MemoryMB = 0, nr_DiskMB = 0, nr_GPUs = 0\<rparr>"

text \<open>What the handler records of the backend's answer: its size, or the size read at first when the answer has none.\<close>

definition resized :: "NodeResources \<Rightarrow> NodeResources \<Rightarrow> int \<Rightarrow> rec \<Rightarrow> rec" where
  "resized was answer now r =
    (let want = (if same_size answer no_size then was else answer)
     in r\<lparr>r_sbx := (r_sbx r)\<lparr>b_CPUs := nr_CPUs want, b_MemoryMB := nr_MemoryMB want, b_DiskMB := nr_DiskMB want\<rparr>, r_lastActive := now\<rparr>)"

subsection \<open>Resizes of one sandbox, interleaved\<close>

text \<open>
  A request that has read the size and passed its checks, one that has the claim and calls the backend, one with its
  answer: the size, and whether it is \<open>ErrBusy\<close>.
\<close>

datatype resize_op =
  Asked NodeResources NodeResources bool
| Calling NodeResources NodeResources bool
| Answered NodeResources NodeResources bool bool

text \<open>\<open>zr_vm\<close> is the size the machine really has, \<open>zr_resizing\<close> the sandbox's entry of the server's map.\<close>

record resizes =
  zr_rec :: rec
  zr_vm :: NodeResources
  zr_resizing :: bool
  zr_ops :: "nat \<Rightarrow> resize_op option"

text \<open>
  What \<open>ResizeSandbox\<close> may make of a machine: a disk is only grown, new CPUs and memory come together and only with a restart,
  a machine that does not start comes back with its old ones, and \<open>ErrBusy\<close> changes nothing.
\<close>

definition backend_resizes :: "NodeResources \<Rightarrow> bool \<Rightarrow> NodeResources \<Rightarrow> NodeResources \<Rightarrow> bool \<Rightarrow> bool" where
  "backend_resizes want may vm vm' is_busy \<longleftrightarrow>
     nr_GPUs vm' = nr_GPUs vm \<and> nr_DiskMB vm' \<in> {nr_DiskMB vm, nr_DiskMB want} \<and> nr_DiskMB vm \<le> nr_DiskMB vm' \<and>
     (nr_CPUs vm' = nr_CPUs vm \<and> nr_MemoryMB vm' = nr_MemoryMB vm \<or> may \<and> nr_CPUs vm' = nr_CPUs want \<and> nr_MemoryMB vm' = nr_MemoryMB want) \<and>
     (is_busy \<longrightarrow> vm' = vm)"

inductive rzstep :: "config \<Rightarrow> resizes \<Rightarrow> resizes \<Rightarrow> bool" for cf where
  rz_ask: "resize_check cf True req (zr_rec z) = Inr (Resize want may) \<Longrightarrow> zr_ops z i = None \<Longrightarrow>
    rzstep cf z (z\<lparr>zr_ops := (zr_ops z)(i \<mapsto> Asked (size_of (r_sbx (zr_rec z))) want may)\<rparr>)"
| rz_claim: "zr_ops z i = Some (Asked was want may) \<Longrightarrow> \<not> zr_resizing z \<Longrightarrow>
    rzstep cf z (z\<lparr>zr_resizing := True, zr_ops := (zr_ops z)(i \<mapsto> Calling was want may)\<rparr>)"
| rz_conflict: "zr_ops z i = Some (Asked was want may) \<Longrightarrow> zr_resizing z \<Longrightarrow> rzstep cf z (z\<lparr>zr_ops := (zr_ops z)(i := None)\<rparr>)"
| rz_backend: "zr_ops z i = Some (Calling was want may) \<Longrightarrow> backend_resizes want may (zr_vm z) vm is_busy \<Longrightarrow>
    rzstep cf z (z\<lparr>zr_vm := vm, zr_ops := (zr_ops z)(i \<mapsto> Answered was vm may is_busy)\<rparr>)"
| rz_record: "zr_ops z i = Some (Answered was answer may is_busy) \<Longrightarrow>
    rzstep cf z (z\<lparr>zr_rec := (if is_busy \<and> \<not> may then zr_rec z else resized was answer now (zr_rec z)),
      zr_resizing := False, zr_ops := (zr_ops z)(i := None)\<rparr>)"
| rz_other: "size_of (r_sbx r) = size_of (r_sbx (zr_rec z)) \<Longrightarrow> rzstep cf z (z\<lparr>zr_rec := r\<rparr>)"

text \<open>A size the operator's limits let a sandbox have.\<close>

definition size_allowed :: "Limits \<Rightarrow> NodeResources \<Rightarrow> bool" where
  "size_allowed l s \<longleftrightarrow> \<not> f_le (nr_CPUs s) (Fin 0) \<and> \<not> f_lt (l_MaxCPUs l) (nr_CPUs s) \<and>
     minMemoryMB \<le> nr_MemoryMB s \<and> nr_MemoryMB s \<le> l_MaxMemoryMB l \<and> nr_DiskMB s \<le> l_MaxDiskMB l \<and> nr_GPUs s = 0"

definition resizes_init :: "config \<Rightarrow> resizes \<Rightarrow> bool" where
  "resizes_init cf z \<longleftrightarrow> zr_vm z = size_of (r_sbx (zr_rec z)) \<and> size_allowed (p_Limits (cf_Policy cf)) (zr_vm z) \<and>
     \<not> zr_resizing z \<and> zr_ops z = (\<lambda>_. None)"

section \<open>The record follows the machine\<close>

fun claimed_op :: "resize_op option \<Rightarrow> bool" where
  "claimed_op (Some (Calling was want may)) = True"
| "claimed_op (Some (Answered was answer may is_busy)) = True"
| "claimed_op _ = False"

fun op_ok :: "Limits \<Rightarrow> rec \<Rightarrow> NodeResources \<Rightarrow> resize_op \<Rightarrow> bool" where
  "op_ok l r vm (Asked was want may) = size_allowed l want"
| "op_ok l r vm (Calling was want may) = (size_allowed l want \<and> size_of (r_sbx r) = vm)"
| "op_ok l r vm (Answered was answer may is_busy) = (answer = vm \<and> (is_busy \<longrightarrow> size_of (r_sbx r) = vm))"

definition resizes_ok :: "config \<Rightarrow> resizes \<Rightarrow> bool" where
  "resizes_ok cf z \<longleftrightarrow> size_allowed (p_Limits (cf_Policy cf)) (zr_vm z) \<and>
     (\<forall>i op. zr_ops z i = Some op \<longrightarrow> op_ok (p_Limits (cf_Policy cf)) (zr_rec z) (zr_vm z) op) \<and>
     (\<forall>i j. claimed_op (zr_ops z i) \<longrightarrow> claimed_op (zr_ops z j) \<longrightarrow> i = j) \<and>
     (zr_resizing z \<longleftrightarrow> (\<exists>i. claimed_op (zr_ops z i))) \<and>
     (\<not> zr_resizing z \<longrightarrow> size_of (r_sbx (zr_rec z)) = zr_vm z)"

lemma resize_check_allowed:
  assumes "resize_check cf resizer req r = Inr (Resize want may)"
  shows "size_allowed (p_Limits (cf_Policy cf)) want"
proof -
  have "ResolveResize req (size_of (r_sbx r)) (cf_Policy cf) = Inr want"
    using assms by (auto simp: resize_check_def Let_def as_refusal_def split: if_split_asm sum.split_asm)
  then show ?thesis
    unfolding ResolveResize_def Let_def size_allowed_def by (auto simp: size_of_def split: if_split_asm)
qed

lemma backend_keeps_allowed: "backend_resizes want may vm vm' is_busy \<Longrightarrow> size_allowed l vm \<Longrightarrow> size_allowed l want \<Longrightarrow> size_allowed l vm'"
  unfolding backend_resizes_def size_allowed_def by auto

lemma size_of_resized: "nr_GPUs answer = 0 \<Longrightarrow> \<not> same_size answer no_size \<Longrightarrow> size_of (r_sbx (resized was answer now r)) = answer"
  by (cases answer) (simp add: resized_def size_of_def Let_def)

lemma allowed_not_none: "size_allowed l s \<Longrightarrow> \<not> same_size s no_size"
  by (auto simp: size_allowed_def same_size_def no_size_def f_eq_def f_le_def)

lemma op_ok_same: "op_ok l r vm op \<Longrightarrow> size_of (r_sbx r') = size_of (r_sbx r) \<Longrightarrow> op_ok l r' vm op"
  by (cases op) auto

lemma op_ok_asked: "op_ok l r vm op \<Longrightarrow> \<not> claimed_op (Some op) \<Longrightarrow> op_ok l r' vm' op"
  by (cases op) auto

lemma resizes_ok_step:
  assumes ok: "resizes_ok cf z" and s: "rzstep cf z z'"
  shows "resizes_ok cf z'"
  using s
proof cases
  case (rz_ask req want may i)
  then have cl: "claimed_op (zr_ops z' j) = claimed_op (zr_ops z j)" for j by simp
  show ?thesis using ok resize_check_allowed [OF rz_ask(2)] unfolding resizes_ok_def cl by (auto simp: rz_ask(1))
next
  case (rz_claim i was want may)
  then show ?thesis using ok by (fastforce simp: resizes_ok_def)
next
  case (rz_conflict i was want may)
  then have cl: "claimed_op (zr_ops z' j) = claimed_op (zr_ops z j)" for j by simp
  show ?thesis using ok unfolding resizes_ok_def cl by (auto simp: rz_conflict(1))
next
  case (rz_backend i was want may vm is_busy)
  let ?l = "p_Limits (cf_Policy cf)"
  have c: "claimed_op (zr_ops z i)" using rz_backend(2) by simp
  have "op_ok ?l (zr_rec z) (zr_vm z) (Calling was want may)" using ok rz_backend(2) unfolding resizes_ok_def by blast
  then have op: "size_allowed ?l want" "size_of (r_sbx (zr_rec z)) = zr_vm z" by simp_all
  have others: "op_ok ?l (zr_rec z) vm q" if "zr_ops z j = Some q" "j \<noteq> i" for j q
  proof -
    have "\<not> claimed_op (Some q)" using ok c that unfolding resizes_ok_def by (metis (no_types))
    then show ?thesis using ok that op_ok_asked unfolding resizes_ok_def by blast
  qed
  have "size_allowed ?l vm" using backend_keeps_allowed [OF rz_backend(3)] ok op by (simp add: resizes_ok_def)
  moreover have "is_busy \<longrightarrow> vm = zr_vm z" using rz_backend(3) by (simp add: backend_resizes_def)
  ultimately show ?thesis using ok c others op rz_backend(1) unfolding resizes_ok_def by auto
next
  case (rz_record i was answer may is_busy now)
  let ?l = "p_Limits (cf_Policy cf)" and ?r = "if is_busy \<and> \<not> may then zr_rec z else resized was answer now (zr_rec z)"
  have c: "claimed_op (zr_ops z i)" using rz_record(2) by simp
  have "op_ok ?l (zr_rec z) (zr_vm z) (Answered was answer may is_busy)" using ok rz_record(2) unfolding resizes_ok_def by blast
  then have op: "answer = zr_vm z" "is_busy \<longrightarrow> size_of (r_sbx (zr_rec z)) = zr_vm z" by simp_all
  have al: "size_allowed ?l (zr_vm z)" using ok by (simp add: resizes_ok_def)
  then have "size_of (r_sbx (resized was answer now (zr_rec z))) = zr_vm z"
    using size_of_resized [of answer was now "zr_rec z"] allowed_not_none op(1) by (auto simp: size_allowed_def)
  then have r: "size_of (r_sbx ?r) = zr_vm z" using op(2) by simp
  have others: "\<not> claimed_op (zr_ops z j)" if "j \<noteq> i" for j using ok c that unfolding resizes_ok_def by blast
  have "op_ok ?l ?r (zr_vm z) q" if "zr_ops z j = Some q" "j \<noteq> i" for j q
  proof -
    have "op_ok ?l (zr_rec z) (zr_vm z) q" using ok that(1) unfolding resizes_ok_def by blast
    then show ?thesis using others [OF that(2)] that(1) by (metis op_ok_asked)
  qed
  then show ?thesis using al r others rz_record(1) unfolding resizes_ok_def by auto
next
  case (rz_other r)
  then show ?thesis using ok op_ok_same [of _ "zr_rec z" _ _ r] unfolding resizes_ok_def by auto
qed

lemma resizes_ok_init: "resizes_init cf z \<Longrightarrow> resizes_ok cf z"
  by (auto simp: resizes_init_def resizes_ok_def)

interpretation resize_run: step_invariant "resizes_init cf" "rzstep cf" "resizes_ok cf" for cf
  by unfold_locales (rule resizes_ok_init, assumption, rule resizes_ok_step)

text \<open>
  C30: However the resizes of a sandbox overlap, at most one is with the backend; whenever none is, the server's
  record has the size the machine has, and that size is within the operator's limits.
\<close>

theorem recorded_size_is_the_machines:
  assumes "reach (resizes_init cf) (rzstep cf) z"
  shows "(\<forall>i j. claimed_op (zr_ops z i) \<and> claimed_op (zr_ops z j) \<longrightarrow> i = j) \<and> size_allowed (p_Limits (cf_Policy cf)) (zr_vm z) \<and>
    (\<not> zr_resizing z \<longrightarrow> size_of (r_sbx (zr_rec z)) = zr_vm z)"
  using resize_run.inv_reach [OF assms] unfolding resizes_ok_def by blast

subsection \<open>Two resizes of one sandbox\<close>

definition demo_size :: "int \<Rightarrow> int \<Rightarrow> NodeResources" where
  "demo_size mem disk = \<lparr>nr_CPUs = Fin 1, nr_MemoryMB = mem, nr_DiskMB = disk, nr_GPUs = 0\<rparr>"

definition demo_sized :: "int \<Rightarrow> int \<Rightarrow> rec" where
  "demo_sized mem disk = \<lparr>r_sbx = \<lparr>b_ID = ''a'', b_Name = [], b_State = Running, b_Image = ''img'', b_CPUs = Fin 1, b_MemoryMB = mem,
     b_DiskMB = disk, b_EnvNames = [], b_Network = zero_network, b_CreatedAt = 0, b_IdleTimeoutSecs = 0, b_IdleAction = [], b_IdleSuspended = False,
     b_LifetimeSecs = 0, b_ExpiresAt = None, b_SnapshotEverySecs = 0, b_SnapshotKeep = 0, b_Snapshotting = False, b_Labels = [], b_Volumes = [],
     b_GPUs = []\<rparr>, r_env = [], r_procs = [], r_nextPID = 0, r_lastActive = 0, r_lastScheduled = 0, r_snapshotting = False\<rparr>"

definition demo_resizes :: "NodeResources \<Rightarrow> bool \<Rightarrow> (nat \<Rightarrow> resize_op option) \<Rightarrow> resizes" where
  "demo_resizes sz claimed ops = \<lparr>zr_rec = demo_sized (nr_MemoryMB sz) (nr_DiskMB sz), zr_vm = sz, zr_resizing = claimed, zr_ops = ops\<rparr>"

definition more_memory :: ResizeSandboxRequest where
  "more_memory = \<lparr>rz_CPUs = Fin 0, rz_MemoryMB = 4096, rz_DiskMB = 0\<rparr>"

definition more_disk :: ResizeSandboxRequest where
  "more_disk = \<lparr>rz_CPUs = Fin 0, rz_MemoryMB = 0, rz_DiskMB = 20480\<rparr>"

lemma demo_resize_checks:
  "resize_check demo_cf True more_memory (demo_sized 1024 10240) = Inr (Resize (demo_size 4096 10240) True)"
  "resize_check demo_cf True more_disk (demo_sized 1024 10240) = Inr (Resize (demo_size 1024 20480) True)"
  "resizes_init demo_cf (demo_resizes (demo_size 1024 10240) False (\<lambda>_. None))"
  subgoal by code_simp
  subgoal by code_simp
  subgoal unfolding resizes_init_def demo_resizes_def by (simp, code_simp)
  done

lemmas resize_go = reach_step [where init = "resizes_init demo_cf" and step = "rzstep demo_cf"]

lemma demo_both_asked:
  "reach (resizes_init demo_cf) (rzstep demo_cf) (demo_resizes (demo_size 1024 10240) False
     [0 \<mapsto> Asked (demo_size 1024 10240) (demo_size 4096 10240) True, 1 \<mapsto> Asked (demo_size 1024 10240) (demo_size 1024 20480) True])"
proof -
  let ?z = "demo_resizes (demo_size 1024 10240) False"
  have was: "size_of (r_sbx (demo_sized 1024 10240)) = demo_size 1024 10240" by (simp add: size_of_def demo_sized_def demo_size_def)
  have f: "zr_rec (?z ops) = demo_sized 1024 10240" "zr_ops (?z ops) = ops" for ops by (simp_all add: demo_resizes_def demo_size_def)
  have upd: "(?z ops)\<lparr>zr_ops := ops'\<rparr> = ?z ops'" for ops ops' by (simp add: demo_resizes_def)
  have "reach (resizes_init demo_cf) (rzstep demo_cf) (?z Map.empty)" by (rule reach_init) (rule demo_resize_checks(3))
  from resize_go [OF this rz_ask [where i = 0 and z = "?z Map.empty", unfolded f, OF demo_resize_checks(1)]]
  have "reach (resizes_init demo_cf) (rzstep demo_cf) (?z [0 \<mapsto> Asked (demo_size 1024 10240) (demo_size 4096 10240) True])"
    by (simp add: f upd was)
  from resize_go [OF this rz_ask [where i = 1 and z = "?z [0 \<mapsto> Asked (demo_size 1024 10240) (demo_size 4096 10240) True]", unfolded f, OF demo_resize_checks(2)]]
  show ?thesis by (simp add: f upd was)
qed

lemma demo_whole_resize:
  assumes "ops i = Some (Asked was (demo_size mem disk) True)" "d \<le> disk" "mem \<noteq> 0"
  shows "(rzstep demo_cf)\<^sup>*\<^sup>* (demo_resizes (demo_size m d) False ops) (demo_resizes (demo_size mem disk) False (ops(i := None)))"
proof -
  let ?z1 = "demo_resizes (demo_size m d) True (ops(i \<mapsto> Calling was (demo_size mem disk) True))"
  let ?z2 = "?z1\<lparr>zr_vm := demo_size mem disk, zr_ops := ops(i \<mapsto> Answered was (demo_size mem disk) True False)\<rparr>"
  have "rzstep demo_cf (demo_resizes (demo_size m d) False ops) ?z1"
    using rz_claim [of "demo_resizes (demo_size m d) False ops" i was "demo_size mem disk" True demo_cf] assms(1) by (simp add: demo_resizes_def)
  moreover have "rzstep demo_cf ?z1 ?z2"
    using rz_backend [of ?z1 i was "demo_size mem disk" True "demo_size mem disk" False demo_cf] assms(2)
    by (simp add: demo_resizes_def backend_resizes_def demo_size_def)
  moreover have "rzstep demo_cf ?z2 (demo_resizes (demo_size mem disk) False (ops(i := None)))"
    using rz_record [of ?z2 i was "demo_size mem disk" True False demo_cf 0] assms(3)
    by (simp add: demo_resizes_def resized_def same_size_def no_size_def f_eq_def Let_def demo_size_def demo_sized_def)
  ultimately show ?thesis by (meson converse_rtranclp_into_rtranclp r_into_rtranclp)
qed

text \<open>
  A resize that only asks for a larger disk can take back the memory another request was given: it read the
  size before the other took the claim, and asks the backend for that size with its own change. The first request has
  been answered with its memory, and neither has failed.
\<close>

theorem resize_undoes_another:
  "\<exists>z1 z2 was want. reach (resizes_init demo_cf) (rzstep demo_cf) z1 \<and> zr_ops z1 = [1 \<mapsto> Asked was want True] \<and> \<not> zr_resizing z1 \<and>
     ResolveResize more_disk was (cf_Policy demo_cf) = Inr want \<and> rz_MemoryMB more_disk = 0 \<and>
     (rzstep demo_cf)\<^sup>*\<^sup>* z1 z2 \<and> zr_ops z2 = Map.empty \<and> nr_MemoryMB (zr_vm z1) = 4096 \<and> nr_MemoryMB (zr_vm z2) = 1024"
proof -
  let ?ops = "[0 \<mapsto> Asked (demo_size 1024 10240) (demo_size 4096 10240) True, 1 \<mapsto> Asked (demo_size 1024 10240) (demo_size 1024 20480) True]"
  let ?z1 = "demo_resizes (demo_size 4096 10240) False [1 \<mapsto> Asked (demo_size 1024 10240) (demo_size 1024 20480) True]"
  have "(rzstep demo_cf)\<^sup>*\<^sup>* (demo_resizes (demo_size 1024 10240) False ?ops) (demo_resizes (demo_size 4096 10240) False (?ops(0 := None)))"
    by (rule demo_whole_resize) (simp_all add: demo_size_def)
  then have "(rzstep demo_cf)\<^sup>*\<^sup>* (demo_resizes (demo_size 1024 10240) False ?ops) ?z1" by (simp add: fun_upd_twist)
  then have r: "reach (resizes_init demo_cf) (rzstep demo_cf) ?z1"
    using demo_both_asked by (induction rule: rtranclp_induct) (auto intro: resize_go)
  have "(rzstep demo_cf)\<^sup>*\<^sup>* ?z1 (demo_resizes (demo_size 1024 20480) False ([1 \<mapsto> Asked (demo_size 1024 10240) (demo_size 1024 20480) True](1 := None)))"
    by (rule demo_whole_resize) (simp_all add: demo_size_def)
  moreover have "ResolveResize more_disk (demo_size 1024 10240) (cf_Policy demo_cf) = Inr (demo_size 1024 20480)" by code_simp
  ultimately show ?thesis using r
    by (intro exI [of _ ?z1] exI [of _ "demo_resizes (demo_size 1024 20480) False Map.empty"] exI [of _ "demo_size 1024 10240"]
      exI [of _ "demo_size 1024 20480"]) (simp add: demo_resizes_def demo_size_def more_disk_def)
qed

theorem recorded_size_is_the_machines_witness:
  "\<exists>z. reach (resizes_init demo_cf) (rzstep demo_cf) z \<and> zr_ops z 0 \<noteq> None \<and> zr_ops z 1 \<noteq> None \<and> size_of (r_sbx (zr_rec z)) = zr_vm z"
proof (intro exI conjI)
  let ?z = "demo_resizes (demo_size 1024 10240) False
     [0 \<mapsto> Asked (demo_size 1024 10240) (demo_size 4096 10240) True, 1 \<mapsto> Asked (demo_size 1024 10240) (demo_size 1024 20480) True]"
  show "reach (resizes_init demo_cf) (rzstep demo_cf) ?z" by (rule demo_both_asked)
  show "zr_ops ?z 0 \<noteq> None" "zr_ops ?z 1 \<noteq> None" by (simp_all add: demo_resizes_def)
  show "size_of (r_sbx (zr_rec ?z)) = zr_vm ?z" using recorded_size_is_the_machines [OF demo_both_asked] by (simp add: demo_resizes_def)
qed

end
