(* ===== verification/Gateway_Update.thy ===== *)
theory Gateway_Update
  imports Gateway_Create Gateway_Nodes Server_Resize
begin

text \<open>
  Changing a sandbox through the gateway: \<open>updateHandler\<close> of \<open>internal/gateway/update.go\<close> before the node is asked, and the growth and room of a
  resize (\<open>resizeHandler\<close>, \<open>roomFor\<close> of \<open>resize.go\<close>). What the node makes of either is in \<open>Server_Sandbox\<close> and \<open>Server_Resize\<close>.
\<close>

subsection \<open>Updates\<close>

definition gateway_label :: "bytes \<times> bytes \<Rightarrow> bool" where
  "gateway_label kv \<longleftrightarrow> HasPrefix (fst kv) ''gateway.''"

text \<open>Only an admin lengthens a lifetime.\<close>

definition lifetime_lengthened :: "Principal \<Rightarrow> int \<Rightarrow> sandbox \<Rightarrow> bool" where
  "lifetime_lengthened p life cur \<longleftrightarrow> b_LifetimeSecs cur > 0 \<and> life > b_LifetimeSecs cur"

definition merge_labels :: "(bytes \<times> bytes) list \<Rightarrow> (bytes \<times> bytes) list \<Rightarrow> (refusal, (bytes \<times> bytes) list) result" where
  "merge_labels asks has =
    (if list_ex (\<lambda>kv. gateway_label kv \<and> map_of has (fst kv) \<noteq> Some (snd kv)) asks then Inl invalid
     else Inr (filter (\<lambda>kv. \<not> gateway_label kv) asks @ filter gateway_label has))"

text \<open>
  \<open>read1\<close> and \<open>read2\<close> are the node's two answers for the sandbox, \<open>claimed\<close> the names claimed, \<open>unlisted\<close> the answer to a listing that failed. The
  sandbox is one \<open>resolve\<close> let through for the \<open>sandbox:create\<close> scope.
\<close>

definition updateHandler ::
  "create_env \<Rightarrow> view \<Rightarrow> (route_error \<Rightarrow> refusal) \<Rightarrow> bytes list \<Rightarrow> Principal \<Rightarrow> bytes \<Rightarrow> (refusal, sandbox) result \<Rightarrow> (refusal, sandbox) result \<Rightarrow>
     ApiMetricsExport option \<Rightarrow> update_request \<Rightarrow> (refusal, update_request \<times> ApiMetricsExport option) result" where
  "updateHandler e g unlisted claimed p sid read1 read2 export q =
    unless_err (case uq_LifetimeSecs q of
        None \<Rightarrow> None
      | Some life \<Rightarrow> if Can p ''admin'' then None
          else (case read1 of Inl err \<Rightarrow> Some err | Inr cur \<Rightarrow> if lifetime_lengthened p life cur then Some (403, ''refused'') else None)) (
    and_then (case uq_Labels q of
        None \<Rightarrow> Inr None
      | Some ls \<Rightarrow> and_then read2 (\<lambda>cur. and_then (merge_labels ls (b_Labels cur)) (\<lambda>m. Inr (Some m)))) (\<lambda>labels.
    unless_err (case uq_Name q of
        None \<Rightarrow> None
      | Some name \<Rightarrow> if name = [] then None
          else if claim_key (sandbox_key p name) claimed = None then Some conflict
          else (case name_check g p (Some sid) name of
              None \<Rightarrow> None | Some NameTaken \<Rightarrow> Some conflict | Some (NotListed err) \<Rightarrow> Some (unlisted err))) (
    and_then (case applyGroups (ce_groups e) (uq_Network q) of Inl f \<Rightarrow> Inl (fst f) | Inr net \<Rightarrow> Inr net) (\<lambda>net.
    and_then (case resolveExportSecrets (ce_canon e) (ce_secret e) export of Inl f \<Rightarrow> Inl (fst f) | Inr x \<Rightarrow> Inr x) (\<lambda>export1.
    Inr (q\<lparr>uq_Labels := labels, uq_Network := net\<rparr>, export1))))))"

subsection \<open>Resizes\<close>

definition growth :: "(rat \<Rightarrow> f64) \<Rightarrow> ResizeSandboxRequest \<Rightarrow> sandbox \<Rightarrow> NodeResources" where
  "growth rnd req cur = \<lparr>
     nr_CPUs = (if f_lt (b_CPUs cur) (rz_CPUs req) then f_add rnd (rz_CPUs req) (f_neg (b_CPUs cur)) else Fin 0),
     nr_MemoryMB = (if rz_MemoryMB req > b_MemoryMB cur then i64 (rz_MemoryMB req - b_MemoryMB cur) else 0),
     nr_DiskMB = (if rz_DiskMB req > b_DiskMB cur then i64 (rz_DiskMB req - b_DiskMB cur) else 0), nr_GPUs = 0\<rparr>"

text \<open>Whether the node can take that much more.\<close>

definition roomFor :: "(rat \<Rightarrow> f64) \<Rightarrow> gnode \<Rightarrow> NodeResources \<Rightarrow> bool" where
  "roomFor rnd n grow =
    (same_size grow zero_res \<or>
     (case candidate rnd n of
        None \<Rightarrow> False
      | Some c \<Rightarrow> let room = st_Free (ca_Status c); res = ca_Reserved c in
          \<not> f_lt (f_add rnd (f_add rnd (nr_CPUs room) (f_neg (nr_CPUs res))) (rnd (1 / 10 ^ 9))) (nr_CPUs grow) \<and>
          nr_MemoryMB grow \<le> i64 (nr_MemoryMB room - nr_MemoryMB res) \<and> nr_DiskMB grow \<le> i64 (nr_DiskMB room - nr_DiskMB res)))"

section \<open>An update keeps what is the gateway's\<close>

lemma map_of_filter_gateway: "map_of (filter gateway_label ls) k = (if HasPrefix k ''gateway.'' then map_of ls k else None)"
  by (induction ls) (auto simp: gateway_label_def)

lemma map_of_filter_not_gateway: "map_of (filter (\<lambda>kv. \<not> gateway_label kv) ls) k = (if HasPrefix k ''gateway.'' then None else map_of ls k)"
  by (induction ls) (auto simp: gateway_label_def)

lemma merged_labels:
  "merge_labels asks has = Inr m \<Longrightarrow> map_of m k = (if HasPrefix k ''gateway.'' then map_of has k else map_of asks k)"
  by (auto simp: merge_labels_def map_add_def map_of_filter_gateway map_of_filter_not_gateway split: if_split_asm option.split)

lemma updateHandler_steps:
  assumes "updateHandler e g unlisted claimed p sid (Inr cur) (Inr cur) export q = Inr (q1, export1)"
  shows "uq_LifetimeSecs q1 = uq_LifetimeSecs q" "uq_Name q1 = uq_Name q"
    "\<And>life. uq_LifetimeSecs q = Some life \<Longrightarrow> Can p ''admin'' \<or> \<not> lifetime_lengthened p life cur"
    "\<And>ls. uq_Labels q = Some ls \<Longrightarrow> \<exists>m. uq_Labels q1 = Some m \<and> merge_labels ls (b_Labels cur) = Inr m"
    "uq_Labels q = None \<Longrightarrow> uq_Labels q1 = None"
    "\<And>name. uq_Name q = Some name \<Longrightarrow> name \<noteq> [] \<Longrightarrow> sandbox_key p name \<notin> set claimed \<and> name_check g p (Some sid) name = None"
  using assms by (auto simp: updateHandler_def claim_key_def split: option.split_asm if_split_asm name_error.split_asm)

lemma updated_fields:
  assumes "update_check cf q sb refused = Inr u"
  shows "b_Labels (updated u sb) = (case uq_Labels q of None \<Rightarrow> b_Labels sb | Some ls \<Rightarrow> ls)"
    "b_LifetimeSecs (updated u sb) = (case uq_LifetimeSecs q of None \<Rightarrow> b_LifetimeSecs sb | Some l \<Rightarrow> l)"
    "\<And>l. uq_LifetimeSecs q = Some l \<Longrightarrow> 0 < l"
proof -
  have i: "(if c then Inl e else x) = Inr y \<longleftrightarrow> \<not> c \<and> x = Inr y" for c e x and y :: update by simp
  obtain labels life where st: "on_given (check_refusal ValidateLabels) (uq_Labels q) = Inr labels"
    "on_given (\<lambda>n. as_refusal (ResolveLifetimeUpdate n (cf_Policy cf))) (uq_LifetimeSecs q) = Inr life" "u_Labels u = labels" "u_LifetimeSecs u = life"
    using assms unfolding update_check_def i unless_err_Inr and_then_Inr sum.inject by (elim conjE exE) (rule that, auto)
  have "labels = uq_Labels q"
    using st(1) by (cases "uq_Labels q") (auto simp: on_given_def check_refusal_def split: option.split_asm)
  moreover have "life = uq_LifetimeSecs q \<and> (\<forall>l. life = Some l \<longrightarrow> 0 < l)"
    using st(2) by (cases "uq_LifetimeSecs q") (auto simp: on_given_def as_refusal_def ResolveLifetimeUpdate_def Let_def split: if_split_asm)
  ultimately show "b_Labels (updated u sb) = (case uq_Labels q of None \<Rightarrow> b_Labels sb | Some ls \<Rightarrow> ls)"
    "b_LifetimeSecs (updated u sb) = (case uq_LifetimeSecs q of None \<Rightarrow> b_LifetimeSecs sb | Some l \<Rightarrow> l)"
    "\<And>l. uq_LifetimeSecs q = Some l \<Longrightarrow> 0 < l"
    using st(3,4) by (simp_all add: updated_def or_keep_def)
qed

text \<open>
  C31: What an update through the gateway leaves of a sandbox, the node's part included: the labels the gateway keeps are
  as they were and every other label is what was asked for; a lifetime is given up or lengthened only by an admin; and a new
  name is one no other live sandbox of the caller was listed with.
\<close>

theorem update_keeps_gateways_own:
  assumes gw: "updateHandler e g unlisted claimed p (b_ID sb) (Inr sb) (Inr sb) export q = Inr (q1, export1)"
    and node: "update_check cf q1 sb refused = Inr u"
  shows "(\<forall>k. HasPrefix k ''gateway.'' \<longrightarrow> map_of (b_Labels (updated u sb)) k = map_of (b_Labels sb) k) \<and>
    (\<forall>ls k. uq_Labels q = Some ls \<and> \<not> HasPrefix k ''gateway.'' \<longrightarrow> map_of (b_Labels (updated u sb)) k = map_of ls k) \<and>
    (\<not> Can p ''admin'' \<and> 0 < b_LifetimeSecs sb \<longrightarrow> 0 < b_LifetimeSecs (updated u sb) \<and> b_LifetimeSecs (updated u sb) \<le> b_LifetimeSecs sb) \<and>
    (\<forall>name out. uq_Name q = Some name \<and> name \<noteq> [] \<and> listSandboxes g p = Inr out \<longrightarrow>
       \<not> (\<exists>x \<in> set out. b_ID x \<noteq> b_ID sb \<and> live x \<and> b_Name x = name))"
proof -
  note h = updateHandler_steps [OF gw] and u = updated_fields [OF node]
  have labels: "map_of (b_Labels (updated u sb)) k = (if HasPrefix k ''gateway.'' then map_of (b_Labels sb) k
      else case uq_Labels q of None \<Rightarrow> map_of (b_Labels sb) k | Some ls \<Rightarrow> map_of ls k)" for k
    using h(4,5) u(1) merged_labels by (cases "uq_Labels q") fastforce+
  have life: "0 < b_LifetimeSecs (updated u sb) \<and> b_LifetimeSecs (updated u sb) \<le> b_LifetimeSecs sb" if "\<not> Can p ''admin''" "0 < b_LifetimeSecs sb"
    using that h(1) h(3) u(2,3) by (cases "uq_LifetimeSecs q") (auto simp: lifetime_lengthened_def)
  have "\<not> (\<exists>x \<in> set out. b_ID x \<noteq> b_ID sb \<and> live x \<and> b_Name x = name)"
    if "uq_Name q = Some name" "name \<noteq> []" "listSandboxes g p = Inr out" for name out
    using h(6) [OF that(1,2)] that(3) by (auto simp: name_check_def list_ex_iff live_def split: if_split_asm)
  then show ?thesis using labels life by simp
qed

definition demo_update :: update_request where
  "demo_update = \<lparr>uq_Network = None, uq_Name = Some ''api'', uq_Labels = Some [(''a'', ''1'')], uq_IdleTimeoutSecs = None, uq_IdleAction = None,
     uq_LifetimeSecs = Some 60, uq_MetricsExport = False\<rparr>"

definition demo_updated :: sandbox where
  "demo_updated = (demo_named ''x'' ''web'')\<lparr>b_LifetimeSecs := 100\<rparr>"

lemma demo_update_passes:
  "result_holds (\<lambda>(q, _). result_holds (\<lambda>_. True) (update_check demo_cf q demo_updated None))
    (updateHandler demo_env (names_view [] (newTombstones 10 60) 0 names0) (\<lambda>_. not_found) [] demo_user (b_ID demo_updated) (Inr demo_updated) (Inr demo_updated) None demo_update)"
  by code_simp

theorem update_keeps_gateways_own_witness:
  "\<exists>q1 x u. updateHandler demo_env (names_view [] (newTombstones 10 60) 0 names0) (\<lambda>_. not_found) [] demo_user (b_ID demo_updated) (Inr demo_updated) (Inr demo_updated)
       None demo_update = Inr (q1, x) \<and> update_check demo_cf q1 demo_updated None = Inr u \<and>
     map_of (b_Labels (updated u demo_updated)) ''gateway.owner'' = Some ''ann'' \<and> b_LifetimeSecs (updated u demo_updated) \<le> 100"
proof -
  obtain q1 x u where q: "updateHandler demo_env (names_view [] (newTombstones 10 60) 0 names0) (\<lambda>_. not_found) [] demo_user (b_ID demo_updated) (Inr demo_updated)
      (Inr demo_updated) None demo_update = Inr (q1, x)" "update_check demo_cf q1 demo_updated None = Inr u"
    using demo_update_passes unfolding result_holds_iff by auto
  have "HasPrefix ''gateway.owner'' ''gateway.''" "\<not> Can demo_user ''admin''" by code_simp+
  then show ?thesis using update_keeps_gateways_own [OF q] q by (auto simp: demo_updated_def demo_named_def)
qed

section \<open>Room for a resize\<close>

text \<open>Room that is there when it is looked for is there while nothing else is placed on the node.\<close>

lemma reserved_after:
  "candidate rnd n = Some c \<Longrightarrow> candidate rnd (reserve i res now n) = Some (c\<lparr>ca_Reserved := add_res rnd (ca_Reserved c) res\<rparr>)"
  by (auto simp: candidate_def reserve_def split: option.split_asm if_split_asm)

lemma room_is_kept:
  assumes "candidate rnd n = Some c" and "roomFor rnd n grow" and "0 \<le> nr_MemoryMB grow" "in_i64 (nr_MemoryMB (ca_Reserved c) + nr_MemoryMB grow)"
    and "in_i64 (nr_MemoryMB (st_Free (ca_Status c)) - nr_MemoryMB (ca_Reserved c))" "0 \<le> nr_MemoryMB (st_Free (ca_Status c)) - nr_MemoryMB (ca_Reserved c)"
  shows "\<exists>c1. candidate rnd (reserve i grow now n) = Some c1 \<and> nr_MemoryMB (ca_Reserved c1) \<le> nr_MemoryMB (st_Free (ca_Status c1))"
  using assms reserved_after [OF assms(1), of i grow now]
  by (auto simp: roomFor_def Let_def add_res_def i64_id same_size_def zero_res_def)

text \<open>
  The room for a resize is looked for and then taken in two steps with nothing held between them. Two requests
  can both find the same room: each would be refused after the other, and together they are given more memory than the node
  has free.
\<close>

theorem resizes_share_room:
  "\<exists>n c c2. candidate Fin n = Some c \<and> roomFor Fin n (demo_size 800 0) \<and> roomFor Fin n (demo_size 600 0) \<and>
     \<not> roomFor Fin (reserve 0 (demo_size 800 0) 0 n) (demo_size 600 0) \<and>
     candidate Fin (reserve 1 (demo_size 600 0) 0 (reserve 0 (demo_size 800 0) 0 n)) = Some c2 \<and>
     nr_MemoryMB (ca_Reserved c) \<le> nr_MemoryMB (st_Free (ca_Status c)) \<and> nr_MemoryMB (ca_Reserved c2) > nr_MemoryMB (st_Free (ca_Status c2))"
proof -
  let ?n = "(newNode ''a'')\<lparr>gn_healthy := True, gn_status := Some demo_status\<rparr>"
  show ?thesis
    by (rule exI [of _ ?n])
      (simp add: candidate_def newNode_def roomFor_def reserve_def Let_def add_res_def demo_size_def demo_status_def demo_node_def same_size_def zero_res_def
        i64_id in_i64_def)
qed

end
