(* ===== verification/Gateway_Services.thy ===== *)
theory Gateway_Services
  imports Gateway_Create
begin

text \<open>
  Services of the gateway (\<open>services.go\<close>, \<open>services_store.go\<close>, \<open>services_health.go\<close> and the decisions of \<open>services_controller.go\<close>, with the references
  of \<open>secrets.go\<close>): a sandbox spec and a count the gateway keeps true. Here are the data, the checks of a spec, the API's handlers, the
  health of a replica and the step a controller's pass takes next; \<open>Gateway_Replicas\<close> runs them against each other.
\<close>

subsection \<open>The spec\<close>

text \<open>
  A slice the code compares with \<open>reflect.DeepEqual\<close> tells a missing list (None) from an empty one; env and command are made alike by
  \<open>spec_shape\<close> before that.
\<close>

record ServiceHealth =
  hl_HTTP :: bytes
  hl_Command :: "bytes list option"
  hl_EverySecs :: int
  hl_TimeoutSecs :: int
  hl_Failures :: int

record ServiceResources =
  rs_CPUs :: f64
  rs_MemoryMB :: int
  rs_DiskMB :: int

record ServiceSpec =
  ss_Name :: bytes
  ss_Image :: bytes
  ss_Command :: "bytes list"
  ss_Replicas :: int
  ss_Resources :: ServiceResources
  ss_Port :: int
  ss_Health :: "ServiceHealth option"
  ss_Env :: "(bytes \<times> bytes) list"
  ss_Network :: "NetworkPolicy option"
  ss_Spread :: bytes
  ss_Public :: bool
  ss_Secrets :: "bytes list option"

definition MaxServiceReplicas :: int where
  "MaxServiceReplicas = 100"

definition serviceNameRE :: rx where
  "serviceNameRE = Seq (Cls lower_digit) (Opt (Seq (Upto 61 (Cls lower_digit_dash)) (Cls lower_digit)))"

definition validServiceName :: "bytes \<Rightarrow> bool" where
  "validServiceName s \<longleftrightarrow> rx_match serviceNameRE s \<and> \<not> Contains s ''--''"

definition healthPathRE :: rx where
  "healthPathRE = Seq (Lit ''/'') (Upto 1000 (Cls [(CHR 0x21, CHR 0x7e)]))"

definition tenantLabelRE :: rx where
  "tenantLabelRE = Seq (Cls lower_digit) (Opt (Seq (Star (Cls lower_digit_dash)) (Cls lower_digit)))"

text \<open>The DNS label a service is routed by (\<open>router_http.go\<close>).\<close>

definition routerLabel :: "bytes \<Rightarrow> bytes \<Rightarrow> bytes option" where
  "routerLabel name tenant =
    (if tenant = [] then Some name
     else let l = name @ ''--'' @ tenant in if \<not> rx_match tenantLabelRE tenant \<or> 63 < length l then None else Some l)"

subsection \<open>Secrets a spec names\<close>

definition maxSecretName :: nat where
  "maxSecretName = 128"

definition secretNameRE :: rx where
  "secretNameRE = Seq (Cls [(CHR ''A'', CHR ''Z''), (CHR ''a'', CHR ''z''), (CHR ''_'', CHR ''_'')])
     (Star (Cls [(CHR ''A'', CHR ''Z''), (CHR ''a'', CHR ''z''), (CHR ''0'', CHR ''9''), (CHR ''_'', CHR ''_''), (CHR ''.'', CHR ''.''), (CHR ''-'', CHR ''-'')]))"

datatype secret_error = BadSecretName bytes | ReservedSecretName bytes | NotAVariable bytes | BadVariable bytes | ReservedVariable bytes |
  SetTwice bytes | InEnvToo bytes | NoSecretsKey | NoSuchSecret bytes | NotRead | NotOpened bytes

definition checkSecretName :: "bytes \<Rightarrow> secret_error option" where
  "checkSecretName name =
    (if maxSecretName < length name \<or> \<not> rx_match secretNameRE name then Some (BadSecretName name)
     else if IsReservedEnv name then Some (ReservedSecretName name) else None)"

fun parse_refs :: "bytes list \<Rightarrow> (bytes \<times> bytes) list \<Rightarrow> (bytes \<times> bytes) list \<Rightarrow> (secret_error, (bytes \<times> bytes) list) result" where
  "parse_refs [] env out = Inr out"
| "parse_refs (ref # refs) env out =
    (let (v, name, mapped) = (case Cut ref ''='' of None \<Rightarrow> (ref, ref, False) | Some (a, b) \<Rightarrow> (a, b, True)) in
     unless_err (checkSecretName name) (
     if \<not> ValidEnvName v \<and> \<not> mapped then Inl (NotAVariable name)
     else if \<not> ValidEnvName v \<or> maxSecretName < length v then Inl (BadVariable ref)
     else if IsReservedEnv v then Inl (ReservedVariable v)
     else if v \<in> fst ` set out then Inl (SetTwice v)
     else if map_of env v \<noteq> None then Inl (InEnvToo v)
     else parse_refs refs env (out @ [(v, name)])))"

definition parseSecretRefs :: "bytes list \<Rightarrow> (bytes \<times> bytes) list \<Rightarrow> (secret_error, (bytes \<times> bytes) list) result" where
  "parseSecretRefs refs env = parse_refs refs env []"

text \<open>
  What the gateway has of secrets: whether it has a key, what the store answers for a tenant's secret (None where it does not answer)
  and what the sealed value opens to.
\<close>

record secrets_env =
  sx_sealer :: bool
  sx_Sealed :: "bytes \<Rightarrow> bytes \<Rightarrow> bytes option option"
  sx_open :: "bytes \<Rightarrow> bytes \<Rightarrow> bytes option"

definition secretAD :: "bytes \<Rightarrow> bytes \<Rightarrow> bytes" where
  "secretAD tenant name = ''sandbox-gateway secret v1'' @ [CHR 0x00] @ tenant @ [CHR 0x00] @ name"

fun open_refs :: "secrets_env \<Rightarrow> bytes \<Rightarrow> (bytes \<times> bytes) list \<Rightarrow> (secret_error, (bytes \<times> bytes) list) result" where
  "open_refs x tenant [] = Inr []"
| "open_refs x tenant ((v, name) # refs) = (case sx_Sealed x tenant name of
      None \<Rightarrow> Inl NotRead
    | Some None \<Rightarrow> Inl (NoSuchSecret name)
    | Some (Some sealed) \<Rightarrow> (case sx_open x sealed (secretAD tenant name) of
        None \<Rightarrow> Inl (NotOpened name)
      | Some plain \<Rightarrow> and_then (open_refs x tenant refs) (\<lambda>vs. Inr ((v, plain) # vs))))"

definition secretValues :: "secrets_env \<Rightarrow> bytes \<Rightarrow> bytes list \<Rightarrow> (secret_error, (bytes \<times> bytes) list) result" where
  "secretValues x tenant refs =
    (if refs = [] then Inr []
     else if \<not> sx_sealer x then Inl NoSecretsKey
     else and_then (parseSecretRefs refs []) (open_refs x tenant))"

subsection \<open>Checks of a spec\<close>

definition health_defaults :: "ServiceHealth \<Rightarrow> ServiceHealth" where
  "health_defaults h =
    (let every = (if hl_EverySecs h = 0 then 10 else hl_EverySecs h)
     in h\<lparr>hl_EverySecs := every, hl_TimeoutSecs := (if hl_TimeoutSecs h = 0 then min 5 every else hl_TimeoutSecs h),
          hl_Failures := (if hl_Failures h = 0 then 3 else hl_Failures h)\<rparr>)"

definition checkHealth :: "int \<Rightarrow> ServiceHealth \<Rightarrow> (refusal, ServiceHealth) result" where
  "checkHealth port h =
    (if (hl_HTTP h = []) = (items (hl_Command h) = []) then Inl invalid
     else if hl_HTTP h \<noteq> [] \<and> \<not> rx_match healthPathRE (hl_HTTP h) then Inl invalid
     else if hl_HTTP h \<noteq> [] \<and> port = 0 then Inl invalid
     else if list_ex (\<lambda>a. CHR 0x00 \<in> set a) (items (hl_Command h)) then Inl invalid
     else let h1 = health_defaults h in
       if hl_EverySecs h1 < 1 \<or> hl_EverySecs h1 > 3600 then Inl invalid
       else if hl_TimeoutSecs h1 < 1 \<or> hl_TimeoutSecs h1 > 300 then Inl invalid
       else if hl_Failures h1 < 1 \<or> hl_Failures h1 > 100 then Inl invalid
       else Inr h1)"

definition checkServiceSpec :: "ServiceSpec \<Rightarrow> bytes \<Rightarrow> (refusal, ServiceSpec) result" where
  "checkServiceSpec sp tenant =
    (if \<not> validServiceName (ss_Name sp) then Inl invalid
     else if ss_Replicas sp < 0 \<or> ss_Replicas sp > MaxServiceReplicas then Inl invalid
     else if 256 < length (ss_Command sp) then Inl invalid
     else if list_ex (\<lambda>a. CHR 0x00 \<in> set a) (ss_Command sp) then Inl invalid
     else if f_lt (rs_CPUs (ss_Resources sp)) (Fin 0) \<or> rs_MemoryMB (ss_Resources sp) < 0 \<or> rs_DiskMB (ss_Resources sp) < 0 then Inl invalid
     else if ss_Port sp < 0 \<or> ss_Port sp > 65535 then Inl invalid
     else and_then (case ss_Health sp of None \<Rightarrow> Inr None | Some h \<Rightarrow> and_then (checkHealth (ss_Port sp) h) (\<lambda>h1. Inr (Some h1))) (\<lambda>health.
     let sp1 = sp\<lparr>ss_Health := health\<rparr> in
     (case ResolveEnv (ss_Env sp) of
        Inl (Refused _) \<Rightarrow> Inl (403, ''refused'')
      | Inl _ \<Rightarrow> Inl invalid
      | Inr _ \<Rightarrow>
          if (case ss_Network sp of None \<Rightarrow> False | Some n \<Rightarrow> NetworkRank (np_Mode n) < 0) then Inl invalid
          else if ss_Spread sp \<noteq> [] \<and> ss_Spread sp \<noteq> ''node'' then Inl invalid
          else if ss_Public sp \<and> (ss_Port sp = 0 \<or> routerLabel (ss_Name sp) tenant = None) then Inl invalid
          else if is_ok (parseSecretRefs (items (ss_Secrets sp)) (ss_Env sp)) then Inr sp1 else Inl invalid)))"

definition checkServiceSecrets :: "secrets_env \<Rightarrow> ServiceSpec \<Rightarrow> bytes \<Rightarrow> refusal option" where
  "checkServiceSecrets x sp tenant =
    (if items (ss_Secrets sp) = [] then None
     else if \<not> sx_sealer x then Some unsupported
     else case parseSecretRefs (items (ss_Secrets sp)) (ss_Env sp) of
       Inl _ \<Rightarrow> Some invalid
     | Inr refs \<Rightarrow> for_all_ok (\<lambda>(v, name). case sx_Sealed x tenant name of
         None \<Rightarrow> Some unavailable | Some None \<Rightarrow> Some invalid | Some (Some _) \<Rightarrow> None) refs)"

definition checkServiceGroups :: "EgressGroup list option \<Rightarrow> ServiceSpec \<Rightarrow> refusal option" where
  "checkServiceGroups groups sp = (case applyGroups groups (ss_Network sp) of Inl (r, _) \<Rightarrow> Some r | Inr _ \<Rightarrow> None)"

subsection \<open>What makes a revision\<close>

definition spec_shape :: "ServiceSpec \<Rightarrow> ServiceSpec" where
  "spec_shape sp = sp\<lparr>ss_Name := [], ss_Replicas := 0, ss_Public := False, ss_Spread := []\<rparr>"

definition same_map :: "(bytes \<times> bytes) list \<Rightarrow> (bytes \<times> bytes) list \<Rightarrow> bool" where
  "same_map xs ys \<longleftrightarrow> list_all (\<lambda>(k, _). map_of xs k = map_of ys k) (xs @ ys)"

definition same_shape :: "ServiceSpec \<Rightarrow> ServiceSpec \<Rightarrow> bool" where
  "same_shape a b \<longleftrightarrow> (spec_shape a)\<lparr>ss_Env := []\<rparr> = (spec_shape b)\<lparr>ss_Env := []\<rparr> \<and> same_map (ss_Env a) (ss_Env b)"

text \<open>\<open>clone\<close> goes through JSON, where an empty list marked \<open>omitempty\<close> comes back missing; \<open>allow\<close> of a network is not marked.\<close>

definition omitempty :: "'a list option \<Rightarrow> 'a list option" where
  "omitempty xs = (if xs = Some [] then None else xs)"

definition clone_spec :: "ServiceSpec \<Rightarrow> ServiceSpec" where
  "clone_spec sp = sp\<lparr>ss_Secrets := omitempty (ss_Secrets sp),
     ss_Health := map_option (\<lambda>h. h\<lparr>hl_Command := omitempty (hl_Command h)\<rparr>) (ss_Health sp),
     ss_Network := map_option (\<lambda>n. n\<lparr>np_Deny := omitempty (np_Deny n), np_Groups := omitempty (np_Groups n)\<rparr>) (ss_Network sp)\<rparr>"

subsection \<open>The record of a service\<close>

record revision =
  rv_Rev :: int
  rv_Spec :: ServiceSpec

record replicaRecord =
  rp_Sandbox :: bytes
  rp_Node :: bytes
  rp_Rev :: int
  rp_PID :: int
  rp_Restarts :: int
  rp_Created :: int

record ServiceRollout =
  ro_State :: bytes
  ro_From :: int
  ro_To :: int
  ro_Reason :: bytes

record serviceRecord =
  sr_Name :: bytes
  sr_User :: bytes
  sr_Tenant :: bytes
  sr_Spec :: ServiceSpec
  sr_Revision :: int
  sr_Serving :: revision
  sr_Target :: "revision option"
  sr_Older :: "revision list"
  sr_Rollout :: "ServiceRollout option"
  sr_Members :: "replicaRecord list"
  sr_Restarts :: int
  sr_Created :: int
  sr_Updated :: int

definition clone_revision :: "revision \<Rightarrow> revision" where
  "clone_revision rv = rv\<lparr>rv_Spec := clone_spec (rv_Spec rv)\<rparr>"

definition clone :: "serviceRecord \<Rightarrow> serviceRecord" where
  "clone r = r\<lparr>sr_Spec := clone_spec (sr_Spec r), sr_Serving := clone_revision (sr_Serving r),
     sr_Target := map_option clone_revision (sr_Target r), sr_Older := map clone_revision (sr_Older r)\<rparr>"

definition pruneOlder :: "serviceRecord \<Rightarrow> serviceRecord" where
  "pruneOlder r = r\<lparr>sr_Older := filter (\<lambda>o'. list_ex (\<lambda>m. rp_Rev m = rv_Rev o') (sr_Members r)) (sr_Older r)\<rparr>"

definition appendNew :: "bytes list \<Rightarrow> bytes list \<Rightarrow> bytes list" where
  "appendNew xs ids = foldl (\<lambda>l sid. if sid \<in> set l then l else l @ [sid]) xs ids"

subsection \<open>The service the gateway holds\<close>

record replicaHealth =
  rh_checking :: bool
  rh_checked :: bool
  rh_healthy :: bool
  rh_fails :: int
  rh_lastCheck :: "int option"
  rh_lastErr :: bytes
  rh_lost :: bool
  rh_fatal :: bool

definition no_health :: replicaHealth where
  "no_health = \<lparr>rh_checking = False, rh_checked = False, rh_healthy = False, rh_fails = 0, rh_lastCheck = None, rh_lastErr = [],
     rh_lost = False, rh_fatal = False\<rparr>"

text \<open>\<open>nextCreate\<close> and \<open>lastCheck\<close> are None for the zero time, which is before every other.\<close>

record service =
  sv_rec :: serviceRecord
  sv_health :: "bytes \<Rightarrow> replicaHealth option"
  sv_gone :: bool
  sv_pending :: "int list"
  sv_crashes :: int
  sv_nextCreate :: "int option"
  sv_lastErr :: bytes
  sv_rr :: "64 word"

text \<open>A service as \<open>newServiceCtl\<close> takes it from the store.\<close>

definition fresh_service :: "serviceRecord \<Rightarrow> service" where
  "fresh_service r = \<lparr>sv_rec = r, sv_health = (\<lambda>_. None), sv_gone = False, sv_pending = [], sv_crashes = 0, sv_nextCreate = None,
     sv_lastErr = [], sv_rr = 0\<rparr>"

text \<open>\<open>h\<close> makes an empty entry where there is none; nothing tells such an entry from none.\<close>

definition health_of :: "service \<Rightarrow> bytes \<Rightarrow> replicaHealth" where
  "health_of s sid = (case sv_health s sid of None \<Rightarrow> no_health | Some h \<Rightarrow> h)"

definition specOf :: "serviceRecord \<Rightarrow> int \<Rightarrow> ServiceSpec" where
  "specOf r rn = (case sr_Target r of
      Some t \<Rightarrow> if rv_Rev t = rn then rv_Spec t
        else (case find (\<lambda>o'. rv_Rev o' = rn) (sr_Older r) of Some o' \<Rightarrow> rv_Spec o' | None \<Rightarrow> rv_Spec (sr_Serving r))
    | None \<Rightarrow> (case find (\<lambda>o'. rv_Rev o' = rn) (sr_Older r) of Some o' \<Rightarrow> rv_Spec o' | None \<Rightarrow> rv_Spec (sr_Serving r)))"

subsection \<open>The handlers\<close>

record svc_env =
  se_secrets :: secrets_env
  se_groups :: "EgressGroup list option"

definition check_rest :: "svc_env \<Rightarrow> ServiceSpec \<Rightarrow> bytes \<Rightarrow> refusal option" where
  "check_rest e sp tenant = (case checkServiceSecrets (se_secrets e) sp tenant of
      Some r \<Rightarrow> Some r | None \<Rightarrow> checkServiceGroups (se_groups e) sp)"

definition not_recorded :: refusal where
  "not_recorded = (500, ''internal'')"

text \<open>\<open>taken\<close> is whether the tenant has a service of the name, \<open>wrote\<close> whether the store took the record.\<close>

definition createService :: "svc_env \<Rightarrow> Principal \<Rightarrow> ServiceSpec \<Rightarrow> bool \<Rightarrow> bool \<Rightarrow> int \<Rightarrow> (refusal, service) result" where
  "createService e p sp taken wrote now =
    (if \<not> Can p ''sandbox:create'' then Inl (403, ''refused'')
     else and_then (checkServiceSpec sp (pp_Tenant p)) (\<lambda>sp1.
       unless_err (check_rest e sp1 (pp_Tenant p)) (
       if taken then Inl conflict
       else if \<not> wrote then Inl not_recorded
       else Inr (fresh_service \<lparr>sr_Name = ss_Name sp1, sr_User = pp_User p, sr_Tenant = pp_Tenant p, sr_Spec = sp1, sr_Revision = 1,
         sr_Serving = \<lparr>rv_Rev = 1, rv_Spec = sp1\<rparr>, sr_Target = None, sr_Older = [], sr_Rollout = None, sr_Members = [], sr_Restarts = 0,
         sr_Created = now, sr_Updated = now\<rparr>))))"

text \<open>\<open>lookupService\<close>: the tenant's service of the name the path has, when it is the caller's own.\<close>

definition lookupService :: "(bytes \<Rightarrow> bytes \<Rightarrow> service option) \<Rightarrow> Principal \<Rightarrow> bytes \<Rightarrow> (refusal, service) result" where
  "lookupService svcs p name = (case svcs (pp_Tenant p) name of
      None \<Rightarrow> Inl not_found
    | Some s \<Rightarrow> if mayAct p \<lparr>ow_User = sr_User (sv_rec s), ow_Tenant = sr_Tenant (sv_rec s), ow_Node = []\<rparr> then Inr s else Inl not_found)"

definition new_target :: "ServiceSpec \<Rightarrow> serviceRecord \<Rightarrow> serviceRecord" where
  "new_target sp r = r\<lparr>sr_Revision := sr_Revision r + 1,
     sr_Older := sr_Older r @ (case sr_Target r of None \<Rightarrow> [] | Some t \<Rightarrow> [t]),
     sr_Target := Some \<lparr>rv_Rev = sr_Revision r + 1, rv_Spec = sp\<rparr>,
     sr_Rollout := Some \<lparr>ro_State = ''in_progress'', ro_From = rv_Rev (sr_Serving r), ro_To = sr_Revision r + 1, ro_Reason = []\<rparr>\<rparr>"

definition newest_rev :: "serviceRecord \<Rightarrow> revision" where
  "newest_rev r = (case sr_Target r of None \<Rightarrow> sr_Serving r | Some t \<Rightarrow> t)"

definition updated_record :: "ServiceSpec \<Rightarrow> int \<Rightarrow> serviceRecord \<Rightarrow> serviceRecord" where
  "updated_record sp now r =
    (let r1 = (if same_shape sp (rv_Spec (newest_rev r)) then clone r else new_target sp (clone r))
     in r1\<lparr>sr_Spec := sp, sr_Updated := now\<rparr>)"

definition updateService ::
  "svc_env \<Rightarrow> (bytes \<Rightarrow> bytes \<Rightarrow> service option) \<Rightarrow> Principal \<Rightarrow> bytes \<Rightarrow> bool \<Rightarrow> ServiceSpec \<Rightarrow> bool \<Rightarrow> int \<Rightarrow> (refusal, service) result" where
  "updateService e svcs p name keep_env sp wrote now =
    (let sp0 = (if ss_Name sp = [] then sp\<lparr>ss_Name := name\<rparr> else sp) in
     if \<not> Can p ''sandbox:create'' then Inl (403, ''refused'')
     else if ss_Name sp0 \<noteq> name then Inl invalid
     else and_then (lookupService svcs p name) (\<lambda>s.
       if sv_gone s then Inl not_found
       else if keep_env \<and> ss_Env sp0 \<noteq> [] then Inl invalid
       else let sp1 = (if keep_env then sp0\<lparr>ss_Env := ss_Env (sr_Spec (sv_rec s))\<rparr> else sp0) in
         and_then (checkServiceSpec sp1 (sr_Tenant (sv_rec s))) (\<lambda>sp2.
         unless_err (check_rest e sp2 (sr_Tenant (sv_rec s))) (
         if \<not> wrote then Inl not_recorded
         else Inr (s\<lparr>sv_rec := updated_record sp2 now (sv_rec s)\<rparr>)))))"

definition redeployed_record :: "int \<Rightarrow> serviceRecord \<Rightarrow> serviceRecord" where
  "redeployed_record now r = (new_target (sr_Spec (clone r)) (clone r))\<lparr>sr_Updated := now\<rparr>"

definition redeployService :: "svc_env \<Rightarrow> (bytes \<Rightarrow> bytes \<Rightarrow> service option) \<Rightarrow> Principal \<Rightarrow> bytes \<Rightarrow> bool \<Rightarrow> int \<Rightarrow> (refusal, service) result" where
  "redeployService e svcs p name wrote now =
    (if \<not> Can p ''sandbox:create'' then Inl (403, ''refused'')
     else and_then (lookupService svcs p name) (\<lambda>s.
       if sv_gone s then Inl not_found
       else unless_err (check_rest e (sr_Spec (sv_rec s)) (sr_Tenant (sv_rec s))) (
         if \<not> wrote then Inl not_recorded else Inr (s\<lparr>sv_rec := redeployed_record now (sv_rec s)\<rparr>))))"

definition scaled_record :: "int \<Rightarrow> int \<Rightarrow> serviceRecord \<Rightarrow> serviceRecord" where
  "scaled_record n now r = (let c = clone r in c\<lparr>sr_Spec := (sr_Spec c)\<lparr>ss_Replicas := n\<rparr>, sr_Updated := now\<rparr>)"

definition scaleService :: "(bytes \<Rightarrow> bytes \<Rightarrow> service option) \<Rightarrow> Principal \<Rightarrow> bytes \<Rightarrow> int \<Rightarrow> bool \<Rightarrow> int \<Rightarrow> (refusal, service) result" where
  "scaleService svcs p name n wrote now =
    (if \<not> Can p ''sandbox:create'' then Inl (403, ''refused'')
     else if n < 0 \<or> n > MaxServiceReplicas then Inl invalid
     else and_then (lookupService svcs p name) (\<lambda>s.
       if sv_gone s then Inl not_found
       else if \<not> wrote then Inl not_recorded else Inr (s\<lparr>sv_rec := scaled_record n now (sv_rec s)\<rparr>)))"

text \<open>The ids that join the retire queue in the write that removes the record, and the service as it is left.\<close>

definition deleted :: "service \<Rightarrow> service" where
  "deleted s = s\<lparr>sv_gone := True, sv_rec := (sv_rec s)\<lparr>sr_Members := []\<rparr>\<rparr>"

definition deleteService :: "(bytes \<Rightarrow> bytes \<Rightarrow> service option) \<Rightarrow> Principal \<Rightarrow> bytes \<Rightarrow> bool \<Rightarrow> (refusal, service \<times> bytes list) result" where
  "deleteService svcs p name wrote =
    (if \<not> Can p ''sandbox:create'' \<or> \<not> Can p ''sandbox:delete'' then Inl (403, ''refused'')
     else and_then (lookupService svcs p name) (\<lambda>s.
       if sv_gone s then Inl not_found
       else if \<not> wrote then Inl not_recorded else Inr (deleted s, map rp_Sandbox (sr_Members (sv_rec s)))))"

subsection \<open>Health\<close>

record checkResult =
  cr_ok :: bool
  cr_fatal :: bool
  cr_err :: bytes

definition apply_check :: "checkResult \<Rightarrow> int \<Rightarrow> replicaHealth \<Rightarrow> replicaHealth" where
  "apply_check r at' h =
    (let h1 = h\<lparr>rh_checking := False, rh_checked := True, rh_lastCheck := Some at'\<rparr> in
     if cr_fatal r then h1\<lparr>rh_fatal := True, rh_healthy := False, rh_lastErr := cr_err r\<rparr>
     else if cr_ok r then h1\<lparr>rh_healthy := True, rh_fails := 0, rh_lastErr := []\<rparr>
     else h1\<lparr>rh_healthy := False, rh_lastErr := cr_err r, rh_fails := rh_fails h + 1\<rparr>)"

text \<open>
  One check of a replica. The node's answers: the process the replica was started with, the probe over a tunnel, a command run in
  it. An error is its code where the node sent one, and \<open>reason\<close> of it.
\<close>

datatype 'a asked_node = Answered_node 'a | Not_found_node | Failed_node bytes

record proc_view =
  pv_exited :: bool
  pv_code :: "int option"

record run_view =
  rw_TimedOut :: bool
  rw_ExitCode :: int

definition decimal :: "int \<Rightarrow> bytes" where
  "decimal n = (if n < 0 then CHR ''-'' # Itoa (nat (- n)) else Itoa (nat n))"

definition ok_check :: checkResult where
  "ok_check = \<lparr>cr_ok = True, cr_fatal = False, cr_err = []\<rparr>"

definition failed_check :: "bytes \<Rightarrow> checkResult" where
  "failed_check err = \<lparr>cr_ok = False, cr_fatal = False, cr_err = err\<rparr>"

definition fatal_check :: "bytes \<Rightarrow> checkResult" where
  "fatal_check err = \<lparr>cr_ok = False, cr_fatal = True, cr_err = err\<rparr>"

definition check_process :: "proc_view asked_node \<Rightarrow> checkResult option" where
  "check_process ans = (case ans of
      Not_found_node \<Rightarrow> Some (fatal_check ''the sandbox or its command is gone'')
    | Failed_node err \<Rightarrow> Some (failed_check err)
    | Answered_node p \<Rightarrow> if pv_exited p then Some (fatal_check (''the command exited with status '' @
        (case pv_code p of None \<Rightarrow> ''?'' | Some c \<Rightarrow> decimal c))) else None)"

text \<open>\<open>clean\<close> is \<open>termsafe.Clean\<close>. The answer is the status of the response.\<close>

definition probeHTTP :: "(bytes \<Rightarrow> bytes) \<Rightarrow> bytes \<Rightarrow> int asked_node \<Rightarrow> checkResult" where
  "probeHTTP clean path ans = (case ans of
      Not_found_node \<Rightarrow> fatal_check ''the sandbox is gone''
    | Failed_node err \<Rightarrow> failed_check err
    | Answered_node st \<Rightarrow> if st < 200 \<or> st \<ge> 400 then failed_check (''GET '' @ clean path @ '' answered '' @ decimal st) else ok_check)"

definition check_command :: "run_view asked_node \<Rightarrow> checkResult" where
  "check_command ans = (case ans of
      Not_found_node \<Rightarrow> fatal_check ''the sandbox is gone''
    | Failed_node err \<Rightarrow> failed_check err
    | Answered_node r \<Rightarrow> if rw_TimedOut r then failed_check ''the health command timed out''
        else if rw_ExitCode r \<noteq> 0 then failed_check (''the health command exited with status '' @ decimal (rw_ExitCode r)) else ok_check)"

definition check :: "(bytes \<Rightarrow> bytes) \<Rightarrow> (int \<Rightarrow> proc_view asked_node) \<Rightarrow> (int \<Rightarrow> bytes \<Rightarrow> int asked_node) \<Rightarrow> (bytes list \<Rightarrow> run_view asked_node) \<Rightarrow>
    replicaRecord \<Rightarrow> ServiceSpec \<Rightarrow> checkResult" where
  "check clean proc probe run m sp =
    (case (if rp_PID m > 0 then check_process (proc (rp_PID m)) else None) of
       Some r \<Rightarrow> r
     | None \<Rightarrow> (case ss_Health sp of
         None \<Rightarrow> ok_check
       | Some h \<Rightarrow> if hl_HTTP h \<noteq> [] then probeHTTP clean (hl_HTTP h) (probe (ss_Port sp) (hl_HTTP h))
           else check_command (run (items (hl_Command h)))))"

text \<open>
  \<open>observeService\<close>, for one member: \<open>up\<close> is whether its node is known and healthy, \<open>row\<close> what the store answers for its owner.
  The flag says whether a check of it is started.
\<close>

definition seconds :: "int \<Rightarrow> int" where
  "seconds n = n * 1000000000"

definition observe_member :: "serviceRecord \<Rightarrow> bool \<Rightarrow> Owner option option \<Rightarrow> int \<Rightarrow> replicaRecord \<Rightarrow> replicaHealth \<Rightarrow> replicaHealth \<times> bool" where
  "observe_member r up row now m h =
    (let h1 = h\<lparr>rh_lost := \<not> up\<rparr>;
         gone = (case row of None \<Rightarrow> False | Some None \<Rightarrow> True | Some (Some o') \<Rightarrow> ow_Node o' \<noteq> rp_Node m);
         h2 = (if gone then h1\<lparr>rh_fatal := True, rh_lastErr := ''the sandbox is gone''\<rparr> else h1);
         every = (case ss_Health (specOf r (rp_Rev m)) of None \<Rightarrow> seconds 10 | Some hl \<Rightarrow> seconds (hl_EverySecs hl))
     in if rh_lost h2 \<or> rh_fatal h2 \<or> rh_checking h2 then (h2, False)
        else if (case rh_lastCheck h2 of None \<Rightarrow> False | Some l \<Rightarrow> now - l < every) then (h2, False)
        else (h2\<lparr>rh_checking := True\<rparr>, True))"

definition observeService :: "(bytes \<Rightarrow> bool) \<Rightarrow> (bytes \<Rightarrow> Owner option option) \<Rightarrow> int \<Rightarrow> service \<Rightarrow> service" where
  "observeService up row now s =
    (if sv_gone s then s
     else foldl (\<lambda>t m. t\<lparr>sv_health := (sv_health t)(rp_Sandbox m \<mapsto>
            fst (observe_member (sv_rec s) (up (rp_Node m)) (row (rp_Sandbox m)) now m (health_of t (rp_Sandbox m))))\<rparr>)
       s (sr_Members (sv_rec s)))"

text \<open>A check that ends: of a replica retired meanwhile it changes nothing but the count of crashes.\<close>

definition check_done :: "bytes \<Rightarrow> checkResult \<Rightarrow> int \<Rightarrow> service \<Rightarrow> service" where
  "check_done sid r at' s =
    s\<lparr>sv_health := (case sv_health s sid of None \<Rightarrow> sv_health s | Some h \<Rightarrow> (sv_health s)(sid \<mapsto> apply_check r at' h)),
      sv_crashes := (if cr_ok r \<and> \<not> cr_fatal r then 0 else sv_crashes s)\<rparr>"

subsection \<open>The next step\<close>

definition backoff :: "int \<Rightarrow> int" where
  "backoff crashes = (if crashes \<le> 1 then 0 else min (seconds (2 ^ nat (min (crashes - 2) 6))) (seconds 60))"

definition failures_of :: "ServiceSpec \<Rightarrow> int" where
  "failures_of sp = (case ss_Health sp of None \<Rightarrow> 3 | Some h \<Rightarrow> hl_Failures h)"

definition replica_failed :: "service \<Rightarrow> replicaRecord \<Rightarrow> bool" where
  "replica_failed s m \<longleftrightarrow> (let h = health_of s (rp_Sandbox m)
     in rh_fatal h \<or> rh_fails h \<ge> failures_of (specOf (sv_rec s) (rp_Rev m)))"

definition staying :: "service \<Rightarrow> replicaRecord \<Rightarrow> bool" where
  "staying s m \<longleftrightarrow> \<not> replica_failed s m \<and> \<not> rh_lost (health_of s (rp_Sandbox m))"

text \<open>A member that leaves: lost with its node, or failed and counted as a crash.\<close>

definition drop_one :: "service \<Rightarrow> int \<Rightarrow> service \<Rightarrow> replicaRecord \<Rightarrow> service" where
  "drop_one s0 now s m =
    (if rh_lost (health_of s0 (rp_Sandbox m)) then s\<lparr>sv_pending := sv_pending s @ [rp_Restarts m]\<rparr>
     else s\<lparr>sv_rec := (sv_rec s)\<lparr>sr_Restarts := sr_Restarts (sv_rec s) + 1\<rparr>, sv_crashes := sv_crashes s + 1,
            sv_nextCreate := Some (now + backoff (sv_crashes s + 1)), sv_pending := sv_pending s @ [rp_Restarts m + 1]\<rparr>)"

definition failed_of_target :: "service \<Rightarrow> replicaRecord list \<Rightarrow> replicaRecord option" where
  "failed_of_target s ms = (case sr_Target (sv_rec s) of None \<Rightarrow> None
    | Some t \<Rightarrow> find (\<lambda>m. \<not> rh_lost (health_of s (rp_Sandbox m)) \<and> rp_Rev m = rv_Rev t) ms)"

definition failRollout :: "bytes \<Rightarrow> int \<Rightarrow> service \<Rightarrow> service" where
  "failRollout why now s = (case sr_Target (sv_rec s) of None \<Rightarrow> s
    | Some t \<Rightarrow> s\<lparr>sv_rec := (sv_rec s)\<lparr>
          sr_Rollout := Some \<lparr>ro_State = ''failed'', ro_From = rv_Rev (sr_Serving (sv_rec s)), ro_To = rv_Rev t, ro_Reason = why\<rparr>,
          sr_Older := sr_Older (sv_rec s) @ [t], sr_Target := None, sr_Updated := now\<rparr>,
        sv_crashes := 0, sv_nextCreate := None\<rparr>)"

definition pick_better :: "service \<Rightarrow> bool \<Rightarrow> replicaRecord \<Rightarrow> replicaRecord \<Rightarrow> replicaRecord" where
  "pick_better s by_newest b m =
    (let bh = rh_healthy (health_of s (rp_Sandbox b)); mh = rh_healthy (health_of s (rp_Sandbox m))
     in if bh \<noteq> mh then (if bh then m else b)
        else if by_newest = (rp_Created m > rp_Created b) then m else b)"

fun pickRetire :: "service \<Rightarrow> replicaRecord list \<Rightarrow> bool \<Rightarrow> bytes" where
  "pickRetire s (m # ms) by_newest = rp_Sandbox (foldl (pick_better s by_newest) m ms)"
| "pickRetire s [] by_newest = []"

fun remove_member :: "bytes \<Rightarrow> replicaRecord list \<Rightarrow> replicaRecord list" where
  "remove_member sid [] = []"
| "remove_member sid (m # ms) = (if rp_Sandbox m = sid then ms else m # remove_member sid ms)"

text \<open>The record as \<open>persistService\<close> leaves and writes it.\<close>

definition persisted :: "service \<Rightarrow> service" where
  "persisted s = s\<lparr>sv_rec := pruneOlder (sv_rec s)\<rparr>"

definition retireStep :: "bytes list \<Rightarrow> int \<Rightarrow> service \<Rightarrow> service" where
  "retireStep ids now s =
    (let s1 = foldl (\<lambda>t sid. t\<lparr>sv_rec := (sv_rec t)\<lparr>sr_Members := remove_member sid (sr_Members (sv_rec t))\<rparr>, sv_health := (sv_health t)(sid := None)\<rparr>) s ids
     in persisted (s1\<lparr>sv_rec := (sv_rec s1)\<lparr>sr_Updated := now\<rparr>\<rparr>))"

definition createStep :: "service \<Rightarrow> service \<times> int" where
  "createStep s = (case sv_pending s of [] \<Rightarrow> (s, 0) | r # rest \<Rightarrow> (s\<lparr>sv_pending := rest\<rparr>, r))"

definition member_spread :: "serviceRecord \<Rightarrow> (bytes \<Rightarrow> int) option" where
  "member_spread r = (if ss_Spread (sr_Spec r) = ''node''
     then Some (\<lambda>n. int (length (filter (\<lambda>m. rp_Node m = n) (sr_Members r)))) else None)"

text \<open>
  What \<open>decide\<close> comes to: nothing to do; the record changed and written; replicas taken out, written with their ids queued, to be
  terminated; a replica of a revision to be made, with the restarts it inherits.
\<close>

datatype decision = Rest | Recorded | Retires "bytes list" | Creates revision int

definition of_rev :: "int \<Rightarrow> replicaRecord list \<Rightarrow> replicaRecord list" where
  "of_rev rn = filter (\<lambda>m. rp_Rev m = rn)"

definition not_of_rev :: "int \<Rightarrow> replicaRecord list \<Rightarrow> replicaRecord list" where
  "not_of_rev rn = filter (\<lambda>m. rp_Rev m \<noteq> rn)"

definition healthy_in :: "service \<Rightarrow> replicaRecord list \<Rightarrow> replicaRecord list" where
  "healthy_in s = filter (\<lambda>m. rh_healthy (health_of s (rp_Sandbox m)))"

definition drop_failed :: "int \<Rightarrow> replicaRecord list \<Rightarrow> service \<Rightarrow> service" where
  "drop_failed now out s =
    (let s1 = foldl (drop_one s now) s out;
         s2 = s1\<lparr>sv_rec := (sv_rec s1)\<lparr>sr_Members := filter (staying s) (sr_Members (sv_rec s))\<rparr>\<rparr>;
         s3 = (case failed_of_target s out of None \<Rightarrow> s2
           | Some m \<Rightarrow> failRollout (''replica '' @ rp_Sandbox m @ '' of revision '' @ decimal (rp_Rev m) @ '' failed: '' @
               rh_lastErr (health_of s (rp_Sandbox m))) now s2)
     in retireStep (map rp_Sandbox out) now s3)"

definition rollout_done :: "int \<Rightarrow> service \<Rightarrow> service" where
  "rollout_done now s = (case sr_Target (sv_rec s) of None \<Rightarrow> s
    | Some t \<Rightarrow> persisted (s\<lparr>sv_rec := (sv_rec s)\<lparr>sr_Serving := t, sr_Target := None,
        sr_Rollout := map_option (\<lambda>ro. ro\<lparr>ro_State := ''done''\<rparr>) (sr_Rollout (sv_rec s)), sr_Updated := now\<rparr>\<rparr>))"

text \<open>\<open>active\<close> is what \<open>userActiveCached\<close> answers for the owner, None an error.\<close>

definition decide :: "int \<Rightarrow> bool option \<Rightarrow> service \<Rightarrow> service \<times> decision" where
  "decide now active s =
    (if sv_gone s then (s, Rest)
     else let r = sv_rec s; desired = ss_Replicas (sr_Spec r); want = newest_rev r;
              out = filter (\<lambda>m. \<not> staying s m) (sr_Members r) in
       if out \<noteq> [] then (drop_failed now out s, Retires (map rp_Sandbox out))
       else let old = not_of_rev (rv_Rev want) (sr_Members r); cur = of_rev (rv_Rev want) (sr_Members r);
                healthyCur = int (length (healthy_in s cur)); starting = int (length cur) - healthyCur in
         if old \<noteq> [] \<and> healthyCur + int (length old) > desired
         then let sid = pickRetire s old False in (retireStep [sid] now s, Retires [sid])
         else if int (length cur) > desired
         then let sid = pickRetire s cur True in (retireStep [sid] now s, Retires [sid])
         else if sr_Target r \<noteq> None \<and> old = [] \<and> healthyCur = desired then (rollout_done now s, Recorded)
         else if int (length cur) < desired \<and> (case sv_nextCreate s of None \<Rightarrow> True | Some t \<Rightarrow> t \<le> now)
         then if active = Some False
              then (s\<lparr>sv_lastErr := ''the service's owner holds no active API key; no replica is created''\<rparr>, Rest)
              else if old \<noteq> [] \<and> starting > 0 then (s, Rest)
              else let (s1, restarts) = createStep s in (s1, Creates want restarts)
         else (s, Rest))"

subsection \<open>Making a replica\<close>

text \<open>
  \<open>create\<close> is \<open>createSpread\<close> with the gateway as it is, \<open>row\<close> what the store then answers for the sandbox's owner, \<open>start\<close> what a node
  answers to a process started on it. A sandbox can be made and the create still fail: its owner cannot be read back, or its command
  does not start.
\<close>

type_synonym creator = "Principal \<Rightarrow> (bytes \<times> bytes) list \<Rightarrow> (bytes \<Rightarrow> int) option \<Rightarrow> CreateSandboxRequest \<Rightarrow>
  ((create_fail, bytes \<times> bytes) result \<times> bytes list) option"

datatype started = Started replicaRecord | NotMade create_fail | OwnerNotRead bytes | NotStarted bytes

definition replica_request :: "bytes \<Rightarrow> ServiceSpec \<Rightarrow> (bytes \<times> bytes) list \<Rightarrow> CreateSandboxRequest" where
  "replica_request name sp secrets = \<lparr>rq_Name = [], rq_Image = ss_Image sp, rq_CPUs = rs_CPUs (ss_Resources sp),
     rq_MemoryMB = rs_MemoryMB (ss_Resources sp), rq_DiskMB = rs_DiskMB (ss_Resources sp),
     rq_Env = filter (\<lambda>(k, _). k \<notin> fst ` set secrets) (ss_Env sp) @ secrets, rq_Network = ss_Network sp, rq_IdleTimeoutSecs = 0, rq_IdleAction = [],
     rq_LifetimeSecs = 0, rq_SnapshotID = [], rq_SnapshotEverySecs = 0, rq_SnapshotKeep = 0,
     rq_Labels = [(''type'', ''service''), (''name'', name)], rq_Volumes = [], rq_RegistryLogin = None, rq_MetricsExport = None, rq_GPUs = 0\<rparr>"

definition replica_labels :: "bytes \<Rightarrow> int \<Rightarrow> (bytes \<times> bytes) list" where
  "replica_labels name rn = [(''gateway.service'', name), (''gateway.service.rev'', decimal rn)]"

definition createFor :: "creator \<Rightarrow> (bytes \<Rightarrow> Owner option option) \<Rightarrow> Principal \<Rightarrow> CreateSandboxRequest \<Rightarrow> (bytes \<times> bytes) list \<Rightarrow>
    (bytes \<Rightarrow> int) option \<Rightarrow> (started, bytes \<times> bytes) result option" where
  "createFor create row p req labels spread = map_option (\<lambda>(res, _). case res of
      Inl f \<Rightarrow> Inl (NotMade f)
    | Inr (_, sid) \<Rightarrow> (case row sid of None \<Rightarrow> Inl (OwnerNotRead sid)
        | Some o' \<Rightarrow> Inr (sid, case o' of None \<Rightarrow> [] | Some ow \<Rightarrow> ow_Node ow))) (create p labels spread req)"

definition startReplica :: "secrets_env \<Rightarrow> creator \<Rightarrow> (bytes \<Rightarrow> Owner option option) \<Rightarrow> bytes list \<Rightarrow> (bytes \<Rightarrow> bytes \<Rightarrow> bytes list \<Rightarrow> int option) \<Rightarrow> int \<Rightarrow>
    Principal \<Rightarrow> bytes \<Rightarrow> revision \<Rightarrow> (bytes \<Rightarrow> int) option \<Rightarrow> started option" where
  "startReplica x create row known start now p name rv spread =
    (let sp = rv_Spec rv in
     case secretValues x (pp_Tenant p) (items (ss_Secrets sp)) of
       Inl _ \<Rightarrow> Some (NotMade (failWith invalid))
     | Inr secrets \<Rightarrow> map_option (\<lambda>c. case c of
         Inl failed \<Rightarrow> failed
       | Inr (sid, node) \<Rightarrow>
           let m = \<lparr>rp_Sandbox = sid, rp_Node = node, rp_Rev = rv_Rev rv, rp_PID = 0, rp_Restarts = 0, rp_Created = now\<rparr> in
           if ss_Command sp = [] then Started m
           else if node \<notin> set known then NotStarted sid
           else (case start node sid (ss_Command sp) of None \<Rightarrow> NotStarted sid | Some pid \<Rightarrow> Started (m\<lparr>rp_PID := pid\<rparr>)))
       (createFor create row p (replica_request name sp secrets) (replica_labels name (rv_Rev rv)) spread))"

definition refused :: "create_fail \<Rightarrow> bool" where
  "refused f \<longleftrightarrow> \<not> snd f \<and> 400 \<le> fst (fst f) \<and> fst (fst f) < 500 \<and> fst (fst f) \<noteq> 409"

fun refusedNow :: "started \<Rightarrow> bool" where
  "refusedNow (NotMade f) = refused f"
| "refusedNow (OwnerNotRead sid) = False"
| "refusedNow (NotStarted sid) = True"
| "refusedNow (Started m) = False"

definition rollout_of :: "int \<Rightarrow> service \<Rightarrow> bool" where
  "rollout_of rn s = (case sr_Target (sv_rec s) of None \<Rightarrow> False | Some t \<Rightarrow> rv_Rev t = rn)"

text \<open>\<open>createFailed\<close>: the service, and whether its record was written.\<close>

definition createFailed :: "int \<Rightarrow> bytes \<Rightarrow> bool \<Rightarrow> int \<Rightarrow> service \<Rightarrow> service \<times> bool" where
  "createFailed rn err ref now s =
    (let s1 = s\<lparr>sv_lastErr := err, sv_crashes := sv_crashes s + 1, sv_nextCreate := Some (now + max (backoff (sv_crashes s + 1)) (seconds 1))\<rparr>
     in if rollout_of rn s \<and> ref
        then (persisted (failRollout (''creating a replica of revision '' @ decimal rn @ '': '' @ err) now s1), True)
        else (s1, False))"

definition step_failed :: "revision \<Rightarrow> int \<Rightarrow> bytes \<Rightarrow> bool \<Rightarrow> int \<Rightarrow> service \<Rightarrow> service \<times> bool" where
  "step_failed rv restarts err ref now s = createFailed (rv_Rev rv) err ref now (s\<lparr>sv_pending := restarts # sv_pending s\<rparr>)"

definition replica_made :: "int \<Rightarrow> replicaRecord \<Rightarrow> int \<Rightarrow> service \<Rightarrow> service" where
  "replica_made restarts m now s = persisted (s\<lparr>sv_rec := (sv_rec s)\<lparr>sr_Members := sr_Members (sv_rec s) @ [m\<lparr>rp_Restarts := restarts\<rparr>],
     sr_Updated := now\<rparr>, sv_lastErr := []\<rparr>)"

subsection \<open>Ending a replica\<close>

datatype end_verdict = Later | NoRow | Ended bool

text \<open>\<open>terminateReplicas\<close> for one id: \<open>up\<close> is whether a node is known and healthy, \<open>ans\<close> the status it answers a delete with, None no answer.\<close>

definition terminate_one :: "Owner option option \<Rightarrow> (bytes \<Rightarrow> bool) \<Rightarrow> (bytes \<Rightarrow> nat option) \<Rightarrow> end_verdict" where
  "terminate_one row up ans = (case row of
      None \<Rightarrow> Later
    | Some None \<Rightarrow> NoRow
    | Some (Some o') \<Rightarrow>
        if \<not> up (ow_Node o') then Later
        else (case ans (ow_Node o') of None \<Rightarrow> Later
          | Some st \<Rightarrow> if st \<noteq> 204 \<and> st \<noteq> 404 then Later else Ended (st = 204)))"

definition Retired :: "bytes list \<Rightarrow> bytes list \<Rightarrow> bytes list" where
  "Retired ids queue = filter (\<lambda>sid. sid \<notin> set ids) queue"

definition terminateReplicas :: "(bytes \<Rightarrow> Owner option option) \<Rightarrow> (bytes \<Rightarrow> bool) \<Rightarrow> (bytes \<Rightarrow> bytes \<Rightarrow> nat option) \<Rightarrow> bytes list \<Rightarrow> bytes list \<Rightarrow> bytes list" where
  "terminateReplicas row up ans ids queue =
    Retired (filter (\<lambda>sid. terminate_one (row sid) up (\<lambda>n. ans n sid) \<noteq> Later) ids) queue"

subsection \<open>The view\<close>

record ServiceReplica =
  sp_Sandbox :: bytes
  sp_Node :: bytes
  sp_Revision :: int
  sp_State :: bytes
  sp_Healthy :: bool
  sp_LastCheck :: "int option"
  sp_LastError :: bytes
  sp_Restarts :: int
  sp_CreatedAt :: int

record Service =
  vs_Spec :: ServiceSpec
  vs_EnvNames :: "bytes list"
  vs_Owner :: bytes
  vs_Tenant :: bytes
  vs_Revision :: int
  vs_Serving :: int
  vs_Desired :: int
  vs_Ready :: int
  vs_Restarts :: int
  vs_Rollout :: "ServiceRollout option"
  vs_Error :: bytes
  vs_URL :: bytes
  vs_Replicas :: "ServiceReplica list"
  vs_CreatedAt :: int
  vs_UpdatedAt :: int

definition replica_view :: "service \<Rightarrow> replicaRecord \<Rightarrow> ServiceReplica" where
  "replica_view s m =
    (let h = health_of s (rp_Sandbox m)
     in \<lparr>sp_Sandbox = rp_Sandbox m, sp_Node = rp_Node m, sp_Revision = rp_Rev m,
         sp_State = (if rh_lost h then ''lost'' else if rh_healthy h then ''healthy'' else if rh_checked h then ''unhealthy'' else ''starting''),
         sp_Healthy = (rh_healthy h \<and> \<not> rh_lost h), sp_LastCheck = rh_lastCheck h, sp_LastError = rh_lastErr h,
         sp_Restarts = rp_Restarts m, sp_CreatedAt = rp_Created m\<rparr>)"

text \<open>\<open>url\<close> is \<open>routerURL\<close> of the service.\<close>

definition serviceView :: "bytes \<Rightarrow> service \<Rightarrow> Service" where
  "serviceView url s =
    (let r = clone (sv_rec s); reps = map (replica_view s) (sr_Members r)
     in \<lparr>vs_Spec = (sr_Spec r)\<lparr>ss_Env := []\<rparr>, vs_EnvNames = sort (remdups (map fst (ss_Env (sr_Spec r)))), vs_Owner = sr_User r, vs_Tenant = sr_Tenant r,
         vs_Revision = sr_Revision r, vs_Serving = rv_Rev (sr_Serving r), vs_Desired = ss_Replicas (sr_Spec r),
         vs_Ready = int (length (filter sp_Healthy reps)), vs_Restarts = sr_Restarts r, vs_Rollout = sr_Rollout r, vs_Error = sv_lastErr s,
         vs_URL = (if ss_Public (sr_Spec r) then url else []), vs_Replicas = reps, vs_CreatedAt = sr_Created r, vs_UpdatedAt = sr_Updated r\<rparr>)"

section \<open>A service stays up\<close>

abbreviation members :: "service \<Rightarrow> replicaRecord list" where
  "members s \<equiv> sr_Members (sv_rec s)"

abbreviation desired_of :: "service \<Rightarrow> int" where
  "desired_of s \<equiv> ss_Replicas (sr_Spec (sv_rec s))"

named_theorems svc_simps \<open>what the steps of a service do to its fields\<close>

lemma persisted_fields [svc_simps]:
  "members (persisted s) = members s" "sr_Spec (sv_rec (persisted s)) = sr_Spec (sv_rec s)" "sv_health (persisted s) = sv_health s"
  "sv_gone (persisted s) = sv_gone s" "sr_Serving (sv_rec (persisted s)) = sr_Serving (sv_rec s)" "sr_Target (sv_rec (persisted s)) = sr_Target (sv_rec s)"
  "sr_Revision (sv_rec (persisted s)) = sr_Revision (sv_rec s)"
  by (simp_all add: persisted_def pruneOlder_def)

lemma failRollout_fields [svc_simps]:
  "members (failRollout why now s) = members s" "sr_Spec (sv_rec (failRollout why now s)) = sr_Spec (sv_rec s)"
  "sv_health (failRollout why now s) = sv_health s" "sv_gone (failRollout why now s) = sv_gone s"
  "sr_Serving (sv_rec (failRollout why now s)) = sr_Serving (sv_rec s)" "sr_Revision (sv_rec (failRollout why now s)) = sr_Revision (sv_rec s)"
  by (simp_all add: failRollout_def split: option.splits)

text \<open>What a list of removals takes out of the members: everything but the record's list and its time is as it was.\<close>

lemma remove_fold:
  "foldl (\<lambda>t sid. t\<lparr>sv_rec := (sv_rec t)\<lparr>sr_Members := remove_member sid (sr_Members (sv_rec t))\<rparr>, sv_health := (sv_health t)(sid := None)\<rparr>) s ids
   = s\<lparr>sv_rec := (sv_rec s)\<lparr>sr_Members := foldl (\<lambda>ms sid. remove_member sid ms) (members s) ids\<rparr>,
       sv_health := (\<lambda>k. if k \<in> set ids then None else sv_health s k)\<rparr>"
  by (induction ids arbitrary: s) (auto simp: fun_eq_iff intro!: service.equality)

lemma retireStep_eq: "retireStep ids now s = persisted (s\<lparr>sv_health := (\<lambda>k. if k \<in> set ids then None else sv_health s k),
    sv_rec := (sv_rec s)\<lparr>sr_Members := foldl (\<lambda>ms sid. remove_member sid ms) (members s) ids, sr_Updated := now\<rparr>\<rparr>)"
  by (simp add: retireStep_def remove_fold Let_def)

lemma retireStep_fields [svc_simps]:
  "members (retireStep ids now s) = foldl (\<lambda>ms sid. remove_member sid ms) (members s) ids"
  "sr_Spec (sv_rec (retireStep ids now s)) = sr_Spec (sv_rec s)" "sv_gone (retireStep ids now s) = sv_gone s"
  "sr_Serving (sv_rec (retireStep ids now s)) = sr_Serving (sv_rec s)" "sr_Target (sv_rec (retireStep ids now s)) = sr_Target (sv_rec s)"
  "sr_Revision (sv_rec (retireStep ids now s)) = sr_Revision (sv_rec s)"
  by (simp_all add: retireStep_eq svc_simps)

lemma drop_fold_fields:
  "members (foldl (drop_one s0 now) s out) = members s" "sr_Spec (sv_rec (foldl (drop_one s0 now) s out)) = sr_Spec (sv_rec s)"
  "sv_gone (foldl (drop_one s0 now) s out) = sv_gone s" "sr_Serving (sv_rec (foldl (drop_one s0 now) s out)) = sr_Serving (sv_rec s)"
  "sr_Target (sv_rec (foldl (drop_one s0 now) s out)) = sr_Target (sv_rec s)" "sr_Older (sv_rec (foldl (drop_one s0 now) s out)) = sr_Older (sv_rec s)"
  "sr_Revision (sv_rec (foldl (drop_one s0 now) s out)) = sr_Revision (sv_rec s)"
  by (induction out arbitrary: s) (simp_all add: drop_one_def)

lemma remove_member_absent: "sid \<notin> rp_Sandbox ` set ms \<Longrightarrow> remove_member sid ms = ms"
  by (induction ms) auto

lemma remove_members_absent: "set ids \<inter> rp_Sandbox ` set ms = {} \<Longrightarrow> foldl (\<lambda>ms sid. remove_member sid ms) ms ids = ms"
  by (induction ids arbitrary: ms) (auto simp: remove_member_absent)

lemma remove_member_filter: "distinct (map rp_Sandbox ms) \<Longrightarrow> remove_member sid ms = filter (\<lambda>m. rp_Sandbox m \<noteq> sid) ms"
proof (induction ms)
  case (Cons a ms)
  have "rp_Sandbox x \<noteq> rp_Sandbox a" if "x \<in> set ms" for x
    using Cons.prems that by (metis distinct.simps(2) image_eqI list.set_map list.simps(9))
  then have "filter (\<lambda>m. rp_Sandbox m \<noteq> rp_Sandbox a) ms = ms" by (intro filter_True) blast
  with Cons show ?case by auto
qed simp

lemma length_remove_member: "m \<in> set ms \<Longrightarrow> length (remove_member (rp_Sandbox m) ms) = length ms - 1"
proof (induction ms)
  case (Cons a ms)
  then show ?case by (cases ms) auto
qed simp

lemma drop_failed_members:
  assumes "distinct (map rp_Sandbox (members s))" "out = filter (\<lambda>m. \<not> staying s m) (members s)"
  shows "members (drop_failed now out s) = filter (staying s) (members s)"
proof -
  have "set (map rp_Sandbox out) \<inter> rp_Sandbox ` set (filter (staying s) (members s)) = {}"
    using assms inj_onD [of rp_Sandbox "set (members s)"] by (fastforce simp: distinct_map)
  then show ?thesis
    by (simp add: drop_failed_def Let_def svc_simps drop_fold_fields remove_members_absent split: option.split)
qed

lemma pick_fold:
  defines "H s m \<equiv> rh_healthy (health_of s (rp_Sandbox m))"
  shows "foldl (pick_better s by_newest) m ms \<in> set (m # ms) \<and>
    (H s (foldl (pick_better s by_newest) m ms) \<longrightarrow> (\<forall>x \<in> set (m # ms). H s x))"
  unfolding H_def
proof (induction ms arbitrary: m)
  case (Cons a ms)
  have p: "pick_better s by_newest m a \<in> {m, a}"
    "rh_healthy (health_of s (rp_Sandbox (pick_better s by_newest m a))) \<longrightarrow> rh_healthy (health_of s (rp_Sandbox m)) \<and> rh_healthy (health_of s (rp_Sandbox a))"
    by (auto simp: pick_better_def Let_def)
  show ?case using Cons.IH [of "pick_better s by_newest m a"] p by auto
qed simp

lemma pickRetire_prefers:
  assumes "ms \<noteq> []" "pickRetire s ms by_newest = sid"
  obtains m where "m \<in> set ms" "rp_Sandbox m = sid" "rh_healthy (health_of s sid) \<longrightarrow> healthy_in s ms = ms"
proof -
  from assms(1) obtain a as where ms: "ms = a # as" by (cases ms) auto
  let ?m = "foldl (pick_better s by_newest) a as"
  have "?m \<in> set ms" "rp_Sandbox ?m = sid" "rh_healthy (health_of s sid) \<longrightarrow> healthy_in s ms = ms"
    using pick_fold [of s by_newest a as] assms(2) by (auto simp: ms healthy_in_def)
  then show ?thesis using that by blast
qed

lemma parts_of_members:
  "length (healthy_in s (of_rev rn ms)) + length (healthy_in s (not_of_rev rn ms)) = length (healthy_in s ms)"
  "length (of_rev rn ms) + length (not_of_rev rn ms) = length ms"
  unfolding healthy_in_def of_rev_def not_of_rev_def by (induction ms) auto

lemma healthy_filter_le: "length (healthy_in s (filter P ms)) \<le> length (healthy_in s ms)"
  by (induction ms) (auto simp: healthy_in_def)

text \<open>Taking out a replica that is not healthy, or one of more than are needed, leaves enough that are.\<close>

lemma retire_one_healthy:
  assumes "distinct (map rp_Sandbox ms)" "part \<noteq> []" "set part \<subseteq> set ms" "pickRetire s part by_newest = sid"
    and "healthy_in s part = part \<Longrightarrow> desired < int (length (healthy_in s ms))"
  shows "min (int (length (healthy_in s ms))) desired \<le> int (length (healthy_in s (remove_member sid ms)))"
proof -
  obtain m where m: "m \<in> set part" "rp_Sandbox m = sid" "rh_healthy (health_of s sid) \<longrightarrow> healthy_in s part = part"
    using pickRetire_prefers [OF assms(2,4)] by blast
  have *: "healthy_in s (remove_member sid ms) = filter (\<lambda>m. rp_Sandbox m \<noteq> sid) (healthy_in s ms)"
    by (simp add: remove_member_filter [OF assms(1)] healthy_in_def conj_commute)
  show ?thesis
  proof (cases "rh_healthy (health_of s sid)")
    case True
    have "distinct (map rp_Sandbox (healthy_in s ms))" using assms(1) by (simp add: healthy_in_def distinct_map_filter)
    moreover have "m \<in> set (healthy_in s ms)" using m True assms(3) by (auto simp: healthy_in_def)
    ultimately have "length (filter (\<lambda>m. rp_Sandbox m \<noteq> sid) (healthy_in s ms)) = length (healthy_in s ms) - 1"
      using m(2) by (metis remove_member_filter length_remove_member)
    then show ?thesis using * m True assms(5) by auto
  next
    case False
    then have "filter (\<lambda>m. rp_Sandbox m \<noteq> sid) (healthy_in s ms) = healthy_in s ms" by (auto simp: healthy_in_def intro!: filter_cong)
    then show ?thesis using * by simp
  qed
qed

text \<open>The cases of a step, with what each decided on.\<close>

lemma decide_cases:
  assumes "decide now active s = (t, d)"
  defines "r \<equiv> sv_rec s"
  defines "want \<equiv> newest_rev r"
  defines "old \<equiv> not_of_rev (rv_Rev want) (members s)"
  defines "cur \<equiv> of_rev (rv_Rev want) (members s)"
  obtains
    (rest) "d = Rest" "t = s \<or> (\<exists>err. t = s\<lparr>sv_lastErr := err\<rparr>)"
  | (drop) out where "\<not> sv_gone s" "out = filter (\<lambda>m. \<not> staying s m) (members s)" "out \<noteq> []" "d = Retires (map rp_Sandbox out)" "t = drop_failed now out s"
  | (old) sid where "\<not> sv_gone s" "list_all (staying s) (members s)" "old \<noteq> []" "int (length (healthy_in s cur)) + int (length old) > desired_of s"
      "sid = pickRetire s old False" "d = Retires [sid]" "t = retireStep [sid] now s"
  | (surplus) sid where "\<not> sv_gone s" "list_all (staying s) (members s)" "int (length cur) > desired_of s"
      "sid = pickRetire s cur True" "d = Retires [sid]" "t = retireStep [sid] now s"
  | (finished) "\<not> sv_gone s" "sr_Target r \<noteq> None" "old = []" "int (length (healthy_in s cur)) = desired_of s" "d = Recorded" "t = rollout_done now s"
  | (create) restarts where "\<not> sv_gone s" "list_all (staying s) (members s)" "int (length (members s)) \<le> desired_of s" "int (length cur) < desired_of s"
      "active \<noteq> Some False" "d = Creates want restarts" "createStep s = (t, restarts)"
proof -
  let ?out = "filter (\<lambda>m. \<not> staying s m) (members s)"
  have stay: "?out = [] \<longleftrightarrow> list_all (staying s) (members s)" by (auto simp: filter_empty_conv list_all_iff)
  show ?thesis
  proof (cases "sv_gone s")
    case True
    then show ?thesis using assms(1) rest by (simp add: decide_def)
  next
    case live: False
    show ?thesis
    proof (cases "?out = []")
      case False
      then show ?thesis using assms(1) live drop [OF live refl False] by (simp add: decide_def Let_def)
    next
      case out: True
      consider "old \<noteq> [] \<and> int (length (healthy_in s cur)) + int (length old) > desired_of s"
        | "\<not> (old \<noteq> [] \<and> int (length (healthy_in s cur)) + int (length old) > desired_of s)" "int (length cur) > desired_of s"
        | "\<not> (old \<noteq> [] \<and> int (length (healthy_in s cur)) + int (length old) > desired_of s)" "\<not> int (length cur) > desired_of s" by blast
      then show ?thesis
      proof cases
        case 1
        then show ?thesis using assms(1) live out old stay
          by (simp add: decide_def Let_def old_def cur_def want_def r_def)
      next
        case 2
        then show ?thesis using assms(1) live out surplus stay
          by (auto simp: decide_def Let_def old_def cur_def want_def r_def)
      next
        case 3
        show ?thesis
        proof (cases "sr_Target r \<noteq> None \<and> old = [] \<and> int (length (healthy_in s cur)) = desired_of s")
          case True
          then show ?thesis using assms(1) live out 3 finished
            by (simp add: decide_def Let_def old_def cur_def want_def r_def)
        next
          case False
          have le: "int (length (members s)) \<le> desired_of s" if "old = [] \<or> int (length cur) - int (length (healthy_in s cur)) \<le> 0"
            using that 3 parts_of_members(2) [of "rv_Rev want" "members s"] by (auto simp: old_def cur_def)
          show ?thesis using assms(1) live out 3 False rest create stay le
            by (auto simp: decide_def Let_def old_def cur_def want_def r_def split: if_splits prod.splits)
        qed
      qed
    qed
  qed
qed

text \<open>
  What ends a replica's service, in terms of its health alone: its node is lost, a check found it beyond recovery, or as many checks in a row have
  failed as its spec allows, three where it says nothing.
\<close>

definition spent :: "service \<Rightarrow> replicaRecord \<Rightarrow> bool" where
  "spent s m \<longleftrightarrow> rh_lost (health_of s (rp_Sandbox m)) \<or> rh_fatal (health_of s (rp_Sandbox m)) \<or>
     (case ss_Health (specOf (sv_rec s) (rp_Rev m)) of None \<Rightarrow> 3 | Some h \<Rightarrow> hl_Failures h) \<le> rh_fails (health_of s (rp_Sandbox m))"

lemma staying_spent: "staying s = (\<lambda>m. \<not> spent s m)"
  by (auto simp: staying_def spent_def replica_failed_def failures_of_def Let_def fun_eq_iff)

lemma healthy_kept:
  assumes "decide now active s = (t, d)" "distinct (map rp_Sandbox (members s))" "0 \<le> desired_of s"
  shows "min (int (length (healthy_in s (filter (staying s) (members s))))) (desired_of s) \<le> int (length (healthy_in s (members t)))"
proof -
  have all: "filter (staying s) (members s) = members s" if "list_all (staying s) (members s)" using that by (simp add: list_all_iff)
  show ?thesis
    using assms(1)
  proof (cases rule: decide_cases)
    case rest
    then show ?thesis by (auto intro!: min.coboundedI1 healthy_filter_le simp: healthy_in_def [of "s\<lparr>sv_lastErr := _\<rparr>"])
  next
    case (drop out)
    then show ?thesis by (simp add: drop_failed_members [OF assms(2)])
  next
    case (old sid)
    let ?rn = "rv_Rev (newest_rev (sv_rec s))"
    have sub': "set (not_of_rev ?rn (members s)) \<subseteq> set (members s)" by (auto simp: not_of_rev_def)
    have "desired_of s < int (length (healthy_in s (members s)))"
      if "healthy_in s (not_of_rev ?rn (members s)) = not_of_rev ?rn (members s)"
      using that parts_of_members(1) [of s ?rn "members s"] old(4) by simp
    then show ?thesis
      using retire_one_healthy [OF assms(2) old(3) sub' old(5) [symmetric], of "desired_of s"] by (simp add: old(7) svc_simps all [OF old(2)])
  next
    case (surplus sid)
    let ?rn = "rv_Rev (newest_rev (sv_rec s))"
    have sub': "set (of_rev ?rn (members s)) \<subseteq> set (members s)" and ne: "of_rev ?rn (members s) \<noteq> []"
      using surplus(3) assms(3) by (auto simp: of_rev_def)
    have "desired_of s < int (length (healthy_in s (members s)))" if "healthy_in s (of_rev ?rn (members s)) = of_rev ?rn (members s)"
      using that parts_of_members(1) [of s ?rn "members s"] surplus(3) by simp
    then show ?thesis
      using retire_one_healthy [OF assms(2) ne sub' surplus(4) [symmetric], of "desired_of s"] by (simp add: surplus(6) svc_simps all [OF surplus(2)])
  next
    case finished
    then show ?thesis by (auto simp: rollout_done_def svc_simps intro!: min.coboundedI1 healthy_filter_le split: option.split)
  next
    case (create restarts)
    then show ?thesis using all by (auto simp: createStep_def split: list.splits)
  qed
qed

text \<open>What a step takes out.\<close>

lemma taken_out:
  assumes "decide now active s = (t, d)" "distinct (map rp_Sandbox (members s))" "0 \<le> desired_of s" "m \<in> set (members s)" "m \<notin> set (members t)"
  defines "rn \<equiv> rv_Rev (newest_rev (sv_rec s))"
  shows "\<not> staying s m \<or> list_all (staying s) (members s) \<and> members t = filter (\<lambda>x. x \<noteq> m) (members s) \<and>
    (if rp_Rev m = rn then desired_of s < int (length (of_rev rn (members s)))
     else desired_of s < int (length (healthy_in s (of_rev rn (members s)))) + int (length (not_of_rev rn (members s))))"
  using assms(1)
proof (cases rule: decide_cases)
  case (drop out)
  then show ?thesis using assms(4,5) by (auto simp: drop_failed_members [OF assms(2)])
next
  case (old sid)
  have t: "members t = filter (\<lambda>x. rp_Sandbox x \<noteq> sid) (members s)" by (simp add: old(7) svc_simps remove_member_filter [OF assms(2)])
  then have "rp_Sandbox m = sid" using assms(4,5) by auto
  moreover have "sid \<in> rp_Sandbox ` set (not_of_rev rn (members s))"
    using pickRetire_prefers [OF old(3) old(5) [symmetric]] unfolding rn_def by (metis image_eqI)
  ultimately have "rp_Rev m \<noteq> rn" using assms(2,4) by (auto simp: not_of_rev_def distinct_map dest: inj_onD)
  moreover have "members t = filter (\<lambda>x. x \<noteq> m) (members s)"
    unfolding t using assms(2,4) \<open>rp_Sandbox m = sid\<close> by (intro filter_cong) (auto simp: distinct_map dest: inj_onD)
  ultimately show ?thesis using old(2,4) by (simp add: rn_def)
next
  case (surplus sid)
  have ne: "of_rev rn (members s) \<noteq> []" using surplus(3) assms(3) by (auto simp: rn_def)
  have t: "members t = filter (\<lambda>x. rp_Sandbox x \<noteq> sid) (members s)" by (simp add: surplus(6) svc_simps remove_member_filter [OF assms(2)])
  then have "rp_Sandbox m = sid" using assms(4,5) by auto
  moreover have "sid \<in> rp_Sandbox ` set (of_rev rn (members s))"
    using pickRetire_prefers [OF ne surplus(4) [symmetric, folded rn_def]] by (metis image_eqI)
  ultimately have "rp_Rev m = rn" using assms(2,4) by (auto simp: of_rev_def distinct_map dest: inj_onD)
  moreover have "members t = filter (\<lambda>x. x \<noteq> m) (members s)"
    unfolding t using assms(2,4) \<open>rp_Sandbox m = sid\<close> by (intro filter_cong) (auto simp: distinct_map dest: inj_onD)
  ultimately show ?thesis using surplus(2,3) by (simp add: rn_def)
qed (use assms(4,5) in \<open>auto simp: rollout_done_def svc_simps createStep_def split: option.splits list.splits\<close>)

text \<open>
  C14: A step of the controller adds no replica to a service's record. A replica it takes out was lost with its node, was found beyond recovery, or
  has failed as many checks in a row as its spec allows; or no replica is in such a state, it is the only one taken out, and it is not
  needed: one of the newest revision where more of it run than are asked for, or one of an older revision where those and the healthy ones of the newest
  are together more than are asked for. Of the replicas in no such state that were healthy before, as many are
  left as there were or as the service asks for, whichever is fewer. A replica is made only while no more are there than are asked for, and then none is taken out.
\<close>

theorem service_stays_up:
  assumes "decide now active s = (t, d)" "distinct (map rp_Sandbox (members s))" "0 \<le> desired_of s"
  shows "set (members t) \<subseteq> set (members s) \<and>
    (\<forall>m \<in> set (members s) - set (members t). spent s m \<or>
      (\<forall>x \<in> set (members s). \<not> spent s x) \<and> members t = filter (\<lambda>x. x \<noteq> m) (members s) \<and>
      (let rn = rv_Rev (newest_rev (sv_rec s)); newest = filter (\<lambda>x. rp_Rev x = rn) (members s); older = filter (\<lambda>x. rp_Rev x \<noteq> rn) (members s) in
       if rp_Rev m = rn then desired_of s < int (length newest) else desired_of s < int (length (healthy_in s newest)) + int (length older))) \<and>
    min (int (length (healthy_in s (filter (\<lambda>m. \<not> spent s m) (members s))))) (desired_of s) \<le> int (length (healthy_in s (members t))) \<and>
    (\<forall>rv k. d = Creates rv k \<longrightarrow> int (length (members t)) \<le> desired_of s \<and> members t = members s)"
proof (intro conjI)
  have sub: "set (remove_member sid (members s)) \<subseteq> set (members s)" for sid by (simp add: remove_member_filter [OF assms(2)])
  show "set (members t) \<subseteq> set (members s)"
    using assms(1)
    by (cases rule: decide_cases) (use sub in \<open>auto simp: drop_failed_members [OF assms(2)] svc_simps rollout_done_def createStep_def split: option.splits list.splits\<close>)
  show "\<forall>m \<in> set (members s) - set (members t). spent s m \<or>
      (\<forall>x \<in> set (members s). \<not> spent s x) \<and> members t = filter (\<lambda>x. x \<noteq> m) (members s) \<and>
      (let rn = rv_Rev (newest_rev (sv_rec s)); newest = filter (\<lambda>x. rp_Rev x = rn) (members s); older = filter (\<lambda>x. rp_Rev x \<noteq> rn) (members s) in
       if rp_Rev m = rn then desired_of s < int (length newest) else desired_of s < int (length (healthy_in s newest)) + int (length older))"
  proof
    fix m assume "m \<in> set (members s) - set (members t)"
    then show "spent s m \<or> (\<forall>x \<in> set (members s). \<not> spent s x) \<and> members t = filter (\<lambda>x. x \<noteq> m) (members s) \<and>
      (let rn = rv_Rev (newest_rev (sv_rec s)); newest = filter (\<lambda>x. rp_Rev x = rn) (members s); older = filter (\<lambda>x. rp_Rev x \<noteq> rn) (members s) in
       if rp_Rev m = rn then desired_of s < int (length newest) else desired_of s < int (length (healthy_in s newest)) + int (length older))"
      using taken_out [OF assms, of m] by (auto simp: staying_spent list_all_iff of_rev_def not_of_rev_def Let_def split: if_split_asm)
  qed
  show "min (int (length (healthy_in s (filter (\<lambda>m. \<not> spent s m) (members s))))) (desired_of s) \<le> int (length (healthy_in s (members t)))"
    using healthy_kept [OF assms] by (simp add: staying_spent)
  show "\<forall>rv k. d = Creates rv k \<longrightarrow> int (length (members t)) \<le> desired_of s \<and> members t = members s"
    using assms(1)
    by (cases rule: decide_cases) (auto simp: createStep_def split: list.splits)
qed

subsection \<open>A service in a rollout\<close>

definition demo_web :: ServiceSpec where
  "demo_web = \<lparr>ss_Name = ''web'', ss_Image = ''web:1'', ss_Command = [], ss_Replicas = 2, ss_Resources = \<lparr>rs_CPUs = Fin 0, rs_MemoryMB = 0, rs_DiskMB = 0\<rparr>,
     ss_Port = 80, ss_Health = None, ss_Env = [], ss_Network = None, ss_Spread = [], ss_Public = False, ss_Secrets = None\<rparr>"

definition demo_replica :: "bytes \<Rightarrow> int \<Rightarrow> int \<Rightarrow> replicaRecord" where
  "demo_replica sid rn at' = \<lparr>rp_Sandbox = sid, rp_Node = ''n1'', rp_Rev = rn, rp_PID = 0, rp_Restarts = 0, rp_Created = at'\<rparr>"

definition demo_service :: service where
  "demo_service = (fresh_service \<lparr>sr_Name = ''web'', sr_User = ''ann'', sr_Tenant = [], sr_Spec = demo_web, sr_Revision = 2,
     sr_Serving = \<lparr>rv_Rev = 1, rv_Spec = demo_web\<rparr>, sr_Target = Some \<lparr>rv_Rev = 2, rv_Spec = demo_web\<lparr>ss_Image := ''web:2''\<rparr>\<rparr>, sr_Older = [],
     sr_Rollout = None, sr_Members = [demo_replica ''a'' 1 10, demo_replica ''b'' 1 11, demo_replica ''c'' 2 12], sr_Restarts = 0, sr_Created = 9,
     sr_Updated = 12\<rparr>)\<lparr>sv_health := (\<lambda>_. Some (no_health\<lparr>rh_healthy := True\<rparr>))\<rparr>"

lemma demo_decides:
  "decide 20 None demo_service = (retireStep [''a''] 20 demo_service, Retires [''a''])"
  by (simp add: decide_def Let_def demo_service_def demo_web_def demo_replica_def fresh_service_def staying_def replica_failed_def health_of_def no_health_def
      failures_of_def newest_rev_def not_of_rev_def of_rev_def healthy_in_def pick_better_def specOf_def)

theorem service_stays_up_witness:
  "members (retireStep [''a''] 20 demo_service) = [demo_replica ''b'' 1 11, demo_replica ''c'' 2 12] \<and>
   2 \<le> int (length (healthy_in demo_service (members (retireStep [''a''] 20 demo_service))))"
proof -
  have *: "distinct (map rp_Sandbox (members demo_service))" "0 \<le> desired_of demo_service" "desired_of demo_service = 2"
    "length (healthy_in demo_service (filter (staying demo_service) (members demo_service))) = 3"
    by (simp_all add: demo_service_def demo_web_def demo_replica_def fresh_service_def healthy_in_def health_of_def staying_def replica_failed_def
        no_health_def failures_of_def specOf_def)
  moreover have "length (healthy_in demo_service (filter (\<lambda>m. \<not> spent demo_service m) (members demo_service))) = 3" using *(4) by (simp add: staying_spent)
  moreover have "members (retireStep [''a''] 20 demo_service) = [demo_replica ''b'' 1 11, demo_replica ''c'' 2 12]"
    by (simp add: svc_simps demo_service_def fresh_service_def demo_replica_def)
  ultimately show ?thesis using service_stays_up [OF demo_decides *(1,2)] by simp
qed

subsection \<open>How long a failing service waits\<close>

lemma backoff_bounds: "0 \<le> backoff n \<and> backoff n \<le> seconds 60"
  by (simp add: backoff_def seconds_def)

lemma backoff_grows: "m \<le> n \<Longrightarrow> backoff m \<le> backoff n"
proof (cases "n \<le> 1 \<or> m \<le> 1")
  case True
  assume "m \<le> n"
  with True have "m \<le> 1" by auto
  then show ?thesis using backoff_bounds [of n] by (simp add: backoff_def)
next
  case False
  assume "m \<le> n"
  then have "(2 :: int) ^ nat (min (m - 2) 6) \<le> 2 ^ nat (min (n - 2) 6)" by (intro power_increasing) auto
  then have "seconds (2 ^ nat (min (m - 2) 6)) \<le> seconds (2 ^ nat (min (n - 2) 6))" unfolding seconds_def by (rule mult_right_mono) simp
  with False show ?thesis unfolding backoff_def by (simp only: if_False de_Morgan_disj min.mono order.refl)
qed

subsection \<open>A spec sent again\<close>

text \<open>
  A spec whose list of secrets is empty, not missing, sent twice: the first update finds nothing changed and writes the record through JSON, where the
  empty list goes missing; the second finds it changed and starts a rollout.
\<close>

definition demo_again :: ServiceSpec where
  "demo_again = demo_web\<lparr>ss_Secrets := Some []\<rparr>"

definition demo_first :: serviceRecord where
  "demo_first = \<lparr>sr_Name = ''web'', sr_User = ''ann'', sr_Tenant = [], sr_Spec = demo_again, sr_Revision = 1, sr_Serving = \<lparr>rv_Rev = 1, rv_Spec = demo_again\<rparr>,
     sr_Target = None, sr_Older = [], sr_Rollout = None, sr_Members = [], sr_Restarts = 0, sr_Created = 9, sr_Updated = 9\<rparr>"

lemma same_spec_rolls_out:
  "sr_Target (updated_record demo_again 10 demo_first) = None \<and>
   sr_Target (updated_record demo_again 11 (updated_record demo_again 10 demo_first)) = Some \<lparr>rv_Rev = 2, rv_Spec = demo_again\<rparr>"
  by (simp add: updated_record_def demo_first_def demo_again_def demo_web_def same_shape_def spec_shape_def same_map_def newest_rev_def clone_def
      clone_revision_def clone_spec_def omitempty_def new_target_def)

text \<open>A full quota is refused with 403 and waited out: it does not end a rollout.\<close>

lemma full_quota_keeps_rollout:
  assumes "rollout_of rn s"
  shows "rollout_of rn (fst (createFailed rn err (refusedNow (NotMade (transientFail (403, ''refused'')))) now s))"
  using assms by (simp add: createFailed_def refused_def rollout_of_def)

end
