(* ===== verification/Gateway_Replicas.thy ===== *)
theory Gateway_Replicas
  imports Gateway_Services
begin

text \<open>
  A service under its controller (\<open>services_controller.go\<close>), its API, its nodes and restarts of the gateway, in every order. A pass takes one step at
  a time, each decided under the service's lock and done outside it, so the API changes the service while a replica is made or ended. The
  store's record and its retire queue are written with each change; a write may fail.
\<close>

subsection \<open>The machine\<close>

datatype pass = Idle | Creating revision int | Ending "bytes list"

text \<open>
  \<open>c_live\<close> are the sandboxes made for the service that run on their nodes, \<open>c_rows\<close> those the store has an owner for, \<open>c_made\<close> what each was made
  from.
\<close>

record ctl =
  c_svc :: service
  c_store :: "serviceRecord option"
  c_queue :: "bytes list"
  c_pass :: pass
  c_live :: "bytes set"
  c_rows :: "bytes set"
  c_made :: "bytes \<Rightarrow> ServiceSpec option"

text \<open>\<open>PutServiceRetiring\<close>, which takes the record and the queue in one write, or neither.\<close>

definition put :: "bool \<Rightarrow> service \<Rightarrow> bytes list \<Rightarrow> ctl \<Rightarrow> ctl" where
  "put wrote s ids c = (if wrote then c\<lparr>c_svc := s, c_store := Some (clone (sv_rec s)), c_queue := appendNew (c_queue c) ids\<rparr> else c\<lparr>c_svc := s\<rparr>)"

fun after_decide :: "bool \<Rightarrow> service \<Rightarrow> decision \<Rightarrow> ctl \<Rightarrow> ctl" where
  "after_decide wrote s Rest c = c\<lparr>c_svc := s\<rparr>"
| "after_decide wrote s Recorded c = put wrote s [] c"
| "after_decide wrote s (Retires ids) c = (put wrote s ids c)\<lparr>c_pass := Ending ids\<rparr>"
| "after_decide wrote s (Creates rv k) c = c\<lparr>c_svc := s, c_pass := Creating rv k\<rparr>"

definition born :: "bytes \<Rightarrow> ServiceSpec \<Rightarrow> ctl \<Rightarrow> ctl" where
  "born sid sp c = c\<lparr>c_live := insert sid (c_live c), c_rows := insert sid (c_rows c), c_made := (c_made c)(sid \<mapsto> sp)\<rparr>"

text \<open>A sandbox a node has made and the gateway does not know of.\<close>

definition unheard :: "bytes \<Rightarrow> ServiceSpec \<Rightarrow> ctl \<Rightarrow> ctl" where
  "unheard sid sp c = c\<lparr>c_live := insert sid (c_live c), c_made := (c_made c)(sid \<mapsto> sp)\<rparr>"

definition retire :: "bool \<Rightarrow> bytes \<Rightarrow> ctl \<Rightarrow> ctl" where
  "retire wrote sid c = (if wrote then c\<lparr>c_queue := appendNew (c_queue c) [sid]\<rparr> else c)"

definition create_fails :: "bool \<Rightarrow> revision \<Rightarrow> int \<Rightarrow> bytes \<Rightarrow> bool \<Rightarrow> int \<Rightarrow> ctl \<Rightarrow> ctl" where
  "create_fails wrote rv k err ref now c = (case step_failed rv k err ref now (c_svc c) of
      (s, True) \<Rightarrow> (put wrote s [] c)\<lparr>c_pass := Idle\<rparr>
    | (s, False) \<Rightarrow> c\<lparr>c_svc := s, c_pass := Idle\<rparr>)"

text \<open>What the action of \<open>createStep\<close> does once \<open>startReplica\<close> is back.\<close>

fun create_returns :: "bool \<Rightarrow> started \<Rightarrow> bytes \<Rightarrow> int \<Rightarrow> revision \<Rightarrow> int \<Rightarrow> ctl \<Rightarrow> ctl" where
  "create_returns wrote (Started m) err now rv k c =
    (let c1 = born (rp_Sandbox m) (rv_Spec rv) c in
     if sv_gone (c_svc c) then (retire wrote (rp_Sandbox m) c1)\<lparr>c_pass := Ending [rp_Sandbox m]\<rparr>
     else (put wrote (replica_made k m now (c_svc c)) [] c1)\<lparr>c_pass := Idle\<rparr>)"
| "create_returns wrote (NotMade f) err now rv k c = create_fails wrote rv k err (refusedNow (NotMade f)) now c"
| "create_returns wrote (OwnerNotRead sid) err now rv k c = create_fails wrote rv k err (refusedNow (OwnerNotRead sid)) now (born sid (rv_Spec rv) c)"
| "create_returns wrote (NotStarted sid) err now rv k c =
    create_fails wrote rv k err (refusedNow (NotStarted sid)) now (retire wrote sid (born sid (rv_Spec rv) c))"

text \<open>The sandbox of an outcome is one no node has made before, with a well-formed id (\<open>createSpread\<close> refuses others), and of the revision asked for.\<close>

fun fits_outcome :: "ctl \<Rightarrow> revision \<Rightarrow> started \<Rightarrow> bool" where
  "fits_outcome c rv (Started m) = (rp_Sandbox m \<notin> dom (c_made c) \<and> ValidID (rp_Sandbox m) \<and> rp_Rev m = rv_Rev rv)"
| "fits_outcome c rv (NotMade f) = True"
| "fits_outcome c rv (OwnerNotRead sid) = (sid \<notin> dom (c_made c))"
| "fits_outcome c rv (NotStarted sid) = (sid \<notin> dom (c_made c))"

definition owner_unread :: "started \<Rightarrow> bool" where
  "owner_unread out \<longleftrightarrow> (case out of OwnerNotRead _ \<Rightarrow> True | _ \<Rightarrow> False)"

text \<open>What a verdict on a replica does: a node that answered no longer has it, and its row and its place in the queue go.\<close>

fun after_verdict :: "bool \<Rightarrow> end_verdict \<Rightarrow> bytes \<Rightarrow> ctl \<Rightarrow> ctl" where
  "after_verdict wrote Later sid c = c"
| "after_verdict wrote NoRow sid c = (if wrote then c\<lparr>c_queue := Retired [sid] (c_queue c)\<rparr> else c)"
| "after_verdict wrote (Ended b) sid c = (let c1 = c\<lparr>c_live := c_live c - {sid}, c_rows := c_rows c - {sid}\<rparr>
     in if wrote then c1\<lparr>c_queue := Retired [sid] (c_queue c1)\<rparr> else c1)"

definition rest_of_pass :: "bytes list \<Rightarrow> pass" where
  "rest_of_pass ids = (if ids = [] then Idle else Ending ids)"

text \<open>A gateway that starts takes its services from the store.\<close>

definition restart :: "ctl \<Rightarrow> ctl" where
  "restart c = c\<lparr>c_svc := (case c_store c of Some r \<Rightarrow> fresh_service r | None \<Rightarrow> deleted (c_svc c)), c_pass := Idle\<rparr>"

text \<open>
  \<open>faults\<close> lets a write fail, the store not answer after a create, the answer to a create be lost although the node made the sandbox, and the
  gateway stop in the middle of a create. The queue is run beside the pass;
  \<open>picked\<close> is a request the router sends to a replica.
\<close>

inductive cstep :: "bool \<Rightarrow> ctl \<Rightarrow> ctl \<Rightarrow> bool" for faults where
  observes: "cstep faults c (c\<lparr>c_svc := observeService up row now (c_svc c)\<rparr>)"
| checked: "cstep faults c (c\<lparr>c_svc := check_done sid r now (c_svc c)\<rparr>)"
| picked: "cstep faults c (c\<lparr>c_svc := (c_svc c)\<lparr>sv_rr := sv_rr (c_svc c) + 1\<rparr>\<rparr>)"
| decides: "c_pass c = Idle \<Longrightarrow> decide now active (c_svc c) = (s, d) \<Longrightarrow> wrote \<or> faults \<Longrightarrow> cstep faults c (after_decide wrote s d c)"
| returns: "c_pass c = Creating rv k \<Longrightarrow> fits_outcome c rv out \<Longrightarrow> wrote \<or> faults \<Longrightarrow> \<not> owner_unread out \<or> faults \<Longrightarrow>
    cstep faults c (create_returns wrote out err now rv k c)"
| ends: "c_pass c = Ending (sid # ids) \<Longrightarrow> terminate_one row up ans = v \<Longrightarrow> row = Some None \<longrightarrow> sid \<notin> c_rows c \<Longrightarrow> wrote \<or> faults \<Longrightarrow>
    cstep faults c ((after_verdict wrote v sid c)\<lparr>c_pass := rest_of_pass ids\<rparr>)"
| sweeps: "sid \<in> set (c_queue c) \<Longrightarrow> terminate_one row up ans = v \<Longrightarrow> row = Some None \<longrightarrow> sid \<notin> c_rows c \<Longrightarrow> wrote \<or> faults \<Longrightarrow>
    cstep faults c (after_verdict wrote v sid c)"
| stops: "cstep faults c (c\<lparr>c_live := c_live c - {sid}\<rparr>)"
| row_goes: "sid \<notin> c_live c \<Longrightarrow> cstep faults c (c\<lparr>c_rows := c_rows c - {sid}\<rparr>)"
| updates: "updateService e (\<lambda>_ _. Some (c_svc c)) p name keep_env sp True now = Inr s \<Longrightarrow> cstep faults c (put True s [] c)"
| redeploys: "redeployService e (\<lambda>_ _. Some (c_svc c)) p name True now = Inr s \<Longrightarrow> cstep faults c (put True s [] c)"
| scales: "scaleService (\<lambda>_ _. Some (c_svc c)) p name n True now = Inr s \<Longrightarrow> cstep faults c (put True s [] c)"
| deletes: "deleteService (\<lambda>_ _. Some (c_svc c)) p name True = Inr (s, ids) \<Longrightarrow>
    cstep faults c (c\<lparr>c_svc := s, c_store := None, c_queue := appendNew (c_queue c) ids\<rparr>)"
| restarts: "cstep faults c (restart c)"
| stops_creating: "c_pass c = Creating rv k \<Longrightarrow> sid \<notin> dom (c_made c) \<Longrightarrow> faults \<Longrightarrow>
    cstep faults c (restart (if recorded then born sid (rv_Spec rv) c else unheard sid (rv_Spec rv) c))"
| unanswered: "c_pass c = Creating rv k \<Longrightarrow> sid \<notin> dom (c_made c) \<Longrightarrow> faults \<Longrightarrow>
    cstep faults c (create_returns wrote (NotMade f) err now rv k (unheard sid (rv_Spec rv) c))"

text \<open>The steps with faults, each with what went wrong.\<close>

datatype mishap = WriteFailed | OwnerUnread | StoppedCreating | AnswerLost

inductive cmove :: "ctl \<Rightarrow> mishap option \<Rightarrow> ctl \<Rightarrow> bool" where
  sound: "cstep False c c' \<Longrightarrow> cmove c None c'"
| unwritten_decides: "c_pass c = Idle \<Longrightarrow> decide now active (c_svc c) = (s, d) \<Longrightarrow> cmove c (Some WriteFailed) (after_decide False s d c)"
| unwritten_returns: "c_pass c = Creating rv k \<Longrightarrow> fits_outcome c rv out \<Longrightarrow> cmove c (Some WriteFailed) (create_returns False out err now rv k c)"
| unwritten_ends: "c_pass c = Ending (sid # ids) \<Longrightarrow> terminate_one row up ans = v \<Longrightarrow> row = Some None \<longrightarrow> sid \<notin> c_rows c \<Longrightarrow>
    cmove c (Some WriteFailed) ((after_verdict False v sid c)\<lparr>c_pass := rest_of_pass ids\<rparr>)"
| unwritten_sweeps: "sid \<in> set (c_queue c) \<Longrightarrow> terminate_one row up ans = v \<Longrightarrow> row = Some None \<longrightarrow> sid \<notin> c_rows c \<Longrightarrow>
    cmove c (Some WriteFailed) (after_verdict False v sid c)"
| unread: "c_pass c = Creating rv k \<Longrightarrow> fits_outcome c rv out \<Longrightarrow> owner_unread out \<Longrightarrow> cmove c (Some OwnerUnread) (create_returns wrote out err now rv k c)"
| stopped: "c_pass c = Creating rv k \<Longrightarrow> sid \<notin> dom (c_made c) \<Longrightarrow>
    cmove c (Some StoppedCreating) (restart (if recorded then born sid (rv_Spec rv) c else unheard sid (rv_Spec rv) c))"
| unanswered_move: "c_pass c = Creating rv k \<Longrightarrow> sid \<notin> dom (c_made c) \<Longrightarrow>
    cmove c (Some AnswerLost) (create_returns wrote (NotMade f) err now rv k (unheard sid (rv_Spec rv) c))"

text \<open>A service as its create leaves it.\<close>

definition cinit :: "ctl \<Rightarrow> bool" where
  "cinit c \<longleftrightarrow> (\<exists>e p sp now. createService e p sp False True now = Inr (c_svc c)) \<and> c_store c = Some (clone (sv_rec (c_svc c))) \<and>
     c_pass c = Idle \<and> c_live c = {} \<and> c_made c = (\<lambda>_. None)"

section \<open>Records that stay consistent\<close>

definition known_revs :: "serviceRecord \<Rightarrow> revision list" where
  "known_revs r = sr_Serving r # (case sr_Target r of None \<Rightarrow> [] | Some t \<Rightarrow> [t]) @ sr_Older r"

text \<open>A record knows revision \<open>rn\<close> as \<open>sp\<close>, as JSON shows it.\<close>

definition knows :: "serviceRecord \<Rightarrow> int \<Rightarrow> ServiceSpec \<Rightarrow> bool" where
  "knows r rn sp \<longleftrightarrow> (\<exists>rv \<in> set (known_revs r). rv_Rev rv = rn \<and> clone_spec (rv_Spec rv) = clone_spec sp)"

definition port_ok :: "ServiceSpec \<Rightarrow> bool" where
  "port_ok sp \<longleftrightarrow> 0 \<le> ss_Port sp \<and> ss_Port sp \<le> 65535"

definition revs_ok :: "serviceRecord \<Rightarrow> bool" where
  "revs_ok r \<longleftrightarrow> distinct (map rv_Rev (known_revs r)) \<and> (\<forall>rv \<in> set (known_revs r). rv_Rev rv \<le> sr_Revision r \<and> port_ok (rv_Spec rv))"

definition rec_ok :: "(bytes \<Rightarrow> ServiceSpec option) \<Rightarrow> serviceRecord \<Rightarrow> bool" where
  "rec_ok made r \<longleftrightarrow> distinct (map rp_Sandbox (sr_Members r)) \<and> revs_ok r \<and>
     (\<forall>m \<in> set (sr_Members r). ValidID (rp_Sandbox m) \<and> (\<exists>sp. made (rp_Sandbox m) = Some sp \<and> knows r (rp_Rev m) sp)) \<and> port_ok (sr_Spec r) \<and>
     0 \<le> ss_Replicas (sr_Spec r) \<and> ss_Replicas (sr_Spec r) \<le> MaxServiceReplicas \<and> int (length (sr_Members r)) \<le> MaxServiceReplicas + 1"

lemma find_distinct:
  "distinct (map f xs) \<Longrightarrow> x \<in> set xs \<Longrightarrow> find (\<lambda>y. f y = f x) xs = Some x"
  by (induction xs) (auto simp: rev_image_eqI)

lemma specOf_known:
  assumes "revs_ok r" "knows r rn sp"
  shows "clone_spec (specOf r rn) = clone_spec sp"
proof -
  obtain rv where rv: "rv \<in> set (known_revs r)" "rv_Rev rv = rn" "clone_spec (rv_Spec rv) = clone_spec sp"
    using assms(2) by (auto simp: knows_def)
  have d: "distinct (map rv_Rev (known_revs r))" using assms(1) by (simp add: revs_ok_def)
  have older: "find (\<lambda>o'. rv_Rev o' = rn) (sr_Older r) = (if rv \<in> set (sr_Older r) then Some rv else None)"
  proof (cases "rv \<in> set (sr_Older r)")
    case True
    then show ?thesis using d rv(2) find_distinct [of rv_Rev "sr_Older r" rv] by (simp add: known_revs_def)
  next
    case False
    then have "rn \<notin> rv_Rev ` set (sr_Older r)" using d rv(1,2) by (auto simp: known_revs_def rev_image_eqI split: option.splits)
    then show ?thesis using False by (auto simp: find_None_iff)
  qed
  have "specOf r rn = rv_Spec rv"
    using rv(1,2) d by (auto simp: specOf_def older known_revs_def rev_image_eqI split: option.splits)
  then show ?thesis using rv(3) by simp
qed

text \<open>How a record may change: members leave, and what is left is still known.\<close>

lemma rec_ok_change:
  assumes "rec_ok made r" "set (sr_Members r') \<subseteq> set (sr_Members r)" "distinct (map rp_Sandbox (sr_Members r'))" "revs_ok r'"
    and "\<And>m sp. m \<in> set (sr_Members r') \<Longrightarrow> knows r (rp_Rev m) sp \<Longrightarrow> knows r' (rp_Rev m) sp"
    and "0 \<le> ss_Replicas (sr_Spec r')" "ss_Replicas (sr_Spec r') \<le> MaxServiceReplicas" "port_ok (sr_Spec r')"
  shows "rec_ok made r'"
proof -
  have "length (sr_Members r') \<le> length (sr_Members r)"
    using assms(2,3) by (metis card_length card_mono distinct_card distinct_map finite_set le_trans)
  then show ?thesis using assms unfolding rec_ok_def by (fastforce dest: subsetD)
qed

lemma knows_prune:
  assumes "m \<in> set (sr_Members r)" "knows r (rp_Rev m) sp"
  shows "knows (pruneOlder r) (rp_Rev m) sp"
proof -
  obtain rv where rv: "rv \<in> set (known_revs r)" "rv_Rev rv = rp_Rev m" "clone_spec (rv_Spec rv) = clone_spec sp"
    using assms(2) by (auto simp: knows_def)
  have "rv \<in> set (known_revs (pruneOlder r))"
    using rv(1,2) assms(1) by (auto simp: known_revs_def pruneOlder_def list_ex_iff split: option.splits)
  with rv show ?thesis by (auto simp: knows_def)
qed

lemma revs_ok_prune: "revs_ok r \<Longrightarrow> revs_ok (pruneOlder r)"
  by (auto simp: revs_ok_def known_revs_def pruneOlder_def distinct_map_filter split: option.splits)

lemma pruneOlder_fields [simp]: "sr_Members (pruneOlder r) = sr_Members r" "sr_Spec (pruneOlder r) = sr_Spec r"
  by (simp_all add: pruneOlder_def)

lemma rec_ok_parts:
  assumes "rec_ok made r"
  shows "distinct (map rp_Sandbox (sr_Members r))" "revs_ok r" "0 \<le> ss_Replicas (sr_Spec r)" "ss_Replicas (sr_Spec r) \<le> MaxServiceReplicas" "port_ok (sr_Spec r)"
  using assms by (simp_all add: rec_ok_def)

lemma rec_ok_prune:
  assumes "rec_ok made r"
  shows "rec_ok made (pruneOlder r)"
  by (rule rec_ok_change [OF assms]) (auto simp: rec_ok_parts [OF assms] revs_ok_prune knows_prune)

lemma rec_ok_persisted: "rec_ok made (sv_rec s) \<Longrightarrow> rec_ok made (sv_rec (persisted s))"
  by (simp add: persisted_def rec_ok_prune)

lemma clone_spec_idem [simp]: "clone_spec (clone_spec sp) = clone_spec sp"
  by (cases sp) (auto simp: clone_spec_def omitempty_def option.map_comp comp_def intro!: option.map_cong split: option.split)

lemma clone_spec_fields [simp]: "ss_Replicas (clone_spec sp) = ss_Replicas sp" "ss_Port (clone_spec sp) = ss_Port sp" "port_ok (clone_spec sp) = port_ok sp"
  by (simp_all add: clone_spec_def port_ok_def)

lemma clone_revision_simps [simp]: "rv_Rev (clone_revision rv) = rv_Rev rv" "rv_Spec (clone_revision rv) = clone_spec (rv_Spec rv)"
  "clone_revision (clone_revision rv) = clone_revision rv"
  by (simp_all add: clone_revision_def)

lemma clone_idem [simp]: "clone (clone r) = clone r"
  by (simp add: clone_def option.map_comp comp_def)

lemma known_clone: "known_revs (clone r) = map clone_revision (known_revs r)"
  by (auto simp: known_revs_def clone_def split: option.split)

lemma clone_fields [simp]: "sr_Members (clone r) = sr_Members r" "sr_Revision (clone r) = sr_Revision r" "sr_Spec (clone r) = clone_spec (sr_Spec r)"
  by (simp_all add: clone_def)

lemma revs_ok_clone: "revs_ok r \<Longrightarrow> revs_ok (clone r)"
  by (auto simp: revs_ok_def known_clone comp_def)

lemma knows_clone [simp]: "knows (clone r) rn sp \<longleftrightarrow> knows r rn sp"
  by (auto simp: knows_def known_clone)

lemma rec_ok_clone:
  assumes "rec_ok made r"
  shows "rec_ok made (clone r)"
  by (rule rec_ok_change [OF assms]) (auto simp: rec_ok_parts [OF assms] revs_ok_clone)

subsection \<open>Every step of a service keeps its record consistent\<close>

lemma known_cong:
  assumes "known_revs r' = known_revs r" "sr_Revision r' = sr_Revision r"
  shows "revs_ok r' = revs_ok r" "knows r' rn sp = knows r rn sp"
  using assms by (simp_all add: revs_ok_def knows_def)

lemma removed_members:
  assumes "distinct (map rp_Sandbox ms)"
  shows "foldl (\<lambda>ms sid. remove_member sid ms) ms ids = filter (\<lambda>m. rp_Sandbox m \<notin> set ids) ms"
  using assms
proof (induction ids arbitrary: ms)
  case (Cons sid ids)
  then show ?case by (simp add: remove_member_filter distinct_map_filter conj_commute)
qed simp

lemma rec_ok_retireStep:
  assumes "rec_ok made (sv_rec s)"
  shows "rec_ok made (sv_rec (retireStep ids now s))"
proof -
  let ?r = "(sv_rec s)\<lparr>sr_Members := filter (\<lambda>m. rp_Sandbox m \<notin> set ids) (members s), sr_Updated := now\<rparr>"
  have "rec_ok made ?r"
    by (rule rec_ok_change [OF assms])
      (use rec_ok_parts [OF assms] known_cong [of ?r "sv_rec s"] in \<open>auto simp: distinct_map_filter known_revs_def\<close>)
  then show ?thesis by (simp add: retireStep_eq removed_members [OF rec_ok_parts(1) [OF assms]] persisted_def rec_ok_prune)
qed

lemma failRollout_revs:
  "revs_ok (sv_rec s) \<Longrightarrow> revs_ok (sv_rec (failRollout why now s))"
  "knows (sv_rec s) rn sp \<Longrightarrow> knows (sv_rec (failRollout why now s)) rn sp"
  by (auto simp: failRollout_def revs_ok_def knows_def known_revs_def split: option.splits)

lemma rec_ok_failRollout:
  assumes "rec_ok made (sv_rec s)"
  shows "rec_ok made (sv_rec (failRollout why now s))"
  by (rule rec_ok_change [OF assms]) (auto simp: svc_simps rec_ok_parts [OF assms] failRollout_revs)

lemma rec_ok_drop_failed:
  assumes "rec_ok made (sv_rec s)"
  shows "rec_ok made (sv_rec (drop_failed now out s))"
proof -
  let ?s1 = "foldl (drop_one s now) s out"
  let ?s2 = "?s1\<lparr>sv_rec := (sv_rec ?s1)\<lparr>sr_Members := filter (staying s) (members s)\<rparr>\<rparr>"
  have "rec_ok made (sv_rec ?s2)"
    by (rule rec_ok_change [OF assms])
      (use rec_ok_parts [OF assms] known_cong [of "sv_rec ?s2" "sv_rec s"] in \<open>auto simp: distinct_map_filter known_revs_def drop_fold_fields\<close>)
  then show ?thesis
    by (simp add: drop_failed_def Let_def rec_ok_retireStep rec_ok_failRollout split: option.split)
qed

lemma rec_ok_rollout_done:
  assumes "rec_ok made (sv_rec s)" "not_of_rev (rv_Rev (newest_rev (sv_rec s))) (members s) = []"
  shows "rec_ok made (sv_rec (rollout_done now s))"
proof (cases "sr_Target (sv_rec s)")
  case (Some t)
  let ?r = "(sv_rec s)\<lparr>sr_Serving := t, sr_Target := None, sr_Rollout := map_option (\<lambda>ro. ro\<lparr>ro_State := ''done''\<rparr>) (sr_Rollout (sv_rec s)), sr_Updated := now\<rparr>"
  have "rp_Rev m = rv_Rev t" if "m \<in> set (members s)" for m
    using assms(2) that Some by (auto simp: not_of_rev_def newest_rev_def filter_empty_conv)
  moreover have "revs_ok ?r" using rec_ok_parts(2) [OF assms(1)] Some by (auto simp: revs_ok_def known_revs_def)
  moreover have "knows ?r (rv_Rev t) sp" if "knows (sv_rec s) (rv_Rev t) sp" for sp
    using that rec_ok_parts(2) [OF assms(1)] Some by (auto simp: knows_def known_revs_def revs_ok_def)
  ultimately have "rec_ok made ?r"
    by (intro rec_ok_change [OF assms(1)]) (use rec_ok_parts [OF assms(1)] in auto)
  then show ?thesis using Some by (simp add: rollout_done_def persisted_def rec_ok_prune)
qed (use assms in \<open>simp add: rollout_done_def\<close>)

lemma rec_ok_new_target:
  assumes "rec_ok made r" "port_ok sp"
  shows "rec_ok made (new_target sp r)"
proof -
  have "sr_Revision r + 1 \<notin> rv_Rev ` set (known_revs r)" using rec_ok_parts(2) [OF assms(1)] by (auto simp: revs_ok_def)
  then have "revs_ok (new_target sp r)"
    using rec_ok_parts(2) [OF assms(1)] assms(2) by (fastforce simp: revs_ok_def known_revs_def new_target_def split: option.splits)
  moreover have "knows (new_target sp r) rn sp'" if "knows r rn sp'" for rn sp'
    using that by (auto simp: knows_def known_revs_def new_target_def split: option.splits)
  ultimately show ?thesis
    by (intro rec_ok_change [OF assms(1)]) (use rec_ok_parts [OF assms(1)] in \<open>auto simp: new_target_def\<close>)
qed

lemma rec_ok_spec:
  assumes "rec_ok made r" "0 \<le> ss_Replicas sp" "ss_Replicas sp \<le> MaxServiceReplicas" "port_ok sp"
  shows "rec_ok made (r\<lparr>sr_Spec := sp\<rparr>)"
  by (rule rec_ok_change [OF assms(1)]) (use assms rec_ok_parts [OF assms(1)] known_cong [of "r\<lparr>sr_Spec := sp\<rparr>" r] in \<open>auto simp: known_revs_def\<close>)

lemma rec_ok_updated:
  "rec_ok made (r\<lparr>sr_Updated := now\<rparr>) = rec_ok made r" "knows (r\<lparr>sr_Updated := now\<rparr>) rn sp = knows r rn sp"
  "knows (r\<lparr>sr_Spec := spec\<rparr>) rn sp = knows r rn sp" "knows (r\<lparr>sr_Members := ms\<rparr>) rn sp = knows r rn sp"
  by (simp_all add: rec_ok_def revs_ok_def knows_def known_revs_def)

lemma checkServiceSpec_replicas:
  "checkServiceSpec sp tenant = Inr sp' \<Longrightarrow> 0 \<le> ss_Replicas sp' \<and> ss_Replicas sp' \<le> MaxServiceReplicas \<and> port_ok sp'"
  by (auto simp: checkServiceSpec_def Let_def port_ok_def split: if_splits sum.splits spec_error.splits)

lemma knows_new_target: "knows r rn sp \<Longrightarrow> knows (new_target sp' r) rn sp"
  by (auto simp: knows_def known_revs_def new_target_def split: option.splits)

lemma members_new_target [simp]: "sr_Members (new_target sp r) = sr_Members r"
  by (simp add: new_target_def)

text \<open>What a request of the API may do to the service it names: its record is changed and stays consistent, and whatever it knew it knows.\<close>

definition api_change :: "service \<Rightarrow> service \<Rightarrow> bool" where
  "api_change s t \<longleftrightarrow> \<not> sv_gone s \<and> t = s\<lparr>sv_rec := sv_rec t\<rparr> \<and> members t = members s \<and> (\<forall>made. rec_ok made (sv_rec s) \<longrightarrow> rec_ok made (sv_rec t)) \<and>
     (\<forall>rn sp. knows (sv_rec s) rn sp \<longrightarrow> knows (sv_rec t) rn sp)"

lemma updates_change:
  assumes "updateService e (\<lambda>_ _. Some s) p name keep_env sp wrote now = Inr t"
  shows "api_change s t"
proof -
  obtain sp1 tenant sp2 where *: "checkServiceSpec sp1 tenant = Inr sp2" "t = s\<lparr>sv_rec := updated_record sp2 now (sv_rec s)\<rparr>" "\<not> sv_gone s"
    using assms by (auto simp: updateService_def Let_def lookupService_def split: if_splits)
  have "rec_ok made (updated_record sp2 now (sv_rec s))" if "rec_ok made (sv_rec s)" for made
    using rec_ok_spec [OF rec_ok_clone [OF that], of sp2] rec_ok_spec [OF rec_ok_new_target [OF rec_ok_clone [OF that]], of sp2]
      checkServiceSpec_replicas [OF *(1)] by (simp add: updated_record_def Let_def rec_ok_updated)
  moreover have "knows (updated_record sp2 now (sv_rec s)) rn sp" if "knows (sv_rec s) rn sp" for rn sp
    using that by (auto simp: updated_record_def Let_def rec_ok_updated intro: knows_new_target)
  moreover have "sr_Members (updated_record sp2 now (sv_rec s)) = members s"
    by (simp add: updated_record_def Let_def new_target_def)
  ultimately show ?thesis using * by (auto simp: api_change_def)
qed

lemma redeploys_change:
  assumes "redeployService e (\<lambda>_ _. Some s) p name wrote now = Inr t"
  shows "api_change s t"
proof -
  have *: "t = s\<lparr>sv_rec := redeployed_record now (sv_rec s)\<rparr>" "\<not> sv_gone s"
    using assms by (auto simp: redeployService_def lookupService_def split: if_splits)
  then show ?thesis
    by (auto simp: api_change_def redeployed_record_def rec_ok_updated dest: rec_ok_parts(5) intro!: rec_ok_new_target rec_ok_clone intro: knows_new_target)
qed

lemma scales_change:
  assumes "scaleService (\<lambda>_ _. Some s) p name n wrote now = Inr t"
  shows "api_change s t"
proof -
  have *: "t = s\<lparr>sv_rec := scaled_record n now (sv_rec s)\<rparr>" "\<not> sv_gone s" "0 \<le> n" "n \<le> MaxServiceReplicas"
    using assms by (auto simp: scaleService_def lookupService_def split: if_splits)
  then show ?thesis
    by (auto simp: api_change_def scaled_record_def Let_def rec_ok_updated port_ok_def [of "_\<lparr>ss_Replicas := _\<rparr>"] port_ok_def [of "sr_Spec _", symmetric]
        dest: rec_ok_parts(5) intro!: rec_ok_spec rec_ok_clone)
qed

lemma rec_ok_more:
  assumes "rec_ok made r" "sid \<notin> dom made"
  shows "rec_ok (made(sid \<mapsto> sp)) r"
proof -
  have "rp_Sandbox m \<noteq> sid" if "m \<in> set (sr_Members r)" for m using assms that by (auto simp: rec_ok_def)
  then show ?thesis using assms(1) by (auto simp: rec_ok_def)
qed

lemma rec_ok_made:
  assumes "rec_ok made (sv_rec s)" "int (length (members s)) \<le> MaxServiceReplicas" "rp_Sandbox m \<notin> dom made" "knows (sv_rec s) (rp_Rev m) sp" "ValidID (rp_Sandbox m)"
  shows "rec_ok (made(rp_Sandbox m \<mapsto> sp)) (sv_rec (replica_made k m now s))"
proof -
  have "rp_Sandbox m \<notin> rp_Sandbox ` set (members s)" using assms(1,3) by (force simp: rec_ok_def)
  then have "rec_ok (made(rp_Sandbox m \<mapsto> sp)) ((sv_rec s)\<lparr>sr_Members := members s @ [m\<lparr>rp_Restarts := k\<rparr>]\<rparr>)"
    using rec_ok_more [OF assms(1,3), of sp] assms(2,4,5) by (auto simp: rec_ok_def knows_def revs_ok_def known_revs_def)
  then show ?thesis by (simp add: replica_made_def persisted_def rec_ok_prune rec_ok_updated)
qed

lemma observe_fields [simp]: "sv_rec (observeService up row now s) = sv_rec s" "sv_gone (observeService up row now s) = sv_gone s"
proof -
  have "sv_rec (foldl (\<lambda>t m. t\<lparr>sv_health := F t m\<rparr>) u ms) = sv_rec u \<and> sv_gone (foldl (\<lambda>t m. t\<lparr>sv_health := F t m\<rparr>) u ms) = sv_gone u"
    for F and u :: service and ms :: "replicaRecord list" by (induction ms arbitrary: u) auto
  then show "sv_rec (observeService up row now s) = sv_rec s" "sv_gone (observeService up row now s) = sv_gone s"
    by (simp_all add: observeService_def)
qed

lemma check_done_fields [simp]: "sv_rec (check_done sid r now s) = sv_rec s" "sv_gone (check_done sid r now s) = sv_gone s"
  by (simp_all add: check_done_def)

lemma step_failed_fields:
  assumes "step_failed rv k err ref now s = (t, b)"
  shows "sv_gone t = sv_gone s" "members t = members s" "rec_ok made (sv_rec s) \<Longrightarrow> rec_ok made (sv_rec t)" "\<not> b \<Longrightarrow> sv_rec t = sv_rec s"
  using assms by (auto simp: step_failed_def createFailed_def Let_def svc_simps intro!: rec_ok_persisted rec_ok_failRollout split: if_splits)

lemma knows_newest: "knows r (rv_Rev (newest_rev r)) (rv_Spec (newest_rev r))"
  by (auto simp: knows_def known_revs_def newest_rev_def split: option.split)

text \<open>What a step that was decided on leaves of the record.\<close>

lemma decide_record:
  assumes "decide now active s = (t, d)" "rec_ok made (sv_rec s)"
  shows "rec_ok made (sv_rec t)" "sv_gone t = sv_gone s" "d = Rest \<Longrightarrow> sv_rec t = sv_rec s" "d = Recorded \<Longrightarrow> members t = members s"
    "d = Creates rv k \<Longrightarrow> sv_rec t = sv_rec s \<and> int (length (members s)) \<le> MaxServiceReplicas \<and> rv = newest_rev (sv_rec s)"
    "d = Retires ids \<Longrightarrow> rp_Sandbox ` set (members s) \<subseteq> rp_Sandbox ` set (members t) \<union> set ids"
proof -
  note parts = rec_ok_parts [OF assms(2)]
  show "rec_ok made (sv_rec t)" using assms(1)
    by (cases rule: decide_cases)
      (use assms(2) in \<open>auto simp: rec_ok_drop_failed rec_ok_retireStep rec_ok_rollout_done createStep_def split: list.splits\<close>)
  show "sv_gone t = sv_gone s" using assms(1)
    by (cases rule: decide_cases)
      (auto simp: svc_simps drop_failed_def Let_def drop_fold_fields rollout_done_def createStep_def split: list.splits option.splits)
  show "sv_rec t = sv_rec s" if "d = Rest" using assms(1) by (cases rule: decide_cases) (auto simp: that)
  show "members t = members s" if "d = Recorded" using assms(1)
    by (cases rule: decide_cases) (auto simp: that rollout_done_def svc_simps split: option.splits)
  show "sv_rec t = sv_rec s \<and> int (length (members s)) \<le> MaxServiceReplicas \<and> rv = newest_rev (sv_rec s)" if "d = Creates rv k" using assms(1)
    by (cases rule: decide_cases) (use parts(3,4) in \<open>auto simp: that createStep_def split: list.splits\<close>)
  show "rp_Sandbox ` set (members s) \<subseteq> rp_Sandbox ` set (members t) \<union> set ids" if "d = Retires ids" using assms(1)
    by (cases rule: decide_cases) (auto simp: that svc_simps drop_failed_members [OF parts(1)] remove_member_filter [OF parts(1)])
qed

lemma set_appendNew [simp]: "set (appendNew xs ids) = set xs \<union> set ids"
  unfolding appendNew_def by (induction ids arbitrary: xs) auto

lemma put_fields [simp]:
  "c_svc (put wrote s ids c) = s" "c_pass (put wrote s ids c) = c_pass c" "c_made (put wrote s ids c) = c_made c" "c_live (put wrote s ids c) = c_live c"
  "c_rows (put wrote s ids c) = c_rows c" "c_store (put True s ids c) = Some (clone (sv_rec s))"
  "set (c_queue (put True s ids c)) = set (c_queue c) \<union> set ids"
  by (simp_all add: put_def)

lemma put_store: "c_store (put wrote s ids c) = Some r \<Longrightarrow> r = clone (sv_rec s) \<or> c_store c = Some r"
  by (auto simp: put_def split: if_splits)

lemma after_verdict_fields [simp]:
  "c_svc (after_verdict wrote v sid c) = c_svc c" "c_store (after_verdict wrote v sid c) = c_store c" "c_made (after_verdict wrote v sid c) = c_made c"
  "c_pass (after_verdict wrote v sid c) = c_pass c"
  by (cases v; simp add: Let_def)+

lemma born_fields [simp]:
  "c_svc (born sid sp c) = c_svc c" "c_store (born sid sp c) = c_store c" "c_made (born sid sp c) = (c_made c)(sid \<mapsto> sp)" "c_pass (born sid sp c) = c_pass c"
  "c_queue (born sid sp c) = c_queue c" "c_live (born sid sp c) = insert sid (c_live c)" "c_rows (born sid sp c) = insert sid (c_rows c)"
  by (simp_all add: born_def)

lemma retire_fields [simp]:
  "c_svc (retire wrote sid c) = c_svc c" "c_store (retire wrote sid c) = c_store c" "c_made (retire wrote sid c) = c_made c" "c_pass (retire wrote sid c) = c_pass c"
  "c_live (retire wrote sid c) = c_live c" "c_rows (retire wrote sid c) = c_rows c" "set (c_queue (retire True sid c)) = insert sid (set (c_queue c))"
  by (simp_all add: retire_def)

subsection \<open>The invariant, whatever fails\<close>

definition cinv :: "ctl \<Rightarrow> bool" where
  "cinv c \<longleftrightarrow> rec_ok (c_made c) (sv_rec (c_svc c)) \<and> (\<forall>r. c_store c = Some r \<longrightarrow> rec_ok (c_made c) r) \<and>
     (\<forall>rv k. c_pass c = Creating rv k \<longrightarrow> int (length (members (c_svc c))) \<le> MaxServiceReplicas \<and> knows (sv_rec (c_svc c)) (rv_Rev rv) (rv_Spec rv))"

lemma cinv_same: "cinv c \<Longrightarrow> sv_rec (c_svc c') = sv_rec (c_svc c) \<Longrightarrow> c_store c' = c_store c \<Longrightarrow> c_made c' = c_made c \<Longrightarrow>
    c_pass c' = c_pass c \<or> (\<forall>rv k. c_pass c' \<noteq> Creating rv k) \<Longrightarrow> cinv c'"
  by (auto simp: cinv_def)

lemma cinv_put:
  assumes "cinv c" "rec_ok (c_made c) (sv_rec s)" "\<forall>rv k. c_pass c = Creating rv k \<longrightarrow> int (length (members s)) \<le> MaxServiceReplicas \<and> knows (sv_rec s) (rv_Rev rv) (rv_Spec rv)"
  shows "cinv (put wrote s ids c)"
  using assms by (auto simp: cinv_def dest!: put_store intro: rec_ok_clone)

lemma cinv_idle: "cinv c \<Longrightarrow> (\<forall>rv k. p \<noteq> Creating rv k) \<Longrightarrow> cinv (c\<lparr>c_pass := p\<rparr>)"
  by (auto simp: cinv_def)

lemma cinv_api:
  assumes "cinv c" "api_change (c_svc c) t"
  shows "cinv (put True t [] c)"
  using assms by (intro cinv_put) (auto simp: cinv_def api_change_def)

lemma cinv_born: "cinv c \<Longrightarrow> sid \<notin> dom (c_made c) \<Longrightarrow> cinv (born sid sp c)"
  by (auto simp: cinv_def rec_ok_more)

lemma cinv_unheard: "cinv c \<Longrightarrow> sid \<notin> dom (c_made c) \<Longrightarrow> cinv (unheard sid sp c)"
  by (auto simp: cinv_def rec_ok_more unheard_def)

lemma cinv_retire: "cinv c \<Longrightarrow> cinv (retire wrote sid c)"
  by (erule cinv_same) auto

lemma cinv_fails:
  assumes "cinv c"
  shows "cinv (create_fails wrote rv k err ref now c)"
proof -
  obtain t b where t: "step_failed rv k err ref now (c_svc c) = (t, b)" by fastforce
  have ok: "rec_ok (c_made c) (sv_rec t)" using step_failed_fields(3) [OF t] assms by (simp add: cinv_def)
  have "cinv ((put wrote t [] c)\<lparr>c_pass := Idle\<rparr>)" using assms ok by (auto simp: cinv_def dest!: put_store intro: rec_ok_clone)
  moreover have "cinv (c\<lparr>c_svc := t, c_pass := Idle\<rparr>)" using assms ok by (auto simp: cinv_def)
  ultimately show ?thesis by (cases b) (simp_all add: create_fails_def t)
qed

lemma cinv_returns:
  assumes "cinv c" "c_pass c = Creating rv k" "fits_outcome c rv out"
  shows "cinv (create_returns wrote out err now rv k c)"
proof (cases out)
  case (Started m)
  have fresh: "rp_Sandbox m \<notin> dom (c_made c)" "rp_Rev m = rv_Rev rv" "ValidID (rp_Sandbox m)" using assms(3) Started by auto
  let ?c = "born (rp_Sandbox m) (rv_Spec rv) c"
  have b: "cinv ?c" by (rule cinv_born [OF assms(1) fresh(1)])
  have "rec_ok (c_made ?c) (sv_rec (replica_made k m now (c_svc c)))"
    using assms(1,2) fresh by (auto simp: cinv_def intro!: rec_ok_made)
  then have "cinv ((put wrote (replica_made k m now (c_svc c)) [] ?c)\<lparr>c_pass := Idle\<rparr>)"
    using b by (auto simp: cinv_def dest!: put_store intro: rec_ok_clone)
  moreover have "cinv ((retire wrote (rp_Sandbox m) ?c)\<lparr>c_pass := Ending [rp_Sandbox m]\<rparr>)"
    by (rule cinv_idle [OF cinv_retire [OF b]]) simp
  ultimately show ?thesis using Started by (simp add: Let_def)
qed (use assms in \<open>auto intro!: cinv_fails cinv_retire cinv_born\<close>)

lemma cinv_restart: "cinv c \<Longrightarrow> cinv (restart c)"
proof -
  assume c: "cinv c"
  have "rec_ok (c_made c) (sv_rec (deleted (c_svc c)))"
    by (rule rec_ok_change [of _ "sv_rec (c_svc c)"])
      (use c rec_ok_parts [of "c_made c" "sv_rec (c_svc c)"] in \<open>auto simp: cinv_def deleted_def rec_ok_updated revs_ok_def known_revs_def\<close>)
  then show ?thesis using c by (auto simp: cinv_def restart_def fresh_service_def split: option.split)
qed

lemma cinv_decides:
  assumes "cinv c" "c_pass c = Idle" "decide now active (c_svc c) = (s, d)"
  shows "cinv (after_decide wrote s d c)"
proof -
  have ok: "rec_ok (c_made c) (sv_rec (c_svc c))" using assms(1) by (simp add: cinv_def)
  note D = decide_record [OF assms(3) ok]
  have p: "cinv (put wrote s ids c)" for ids by (rule cinv_put [OF assms(1) D(1)]) (simp add: assms(2))
  show ?thesis
  proof (cases d)
    case Rest
    then show ?thesis using D(3) assms(1) by (auto simp: cinv_def)
  next
    case (Retires ids)
    then show ?thesis using cinv_idle [OF p, of "Ending ids"] by simp
  next
    case (Creates rv k)
    then show ?thesis using D(5) [OF Creates] assms(1) knows_newest [of "sv_rec (c_svc c)"] by (auto simp: cinv_def)
  qed (simp add: p)
qed

lemma cinv_deletes:
  assumes "cinv c" "deleteService (\<lambda>_ _. Some (c_svc c)) p name wrote = Inr (s, ids)"
  shows "cinv (c\<lparr>c_svc := s, c_store := None, c_queue := q\<rparr>)"
proof -
  have s: "s = deleted (c_svc c)" using assms(2) by (auto simp: deleteService_def lookupService_def split: if_splits)
  have "cinv (restart (c\<lparr>c_store := None\<rparr>))" by (rule cinv_restart) (use assms(1) in \<open>auto simp: cinv_def\<close>)
  then show ?thesis using assms(1) by (auto simp: cinv_def restart_def s deleted_def rec_ok_updated)
qed

lemma cinv_step: "cstep faults c c' \<Longrightarrow> cinv c \<Longrightarrow> cinv c'"
proof (induction rule: cstep.induct)
  case (decides c now active s d wrote)
  then show ?case using cinv_decides by blast
next
  case (returns c rv k out wrote err now)
  then show ?case using cinv_returns by blast
next
  case (ends c sid ids row up ans v wrote)
  then show ?case by (intro cinv_same [OF ends.prems]) (auto simp: rest_of_pass_def)
next
  case (updates e c p name keep_env sp now s)
  then show ?case using cinv_api updates_change by blast
next
  case (redeploys e c p name now s)
  then show ?case using cinv_api redeploys_change by blast
next
  case (scales c p name n now s)
  then show ?case using cinv_api scales_change by blast
next
  case (deletes c p name s ids)
  then show ?case using cinv_deletes by blast
next
  case (unanswered c rv k sid wrote f err now)
  then show ?case using cinv_fails [OF cinv_unheard] by simp
qed (auto intro: cinv_restart cinv_born cinv_unheard elim: cinv_same)

lemma cinit_made:
  assumes "cinit c"
  obtains sp where "sv_rec (c_svc c) = \<lparr>sr_Name = ss_Name sp, sr_User = sr_User (sv_rec (c_svc c)), sr_Tenant = sr_Tenant (sv_rec (c_svc c)), sr_Spec = sp, sr_Revision = 1,
      sr_Serving = \<lparr>rv_Rev = 1, rv_Spec = sp\<rparr>, sr_Target = None, sr_Older = [], sr_Rollout = None, sr_Members = [], sr_Restarts = 0,
      sr_Created = sr_Created (sv_rec (c_svc c)), sr_Updated = sr_Updated (sv_rec (c_svc c))\<rparr>" "\<not> sv_gone (c_svc c)"
    "0 \<le> ss_Replicas sp" "ss_Replicas sp \<le> MaxServiceReplicas" "port_ok sp"
proof -
  from assms obtain e p sp now where "createService e p sp False True now = Inr (c_svc c)" by (auto simp: cinit_def)
  then obtain sp1 where sp1: "checkServiceSpec sp (pp_Tenant p) = Inr sp1" and svc: "c_svc c = fresh_service \<lparr>sr_Name = ss_Name sp1, sr_User = pp_User p, sr_Tenant = pp_Tenant p,
      sr_Spec = sp1, sr_Revision = 1, sr_Serving = \<lparr>rv_Rev = 1, rv_Spec = sp1\<rparr>, sr_Target = None, sr_Older = [], sr_Rollout = None, sr_Members = [], sr_Restarts = 0,
      sr_Created = now, sr_Updated = now\<rparr>"
    by (auto simp: createService_def split: if_splits)
  show ?thesis
    by (rule that [of sp1]) (use checkServiceSpec_replicas [OF sp1] svc in \<open>simp_all add: fresh_service_def\<close>)
qed

lemma cinit_cinv: "cinit c \<Longrightarrow> cinv c"
proof -
  assume c: "cinit c"
  from cinit_made [OF c] obtain sp where r: "sr_Spec (sv_rec (c_svc c)) = sp" "members (c_svc c) = []" "0 \<le> ss_Replicas sp" "ss_Replicas sp \<le> MaxServiceReplicas" "port_ok sp"
    "known_revs (sv_rec (c_svc c)) = [\<lparr>rv_Rev = 1, rv_Spec = sp\<rparr>]" "sr_Revision (sv_rec (c_svc c)) = 1" by (metis known_revs_def serviceRecord.select_convs option.simps(4) append_Nil)
  then have "rec_ok (c_made c) (sv_rec (c_svc c))" by (simp add: rec_ok_def revs_ok_def MaxServiceReplicas_def)
  then show ?thesis using c by (auto simp: cinv_def cinit_def intro: rec_ok_clone)
qed

interpretation services: step_invariant cinit "cstep faults" cinv
  by unfold_locales (auto intro: cinit_cinv cinv_step)

text \<open>
  C16: Whatever the controller, the API, nodes, failed writes and restarts do, and in whatever order, each replica in a service's record is checked and routed to by
  the spec its sandbox was made from, up to what JSON does to empty lists: its revision stays known, though revisions are
  superseded, fail and are forgotten, also while a replica of one is being made.
\<close>

theorem replicas_keep_their_spec:
  assumes "reach cinit (cstep faults) c" "m \<in> set (members (c_svc c))"
  shows "\<exists>sp. c_made c (rp_Sandbox m) = Some sp \<and> clone_spec (specOf (sv_rec (c_svc c)) (rp_Rev m)) = clone_spec sp"
proof -
  have ok: "rec_ok (c_made c) (sv_rec (c_svc c))" using services.inv_reach [OF assms(1)] by (simp add: cinv_def)
  then obtain sp where "c_made c (rp_Sandbox m) = Some sp" "knows (sv_rec (c_svc c)) (rp_Rev m) sp" using assms(2) by (auto simp: rec_ok_def)
  then show ?thesis using specOf_known [OF rec_ok_parts(2) [OF ok]] by blast
qed

text \<open>
  A service never has more than one replica above the most a spec may ask for, counting the one being made, and no two members
  are one sandbox.
\<close>

theorem replicas_bounded:
  assumes "reach cinit (cstep faults) c"
  shows "distinct (map rp_Sandbox (members (c_svc c))) \<and>
    int (length (members (c_svc c))) + (case c_pass c of Creating _ _ \<Rightarrow> 1 | _ \<Rightarrow> 0) \<le> MaxServiceReplicas + 1"
  using services.inv_reach [OF assms] by (auto simp: cinv_def rec_ok_def split: pass.split)

section \<open>No replica is forgotten\<close>

text \<open>
  While nothing fails the store has what the gateway holds, and every sandbox made for the service that still runs is one of its replicas or
  waits to be terminated.
\<close>

abbreviation replica_ids :: "service \<Rightarrow> bytes set" where
  "replica_ids s \<equiv> rp_Sandbox ` set (members s)"

definition covered :: "ctl \<Rightarrow> bool" where
  "covered c \<longleftrightarrow> c_live c \<subseteq> c_rows c \<and> c_live c \<subseteq> set (c_queue c) \<union> replica_ids (c_svc c)"

definition stored :: "ctl \<Rightarrow> bool" where
  "stored c \<longleftrightarrow> (sv_gone (c_svc c) \<longrightarrow> members (c_svc c) = []) \<and> (case c_store c of None \<Rightarrow> sv_gone (c_svc c)
    | Some r \<Rightarrow> (\<exists>r0. r = clone r0) \<and> sr_Members r = members (c_svc c) \<and> (\<not> sv_gone (c_svc c) \<longrightarrow> r = clone (sv_rec (c_svc c))))"

definition kinv :: "ctl \<Rightarrow> bool" where
  "kinv c \<longleftrightarrow> cinv c \<and> covered c \<and> stored c"

lemma kinvD:
  assumes "kinv c"
  shows "cinv c" "covered c" "stored c" "rec_ok (c_made c) (sv_rec (c_svc c))" "sv_gone (c_svc c) \<Longrightarrow> members (c_svc c) = []"
  using assms by (simp_all add: kinv_def cinv_def stored_def)

lemma stored_put: "c_svc c' = s \<Longrightarrow> c_store c' = Some (clone (sv_rec s)) \<Longrightarrow> (sv_gone s \<Longrightarrow> members s = []) \<Longrightarrow> stored c'"
  unfolding stored_def by simp blast

lemma stored_same: "stored c \<Longrightarrow> sv_rec (c_svc c') = sv_rec (c_svc c) \<Longrightarrow> sv_gone (c_svc c') = sv_gone (c_svc c) \<Longrightarrow> c_store c' = c_store c \<Longrightarrow> stored c'"
  by (cases "c_store c") (simp_all add: stored_def)

lemma covered_put: "covered c \<Longrightarrow> c_live c' = c_live c \<Longrightarrow> c_rows c' = c_rows c \<Longrightarrow> set (c_queue c') = set (c_queue c) \<union> set ids \<Longrightarrow>
    replica_ids (c_svc c) \<subseteq> replica_ids (c_svc c') \<union> set ids \<Longrightarrow> covered c'"
  unfolding covered_def by blast

lemma covered_less: "covered c \<Longrightarrow> sv_rec (c_svc c') = sv_rec (c_svc c) \<Longrightarrow> c_live c' \<subseteq> c_live c \<Longrightarrow> c_live c' \<subseteq> c_rows c' \<Longrightarrow>
    c_live c' \<inter> set (c_queue c) \<subseteq> set (c_queue c') \<Longrightarrow> covered c'"
  unfolding covered_def by auto

lemma kinv_put:
  assumes "kinv c" "cinv c'" "c_svc c' = s" "c_store c' = Some (clone (sv_rec s))" "c_live c' = c_live c" "c_rows c' = c_rows c"
    "set (c_queue c') = set (c_queue c) \<union> set ids" "replica_ids (c_svc c) \<subseteq> replica_ids s \<union> set ids" "sv_gone s \<Longrightarrow> members s = []"
  shows "kinv c'"
  unfolding kinv_def using assms(2) covered_put [OF kinvD(2) [OF assms(1)] assms(5,6,7)] stored_put [OF assms(3,4,9)] assms(3,8) by simp

lemma kinv_quiet:
  assumes "kinv c" "cinv c'" "sv_rec (c_svc c') = sv_rec (c_svc c)" "sv_gone (c_svc c') = sv_gone (c_svc c)" "c_store c' = c_store c"
    "c_live c' \<subseteq> c_live c" "c_live c' \<subseteq> c_rows c'" "c_live c' \<inter> set (c_queue c) \<subseteq> set (c_queue c')"
  shows "kinv c'"
  unfolding kinv_def using assms(2) covered_less [OF kinvD(2) [OF assms(1)] assms(3,6,7,8)] stored_same [OF kinvD(3) [OF assms(1)] assms(3,4,5)] by simp

lemma kinv_same:
  assumes "kinv c" "cinv c'" "sv_rec (c_svc c') = sv_rec (c_svc c)" "sv_gone (c_svc c') = sv_gone (c_svc c)" "c_store c' = c_store c"
    "c_live c' = c_live c" "c_rows c' = c_rows c" "c_queue c' = c_queue c"
  shows "kinv c'"
  by (rule kinv_quiet [OF assms(1-5)]) (use assms(6-8) kinvD(2) [OF assms(1)] in \<open>auto simp: covered_def\<close>)

lemma kinv_decides:
  assumes "kinv c" "c_pass c = Idle" "decide now active (c_svc c) = (s, d)"
  shows "kinv (after_decide True s d c)"
proof -
  note D = decide_record [OF assms(3) kinvD(4) [OF assms(1)]]
  have c': "cinv (after_decide True s d c)" by (rule cinv_decides [OF kinvD(1) [OF assms(1)] assms(2,3)])
  have gone: "members s = []" if "sv_gone s"
    using that assms(3) D(2) kinvD(5) [OF assms(1)] by (simp add: decide_def)
  show ?thesis
  proof (cases d)
    case Rest
    then show ?thesis using kinv_same [OF assms(1) c'] D(2,3) by simp
  next
    case Recorded
    then show ?thesis using kinv_put [OF assms(1) c', of s "[]"] D(4) gone by simp
  next
    case (Retires ids)
    then show ?thesis using kinv_put [OF assms(1) c', of s ids] D(6) gone by simp
  next
    case (Creates rv k)
    then show ?thesis using kinv_same [OF assms(1) c'] D(2,5) by simp
  qed
qed

lemma kinv_born_queued:
  assumes "kinv c" "sid \<notin> dom (c_made c)"
  shows "kinv (retire True sid (born sid sp c))"
proof -
  have "covered (retire True sid (born sid sp c))" using kinvD(2) [OF assms(1)] by (auto simp: covered_def)
  moreover have "stored (retire True sid (born sid sp c))" by (rule stored_same [OF kinvD(3) [OF assms(1)]]) simp_all
  ultimately show ?thesis using cinv_retire [OF cinv_born [OF kinvD(1) [OF assms(1)] assms(2)]] by (simp add: kinv_def)
qed

lemma kinv_fails:
  assumes "kinv c"
  shows "kinv (create_fails True rv k err ref now c)"
proof -
  obtain t b where t: "step_failed rv k err ref now (c_svc c) = (t, b)" by fastforce
  note T = step_failed_fields [OF t]
  have c': "cinv (create_fails True rv k err ref now c)" by (rule cinv_fails [OF kinvD(1) [OF assms]])
  have gone: "members t = []" if "sv_gone t" using kinvD(5) [OF assms] T that by simp
  show ?thesis
  proof (cases b)
    case True
    then show ?thesis using kinv_put [OF assms c', of t "[]"] T gone by (simp add: create_fails_def t)
  next
    case False
    then show ?thesis using kinv_same [OF assms c'] T by (simp add: create_fails_def t)
  qed
qed

lemma kinv_returns:
  assumes "kinv c" "c_pass c = Creating rv k" "fits_outcome c rv out" "\<not> owner_unread out"
  shows "kinv (create_returns True out err now rv k c)"
proof (cases out)
  case (Started m)
  let ?c = "born (rp_Sandbox m) (rv_Spec rv) c" and ?s = "replica_made k m now (c_svc c)"
  have c': "cinv (create_returns True out err now rv k c)" by (rule cinv_returns [OF kinvD(1) [OF assms(1)] assms(2,3)])
  have fresh: "rp_Sandbox m \<notin> dom (c_made c)" using assms(3) Started by simp
  show ?thesis
  proof (cases "sv_gone (c_svc c)")
    case True
    then show ?thesis using kinv_same [OF kinv_born_queued [OF assms(1) fresh] c'] Started by (simp add: Let_def)
  next
    case False
    have "covered ((put True ?s [] ?c)\<lparr>c_pass := Idle\<rparr>)" using kinvD(2) [OF assms(1)] by (auto simp: covered_def replica_made_def svc_simps)
    moreover have "stored ((put True ?s [] ?c)\<lparr>c_pass := Idle\<rparr>)" by (rule stored_put [where s = ?s]) (use False in \<open>simp_all add: replica_made_def svc_simps\<close>)
    ultimately show ?thesis using c' Started False by (simp add: Let_def kinv_def)
  qed
next
  case (NotStarted sid)
  then show ?thesis using kinv_fails [OF kinv_born_queued [OF assms(1)]] assms(3) by simp
qed (use assms(4) kinv_fails [OF assms(1)] in \<open>simp_all add: owner_unread_def\<close>)

lemma kinv_restart:
  assumes "kinv c"
  shows "kinv (restart c)"
proof -
  have "covered (restart c) \<and> stored (restart c)"
    using kinvD(2,3) [OF assms] by (cases "c_store c") (auto simp: covered_def stored_def restart_def deleted_def fresh_service_def)
  then show ?thesis using cinv_restart [OF kinvD(1) [OF assms]] by (simp add: kinv_def)
qed

lemma kinv_api:
  assumes "kinv c" "api_change (c_svc c) t"
  shows "kinv (put True t [] c)"
proof -
  have t: "t = (c_svc c)\<lparr>sv_rec := sv_rec t\<rparr>" "members t = members (c_svc c)" "\<not> sv_gone (c_svc c)"
    using assms(2) unfolding api_change_def by blast+
  then have "\<not> sv_gone t" by (metis service.select_convs(3) service.surjective service.update_convs(1))
  then show ?thesis using kinv_put [OF assms(1) cinv_api [OF kinvD(1) [OF assms(1)] assms(2)], of t "[]"] t(2) by simp
qed

lemma kinv_verdict:
  assumes "kinv c" "row = Some None \<longrightarrow> sid \<notin> c_rows c" "terminate_one row up ans = v"
  shows "kinv (after_verdict wrote v sid c)"
proof -
  have c': "cinv (after_verdict wrote v sid c)" by (rule cinv_same [OF kinvD(1) [OF assms(1)]]) auto
  have rows: "c_live c \<subseteq> c_rows c" using kinvD(2) [OF assms(1)] by (simp add: covered_def)
  have no_row: "v = NoRow \<Longrightarrow> sid \<notin> c_live c"
    using assms(2,3) rows by (auto simp: terminate_one_def split: option.splits if_splits)
  show ?thesis
    by (rule kinv_quiet [OF assms(1) c']; cases v; use rows no_row in \<open>auto simp: Let_def Retired_def\<close>)
qed

lemma kinv_deletes:
  assumes "kinv c" "deleteService (\<lambda>_ _. Some (c_svc c)) p name wrote = Inr (s, ids)"
  shows "kinv (c\<lparr>c_svc := s, c_store := None, c_queue := appendNew (c_queue c) ids\<rparr>)"
proof -
  have s: "s = deleted (c_svc c)" "ids = map rp_Sandbox (members (c_svc c))"
    using assms(2) by (auto simp: deleteService_def lookupService_def split: if_splits)
  have "covered (c\<lparr>c_svc := s, c_store := None, c_queue := appendNew (c_queue c) ids\<rparr>)"
    using kinvD(2) [OF assms(1)] by (auto simp: covered_def s)
  moreover have "stored (c\<lparr>c_svc := s, c_store := None, c_queue := appendNew (c_queue c) ids\<rparr>)" by (simp add: stored_def s deleted_def)
  ultimately show ?thesis using cinv_deletes [OF kinvD(1) [OF assms(1)] assms(2)] by (simp add: kinv_def)
qed

lemma kinv_step: "cstep False c c' \<Longrightarrow> kinv c \<Longrightarrow> kinv c'"
proof (induction rule: cstep.induct)
  case (observes c up row now)
  then show ?case using kinv_same [OF observes cinv_step [OF cstep.observes kinvD(1) [OF observes]]] by simp
next
  case (checked c sid r now)
  then show ?case using kinv_same [OF checked cinv_step [OF cstep.checked kinvD(1) [OF checked]]] by simp
next
  case (picked c)
  then show ?case using kinv_same [OF picked cinv_step [OF cstep.picked kinvD(1) [OF picked]]] by simp
next
  case (decides c now active s d wrote)
  then show ?case using kinv_decides by simp
next
  case (returns c rv k out wrote err now)
  then show ?case using kinv_returns by simp
next
  case (ends c sid ids row up ans v wrote)
  have "kinv (after_verdict wrote v sid c)" by (rule kinv_verdict [OF ends.prems ends.hyps(3,2)])
  then show ?case using kinv_same cinv_idle [OF kinvD(1), of _ "rest_of_pass ids"] by (simp add: rest_of_pass_def)
next
  case (sweeps sid c row up ans v wrote)
  then show ?case using kinv_verdict by blast
next
  case (stops c sid)
  then show ?case using kinvD(2) [OF stops] by (intro kinv_quiet [OF stops cinv_step [OF cstep.stops kinvD(1) [OF stops]]]) (auto simp: covered_def)
next
  case (row_goes sid c)
  then show ?case using kinvD(2) [OF row_goes.prems]
    by (intro kinv_quiet [OF row_goes.prems cinv_step [OF cstep.row_goes [OF row_goes.hyps] kinvD(1) [OF row_goes.prems]]]) (auto simp: covered_def)
next
  case (updates e c p name keep_env sp now s)
  then show ?case using kinv_api updates_change by blast
next
  case (redeploys e c p name now s)
  then show ?case using kinv_api redeploys_change by blast
next
  case (scales c p name n now s)
  then show ?case using kinv_api scales_change by blast
next
  case (deletes c p name s ids)
  then show ?case using kinv_deletes by blast
qed (auto intro: kinv_restart)

lemma cinit_kinv: "cinit c \<Longrightarrow> kinv c"
  using cinit_cinv [of c] cinit_made [of c] unfolding kinv_def by (auto simp: cinit_def covered_def stored_def)

interpretation watched: event_invariant cinit cmove "\<lambda>e. e = None" kinv
  by unfold_locales (auto elim!: cmove.cases intro: cinit_kinv kinv_step)

text \<open>Every step with faults is one of the moves.\<close>

lemma cstep_moves: "cstep faults c c' \<Longrightarrow> \<exists>e. cmove c e c'"
proof (induction rule: cstep.induct)
  case (decides c now active s d wrote)
  show ?case
  proof (cases wrote)
    case True
    then show ?thesis using sound [OF cstep.decides [OF decides.hyps(1,2)]] by blast
  next
    case False
    then show ?thesis using unwritten_decides [OF decides.hyps(1,2)] by auto
  qed
next
  case (returns c rv k out wrote err now)
  show ?case
  proof (cases "wrote \<and> \<not> owner_unread out")
    case True
    then show ?thesis using sound [OF cstep.returns [OF returns.hyps(1,2)]] by blast
  next
    case False
    then show ?thesis using unread [OF returns.hyps(1,2)] unwritten_returns [OF returns.hyps(1,2)] by (cases wrote) (simp, blast)+
  qed
next
  case (ends c sid ids row up ans v wrote)
  then show ?case using unwritten_ends [OF ends.hyps(1-3)] sound [OF cstep.ends [OF ends.hyps(1-3)]] by (cases wrote) auto
next
  case (sweeps sid c row up ans v wrote)
  then show ?case using unwritten_sweeps [OF sweeps.hyps(1-3)] sound [OF cstep.sweeps [OF sweeps.hyps(1-3)]] by (cases wrote) auto
next
  case (stops_creating c rv k sid recorded)
  then show ?case using stopped by blast
next
  case (unanswered c rv k sid wrote f err now)
  then show ?case using unanswered_move by blast
qed (blast intro: sound cstep.intros)+

text \<open>
  C15: After any run of a service's controller and its API, with nodes that stop and with restarts of the gateway, every sandbox made for the service that
  still runs is one of the replicas in its record, the store's and the gateway's alike, or is in the retire queue: also one whose service was
  deleted while it was made, whose command did not start, or that was taken out while its node was lost. Or one of four things
  happened in the run: a write to the store failed, the store did not give the owner of a replica just made, the answer to a create was lost although the
  node made the sandbox, or the gateway stopped in the middle of a create.
\<close>

theorem no_replica_forgotten:
  assumes "trace cmove c0 es c" "cinit c0" "sid \<in> c_live c"
  shows "sid \<in> set (c_queue c) \<or> sid \<in> replica_ids (c_svc c) \<and> \<not> sv_gone (c_svc c) \<and> c_store c = Some (clone (sv_rec (c_svc c))) \<or>
    (\<exists>e. Some e \<in> set es)"
proof (cases "\<exists>e. Some e \<in> set es")
  case False
  then have k: "kinv c" using watched.inv_trace [OF assms(1,2)] by fastforce
  show ?thesis using kinvD(2,3) [OF k] assms(3) by (cases "c_store c") (auto simp: covered_def stored_def)
qed simp

section \<open>A deleted service that comes back\<close>

text \<open>
  C40: A rollout's replica that is refused after its service was deleted: the failed rollout is recorded, which puts the service's record back in
  the store, and a gateway that restarts has the service again.
\<close>

theorem deleted_service_comes_back:
  assumes "sv_gone (c_svc c)" "c_pass c = Creating rv k" "rollout_of (rv_Rev rv) (c_svc c)" "refused f"
  shows "cstep False c (create_returns True (NotMade f) err now rv k c) \<and>
    \<not> sv_gone (c_svc (restart (create_returns True (NotMade f) err now rv k c))) \<and>
    sr_Name (sv_rec (c_svc (restart (create_returns True (NotMade f) err now rv k c)))) = sr_Name (sv_rec (c_svc c))"
proof (intro conjI)
  have r: "rollout_of (rv_Rev rv) ((c_svc c)\<lparr>sv_pending := p\<rparr>)" for p using assms(3) by (simp add: rollout_of_def)
  show "cstep False c (create_returns True (NotMade f) err now rv k c)"
    by (rule cstep.returns [OF assms(2)]) (simp_all add: owner_unread_def)
  show "\<not> sv_gone (c_svc (restart (create_returns True (NotMade f) err now rv k c)))"
    "sr_Name (sv_rec (c_svc (restart (create_returns True (NotMade f) err now rv k c)))) = sr_Name (sv_rec (c_svc c))"
    using assms(4) r by (simp_all add: create_fails_def step_failed_def createFailed_def Let_def restart_def fresh_service_def persisted_def
        pruneOlder_def clone_def failRollout_def split: option.split)
qed

subsection \<open>The steps that lead there\<close>

definition demo_owner :: Principal where
  "demo_owner = \<lparr>pp_User = ''ann'', pp_Tenant = [], pp_KeyTenant = [], pp_KeyID = ''k1'', pp_Scopes = [''sandbox:create'', ''sandbox:delete''], pp_Sandbox = [], pp_Bound = False,
     pp_BoundOrg = []\<rparr>"

definition demo_svc_env :: svc_env where
  "demo_svc_env = \<lparr>se_secrets = \<lparr>sx_sealer = False, sx_Sealed = (\<lambda>_ _. None), sx_open = (\<lambda>_ _. None)\<rparr>, se_groups = None\<rparr>"

definition one_web :: ServiceSpec where
  "one_web = demo_web\<lparr>ss_Replicas := 1, ss_Public := True\<rparr>"

definition one_record :: serviceRecord where
  "one_record = \<lparr>sr_Name = ''web'', sr_User = ''ann'', sr_Tenant = [], sr_Spec = one_web, sr_Revision = 1, sr_Serving = \<lparr>rv_Rev = 1, rv_Spec = one_web\<rparr>,
     sr_Target = None, sr_Older = [], sr_Rollout = None, sr_Members = [], sr_Restarts = 0, sr_Created = 1, sr_Updated = 1\<rparr>"

definition one_ctl :: ctl where
  "one_ctl = \<lparr>c_svc = fresh_service one_record, c_store = Some (clone one_record), c_queue = [], c_pass = Idle, c_live = {}, c_rows = {}, c_made = (\<lambda>_. None)\<rparr>"

lemma web_name_valid: "validServiceName ''web''"
  by (simp add: validServiceName_def serviceNameRE_def Contains_def HasPrefix_def in_cls_def Opt_def)

lemma one_web_checked:
  "checkServiceSpec (one_web\<lparr>ss_Image := img\<rparr>) [] = Inr (one_web\<lparr>ss_Image := img\<rparr>)"
  by (simp add: checkServiceSpec_def one_web_def demo_web_def web_name_valid MaxServiceReplicas_def ResolveEnv_def parseSecretRefs_def items_def routerLabel_def)

definition two_record :: serviceRecord where
  "two_record = one_record\<lparr>sr_Spec := one_web\<lparr>ss_Image := ''web:2''\<rparr>, sr_Revision := 2, sr_Target := Some \<lparr>rv_Rev = 2, rv_Spec = one_web\<lparr>ss_Image := ''web:2''\<rparr>\<rparr>,
     sr_Rollout := Some \<lparr>ro_State = ''in_progress'', ro_From = 1, ro_To = 2, ro_Reason = []\<rparr>, sr_Updated := 2\<rparr>"

definition two_creating :: ctl where
  "two_creating = (put True (fresh_service two_record) [] one_ctl)\<lparr>c_pass := Creating \<lparr>rv_Rev = 2, rv_Spec = one_web\<lparr>ss_Image := ''web:2''\<rparr>\<rparr> 0\<rparr>"

definition two_deleted :: ctl where
  "two_deleted = two_creating\<lparr>c_svc := deleted (fresh_service two_record), c_store := None, c_queue := appendNew (c_queue two_creating) []\<rparr>"

lemma one_clone: "clone one_record = one_record" "clone_spec (one_web\<lparr>ss_Image := img\<rparr>) = one_web\<lparr>ss_Image := img\<rparr>"
  by (simp_all add: clone_def clone_revision_def clone_spec_def one_record_def one_web_def demo_web_def omitempty_def)

lemma one_init: "cinit one_ctl"
proof -
  have "createService demo_svc_env demo_owner (one_web\<lparr>ss_Image := ''web:1''\<rparr>) False True 1 = Inr (fresh_service one_record)"
    by (simp add: createService_def one_web_checked Can_def demo_owner_def check_rest_def checkServiceSecrets_def checkServiceGroups_def applyGroups_def items_def
        one_record_def) (simp add: one_web_def demo_web_def)
  then show ?thesis unfolding cinit_def one_ctl_def by (auto simp: fresh_service_def)
qed

lemma two_updates: "cstep False one_ctl (put True (fresh_service two_record) [] one_ctl)"
proof (rule cstep.updates)
  show "updateService demo_svc_env (\<lambda>_ _. Some (c_svc one_ctl)) demo_owner ''web'' False (one_web\<lparr>ss_Image := ''web:2''\<rparr>) True 2 = Inr (fresh_service two_record)"
    by (simp add: updateService_def lookupService_def mayAct_def Can_def demo_owner_def one_web_checked one_ctl_def fresh_service_def check_rest_def
        checkServiceSecrets_def checkServiceGroups_def applyGroups_def items_def one_record_def updated_record_def Let_def newest_rev_def same_shape_def spec_shape_def
        new_target_def two_record_def)
      (simp add: one_web_def demo_web_def clone_def clone_revision_def clone_spec_def omitempty_def)
qed

lemma two_decides: "cstep False (put True (fresh_service two_record) [] one_ctl) two_creating"
proof -
  have "decide 3 None (fresh_service two_record) = (fresh_service two_record, Creates \<lparr>rv_Rev = 2, rv_Spec = one_web\<lparr>ss_Image := ''web:2''\<rparr>\<rparr> 0)"
    by (simp add: decide_def Let_def fresh_service_def two_record_def one_record_def newest_rev_def not_of_rev_def of_rev_def healthy_in_def createStep_def)
      (simp add: one_web_def demo_web_def)
  then have "cstep False (put True (fresh_service two_record) [] one_ctl) (after_decide True (fresh_service two_record)
      (Creates \<lparr>rv_Rev = 2, rv_Spec = one_web\<lparr>ss_Image := ''web:2''\<rparr>\<rparr> 0) (put True (fresh_service two_record) [] one_ctl))"
    by (intro cstep.decides) (simp_all add: one_ctl_def)
  then show ?thesis by (simp add: two_creating_def put_def one_ctl_def)
qed

lemma two_deletes: "cstep False two_creating two_deleted"
  unfolding two_deleted_def
proof (rule cstep.deletes)
  show "deleteService (\<lambda>_ _. Some (c_svc two_creating)) demo_owner ''web'' True = Inr (deleted (fresh_service two_record), [])"
    by (simp add: deleteService_def lookupService_def mayAct_def Can_def demo_owner_def two_creating_def fresh_service_def two_record_def one_record_def)
qed

lemma two_reached: "reach cinit (cstep False) two_deleted"
  by (rule reach_step [where init = cinit and step = "cstep False", OF _ two_deletes], rule reach_step [where init = cinit and step = "cstep False", OF _ two_decides],
      rule reach_step [where init = cinit and step = "cstep False", OF _ two_updates], rule reach_init [where init = cinit and step = "cstep False", OF one_init])

theorem deleted_service_comes_back_witness:
  "reach cinit (cstep False) two_deleted \<and> sv_gone (c_svc two_deleted) \<and>
   (\<exists>c. cstep False two_deleted c \<and> \<not> sv_gone (c_svc (restart c)) \<and> sr_Name (sv_rec (c_svc (restart c))) = ''web'')"
proof -
  have "sv_gone (c_svc two_deleted)" "c_pass two_deleted = Creating \<lparr>rv_Rev = 2, rv_Spec = one_web\<lparr>ss_Image := ''web:2''\<rparr>\<rparr> 0"
    "rollout_of (rv_Rev \<lparr>rv_Rev = 2, rv_Spec = one_web\<lparr>ss_Image := ''web:2''\<rparr>\<rparr>) (c_svc two_deleted)" "refused (failWith invalid)"
    "sr_Name (sv_rec (c_svc two_deleted)) = ''web''"
    by (simp_all add: two_deleted_def two_creating_def deleted_def rollout_of_def fresh_service_def two_record_def one_record_def refused_def)
  then show ?thesis using deleted_service_comes_back [of two_deleted _ 0 "failWith invalid" "[]" 3] two_reached by metis
qed

section \<open>A replica that is abandoned\<close>

text \<open>
  A write that fails while a replica is taken out loses its place in the retire queue for good: the next write has the record without it and
  queues nothing. If its node was lost it runs on when the node is back, and no step of the gateway ends it.
\<close>

definition abandoned :: "bytes \<Rightarrow> ctl \<Rightarrow> bool" where
  "abandoned sid c \<longleftrightarrow> sid \<in> c_live c \<and> sid \<in> dom (c_made c) \<and> sid \<notin> set (c_queue c) \<and> sid \<notin> replica_ids (c_svc c) \<and>
     (\<forall>r. c_store c = Some r \<longrightarrow> sid \<notin> rp_Sandbox ` set (sr_Members r)) \<and> (\<forall>ids. c_pass c = Ending ids \<longrightarrow> sid \<notin> set ids)"

lemma abandoned_put:
  assumes "abandoned sid c" "replica_ids s \<subseteq> replica_ids (c_svc c)" "set ids \<subseteq> replica_ids (c_svc c)"
  shows "abandoned sid (put wrote s ids c)"
  using assms by (auto simp: abandoned_def put_def subset_iff image_iff)

lemma abandoned_pass: "abandoned sid c \<Longrightarrow> (\<And>ids. p = Ending ids \<Longrightarrow> sid \<notin> set ids) \<Longrightarrow> abandoned sid (c\<lparr>c_pass := p\<rparr>)"
  by (simp add: abandoned_def)

lemma decide_takes_members:
  assumes "decide now active s = (t, d)" "distinct (map rp_Sandbox (members s))" "0 \<le> desired_of s"
  shows "replica_ids t \<subseteq> replica_ids s" "d = Retires ids \<Longrightarrow> set ids \<subseteq> replica_ids s"
proof -
  show "replica_ids t \<subseteq> replica_ids s" using assms(1)
    by (cases rule: decide_cases)
      (auto simp: drop_failed_members [OF assms(2)] svc_simps remove_member_filter [OF assms(2)] rollout_done_def createStep_def split: option.splits list.splits)
  have pick: "pickRetire s ms b \<in> rp_Sandbox ` set ms" if "ms \<noteq> []" for ms b
    using pickRetire_prefers [OF that refl] by (metis image_eqI)
  show "set ids \<subseteq> replica_ids s" if "d = Retires ids" using assms(1)
  proof (cases rule: decide_cases)
    case (old sid)
    then show ?thesis using pick [OF old(3)] that by (auto simp: not_of_rev_def)
  next
    case (surplus sid)
    then have "of_rev (rv_Rev (newest_rev (sv_rec s))) (members s) \<noteq> []" using assms(3) by auto
    from pick [OF this] show ?thesis using surplus that by (auto simp: of_rev_def)
  qed (use that in auto)
qed

lemma abandoned_fails:
  assumes "abandoned sid c"
  shows "abandoned sid (create_fails wrote rv k err ref now c)"
proof -
  obtain t b where t: "step_failed rv k err ref now (c_svc c) = (t, b)" by fastforce
  have "abandoned sid ((put wrote t [] c)\<lparr>c_pass := Idle\<rparr>)"
    by (rule abandoned_pass [OF abandoned_put [OF assms]]) (simp_all add: step_failed_fields(2) [OF t])
  moreover have "abandoned sid (c\<lparr>c_svc := t, c_pass := Idle\<rparr>)" using assms step_failed_fields(2) [OF t] by (simp add: abandoned_def)
  ultimately show ?thesis by (cases b) (simp_all add: create_fails_def t)
qed

lemma abandoned_born: "abandoned sid c \<Longrightarrow> sid' \<notin> dom (c_made c) \<Longrightarrow> abandoned sid (retire wrote sid' (born sid' sp c)) \<and> abandoned sid (born sid' sp c)"
  by (auto simp: abandoned_def retire_def)

lemma abandoned_unheard: "abandoned sid c \<Longrightarrow> sid' \<notin> dom (c_made c) \<Longrightarrow> abandoned sid (unheard sid' sp c)"
  by (auto simp: abandoned_def unheard_def)

lemma abandoned_returns:
  assumes "abandoned sid c" "c_pass c = Creating rv k" "fits_outcome c rv out"
  shows "abandoned sid (create_returns wrote out err now rv k c)"
proof (cases out)
  case (Started m)
  have fresh: "rp_Sandbox m \<notin> dom (c_made c)" "sid \<noteq> rp_Sandbox m" using assms(1,3) Started by (auto simp: abandoned_def)
  note b = abandoned_born [OF assms(1) fresh(1), of wrote "rv_Spec rv"]
  have "abandoned sid ((put wrote (replica_made k m now (c_svc c)) [] (born (rp_Sandbox m) (rv_Spec rv) c))\<lparr>c_pass := Idle\<rparr>)"
    using b fresh(2) by (auto simp: abandoned_def put_def replica_made_def svc_simps)
  moreover have "abandoned sid ((retire wrote (rp_Sandbox m) (born (rp_Sandbox m) (rv_Spec rv) c))\<lparr>c_pass := Ending [rp_Sandbox m]\<rparr>)"
    using b fresh(2) by (intro abandoned_pass) auto
  ultimately show ?thesis using Started by (simp add: Let_def)
qed (use assms abandoned_born [OF assms(1), of _ wrote "rv_Spec rv"] in \<open>auto intro!: abandoned_fails\<close>)

lemma abandoned_verdict:
  assumes "abandoned sid c" "sid' \<noteq> sid"
  shows "abandoned sid (after_verdict wrote v sid' c)"
  using assms by (cases v) (auto simp: abandoned_def Let_def Retired_def)

lemma abandoned_restart: "abandoned sid c \<Longrightarrow> abandoned sid (restart c)"
  by (auto simp: abandoned_def restart_def fresh_service_def deleted_def split: option.split)

lemma abandoned_stays:
  assumes "cstep faults c c'" "cinv c" "abandoned sid c"
  shows "abandoned sid c' \<or> c' = c\<lparr>c_live := c_live c - {sid}\<rparr>"
  using assms
proof (induction rule: cstep.induct)
  case (decides c now active s d wrote)
  have ok: "rec_ok (c_made c) (sv_rec (c_svc c))" using decides.prems(1) by (simp add: cinv_def)
  note D = decide_takes_members [OF decides.hyps(2) rec_ok_parts(1,3) [OF ok]]
  have "abandoned sid (after_decide wrote s d c)"
  proof (cases d)
    case (Retires ids)
    then show ?thesis using abandoned_pass [OF abandoned_put [OF decides.prems(2) D(1) D(2) [OF Retires]], of "Ending ids"] D(2) [OF Retires] decides.prems(2)
      by (auto simp: abandoned_def)
  next
    case Recorded
    then show ?thesis using abandoned_put [OF decides.prems(2) D(1)] by simp
  qed (use decides.prems(2) D(1) in \<open>auto simp: abandoned_def\<close>)
  then show ?case ..
next
  case (returns c rv k out wrote err now)
  then show ?case using abandoned_returns by blast
next
  case (ends c s ids row up ans v wrote)
  then have "s \<noteq> sid" "sid \<notin> set ids" by (auto simp: abandoned_def)
  then show ?case by (intro disjI1 abandoned_pass abandoned_verdict [OF ends.prems(2)]) (auto simp: rest_of_pass_def split: if_splits)
next
  case (sweeps s c row up ans v wrote)
  then have "s \<noteq> sid" by (auto simp: abandoned_def)
  then show ?case using abandoned_verdict [OF sweeps.prems(2)] by blast
next
  case (updates e c p name keep_env sp now s)
  then show ?case using abandoned_put [of sid c s "[]" True] updates_change [OF updates.hyps] by (simp add: api_change_def)
next
  case (redeploys e c p name now s)
  then show ?case using abandoned_put [of sid c s "[]" True] redeploys_change [OF redeploys.hyps] by (simp add: api_change_def)
next
  case (scales c p name n now s)
  then show ?case using abandoned_put [of sid c s "[]" True] scales_change [OF scales.hyps] by (simp add: api_change_def)
next
  case (deletes c p name s ids)
  then show ?case by (auto simp: abandoned_def deleteService_def lookupService_def deleted_def split: if_splits)
next
  case (restarts c)
  then show ?case using abandoned_restart by blast
next
  case (stops_creating c rv k s recorded)
  then show ?case using abandoned_restart abandoned_born abandoned_unheard by (cases recorded) auto
next
  case (unanswered c rv k s wrote f err now)
  then show ?case using abandoned_fails [OF abandoned_unheard] by simp
qed (auto simp: abandoned_def)

subsection \<open>The steps that lead there\<close>

definition lone_id :: bytes where
  "lone_id = ''sbx_0123456789abcdef''"

lemma lone_id_valid: "ValidID lone_id"
  by (simp add: lone_id_def ValidID_def idRE_def Opt_def in_cls_def eval_nat_numeral)

definition lone :: replicaRecord where
  "lone = demo_replica lone_id 1 3"

definition lone_service :: service where
  "lone_service = replica_made 0 lone 3 (fresh_service one_record)"

definition lone_ctl :: ctl where
  "lone_ctl = (put True lone_service [] (born lone_id one_web (one_ctl\<lparr>c_pass := Creating \<lparr>rv_Rev = 1, rv_Spec = one_web\<rparr> 0\<rparr>)))\<lparr>c_pass := Idle\<rparr>"

lemma lone_creates: "cstep faults one_ctl (one_ctl\<lparr>c_pass := Creating \<lparr>rv_Rev = 1, rv_Spec = one_web\<rparr> 0\<rparr>)"
proof -
  have "decide 2 None (fresh_service one_record) = (fresh_service one_record, Creates \<lparr>rv_Rev = 1, rv_Spec = one_web\<rparr> 0)"
    by (simp add: decide_def Let_def fresh_service_def one_record_def newest_rev_def not_of_rev_def of_rev_def healthy_in_def createStep_def)
      (simp add: one_web_def demo_web_def)
  then have "cstep faults one_ctl (after_decide True (fresh_service one_record) (Creates \<lparr>rv_Rev = 1, rv_Spec = one_web\<rparr> 0) one_ctl)"
    by (intro cstep.decides) (simp_all add: one_ctl_def)
  then show ?thesis by (simp add: one_ctl_def)
qed

lemma lone_returns: "cstep faults (one_ctl\<lparr>c_pass := Creating \<lparr>rv_Rev = 1, rv_Spec = one_web\<rparr> 0\<rparr>) lone_ctl"
proof -
  let ?c = "one_ctl\<lparr>c_pass := Creating \<lparr>rv_Rev = 1, rv_Spec = one_web\<rparr> 0\<rparr>"
  have "cstep faults ?c (create_returns True (Started lone) [] 3 \<lparr>rv_Rev = 1, rv_Spec = one_web\<rparr> 0 ?c)"
    by (rule cstep.returns) (simp_all add: one_ctl_def lone_def demo_replica_def owner_unread_def lone_id_valid)
  moreover have "create_returns True (Started lone) [] 3 \<lparr>rv_Rev = 1, rv_Spec = one_web\<rparr> 0 ?c = lone_ctl"
    by (simp add: lone_ctl_def lone_service_def Let_def) (simp add: one_ctl_def lone_def demo_replica_def fresh_service_def)
  ultimately show ?thesis by simp
qed

text \<open>The node is lost; the replica is taken out and the write fails; the node does not answer; the service is scaled.\<close>

definition lost_service :: service where
  "lost_service = observeService (\<lambda>_. False) (\<lambda>_. None) 4 lone_service"

definition out_service :: service where
  "out_service = drop_failed 5 [lone] lost_service"

lemma lone_facts:
  "members lone_service = [lone]" "members lost_service = [lone]" "\<not> sv_gone lost_service" "rh_lost (health_of lost_service lone_id)"
  "\<not> staying lost_service lone"
  by (simp_all add: lone_service_def lost_service_def replica_made_def observeService_def fresh_service_def one_record_def svc_simps lone_def demo_replica_def
      health_of_def observe_member_def Let_def staying_def persisted_def no_health_def)

lemma out_facts:
  "members out_service = []" "\<not> sv_gone out_service" "sr_User (sv_rec out_service) = ''ann''" "sr_Tenant (sv_rec out_service) = []"
proof -
  have t: "sr_Target (sv_rec lost_service) = None" "sr_User (sv_rec lost_service) = ''ann''" "sr_Tenant (sv_rec lost_service) = []"
    by (simp_all add: lost_service_def lone_service_def replica_made_def persisted_def pruneOlder_def fresh_service_def one_record_def)
  show "members out_service = []"
  proof -
    have f: "[lone] = filter (\<lambda>m. \<not> staying lost_service m) (members lost_service)" by (simp add: lone_facts)
    have "members (drop_failed 5 [lone] lost_service) = filter (staying lost_service) (members lost_service)"
      by (rule drop_failed_members [OF _ f]) (simp add: lone_facts)
    then show ?thesis by (simp add: out_service_def lone_facts)
  qed
  show "\<not> sv_gone out_service" "sr_User (sv_rec out_service) = ''ann''" "sr_Tenant (sv_rec out_service) = []"
    using t lone_facts(3,4)
    by (simp_all add: out_service_def drop_failed_def Let_def failed_of_target_def retireStep_eq persisted_def pruneOlder_def drop_one_def)
qed

lemma replica_abandoned: "\<exists>c. reach cinit (cstep True) c \<and> abandoned lone_id c"
proof -
  let ?c1 = "lone_ctl\<lparr>c_svc := lost_service\<rparr>"
  let ?c2 = "?c1\<lparr>c_svc := out_service, c_pass := Ending [lone_id]\<rparr>"
  let ?c3 = "?c2\<lparr>c_pass := Idle\<rparr>"
  let ?t = "out_service\<lparr>sv_rec := scaled_record 1 6 (sv_rec out_service)\<rparr>"
  have 1: "cstep True lone_ctl ?c1"
    using cstep.observes [of True lone_ctl "\<lambda>_. False" "\<lambda>_. None" 4] by (simp add: lone_ctl_def lost_service_def)
  have "decide 5 None lost_service = (out_service, Retires [lone_id])"
    using lone_facts by (simp add: decide_def Let_def out_service_def) (simp add: lone_def demo_replica_def)
  then have 2: "cstep True ?c1 ?c2"
    using cstep.decides [of ?c1 5 None out_service "Retires [lone_id]" False True] by (simp add: lone_ctl_def put_def)
  have 3: "cstep True ?c2 ?c3"
    using cstep.ends [of ?c2 "lone_id" "[]" None "\<lambda>_. False" "\<lambda>_. None" Later False True] by (simp add: terminate_one_def rest_of_pass_def)
  have "scaleService (\<lambda>_ _. Some (c_svc ?c3)) demo_owner ''web'' 1 True 6 = Inr ?t"
    using out_facts by (simp add: scaleService_def lookupService_def mayAct_def Can_def demo_owner_def MaxServiceReplicas_def)
  then have 4: "cstep True ?c3 (put True ?t [] ?c3)" by (rule cstep.scales)
  have "abandoned lone_id (put True ?t [] ?c3)"
    using out_facts by (simp add: abandoned_def put_def lone_ctl_def one_ctl_def scaled_record_def Let_def appendNew_def)
  moreover have "reach cinit (cstep True) (put True ?t [] ?c3)"
    by (rule reach_step [where init = cinit and step = "cstep True", OF _ 4], rule reach_step [where init = cinit and step = "cstep True", OF _ 3],
        rule reach_step [where init = cinit and step = "cstep True", OF _ 2], rule reach_step [where init = cinit and step = "cstep True", OF _ 1],
        rule reach_step [where init = cinit and step = "cstep True", OF _ lone_returns], rule reach_step [where init = cinit and step = "cstep True", OF _ lone_creates],
        rule reach_init [where init = cinit and step = "cstep True", OF one_init])
  ultimately show ?thesis by blast
qed

section \<open>The properties at work\<close>

lemma lone_reached: "reach cinit (cstep faults) lone_ctl"
  by (rule reach_step [where init = cinit and step = "cstep faults", OF _ lone_returns],
      rule reach_step [where init = cinit and step = "cstep faults", OF _ lone_creates], rule reach_init [where init = cinit and step = "cstep faults", OF one_init])

lemma lone_ctl_facts: "c_svc lone_ctl = lone_service" "lone_id \<in> c_live lone_ctl" "lone \<in> set (members (c_svc lone_ctl))" "rp_Sandbox lone = lone_id"
  by (simp_all add: lone_ctl_def lone_facts lone_def demo_replica_def)

theorem replicas_keep_their_spec_witness:
  "\<exists>sp. c_made lone_ctl lone_id = Some sp \<and> clone_spec (specOf (sv_rec lone_service) (rp_Rev lone)) = clone_spec sp"
  using replicas_keep_their_spec [OF lone_reached [of True] lone_ctl_facts(3)] by (simp add: lone_ctl_facts)

theorem replicas_bounded_witness:
  "int (length (members lone_service)) + (case c_pass lone_ctl of Creating _ _ \<Rightarrow> 1 | _ \<Rightarrow> 0) \<le> MaxServiceReplicas + 1"
  using replicas_bounded [OF lone_reached [of True]] by (simp add: lone_ctl_facts)

theorem no_replica_forgotten_witness:
  "\<exists>c0 es. trace cmove c0 es lone_ctl \<and> cinit c0 \<and> \<not> (\<exists>e. Some e \<in> set es) \<and> lone_id \<in> c_live lone_ctl \<and>
    (lone_id \<in> set (c_queue lone_ctl) \<or> lone_id \<in> replica_ids lone_service \<and> c_store lone_ctl = Some (clone (sv_rec lone_service)))"
proof -
  have "\<exists>c0 n. cinit c0 \<and> trace cmove c0 (replicate n None) lone_ctl" by (rule reach_trace [OF lone_reached [of False]]) (rule sound)
  then obtain c0 n where t: "cinit c0" "trace cmove c0 (replicate n None) lone_ctl" by blast
  from no_replica_forgotten [OF t(2,1) lone_ctl_facts(2)] t show ?thesis
    by (intro exI [of _ c0] exI [of _ "replicate n None"]) (auto simp: lone_ctl_facts)
qed

end
