(* ===== verification/Gateway_Router.thy ===== *)
theory Gateway_Router
  imports Gateway_Replicas Server_Keep
begin

text \<open>
  The gateway's ingress for public services (\<open>router_http.go\<close>): the service a \<open>Host\<close> names, the replica a request goes to, and the tunnel it goes over.
  The reverse proxy itself is the standard library's; it is given the target chosen here.
\<close>

subsection \<open>Names\<close>

record RouterConfig =
  rc_Domain :: bytes
  rc_Scheme :: bytes
  rc_Port :: nat

definition routerURL :: "RouterConfig \<Rightarrow> bytes \<Rightarrow> bytes \<Rightarrow> bytes" where
  "routerURL rc name tenant = (case routerLabel name tenant of
      None \<Rightarrow> []
    | Some l \<Rightarrow>
        if rc_Domain rc = [] then []
        else let scheme = (if rc_Scheme rc = [] then ''https'' else rc_Scheme rc);
                 host = l @ ''.'' @ rc_Domain rc;
                 port = (if rc_Port rc \<noteq> 0 \<and> \<not> (scheme = ''https'' \<and> rc_Port rc = 443) \<and> \<not> (scheme = ''http'' \<and> rc_Port rc = 80)
                   then '':'' @ Itoa (rc_Port rc) else [])
             in scheme @ ''://'' @ host @ port)"

text \<open>\<open>RouterHandler\<close> takes its domain from the configuration once. \<open>lr\<close> maps the letters beyond ASCII to lower case.\<close>

definition router_domain :: "(nat \<Rightarrow> nat) \<Rightarrow> RouterConfig \<Rightarrow> bytes" where
  "router_domain lr rc = ToLower lr (TrimSuffix (rc_Domain rc) ''.'')"

definition host_label :: "(nat \<Rightarrow> nat) \<Rightarrow> bytes \<Rightarrow> bytes \<Rightarrow> bytes option" where
  "host_label lr host domain =
    (let h = (case SplitHostPort host of Some (h, _) \<Rightarrow> h | None \<Rightarrow> host)
     in CutSuffix (ToLower lr (TrimSuffix h ''.'')) (''.'' @ domain))"

definition routeHost :: "(nat \<Rightarrow> nat) \<Rightarrow> (bytes \<Rightarrow> bytes \<Rightarrow> service option) \<Rightarrow> bytes \<Rightarrow> bytes \<Rightarrow> service option" where
  "routeHost lr svcs host domain = (case host_label lr host domain of
      None \<Rightarrow> None
    | Some label \<Rightarrow>
        if domain = [] \<or> label = [] \<or> Contains label ''.'' then None
        else let (name, tenant, named) = (case Cut label ''--'' of None \<Rightarrow> (label, [], False) | Some (a, b) \<Rightarrow> (a, b, True)) in
          if \<not> validServiceName name \<or> (named \<and> tenant = []) then None
          else (case svcs tenant name of
              None \<Rightarrow> None
            | Some s \<Rightarrow> if sv_gone s \<or> \<not> ss_Public (sr_Spec (sv_rec s)) then None else Some s))"

subsection \<open>Replicas\<close>

definition serving_replicas :: "service \<Rightarrow> replicaRecord list" where
  "serving_replicas s = filter (\<lambda>m. case sv_health s (rp_Sandbox m) of None \<Rightarrow> False
     | Some h \<Rightarrow> rh_healthy h \<and> \<not> rh_lost h \<and> \<not> rh_fatal h) (sr_Members (sv_rec s))"

text \<open>\<open>active\<close> is what \<open>userActiveCached\<close> answers for the owner, None an error. The count of the round robin wraps at 64 bits.\<close>

definition pickReplica :: "bool option \<Rightarrow> service \<Rightarrow> bytes option \<times> service" where
  "pickReplica active s =
    (if active \<noteq> Some True then (None, s)
     else let up = serving_replicas s in
       if up = [] then (None, s)
       else let m = up ! (unat (sv_rr s) mod length up)
         in (Some (rp_Sandbox m @ '':'' @ decimal (ss_Port (specOf (sv_rec s) (rp_Rev m)))), s\<lparr>sv_rr := sv_rr s + 1\<rparr>))"

datatype dial_error = BadAddr | NoSandboxRow | StoreDown | NodeDown

definition routerDial :: "(bytes \<Rightarrow> Owner option option) \<Rightarrow> (bytes \<Rightarrow> bool) \<Rightarrow> bytes \<Rightarrow> (dial_error, bytes \<times> bytes \<times> int) result" where
  "routerDial row up addr = (case SplitHostPort addr of
      None \<Rightarrow> Inl BadAddr
    | Some (sid, p) \<Rightarrow> (case Atoi p of
        None \<Rightarrow> Inl NoSandboxRow
      | Some port \<Rightarrow>
          if \<not> ValidID sid then Inl NoSandboxRow
          else (case row sid of
              None \<Rightarrow> Inl StoreDown
            | Some None \<Rightarrow> Inl NoSandboxRow
            | Some (Some o') \<Rightarrow> if up (ow_Node o') then Inr (ow_Node o', sid, port) else Inl NodeDown)))"

datatype routed = NoService | NoReplica | NoTunnel dial_error | Tunnel bytes bytes int

text \<open>A request on the router's listener: the services, the owner's standing, the store's rows and the nodes are as they are when it comes to them.\<close>

definition route_request :: "(nat \<Rightarrow> nat) \<Rightarrow> (bytes \<Rightarrow> bytes \<Rightarrow> service option) \<Rightarrow> (bytes \<Rightarrow> bytes \<Rightarrow> bool option) \<Rightarrow> (bytes \<Rightarrow> Owner option option) \<Rightarrow>
    (bytes \<Rightarrow> bool) \<Rightarrow> bytes \<Rightarrow> bytes \<Rightarrow> routed" where
  "route_request lr svcs active row up domain host = (case routeHost lr svcs host domain of
      None \<Rightarrow> NoService
    | Some s \<Rightarrow> (case fst (pickReplica (active (sr_User (sv_rec s)) (sr_Tenant (sv_rec s))) s) of
        None \<Rightarrow> NoReplica
      | Some target \<Rightarrow> (case routerDial row up target of Inl e \<Rightarrow> NoTunnel e | Inr (n, sid, port) \<Rightarrow> Tunnel n sid port)))"

section \<open>A host names one service\<close>

lemma Cut_first:
  assumes "\<not> Contains name ''--''" "name \<noteq> []" "last name \<noteq> CHR ''-''"
  shows "Cut (name @ ''--'' @ tenant) ''--'' = Some (name, tenant)"
proof -
  have "Index (name @ ''--'' @ tenant) ''--'' = Some (length name)"
    using assms
  proof (induction name)
    case (Cons a as)
    show ?case
    proof (cases "as = []")
      case True
      then show ?thesis using Cons.prems by (auto simp: HasPrefix_def)
    next
      case False
      have "\<not> HasPrefix ((a # as) @ ''--'' @ tenant) ''--''"
        using Cons.prems(1) False by (cases as) (auto simp: HasPrefix_def Contains_def)
      moreover have "\<not> Contains as ''--''" using Cons.prems(1) by (auto simp: Contains_def split: if_splits)
      ultimately show ?thesis using Cons.IH Cons.prems(3) False by simp
    qed
  qed simp
  then show ?thesis by (simp add: Cut_def)
qed

lemma Cut_None: "\<not> Contains name ''--'' \<Longrightarrow> Cut name ''--'' = None"
  by (simp add: Contains_def Cut_def)

lemma validServiceName_chars:
  assumes "validServiceName name"
  shows "\<forall>c \<in> set name. in_cls c lower_digit_dash" "name \<noteq> []" "last name \<noteq> CHR ''-''" "\<not> Contains name ''--''"
proof -
  have m: "rx_match serviceNameRE name" and c: "\<not> Contains name ''--''" using assms by (simp_all add: validServiceName_def)
  then show "\<not> Contains name ''--''" by simp
  show "\<forall>c \<in> set name. in_cls c lower_digit_dash"
    using rx_match_chars [OF m] by (auto simp: serviceNameRE_def Opt_def in_cls_def)
  show "name \<noteq> []" "last name \<noteq> CHR ''-''"
    using m by (auto simp: rx_match_lang serviceNameRE_def in_cls_def)
qed

lemma SplitHostPort_none: "CHR '':'' \<notin> set s \<Longrightarrow> SplitHostPort s = None"
  using LastIndexByte_None [of s "CHR '':''"] by (simp add: SplitHostPort_def)

lemma LastIndexByte_after: "b \<notin> set p \<Longrightarrow> LastIndexByte (h @ b # p) b = Some (length h)"
  by (induction h) (auto simp: LastIndexByte_None [THEN iffD2])

definition host_char :: "byte \<Rightarrow> bool" where
  "host_char c \<longleftrightarrow> plain_char c \<and> c \<noteq> CHR '':'' \<and> c \<noteq> CHR ''['' \<and> c \<noteq> CHR '']''"

lemma SplitHostPort_port:
  assumes "list_all host_char h" "list_all host_char p" "h \<noteq> []"
  shows "SplitHostPort (h @ '':'' @ p) = Some (h, p)"
proof -
  have no: "CHR '':'' \<notin> set h" "CHR '':'' \<notin> set p" "CHR ''['' \<notin> set h" "CHR ''['' \<notin> set p" "CHR '']'' \<notin> set h" "CHR '']'' \<notin> set p"
    using assms(1,2) by (auto simp: list_all_iff host_char_def)
  have "LastIndexByte (h @ '':'' @ p) (CHR '':'') = Some (length h)" using LastIndexByte_after [OF no(2)] by simp
  moreover have "take 1 (h @ '':'' @ p) \<noteq> ''[''" using assms(3) no(3) by (cases h) auto
  ultimately show ?thesis using no by (simp add: SplitHostPort_def)
qed

lemma lower_digit_dash_host: "in_cls c lower_digit_dash \<Longrightarrow> host_char c \<and> c \<noteq> CHR ''.''"
  by (auto simp: in_cls_def host_char_def plain_char_def)

lemma tenant_chars: "rx_match tenantLabelRE t \<Longrightarrow> \<forall>c \<in> set t. in_cls c lower_digit_dash"
  using rx_match_chars [of tenantLabelRE t] by (auto simp: tenantLabelRE_def Opt_def in_cls_def)

lemma label_chars:
  assumes "validServiceName name" "routerLabel name tenant = Some l"
  shows "list_all host_char l" "CHR ''.'' \<notin> set l" "l \<noteq> []"
proof -
  have dash: "in_cls (CHR ''-'') lower_digit_dash" by (simp add: in_cls_def)
  have "\<forall>c \<in> set l. in_cls c lower_digit_dash"
    using assms(2) validServiceName_chars(1) [OF assms(1)] tenant_chars [of tenant] dash by (auto simp: routerLabel_def Let_def split: if_splits)
  then show "list_all host_char l" "CHR ''.'' \<notin> set l" using lower_digit_dash_host by (auto simp: list_all_iff)
  show "l \<noteq> []" using assms validServiceName_chars(2) [OF assms(1)] by (auto simp: routerLabel_def Let_def split: if_splits)
qed

lemma host_label_of:
  assumes "list_all host_char l" "list_all host_char domain" "domain \<noteq> []" "last domain \<noteq> CHR ''.''" "list_all host_char p"
  shows "host_label lr (l @ ''.'' @ domain) domain = Some l" "host_label lr (l @ ''.'' @ domain @ '':'' @ p) domain = Some l"
proof -
  let ?h = "l @ ''.'' @ domain"
  have h: "list_all host_char ?h" using assms by (simp add: host_char_def plain_char_def)
  then have "list_all plain_char ?h" by (auto simp: list_all_iff host_char_def)
  then have low: "ToLower lr ?h = ?h" by (rule ToLower_plain)
  have trim: "TrimSuffix ?h ''.'' = ?h" using assms(3,4) by (intro TrimSuffix_id) (simp add: HasSuffix_Cons1)
  have "CHR '':'' \<notin> set ?h" using h by (auto simp: list_all_iff host_char_def)
  then show "host_label lr ?h domain = Some l"
    using SplitHostPort_none [of ?h] low trim CutSuffix_append [of l "''.'' @ domain"] by (simp add: host_label_def)
  have "SplitHostPort (?h @ '':'' @ p) = Some (?h, p)" by (rule SplitHostPort_port [OF h assms(5)]) simp
  then show "host_label lr (l @ ''.'' @ domain @ '':'' @ p) domain = Some l"
    using low trim CutSuffix_append [of l "''.'' @ domain"] by (simp add: host_label_def)
qed

definition label_parts :: "bytes \<Rightarrow> bytes \<times> bytes \<times> bool" where
  "label_parts label = (case Cut label ''--'' of None \<Rightarrow> (label, [], False) | Some (a, b) \<Rightarrow> (a, b, True))"

lemma label_parts_of:
  assumes "validServiceName name" "routerLabel name tenant = Some l"
  shows "label_parts l = (name, tenant, tenant \<noteq> [])"
  using assms validServiceName_chars(2-4) [OF assms(1)] Cut_first [of name tenant] Cut_None [of name]
  by (auto simp: routerLabel_def Let_def label_parts_def split: if_splits)

text \<open>
  C39: The host a service is given leads to that service and no other: with or without a port, a request for it is routed exactly when the tenant
  has a service of the name that is public and not deleted. So no two services, of one tenant or of two, share a host.
\<close>

theorem router_host_round_trip:
  assumes "validServiceName name" "routerLabel name tenant = Some l"
    and "list_all host_char domain" "domain \<noteq> []" "last domain \<noteq> CHR ''.''" "list_all host_char port"
    and "host = l @ ''.'' @ domain \<or> host = l @ ''.'' @ domain @ '':'' @ port"
  shows "routeHost lr svcs host domain = Some s \<longleftrightarrow> svcs tenant name = Some s \<and> \<not> sv_gone s \<and> ss_Public (sr_Spec (sv_rec s))"
proof -
  note L = label_chars [OF assms(1,2)]
  have l: "host_label lr host domain = Some l" using host_label_of [OF L(1) assms(3-6)] assms(7) by auto
  have "\<not> Contains l ''.''" using L(2) by (auto simp: Contains_iff)
  then show ?thesis
    using l assms(1,4) L(3) label_parts_of [OF assms(1,2)] unfolding label_parts_def
    by (auto simp: routeHost_def split: option.splits)
qed

section \<open>What a request reaches\<close>

lemma digits_value_append: "digits_value acc (xs @ ys) = (case digits_value acc xs of None \<Rightarrow> None | Some v \<Rightarrow> digits_value v ys)"
  by (induction xs arbitrary: acc) auto

lemma digit_byte: "n < 10 \<Longrightarrow> nat_of_byte (byte_of_nat (48 + n)) = 48 + n"
  by (simp add: of_char_of)

lemma digits_value_Itoa: "digits_value 0 (Itoa n) = Some n"
proof (induction n rule: Itoa.induct)
  case (1 n)
  show ?case
  proof (cases "n < 10")
    case True
    then show ?thesis using digit_byte [of n] by (simp add: Itoa.simps)
  next
    case False
    have "n mod 10 < 10" by simp
    then show ?thesis using 1 [OF False] digit_byte [of "n mod 10"] False by (subst Itoa.simps) (simp add: digits_value_append)
  qed
qed

lemma Itoa_digits: "c \<in> set (Itoa n) \<Longrightarrow> 48 \<le> nat_of_byte c \<and> nat_of_byte c \<le> 57"
proof (induction n rule: Itoa.induct)
  case (1 n)
  have "n mod 10 < 10" by simp
  with 1 show ?case using digit_byte [of n] digit_byte [of "n mod 10"] by (auto simp: Itoa.simps [of n] split: if_splits)
qed

lemma Itoa_nonempty: "Itoa n \<noteq> []"
  by (subst Itoa.simps) simp

lemma Atoi_decimal:
  assumes "0 \<le> n" "in_i64 n"
  shows "Atoi (decimal n) = Some n"
proof -
  obtain c cs where c: "Itoa (nat n) = c # cs" using Itoa_nonempty by (cases "Itoa (nat n)") auto
  have "c \<noteq> CHR ''-''" "c \<noteq> CHR ''+''" using Itoa_digits [of c "nat n"] c by auto
  then show ?thesis using digits_value_Itoa [of "nat n"] assms c by (simp add: Atoi_def decimal_def)
qed

lemma ValidID_host: "ValidID sid \<Longrightarrow> list_all host_char sid \<and> sid \<noteq> []"
proof -
  assume v: "ValidID sid"
  have "in_cls c (rx_chars idRE) \<Longrightarrow> host_char c" for c
    by (auto simp: idRE_def in_cls_def host_char_def plain_char_def Opt_def eval_nat_numeral)
  then show ?thesis using v rx_match_chars [of idRE sid] by (auto simp: ValidID_def list_all_iff idRE_def)
qed

lemma decimal_host: "0 \<le> n \<Longrightarrow> list_all host_char (decimal n)"
  using Itoa_digits [of _ "nat n"] by (auto simp: decimal_def list_all_iff host_char_def plain_char_def) fastforce+

text \<open>The address \<open>pickReplica\<close> makes is read back by \<open>routerDial\<close> as the sandbox and the port.\<close>

lemma dial_reads_target:
  assumes "ValidID sid" "0 \<le> port" "in_i64 port"
  shows "routerDial row up (sid @ '':'' @ decimal port) = (case row sid of None \<Rightarrow> Inl StoreDown | Some None \<Rightarrow> Inl NoSandboxRow
    | Some (Some o') \<Rightarrow> if up (ow_Node o') then Inr (ow_Node o', sid, port) else Inl NodeDown)"
  using SplitHostPort_port [of sid "decimal port"] ValidID_host [OF assms(1)] decimal_host [OF assms(2)] Atoi_decimal [OF assms(2,3)] assms(1)
  by (simp add: routerDial_def)

lemma routeHost_names:
  assumes "routeHost lr svcs host domain = Some s"
  obtains name tenant where "svcs tenant name = Some s" "validServiceName name" "\<not> sv_gone s" "ss_Public (sr_Spec (sv_rec s))"
    "host_label lr host domain = Some (if tenant = [] then name else name @ ''--'' @ tenant)"
proof -
  obtain label where l: "host_label lr host domain = Some label" using assms by (auto simp: routeHost_def split: option.splits)
  obtain name tenant named where parts: "label_parts label = (name, tenant, named)" by (cases "label_parts label") auto
  have *: "validServiceName name" "named \<longrightarrow> tenant \<noteq> []" "svcs tenant name = Some s" "\<not> sv_gone s" "ss_Public (sr_Spec (sv_rec s))"
    using assms l parts unfolding label_parts_def by (auto simp: routeHost_def split: if_splits option.splits)
  have "label = (if tenant = [] then name else name @ ''--'' @ tenant)"
  proof (cases "Cut label ''--''")
    case None
    then show ?thesis using parts by (simp add: label_parts_def)
  next
    case (Some ab)
    then obtain i where i: "Index label ''--'' = Some i" "name = take i label" "tenant = drop (i + 2) label" "named"
      using parts by (auto simp: label_parts_def Cut_def)
    have "take 2 (drop i label) = ''--''" using Index_Some [OF i(1)] by (simp add: numeral_2_eq_2)
    then have "label = name @ ''--'' @ tenant" using i(2,3) append_take_drop_id [of i label] append_take_drop_id [of 2 "drop i label"] by (simp add: add.commute)
    then show ?thesis using *(2) i(4) by simp
  qed
  with l * show ?thesis using that by blast
qed

lemma pickReplica_serving:
  assumes "pickReplica active s = (Some target, t)"
  obtains m where "m \<in> set (serving_replicas s)" "target = rp_Sandbox m @ '':'' @ decimal (ss_Port (specOf (sv_rec s) (rp_Rev m)))" "active = Some True"
    "t = s\<lparr>sv_rr := sv_rr s + 1\<rparr>"
proof -
  let ?up = "serving_replicas s"
  have a: "active = Some True" "?up \<noteq> []" using assms by (auto simp: pickReplica_def Let_def split: if_splits)
  show ?thesis
    by (rule that [of "?up ! (unat (sv_rr s) mod length ?up)"]) (use assms a in \<open>auto simp: pickReplica_def Let_def\<close>)
qed

text \<open>The services a gateway holds: each under its tenant and name, as its controller, its API, its router and restarts have made it.\<close>

definition held_services :: "(bytes \<Rightarrow> bytes \<Rightarrow> service option) \<Rightarrow> bool" where
  "held_services svcs \<longleftrightarrow> (\<forall>tenant name s. svcs tenant name = Some s \<longrightarrow>
     sr_Tenant (sv_rec s) = tenant \<and> sr_Name (sv_rec s) = name \<and> (\<exists>faults c. reach cinit (cstep faults) c \<and> c_svc c = s))"

text \<open>
  C20: A request that comes in at the router without any credential is tunnelled only to a sandbox that is a replica of the public service its host names, on the node
  the store has for it, at the port of the spec that sandbox was made from; the replica passed its last check, its node is up, and
  the service's owner still has an active key.
\<close>

theorem router_reaches_public_replicas:
  assumes "held_services svcs" "route_request lr svcs active row up domain host = Tunnel node sid port"
  shows "\<exists>s m. svcs (sr_Tenant (sv_rec s)) (sr_Name (sv_rec s)) = Some s \<and> \<not> sv_gone s \<and> ss_Public (sr_Spec (sv_rec s)) \<and>
      host_label lr host domain = Some (if sr_Tenant (sv_rec s) = [] then sr_Name (sv_rec s) else sr_Name (sv_rec s) @ ''--'' @ sr_Tenant (sv_rec s)) \<and>
      active (sr_User (sv_rec s)) (sr_Tenant (sv_rec s)) = Some True \<and>
      m \<in> set (members s) \<and> rp_Sandbox m = sid \<and> rh_healthy (health_of s sid) \<and> \<not> rh_lost (health_of s sid) \<and> \<not> rh_fatal (health_of s sid) \<and>
      (\<exists>o'. row sid = Some (Some o') \<and> ow_Node o' = node) \<and> up node \<and>
      (\<exists>faults c sp. reach cinit (cstep faults) c \<and> c_svc c = s \<and> c_made c sid = Some sp \<and> port = ss_Port sp)"
proof -
  obtain s target t where s: "routeHost lr svcs host domain = Some s" and pick: "pickReplica (active (sr_User (sv_rec s)) (sr_Tenant (sv_rec s))) s = (Some target, t)"
    and dial: "routerDial row up target = Inr (node, sid, port)"
    using assms(2) by (auto simp: route_request_def split: option.splits sum.splits) (metis eq_fst_iff)
  obtain name tenant where n: "svcs tenant name = Some s" "\<not> sv_gone s" "ss_Public (sr_Spec (sv_rec s))"
    "host_label lr host domain = Some (if tenant = [] then name else name @ ''--'' @ tenant)"
    using routeHost_names [OF s] by metis
  obtain faults c where c: "reach cinit (cstep faults) c" "c_svc c = s" and key: "sr_Tenant (sv_rec s) = tenant" "sr_Name (sv_rec s) = name"
    using assms(1) n(1) unfolding held_services_def by metis
  obtain m where m: "m \<in> set (serving_replicas s)" "target = rp_Sandbox m @ '':'' @ decimal (ss_Port (specOf (sv_rec s) (rp_Rev m)))"
    "active (sr_User (sv_rec s)) (sr_Tenant (sv_rec s)) = Some True" using pickReplica_serving [OF pick] by metis
  have mem: "m \<in> set (members s)" "rh_healthy (health_of s (rp_Sandbox m))" "\<not> rh_lost (health_of s (rp_Sandbox m))" "\<not> rh_fatal (health_of s (rp_Sandbox m))"
    using m(1) by (auto simp: serving_replicas_def health_of_def split: option.splits)
  have ok: "rec_ok (c_made c) (sv_rec s)" using services.inv_reach [OF c(1)] c(2) by (simp add: cinv_def)
  obtain sp where sp: "c_made c (rp_Sandbox m) = Some sp" "knows (sv_rec s) (rp_Rev m) sp" and vid: "ValidID (rp_Sandbox m)"
    using ok mem(1) by (auto simp: rec_ok_def)
  have spec: "clone_spec (specOf (sv_rec s) (rp_Rev m)) = clone_spec sp" by (rule specOf_known [OF rec_ok_parts(2) [OF ok] sp(2)])
  have eq: "ss_Port (specOf (sv_rec s) (rp_Rev m)) = ss_Port sp" using spec clone_spec_fields(2) by metis
  obtain rv where "rv \<in> set (known_revs (sv_rec s))" "clone_spec (rv_Spec rv) = clone_spec sp" using sp(2) by (auto simp: knows_def)
  then have "port_ok sp" using rec_ok_parts(2) [OF ok] clone_spec_fields(3) by (metis revs_ok_def)
  then have rng: "0 \<le> ss_Port sp" "in_i64 (ss_Port sp)" by (auto simp: port_ok_def in_i64_def)
  have d: "rp_Sandbox m = sid" "port = ss_Port sp" "\<exists>o'. row sid = Some (Some o') \<and> ow_Node o' = node" "up node"
    using dial dial_reads_target [OF vid rng, of row up] by (auto simp: m(2) eq split: option.splits if_splits)
  show ?thesis using n key c m(3) mem sp(1) d by blast
qed

section \<open>Every replica gets its turn\<close>

primrec picks :: "nat \<Rightarrow> service \<Rightarrow> bytes option list" where
  "picks 0 s = []"
| "picks (Suc n) s = fst (pickReplica (Some True) s) # picks n (snd (pickReplica (Some True) s))"

definition target_of :: "service \<Rightarrow> replicaRecord \<Rightarrow> bytes" where
  "target_of s m = rp_Sandbox m @ '':'' @ decimal (ss_Port (specOf (sv_rec s) (rp_Rev m)))"

lemma serving_rr [simp]: "serving_replicas (s\<lparr>sv_rr := k\<rparr>) = serving_replicas s" "target_of (s\<lparr>sv_rr := k\<rparr>) m = target_of s m"
  by (simp_all add: serving_replicas_def target_of_def)

lemma picks_nth:
  assumes "serving_replicas s \<noteq> []" "unat (sv_rr s) + n < 2 ^ 64" "i < n"
  shows "picks n s ! i = Some (target_of s (serving_replicas s ! ((unat (sv_rr s) + i) mod length (serving_replicas s))))"
  using assms
proof (induction n arbitrary: s i)
  case (Suc n)
  have "unat (sv_rr s + 1) = unat (sv_rr s) + 1" using Suc.prems(2) by (simp add: unat_word_ariths)
  then show ?case using Suc.IH [of "s\<lparr>sv_rr := sv_rr s + 1\<rparr>" "i - 1"] Suc.prems
    by (cases i) (simp_all add: pickReplica_def Let_def target_of_def)
qed simp

lemma picks_length [simp]: "length (picks n s) = n"
  by (induction n arbitrary: s) simp_all

lemma round_robin:
  assumes "serving_replicas s \<noteq> []" "unat (sv_rr s) + length (serving_replicas s) < 2 ^ 64"
  shows "picks (length (serving_replicas s)) s = map (\<lambda>m. Some (target_of s m)) (rotate (unat (sv_rr s)) (serving_replicas s))"
  by (rule nth_equalityI) (use assms in \<open>simp_all add: picks_nth nth_rotate\<close>)

section \<open>A public service\<close>

definition up_service :: service where
  "up_service = check_done lone_id ok_check 5 (observeService (\<lambda>_. True) (\<lambda>_. None) 4 lone_service)"

definition up_svcs :: "bytes \<Rightarrow> bytes \<Rightarrow> service option" where
  "up_svcs tenant name = (if tenant = [] \<and> name = ''web'' then Some up_service else None)"

lemma up_rec: "sv_rec up_service = one_record\<lparr>sr_Members := [lone], sr_Updated := 3\<rparr>" "\<not> sv_gone up_service"
  by (simp_all add: up_service_def lone_service_def replica_made_def persisted_def pruneOlder_def fresh_service_def one_record_def lone_def demo_replica_def)

lemma up_serving: "serving_replicas up_service = [lone]" "rh_healthy (health_of up_service lone_id)"
  by (simp_all add: serving_replicas_def up_rec health_of_def)
    (simp_all add: up_service_def check_done_def observeService_def lone_service_def replica_made_def persisted_def pruneOlder_def fresh_service_def one_record_def lone_def
      demo_replica_def observe_member_def Let_def health_of_def no_health_def apply_check_def ok_check_def specOf_def one_web_def demo_web_def)

lemma up_held: "held_services up_svcs"
proof -
  have "reach cinit (cstep True) (lone_ctl\<lparr>c_svc := observeService (\<lambda>_. True) (\<lambda>_. None) 4 lone_service\<rparr>)"
    using reach_step [where init = cinit and step = "cstep True", OF lone_reached cstep.observes [of True lone_ctl "\<lambda>_. True" "\<lambda>_. None" 4]] by (simp add: lone_ctl_facts)
  from reach_step [where init = cinit and step = "cstep True", OF this cstep.checked [of True _ lone_id ok_check 5]]
  have "reach cinit (cstep True) (lone_ctl\<lparr>c_svc := up_service\<rparr>)" by (simp add: up_service_def)
  then have "\<exists>faults c. reach cinit (cstep faults) c \<and> c_svc c = up_service" by (intro exI [of _ True] exI) auto
  then show ?thesis using up_rec by (auto simp: held_services_def up_svcs_def one_record_def)
qed

definition up_row :: "bytes \<Rightarrow> Owner option option" where
  "up_row sid = Some (Some \<lparr>ow_User = ''ann'', ow_Tenant = [], ow_Node = ''n1''\<rparr>)"

lemma up_routed: "route_request id up_svcs (\<lambda>_ _. Some True) up_row (\<lambda>_. True) ''apps.io'' ''web.apps.io'' = Tunnel ''n1'' lone_id 80"
proof -
  have h: "host_label id (''web'' @ ''.'' @ ''apps.io'') ''apps.io'' = Some ''web''"
    by (rule host_label_of [where p = "[]"]) (simp_all add: host_char_def plain_char_def)
  have "\<not> Contains ''web'' ''.''" "Cut ''web'' ''--'' = None" by (simp_all add: Contains_def Cut_def HasPrefix_def)
  then have "routeHost id up_svcs ''web.apps.io'' ''apps.io'' = Some up_service"
    using h up_rec web_name_valid by (simp add: routeHost_def up_svcs_def one_record_def one_web_def)
  moreover have "fst (pickReplica (Some True) up_service) = Some (lone_id @ '':'' @ decimal 80)"
    using up_serving(1) up_rec by (simp add: pickReplica_def specOf_def one_record_def one_web_def demo_web_def lone_ctl_facts)
  moreover have "routerDial up_row (\<lambda>_. True) (lone_id @ '':'' @ decimal 80) = Inr (''n1'', lone_id, 80)"
    by (subst dial_reads_target [OF lone_id_valid]) (simp_all add: in_i64_def up_row_def)
  ultimately show ?thesis by (simp add: route_request_def)
qed

theorem router_reaches_public_replicas_witness:
  "\<exists>s m. up_svcs (sr_Tenant (sv_rec s)) (sr_Name (sv_rec s)) = Some s \<and> m \<in> set (members s) \<and> rp_Sandbox m = lone_id \<and> rh_healthy (health_of s lone_id)"
  using router_reaches_public_replicas [OF up_held up_routed] by blast

theorem router_host_round_trip_witness:
  "routeHost id up_svcs ''web.apps.io:8443'' ''apps.io'' = Some up_service"
proof -
  have "routeHost id up_svcs ''web.apps.io:8443'' ''apps.io'' = Some up_service \<longleftrightarrow>
      up_svcs [] ''web'' = Some up_service \<and> \<not> sv_gone up_service \<and> ss_Public (sr_Spec (sv_rec up_service))"
    by (rule router_host_round_trip [OF web_name_valid, where l = "''web''" and port = "''8443''"]) (simp_all add: routerLabel_def host_char_def plain_char_def)
  then show ?thesis using up_rec by (simp add: up_svcs_def one_record_def one_web_def)
qed

end
