(* ===== verification/Gateway_Jobs.thy ===== *)
theory Gateway_Jobs
  imports Gateway_Services Egress_Proxy "HOL-Library.AList"
begin

text \<open>
  Jobs of the gateway (\<open>jobs.go\<close>, the parts of \<open>jobrun.go\<close> that decide, \<open>api/jobs_types.go\<close>, the agents of \<open>agents.go\<close> and \<open>userActive\<close>): work that
  goes on after its request has gone, as runs of a command or an agent, each in a sandbox of its own. Here are the data, the checks of a
  spec, the API's handlers and what one attempt at a run comes to; \<open>Gateway_Runs\<close> runs them against each other.
\<close>

subsection \<open>Agents\<close>

text \<open>What a headless run needs of an agent.\<close>

record Descriptor =
  ag_Name :: bytes
  ag_Command :: "bytes list"
  ag_AutonomousArgs :: "(bytes \<Rightarrow> bytes list) option"
  ag_SkipPermissionArgs :: "bytes list"
  ag_ProviderHost :: bytes

definition Autonomous :: "Descriptor \<Rightarrow> bytes \<Rightarrow> bytes list \<Rightarrow> bytes list" where
  "Autonomous d prompt extra = ag_Command d @ (case ag_AutonomousArgs d of None \<Rightarrow> [] | Some f \<Rightarrow> f prompt) @ ag_SkipPermissionArgs d @ extra"

text \<open>\<open>boot\<close> is \<open>NpmBootstrap\<close>, which writes the install script of an agent the image may lack.\<close>

definition registry :: "(bytes \<Rightarrow> bytes \<Rightarrow> bytes list) \<Rightarrow> Descriptor list" where
  "registry boot =
    [\<lparr>ag_Name = ''claude'', ag_Command = [''claude''], ag_AutonomousArgs = Some (\<lambda>p. [''-p'', p]),
      ag_SkipPermissionArgs = [''--dangerously-skip-permissions''], ag_ProviderHost = ''api.anthropic.com''\<rparr>,
     \<lparr>ag_Name = ''codex'', ag_Command = [''codex''], ag_AutonomousArgs = Some (\<lambda>p. [''exec'', p]),
      ag_SkipPermissionArgs = [], ag_ProviderHost = ''api.openai.com''\<rparr>,
     \<lparr>ag_Name = ''gemini'', ag_Command = boot ''gemini'' ''@google/gemini-cli'', ag_AutonomousArgs = Some (\<lambda>p. [''-p'', p]),
      ag_SkipPermissionArgs = [''--yolo''], ag_ProviderHost = ''generativelanguage.googleapis.com''\<rparr>,
     \<lparr>ag_Name = ''opencode'', ag_Command = boot ''opencode'' ''opencode-ai'', ag_AutonomousArgs = Some (\<lambda>p. [''run'', p]),
      ag_SkipPermissionArgs = [], ag_ProviderHost = []\<rparr>,
     \<lparr>ag_Name = ''cline'', ag_Command = boot ''cline'' ''cline'', ag_AutonomousArgs = Some (\<lambda>p. [p]),
      ag_SkipPermissionArgs = [''--auto-approve'', ''true''], ag_ProviderHost = []\<rparr>]"

definition Lookup_agent :: "(bytes \<Rightarrow> bytes \<Rightarrow> bytes list) \<Rightarrow> bytes \<Rightarrow> Descriptor option" where
  "Lookup_agent boot name = find (\<lambda>d. ag_Name d = name) (registry boot)"

subsection \<open>Jobs and their runs\<close>

datatype job_state = JobRunning | JobSucceeded | JobFailed | JobCancelled

datatype run_state = RunQueued | RunRunning | RunSucceeded | RunFailed | RunTimedOut | RunCancelled

record JobResources =
  jr_CPUs :: f64
  jr_MemoryMB :: int
  jr_DiskMB :: int

record JobKeep =
  kp_Output :: "bool option"
  kp_Files :: "bytes list"

record JobSpec =
  js_Name :: bytes
  js_Image :: bytes
  js_Labels :: "(bytes \<times> bytes) list"
  js_Command :: "bytes list"
  js_Agent :: bytes
  js_Prompt :: bytes
  js_Prompts :: "bytes list"
  js_Parallelism :: int
  js_Completions :: int
  js_Retries :: int
  js_TimeoutSecs :: int
  js_Env :: "(bytes \<times> bytes) list"
  js_Secrets :: "bytes list"
  js_Network :: "NetworkPolicy option"
  js_Resources :: "JobResources option"
  js_FromSnapshot :: bytes
  js_Keep :: "JobKeep option"
  js_Notify :: bytes

record JobFile =
  jf_Path :: bytes
  jf_Size :: int
  jf_Truncated :: bool
  jf_Error :: bytes

record JobRun =
  jr_N :: nat
  jr_State :: run_state
  jr_Sandbox :: bytes
  jr_PID :: int
  jr_Attempts :: int
  jr_ExitCode :: "int option"
  jr_Started :: "int option"
  jr_Finished :: "int option"
  jr_Error :: bytes
  jr_OutputTruncated :: bool
  jr_Files :: "JobFile list"

record jobRecord =
  jb_ID :: bytes
  jb_User :: bytes
  jb_Tenant :: bytes
  jb_Spec :: JobSpec
  jb_EnvNames :: "bytes list"
  jb_EnvSealed :: bytes
  jb_State :: job_state
  jb_Error :: bytes
  jb_Cancelled :: bool
  jb_Created :: int
  jb_Finished :: "int option"
  jb_Runs :: "JobRun list"

definition job_owner :: "jobRecord \<Rightarrow> Owner" where
  "job_owner r = \<lparr>ow_User = jb_User r, ow_Tenant = jb_Tenant r, ow_Node = []\<rparr>"

definition runFinal :: "run_state \<Rightarrow> bool" where
  "runFinal s \<longleftrightarrow> s \<in> {RunSucceeded, RunFailed, RunTimedOut, RunCancelled}"

definition maxJobRuns :: int where "maxJobRuns = 10000"
definition maxJobParallelism :: int where "maxJobParallelism = 1000"
definition maxJobRetries :: int where "maxJobRetries = 100"
definition maxKeptFiles :: nat where "maxKeptFiles = 32"
definition maxKeptOutput :: nat where "maxKeptOutput = 1048576"
definition maxKeptFile :: nat where "maxKeptFile = 8388608"
definition maxPromptLen :: nat where "maxPromptLen = 262144"
definition maxNotifyURL :: nat where "maxNotifyURL = 2048"

text \<open>Durations are nanoseconds.\<close>

definition defaultJobTimeout :: int where "defaultJobTimeout = 3600 * 1000000000"
definition maxJobTimeout :: int where "maxJobTimeout = 7 * 24 * 3600 * 1000000000"

subsection \<open>The store of jobs\<close>

type_synonym job_store = "(bytes \<times> jobRecord) list"

definition PutJob :: "jobRecord \<Rightarrow> job_store \<Rightarrow> job_store" where
  "PutJob r st = AList.update (jb_ID r) r st"

definition UpdateJob :: "bytes \<Rightarrow> (jobRecord \<Rightarrow> jobRecord) \<Rightarrow> job_store \<Rightarrow> job_store option" where
  "UpdateJob jid f st = (case map_of st jid of None \<Rightarrow> None | Some r \<Rightarrow> Some (AList.update jid (f r) st))"

text \<open>\<open>UpdateRun\<close>'s change of a job that is there, None for a run it does not have.\<close>

definition change_run :: "nat \<Rightarrow> (JobRun \<Rightarrow> JobRun) \<Rightarrow> jobRecord \<Rightarrow> jobRecord option" where
  "change_run n f r = (if n < length (jb_Runs r) then Some (r\<lparr>jb_Runs := (jb_Runs r)[n := f (jb_Runs r ! n)]\<rparr>) else None)"

definition ForgetJob :: "bytes \<Rightarrow> job_store \<Rightarrow> job_store" where
  "ForgetJob jid st = AList.delete jid st"

definition runningJobs :: "job_store \<Rightarrow> (bytes \<times> Owner) list" where
  "runningJobs st = map (\<lambda>(jid, r). (jid, job_owner r)) (filter (\<lambda>(jid, r). jb_State r = JobRunning \<and> \<not> jb_Cancelled r) st)"

subsection \<open>Whether an owner still has access\<close>

definition keyActsIn :: "members \<Rightarrow> Key \<Rightarrow> bytes \<Rightarrow> bool option" where
  "keyActsIn role k tenant =
    (if k_Bound k \<and> \<not> EqualFold (k_Org k) tenant then Some False
     else if k_Tenant k = tenant then Some True
     else role tenant (k_User k) (k_Tenant k))"

fun some_key_acts :: "members \<Rightarrow> int \<Rightarrow> bytes \<Rightarrow> Key list \<Rightarrow> bool option" where
  "some_key_acts role now tenant [] = Some False"
| "some_key_acts role now tenant (k # ks) =
    (if \<not> Active now k then some_key_acts role now tenant ks
     else case keyActsIn role k tenant of Some False \<Rightarrow> some_key_acts role now tenant ks | r \<Rightarrow> r)"

definition userActive :: "members \<Rightarrow> (bytes \<Rightarrow> Key list option) \<Rightarrow> int \<Rightarrow> bytes \<Rightarrow> bytes \<Rightarrow> bool option" where
  "userActive role keysOf now user tenant = (case keysOf user of None \<Rightarrow> None | Some ks \<Rightarrow> some_key_acts role now tenant ks)"

subsection \<open>The notify URL\<close>

text \<open>
  \<open>url.Parse\<close> as the scheme, the host and the host name of a URL, None where it is not one; \<open>net.ParseIP\<close> and \<open>netip.ParseAddr\<close> as the bytes of an
  address.
\<close>

record url_env =
  ux_Parse :: "bytes \<Rightarrow> (bytes \<times> bytes \<times> bytes) option"
  ux_ParseIP :: "bytes \<Rightarrow> bytes option"
  ux_ParseAddr :: "bytes \<Rightarrow> bytes option"
  ux_lower :: "nat \<Rightarrow> nat"

definition IsLoopback :: "bytes \<Rightarrow> bool" where
  "IsLoopback ip = (case To4 ip of Some v4 \<Rightarrow> v4 ! 0 = CHR 0x7f | None \<Rightarrow> ip = replicate 15 (CHR 0x00) @ [CHR 0x01])"

definition not_public :: "url_env \<Rightarrow> bytes \<Rightarrow> bool" where
  "not_public u h \<longleftrightarrow> h = ''localhost'' \<or> HasSuffix h ''.localhost'' \<or> (case ux_ParseAddr u h of None \<Rightarrow> False | Some ip \<Rightarrow> \<not> Addr ip)"

definition checkNotifyURL :: "url_env \<Rightarrow> bytes \<Rightarrow> bool \<Rightarrow> bool" where
  "checkNotifyURL u s allowPrivate \<longleftrightarrow> length s \<le> maxNotifyURL \<and>
    (case ux_Parse u s of
       None \<Rightarrow> False
     | Some (scheme, host, hostname) \<Rightarrow>
         let h = TrimSuffix (ToLower (ux_lower u) hostname) ''.'' in
         host \<noteq> [] \<and>
         (scheme = ''https'' \<or>
          (scheme = ''http'' \<and> (h = ''localhost'' \<or> (case ux_ParseIP u h of None \<Rightarrow> False | Some ip \<Rightarrow> IsLoopback ip)))) \<and>
         (allowPrivate \<or> \<not> not_public u h))"

text \<open>The address a notification is dialled at (\<open>newNotifyClient\<close>), \<open>host\<close> what \<open>net.SplitHostPort\<close> makes of it.\<close>

definition notify_dials :: "url_env \<Rightarrow> bool \<Rightarrow> bytes option \<Rightarrow> bool" where
  "notify_dials u allowPrivate host \<longleftrightarrow> allowPrivate \<or>
    (case host of None \<Rightarrow> False | Some h \<Rightarrow> (case ux_ParseAddr u h of None \<Rightarrow> False | Some ip \<Rightarrow> Addr ip))"

subsection \<open>Checks of a spec\<close>

record job_env =
  jx_secrets :: secrets_env
  jx_groups :: "EgressGroup list option"
  jx_boot :: "bytes \<Rightarrow> bytes \<Rightarrow> bytes list"
  jx_url :: url_env
  jx_NotifyAllowPrivate :: bool

definition check_work :: "job_env \<Rightarrow> JobSpec \<Rightarrow> refusal option" where
  "check_work e s =
    (if js_Command s \<noteq> [] \<and> js_Agent s \<noteq> [] then Some invalid
     else if js_Command s \<noteq> [] then
       if js_Prompt s \<noteq> [] \<or> js_Prompts s \<noteq> [] then Some invalid
       else if js_Command s ! 0 = [] then Some invalid else None
     else if js_Agent s \<noteq> [] then
       (case Lookup_agent (jx_boot e) (js_Agent s) of
          None \<Rightarrow> Some invalid
        | Some d \<Rightarrow>
            if ag_AutonomousArgs d = None then Some invalid
            else if (js_Prompt s = []) = (js_Prompts s = []) then Some invalid
            else if list_ex (\<lambda>pr. pr = []) (js_Prompts s) \<or> list_ex (\<lambda>pr. maxPromptLen < length pr) (js_Prompt s # js_Prompts s) then Some invalid
            else None)
     else Some invalid)"

definition fill_counts :: "JobSpec \<Rightarrow> (refusal, JobSpec) result" where
  "fill_counts s =
    (if js_Prompts s \<noteq> [] \<and> js_Completions s \<noteq> 0 \<and> js_Completions s \<noteq> int (length (js_Prompts s)) then Inl invalid
     else let n = (if js_Prompts s \<noteq> [] then int (length (js_Prompts s)) else if js_Completions s = 0 then 1 else js_Completions s);
              par = (if js_Parallelism s = 0 then 1 else js_Parallelism s) in
       if n < 0 \<or> n > maxJobRuns then Inl invalid
       else if par < 0 \<or> par > maxJobParallelism then Inl invalid
       else if js_Retries s < 0 \<or> js_Retries s > maxJobRetries then Inl invalid
       else if js_TimeoutSecs s < 0 \<or> i64 (js_TimeoutSecs s * 1000000000) > maxJobTimeout then Inl invalid
       else Inr (s\<lparr>js_Completions := n, js_Parallelism := par,
         js_TimeoutSecs := (if js_TimeoutSecs s = 0 then 3600 else js_TimeoutSecs s)\<rparr>))"

definition check_job_env :: "bytes \<times> bytes \<Rightarrow> refusal option" where
  "check_job_env kv = (case kv of (k, v) \<Rightarrow>
     if \<not> ValidEnvName k then Some invalid
     else if IsReservedEnv k then Some (403, ''refused'')
     else if CHR 0x00 \<in> set v then Some invalid else None)"

definition check_job_secrets :: "secrets_env \<Rightarrow> bytes \<Rightarrow> JobSpec \<Rightarrow> refusal option" where
  "check_job_secrets x tenant s = (case parseSecretRefs (js_Secrets s) (js_Env s) of
      Inl _ \<Rightarrow> Some invalid
    | Inr refs \<Rightarrow>
        if refs = [] then None
        else if \<not> sx_sealer x then Some unsupported
        else for_all_ok (\<lambda>(v, name). case sx_Sealed x tenant name of
            None \<Rightarrow> Some unavailable | Some None \<Rightarrow> Some invalid | Some (Some _) \<Rightarrow> None) refs)"

definition check_keep :: "JobKeep option \<Rightarrow> refusal option" where
  "check_keep keep = (case keep of None \<Rightarrow> None | Some k \<Rightarrow>
     if maxKeptFiles < length (kp_Files k) then Some invalid
     else if list_ex (\<lambda>f. \<not> IsAbs f \<or> Clean f \<noteq> f \<or> CHR 0x00 \<in> set f) (kp_Files k) then Some invalid else None)"

definition negative_job :: "JobSpec \<Rightarrow> bool" where
  "negative_job s = (case js_Resources s of None \<Rightarrow> False | Some r \<Rightarrow> f_lt (jr_CPUs r) (Fin 0) \<or> jr_MemoryMB r < 0 \<or> jr_DiskMB r < 0)"

text \<open>\<open>checkJobSpec\<close>: the refusal, or the spec with its defaults. A range over the environment has no order of its own; here it is the list's.\<close>

definition checkJobSpec :: "job_env \<Rightarrow> Principal \<Rightarrow> JobSpec \<Rightarrow> (refusal, JobSpec) result" where
  "checkJobSpec e p s =
    (if js_Name s \<noteq> [] \<and> \<not> ValidName (js_Name s) then Inl invalid
     else if ValidateLabels (js_Labels s) \<noteq> None then Inl invalid
     else unless_err (check_work e s) (and_then (fill_counts s) (\<lambda>s1.
       if negative_job s1 then Inl invalid
       else unless_err (for_all_ok check_job_env (js_Env s1))
         (unless_err (check_job_secrets (jx_secrets e) (pp_Tenant p) s1)
         (unless_err (check_keep (js_Keep s1))
         (if js_Notify s1 \<noteq> [] \<and> \<not> checkNotifyURL (jx_url e) (js_Notify s1) (jx_NotifyAllowPrivate e) then Inl invalid
          else (case applyGroups (jx_groups e) (js_Network s1) of Inl (r, _) \<Rightarrow> Inl r | Inr _ \<Rightarrow> Inr s1)))))))"

definition keepOutput :: "JobSpec \<Rightarrow> bool" where
  "keepOutput s = (case js_Keep s of None \<Rightarrow> True | Some k \<Rightarrow> (case kp_Output k of None \<Rightarrow> True | Some b \<Rightarrow> b))"

subsection \<open>The environment of a job\<close>

text \<open>The secrets key: what it seals under a label and opens again, with the JSON of an environment.\<close>

record sealer =
  sl_seal :: "bytes \<Rightarrow> bytes \<Rightarrow> bytes"
  sl_open :: "bytes \<Rightarrow> bytes \<Rightarrow> bytes option"
  sl_Marshal :: "(bytes \<times> bytes) list \<Rightarrow> bytes"
  sl_Unmarshal :: "bytes \<Rightarrow> (bytes \<times> bytes) list option"

definition jobEnvAD :: "bytes \<Rightarrow> bytes" where
  "jobEnvAD jid = ''sandbox-gateway job env v1'' @ [CHR 0x00] @ jid"

datatype env_error = SealedNoKey | DoesNotOpen | EnvCorrupt | EnvLost

text \<open>\<open>jobEnv\<close>: \<open>mem\<close> is what the gateway holds in memory for the job.\<close>

definition jobEnv :: "sealer option \<Rightarrow> (bytes \<times> bytes) list option \<Rightarrow> jobRecord \<Rightarrow> (env_error, (bytes \<times> bytes) list) result" where
  "jobEnv key mem r =
    (if jb_EnvNames r = [] then Inr []
     else if jb_EnvSealed r \<noteq> [] then (case key of
         None \<Rightarrow> Inl SealedNoKey
       | Some k \<Rightarrow> (case sl_open k (jb_EnvSealed r) (jobEnvAD (jb_ID r)) of
           None \<Rightarrow> Inl DoesNotOpen
         | Some plain \<Rightarrow> (case sl_Unmarshal k plain of None \<Rightarrow> Inl EnvCorrupt | Some env \<Rightarrow> Inr env)))
     else (case mem of None \<Rightarrow> Inl EnvLost | Some env \<Rightarrow> Inr env))"

subsection \<open>The handlers\<close>

definition queued_run :: "nat \<Rightarrow> JobRun" where
  "queued_run n = \<lparr>jr_N = n, jr_State = RunQueued, jr_Sandbox = [], jr_PID = 0, jr_Attempts = 0, jr_ExitCode = None, jr_Started = None,
     jr_Finished = None, jr_Error = [], jr_OutputTruncated = False, jr_Files = []\<rparr>"

definition new_job :: "sealer option \<Rightarrow> bytes \<Rightarrow> Principal \<Rightarrow> JobSpec \<Rightarrow> int \<Rightarrow> jobRecord" where
  "new_job key jid p s now = \<lparr>jb_ID = jid, jb_User = pp_User p, jb_Tenant = pp_Tenant p, jb_Spec = s\<lparr>js_Env := []\<rparr>,
     jb_EnvNames = sort (map fst (js_Env s)),
     jb_EnvSealed = (case key of None \<Rightarrow> [] | Some k \<Rightarrow> if js_Env s = [] then [] else sl_seal k (sl_Marshal k (js_Env s)) (jobEnvAD jid)),
     jb_State = JobRunning, jb_Error = [], jb_Cancelled = False, jb_Created = now, jb_Finished = None,
     jb_Runs = map queued_run [0..<nat (js_Completions s)]\<rparr>"

text \<open>\<open>submitJob\<close>: \<open>running\<close> is whether the gateway runs jobs at all, \<open>wrote\<close> whether the store took the record.\<close>

definition submitJob :: "job_env \<Rightarrow> sealer option \<Rightarrow> Principal \<Rightarrow> JobSpec \<Rightarrow> bytes \<Rightarrow> bool \<Rightarrow> bool \<Rightarrow> int \<Rightarrow> (refusal, jobRecord) result" where
  "submitJob e key p s jid running wrote now = and_then (checkJobSpec e p s) (\<lambda>s1.
     if \<not> running then Inl unavailable
     else if \<not> wrote then Inl (500, ''internal'')
     else Inr (new_job key jid p s1 now))"

definition createJob :: "job_env \<Rightarrow> sealer option \<Rightarrow> Principal \<Rightarrow> JobSpec \<Rightarrow> bytes \<Rightarrow> bool \<Rightarrow> bool \<Rightarrow> int \<Rightarrow> (refusal, jobRecord) result" where
  "createJob e key p s jid running wrote now =
    (if \<not> Can p ''sandbox:create'' then Inl (403, ''refused'') else submitJob e key p s jid running wrote now)"

record AgentRunRequest =
  ar_Agent :: bytes
  ar_Prompt :: bytes
  ar_Name :: bytes
  ar_Image :: bytes
  ar_Retries :: int
  ar_TimeoutSecs :: int
  ar_Env :: "(bytes \<times> bytes) list"
  ar_Secrets :: "bytes list"
  ar_Network :: "NetworkPolicy option"
  ar_Resources :: "JobResources option"
  ar_FromSnapshot :: bytes
  ar_Keep :: "JobKeep option"
  ar_Notify :: bytes

definition agent_spec :: "AgentRunRequest \<Rightarrow> JobSpec" where
  "agent_spec a = \<lparr>js_Name = ar_Name a, js_Image = ar_Image a, js_Labels = [], js_Command = [], js_Agent = ar_Agent a, js_Prompt = ar_Prompt a,
     js_Prompts = [], js_Parallelism = 0, js_Completions = 0, js_Retries = ar_Retries a, js_TimeoutSecs = ar_TimeoutSecs a, js_Env = ar_Env a,
     js_Secrets = ar_Secrets a, js_Network = ar_Network a, js_Resources = ar_Resources a, js_FromSnapshot = ar_FromSnapshot a, js_Keep = ar_Keep a,
     js_Notify = ar_Notify a\<rparr>"

definition createAgentRun :: "job_env \<Rightarrow> sealer option \<Rightarrow> Principal \<Rightarrow> AgentRunRequest \<Rightarrow> bytes \<Rightarrow> bool \<Rightarrow> bool \<Rightarrow> int \<Rightarrow> (refusal, jobRecord) result" where
  "createAgentRun e key p a jid running wrote now =
    (if \<not> Can p ''sandbox:create'' then Inl (403, ''refused'')
     else if ar_Agent a = [] \<or> ar_Prompt a = [] then Inl invalid
     else submitJob e key p (agent_spec a) jid running wrote now)"

definition jobIDRE :: rx where
  "jobIDRE = Seq (Lit ''job_'') (Times 16 (Cls [(CHR ''0'', CHR ''9''), (CHR ''a'', CHR ''f'')]))"

text \<open>\<open>jobFor\<close>: \<open>job\<close> is what the store answers, None where it does not.\<close>

definition jobFor :: "(bytes \<Rightarrow> jobRecord option option) \<Rightarrow> Principal \<Rightarrow> bytes \<Rightarrow> bytes \<Rightarrow> (refusal, jobRecord) result" where
  "jobFor job p scope jid =
    (if \<not> Can p scope then Inl (403, ''refused'')
     else if \<not> rx_match jobIDRE jid then Inl not_found
     else case job jid of
       None \<Rightarrow> Inl unavailable
     | Some None \<Rightarrow> Inl not_found
     | Some (Some r) \<Rightarrow> if mayAct p (job_owner r) then Inr r else Inl not_found)"

text \<open>\<open>runOf\<close>: \<open>{n}\<close> as it is printed, and no other spelling of it.\<close>

definition runOf :: "(bytes \<Rightarrow> jobRecord option option) \<Rightarrow> Principal \<Rightarrow> bytes \<Rightarrow> bytes \<Rightarrow> (refusal, jobRecord \<times> JobRun) result" where
  "runOf job p jid n = and_then (jobFor job p ''sandbox:read'' jid) (\<lambda>r. case Atoi n of
      None \<Rightarrow> Inl not_found
    | Some k \<Rightarrow> if k < 0 \<or> k \<ge> int (length (jb_Runs r)) \<or> decimal k \<noteq> n then Inl not_found else Inr (r, jb_Runs r ! nat k))"

record JobView =
  jv_ID :: bytes
  jv_Name :: bytes
  jv_State :: job_state
  jv_Spec :: JobSpec
  jv_EnvNames :: "bytes list"
  jv_Created :: int
  jv_Finished :: "int option"
  jv_Expires :: "int option"
  jv_Queued :: nat
  jv_Running :: nat
  jv_Succeeded :: nat
  jv_Failed :: nat
  jv_Runs :: "JobRun list"
  jv_Error :: bytes

definition in_states :: "run_state set \<Rightarrow> jobRecord \<Rightarrow> nat" where
  "in_states S r = length (filter (\<lambda>run. jr_State run \<in> S) (jb_Runs r))"

definition jobView :: "int \<Rightarrow> jobRecord \<Rightarrow> bool \<Rightarrow> JobView" where
  "jobView retention r withRuns = \<lparr>jv_ID = jb_ID r, jv_Name = js_Name (jb_Spec r), jv_State = jb_State r, jv_Spec = (jb_Spec r)\<lparr>js_Env := []\<rparr>,
     jv_EnvNames = jb_EnvNames r, jv_Created = jb_Created r, jv_Finished = jb_Finished r,
     jv_Expires = map_option (\<lambda>t. t + retention) (jb_Finished r), jv_Queued = in_states {RunQueued} r, jv_Running = in_states {RunRunning} r,
     jv_Succeeded = in_states {RunSucceeded} r, jv_Failed = in_states {RunFailed, RunTimedOut} r,
     jv_Runs = (if withRuns then jb_Runs r else []), jv_Error = jb_Error r\<rparr>"

definition getJob :: "(bytes \<Rightarrow> jobRecord option option) \<Rightarrow> int \<Rightarrow> Principal \<Rightarrow> bytes \<Rightarrow> (refusal, JobView) result" where
  "getJob job retention p jid = and_then (jobFor job p ''sandbox:read'' jid) (\<lambda>r. Inr (jobView retention r True))"

text \<open>\<open>listJobs\<close>: \<open>mine\<close> is what the store has of the caller's, None where it does not answer; newest first, then by id.\<close>

definition listJobs :: "jobRecord list option \<Rightarrow> int \<Rightarrow> Principal \<Rightarrow> (refusal, JobView list) result" where
  "listJobs mine retention p =
    (if \<not> Can p ''sandbox:read'' then Inl (403, ''refused'')
     else case mine of None \<Rightarrow> Inl unavailable
       | Some rs \<Rightarrow> Inr (rev (sort_key (\<lambda>v. (jv_Created v, jv_ID v)) (map (\<lambda>r. jobView retention r False) rs))))"

text \<open>\<open>jobOutput\<close>: \<open>kept\<close> is what the two files read as, None one that is not there; one that cannot be read is empty.\<close>

definition jobOutput :: "(bytes \<Rightarrow> jobRecord option option) \<Rightarrow> (bytes \<Rightarrow> nat \<Rightarrow> bytes option \<times> bytes option) \<Rightarrow> Principal \<Rightarrow> bytes \<Rightarrow> bytes \<Rightarrow>
    (refusal, bytes \<times> bytes \<times> bool) result" where
  "jobOutput job kept p jid n = and_then (runOf job p jid n) (\<lambda>(r, run).
     if \<not> keepOutput (jb_Spec r) then Inl not_found
     else case kept (jb_ID r) (jr_N run) of
       (None, None) \<Rightarrow> Inl not_found
     | (out, err) \<Rightarrow> Inr (case out of None \<Rightarrow> [] | Some b \<Rightarrow> b, case err of None \<Rightarrow> [] | Some b \<Rightarrow> b, jr_OutputTruncated run))"

text \<open>\<open>jobFile\<close>: the first file of the path that was kept, by its place among the run's files.\<close>

definition jobFile :: "(bytes \<Rightarrow> jobRecord option option) \<Rightarrow> (bytes \<Rightarrow> nat \<Rightarrow> nat \<Rightarrow> bytes option) \<Rightarrow> Principal \<Rightarrow> bytes \<Rightarrow> bytes \<Rightarrow> bytes \<Rightarrow>
    (refusal, bytes) result" where
  "jobFile job kept p jid n want = and_then (runOf job p jid n) (\<lambda>(r, run).
     case find (\<lambda>i. jf_Path (jr_Files run ! i) = want \<and> jf_Error (jr_Files run ! i) = []) [0..<length (jr_Files run)] of
       None \<Rightarrow> Inl not_found
     | Some i \<Rightarrow> (case kept (jb_ID r) (jr_N run) i of None \<Rightarrow> Inl not_found | Some b \<Rightarrow> Inr b))"

subsection \<open>Cancelling and finishing\<close>

definition reasonOwnerRevoked :: bytes where
  "reasonOwnerRevoked = ''cancelled: the owner's access was revoked''"

definition mark_cancelled :: "jobRecord \<Rightarrow> jobRecord" where
  "mark_cancelled r = r\<lparr>jb_Cancelled := True\<rparr>"

text \<open>\<open>cancelJob\<close>: \<open>again\<close> is what the store answers once the runs have been waited for.\<close>

definition cancelJob :: "(bytes \<Rightarrow> jobRecord option option) \<Rightarrow> jobRecord option option \<Rightarrow> int \<Rightarrow> Principal \<Rightarrow> bytes \<Rightarrow> bool \<Rightarrow> (refusal, JobView) result" where
  "cancelJob job again retention p jid wrote = and_then (jobFor job p ''sandbox:create'' jid) (\<lambda>r.
     if jb_State r = JobRunning then
       if \<not> wrote then Inl (500, ''internal'')
       else (case again of
           None \<Rightarrow> Inl unavailable
         | Some None \<Rightarrow> Inl not_found
         | Some (Some r1) \<Rightarrow> Inr (jobView retention r1 True))
     else Inr (jobView retention r True))"

text \<open>What \<open>revokeJob\<close> writes.\<close>

definition mark_revoked :: "jobRecord \<Rightarrow> jobRecord" where
  "mark_revoked r =
    (if jb_State r \<noteq> JobRunning \<or> jb_Cancelled r then r
     else r\<lparr>jb_Cancelled := True, jb_Error := (if jb_Error r = [] then reasonOwnerRevoked else jb_Error r)\<rparr>)"

text \<open>The jobs \<open>revokeOrphanedJobs\<close> cancels: \<open>active\<close> is \<open>userActive\<close>, which is not asked again for the same owner.\<close>

definition revokeOrphanedJobs :: "(Owner \<Rightarrow> bool option) \<Rightarrow> job_store \<Rightarrow> bytes list" where
  "revokeOrphanedJobs active st = map fst (filter (\<lambda>(jid, ow). active ow = Some False) (runningJobs st))"

definition finish_run :: "bytes \<Rightarrow> int \<Rightarrow> JobRun \<Rightarrow> JobRun" where
  "finish_run err now run =
    (if runFinal (jr_State run) then run
     else run\<lparr>jr_State := RunCancelled, jr_Finished := (case jr_Finished run of None \<Rightarrow> Some now | t \<Rightarrow> t),
       jr_Error := (if jr_Error run = [] \<and> err = reasonOwnerRevoked then err else jr_Error run)\<rparr>)"

definition finishJob :: "int \<Rightarrow> jobRecord \<Rightarrow> jobRecord" where
  "finishJob now r =
    (let runs = map (finish_run (jb_Error r) now) (jb_Runs r);
         bad = list_ex (\<lambda>run. jr_State run \<noteq> RunSucceeded) runs
     in r\<lparr>jb_Runs := runs, jb_State := (if jb_Cancelled r \<and> bad then JobCancelled else if bad then JobFailed else JobSucceeded),
          jb_Finished := Some now\<rparr>)"

text \<open>\<open>forgetOldJobs\<close>: \<open>removed\<close> is whether what a job kept could be removed, \<open>wrote\<close> whether the store then dropped it.\<close>

definition forget_due :: "int \<Rightarrow> int \<Rightarrow> jobRecord \<Rightarrow> bool" where
  "forget_due now retention r = (case jb_Finished r of None \<Rightarrow> False | Some t \<Rightarrow> \<not> now - t < retention)"

definition forgetOldJobs :: "int \<Rightarrow> int \<Rightarrow> (bytes \<Rightarrow> bool) \<Rightarrow> (bytes \<Rightarrow> bool) \<Rightarrow> job_store \<Rightarrow> job_store" where
  "forgetOldJobs now retention removed wrote st =
    foldl (\<lambda>acc (jid, r). if forget_due now retention r \<and> removed jid \<and> wrote jid then ForgetJob jid acc else acc) st st"

subsection \<open>How a job's context ends\<close>

datatype job_ctx = Ctx_Live | Ctx_Cancelled | Ctx_Revoked | Ctx_Stopping

definition stopping :: "job_ctx \<Rightarrow> bool \<times> bool" where
  "stopping c = (c \<in> {Ctx_Cancelled, Ctx_Revoked}, c = Ctx_Stopping)"

text \<open>The context \<open>startJob\<close> begins with: \<open>job\<close> is what the store answers.\<close>

definition start_ctx :: "jobRecord option \<Rightarrow> job_ctx" where
  "start_ctx job = (case job of
      None \<Rightarrow> Ctx_Live
    | Some r \<Rightarrow> if \<not> jb_Cancelled r then Ctx_Live else if jb_Error r = reasonOwnerRevoked then Ctx_Revoked else Ctx_Cancelled)"

text \<open>The order in which \<open>runJob\<close> hands out runs.\<close>

definition pending_runs :: "jobRecord \<Rightarrow> nat list" where
  "pending_runs r = map jr_N (filter (\<lambda>run. jr_State run = RunRunning) (jb_Runs r)) @ map jr_N (filter (\<lambda>run. jr_State run = RunQueued) (jb_Runs r))"

subsection \<open>What an attempt comes to\<close>

record outcome =
  oc_state :: run_state
  oc_exit :: "int option"
  oc_err :: bytes
  oc_truncated :: bool
  oc_files :: "JobFile list"
  oc_counted :: bool
  oc_final :: bool

definition outcome_of :: "run_state \<Rightarrow> bytes \<Rightarrow> outcome" where
  "outcome_of st err = \<lparr>oc_state = st, oc_exit = None, oc_err = err, oc_truncated = False, oc_files = [], oc_counted = False, oc_final = False\<rparr>"

definition failed :: "bytes \<Rightarrow> outcome" where
  "failed msg = outcome_of RunFailed msg"

definition cancelledOutcome :: "job_ctx \<Rightarrow> outcome" where
  "cancelledOutcome c = outcome_of RunCancelled (if c = Ctx_Revoked then reasonOwnerRevoked else [])"

text \<open>What \<open>runOne\<close> records of an attempt that was not interrupted, \<open>alive\<close> being whether the context still is.\<close>

definition retries_again :: "JobSpec \<Rightarrow> bool \<Rightarrow> outcome \<Rightarrow> int \<Rightarrow> bool" where
  "retries_again s alive out attempts \<longleftrightarrow> oc_state out \<in> {RunFailed, RunTimedOut} \<and> \<not> oc_final out \<and> attempts \<le> js_Retries s \<and> alive"

definition record_attempt :: "JobSpec \<Rightarrow> bool \<Rightarrow> outcome \<Rightarrow> int \<Rightarrow> JobRun \<Rightarrow> JobRun" where
  "record_attempt s alive out now run =
    (let k = (if oc_counted out then jr_Attempts run + 1 else jr_Attempts run);
         r1 = run\<lparr>jr_Attempts := k, jr_ExitCode := oc_exit out, jr_Error := oc_err out, jr_OutputTruncated := oc_truncated out, jr_Files := oc_files out, jr_PID := 0\<rparr>
     in if retries_again s alive out k then r1\<lparr>jr_State := RunQueued, jr_Finished := None\<rparr>
        else r1\<lparr>jr_State := oc_state out, jr_Finished := Some now\<rparr>)"

text \<open>
  How an attempt begins: \<open>node\<close> is whether \<open>nodeOfSandbox\<close> finds the run's, \<open>active\<close> what \<open>userActive\<close> answers, \<open>text\<close> the texts of the errors.
\<close>

datatype begun = TakesDown bytes outcome | Comes outcome | Follows bytes int int | Interrupted | OwnerGone | Makes "(bytes \<times> bytes) list" "(bytes \<times> bytes) list"

definition given_up :: "bytes \<Rightarrow> outcome" where
  "given_up err = (failed err)\<lparr>oc_final := True, oc_counted := True\<rparr>"

definition attempt_begins :: "(env_error + secret_error \<Rightarrow> bytes) \<Rightarrow> job_ctx \<Rightarrow> bool \<Rightarrow> bool option \<Rightarrow> (env_error, (bytes \<times> bytes) list) result \<Rightarrow>
    (secret_error, (bytes \<times> bytes) list) result \<Rightarrow> JobRun \<Rightarrow> begun" where
  "attempt_begins text c node active env secrets run =
    (if jr_State run = RunRunning \<and> jr_Sandbox run \<noteq> [] then
       (case jr_Started run of
          None \<Rightarrow> TakesDown (jr_Sandbox run) (failed ''the gateway stopped between making the run's sandbox and starting its command'')
        | Some t \<Rightarrow>
            if jr_PID run = 0 then TakesDown (jr_Sandbox run) (failed ''the gateway stopped between making the run's sandbox and starting its command'')
            else if \<not> node then Comes (failed ''the run's sandbox ended while the gateway was not watching it'')
            else Follows (jr_Sandbox run) (jr_PID run) t)
     else if fst (stopping c) then Comes (cancelledOutcome c)
     else if snd (stopping c) then Interrupted
     else case active of
       None \<Rightarrow> Interrupted
     | Some False \<Rightarrow> OwnerGone
     | Some True \<Rightarrow> (case env of
         Inl x \<Rightarrow> Comes (given_up (text (Inl x)))
       | Inr vs \<Rightarrow> (case secrets of Inl x \<Rightarrow> Comes (given_up (text (Inr x))) | Inr ss \<Rightarrow> Makes vs ss)))"

text \<open>A create that failed: what the attempt comes to, None where it is interrupted or tries again.\<close>

datatype create_next = Stop_interrupted | Comes_to outcome | Tries_again

definition create_failed :: "job_ctx \<Rightarrow> create_fail \<Rightarrow> bytes \<Rightarrow> create_next" where
  "create_failed c f text =
    (if fst (stopping c) then Comes_to (cancelledOutcome c)
     else if snd (stopping c) then Stop_interrupted
     else if \<not> snd f then Comes_to ((failed (''creating the sandbox: '' @ text))\<lparr>oc_counted := True\<rparr>)
     else Tries_again)"

text \<open>Waiting between two creates, doubled each time to half a minute at most.\<close>

definition next_wait :: "int \<Rightarrow> int" where
  "next_wait w = min (w * 2) (seconds 30)"

definition record_made :: "bytes \<Rightarrow> JobRun \<Rightarrow> JobRun" where
  "record_made sid run = run\<lparr>jr_Attempts := jr_Attempts run + 1, jr_State := RunRunning, jr_Sandbox := sid, jr_PID := 0, jr_Started := None,
     jr_Finished := None, jr_ExitCode := None, jr_Error := []\<rparr>"

definition record_started :: "int \<Rightarrow> int \<Rightarrow> JobRun \<Rightarrow> JobRun" where
  "record_started pid t run = run\<lparr>jr_PID := pid, jr_Started := Some t\<rparr>"

text \<open>A command that did not start: whether the run is left to resume, or what it comes to.\<close>

definition start_failed :: "job_ctx \<Rightarrow> bytes \<Rightarrow> outcome option" where
  "start_failed c text =
    (if snd (stopping c) then None
     else if fst (stopping c) then Some (cancelledOutcome c)
     else Some (failed (''starting the command: '' @ text)))"

definition terminateRunSandbox :: "Owner option option \<Rightarrow> (bytes \<Rightarrow> bool) \<Rightarrow> (bytes \<Rightarrow> nat option) \<Rightarrow> end_verdict" where
  "terminateRunSandbox row known ans = terminate_one row known ans"

subsection \<open>What a run asks for\<close>

definition gitIdentity :: "(bytes \<times> bytes) list" where
  "gitIdentity = [(''GIT_AUTHOR_NAME'', ''sandbox''), (''GIT_AUTHOR_EMAIL'', ''sandbox@localhost''),
     (''GIT_COMMITTER_NAME'', ''sandbox''), (''GIT_COMMITTER_EMAIL'', ''sandbox@localhost'')]"

definition over :: "(bytes \<times> bytes) list \<Rightarrow> (bytes \<times> bytes) list \<Rightarrow> (bytes \<times> bytes) list" where
  "over xs ys = filter (\<lambda>(k, _). k \<notin> fst ` set ys) xs @ ys"

definition GuestHome :: bytes where
  "GuestHome = ''/sandbox/home''"

text \<open>The network of an agent's run: \<open>fleet\<close> is the default of the nodes together, None where no node has answered.\<close>

definition agent_network :: "NetworkPolicy option \<Rightarrow> bytes \<Rightarrow> NetworkPolicy option \<Rightarrow> NetworkPolicy option" where
  "agent_network fleet host net =
    (let n1 = (case net of
         Some n \<Rightarrow> Some n
       | None \<Rightarrow> (case fleet of
           Some d \<Rightarrow> if np_Mode d = ''allowlist'' then Some \<lparr>np_Mode = np_Mode d, np_Allow = np_Allow d, np_Deny = np_Deny d, np_Groups = None\<rparr> else None
         | None \<Rightarrow> None))
     in case n1 of
       None \<Rightarrow> None
     | Some n \<Rightarrow> if np_Mode n = ''allowlist'' \<and> host \<notin> set (items (np_Allow n)) then Some (n\<lparr>np_Allow := Some (items (np_Allow n) @ [host])\<rparr>) else Some n)"

definition run_base :: "JobSpec \<Rightarrow> (bytes \<times> bytes) list \<Rightarrow> (bytes \<times> bytes) list \<Rightarrow> CreateSandboxRequest" where
  "run_base s env secrets = \<lparr>rq_Name = [], rq_Image = js_Image s,
     rq_CPUs = (case js_Resources s of None \<Rightarrow> Fin 0 | Some r \<Rightarrow> jr_CPUs r), rq_MemoryMB = (case js_Resources s of None \<Rightarrow> 0 | Some r \<Rightarrow> jr_MemoryMB r),
     rq_DiskMB = (case js_Resources s of None \<Rightarrow> 0 | Some r \<Rightarrow> jr_DiskMB r), rq_Env = over (over gitIdentity env) secrets, rq_Network = js_Network s,
     rq_IdleTimeoutSecs = 0, rq_IdleAction = [], rq_LifetimeSecs = 0, rq_SnapshotID = js_FromSnapshot s, rq_SnapshotEverySecs = 0, rq_SnapshotKeep = 0,
     rq_Labels = [], rq_Volumes = [], rq_RegistryLogin = None, rq_MetricsExport = None, rq_GPUs = 0\<rparr>"

text \<open>\<open>runRequest\<close>: the create request, the arguments and the directory of a run. A spec that passed its check names an agent there is.\<close>

definition runRequest :: "(bytes \<Rightarrow> bytes \<Rightarrow> bytes list) \<Rightarrow> NetworkPolicy option \<Rightarrow> jobRecord \<Rightarrow> nat \<Rightarrow> (bytes \<times> bytes) list \<Rightarrow> (bytes \<times> bytes) list \<Rightarrow>
    (CreateSandboxRequest \<times> bytes list \<times> bytes) option" where
  "runRequest boot fleet r n env secrets =
    (let s = jb_Spec r; req = run_base s env secrets in
     if js_Agent s = [] then Some (req, js_Command s, [])
     else case Lookup_agent boot (js_Agent s) of
       None \<Rightarrow> None
     | Some d \<Rightarrow>
         let prompt = (if js_Prompts s \<noteq> [] then js_Prompts s ! n else js_Prompt s);
             req1 = (if ag_ProviderHost d \<noteq> [] then req\<lparr>rq_Network := agent_network fleet (ag_ProviderHost d) (rq_Network req)\<rparr> else req)
         in Some (req1, Autonomous d prompt [], GuestHome))"

definition run_labels :: "jobRecord \<Rightarrow> nat \<Rightarrow> (bytes \<times> bytes) list" where
  "run_labels r n = [(''gateway.job'', jb_ID r), (''gateway.job-run'', Itoa n)]"

definition run_principal :: "jobRecord \<Rightarrow> Principal" where
  "run_principal r = \<lparr>pp_User = jb_User r, pp_Tenant = jb_Tenant r, pp_KeyTenant = [], pp_KeyID = [], pp_Scopes = [''sandbox:create''],
     pp_Sandbox = [], pp_Bound = False, pp_BoundOrg = []\<rparr>"

subsection \<open>Following a run\<close>

record capped =
  cb_buf :: bytes
  cb_cut :: bool

definition capped_Write :: "nat \<Rightarrow> bytes \<Rightarrow> capped \<Rightarrow> capped" where
  "capped_Write m p c = (let room = int m - int (length (cb_buf c)) in
     if int (length p) > room then \<lparr>cb_buf = cb_buf c @ take (nat (max room 0)) p, cb_cut = True\<rparr>
     else c\<lparr>cb_buf := cb_buf c @ p\<rparr>)"

definition empty_capped :: capped where
  "empty_capped = \<lparr>cb_buf = [], cb_cut = False\<rparr>"

datatype out_event = Exits int | Stdout bytes | Stderr bytes | OtherStream bytes

record followed =
  fo_out :: capped
  fo_err :: capped
  fo_code :: "int option"

fun take_event :: "followed \<Rightarrow> out_event \<Rightarrow> followed" where
  "take_event f (Exits c) = f\<lparr>fo_code := Some c\<rparr>"
| "take_event f (Stdout d) = f\<lparr>fo_out := capped_Write maxKeptOutput d (fo_out f)\<rparr>"
| "take_event f (Stderr d) = f\<lparr>fo_err := capped_Write maxKeptOutput d (fo_err f)\<rparr>"
| "take_event f (OtherStream d) = f"

definition follow_events :: "out_event list \<Rightarrow> followed" where
  "follow_events evs = foldl take_event \<lparr>fo_out = empty_capped, fo_err = empty_capped, fo_code = None\<rparr> evs"

text \<open>
  One call of \<open>FollowOutput\<close>: the events it gave, whether it said the process is not found, and the context, whether the deadline is past and the
  clock when it returned.
\<close>

record follow_round =
  wr_events :: "out_event list"
  wr_gone :: bool
  wr_ctx :: job_ctx
  wr_past :: bool
  wr_now :: int

definition lostAfter :: int where
  "lostAfter = seconds 120"

definition exit_outcome :: "int \<Rightarrow> outcome" where
  "exit_outcome code = (outcome_of (if code = 0 then RunSucceeded else RunFailed) (if code = 0 then [] else ''exited '' @ decimal code))\<lparr>oc_exit := Some code\<rparr>"

definition timed_out :: "int \<Rightarrow> outcome" where
  "timed_out secs = outcome_of RunTimedOut (''timed out after '' @ decimal secs @ ''s'')"

datatype watched = Watch_interrupted | Watch_ends outcome | Watch_keeps outcome followed

text \<open>One turn of the loop of \<open>watch\<close>, \<open>lost\<close> being when the node was first lost: either it goes on, or it ends.\<close>

definition watch_round :: "int \<Rightarrow> int option \<Rightarrow> follow_round \<Rightarrow> int option + watched" where
  "watch_round secs lost w =
    (let f = follow_events (wr_events w) in
     case fo_code f of
       Some code \<Rightarrow> Inr (Watch_keeps (exit_outcome code) f)
     | None \<Rightarrow>
         if snd (stopping (wr_ctx w)) then Inr Watch_interrupted
         else if fst (stopping (wr_ctx w)) then Inr (Watch_ends (cancelledOutcome (wr_ctx w)))
         else if wr_past w then Inr (Watch_keeps (timed_out secs) f)
         else if wr_gone w then Inr (Watch_ends (failed ''the run's sandbox or its process is gone''))
         else (case lost of
             None \<Rightarrow> Inl (Some (wr_now w))
           | Some t \<Rightarrow> if wr_now w - t > lostAfter then Inr (Watch_ends (failed ''lost the run's node'')) else Inl lost))"

text \<open>The loop over the calls it makes; None is one that has not ended with them.\<close>

fun watch_loop :: "int \<Rightarrow> int option \<Rightarrow> follow_round list \<Rightarrow> watched option" where
  "watch_loop secs lost [] = None"
| "watch_loop secs lost (w # ws) = (case watch_round secs lost w of Inl lost' \<Rightarrow> watch_loop secs lost' ws | Inr r \<Rightarrow> Some r)"

text \<open>The deadline, whose product of seconds is an \<open>int64\<close>.\<close>

definition run_deadline :: "int \<Rightarrow> int \<Rightarrow> int" where
  "run_deadline started secs = started + i64 (secs * 1000000000)"

datatype file_answer = NoAnswer | Refused_file bytes | Body bytes bool

text \<open>One file of \<open>keepFiles\<close>: what is recorded and what is kept. \<open>Body\<close> says whether it was read whole.\<close>

definition keep_file :: "bytes \<Rightarrow> file_answer \<Rightarrow> bool \<Rightarrow> JobFile \<times> bytes option" where
  "keep_file path ans wrote =
    (let f = \<lparr>jf_Path = path, jf_Size = 0, jf_Truncated = False, jf_Error = []\<rparr> in
     case ans of
       NoAnswer \<Rightarrow> (f\<lparr>jf_Error := ''the node did not answer''\<rparr>, None)
     | Refused_file e \<Rightarrow> (f\<lparr>jf_Error := e\<rparr>, None)
     | Body b ok \<Rightarrow>
         if \<not> ok then (f\<lparr>jf_Error := ''reading it failed''\<rparr>, None)
         else let data = take (maxKeptFile + 1) b;
                  f1 = (if maxKeptFile < length data then f\<lparr>jf_Truncated := True\<rparr> else f);
                  d1 = take maxKeptFile data;
                  f2 = f1\<lparr>jf_Size := int (length d1)\<rparr>
              in if wrote then (f2, Some d1) else (f2\<lparr>jf_Error := ''the gateway could not keep it''\<rparr>, None))"

definition keepFiles :: "(bytes \<Rightarrow> file_answer) \<Rightarrow> (nat \<Rightarrow> bool) \<Rightarrow> bytes list \<Rightarrow> JobFile list" where
  "keepFiles ans wrote paths = map (\<lambda>(i, p). fst (keep_file p (ans p) (wrote i))) (enumerate 0 paths)"

text \<open>What a run that ended by itself or by its deadline is recorded with.\<close>

definition kept_outcome :: "JobSpec \<Rightarrow> (bytes \<Rightarrow> file_answer) \<Rightarrow> (nat \<Rightarrow> bool) \<Rightarrow> outcome \<Rightarrow> followed \<Rightarrow> outcome" where
  "kept_outcome s ans wrote out f = out\<lparr>oc_truncated := (cb_cut (fo_out f) \<or> cb_cut (fo_err f)),
     oc_files := (case js_Keep s of None \<Rightarrow> [] | Some k \<Rightarrow> keepFiles ans wrote (kp_Files k))\<rparr>"

definition kept_streams :: "JobSpec \<Rightarrow> followed \<Rightarrow> (bytes \<times> bytes) list" where
  "kept_streams s f = (if keepOutput s then [(''stdout'', cb_buf (fo_out f)), (''stderr'', cb_buf (fo_err f))] else [])"

subsection \<open>Notifications\<close>

record JobNotification =
  jn_Event :: bytes
  jn_Job :: bytes
  jn_Name :: bytes
  jn_JobState :: job_state
  jn_Run :: "nat option"
  jn_State :: "run_state option"
  jn_ExitCode :: "int option"

definition run_finished :: "jobRecord \<Rightarrow> nat \<Rightarrow> JobRun \<Rightarrow> JobNotification" where
  "run_finished r n run = \<lparr>jn_Event = ''run.finished'', jn_Job = jb_ID r, jn_Name = js_Name (jb_Spec r), jn_JobState = jb_State r,
     jn_Run = Some n, jn_State = Some (jr_State run), jn_ExitCode = jr_ExitCode run\<rparr>"

definition job_finished :: "jobRecord \<Rightarrow> JobNotification" where
  "job_finished r = \<lparr>jn_Event = ''job.finished'', jn_Job = jb_ID r, jn_Name = js_Name (jb_Spec r), jn_JobState = jb_State r,
     jn_Run = None, jn_State = None, jn_ExitCode = None\<rparr>"

text \<open>How often \<open>notify\<close> posts, \<open>answers\<close> being the statuses in turn, None no answer.\<close>

fun notify_posts :: "nat \<Rightarrow> nat option list \<Rightarrow> nat" where
  "notify_posts 0 answers = 0"
| "notify_posts (Suc k) [] = 0"
| "notify_posts (Suc k) (a # answers) = Suc (case a of None \<Rightarrow> notify_posts k answers | Some st \<Rightarrow> if st < 300 then 0 else notify_posts k answers)"

definition notify :: "jobRecord \<Rightarrow> nat option list \<Rightarrow> nat" where
  "notify r answers = (if js_Notify (jb_Spec r) = [] then 0 else notify_posts 3 answers)"

section \<open>Specs that are accepted\<close>

definition counts_ok :: "JobSpec \<Rightarrow> bool" where
  "counts_ok s \<longleftrightarrow> 1 \<le> js_Completions s \<and> js_Completions s \<le> maxJobRuns \<and> 1 \<le> js_Parallelism s \<and> js_Parallelism s \<le> maxJobParallelism \<and>
     0 \<le> js_Retries s \<and> js_Retries s \<le> maxJobRetries \<and> 1 \<le> js_TimeoutSecs s \<and> (js_Prompts s \<noteq> [] \<longrightarrow> js_Completions s = int (length (js_Prompts s)))"

lemma fill_counts_ok:
  assumes "fill_counts s = Inr s1"
  shows "counts_ok s1" "js_Command s1 = js_Command s" "js_Agent s1 = js_Agent s" "js_Prompt s1 = js_Prompt s" "js_Prompts s1 = js_Prompts s"
    "js_Env s1 = js_Env s"
  using assms by (auto simp: fill_counts_def counts_ok_def Let_def maxJobRuns_def maxJobParallelism_def maxJobRetries_def Suc_le_eq split: if_splits)

lemma checkJobSpec_Inr:
  assumes "checkJobSpec e p s = Inr s1"
  shows "check_work e s = None" "fill_counts s = Inr s1"
  using assms unfolding checkJobSpec_def by (auto split: if_splits sum.splits simp: and_then_Inr)

text \<open>An accepted job never lacks what a run of it is made from.\<close>

lemma accepted_job_can_run:
  assumes "checkJobSpec e p s = Inr s1" "jb_Spec r = s1\<lparr>js_Env := []\<rparr>" "n < nat (js_Completions s1)"
  shows "\<exists>req argv cwd. runRequest (jx_boot e) fleet r n env secrets = Some (req, argv, cwd) \<and>
    (js_Agent s1 = [] \<longrightarrow> argv = js_Command s1 \<and> argv \<noteq> [] \<and> argv ! 0 \<noteq> []) \<and> (js_Prompts s1 \<noteq> [] \<longrightarrow> n < length (js_Prompts s1))"
proof -
  note c = checkJobSpec_Inr [OF assms(1)]
  note f = fill_counts_ok [OF c(2)]
  have "js_Prompts s1 \<noteq> [] \<Longrightarrow> n < length (js_Prompts s1)" using f(1) assms(3) by (simp add: counts_ok_def)
  then show ?thesis
    using c(1) assms(2) by (auto simp: check_work_def runRequest_def Let_def f split: if_splits option.splits)
qed

text \<open>A timeout the check means to refuse can pass it: the product of its seconds wraps, and the deadline then lies before the start.\<close>

lemma wrapped_timeout_accepted:
  assumes "s = \<lparr>js_Name = [], js_Image = [], js_Labels = [], js_Command = [''true''], js_Agent = [], js_Prompt = [], js_Prompts = [], js_Parallelism = 0,
    js_Completions = 0, js_Retries = 0, js_TimeoutSecs = 9223372037, js_Env = [], js_Secrets = [], js_Network = None, js_Resources = None,
    js_FromSnapshot = [], js_Keep = None, js_Notify = []\<rparr>"
  shows "\<exists>s1. checkJobSpec e p s = Inr s1 \<and> js_TimeoutSecs s1 = 9223372037 \<and> run_deadline t (js_TimeoutSecs s1) < t"
  unfolding assms
  by (simp add: checkJobSpec_def ValidateLabels_def check_work_def fill_counts_def i64_def maxJobTimeout_def maxJobRuns_def
      maxJobParallelism_def maxJobRetries_def negative_job_def check_job_secrets_def parseSecretRefs_def check_keep_def applyGroups_def run_deadline_def)

text \<open>One that fits the clock is at most a week.\<close>

lemma timeout_within_week:
  assumes "fill_counts s = Inr s1" "js_TimeoutSecs s * 1000000000 < 2 ^ 63"
  shows "js_TimeoutSecs s1 \<le> 7 * 24 * 3600" "run_deadline t (js_TimeoutSecs s1) = t + js_TimeoutSecs s1 * 1000000000"
proof -
  have "0 \<le> js_TimeoutSecs s" using assms(1) by (auto simp: fill_counts_def Let_def split: if_splits)
  then have "i64 (js_TimeoutSecs s * 1000000000) = js_TimeoutSecs s * 1000000000" using assms(2) by (intro i64_id) (simp add: in_i64_def)
  then have le: "js_TimeoutSecs s \<le> 7 * 24 * 3600" using assms(1) by (auto simp: fill_counts_def Let_def maxJobTimeout_def split: if_splits)
  have s1: "js_TimeoutSecs s1 = (if js_TimeoutSecs s = 0 then 3600 else js_TimeoutSecs s)" using assms(1) by (auto simp: fill_counts_def Let_def split: if_splits)
  then show "js_TimeoutSecs s1 \<le> 7 * 24 * 3600" using le by simp
  then show "run_deadline t (js_TimeoutSecs s1) = t + js_TimeoutSecs s1 * 1000000000"
    using s1 \<open>0 \<le> js_TimeoutSecs s\<close> by (simp add: run_deadline_def i64_id in_i64_def)
qed

section \<open>Environments\<close>

text \<open>A sealer that opens what it sealed, and JSON that reads back.\<close>

definition good_sealer :: "sealer \<Rightarrow> bool" where
  "good_sealer k \<longleftrightarrow> (\<forall>b ad. sl_seal k b ad \<noteq> [] \<and> sl_open k (sl_seal k b ad) ad = Some b) \<and> (\<forall>env. sl_Unmarshal k (sl_Marshal k env) = Some env)"

lemma names_Nil [simp]: "sort (map fst env) = [] \<longleftrightarrow> env = []" for env :: "(bytes \<times> 'a) list"
  by (metis length_0_conv length_map length_sort)

lemma job_env_round_trip:
  assumes "case key of None \<Rightarrow> mem = Some (js_Env s) | Some k \<Rightarrow> good_sealer k"
  shows "jobEnv key mem (new_job key jid p s now) = Inr (js_Env s)"
  using assms by (cases "js_Env s = []") (auto simp: jobEnv_def new_job_def good_sealer_def split: option.splits)

lemma sealed_env_outlives_restart:
  assumes "good_sealer k"
  shows "jobEnv (Some k) None (new_job (Some k) jid p s now) = Inr (js_Env s)"
  using job_env_round_trip [where key = "Some k" and mem = None] assms by simp

lemma unsealed_env_lost:
  assumes "js_Env s \<noteq> []"
  shows "jobEnv key None (new_job None jid p s now) = Inl EnvLost"
  using assms by (simp add: jobEnv_def new_job_def)

lemma no_env_value_stored: "js_Env (jb_Spec (new_job key jid p s now)) = []"
  by (simp add: new_job_def)

text \<open>Secrets win over the job's own variables, those over the identity git is given.\<close>

lemma map_of_over: "map_of (over xs ys) k = (case map_of ys k of None \<Rightarrow> map_of xs k | Some v \<Rightarrow> Some v)"
proof -
  have "map_of (filter (\<lambda>(k, _). k \<notin> A) xs) k = (if k \<in> A then None else map_of xs k)" for A :: "bytes set"
    by (induction xs) auto
  moreover have "k \<notin> fst ` set ys \<longleftrightarrow> map_of ys k = None" by (simp add: map_of_eq_None_iff)
  ultimately show ?thesis by (cases "map_of ys k") (simp_all add: over_def map_add_def split: option.split)
qed

section \<open>Owners\<close>

lemma userActive_iff:
  assumes "keysOf user = Some ks" "\<And>t u ut. role t u ut \<noteq> None"
  shows "userActive role keysOf now user tenant = Some (\<exists>k \<in> set ks. Active now k \<and> keyActsIn role k tenant = Some True)"
proof -
  have ans: "keyActsIn role k tenant = None \<Longrightarrow> False" for k using assms(2) [of tenant "k_User k" "k_Tenant k"] by (auto simp: keyActsIn_def split: if_splits)
  then have "some_key_acts role now tenant ks = Some (\<exists>k \<in> set ks. Active now k \<and> keyActsIn role k tenant = Some True)"
    by (induction ks) (auto split: option.split bool.split dest: sym)
  then show ?thesis using assms(1) by (simp add: userActive_def)
qed

section \<open>What is kept of a run\<close>

lemma capped_Write_take:
  assumes "cb_buf c = take m b" "cb_cut c \<longleftrightarrow> m < length b"
  shows "cb_buf (capped_Write m p c) = take m (b @ p)" "cb_cut (capped_Write m p c) \<longleftrightarrow> m < length (b @ p)"
  using assms by (auto simp: capped_Write_def Let_def max_def min_def nat_diff_distrib)

definition stream_of :: "(out_event \<Rightarrow> bytes option) \<Rightarrow> out_event list \<Rightarrow> bytes" where
  "stream_of pick evs = concat (List.map_filter pick evs)"

definition on_stdout :: "out_event \<Rightarrow> bytes option" where
  "on_stdout ev = (case ev of Stdout d \<Rightarrow> Some d | _ \<Rightarrow> None)"

definition on_stderr :: "out_event \<Rightarrow> bytes option" where
  "on_stderr ev = (case ev of Stderr d \<Rightarrow> Some d | _ \<Rightarrow> None)"

lemma stream_of_snoc: "stream_of pick (evs @ [ev]) = stream_of pick evs @ (case pick ev of None \<Rightarrow> [] | Some d \<Rightarrow> d)"
  by (simp add: stream_of_def List.map_filter_def split: option.split)

lemma follow_snoc: "follow_events (evs @ [ev]) = take_event (follow_events evs) ev"
  by (simp add: follow_events_def)

text \<open>Each stream is kept to its first mebibyte, and cut off only where there was more.\<close>

lemma follow_events_streams:
  "cb_buf (fo_out (follow_events evs)) = take maxKeptOutput (stream_of on_stdout evs) \<and>
   (cb_cut (fo_out (follow_events evs)) \<longleftrightarrow> maxKeptOutput < length (stream_of on_stdout evs)) \<and>
   cb_buf (fo_err (follow_events evs)) = take maxKeptOutput (stream_of on_stderr evs) \<and>
   (cb_cut (fo_err (follow_events evs)) \<longleftrightarrow> maxKeptOutput < length (stream_of on_stderr evs))"
proof (induction evs rule: rev_induct)
  case Nil
  show ?case by (simp add: follow_events_def empty_capped_def stream_of_def List.map_filter_def)
next
  case (snoc ev evs)
  show ?case
    using snoc capped_Write_take [of _ maxKeptOutput]
    by (cases ev) (simp_all add: follow_snoc stream_of_snoc on_stdout_def on_stderr_def)
qed

lemma kept_file_prefix:
  assumes "keep_file path ans wrote = (f, Some data)"
  shows "\<exists>b. ans = Body b True \<and> data = take maxKeptFile b \<and> jf_Error f = [] \<and> (jf_Truncated f \<longleftrightarrow> maxKeptFile < length b) \<and> jf_Size f = int (length data)"
  using assms by (auto simp: keep_file_def Let_def min_def split: file_answer.splits if_splits)

text \<open>
  The moment the connection first broke is never forgotten: a run whose node answers again is given up at the next break, if that is more than
  two minutes later.
\<close>

lemma second_break_loses_run:
  assumes "fo_code (follow_events evs) = None" "t2 - t1 > lostAfter"
  shows "watch_loop secs None [\<lparr>wr_events = evs1, wr_gone = False, wr_ctx = Ctx_Live, wr_past = False, wr_now = t1\<rparr>,
      \<lparr>wr_events = evs, wr_gone = False, wr_ctx = Ctx_Live, wr_past = False, wr_now = t2\<rparr>] =
    (case fo_code (follow_events evs1) of None \<Rightarrow> Some (Watch_ends (failed ''lost the run's node'')) | Some c \<Rightarrow> Some (Watch_keeps (exit_outcome c) (follow_events evs1)))"
  using assms by (simp add: watch_round_def stopping_def Let_def split: option.split)

section \<open>The end of a job\<close>

lemma finish_run_final [simp]: "runFinal (jr_State (finish_run err now run))"
  by (simp add: finish_run_def runFinal_def)

lemma finish_run_keeps [simp]: "runFinal (jr_State run) \<Longrightarrow> finish_run err now run = run"
  by (simp add: finish_run_def)

lemma finishJob_simps [simp]:
  "jb_Runs (finishJob now r) = map (finish_run (jb_Error r) now) (jb_Runs r)" "jb_Spec (finishJob now r) = jb_Spec r"
  "jb_Cancelled (finishJob now r) = jb_Cancelled r" "jb_State (finishJob now r) \<noteq> JobRunning" "jb_Finished (finishJob now r) = Some now"
  "jb_Error (finishJob now r) = jb_Error r" "jb_ID (finishJob now r) = jb_ID r"
  by (simp_all add: finishJob_def Let_def)

lemma finishJob_state:
  "jb_State (finishJob now r) = JobSucceeded \<longleftrightarrow> (\<forall>run \<in> set (jb_Runs (finishJob now r)). jr_State run = RunSucceeded)"
  "jb_State (finishJob now r) = JobCancelled \<Longrightarrow> jb_Cancelled r"
  by (auto simp: finishJob_def Let_def list_ex_iff split: if_splits)

text \<open>A job is forgotten no earlier than its retention after it finished.\<close>

lemma unfinished_not_forgotten:
  assumes "distinct (map fst st)" "map_of st jid = Some r" "\<not> forget_due now retention r"
  shows "map_of (forgetOldJobs now retention removed wrote st) jid = Some r"
proof -
  have one: "r' = r" if "(jid, r') \<in> set st" for r' using assms(1,2) that by (simp add: map_of_eq_Some_iff eq_key_imp_eq_value)
  have "map_of (foldl (\<lambda>acc (jid, r). if forget_due now retention r \<and> removed jid \<and> wrote jid then ForgetJob jid acc else acc) acc xs) jid = Some r"
    if "set xs \<subseteq> set st" "map_of acc jid = Some r" for xs acc
    using that
  proof (induction xs arbitrary: acc)
    case (Cons x xs)
    obtain j q where x: "x = (j, q)" by (cases x)
    let ?acc = "if forget_due now retention q \<and> removed j \<and> wrote j then ForgetJob j acc else acc"
    have "map_of ?acc jid = Some r"
      using Cons.prems one assms(3) x by (cases "j = jid") (auto simp: ForgetJob_def delete_conv)
    then show ?case using Cons.IH [of ?acc] Cons.prems(1) x by simp
  qed simp
  then show ?thesis using assms(2) by (simp add: forgetOldJobs_def)
qed

end
