(* ===== verification/Gateway_Runs.thy ===== *)
theory Gateway_Runs
  imports Gateway_Jobs
begin

text \<open>
  A job under its controller (\<open>runJob\<close>, \<open>runOne\<close> and \<open>attempt\<close> of \<open>jobrun.go\<close>), its API, its nodes and restarts of the gateway, in every order. The
  controller hands runs out to one goroutine each, at most \<open>Parallelism\<close> at a time; a goroutine takes one step between two writes of the
  store or two answers of a node, and the API, revocations and restarts come in between.
\<close>

subsection \<open>One goroutine\<close>

text \<open>
  Where a goroutine of \<open>runOne\<close> is: about to read its run, waiting for a create, before the start of its command, following it (with when the node
  was first lost), or about to record what the attempt came to.
\<close>

datatype phase = Looping | Making | Placed bytes | Watching bytes "int option" | Returned outcome

text \<open>What one step of it does: the write of its run, where it goes on (None is its end), the sandbox it has made and the one it has ended, and whether it
  revokes the job.\<close>

record act =
  a_write :: "JobRun \<Rightarrow> JobRun"
  a_next :: "phase option"
  a_born :: "bytes option"
  a_down :: "bytes option"
  a_revokes :: bool

definition goes :: "phase option \<Rightarrow> act" where
  "goes ph = \<lparr>a_write = id, a_next = ph, a_born = None, a_down = None, a_revokes = False\<rparr>"

definition down :: "bool \<Rightarrow> bytes \<Rightarrow> act \<Rightarrow> act" where
  "down ended sid a = a\<lparr>a_down := (if ended then Some sid else None)\<rparr>"

fun begin_act :: "bool \<Rightarrow> begun \<Rightarrow> act" where
  "begin_act ended (TakesDown sid out) = down ended sid (goes (Some (Returned out)))"
| "begin_act ended (Comes out) = goes (Some (Returned out))"
| "begin_act ended (Follows sid pid t) = goes (Some (Watching sid None))"
| "begin_act ended Interrupted = goes None"
| "begin_act ended OwnerGone = (goes (Some (Returned (outcome_of RunCancelled reasonOwnerRevoked))))\<lparr>a_revokes := True\<rparr>"
| "begin_act ended (Makes env secrets) = goes (Some Making)"

fun failed_act :: "create_next \<Rightarrow> act" where
  "failed_act Stop_interrupted = goes None"
| "failed_act (Comes_to out) = goes (Some (Returned out))"
| "failed_act Tries_again = goes (Some Making)"

text \<open>A sandbox was made: the run is recorded and its node looked up.\<close>

definition made_act :: "bool \<Rightarrow> bool \<Rightarrow> bool \<Rightarrow> bytes \<Rightarrow> act" where
  "made_act wrote node ended sid =
    (if \<not> wrote then (down ended sid (goes (Some (Returned (failed ''recording the run failed'')))))\<lparr>a_born := Some sid\<rparr>
     else (goes (Some (if node then Placed sid else Returned (failed ''the run's node is not answering''))))\<lparr>a_write := record_made sid, a_born := Some sid\<rparr>)"

definition started_act :: "bool \<Rightarrow> bool \<Rightarrow> bytes \<Rightarrow> int \<Rightarrow> int \<Rightarrow> act" where
  "started_act wrote ended sid pid t =
    (if wrote then (goes (Some (Watching sid None)))\<lparr>a_write := record_started pid t\<rparr>
     else down ended sid (goes (Some (Returned (failed ''recording the run failed'')))))"

definition unstarted_act :: "bool \<Rightarrow> bytes \<Rightarrow> outcome option \<Rightarrow> act" where
  "unstarted_act ended sid o' = (case o' of None \<Rightarrow> goes None | Some out \<Rightarrow> down ended sid (goes (Some (Returned out))))"

fun watched_act :: "bool \<Rightarrow> JobSpec \<Rightarrow> (bytes \<Rightarrow> file_answer) \<Rightarrow> (nat \<Rightarrow> bool) \<Rightarrow> bytes \<Rightarrow> int option + watched \<Rightarrow> act" where
  "watched_act ended s ans kept sid (Inl lost) = goes (Some (Watching sid lost))"
| "watched_act ended s ans kept sid (Inr Watch_interrupted) = goes None"
| "watched_act ended s ans kept sid (Inr (Watch_ends out)) = down ended sid (goes (Some (Returned out)))"
| "watched_act ended s ans kept sid (Inr (Watch_keeps out f)) = down ended sid (goes (Some (Returned (kept_outcome s ans kept out f))))"

definition recorded_act :: "JobSpec \<Rightarrow> bool \<Rightarrow> outcome \<Rightarrow> int \<Rightarrow> JobRun \<Rightarrow> act" where
  "recorded_act s alive out now run =
    (goes (if jr_State (record_attempt s alive out now run) = RunQueued then Some Looping else None))\<lparr>a_write := record_attempt s alive out now\<rparr>"

text \<open>
  The steps of a goroutine with run \<open>run\<close> under context \<open>x\<close>. \<open>faults\<close> lets the store and the nodes fail: a read or a write that is lost, a
  node that is not found though the sandbox is there, a create whose answer is lost although the sandbox was made, a sandbox not ended. \<open>sids\<close> are the sandboxes that run, \<open>old\<close> those ever made.
\<close>

inductive moves :: "bool \<Rightarrow> JobSpec \<Rightarrow> job_ctx \<Rightarrow> bytes set \<Rightarrow> bytes set \<Rightarrow> JobRun \<Rightarrow> phase \<Rightarrow> act \<Rightarrow> bool" for faults s x sids old run where
  unread: "faults \<Longrightarrow> moves faults s x sids old run Looping (goes None)"
| begins: "node \<or> jr_Sandbox run \<notin> sids \<or> faults \<Longrightarrow> active \<noteq> None \<or> faults \<Longrightarrow> ended \<or> faults \<Longrightarrow>
    moves faults s x sids old run Looping (begin_act ended (attempt_begins text x node active env secrets run))"
| makes: "sid \<notin> old \<Longrightarrow> sid \<noteq> [] \<Longrightarrow> wrote \<or> faults \<Longrightarrow> node \<or> faults \<Longrightarrow> ended \<or> faults \<Longrightarrow> moves faults s x sids old run Making (made_act wrote node ended sid)"
| makes_none: "moves faults s x sids old run Making (failed_act (create_failed x f msg))"
| makes_unheard: "faults \<Longrightarrow> sid \<notin> old \<Longrightarrow> moves faults s x sids old run Making ((failed_act (create_failed x f msg))\<lparr>a_born := Some sid\<rparr>)"
| starts: "wrote \<or> faults \<Longrightarrow> ended \<or> faults \<Longrightarrow> moves faults s x sids old run (Placed sid) (started_act wrote ended sid pid t)"
| starts_not: "ended \<or> faults \<Longrightarrow> moves faults s x sids old run (Placed sid) (unstarted_act ended sid (start_failed x msg))"
| watches: "wr_ctx w = x \<Longrightarrow> ended \<or> faults \<Longrightarrow>
    moves faults s x sids old run (Watching sid lost) (watched_act ended s ans kept sid (watch_round (js_TimeoutSecs s) lost w))"
| records: "moves faults s x sids old run (Returned out) (recorded_act s (x = Ctx_Live) out now run)"
| unrecorded: "faults \<Longrightarrow> moves faults s x sids old run (Returned out) (goes None)"

subsection \<open>The machine\<close>

record controller =
  k_ctx :: job_ctx
  k_pending :: "nat list"
  k_active :: "nat \<Rightarrow> phase option"

text \<open>\<open>g_job\<close> is the store's record; \<open>g_live\<close> are the sandboxes made for the job that run, \<open>g_made\<close> which run each was made for.\<close>

record jobs =
  g_job :: jobRecord
  g_ctl :: "controller option"
  g_live :: "bytes set"
  g_made :: "bytes \<Rightarrow> nat option"

abbreviation runs :: "jobs \<Rightarrow> JobRun list" where
  "runs c \<equiv> jb_Runs (g_job c)"

abbreviation retries :: "jobs \<Rightarrow> int" where
  "retries c \<equiv> js_Retries (jb_Spec (g_job c))"

abbreviation parallelism :: "jobs \<Rightarrow> nat" where
  "parallelism c \<equiv> nat (js_Parallelism (jb_Spec (g_job c)))"

text \<open>\<open>startJob\<close> and the head of \<open>runJob\<close>; \<open>read\<close> is whether \<open>startJob\<close> could read the record.\<close>

definition start_job :: "bool \<Rightarrow> jobRecord \<Rightarrow> controller option" where
  "start_job rd j = (if jb_State j \<noteq> JobRunning then None
     else Some \<lparr>k_ctx = start_ctx (if rd then Some j else None), k_pending = pending_runs j, k_active = (\<lambda>_. None)\<rparr>)"

definition write_run :: "nat \<Rightarrow> (JobRun \<Rightarrow> JobRun) \<Rightarrow> jobRecord \<Rightarrow> jobRecord" where
  "write_run n f j = (case change_run n f j of None \<Rightarrow> j | Some j1 \<Rightarrow> j1)"

definition end_ctx :: "job_ctx \<Rightarrow> controller \<Rightarrow> controller" where
  "end_ctx x k = (if k_ctx k = Ctx_Live then k\<lparr>k_ctx := x\<rparr> else k)"

text \<open>A goroutine's step taken; \<open>wrote\<close> is whether the revocation it makes could be recorded.\<close>

definition perform :: "bool \<Rightarrow> nat \<Rightarrow> act \<Rightarrow> controller \<Rightarrow> jobs \<Rightarrow> jobs" where
  "perform wrote n a k c =
    (let j = write_run n (a_write a) (g_job c); k1 = k\<lparr>k_active := (k_active k)(n := a_next a)\<rparr>;
         up = (case a_born a of None \<Rightarrow> g_live c | Some sid \<Rightarrow> insert sid (g_live c))
     in c\<lparr>g_job := (if a_revokes a \<and> wrote then mark_revoked j else j), g_ctl := Some (if a_revokes a then end_ctx Ctx_Revoked k1 else k1),
          g_live := (case a_down a of None \<Rightarrow> up | Some sid \<Rightarrow> up - {sid}),
          g_made := (case a_born a of None \<Rightarrow> g_made c | Some sid \<Rightarrow> (g_made c)(sid \<mapsto> n))\<rparr>)"

definition may_end :: "bool \<Rightarrow> jobRecord \<Rightarrow> job_ctx \<Rightarrow> bool" where
  "may_end faults j x \<longleftrightarrow> x = Ctx_Stopping \<or> (x = Ctx_Cancelled \<and> jb_Cancelled j) \<or> (x = Ctx_Revoked \<and> (jb_Cancelled j \<or> faults))"

text \<open>
  The select of \<open>runJob\<close> takes either of its cases when both are ready, so a context that has ended may or may not stop the handing out. \<open>rush\<close> lets
  it stop while runs under way are still to be handed out. \<open>restarts\<close> is also a gateway that dies; \<open>dies_creating\<close> one that dies before a new
  sandbox is recorded.
\<close>

inductive jstep :: "bool \<Rightarrow> bool \<Rightarrow> jobs \<Rightarrow> jobs \<Rightarrow> bool" for faults rush where
  hands_out: "g_ctl c = Some k \<Longrightarrow> k_pending k = n # ns \<Longrightarrow> card (dom (k_active k)) < parallelism c \<Longrightarrow>
    jstep faults rush c (c\<lparr>g_ctl := Some (k\<lparr>k_pending := ns, k_active := (k_active k)(n \<mapsto> Looping)\<rparr>)\<rparr>)"
| breaks: "g_ctl c = Some k \<Longrightarrow> k_ctx k \<noteq> Ctx_Live \<Longrightarrow>
    rush \<or> k_ctx k = Ctx_Stopping \<or> (\<forall>n \<in> set (k_pending k). jr_State (runs c ! n) \<noteq> RunRunning) \<Longrightarrow>
    jstep faults rush c (c\<lparr>g_ctl := Some (k\<lparr>k_pending := []\<rparr>)\<rparr>)"
| works: "g_ctl c = Some k \<Longrightarrow> k_active k n = Some ph \<Longrightarrow> moves faults (jb_Spec (g_job c)) (k_ctx k) (g_live c) (dom (g_made c)) (runs c ! n) ph a \<Longrightarrow>
    wrote \<or> faults \<Longrightarrow> jstep faults rush c (perform wrote n a k c)"
| finishes: "g_ctl c = Some k \<Longrightarrow> k_pending k = [] \<Longrightarrow> k_active k = (\<lambda>_. None) \<Longrightarrow> k_ctx k \<noteq> Ctx_Stopping \<Longrightarrow> wrote \<or> faults \<Longrightarrow>
    jstep faults rush c (c\<lparr>g_job := (if wrote then finishJob now (g_job c) else g_job c), g_ctl := None\<rparr>)"
| gives_up: "g_ctl c = Some k \<Longrightarrow> k_pending k = [] \<Longrightarrow> k_active k = (\<lambda>_. None) \<Longrightarrow> k_ctx k = Ctx_Stopping \<Longrightarrow> jstep faults rush c (c\<lparr>g_ctl := None\<rparr>)"
| cancels: "jstep faults rush c (c\<lparr>g_job := mark_cancelled (g_job c)\<rparr>)"
| revokes: "jstep faults rush c (c\<lparr>g_job := mark_revoked (g_job c)\<rparr>)"
| ctx_ends: "g_ctl c = Some k \<Longrightarrow> may_end faults (g_job c) x \<Longrightarrow> jstep faults rush c (c\<lparr>g_ctl := Some (end_ctx x k)\<rparr>)"
| restarts: "rd \<or> faults \<Longrightarrow> jstep faults rush c (c\<lparr>g_ctl := start_job rd (g_job c)\<rparr>)"
| starts_none: "faults \<Longrightarrow> jstep faults rush c (c\<lparr>g_ctl := None\<rparr>)"
| dies_creating: "g_ctl c = Some k \<Longrightarrow> k_active k n = Some Making \<Longrightarrow> sid \<notin> dom (g_made c) \<Longrightarrow> faults \<Longrightarrow>
    jstep faults rush c (c\<lparr>g_ctl := start_job True (g_job c), g_live := insert sid (g_live c), g_made := (g_made c)(sid \<mapsto> n)\<rparr>)"
| stops: "jstep faults rush c (c\<lparr>g_live := g_live c - {sid}\<rparr>)"

text \<open>A job as its submission leaves it.\<close>

definition jinit :: "jobs \<Rightarrow> bool" where
  "jinit c \<longleftrightarrow> (\<exists>e key p s jid now. submitJob e key p s jid True True now = Inr (g_job c)) \<and> g_ctl c = start_job True (g_job c) \<and>
     g_live c = {} \<and> g_made c = (\<lambda>_. None)"

section \<open>Records that stay consistent\<close>

definition run_ok :: "int \<Rightarrow> nat \<Rightarrow> JobRun \<Rightarrow> bool" where
  "run_ok ret i run \<longleftrightarrow> jr_N run = i \<and> jr_Attempts run \<le> ret + 1 \<and> (jr_State run = RunQueued \<longrightarrow> jr_Attempts run \<le> ret) \<and>
     (jr_State run = RunRunning \<longrightarrow> jr_Sandbox run \<noteq> [])"

definition job_ok :: "jobRecord \<Rightarrow> bool" where
  "job_ok j \<longleftrightarrow> counts_ok (jb_Spec j) \<and> (\<forall>i < length (jb_Runs j). run_ok (js_Retries (jb_Spec j)) i (jb_Runs j ! i))"

definition end_ok :: "jobRecord \<Rightarrow> bool" where
  "end_ok j \<longleftrightarrow> jb_State j \<noteq> JobRunning \<longrightarrow> (\<forall>run \<in> set (jb_Runs j). runFinal (jr_State run)) \<and> jb_Finished j \<noteq> None \<and>
     (jb_State j = JobSucceeded \<longleftrightarrow> (\<forall>run \<in> set (jb_Runs j). jr_State run = RunSucceeded)) \<and> (jb_State j = JobCancelled \<longrightarrow> jb_Cancelled j)"

fun phase_ok :: "JobRun \<Rightarrow> phase \<Rightarrow> bool" where
  "phase_ok run Looping \<longleftrightarrow> True"
| "phase_ok run Making \<longleftrightarrow> jr_State run = RunQueued"
| "phase_ok run (Placed sid) \<longleftrightarrow> jr_State run = RunRunning \<and> jr_Sandbox run = sid"
| "phase_ok run (Watching sid lost) \<longleftrightarrow> jr_State run = RunRunning \<and> jr_Sandbox run = sid"
| "phase_ok run (Returned out) \<longleftrightarrow> runFinal (oc_state out) \<and> (oc_counted out \<longrightarrow> jr_State run = RunQueued)"

definition ctl_ok :: "jobRecord \<Rightarrow> controller \<Rightarrow> bool" where
  "ctl_ok j k \<longleftrightarrow> jb_State j = JobRunning \<and> distinct (k_pending k) \<and> set (k_pending k) \<inter> dom (k_active k) = {} \<and> finite (dom (k_active k)) \<and>
     (\<forall>n \<in> set (k_pending k) \<union> dom (k_active k). n < length (jb_Runs j) \<and> \<not> runFinal (jr_State (jb_Runs j ! n))) \<and>
     (\<forall>n ph. k_active k n = Some ph \<longrightarrow> phase_ok (jb_Runs j ! n) ph)"

definition jinv :: "jobs \<Rightarrow> bool" where
  "jinv c \<longleftrightarrow> job_ok (g_job c) \<and> end_ok (g_job c) \<and> (case g_ctl c of None \<Rightarrow> True | Some k \<Rightarrow> ctl_ok (g_job c) k)"

lemma runFinal_simps [simp]:
  "\<not> runFinal RunQueued" "\<not> runFinal RunRunning" "runFinal RunSucceeded" "runFinal RunFailed" "runFinal RunTimedOut" "runFinal RunCancelled"
  by (simp_all add: runFinal_def)

lemma not_final: "\<not> runFinal st \<longleftrightarrow> st = RunQueued \<or> st = RunRunning"
  by (cases st) auto

lemma write_run_simps [simp]:
  "jb_Spec (write_run n f j) = jb_Spec j" "jb_State (write_run n f j) = jb_State j" "jb_Cancelled (write_run n f j) = jb_Cancelled j"
  "jb_Error (write_run n f j) = jb_Error j" "jb_Finished (write_run n f j) = jb_Finished j" "length (jb_Runs (write_run n f j)) = length (jb_Runs j)"
  "write_run n id j = j"
  by (simp_all add: write_run_def change_run_def)

lemma write_run_nth: "i < length (jb_Runs j) \<Longrightarrow> jb_Runs (write_run n f j) ! i = (if i = n then f (jb_Runs j ! i) else jb_Runs j ! i)"
  by (simp add: write_run_def change_run_def)

lemma mark_simps [simp]:
  "jb_Runs (mark_revoked j) = jb_Runs j" "jb_Spec (mark_revoked j) = jb_Spec j" "jb_State (mark_revoked j) = jb_State j"
  "jb_Finished (mark_revoked j) = jb_Finished j" "jb_Runs (mark_cancelled j) = jb_Runs j" "jb_Spec (mark_cancelled j) = jb_Spec j"
  "jb_State (mark_cancelled j) = jb_State j" "jb_Finished (mark_cancelled j) = jb_Finished j" "jb_Cancelled (mark_cancelled j)"
  "jb_Cancelled j \<Longrightarrow> jb_Cancelled (mark_revoked j)"
  by (simp_all add: mark_revoked_def mark_cancelled_def)

lemma end_ctx_simps [simp]: "k_pending (end_ctx x k) = k_pending k" "k_active (end_ctx x k) = k_active k"
  by (simp_all add: end_ctx_def)

text \<open>What every step of a goroutine keeps of its own run.\<close>

definition outcome_ok :: "JobRun \<Rightarrow> outcome \<Rightarrow> bool" where
  "outcome_ok run out \<longleftrightarrow> runFinal (oc_state out) \<and> (oc_counted out \<longrightarrow> jr_State run = RunQueued)"

lemma outcome_simps [simp]:
  "oc_counted (failed m) = False" "oc_state (failed m) = RunFailed" "oc_final (failed m) = False"
  "oc_counted (cancelledOutcome x) = False" "oc_state (cancelledOutcome x) = RunCancelled"
  "oc_counted (given_up m)" "oc_state (given_up m) = RunFailed"
  "oc_counted (outcome_of st m) = False" "oc_state (outcome_of st m) = st"
  "oc_counted (exit_outcome code) = False" "runFinal (oc_state (exit_outcome code))" "oc_state (exit_outcome code) \<noteq> RunCancelled"
  "oc_counted (timed_out secs) = False" "oc_state (timed_out secs) = RunTimedOut"
  "oc_counted (kept_outcome s ans kept out f) = oc_counted out" "oc_state (kept_outcome s ans kept out f) = oc_state out"
  by (simp_all add: failed_def cancelledOutcome_def given_up_def outcome_of_def exit_outcome_def timed_out_def kept_outcome_def)

lemma act_simps [simp]:
  "a_write (goes ph) = id" "a_next (goes ph) = ph" "a_born (goes ph) = None" "a_down (goes ph) = None" "a_revokes (goes ph) = False"
  "a_write (down ended sid a) = a_write a" "a_next (down ended sid a) = a_next a" "a_born (down ended sid a) = a_born a"
  "a_down (down ended sid a) = (if ended then Some sid else None)" "a_revokes (down ended sid a) = a_revokes a"
  by (simp_all add: goes_def down_def)

definition next_ok :: "int \<Rightarrow> nat \<Rightarrow> JobRun \<Rightarrow> act \<Rightarrow> bool" where
  "next_ok ret n run a \<longleftrightarrow> run_ok ret n (a_write a run) \<and>
     (case a_next a of None \<Rightarrow> True | Some ph \<Rightarrow> \<not> runFinal (jr_State (a_write a run)) \<and> phase_ok (a_write a run) ph)"

lemma begin_next_ok:
  assumes "run_ok ret n run" "\<not> runFinal (jr_State run)"
  shows "next_ok ret n run (begin_act ended (attempt_begins text x node active env secrets run))"
  using assms by (auto simp: attempt_begins_def next_ok_def not_final run_ok_def split: option.split bool.split sum.split)

lemma watched_next_ok:
  assumes "run_ok ret n run" "phase_ok run (Watching sid lost)"
  shows "next_ok ret n run (watched_act ended s ans kept sid (watch_round secs lost w))"
  using assms by (auto simp: watch_round_def next_ok_def Let_def split: option.split)

lemma recorded_next_ok:
  assumes "run_ok (js_Retries s) n run" "phase_ok run (Returned out)"
  shows "next_ok (js_Retries s) n run (recorded_act s alive out now run)"
  using assms by (auto simp: recorded_act_def next_ok_def run_ok_def record_attempt_def retries_again_def Let_def not_final)

lemma placing_next_ok:
  assumes "run_ok ret n run" "phase_ok run Making"
  shows "sid \<noteq> [] \<Longrightarrow> next_ok ret n run (made_act wrote node ended sid)" "next_ok ret n run (failed_act (create_failed x f msg))"
  using assms by (auto simp: next_ok_def made_act_def create_failed_def record_made_def run_ok_def)

lemma starting_next_ok:
  assumes "run_ok ret n run" "phase_ok run (Placed sid)"
  shows "next_ok ret n run (started_act wrote ended sid pid t)" "next_ok ret n run (unstarted_act ended sid (start_failed x msg))"
  using assms by (auto simp: next_ok_def started_act_def unstarted_act_def start_failed_def record_started_def run_ok_def)

lemma moves_next_ok:
  assumes "moves faults s x sids old run ph a" "run_ok (js_Retries s) n run" "\<not> runFinal (jr_State run)" "phase_ok run ph"
  shows "next_ok (js_Retries s) n run a"
  using assms(1)
proof cases
  case unread
  then show ?thesis using assms(2) by (simp add: next_ok_def)
next
  case unrecorded
  then show ?thesis using assms(2) by (simp add: next_ok_def)
next
  case begins
  then show ?thesis using begin_next_ok [OF assms(2,3)] by simp
next
  case (makes sid)
  then show ?thesis using placing_next_ok(1) [OF assms(2)] assms(4) by simp
next
  case makes_none
  then show ?thesis using placing_next_ok(2) [OF assms(2)] assms(4) by simp
next
  case (makes_unheard sid f msg)
  then show ?thesis using placing_next_ok(2) [OF assms(2), of x f msg] assms(4) by (auto simp: next_ok_def split: option.splits)
next
  case starts
  then show ?thesis using starting_next_ok(1) [OF assms(2)] assms(4) by simp
next
  case starts_not
  then show ?thesis using starting_next_ok(2) [OF assms(2)] assms(4) by simp
next
  case watches
  then show ?thesis using watched_next_ok [OF assms(2)] assms(4) by simp
next
  case records
  then show ?thesis using recorded_next_ok [OF assms(2)] assms(4) by simp
qed

section \<open>The invariant\<close>

lemma job_ok_write:
  assumes "job_ok j" "\<And>i. i = n \<Longrightarrow> i < length (jb_Runs j) \<Longrightarrow> run_ok (js_Retries (jb_Spec j)) i (f (jb_Runs j ! i))"
  shows "job_ok (write_run n f j)"
  using assms by (auto simp: job_ok_def write_run_nth)

lemma job_ok_mark [simp]: "job_ok (mark_revoked j) = job_ok j" "job_ok (mark_cancelled j) = job_ok j"
  by (simp_all add: job_ok_def)

lemma end_ok_mark: "end_ok j \<Longrightarrow> end_ok (mark_revoked j)" "end_ok j \<Longrightarrow> end_ok (mark_cancelled j)"
  by (auto simp: end_ok_def)

lemma ctl_ok_mark [simp]: "ctl_ok (mark_revoked j) k = ctl_ok j k" "ctl_ok (mark_cancelled j) k = ctl_ok j k"
  by (simp_all add: ctl_ok_def)

lemma ctl_ok_end_ctx [simp]: "ctl_ok j (end_ctx x k) = ctl_ok j k"
  by (simp add: ctl_ok_def)

lemma ctl_ok_write:
  assumes "ctl_ok j k" "k_active k n = Some ph" "next_ok ret n (jb_Runs j ! n) a"
  shows "ctl_ok (write_run n (a_write a) j) (k\<lparr>k_active := (k_active k)(n := a_next a)\<rparr>)"
proof -
  have n: "n < length (jb_Runs j)" "n \<notin> set (k_pending k)" using assms(1,2) by (auto simp: ctl_ok_def)
  have rest: "m < length (jb_Runs j)" "\<not> runFinal (jr_State (jb_Runs j ! m))" if "m \<in> set (k_pending k) \<union> dom (k_active k)" for m
    using assms(1) that by (auto simp: ctl_ok_def)
  show ?thesis
    unfolding ctl_ok_def
  proof (intro conjI ballI allI impI)
    fix m assume m: "m \<in> set (k_pending (k\<lparr>k_active := (k_active k)(n := a_next a)\<rparr>)) \<union> dom (k_active (k\<lparr>k_active := (k_active k)(n := a_next a)\<rparr>))"
    show "m < length (jb_Runs (write_run n (a_write a) j))" using m rest(1) n by (auto split: if_splits)
    show "\<not> runFinal (jr_State (jb_Runs (write_run n (a_write a) j) ! m))"
    proof (cases "m = n")
      case True
      then show ?thesis using m n assms(3) by (auto simp: write_run_nth next_ok_def split: if_splits option.splits)
    next
      case False
      then have "m \<in> set (k_pending k) \<union> dom (k_active k)" using m by (auto split: if_splits)
      then show ?thesis using rest [of m] False by (simp add: write_run_nth)
    qed
  next
    fix m p assume p: "k_active (k\<lparr>k_active := (k_active k)(n := a_next a)\<rparr>) m = Some p"
    show "phase_ok (jb_Runs (write_run n (a_write a) j) ! m) p"
    proof (cases "m = n")
      case True
      then show ?thesis using p n assms(3) by (simp add: write_run_nth next_ok_def)
    next
      case False
      then have "k_active k m = Some p" using p by simp
      then have "m < length (jb_Runs j)" "phase_ok (jb_Runs j ! m) p" using assms(1) by (auto simp: ctl_ok_def)
      then show ?thesis using False by (simp add: write_run_nth)
    qed
  qed (use assms(1) n in \<open>auto simp: ctl_ok_def split: if_splits\<close>)
qed

lemma jinv_perform:
  assumes "jinv c" "g_ctl c = Some k" "k_active k n = Some ph"
    "moves faults (jb_Spec (g_job c)) (k_ctx k) (g_live c) (dom (g_made c)) (runs c ! n) ph a"
  shows "jinv (perform wrote n a k c)"
proof -
  have k: "ctl_ok (g_job c) k" and j: "job_ok (g_job c)" "end_ok (g_job c)" using assms(1,2) by (auto simp: jinv_def)
  have n: "n < length (runs c)" "\<not> runFinal (jr_State (runs c ! n))" "phase_ok (runs c ! n) ph" using k assms(3) by (auto simp: ctl_ok_def)
  have r: "run_ok (retries c) n (runs c ! n)" using j(1) n(1) by (simp add: job_ok_def)
  have x: "next_ok (retries c) n (runs c ! n) a" by (rule moves_next_ok [OF assms(4) r n(2,3)])
  let ?j = "write_run n (a_write a) (g_job c)"
  have 1: "job_ok ?j" using x by (intro job_ok_write [OF j(1)]) (simp add: next_ok_def)
  have 2: "ctl_ok ?j (k\<lparr>k_active := (k_active k)(n := a_next a)\<rparr>)" by (rule ctl_ok_write [OF k assms(3) x])
  have 3: "end_ok ?j" using k by (simp add: end_ok_def ctl_ok_def)
  show ?thesis using 1 2 3 end_ok_mark(1) [OF 3] by (simp add: jinv_def perform_def Let_def)
qed

lemma pending_runs_ok:
  assumes "job_ok j"
  shows "distinct (pending_runs j)" "set (pending_runs j) = {i. i < length (jb_Runs j) \<and> \<not> runFinal (jr_State (jb_Runs j ! i))}"
proof -
  have N: "jr_N (jb_Runs j ! i) = i" if "i < length (jb_Runs j)" for i using assms that by (simp add: job_ok_def run_ok_def)
  have sel: "set (map jr_N (filter P (jb_Runs j))) = {i. i < length (jb_Runs j) \<and> P (jb_Runs j ! i)}" (is "?L = ?R") for P
  proof
    show "?L \<subseteq> ?R" using N by (auto simp: in_set_conv_nth)
    show "?R \<subseteq> ?L" using N by (auto intro!: image_eqI [where x = "jb_Runs j ! _"])
  qed
  have m: "map jr_N (jb_Runs j) = [0..<length (jb_Runs j)]" using N by (intro nth_equalityI) auto
  from m have d: "distinct (map jr_N (jb_Runs j))" by simp
  have "set (map jr_N (filter (\<lambda>run. jr_State run = RunRunning) (jb_Runs j))) \<inter> set (map jr_N (filter (\<lambda>run. jr_State run = RunQueued) (jb_Runs j))) = {}"
    unfolding sel by auto
  then show "distinct (pending_runs j)" unfolding pending_runs_def distinct_append using distinct_map_filter [OF d] by blast
  show "set (pending_runs j) = {i. i < length (jb_Runs j) \<and> \<not> runFinal (jr_State (jb_Runs j ! i))}"
    unfolding pending_runs_def set_append sel by (auto simp: not_final)
qed

lemma start_job_ok:
  assumes "job_ok j"
  shows "case start_job rd j of None \<Rightarrow> True | Some k \<Rightarrow> ctl_ok j k"
  using pending_runs_ok [OF assms] by (auto simp: start_job_def ctl_ok_def)

lemma finish_run_ok: "run_ok ret i run \<Longrightarrow> run_ok ret i (finish_run err now run)"
  by (auto simp: run_ok_def finish_run_def not_final)

lemma finishJob_ok:
  assumes "job_ok j"
  shows "job_ok (finishJob now j)" "end_ok (finishJob now j)"
  using assms finishJob_state [of now j] by (auto simp: job_ok_def end_ok_def finish_run_ok simp del: finishJob_simps(1)) (auto simp: finish_run_ok)

lemma jinv_step:
  assumes "jstep faults rush c c'" "jinv c"
  shows "jinv c'"
  using assms(1)
proof cases
  case (hands_out k n ns)
  have "ctl_ok (g_job c) (k\<lparr>k_pending := ns, k_active := (k_active k)(n \<mapsto> Looping)\<rparr>)"
    using assms(2) hands_out by (auto simp: jinv_def ctl_ok_def)
  then show ?thesis using assms(2) hands_out by (simp add: jinv_def)
next
  case (works k n ph a wrote)
  then show ?thesis using jinv_perform assms(2) by simp
next
  case finishes
  then show ?thesis using assms(2) by (auto simp: jinv_def finishJob_ok)
next
  case (restarts rd)
  then show ?thesis using assms(2) start_job_ok [of "g_job c" rd] by (auto simp: jinv_def split: option.splits)
next
  case dies_creating
  then show ?thesis using assms(2) start_job_ok [of "g_job c" True] by (auto simp: jinv_def split: option.splits)
qed (use assms(2) in \<open>auto simp: jinv_def ctl_ok_def end_ok_mark split: option.splits\<close>)

lemma submitted_job_ok:
  assumes "submitJob e key p s jid True True now = Inr j"
  shows "job_ok j" "jb_State j = JobRunning" "\<not> jb_Cancelled j" "\<forall>i < length (jb_Runs j). jb_Runs j ! i = queued_run i"
proof -
  obtain s1 where s1: "checkJobSpec e p s = Inr s1" and j: "j = new_job key jid p s1 now" using assms by (auto simp: submitJob_def)
  have "counts_ok s1" using checkJobSpec_Inr(2) [OF s1] by (rule fill_counts_ok)
  then show "job_ok j" by (auto simp: job_ok_def j new_job_def counts_ok_def run_ok_def queued_run_def)
  show "jb_State j = JobRunning" "\<not> jb_Cancelled j" "\<forall>i < length (jb_Runs j). jb_Runs j ! i = queued_run i" by (auto simp: j new_job_def)
qed

lemma jinv_init: "jinit c \<Longrightarrow> jinv c"
  using start_job_ok by (auto simp: jinit_def jinv_def end_ok_def submitted_job_ok)

interpretation job: step_invariant jinit "jstep faults rush" jinv
  by unfold_locales (auto intro: jinv_init jinv_step)

section \<open>What a goroutine's step does without faults\<close>

fun returned :: "phase \<Rightarrow> bool" where
  "returned (Returned out) = True"
| "returned ph = False"

definition live_after :: "act \<Rightarrow> bytes set \<Rightarrow> bytes set" where
  "live_after a sids = (let up = (case a_born a of None \<Rightarrow> sids | Some sid \<Rightarrow> insert sid sids) in case a_down a of None \<Rightarrow> up | Some sid \<Rightarrow> up - {sid})"

text \<open>The sandbox of a run that is not running, or whose attempt is over, is not there.\<close>

definition settled :: "JobRun \<Rightarrow> phase option \<Rightarrow> bool" where
  "settled run ph \<longleftrightarrow> jr_State run \<noteq> RunRunning \<or> (case ph of None \<Rightarrow> False | Some p \<Rightarrow> returned p)"

definition clean_act :: "job_ctx \<Rightarrow> bytes set \<Rightarrow> bytes set \<Rightarrow> JobRun \<Rightarrow> phase \<Rightarrow> act \<Rightarrow> bool" where
  "clean_act x sids old run ph a \<longleftrightarrow>
     (case a_born a of
        None \<Rightarrow> jr_Sandbox (a_write a run) = jr_Sandbox run \<and> jr_Attempts run \<le> jr_Attempts (a_write a run)
      | Some sid \<Rightarrow> ph = Making \<and> sid \<notin> old \<and> sid \<noteq> [] \<and> jr_Sandbox (a_write a run) = sid \<and> jr_Attempts (a_write a run) = jr_Attempts run + 1 \<and> a_down a = None) \<and>
     (jr_State (a_write a run) = RunRunning \<longrightarrow> jr_State run = RunRunning \<or> ph = Making) \<and>
     (a_next a = Some Making \<longrightarrow> ph = Making \<or> x = Ctx_Live) \<and>
     (a_next a = None \<longrightarrow> runFinal (jr_State (a_write a run)) \<or> x = Ctx_Stopping) \<and>
     ((settled run (Some ph) \<longrightarrow> jr_Sandbox run \<notin> sids) \<longrightarrow> settled (a_write a run) (a_next a) \<longrightarrow> jr_Sandbox (a_write a run) \<notin> live_after a sids) \<and>
     (case a_down a of None \<Rightarrow> True | Some sid \<Rightarrow> sid = jr_Sandbox run) \<and>
     (\<forall>out. a_next a = Some (Returned out) \<longrightarrow> oc_state out = RunCancelled \<longrightarrow> x \<in> {Ctx_Cancelled, Ctx_Revoked} \<or> a_revokes a) \<and>
     (jr_State (a_write a run) = RunCancelled \<longrightarrow> jr_State run = RunCancelled \<or> (\<exists>out. ph = Returned out \<and> oc_state out = RunCancelled))"

lemma stopping_simps [simp]: "fst (stopping x) \<longleftrightarrow> x = Ctx_Cancelled \<or> x = Ctx_Revoked" "snd (stopping x) \<longleftrightarrow> x = Ctx_Stopping"
  by (auto simp: stopping_def)

lemma ctx_live: "x \<noteq> Ctx_Stopping \<Longrightarrow> x \<noteq> Ctx_Cancelled \<Longrightarrow> x \<noteq> Ctx_Revoked \<Longrightarrow> x = Ctx_Live"
  by (cases x) auto

lemma begin_clean:
  assumes "run_ok ret n run" "\<not> runFinal (jr_State run)"
    "node \<or> jr_Sandbox run \<notin> sids" "active \<noteq> None"
  shows "clean_act x sids old run Looping (begin_act True (attempt_begins text x node active env secrets run))"
  using assms unfolding attempt_begins_def
  by (auto simp: clean_act_def settled_def live_after_def not_final run_ok_def intro: ctx_live split: option.splits bool.split sum.split)

lemma making_clean:
  assumes "phase_ok run Making"
  shows "sid \<notin> old \<Longrightarrow> sid \<noteq> [] \<Longrightarrow> clean_act x sids old run Making (made_act True True ended sid)"
    "clean_act x sids old run Making (failed_act (create_failed x f msg))"
  using assms by (auto simp: clean_act_def settled_def live_after_def made_act_def create_failed_def record_made_def)

lemma placed_clean:
  assumes "phase_ok run (Placed sid)"
  shows "clean_act x sids old run (Placed sid) (started_act True True sid pid t)"
    "clean_act x sids old run (Placed sid) (unstarted_act True sid (start_failed x msg))"
  using assms by (auto simp: clean_act_def settled_def live_after_def started_act_def unstarted_act_def start_failed_def record_started_def)

lemma watched_clean:
  assumes "phase_ok run (Watching sid lost)"
  shows "clean_act (wr_ctx w) sids old run (Watching sid lost) (watched_act True s ans kept sid (watch_round secs lost w))"
  using assms unfolding watch_round_def Let_def
  by (auto simp: clean_act_def settled_def live_after_def split: option.split)

lemma recorded_clean:
  assumes "phase_ok run (Returned out)"
  shows "clean_act x sids old run (Returned out) (recorded_act s alive out now run)"
  using assms by (auto simp: clean_act_def settled_def live_after_def recorded_act_def record_attempt_def retries_again_def Let_def not_final)

lemma moves_clean:
  assumes "moves False s x sids old run ph a" "run_ok (js_Retries s) n run" "\<not> runFinal (jr_State run)" "phase_ok run ph"
  shows "clean_act x sids old run ph a"
  using assms(1)
proof cases
  case begins
  then show ?thesis using begin_clean [OF assms(2,3)] by simp
next
  case (makes sid)
  then show ?thesis using making_clean(1) assms(4) by simp
next
  case makes_none
  then show ?thesis using making_clean(2) assms(4) by simp
next
  case starts
  then show ?thesis using placed_clean(1) [of run] assms(4) by auto
next
  case starts_not
  then show ?thesis using placed_clean(2) [of run] assms(4) by auto
next
  case watches
  then show ?thesis using watched_clean [of run] assms(4) by auto
next
  case records
  then show ?thesis using recorded_clean assms(4) by simp
qed simp_all

section \<open>Runs under way and their sandboxes\<close>

definition running :: "jobRecord \<Rightarrow> nat set" where
  "running j = {i. i < length (jb_Runs j) \<and> jr_State (jb_Runs j ! i) = RunRunning}"

definition unfinished :: "jobRecord \<Rightarrow> nat set" where
  "unfinished j = {i. i < length (jb_Runs j) \<and> \<not> runFinal (jr_State (jb_Runs j ! i))}"

text \<open>The runs a controller may still make a sandbox for before it asks again.\<close>

definition could_run :: "controller \<Rightarrow> nat set" where
  "could_run k = (if k_ctx k = Ctx_Live then dom (k_active k) else {n. k_active k n = Some Making})"

definition slots :: "jobs \<Rightarrow> nat set" where
  "slots c = running (g_job c) \<union> (case g_ctl c of None \<Rightarrow> {} | Some k \<Rightarrow> could_run k)"

fun running_first :: "jobRecord \<Rightarrow> nat list \<Rightarrow> bool" where
  "running_first j [] = True"
| "running_first j (n # ns) = (if n \<in> running j then running_first j ns else set ns \<inter> running j = {})"

definition taken_care :: "bool \<Rightarrow> jobRecord \<Rightarrow> controller \<Rightarrow> bool" where
  "taken_care rush j k \<longleftrightarrow>
     (k_ctx k = Ctx_Live \<longrightarrow> unfinished j \<subseteq> dom (k_active k) \<union> set (k_pending k)) \<and>
     (\<not> rush \<longrightarrow> k_ctx k \<noteq> Ctx_Stopping \<longrightarrow> running j \<subseteq> dom (k_active k) \<union> set (k_pending k)) \<and>
     running_first j (k_pending k) \<and>
     (k_ctx k \<in> {Ctx_Cancelled, Ctx_Revoked} \<longrightarrow> jb_Cancelled j) \<and>
     (\<forall>n out. k_active k n = Some (Returned out) \<longrightarrow> oc_state out = RunCancelled \<longrightarrow> jb_Cancelled j)"

definition made_for :: "(bytes \<Rightarrow> nat option) \<Rightarrow> nat \<Rightarrow> bytes set" where
  "made_for made i = {sid. made sid = Some i}"

definition sandboxes_ok :: "jobs \<Rightarrow> bool" where
  "sandboxes_ok c \<longleftrightarrow> [] \<notin> g_live c \<and> (\<forall>i < length (runs c). jr_Sandbox (runs c ! i) \<noteq> [] \<longrightarrow> g_made c (jr_Sandbox (runs c ! i)) = Some i) \<and>
     (\<forall>i < length (runs c). finite (made_for (g_made c) i) \<and> int (card (made_for (g_made c) i)) \<le> jr_Attempts (runs c ! i))"

definition live_ok :: "jobs \<Rightarrow> bool" where
  "live_ok c \<longleftrightarrow> (\<forall>sid \<in> g_live c. \<exists>i < length (runs c). jr_Sandbox (runs c ! i) = sid) \<and>
     (\<forall>i < length (runs c). settled (runs c ! i) (case g_ctl c of None \<Rightarrow> None | Some k \<Rightarrow> k_active k i) \<longrightarrow> jr_Sandbox (runs c ! i) \<notin> g_live c)"

definition sinv :: "bool \<Rightarrow> jobs \<Rightarrow> bool" where
  "sinv rush c \<longleftrightarrow> jinv c \<and> card (slots c) \<le> parallelism c \<and> (case g_ctl c of None \<Rightarrow> True | Some k \<Rightarrow> taken_care rush (g_job c) k) \<and>
     (\<forall>i < length (runs c). jr_State (runs c ! i) = RunCancelled \<longrightarrow> jb_Cancelled (g_job c)) \<and> sandboxes_ok c \<and> (\<not> rush \<longrightarrow> live_ok c)"

lemma running_simps [simp]: "running (mark_revoked j) = running j" "running (mark_cancelled j) = running j" "running (finishJob now j) = {}"
  "unfinished (mark_revoked j) = unfinished j" "unfinished (mark_cancelled j) = unfinished j" "finite (running j)" "running j \<subseteq> unfinished j"
  using finish_run_final by (auto simp: running_def unfinished_def) (metis finish_run_final runFinal_simps(2))

lemma running_first_cong: "\<forall>n \<in> set ns. (n \<in> running j) = (n \<in> running j') \<Longrightarrow> running_first j ns = running_first j' ns"
  by (induction ns) auto

lemma running_first_mark [simp]: "running_first (mark_revoked j) ns = running_first j ns" "running_first (mark_cancelled j) ns = running_first j ns"
  by (rule running_first_cong, simp)+

lemma running_first_append: "set rs \<subseteq> running j \<Longrightarrow> set qs \<inter> running j = {} \<Longrightarrow> running_first j (rs @ qs)"
  by (induction rs) (auto, induction qs, auto)

lemma pending_first:
  assumes "job_ok j"
  shows "running_first j (pending_runs j)" "unfinished j \<subseteq> set (pending_runs j)"
proof -
  have N: "jr_N (jb_Runs j ! i) = i" if "i < length (jb_Runs j)" for i using assms that by (simp add: job_ok_def run_ok_def)
  show "running_first j (pending_runs j)"
    unfolding pending_runs_def using N by (intro running_first_append) (auto simp: running_def in_set_conv_nth)
  show "unfinished j \<subseteq> set (pending_runs j)" using pending_runs_ok(2) [OF assms] by (simp add: unfinished_def)
qed

lemma finite_slots: "jinv c \<Longrightarrow> finite (slots c)"
  by (auto simp: slots_def could_run_def jinv_def ctl_ok_def split: option.split intro: finite_subset [of _ "dom _"])

lemma start_job_care:
  assumes "job_ok j" "start_job True j = Some k"
  shows "taken_care rush j k" "could_run k = {}" "k_active k = (\<lambda>_. None)"
  using assms pending_first [OF assms(1)] order_trans [OF running_simps(7) pending_first(2) [OF assms(1)]]
  by (auto simp: start_job_def taken_care_def could_run_def start_ctx_def split: if_splits)

subsection \<open>A goroutine's step keeps the invariant\<close>

lemma perform_simps:
  "g_job (perform True n a k c) = (if a_revokes a then mark_revoked (write_run n (a_write a) (g_job c)) else write_run n (a_write a) (g_job c))"
  "g_ctl (perform wrote n a k c) = Some (if a_revokes a then end_ctx Ctx_Revoked (k\<lparr>k_active := (k_active k)(n := a_next a)\<rparr>) else k\<lparr>k_active := (k_active k)(n := a_next a)\<rparr>)"
  "g_live (perform wrote n a k c) = live_after a (g_live c)"
  "g_made (perform wrote n a k c) = (case a_born a of None \<Rightarrow> g_made c | Some sid \<Rightarrow> (g_made c)(sid \<mapsto> n))"
  "runs (perform wrote n a k c) = jb_Runs (write_run n (a_write a) (g_job c))"
  by (simp_all add: perform_def Let_def live_after_def)

lemma running_write:
  assumes "clean_act x sids old (jb_Runs j ! n) ph a"
  shows "running (write_run n (a_write a) j) \<subseteq> running j \<union> (if ph = Making then {n} else {})"
  using assms by (auto simp: running_def clean_act_def write_run_nth split: if_splits)

lemma unfinished_write:
  assumes "n \<in> unfinished j"
  shows "unfinished (write_run n f j) \<subseteq> unfinished j" "runFinal (jr_State (f (jb_Runs j ! n))) \<Longrightarrow> n \<notin> unfinished (write_run n f j)"
  using assms by (auto simp: unfinished_def write_run_nth split: if_splits)

lemma care_perform:
  assumes "taken_care rush (g_job c) k" "ctl_ok (g_job c) k" "k_active k n = Some ph"
    "clean_act (k_ctx k) (g_live c) (dom (g_made c)) (runs c ! n) ph a"
  shows "\<exists>k1. g_ctl (perform True n a k c) = Some k1 \<and> taken_care rush (g_job (perform True n a k c)) k1"
proof -
  let ?j = "write_run n (a_write a) (g_job c)" and ?k = "k\<lparr>k_active := (k_active k)(n := a_next a)\<rparr>"
  have n: "n \<in> unfinished (g_job c)" "n \<notin> set (k_pending k)" using assms(2,3) by (auto simp: ctl_ok_def unfinished_def)
  have mono: "unfinished ?j \<subseteq> unfinished (g_job c)" by (rule unfinished_write(1) [OF n(1)])
  have gone: "k_ctx k \<noteq> Ctx_Stopping \<Longrightarrow> a_next a = None \<Longrightarrow> n \<notin> unfinished ?j"
    using assms(4) unfinished_write(2) [OF n(1)] by (simp add: clean_act_def)
  have run: "running ?j \<subseteq> running (g_job c) \<union> {n}" using running_write [OF assms(4)] by (auto split: if_splits)
  have same: "m \<in> running ?j \<longleftrightarrow> m \<in> running (g_job c)" if "m \<noteq> n" for m using that by (auto simp: running_def write_run_nth)
  have 1: "k_ctx k = Ctx_Live \<longrightarrow> unfinished ?j \<subseteq> dom (k_active ?k) \<union> set (k_pending ?k)"
    using assms(1) mono gone by (auto simp: taken_care_def)
  have 2: "\<not> rush \<longrightarrow> k_ctx k \<noteq> Ctx_Stopping \<longrightarrow> running ?j \<subseteq> dom (k_active ?k) \<union> set (k_pending ?k)"
  proof (intro impI subsetI)
    fix m assume m: "\<not> rush" "k_ctx k \<noteq> Ctx_Stopping" "m \<in> running ?j"
    show "m \<in> dom (k_active ?k) \<union> set (k_pending ?k)"
    proof (cases "m = n")
      case True
      then have "a_next a \<noteq> None" using m(2,3) gone running_simps(7) [of ?j] by blast
      then show ?thesis using True by auto
    next
      case False
      then have "m \<in> running (g_job c)" using same m(3) by blast
      then have "m \<in> dom (k_active k) \<union> set (k_pending k)" using assms(1) m(1,2) by (auto simp: taken_care_def)
      then show ?thesis using False by auto
    qed
  qed
  have 3: "running_first ?j (k_pending k)"
  proof -
    have "\<forall>m \<in> set (k_pending k). (m \<in> running ?j) = (m \<in> running (g_job c))" using n(2) same by metis
    from running_first_cong [OF this] show ?thesis using assms(1) by (simp add: taken_care_def)
  qed
  have 4: "k_active ?k m = Some (Returned out) \<Longrightarrow> oc_state out = RunCancelled \<Longrightarrow> jb_Cancelled ?j \<or> a_revokes a" for m out
    using assms(1,4) by (auto simp: taken_care_def clean_act_def split: if_splits)
  have st: "jb_State (g_job c) = JobRunning" using assms(2) by (simp add: ctl_ok_def)
  have rv: "jb_Cancelled (mark_revoked ?j)" using st by (simp add: mark_revoked_def)
  show ?thesis
    using assms(1) 1 2 3 4 rv by (cases "a_revokes a") (auto simp: perform_simps taken_care_def end_ctx_def)
qed

lemma live_after_sub: "live_after a sids \<subseteq> (case a_born a of None \<Rightarrow> sids | Some sid \<Rightarrow> insert sid sids)"
  by (auto simp: live_after_def Let_def split: option.splits)

lemma slots_perform:
  assumes "g_ctl c = Some k" "k_active k n = Some ph" "clean_act (k_ctx k) (g_live c) (dom (g_made c)) (runs c ! n) ph a"
  shows "slots (perform True n a k c) \<subseteq> slots c"
proof -
  let ?k = "k\<lparr>k_active := (k_active k)(n := a_next a)\<rparr>"
  have "running (write_run n (a_write a) (g_job c)) \<subseteq> slots c"
    using running_write [OF assms(3)] assms(1,2) by (auto simp: slots_def could_run_def split: if_splits)
  moreover have "could_run ?k \<subseteq> could_run k" "could_run (end_ctx Ctx_Revoked ?k) \<subseteq> could_run k"
    using assms(2,3) by (auto simp: could_run_def clean_act_def end_ctx_def split: if_splits)
  ultimately show ?thesis using assms(1) by (auto simp: slots_def perform_simps split: if_splits)
qed

lemma sandboxes_perform:
  assumes "sandboxes_ok c" "n < length (runs c)" "clean_act x (g_live c) (dom (g_made c)) (runs c ! n) ph a"
  shows "sandboxes_ok (perform True n a k c)"
proof (cases "a_born a")
  case None
  then have "jr_Sandbox (jb_Runs (write_run n (a_write a) (g_job c)) ! i) = jr_Sandbox (runs c ! i)"
    "jr_Attempts (runs c ! i) \<le> jr_Attempts (jb_Runs (write_run n (a_write a) (g_job c)) ! i)" if "i < length (runs c)" for i
    using assms(3) that by (auto simp: clean_act_def write_run_nth)
  then show ?thesis
    using assms(1) None live_after_sub [of a "g_live c"] by (auto simp: sandboxes_ok_def perform_simps intro: order_trans)
next
  case (Some sid)
  then have a: "g_made c sid = None" "sid \<noteq> []" "jr_Sandbox (a_write a (runs c ! n)) = sid" "jr_Attempts (a_write a (runs c ! n)) = jr_Attempts (runs c ! n) + 1"
    "a_down a = None" using assms(3) by (auto simp: clean_act_def)
  have m: "made_for ((g_made c)(sid \<mapsto> n)) i = (if i = n then insert sid (made_for (g_made c) i) else made_for (g_made c) i)" "sid \<notin> made_for (g_made c) i" for i
    using a(1) by (auto simp: made_for_def)
  show ?thesis
    using assms(1,2) Some a by (auto simp: sandboxes_ok_def perform_simps live_after_def write_run_nth m card_insert_if Let_def)
qed

lemma live_perform:
  assumes "live_ok c" "sandboxes_ok c" "g_ctl c = Some k" "n < length (runs c)" "k_active k n = Some ph" "jr_State (runs c ! n) = RunQueued \<or> a_born a = None"
    "clean_act x (g_live c) (dom (g_made c)) (runs c ! n) ph a"
  shows "live_ok (perform True n a k c)"
proof -
  let ?r = "\<lambda>i. jb_Runs (write_run n (a_write a) (g_job c)) ! i" and ?live = "live_after a (g_live c)"
  have own: "i = n" if "i < length (runs c)" "jr_Sandbox (runs c ! i) = jr_Sandbox (runs c ! n)" "jr_Sandbox (runs c ! i) \<noteq> []" for i
    using assms(2,4) that by (auto simp: sandboxes_ok_def) (metis option.inject)
  have other: "jr_Sandbox (runs c ! i) \<notin> ?live" if "i < length (runs c)" "i \<noteq> n" "jr_Sandbox (runs c ! i) \<notin> g_live c" for i
  proof (cases "a_born a")
    case (Some sid)
    then have "g_made c sid = None" "sid \<noteq> []" using assms(7) by (auto simp: clean_act_def)
    then have "jr_Sandbox (runs c ! i) \<noteq> sid" using assms(2) that(1) by (auto simp: sandboxes_ok_def)
    then show ?thesis using that(3) Some live_after_sub [of a "g_live c"] by auto
  qed (use that(3) live_after_sub [of a "g_live c"] in auto)
  have 1: "\<exists>i < length (runs c). jr_Sandbox (?r i) = sid" if "sid \<in> ?live" for sid
  proof (cases "a_born a = Some sid")
    case True
    then show ?thesis using assms(4,7) by (auto simp: clean_act_def write_run_nth intro!: exI [of _ n])
  next
    case False
    then have "sid \<in> g_live c" using that live_after_sub [of a "g_live c"] by (auto split: option.splits)
    then obtain i where i: "i < length (runs c)" "jr_Sandbox (runs c ! i) = sid" using assms(1) by (auto simp: live_ok_def)
    have "jr_Sandbox (?r i) = sid"
    proof (cases "i = n \<and> a_born a \<noteq> None")
      case True
      then have "settled (runs c ! n) (Some ph)" using assms(6) by (auto simp: settled_def)
      then show ?thesis using True i assms(1,3,4,5) \<open>sid \<in> g_live c\<close> by (auto simp: live_ok_def)
    next
      case False
      then show ?thesis using i assms(7) by (auto simp: clean_act_def write_run_nth split: option.splits)
    qed
    then show ?thesis using i(1) by blast
  qed
  have 2: "jr_Sandbox (?r i) \<notin> ?live" if "i < length (runs c)" "settled (?r i) (((k_active k)(n := a_next a)) i)" for i
  proof (cases "i = n")
    case True
    have "settled (runs c ! n) (Some ph) \<longrightarrow> jr_Sandbox (runs c ! n) \<notin> g_live c" using assms(1,3,4,5) by (auto simp: live_ok_def)
    then show ?thesis using True that assms(4,7) by (auto simp: clean_act_def write_run_nth)
  next
    case False
    then have "jr_Sandbox (runs c ! i) \<notin> g_live c" using that assms(1,3) by (auto simp: live_ok_def write_run_nth)
    then show ?thesis using other False that(1) by (simp add: write_run_nth)
  qed
  show ?thesis using 1 2 by (auto simp: live_ok_def perform_simps)
qed

lemma sinv_perform:
  assumes "sinv rush c" "g_ctl c = Some k" "k_active k n = Some ph"
    "moves False (jb_Spec (g_job c)) (k_ctx k) (g_live c) (dom (g_made c)) (runs c ! n) ph a"
  shows "sinv rush (perform True n a k c)"
proof -
  have inv: "jinv c" "card (slots c) \<le> parallelism c" "taken_care rush (g_job c) k" "sandboxes_ok c" "\<not> rush \<Longrightarrow> live_ok c"
    and canc: "\<And>i. i < length (runs c) \<Longrightarrow> jr_State (runs c ! i) = RunCancelled \<Longrightarrow> jb_Cancelled (g_job c)"
    using assms(1,2) by (auto simp: sinv_def)
  have k: "ctl_ok (g_job c) k" using inv(1) assms(2) by (simp add: jinv_def)
  have n: "n < length (runs c)" "\<not> runFinal (jr_State (runs c ! n))" "phase_ok (runs c ! n) ph" using k assms(3) by (auto simp: ctl_ok_def)
  have "run_ok (retries c) n (runs c ! n)" using inv(1) n(1) by (simp add: jinv_def job_ok_def)
  from moves_clean [OF assms(4) this n(2,3)] have cl: "clean_act (k_ctx k) (g_live c) (dom (g_made c)) (runs c ! n) ph a" .
  have born: "jr_State (runs c ! n) = RunQueued \<or> a_born a = None"
    using cl n(3) by (cases "a_born a") (auto simp: clean_act_def)
  have spec: "jb_Spec (g_job (perform True n a k c)) = jb_Spec (g_job c)" by (simp add: perform_simps)
  define d where "d = perform True n a k c"
  have r: "runs d = jb_Runs (write_run n (a_write a) (g_job c))" by (simp add: d_def perform_simps)
  have 1: "card (slots d) \<le> parallelism d"
    using card_mono [OF finite_slots [OF inv(1)] slots_perform [OF assms(2,3) cl]] inv(2) spec by (simp add: d_def)
  have 2: "jb_Cancelled (g_job d)" if "i < length (runs c)" "jr_State (runs d ! i) = RunCancelled" for i
  proof -
    have "jb_Cancelled (g_job c)"
    proof (cases "i = n")
      case True
      then have "\<exists>out. ph = Returned out \<and> oc_state out = RunCancelled" using that n cl by (auto simp: clean_act_def write_run_nth r)
      then show ?thesis using inv(3) assms(3) by (auto simp: taken_care_def)
    next
      case False
      then show ?thesis using that canc by (simp add: write_run_nth r)
    qed
    then show ?thesis by (simp add: d_def perform_simps)
  qed
  obtain k1 where k1: "g_ctl d = Some k1" "taken_care rush (g_job d) k1"
    using care_perform [OF inv(3) k assms(3) cl] by (auto simp: d_def)
  have 3: "jinv d" "sandboxes_ok d" "\<not> rush \<Longrightarrow> live_ok d"
    using jinv_perform [OF inv(1) assms(2-4)] sandboxes_perform [OF inv(4) n(1) cl] live_perform [OF inv(5) inv(4) assms(2) n(1) assms(3) born cl]
    by (simp_all add: d_def)
  have "length (runs d) = length (runs c)" by (simp add: r)
  then have "sinv rush d" using 1 2 3 k1 unfolding sinv_def by simp
  then show ?thesis by (simp add: d_def)
qed

subsection \<open>The other steps\<close>

lemma running_first_tl: "running_first j (n # ns) \<Longrightarrow> running_first j ns"
  using running_first_append [of "[]" j ns] by (auto split: if_splits)

lemma care_running: "taken_care rush j k \<Longrightarrow> k_ctx k = Ctx_Live \<Longrightarrow> running j \<subseteq> dom (k_active k) \<union> set (k_pending k)"
  by (rule order_trans [OF running_simps(7)]) (simp add: taken_care_def)

lemma slots_hand_out:
  assumes "jinv c" "card (slots c) \<le> parallelism c" "taken_care rush (g_job c) k" "g_ctl c = Some k" "k_pending k = n # ns"
    "card (dom (k_active k)) < parallelism c"
  shows "card (slots (c\<lparr>g_ctl := Some (k\<lparr>k_pending := ns, k_active := (k_active k)(n \<mapsto> Looping)\<rparr>)\<rparr>)) \<le> parallelism c" (is "card (slots ?d) \<le> _")
proof (cases "k_ctx k = Ctx_Live \<and> n \<notin> running (g_job c)")
  case True
  then have "running (g_job c) \<inter> set (k_pending k) = {}" using assms(3,5) by (auto simp: taken_care_def)
  moreover have "running (g_job c) \<subseteq> dom (k_active k) \<union> set (k_pending k)"
    using True assms(3) care_running by blast
  ultimately have "slots ?d \<subseteq> insert n (dom (k_active k))" using True by (auto simp: slots_def could_run_def)
  moreover have fin: "finite (dom (k_active k))" using assms(1,4) by (simp add: jinv_def ctl_ok_def)
  ultimately have "card (slots ?d) \<le> card (insert n (dom (k_active k)))" by (intro card_mono) auto
  then show ?thesis using fin assms(6) card_insert_le_m1 [of _ "dom (k_active k)" n] by (simp add: card_insert_if split: if_splits)
next
  case False
  have "n \<notin> dom (k_active k)" using assms(1,4,5) by (auto simp: jinv_def ctl_ok_def)
  then have "slots ?d \<subseteq> slots c" using False assms(4) by (auto simp: slots_def could_run_def split: if_splits)
  then show ?thesis using card_mono [OF finite_slots [OF assms(1)]] assms(2) le_trans by blast
qed

lemma sinv_hand_out:
  assumes "sinv rush c" "g_ctl c = Some k" "k_pending k = n # ns" "card (dom (k_active k)) < parallelism c"
    "jinv (c\<lparr>g_ctl := Some (k\<lparr>k_pending := ns, k_active := (k_active k)(n \<mapsto> Looping)\<rparr>)\<rparr>)"
  shows "sinv rush (c\<lparr>g_ctl := Some (k\<lparr>k_pending := ns, k_active := (k_active k)(n \<mapsto> Looping)\<rparr>)\<rparr>)"
proof -
  have inv: "jinv c" "card (slots c) \<le> parallelism c" "taken_care rush (g_job c) k" using assms(1,2) by (auto simp: sinv_def)
  have n: "k_active k n = None" using inv(1) assms(2,3) by (auto simp: jinv_def ctl_ok_def)
  have "running_first (g_job c) ns" using inv(3) assms(3) running_first_tl [of "g_job c" n ns] by (simp add: taken_care_def del: running_first.simps)
  then have 1: "taken_care rush (g_job c) (k\<lparr>k_pending := ns, k_active := (k_active k)(n \<mapsto> Looping)\<rparr>)"
    using inv(3) assms(3) unfolding taken_care_def by (auto simp del: running_first.simps split: if_splits)
  have 2: "settled run (((k_active k)(n \<mapsto> Looping)) i) = settled run (k_active k i)" for run i using n by (simp add: settled_def)
  show ?thesis
    using assms(1,2,5) 1 2 slots_hand_out [OF inv assms(2-4)] by (simp add: sinv_def sandboxes_ok_def live_ok_def)
qed

lemma finish_run_fields [simp]:
  "jr_Sandbox (finish_run err now run) = jr_Sandbox run" "jr_Attempts (finish_run err now run) = jr_Attempts run"
  by (simp_all add: finish_run_def)

lemma sinv_finish:
  assumes "sinv rush c" "g_ctl c = Some k" "k_pending k = []" "k_active k = (\<lambda>_. None)" "k_ctx k \<noteq> Ctx_Stopping"
  shows "sinv rush (c\<lparr>g_job := finishJob now (g_job c), g_ctl := None\<rparr>)"
proof -
  have inv: "jinv c" "taken_care rush (g_job c) k" "sandboxes_ok c" "\<not> rush \<Longrightarrow> live_ok c"
    and canc: "\<And>i. i < length (runs c) \<Longrightarrow> jr_State (runs c ! i) = RunCancelled \<Longrightarrow> jb_Cancelled (g_job c)"
    using assms(1,2) by (auto simp: sinv_def)
  have 1: "jb_Cancelled (g_job c)" if "i < length (runs c)" "jr_State (finish_run (jb_Error (g_job c)) now (runs c ! i)) = RunCancelled" for i
  proof (cases "runFinal (jr_State (runs c ! i))")
    case True
    then show ?thesis using that canc by simp
  next
    case False
    then have "k_ctx k \<noteq> Ctx_Live" using inv(2) assms(3,4) that(1) by (auto simp: taken_care_def unfinished_def)
    then show ?thesis using inv(2) assms(5) by (cases "k_ctx k") (auto simp: taken_care_def)
  qed
  have none: "running (g_job c) = {}" if "\<not> rush" using that inv(2) assms(3-5) by (auto simp: taken_care_def)
  have 2: "live_ok (c\<lparr>g_job := finishJob now (g_job c), g_ctl := None\<rparr>)" if "\<not> rush"
  proof -
    have "settled (runs c ! i) None" if "i < length (runs c)" for i using none [OF \<open>\<not> rush\<close>] that by (auto simp: running_def settled_def)
    then show ?thesis using inv(4) [OF that] assms(2,4) by (auto simp: live_ok_def)
  qed
  have "jinv (c\<lparr>g_job := finishJob now (g_job c), g_ctl := None\<rparr>)" using inv(1) by (simp add: jinv_def finishJob_ok)
  moreover have "sandboxes_ok (c\<lparr>g_job := finishJob now (g_job c), g_ctl := None\<rparr>)" using inv(3) by (simp add: sandboxes_ok_def)
  ultimately show ?thesis using 1 2 by (simp add: sinv_def slots_def)
qed

lemma sinv_mark:
  assumes "sinv rush c" "f = mark_cancelled \<or> f = mark_revoked" "jinv (c\<lparr>g_job := f (g_job c)\<rparr>)"
  shows "sinv rush (c\<lparr>g_job := f (g_job c)\<rparr>)"
proof -
  have f: "jb_Runs (f j) = jb_Runs j" "jb_Spec (f j) = jb_Spec j" "running (f j) = running j" "unfinished (f j) = unfinished j"
    "running_first (f j) ns = running_first j ns" "jb_Cancelled j \<Longrightarrow> jb_Cancelled (f j)" for j ns using assms(2) by auto
  have "taken_care rush j k \<Longrightarrow> taken_care rush (f j) k" for j k by (auto simp: taken_care_def f)
  then show ?thesis
    using assms(1,3) by (auto simp: sinv_def slots_def sandboxes_ok_def live_ok_def f split: option.splits)
qed

lemma sinv_end_ctx:
  assumes "sinv rush c" "g_ctl c = Some k" "may_end False (g_job c) x" "jinv (c\<lparr>g_ctl := Some (end_ctx x k)\<rparr>)"
  shows "sinv rush (c\<lparr>g_ctl := Some (end_ctx x k)\<rparr>)"
proof -
  have inv: "jinv c" "card (slots c) \<le> parallelism c" "taken_care rush (g_job c) k" using assms(1,2) by (auto simp: sinv_def)
  have "slots (c\<lparr>g_ctl := Some (end_ctx x k)\<rparr>) \<subseteq> slots c" using assms(2) by (auto simp: slots_def could_run_def end_ctx_def split: if_splits)
  from card_mono [OF finite_slots [OF inv(1)] this] have 1: "card (slots (c\<lparr>g_ctl := Some (end_ctx x k)\<rparr>)) \<le> parallelism c" using inv(2) by simp
  note care_running [OF inv(3)]
  then have 2: "taken_care rush (g_job c) (end_ctx x k)"
    using inv(3) assms(3) by (auto simp: taken_care_def end_ctx_def may_end_def)
  show ?thesis using assms(1,2,4) 1 2 by (simp add: sinv_def sandboxes_ok_def live_ok_def)
qed

lemma sinv_step:
  assumes "jstep False rush c c'" "sinv rush c"
  shows "sinv rush c'"
proof -
  have j: "jinv c'" using assms by (auto simp: sinv_def intro: jinv_step)
  have inv: "jinv c" "card (slots c) \<le> parallelism c" "\<not> rush \<Longrightarrow> live_ok c" using assms(2) by (auto simp: sinv_def)
  show ?thesis
    using assms(1)
  proof cases
    case (hands_out k n ns)
    then show ?thesis using sinv_hand_out [OF assms(2)] j by simp
  next
    case (breaks k)
    then have "taken_care rush (g_job c) k" using assms(2) by (simp add: sinv_def)
    then have "taken_care rush (g_job c) (k\<lparr>k_pending := []\<rparr>)" using breaks by (auto simp: taken_care_def running_def)
    then show ?thesis using assms(2) breaks j by (simp add: sinv_def slots_def could_run_def sandboxes_ok_def live_ok_def)
  next
    case (works k n ph a wrote)
    then show ?thesis using sinv_perform [OF assms(2)] by simp
  next
    case (finishes k wrote now)
    then show ?thesis using sinv_finish [OF assms(2)] by simp
  next
    case (gives_up k)
    then have "slots c' = slots c" by (simp add: slots_def could_run_def)
    then show ?thesis using assms(2) gives_up j by (simp add: sinv_def sandboxes_ok_def live_ok_def)
  next
    case cancels
    then show ?thesis using sinv_mark [OF assms(2)] j by simp
  next
    case revokes
    then show ?thesis using sinv_mark [OF assms(2)] j by simp
  next
    case (ctx_ends k x)
    then show ?thesis using sinv_end_ctx [OF assms(2)] j by simp
  next
    case (restarts rd)
    have "slots c' \<subseteq> slots c"
      using restarts start_job_care(2) [of "g_job c"] inv(1) by (auto simp: slots_def jinv_def split: option.splits)
    then have 1: "card (slots c') \<le> parallelism c" using card_mono [OF finite_slots [OF inv(1)]] inv(2) le_trans by blast
    have 2: "case start_job True (g_job c) of None \<Rightarrow> True | Some k \<Rightarrow> taken_care rush (g_job c) k"
      using start_job_care(1) [of "g_job c"] inv(1) by (auto simp: jinv_def split: option.split)
    have "settled (runs c ! i) (case start_job True (g_job c) of None \<Rightarrow> None | Some k \<Rightarrow> k_active k i) \<Longrightarrow>
        settled (runs c ! i) (case g_ctl c of None \<Rightarrow> None | Some k \<Rightarrow> k_active k i)" for i
      using start_job_care(3) [of "g_job c"] inv(1) by (auto simp: settled_def jinv_def split: option.splits)
    then have 3: "live_ok c'" if "\<not> rush" using inv(3) [OF that] restarts by (auto simp: live_ok_def)
    show ?thesis
      using assms(2) restarts j 1 2 3 by (cases "start_job True (g_job c)") (simp_all add: sinv_def sandboxes_ok_def)
  next
    case (stops sid)
    then show ?thesis using assms(2) j by (cases "g_ctl c") (auto simp: sinv_def slots_def sandboxes_ok_def live_ok_def)
  qed simp_all
qed

lemma sinv_init:
  assumes "jinit c"
  shows "sinv rush c"
proof -
  obtain e key p s jid now where "submitJob e key p s jid True True now = Inr (g_job c)" using assms by (auto simp: jinit_def)
  note j = submitted_job_ok [OF this]
  have r: "running (g_job c) = {}" using j(4) by (auto simp: running_def queued_run_def)
  have k: "\<exists>k. g_ctl c = Some k \<and> taken_care rush (g_job c) k \<and> could_run k = {}"
    using assms start_job_care [OF j(1)] j(2) by (auto simp: jinit_def start_job_def)
  have "sandboxes_ok c" using assms j(4) by (auto simp: sandboxes_ok_def jinit_def made_for_def queued_run_def)
  moreover have "live_ok c" using assms by (simp add: live_ok_def jinit_def)
  ultimately show ?thesis using jinv_init [OF assms] k j(4) r by (auto simp: sinv_def slots_def queued_run_def)
qed

interpretation sound_job: step_invariant jinit "jstep False rush" "sinv rush"
  by unfold_locales (auto intro: sinv_init sinv_step)

section \<open>What a job comes to\<close>





text \<open>
  C18: A job that is over has only runs that are over; it succeeded if and only if every run of it did, and it says cancelled only if it was asked to
  be or its user was revoked. Where every read and write of the store and every ending of a sandbox succeeds, no answer to a create is lost and the gateway
  does not die between a sandbox and its record, a job that was not cancelled failed only if a run of it failed or timed out.
\<close>

theorem job_ends_as_its_runs:
  assumes "reach jinit (jstep faults rush) c" "jb_State (g_job c) \<noteq> JobRunning"
  shows "(\<forall>run \<in> set (runs c). runFinal (jr_State run)) \<and>
    (jb_State (g_job c) = JobSucceeded \<longleftrightarrow> (\<forall>run \<in> set (runs c). jr_State run = RunSucceeded)) \<and>
    (jb_State (g_job c) = JobCancelled \<longrightarrow> jb_Cancelled (g_job c)) \<and>
    (\<not> faults \<longrightarrow> \<not> jb_Cancelled (g_job c) \<longrightarrow> jb_State (g_job c) = JobFailed \<longrightarrow> (\<exists>run \<in> set (runs c). jr_State run \<in> {RunFailed, RunTimedOut}))"
proof -
  have e: "end_ok (g_job c)" using job.inv_reach [OF assms(1)] by (simp add: jinv_def)
  have "\<exists>run \<in> set (runs c). jr_State run \<in> {RunFailed, RunTimedOut}"
    if "\<not> faults" "\<not> jb_Cancelled (g_job c)" "jb_State (g_job c) = JobFailed"
  proof -
    have "sinv rush c" using sound_job.inv_reach assms(1) that(1) by simp
    then have nc: "jr_State run \<noteq> RunCancelled" if "run \<in> set (runs c)" for run
      using that \<open>\<not> jb_Cancelled (g_job c)\<close> by (auto simp: sinv_def in_set_conv_nth)
    obtain run where "run \<in> set (runs c)" "jr_State run \<noteq> RunSucceeded" "runFinal (jr_State run)"
      using e assms(2) \<open>jb_State (g_job c) = JobFailed\<close> by (auto simp: end_ok_def)
    then show ?thesis using nc by (auto simp: runFinal_def)
  qed
  then show ?thesis using e assms(2) by (auto simp: end_ok_def)
qed


section \<open>A cancel that a restart finishes\<close>

text \<open>
  A gateway that starts with a job whose cancel was asked for before may finish it without ending the sandboxes of its runs under way: the select of
  \<open>runJob\<close> finds its context already ended and may stop before it hands out any run. The job is then recorded cancelled, and each sandbox
  still runs, though no read, write or node failed.
\<close>

theorem restarted_cancel_keeps_sandboxes:
  assumes "reach jinit (jstep False True) c" "jb_State (g_job c) = JobRunning" "jb_Cancelled (g_job c)" "n < length (runs c)" "jr_State (runs c ! n) = RunRunning"
  shows "\<exists>c'. (jstep False True)\<^sup>*\<^sup>* c c' \<and> jb_State (g_job c') = JobCancelled \<and> g_ctl c' = None \<and> g_live c' = g_live c \<and>
    jr_Sandbox (runs c' ! n) = jr_Sandbox (runs c ! n)"
proof -
  obtain x where x: "start_job True (g_job c) = Some \<lparr>k_ctx = x, k_pending = pending_runs (g_job c), k_active = (\<lambda>_. None)\<rparr>" "x \<in> {Ctx_Cancelled, Ctx_Revoked}"
    using assms(2,3) by (auto simp: start_job_def start_ctx_def)
  let ?c1 = "c\<lparr>g_ctl := start_job True (g_job c)\<rparr>" and ?k = "\<lparr>k_ctx = x, k_pending = [], k_active = (\<lambda>_. None)\<rparr>"
  let ?c2 = "c\<lparr>g_ctl := Some ?k\<rparr>" and ?c3 = "c\<lparr>g_job := finishJob 0 (g_job c), g_ctl := None\<rparr>"
  have "jstep False True c ?c1" by (intro jstep.restarts) simp
  moreover have "jstep False True ?c1 ?c2"
    using jstep.breaks [of ?c1 "\<lparr>k_ctx = x, k_pending = pending_runs (g_job c), k_active = (\<lambda>_. None)\<rparr>" True False] x by auto
  moreover have "jstep False True ?c2 ?c3" using jstep.finishes [of ?c2 ?k True False True 0] x(2) by auto
  ultimately have "(jstep False True)\<^sup>*\<^sup>* c ?c3" by (meson converse_rtranclp_into_rtranclp rtranclp.rtrancl_refl)
  moreover have "jb_State (finishJob 0 (g_job c)) = JobCancelled"
  proof -
    have "finish_run (jb_Error (g_job c)) 0 (runs c ! n) \<in> set (map (finish_run (jb_Error (g_job c)) 0) (runs c))" using assms(4) by simp
    moreover have "jr_State (finish_run (jb_Error (g_job c)) 0 (runs c ! n)) = RunCancelled" using assms(5) by (simp add: finish_run_def)
    ultimately have "list_ex (\<lambda>run. jr_State run \<noteq> RunSucceeded) (map (finish_run (jb_Error (g_job c)) 0) (runs c))"
      unfolding list_ex_iff by (metis run_state.distinct)
    then show ?thesis using assms(3) by (simp add: finishJob_def Let_def)
  qed
  ultimately show ?thesis using assms(4) by (intro exI [of _ ?c3]) simp
qed

section \<open>A job followed\<close>

definition sample_spec :: JobSpec where
  "sample_spec = \<lparr>js_Name = [], js_Image = [], js_Labels = [], js_Command = [''true''], js_Agent = [], js_Prompt = [], js_Prompts = [], js_Parallelism = 0,
    js_Completions = 0, js_Retries = 2, js_TimeoutSecs = 0, js_Env = [], js_Secrets = [], js_Network = None, js_Resources = None,
    js_FromSnapshot = [], js_Keep = None, js_Notify = []\<rparr>"

definition sample_job :: jobRecord where
  "sample_job = new_job None ''job_0'' demo_caller (sample_spec\<lparr>js_Parallelism := 1, js_Completions := 1, js_TimeoutSecs := 3600\<rparr>) 0"

definition sample_start :: jobs where
  "sample_start = \<lparr>g_job = sample_job, g_ctl = start_job True sample_job, g_live = {}, g_made = (\<lambda>_. None)\<rparr>"

definition sample_env :: job_env where
  "sample_env = \<lparr>jx_secrets = \<lparr>sx_sealer = False, sx_Sealed = (\<lambda>_ _. None), sx_open = (\<lambda>_ _. None)\<rparr>, jx_groups = None, jx_boot = (\<lambda>_ _. []),
     jx_url = \<lparr>ux_Parse = (\<lambda>_. None), ux_ParseIP = (\<lambda>_. None), ux_ParseAddr = (\<lambda>_. None), ux_lower = id\<rparr>, jx_NotifyAllowPrivate = False\<rparr>"

lemma sample_init: "jinit sample_start"
proof -
  have "submitJob sample_env None demo_caller sample_spec ''job_0'' True True 0 = Inr sample_job"
    by (simp add: submitJob_def checkJobSpec_def sample_spec_def sample_job_def ValidateLabels_def check_work_def fill_counts_def i64_def maxJobTimeout_def
        maxJobRuns_def maxJobParallelism_def maxJobRetries_def negative_job_def check_job_secrets_def parseSecretRefs_def check_keep_def applyGroups_def)
  then show ?thesis unfolding jinit_def by (simp add: sample_start_def) blast
qed

definition sample_made :: jobs where
  "sample_made = \<lparr>g_job = write_run 0 (record_made ''sb'') sample_job,
     g_ctl = Some \<lparr>k_ctx = Ctx_Live, k_pending = [], k_active = [0 \<mapsto> Placed ''sb'']\<rparr>, g_live = {''sb''}, g_made = [''sb'' \<mapsto> 0]\<rparr>"

lemma sample_fields: "jb_Runs sample_job = [queued_run 0]" "jb_State sample_job = JobRunning" "jb_Cancelled sample_job = False"
  "js_Parallelism (jb_Spec sample_job) = 1" "js_Retries (jb_Spec sample_job) = 2"
  by (simp_all add: sample_job_def new_job_def sample_spec_def)

text \<open>The job's one run is handed out, its attempt begins and its sandbox is made.\<close>

lemma sample_made_reach: "reach jinit (jstep False rush) sample_made"
proof -
  have ctl: "start_job True sample_job = Some \<lparr>k_ctx = Ctx_Live, k_pending = [0], k_active = (\<lambda>_. None)\<rparr>"
    by (simp add: start_job_def start_ctx_def pending_runs_def sample_fields queued_run_def)
  let ?k1 = "\<lparr>k_ctx = Ctx_Live, k_pending = [], k_active = [0 \<mapsto> Looping]\<rparr>" and ?k2 = "\<lparr>k_ctx = Ctx_Live, k_pending = [], k_active = [0 \<mapsto> Making]\<rparr>"
  let ?c1 = "sample_start\<lparr>g_ctl := Some ?k1\<rparr>" and ?c2 = "sample_start\<lparr>g_ctl := Some ?k2\<rparr>"
  have r0: "reach jinit (jstep False rush) sample_start" by (rule reach_init [of jinit, OF sample_init])
  have s1: "jstep False rush sample_start ?c1"
    using jstep.hands_out [of sample_start "\<lparr>k_ctx = Ctx_Live, k_pending = [0], k_active = (\<lambda>_. None)\<rparr>" 0 "[]" False rush] ctl
    by (simp add: sample_start_def sample_fields)
  have m2: "moves False s Ctx_Live sids old (queued_run 0) Looping (goes (Some Making))" for s sids old
    using moves.begins [of True "queued_run 0" sids False "Some True" True s Ctx_Live old "\<lambda>_. []" "Inr []" "Inr []"] by (simp add: attempt_begins_def queued_run_def)
  have s2: "jstep False rush ?c1 ?c2"
    using jstep.works [of ?c1 ?k1 0 Looping False "goes (Some Making)" True rush] m2
    by (simp add: sample_start_def sample_fields perform_def)
  have m3: "moves False s Ctx_Live sids {} (queued_run 0) Making (made_act True True True ''sb'')" for s sids
    by (rule moves.makes) simp_all
  have s3: "jstep False rush ?c2 sample_made"
    using jstep.works [of ?c2 ?k2 0 Making False "made_act True True True ''sb''" True rush] m3
    by (simp add: sample_start_def sample_made_def sample_fields perform_def made_act_def Let_def goes_def)
  show ?thesis by (rule reach_step [OF reach_step [OF reach_step [OF r0 s1] s2] s3])
qed


definition sample_cancelled :: jobs where
  "sample_cancelled = sample_made\<lparr>g_job := mark_cancelled (g_job sample_made)\<rparr>"

lemma sample_cancelled_reach: "reach jinit (jstep False rush) sample_cancelled"
  unfolding sample_cancelled_def by (rule reach_step [OF sample_made_reach jstep.cancels])

theorem restarted_cancel_keeps_sandboxes_witness:
  "\<exists>c'. (jstep False True)\<^sup>*\<^sup>* sample_cancelled c' \<and> jb_State (g_job c') = JobCancelled \<and> g_ctl c' = None \<and> g_live c' = {''sb''}"
  using restarted_cancel_keeps_sandboxes [OF sample_cancelled_reach, of 0]
  by (auto simp: sample_cancelled_def sample_made_def sample_fields write_run_def change_run_def record_made_def queued_run_def)

text \<open>The same job, cancelled before its run is handed out.\<close>

definition sample_over :: jobs where
  "sample_over = \<lparr>g_job = finishJob 5 (mark_cancelled sample_job), g_ctl = None, g_live = {}, g_made = (\<lambda>_. None)\<rparr>"

lemma sample_over_reach: "reach jinit (jstep False rush) sample_over"
proof -
  let ?j = "mark_cancelled sample_job"
  let ?k = "\<lambda>x ns. \<lparr>k_ctx = x, k_pending = ns, k_active = (\<lambda>_. None)\<rparr>"
  have ctl: "start_job True sample_job = Some (?k Ctx_Live [0])"
    by (simp add: start_job_def start_ctx_def pending_runs_def sample_fields queued_run_def)
  let ?c = "\<lambda>x ns. \<lparr>g_job = ?j, g_ctl = Some (?k x ns), g_live = {}, g_made = (\<lambda>_. None)\<rparr>"
  have r0: "reach jinit (jstep False rush) sample_start" by (rule reach_init [of jinit, OF sample_init])
  have s1: "jstep False rush sample_start (?c Ctx_Live [0])" using jstep.cancels [of False rush sample_start] ctl by (simp add: sample_start_def)
  have s2: "jstep False rush (?c Ctx_Live [0]) (?c Ctx_Cancelled [0])"
    using jstep.ctx_ends [of "?c Ctx_Live [0]" "?k Ctx_Live [0]" False Ctx_Cancelled rush] by (simp add: may_end_def end_ctx_def)
  have s3: "jstep False rush (?c Ctx_Cancelled [0]) (?c Ctx_Cancelled [])"
    using jstep.breaks [of "?c Ctx_Cancelled [0]" "?k Ctx_Cancelled [0]" rush False] by (simp add: sample_fields queued_run_def)
  have s4: "jstep False rush (?c Ctx_Cancelled []) sample_over"
    using jstep.finishes [of "?c Ctx_Cancelled []" "?k Ctx_Cancelled []" True False rush 5] by (simp add: sample_over_def)
  show ?thesis by (rule reach_step [OF reach_step [OF reach_step [OF reach_step [OF r0 s1] s2] s3] s4])
qed

lemma sample_over_state: "jb_State (g_job sample_over) = JobCancelled"
  by (simp add: sample_over_def finishJob_def Let_def sample_fields finish_run_def queued_run_def)

theorem job_ends_as_its_runs_witness:
  "jb_State (g_job sample_over) = JobCancelled \<and> length (runs sample_over) = 1 \<and> list_all (\<lambda>run. runFinal (jr_State run)) (runs sample_over) \<and>
    list_ex (\<lambda>run. jr_State run \<noteq> RunSucceeded) (runs sample_over) \<and> jb_Cancelled (g_job sample_over)"
proof -
  have "length (runs sample_over) = 1" by (simp add: sample_over_def finishJob_def Let_def sample_fields)
  then show ?thesis using job_ends_as_its_runs [OF sample_over_reach] by (simp add: sample_over_state list_all_iff list_ex_iff)
qed


end
