(* ===== verification/Spec2Isabelle.thy ===== *)
theory Spec2Isabelle
  imports Policy_Layers Egress_Proxy Guest_Server Server_Keep Server_Snapshots Server_Output Gateway_Update Gateway_Router Gateway_Runs
begin

text \<open>
  A verification library for \<open>sandbox-cli\<close>: a client, a server that runs sandboxes as virtual machines on one host, an agent inside each
  machine, the proxy its traffic goes through, and a gateway in front of many servers.

  \<^bold>\<open>The program.\<close> The client (\<open>internal/policy\<close>) folds configuration layers into one configuration. The gateway
  (\<open>internal/gateway\<close>) knows who a caller is, which of a fleet's nodes has which sandbox and how much a tenant may use; it chooses a
  node for a create and forwards the rest. A node is a sandbox server (\<open>internal/server\<close>), which resolves a request against its operator's policy
  (\<open>internal/spec\<close>), keeps the records of its sandboxes and drives a backend (\<open>internal/backend\<close>). A machine's traffic is let through by
  the egress proxy (\<open>internal/egressproxy\<close>), and its processes are run by the guest agent (\<open>internal/guestproto\<close>), which the server speaks to over a
  framed protocol. The requests and answers between these parts are \<open>internal/api\<close>.

  \<^bold>\<open>Foundations.\<close> \<open>Prelude\<close> has results as sums, bytes, the two widths Go counts in (\<open>i64\<close> wraps) and interfaces as locales: a
  self-delimiting codec, an invariant of a step relation, which every state machine below interprets, and an invariant kept by all but some kinds of
  step, whose runs either end in it or have such a step. \<open>Go_Strings\<close>, \<open>Go_Regexp\<close> and \<open>Go_Path\<close> are what
  the program uses of the standard library: runes, trimming and splitting, anchored regular expressions, and clean paths.

  \<^bold>\<open>Client.\<close> \<open>Policy_Config\<close> and \<open>Policy_Layers\<close> (\<open>config.go\<close>, \<open>profile.go\<close>, \<open>trust.go\<close>, \<open>load.go\<close>, \<open>keys.go\<close>): the layers, their merge, and that a file of an
  untrusted project only tightens what its user decided.

  \<^bold>\<open>Resolving.\<close> \<open>Api_Types\<close>, \<open>Spec_Resolve\<close>, \<open>Spec_Safety\<close> (\<open>api/types.go\<close>, \<open>spec/spec.go\<close>): a create request becomes a sandbox; it never reaches
  more hosts, takes more resources or lives longer than the operator allows.

  \<^bold>\<open>Egress.\<close> \<open>Egress_Host\<close>, \<open>Egress_SNI\<close>, \<open>Egress_DNS\<close>, \<open>Egress_Proxy\<close> (\<open>host.go\<close>, \<open>sni.go\<close>, \<open>dns.go\<close>, \<open>server.go\<close>, \<open>open.go\<close>): host names and matchers, the name
  in a TLS hello however it is cut into reads, replies to a guest's questions, and that the proxy dials only what the policy permits.

  \<^bold>\<open>Guest.\<close> \<open>Guest_Proto\<close>, \<open>Guest_Server\<close>, \<open>Guest_Session\<close> (\<open>proto.go\<close>, \<open>client.go\<close>, \<open>server.go\<close>, \<open>session.go\<close>): frames and their bounds, every request of
  the agent over an operating system that is an argument, and processes that outlive their connection: their output is complete, no
  wakeup is lost and their exit is delivered.

  \<^bold>\<open>Server.\<close> \<open>Server_Sandbox\<close> and \<open>Server_Safety\<close> (\<open>server.go\<close>, \<open>volumes.go\<close>, \<open>gpu.go\<close>, \<open>lifecycle.go\<close>) have the records and, as steps that interleave, creating,
  suspending, resuming, updating, terminating and reaping; live sandboxes share no name, no volume one of them writes and no GPU,
  unless a step has made a terminated one live again, which the code can do (\<open>terminated_comes_back\<close>).
  \<open>Server_Resize\<close> (\<open>resize\<close>), \<open>Server_Snapshots\<close> (\<open>schedule.go\<close> and the snapshot handlers), \<open>Server_Output\<close> (\<open>outputlog.go\<close>), \<open>Server_Pool\<close> and \<open>Server_Node\<close>
  (\<open>pool.go\<close>, \<open>node.go\<close>) and \<open>Server_Keep\<close> (\<open>keep.go\<close>) are the server's other parts; each has its own state machine or fold, and says what holds of it.

  \<^bold>\<open>Gateway.\<close> \<open>Gateway_Access\<close> (\<open>contracts.go\<close>, \<open>http.go\<close>, \<open>orgs.go\<close>, \<open>gateway.go\<close>, \<open>sandboxes.go\<close>): keys, organisations, owners and the router, which gives a
  caller only what is theirs. \<open>Gateway_Quota\<close> (\<open>gateway.go\<close>, \<open>lost.go\<close>), \<open>Gateway_Names\<close> (\<open>gateway.go\<close>, \<open>sandboxes.go\<close>, \<open>update.go\<close>) and \<open>Gateway_Nodes\<close>
  (\<open>nodes.go\<close>) are the three things a create holds while it is under way, over their interleavings: its share of the quota, its name and its room. What
  breaks the first two is part of the machine as steps of their own (\<open>qmove\<close>, \<open>nmove\<close>), and the theorems say that a run keeps the
  quota, or the names apart, or has such a step; the room of a node is followed while its polls do not overlap, no sandbox ends and no answer to a create is lost.
  \<open>Gateway_Schedule\<close> (\<open>schedule.go\<close>) chooses the node, \<open>Gateway_Fleet\<close> (\<open>resources.go\<close>) says what the nodes can do together, \<open>Gateway_Create\<close>
  (\<open>sandboxes.go\<close> and the files of groups, policies, logins and export) is the whole create, and \<open>Gateway_Update\<close> (\<open>update.go\<close>, \<open>resize.go\<close>) a change. The
  properties about a create and an update cross from the gateway's definitions to the node's (\<open>create_check\<close>, \<open>update_check\<close>).

  \<^bold>\<open>Services.\<close> \<open>Gateway_Services\<close> (\<open>services.go\<close>, \<open>services_controller.go\<close>, \<open>services_health.go\<close>, \<open>services_store.go\<close>, \<open>secrets.go\<close>): a spec and a count
  the gateway keeps true; a step of its controller takes out only replicas that are spent or not needed, and keeps as many healthy ones as
  there were or are asked for, whichever is fewer. \<open>Gateway_Replicas\<close> runs the controller against
  the API, the nodes, failed writes and restarts: every replica is checked by the spec it was made from, and none is forgotten
  unless one of four mishaps (\<open>cmove\<close>) happened; it also follows a deleted service that comes back, and a replica that a failed write abandons. \<open>Gateway_Router\<close>
  (\<open>router_http.go\<close>) is what a request from outside reaches: a healthy replica of the one public service its host names.

  \<^bold>\<open>Jobs.\<close> \<open>Gateway_Jobs\<close> (\<open>jobs.go\<close>, \<open>jobrun.go\<close>, \<open>api/jobs_types.go\<close>, \<open>agents.go\<close>): a job's spec and its checks, its record and the handlers, what
  a run asks for, how an attempt begins, is watched and is recorded, and what is kept and notified. \<open>Gateway_Runs\<close> runs the controller's goroutines
  against cancels, revocations, restarts and failures: attempts and parallelism stay within the spec, a job ends as its runs did, and a job that is over
  leaves no sandbox where nothing fails; it also follows a cancel that a restart finishes without ending the sandboxes.

  \<^bold>\<open>How code becomes definitions.\<close> A struct is a record, an enumeration a datatype, a handler one function with its early returns as
  \<open>Inl\<close>; a map whose order shows is an association list. What a lock protects is one step of an \<open>inductive\<close> relation, and what
  happens between two locks may interleave with anything. Integers are \<open>int\<close>, and sums that can overflow are wrapped by \<open>i64\<close>. A \<open>float64\<close> is \<open>f64\<close>: a
  rational, an infinity or not a number, and the rounding of a sum is an argument \<open>rnd\<close>.

  \<^bold>\<open>Arguments that stand for other code.\<close> The JSON codec, the operating system and the virtual machine monitor, the database's answers, the
  clock, the mapping of letters to lower case beyond ASCII (\<open>lr\<close>, \<open>cf_lower\<close>), and the rounding \<open>rnd\<close>. A theorem that relies on one
  says what it relies on, as \<open>backend_resizes\<close> does of the interface \<open>SandboxResizer\<close>.

  \<^bold>\<open>Bounds.\<close> Loops are structural recursion, or recursion with a termination proof. Where a loop depends on another party it has fuel, and it is
  proved that enough fuel gives the answer: \<open>createSpread\<close> needs one more than there are nodes, since no node is asked twice; the agent's
  answer and a follower's end are proved to come.

  \<^bold>\<open>Not modelled.\<close> The SQL text of the store (what it answers is an argument), the gateway's accounts, ssh and mail, the HTTP layer, the
  Firecracker and macOS backends, image downloads, the command line and the web interfaces: they are I/O or third-party protocols
  around the state modelled here. The superseded tree under \<open>_old\<close> is not built. Overlapping polls, ending sandboxes and creates whose answer was lost are not
  part of the room kept in \<open>Gateway_Nodes\<close>. \<open>Gateway_Quota\<close> and \<open>Gateway_Replicas\<close> have one gateway process on a store, which is what
  \<open>sql_serve.go\<close> holds to; \<open>Gateway_Replicas\<close> follows one service and \<open>Gateway_Runs\<close> one job. The goroutines that copy a process's output in \<open>Guest_Server\<close>
  are one after the other, the two locked parts of a routed request in \<open>Gateway_Router\<close> see one state of the service, and resizes and snapshots of a server
  are followed in \<open>Server_Resize\<close> and \<open>Server_Snapshots\<close> and not in the machine of \<open>Server_Safety\<close>. Sealing of secrets is an argument.
\<close>

end
